(* ===== verification/GoPrelude.thy ===== *)
theory GoPrelude
  imports Main "HOL-Library.Sublist" "HOL-Library.Word" "HOL-Library.Monad_Syntax"
begin

text \<open>
  Shared vocabulary of the development: the parts of the Go language and of its standard
  library (packages \<^verbatim>\<open>strings\<close>, \<^verbatim>\<open>strconv\<close>, \<^verbatim>\<open>net/textproto\<close>) that the modelled sources use,
  with the generic lemmas the component theories build on.

  A Go string is a sequence of bytes, modelled as \<^typ>\<open>string\<close> (\<^typ>\<open>char\<close> has 256 values).
  A Go call that may panic (nil dereference, slice out of range, explicit \<^verbatim>\<open>panic\<close>) has a result
  of type \<open>'a go\<close>, where \<^const>\<open>None\<close> is the panic; a call that returns \<^verbatim>\<open>(value, error)\<close> has a
  result of sum type with the error on the left.  An \<^verbatim>\<open>int64\<close> is an \<^typ>\<open>int\<close> whose range is checked
  (\<open>int64_range\<close>) where the source can leave it.
\<close>

type_synonym 'a go = "'a option"

abbreviation (input) panic :: "'a go" where
  "panic \<equiv> None"

named_theorems go_simps \<open>unfolding rules for the Go string functions\<close>

section \<open>Package strings\<close>

definition HasPrefix :: "string \<Rightarrow> string \<Rightarrow> bool" where
  "HasPrefix s p = prefix p s"

definition HasSuffix :: "string \<Rightarrow> string \<Rightarrow> bool" where
  "HasSuffix s p = suffix p s"

definition TrimPrefix :: "string \<Rightarrow> string \<Rightarrow> string" where
  "TrimPrefix s p = (if HasPrefix s p then drop (length p) s else s)"

definition TrimSuffix :: "string \<Rightarrow> string \<Rightarrow> string" where
  "TrimSuffix s p = (if HasSuffix s p then take (length s - length p) s else s)"

text \<open>\<^verbatim>\<open>strings.Index\<close> and \<^verbatim>\<open>strings.LastIndex\<close>; the result \<^verbatim>\<open>-1\<close> is \<^const>\<open>None\<close>.\<close>

fun Index :: "string \<Rightarrow> string \<Rightarrow> nat option" where
  "Index [] sub = (if sub = [] then Some 0 else None)"
| "Index (c # s) sub = (if prefix sub (c # s) then Some 0 else map_option Suc (Index s sub))"

fun LastIndex :: "string \<Rightarrow> string \<Rightarrow> nat option" where
  "LastIndex [] sub = (if sub = [] then Some 0 else None)"
| "LastIndex (c # s) sub =
     (case LastIndex s sub of
        Some i \<Rightarrow> Some (Suc i)
      | None \<Rightarrow> if prefix sub (c # s) then Some 0 else None)"

definition Contains :: "string \<Rightarrow> string \<Rightarrow> bool" where
  "Contains s sub = (Index s sub \<noteq> None)"

text \<open>\<^verbatim>\<open>strings.Split(s, sep)\<close> for a separator of one byte, and \<^verbatim>\<open>strings.Join\<close>.\<close>

fun Split :: "char \<Rightarrow> string \<Rightarrow> string list" where
  "Split c [] = [[]]"
| "Split c (x # xs) =
     (if x = c then [] # Split c xs
      else case Split c xs of [] \<Rightarrow> [[x]] | y # ys \<Rightarrow> (x # y) # ys)"

fun Join :: "string \<Rightarrow> string list \<Rightarrow> string" where
  "Join sep [] = []"
| "Join sep [x] = x"
| "Join sep (x # y # ys) = x @ sep @ Join sep (y # ys)"

text \<open>\<^verbatim>\<open>strings.ReplaceAll\<close> for a pattern of one byte, and \<^verbatim>\<open>strings.Count\<close> of one byte.\<close>

definition ReplaceByte :: "char \<Rightarrow> string \<Rightarrow> string \<Rightarrow> string" where
  "ReplaceByte c new s = concat (map (\<lambda>x. if x = c then new else [x]) s)"

definition CountByte :: "string \<Rightarrow> char \<Rightarrow> nat" where
  "CountByte s c = length (filter (\<lambda>x. x = c) s)"

text \<open>
  \<^verbatim>\<open>strings.TrimSpace\<close> and \<^verbatim>\<open>textproto.TrimString\<close>.  The first also trims the multi-byte
  Unicode spaces; bytes above 127 are kept here, so the model is exact on ASCII input.
\<close>

definition is_space :: "char \<Rightarrow> bool" where
  "is_space c = ((of_char c :: nat) \<in> {9, 10, 11, 12, 13, 32})"

definition is_ascii_space :: "char \<Rightarrow> bool" where
  "is_ascii_space c = ((of_char c :: nat) \<in> {9, 10, 13, 32})"

definition trim_by :: "(char \<Rightarrow> bool) \<Rightarrow> string \<Rightarrow> string" where
  "trim_by P s = rev (dropWhile P (rev (dropWhile P s)))"

definition TrimSpace :: "string \<Rightarrow> string" where
  "TrimSpace s = trim_by is_space s"

definition TrimString :: "string \<Rightarrow> string" where
  "TrimString s = trim_by is_ascii_space s"

section \<open>Package strconv\<close>

definition int64_range :: "int \<Rightarrow> bool" where
  "int64_range n \<longleftrightarrow> - (2 ^ 63) \<le> n \<and> n < 2 ^ 63"

text \<open>The arithmetic of \<^verbatim>\<open>int64\<close>: what a sum wraps to.\<close>

definition wrap64 :: "int \<Rightarrow> int" where
  "wrap64 n = (n + 2 ^ 63) mod 2 ^ 64 - 2 ^ 63"

definition digit_char :: "nat \<Rightarrow> char" where
  "digit_char d = char_of (48 + d)"

definition is_digit :: "char \<Rightarrow> bool" where
  "is_digit c = (48 \<le> (of_char c :: nat) \<and> (of_char c :: nat) \<le> 57)"

definition digit_val :: "char \<Rightarrow> nat" where
  "digit_val c = of_char c - 48"

fun FormatUint :: "nat \<Rightarrow> string" where
  "FormatUint n = (if n < 10 then [digit_char n] else FormatUint (n div 10) @ [digit_char (n mod 10)])"

declare FormatUint.simps [simp del]

definition FormatInt :: "int \<Rightarrow> string" where
  "FormatInt n = (if n < 0 then CHR ''-'' # FormatUint (nat (- n)) else FormatUint (nat n))"

definition digits_val :: "string \<Rightarrow> nat" where
  "digits_val s = foldl (\<lambda>n c. 10 * n + digit_val c) 0 s"

definition parse_digits :: "string \<Rightarrow> nat option" where
  "parse_digits s = (if s \<noteq> [] \<and> list_all is_digit s then Some (digits_val s) else None)"

text \<open>
  \<^verbatim>\<open>strconv.ParseInt(s, 10, 64)\<close>: an optional sign, then decimal digits only; \<^const>\<open>None\<close> is a
  non-nil error (bad syntax or a value out of range).
\<close>

definition ParseInt :: "string \<Rightarrow> int option" where
  "ParseInt s =
     (let body = (case s of c # cs \<Rightarrow> if c = CHR ''+'' \<or> c = CHR ''-'' then cs else s | [] \<Rightarrow> s);
          neg = (case s of c # cs \<Rightarrow> c = CHR ''-'' | [] \<Rightarrow> False)
      in case parse_digits body of
           None \<Rightarrow> None
         | Some n \<Rightarrow> (let v = (if neg then - int n else int n) in if int64_range v then Some v else None))"

section \<open>Lemmas on strings\<close>

lemma wrap64_id: "int64_range n \<Longrightarrow> wrap64 n = n"
  by (simp add: wrap64_def int64_range_def)

lemma wrap64_bounds: "\<lbrakk>0 \<le> n; n < 2 ^ 63\<rbrakk> \<Longrightarrow> wrap64 n = n"
  by (simp add: wrap64_id int64_range_def)

lemma HasPrefix_append [simp]: "HasPrefix (p @ s) p"
  by (simp add: HasPrefix_def)

lemma TrimPrefix_append [simp]: "TrimPrefix (p @ s) p = s"
  by (simp add: TrimPrefix_def)

lemma Split_not_Nil [simp]: "Split c s \<noteq> []"
  by (induction s) (auto split: list.splits)

lemma Split_no_sep: "c \<notin> set s \<Longrightarrow> Split c s = [s]"
  by (induction s) auto

lemma Split_append_sep: "Split c (s @ c # t) = Split c s @ Split c t"
  by (induction s) (auto split: list.splits)

lemma Split_elems: "x \<in> set (Split c s) \<Longrightarrow> c \<notin> set x"
  by (induction s arbitrary: x) (auto split: list.splits if_splits)

lemma Split_elems_subset: "x \<in> set (Split c s) \<Longrightarrow> set x \<subseteq> set s"
proof (induction s arbitrary: x)
  case (Cons a s)
  obtain y ys where s: "Split c s = y # ys" by (cases "Split c s") auto
  from Cons show ?case by (auto simp: s split: if_splits) blast+
qed simp

lemma Split_Join:
  "\<lbrakk>xs \<noteq> []; \<forall>x \<in> set xs. c \<notin> set x\<rbrakk> \<Longrightarrow> Split c (Join [c] xs) = xs"
  by (induction "[c]" xs rule: Join.induct) (auto simp: Split_no_sep Split_append_sep)

lemma Join_Split: "Join [c] (Split c s) = s"
proof (induction s)
  case (Cons a s)
  obtain y ys where s: "Split c s = y # ys" by (cases "Split c s") auto
  from Cons show ?case by (cases ys) (auto simp: s)
qed simp

lemma Join_Cons: "xs \<noteq> [] \<Longrightarrow> Join sep (x # xs) = x @ sep @ Join sep xs"
  by (cases xs) auto

lemma Join_append:
  "\<lbrakk>xs \<noteq> []; ys \<noteq> []\<rbrakk> \<Longrightarrow> Join sep (xs @ ys) = Join sep xs @ sep @ Join sep ys"
  by (induction xs rule: list_nonempty_induct) (auto simp: Join_Cons)

lemma set_Join: "set (Join sep xs) \<subseteq> \<Union> (set ` set xs) \<union> set sep"
  by (induction sep xs rule: Join.induct) auto

lemma Index_None_single: "Index s [c] = None \<longleftrightarrow> c \<notin> set s"
  by (induction s) auto

lemma Index_single_append: "c \<notin> set s \<Longrightarrow> Index (s @ c # t) [c] = Some (length s)"
  by (induction s) auto

lemma Contains_single [simp]: "Contains s [c] \<longleftrightarrow> c \<in> set s"
  by (simp add: Contains_def Index_None_single del: not_None_eq)

lemma Index_Some_iff: "(\<exists>i. Index s sub = Some i) \<longleftrightarrow> (\<exists>u v. s = u @ sub @ v)"
proof (induction s)
  case (Cons c s)
  show ?case
  proof (cases "prefix sub (c # s)")
    case True
    then obtain v where "c # s = [] @ sub @ v" by (auto simp: prefix_def)
    then show ?thesis using True by (metis Index.simps(2))
  next
    case False
    have "(\<exists>u v. c # s = u @ sub @ v) \<longleftrightarrow> (\<exists>u v. s = u @ sub @ v)"
    proof
      assume "\<exists>u v. c # s = u @ sub @ v"
      then obtain u v where uv: "c # s = u @ sub @ v" by blast
      with False show "\<exists>u v. s = u @ sub @ v"
        by (cases u) (auto simp: prefix_def)
    next
      assume "\<exists>u v. s = u @ sub @ v"
      then obtain u v where "s = u @ sub @ v" by blast
      then have "c # s = (c # u) @ sub @ v" by simp
      then show "\<exists>u v. c # s = u @ sub @ v" by blast
    qed
    with Cons False show ?thesis by auto
  qed
qed auto

lemma Contains_iff: "Contains s sub \<longleftrightarrow> (\<exists>u v. s = u @ sub @ v)"
  using Index_Some_iff [of s sub] by (auto simp: Contains_def)

lemma LastIndex_None_single: "LastIndex s [c] = None \<longleftrightarrow> c \<notin> set s"
  by (induction s) (auto split: option.splits)

lemma LastIndex_single: "c \<notin> set t \<Longrightarrow> LastIndex (s @ c # t) [c] = Some (length s)"
proof (induction s)
  case Nil
  then have "LastIndex t [c] = None" by (simp add: LastIndex_None_single)
  then show ?case by simp
qed simp

section \<open>Lemmas on numbers\<close>

lemma of_char_digit: "d < 10 \<Longrightarrow> (of_char (digit_char d) :: nat) = 48 + d"
  by (simp add: digit_char_def)

lemma is_digit_digit_char [simp]: "d < 10 \<Longrightarrow> is_digit (digit_char d)"
  by (simp add: is_digit_def of_char_digit)

lemma digit_val_digit_char [simp]: "d < 10 \<Longrightarrow> digit_val (digit_char d) = d"
  by (simp add: digit_val_def of_char_digit)

lemma is_digit_not_sign: "is_digit c \<Longrightarrow> c \<noteq> CHR ''-'' \<and> c \<noteq> CHR ''+'' \<and> c \<noteq> CHR '':'' \<and> c \<noteq> CHR ''/''
    \<and> c \<noteq> CHR '' '' \<and> c \<noteq> CHR '',''"
  by (auto simp: is_digit_def)

lemma digit_char_not_sign:
  assumes "d < 10"
  shows "digit_char d \<noteq> CHR ''-''" "digit_char d \<noteq> CHR ''+''"
  using is_digit_not_sign [OF is_digit_digit_char [OF assms]] by blast+

lemma FormatUint_not_Nil [simp]: "FormatUint n \<noteq> []"
  by (subst FormatUint.simps) simp

lemma FormatUint_digits: "list_all is_digit (FormatUint n)"
proof (induction n rule: FormatUint.induct)
  case (1 n)
  then show ?case by (subst FormatUint.simps) auto
qed

lemma digits_val_append: "digits_val (s @ [c]) = 10 * digits_val s + digit_val c"
  by (simp add: digits_val_def)

lemma digits_val_FormatUint: "digits_val (FormatUint n) = n"
proof (induction n rule: FormatUint.induct)
  case (1 n)
  show ?case
  proof (cases "n < 10")
    case True
    then show ?thesis by (subst FormatUint.simps) (simp add: digits_val_def)
  next
    case False
    with 1 show ?thesis by (subst FormatUint.simps) (simp add: digits_val_append)
  qed
qed

lemma parse_digits_FormatUint [simp]: "parse_digits (FormatUint n) = Some n"
  by (simp add: parse_digits_def FormatUint_digits digits_val_FormatUint)

lemma FormatUint_inj: "FormatUint m = FormatUint n \<Longrightarrow> m = n"
  by (metis digits_val_FormatUint)

lemma FormatUint_hd: "\<exists>d cs. d < 10 \<and> FormatUint n = digit_char d # cs"
proof (induction n rule: FormatUint.induct)
  case (1 n)
  show ?case
  proof (cases "n < 10")
    case True
    then show ?thesis by (subst FormatUint.simps) auto
  next
    case False
    with 1 obtain d cs where "d < 10" "FormatUint (n div 10) = digit_char d # cs" by blast
    with False show ?thesis by (subst FormatUint.simps) auto
  qed
qed

lemma ParseInt_FormatInt: "int64_range n \<Longrightarrow> ParseInt (FormatInt n) = Some n"
proof (cases "n < 0")
  case True
  assume "int64_range n"
  with True show ?thesis by (simp add: ParseInt_def FormatInt_def)
next
  case False
  assume "int64_range n"
  moreover obtain d cs where "d < 10" "FormatUint (nat n) = digit_char d # cs"
    using FormatUint_hd by blast
  moreover have "parse_digits (digit_char d # cs) = Some (nat n)"
    using parse_digits_FormatUint [of "nat n"] calculation by simp
  ultimately show ?thesis using False
    by (simp add: ParseInt_def FormatInt_def digit_char_not_sign)
qed

lemma ParseInt_range: "ParseInt s = Some n \<Longrightarrow> int64_range n"
  by (auto simp: ParseInt_def Let_def split: option.splits if_splits)

lemma FormatInt_not_Nil [simp]: "FormatInt n \<noteq> []"
  by (auto simp: FormatInt_def)

lemma FormatInt_chars: "c \<in> set (FormatInt n) \<Longrightarrow> is_digit c \<or> c = CHR ''-''"
  using FormatUint_digits by (auto simp: FormatInt_def list_all_iff split: if_splits)

lemma trim_by_id:
  assumes "s = c # cs" "s = ds @ [e]" "\<not> P c" "\<not> P e"
  shows "trim_by P s = s"
proof -
  have "dropWhile P s = s" using assms(1,3) by simp
  moreover have "dropWhile P (rev s) = rev s" using assms(2,4) by simp
  ultimately show ?thesis by (simp add: trim_by_def)
qed

lemma trim_by_ends: "\<lbrakk>s \<noteq> []; \<not> P (hd s); \<not> P (last s)\<rbrakk> \<Longrightarrow> trim_by P s = s"
proof -
  assume a: "s \<noteq> []" "\<not> P (hd s)" "\<not> P (last s)"
  then have "dropWhile P s = s" by (cases s) auto
  moreover have "dropWhile P (rev s) = rev s" using a by (cases s rule: rev_cases) auto
  ultimately show ?thesis by (simp add: trim_by_def)
qed

end
