(* ===== verification/HttpRange.thy ===== *)
theory HttpRange
  imports GoPrelude
begin

text \<open>
  HTTP byte ranges, \<^verbatim>\<open>pkg/http_range/range.go\<close>: the parser of the \<^verbatim>\<open>Range\<close> request header, the
  parser of the \<^verbatim>\<open>Content-Range\<close> response header, and the printers of both.  The arithmetic is
  that of \<^verbatim>\<open>int64\<close>: every addition and subtraction goes through \<open>wrap64\<close>, and the lemmas show
  that nothing wraps for a non-negative content size.
\<close>

section \<open>Model\<close>

record Range =
  Start :: int
  Length :: int

datatype range_err = ErrNoOverlap | ErrInvalid

definition ContentRange :: "Range \<Rightarrow> int \<Rightarrow> string" where
  "ContentRange r sz =
     ''bytes '' @ FormatInt (Start r) @ ''-''
       @ FormatInt (wrap64 (wrap64 (Start r + Length r) - 1)) @ ''/'' @ FormatInt sz"

text \<open>
  One round of the loop of \<^verbatim>\<open>ParseRange\<close> over the comma-separated parts: \<open>Skip\<close> is the
  \<^verbatim>\<open>continue\<close> on an empty part, \<open>NoOverlap\<close> the \<^verbatim>\<open>continue\<close> that sets \<^verbatim>\<open>noOverlap\<close>.
\<close>

datatype piece = Skip | NoOverlap | Piece Range

definition ParseRange_suffix :: "int \<Rightarrow> string \<Rightarrow> range_err + piece" where
  "ParseRange_suffix sz end =
     (if end = [] \<or> hd end = CHR ''-'' then Inl ErrInvalid
      else case ParseInt end of
        None \<Rightarrow> Inl ErrInvalid
      | Some i \<Rightarrow>
          if i < 0 then Inl ErrInvalid
          else (let i = (if i > sz then sz else i);
                    st = wrap64 (sz - i)
                in Inr (Piece \<lparr>Start = st, Length = wrap64 (sz - st)\<rparr>)))"

definition ParseRange_from :: "int \<Rightarrow> string \<Rightarrow> string \<Rightarrow> range_err + piece" where
  "ParseRange_from sz start end =
     (case ParseInt start of
        None \<Rightarrow> Inl ErrInvalid
      | Some st \<Rightarrow>
          if st < 0 then Inl ErrInvalid
          else if st \<ge> sz then Inr NoOverlap
          else if end = [] then Inr (Piece \<lparr>Start = st, Length = wrap64 (sz - st)\<rparr>)
          else case ParseInt end of
            None \<Rightarrow> Inl ErrInvalid
          | Some i \<Rightarrow>
              if st > i then Inl ErrInvalid
              else (let i = (if i \<ge> sz then wrap64 (sz - 1) else i)
                    in Inr (Piece \<lparr>Start = st, Length = wrap64 (wrap64 (i - st) + 1)\<rparr>)))"

definition ParseRange_part :: "int \<Rightarrow> string \<Rightarrow> range_err + piece" where
  "ParseRange_part sz ra =
     (let ra = TrimString ra
      in if ra = [] then Inr Skip
         else case Index ra ''-'' of
           None \<Rightarrow> Inl ErrInvalid
         | Some i \<Rightarrow>
             (let start = TrimString (take i ra); end = TrimString (drop (Suc i) ra)
              in if start = [] then ParseRange_suffix sz end else ParseRange_from sz start end))"

fun ParseRange_loop :: "int \<Rightarrow> string list \<Rightarrow> Range list \<Rightarrow> bool \<Rightarrow> range_err + Range list \<times> bool" where
  "ParseRange_loop sz [] ranges noOverlap = Inr (ranges, noOverlap)"
| "ParseRange_loop sz (ra # ras) ranges noOverlap =
     (case ParseRange_part sz ra of
        Inl e \<Rightarrow> Inl e
      | Inr Skip \<Rightarrow> ParseRange_loop sz ras ranges noOverlap
      | Inr NoOverlap \<Rightarrow> ParseRange_loop sz ras ranges True
      | Inr (Piece r) \<Rightarrow> ParseRange_loop sz ras (ranges @ [r]) noOverlap)"

definition ParseRange :: "string \<Rightarrow> int \<Rightarrow> range_err + Range list" where
  "ParseRange s sz =
     (if s = [] then Inr []
      else if \<not> HasPrefix s ''bytes='' then Inl ErrInvalid
      else case ParseRange_loop sz (Split CHR '','' (drop 6 s)) [] False of
             Inl e \<Rightarrow> Inl e
           | Inr (ranges, noOverlap) \<Rightarrow>
               if noOverlap \<and> length ranges = 0 then Inl ErrNoOverlap else Inr ranges)"

text \<open>
  \<^verbatim>\<open>ParseContentRange\<close>; \<^const>\<open>None\<close> on the outside is the panic of \<^verbatim>\<open>s[len(b):p1]\<close> and
  \<^verbatim>\<open>s[p1+1:p2]\<close> when the bounds are out of order.
\<close>

definition go_slice :: "string \<Rightarrow> nat \<Rightarrow> nat \<Rightarrow> string go" where
  "go_slice s i j = (if i \<le> j \<and> j \<le> length s then Some (take (j - i) (drop i s)) else panic)"

definition ParseContentRange :: "string \<Rightarrow> (range_err + int \<times> int) go" where
  "ParseContentRange s =
     (if s = [] then Some (Inl ErrInvalid)
      else if \<not> HasPrefix s ''bytes '' then Some (Inl ErrInvalid)
      else case (Index s ''-'', Index s ''/'') of
        (Some p1, Some p2) \<Rightarrow>
          do {
            startStr \<leftarrow> go_slice s 6 p1;
            endStr \<leftarrow> go_slice s (Suc p1) p2;
            Some (case (ParseInt (TrimString startStr), ParseInt (TrimString endStr)) of
                    (Some st, Some en) \<Rightarrow> Inr (st, en)
                  | _ \<Rightarrow> Inl ErrInvalid)
          }
      | _ \<Rightarrow> Some (Inl ErrInvalid))"

type_synonym header = "string \<rightharpoonup> string list"

definition MimeHeader :: "Range \<Rightarrow> string \<Rightarrow> int \<Rightarrow> header" where
  "MimeHeader r contentType sz =
     [''Content-Range'' \<mapsto> [ContentRange r sz], ''Content-Type'' \<mapsto> [contentType]]"

text \<open>\<^verbatim>\<open>ApplyRangeToHttpHeader\<close>; a nil header is \<^const>\<open>None\<close>.\<close>

definition ApplyRangeToHttpHeader :: "Range \<Rightarrow> header option \<Rightarrow> header" where
  "ApplyRangeToHttpHeader p headerRef =
     (let h = (case headerRef of None \<Rightarrow> Map.empty | Some h \<Rightarrow> h)
      in if Start p = 0 \<and> Length p < 0 then h(''Range'' := None)
         else (let end = (if Length p \<ge> 0 then FormatInt (wrap64 (wrap64 (Start p + Length p) - 1)) else [])
               in h(''Range'' \<mapsto> [''bytes='' @ FormatInt (Start p) @ ''-'' @ end])))"

section \<open>Arithmetic and trimming\<close>

lemma trim_by_Nil [simp]: "trim_by P [] = []"
  by (simp add: trim_by_def)

lemma trim_by_none: "\<forall>c \<in> set s. \<not> P c \<Longrightarrow> trim_by P s = s"
  by (cases "s = []") (auto intro!: trim_by_ends)

lemma FormatInt_no_space: "c \<in> set (FormatInt n) \<Longrightarrow> \<not> is_ascii_space c"
  by (drule FormatInt_chars) (auto simp: is_ascii_space_def is_digit_def)

lemma TrimString_FormatInt [simp]: "TrimString (FormatInt n) = FormatInt n"
  by (simp add: TrimString_def trim_by_none FormatInt_no_space)

lemma TrimString_Nil [simp]: "TrimString [] = []"
  by (simp add: TrimString_def)

lemma FormatInt_nonneg_digits: "0 \<le> n \<Longrightarrow> list_all is_digit (FormatInt n)"
  using FormatUint_digits by (simp add: FormatInt_def)

lemma FormatInt_no_minus: "0 \<le> n \<Longrightarrow> CHR ''-'' \<notin> set (FormatInt n)"
  using FormatInt_nonneg_digits is_digit_not_sign by (fastforce simp: list_all_iff)

lemma FormatInt_no_sep:
  "CHR '','' \<notin> set (FormatInt n)" "CHR ''/'' \<notin> set (FormatInt n)" "CHR '':'' \<notin> set (FormatInt n)"
  using FormatInt_chars is_digit_not_sign by fastforce+

section \<open>The range parser\<close>

definition range_within :: "int \<Rightarrow> Range \<Rightarrow> bool" where
  "range_within sz r \<longleftrightarrow> 0 \<le> Start r \<and> 0 \<le> Length r \<and> Start r + Length r \<le> sz
     \<and> (Start r < sz \<or> Length r = 0)"

lemma ParseRange_suffix_within:
  assumes sz: "0 \<le> sz" "int64_range sz" and p: "ParseRange_suffix sz e = Inr (Piece r)"
  shows "range_within sz r"
proof -
  obtain i where i: "ParseInt e = Some i" "0 \<le> i"
    using p by (auto simp: ParseRange_suffix_def split: option.splits if_splits)
  define i' where "i' = (if i > sz then sz else i)"
  have i': "0 \<le> i'" "i' \<le> sz" using i sz by (auto simp: i'_def)
  have r: "r = (let st = wrap64 (sz - i') in \<lparr>Start = st, Length = wrap64 (sz - st)\<rparr>)"
    using p i by (simp add: ParseRange_suffix_def Let_def i'_def split: if_splits)
  have w: "wrap64 (sz - i') = sz - i'" "wrap64 i' = i'"
    using sz i' by (auto simp: int64_range_def intro!: wrap64_bounds)
  then show ?thesis using i' by (simp add: r range_within_def Let_def) linarith
qed

lemma ParseRange_from_within:
  assumes sz: "0 \<le> sz" "int64_range sz" and p: "ParseRange_from sz s e = Inr (Piece r)"
  shows "range_within sz r"
proof -
  obtain st where st: "ParseInt s = Some st" "0 \<le> st" "st < sz"
    using p by (auto simp: ParseRange_from_def split: option.splits if_splits)
  have w: "wrap64 (sz - st) = sz - st" "wrap64 (sz - 1) = sz - 1"
    using sz st by (auto simp: int64_range_def intro!: wrap64_bounds)
  show ?thesis
  proof (cases "e = []")
    case True
    with p st w show ?thesis by (auto simp: ParseRange_from_def range_within_def)
  next
    case False
    with p st obtain i where i: "ParseInt e = Some i" "st \<le> i"
      by (auto simp: ParseRange_from_def split: option.splits if_splits)
    define i' where "i' = (if i \<ge> sz then wrap64 (sz - 1) else i)"
    have i': "st \<le> i'" "i' < sz" using i st w by (auto simp: i'_def)
    have "wrap64 (i' - st) = i' - st" "wrap64 (i' - st + 1) = i' - st + 1"
      using sz st i' by (auto simp: int64_range_def intro!: wrap64_bounds)
    moreover have "r = \<lparr>Start = st, Length = wrap64 (wrap64 (i' - st) + 1)\<rparr>"
      using p st i False by (simp add: ParseRange_from_def Let_def i'_def split: if_splits)
    ultimately show ?thesis using st i' by (simp add: range_within_def)
  qed
qed

lemma ParseRange_part_within:
  assumes "0 \<le> sz" "int64_range sz" and p: "ParseRange_part sz ra = Inr (Piece r)"
  shows "range_within sz r"
proof -
  define t where "t = TrimString ra"
  have t: "t \<noteq> []" using p by (auto simp: ParseRange_part_def t_def)
  with p obtain i where i: "Index t ''-'' = Some i"
    by (cases "Index t ''-''") (simp_all add: ParseRange_part_def flip: t_def)
  show ?thesis
  proof (cases "TrimString (take i t) = []")
    case True
    with p t i have "ParseRange_suffix sz (TrimString (drop (Suc i) t)) = Inr (Piece r)"
      by (simp add: ParseRange_part_def flip: t_def)
    then show ?thesis by (rule ParseRange_suffix_within [OF assms(1,2)])
  next
    case False
    with p t i have "ParseRange_from sz (TrimString (take i t)) (TrimString (drop (Suc i) t)) = Inr (Piece r)"
      by (simp add: ParseRange_part_def flip: t_def)
    then show ?thesis by (rule ParseRange_from_within [OF assms(1,2)])
  qed
qed

lemma ParseRange_loop_within:
  assumes sz: "0 \<le> sz" "int64_range sz"
  shows "\<lbrakk>ParseRange_loop sz ras rs no = Inr (rs', no'); \<forall>r \<in> set rs. range_within sz r\<rbrakk>
         \<Longrightarrow> \<forall>r \<in> set rs'. range_within sz r"
proof (induction ras arbitrary: rs no)
  case (Cons ra ras)
  show ?case
  proof (cases "ParseRange_part sz ra")
    case (Inl e)
    with Cons.prems show ?thesis by simp
  next
    case (Inr p)
    show ?thesis
    proof (cases p)
      case (Piece r)
      have "range_within sz r" using Inr Piece by (simp add: ParseRange_part_within [OF sz])
      with Cons.prems Inr Piece show ?thesis by (intro Cons.IH [of "rs @ [r]" no]) auto
    qed (use Cons.prems Inr Cons.IH [of rs no] Cons.IH [of rs True] in simp_all)
  qed
qed simp

lemma ParseRange_ranges_within:
  assumes "0 \<le> sz" "int64_range sz" "ParseRange s sz = Inr ranges" "r \<in> set ranges"
  shows "range_within sz r"
proof (cases "s = []")
  case False
  with assms(3) obtain no where "ParseRange_loop sz (Split CHR '','' (drop 6 s)) [] False = Inr (ranges, no)"
    by (auto simp: ParseRange_def split: sum.splits if_splits)
  then have "\<forall>r \<in> set ranges. range_within sz r" by (rule ParseRange_loop_within [OF assms(1,2)]) simp
  with assms(4) show ?thesis by simp
qed (use assms(3,4) in \<open>simp add: ParseRange_def\<close>)

section \<open>Round trips\<close>

lemma TrimString_header:
  "\<lbrakk>0 \<le> a; 0 \<le> b\<rbrakk> \<Longrightarrow> TrimString (FormatInt a @ ''-'' @ FormatInt b) = FormatInt a @ ''-'' @ FormatInt b"
  unfolding TrimString_def
  by (rule trim_by_none) (auto dest: FormatInt_no_space simp: is_ascii_space_def)

lemma TrimString_header_open:
  "0 \<le> a \<Longrightarrow> TrimString (FormatInt a @ ''-'') = FormatInt a @ ''-''"
  unfolding TrimString_def
  by (rule trim_by_none) (auto dest: FormatInt_no_space simp: is_ascii_space_def)

lemma ParseRange_single:
  assumes "CHR '','' \<notin> set s"
  shows "ParseRange (''bytes='' @ s) sz =
     (case ParseRange_part sz s of
        Inl e \<Rightarrow> Inl e | Inr Skip \<Rightarrow> Inr [] | Inr NoOverlap \<Rightarrow> Inl ErrNoOverlap | Inr (Piece r) \<Rightarrow> Inr [r])"
  using assms by (auto simp: ParseRange_def HasPrefix_def Split_no_sep split: sum.splits piece.splits)

lemma ParseRange_part_closed:
  assumes "0 \<le> a" "a \<le> b" "b < sz" "int64_range sz"
  shows "ParseRange_part sz (FormatInt a @ ''-'' @ FormatInt b) = Inr (Piece \<lparr>Start = a, Length = b - a + 1\<rparr>)"
proof -
  have ix: "Index (FormatInt a @ CHR ''-'' # FormatInt b) ''-'' = Some (length (FormatInt a))"
    using assms by (simp add: Index_single_append FormatInt_no_minus)
  have r: "int64_range a" "int64_range b" using assms by (auto simp: int64_range_def)
  have w: "wrap64 (b - a) = b - a" "wrap64 (b - a + 1) = b - a + 1"
    using assms by (auto simp: int64_range_def intro!: wrap64_bounds)
  from assms r w have "ParseRange_from sz (FormatInt a) (FormatInt b) = Inr (Piece \<lparr>Start = a, Length = b - a + 1\<rparr>)"
    by (simp add: ParseRange_from_def ParseInt_FormatInt)
  with ix assms TrimString_header [of a b] show ?thesis by (simp add: ParseRange_part_def Let_def)
qed

lemma ParseRange_part_open:
  assumes "0 \<le> a" "a < sz" "int64_range sz"
  shows "ParseRange_part sz (FormatInt a @ ''-'') = Inr (Piece \<lparr>Start = a, Length = sz - a\<rparr>)"
proof -
  have ix: "Index (FormatInt a @ ''-'') ''-'' = Some (length (FormatInt a))"
    using assms by (simp add: Index_single_append FormatInt_no_minus)
  have r: "int64_range a" "wrap64 (sz - a) = sz - a"
    using assms by (auto simp: int64_range_def intro!: wrap64_bounds)
  with assms have "ParseRange_from sz (FormatInt a) [] = Inr (Piece \<lparr>Start = a, Length = sz - a\<rparr>)"
    by (simp add: ParseRange_from_def ParseInt_FormatInt)
  with ix assms TrimString_header_open [of a] show ?thesis by (simp add: ParseRange_part_def Let_def)
qed

section \<open>Properties\<close>

text \<open>Every range that \<^verbatim>\<open>ParseRange\<close> accepts lies inside the content: its start is
  non-negative, and its end does not pass the content size.  A range starts at a byte of the
  content unless it is empty.  No \<^verbatim>\<open>int64\<close> operation of the parser wraps on the way.\<close>

theorem ParseRange_within_content:
  assumes "0 \<le> sz" and "int64_range sz" and "ParseRange s sz = Inr ranges" and "r \<in> set ranges"
  shows "0 \<le> Start r \<and> 0 \<le> Length r \<and> Start r + Length r \<le> sz \<and> (Start r < sz \<or> Length r = 0)"
  using ParseRange_ranges_within [OF assms] by (simp add: range_within_def)

theorem ParseRange_within_content_witness:
  "ParseRange ''bytes=5-20, -3'' 10 = Inr [\<lparr>Start = 5, Length = 5\<rparr>, \<lparr>Start = 7, Length = 3\<rparr>]
   \<and> Start \<lparr>Start = 7, Length = 3\<rparr> + Length \<lparr>Start = 7, Length = 3\<rparr> \<le> 10"
proof -
  have p: "ParseRange ''bytes=5-20, -3'' 10 = Inr [\<lparr>Start = 5, Length = 5\<rparr>, \<lparr>Start = 7, Length = 3\<rparr>]"
    by code_simp
  show ?thesis
    using p ParseRange_within_content [of 10 "''bytes=5-20, -3''" _ "\<lparr>Start = 7, Length = 3\<rparr>", OF _ _ p]
    by (simp add: int64_range_def)
qed

text \<open>The header that \<^verbatim>\<open>ApplyRangeToHttpHeader\<close> writes for an upstream request is read back by
  \<^verbatim>\<open>ParseRange\<close> as the same range: a bounded range inside the content exactly, an unbounded one
  (\<^verbatim>\<open>Length = -1\<close>) as the rest of the content; a request for the whole content carries no
  \<^verbatim>\<open>Range\<close> header at all.\<close>

theorem ApplyRange_ParseRange_roundtrip:
  assumes "0 \<le> Start p" and "Start p < sz" and "int64_range sz" and "Length p \<noteq> 0"
    and "Length p > 0 \<Longrightarrow> Start p + Length p \<le> sz"
  shows "case ApplyRangeToHttpHeader p h ''Range'' of
           None \<Rightarrow> Start p = 0 \<and> Length p < 0
         | Some hs \<Rightarrow> \<exists>v. hs = [v] \<and> ParseRange v sz =
             Inr [if Length p < 0 then \<lparr>Start = Start p, Length = sz - Start p\<rparr>
                  else \<lparr>Start = Start p, Length = Length p\<rparr>]"
proof (cases "Length p < 0")
  case True
  have "ParseRange (''bytes='' @ (FormatInt (Start p) @ ''-'')) sz = Inr [\<lparr>Start = Start p, Length = sz - Start p\<rparr>]"
    using assms(1-3) FormatInt_no_sep(1) by (subst ParseRange_single) (auto simp: ParseRange_part_open)
  with True show ?thesis by (simp add: ApplyRangeToHttpHeader_def Let_def)
next
  case False
  define b where "b = Start p + Length p - 1"
  have b: "Start p \<le> b" "b < sz" "Length p = b - Start p + 1" using False assms(4,5) by (auto simp: b_def)
  have "0 \<le> Length p" "Start p + Length p \<le> sz" using False assms(4,5) by auto
  then have "wrap64 (Start p + Length p) = Start p + Length p"
    using assms(1,3) by (intro wrap64_bounds) (auto simp: int64_range_def)
  moreover have "wrap64 b = b"
    using assms(1,3) b(1,2) by (intro wrap64_bounds) (auto simp: int64_range_def)
  ultimately have w: "wrap64 (wrap64 (Start p + Length p) - 1) = b" by (simp add: b_def)
  have "ParseRange (''bytes='' @ (FormatInt (Start p) @ ''-'' @ FormatInt b)) sz
      = Inr [\<lparr>Start = Start p, Length = b - Start p + 1\<rparr>]"
    using assms(1-3) b FormatInt_no_sep(1)
    by (subst ParseRange_single) (auto simp: ParseRange_part_closed [unfolded append.simps])
  with False w b show ?thesis by (simp add: ApplyRangeToHttpHeader_def Let_def)
qed

theorem ApplyRange_ParseRange_roundtrip_witness:
  "ApplyRangeToHttpHeader \<lparr>Start = 2, Length = 3\<rparr> None ''Range'' = Some [''bytes=2-4'']
   \<and> ParseRange ''bytes=2-4'' 10 = Inr [\<lparr>Start = 2, Length = 3\<rparr>]"
proof -
  have "ApplyRangeToHttpHeader \<lparr>Start = 2, Length = 3\<rparr> None ''Range'' = Some [''bytes=2-4'']"
    by code_simp
  then show ?thesis
    using ApplyRange_ParseRange_roundtrip [of "\<lparr>Start = 2, Length = 3\<rparr>" 10 None]
    by (simp add: int64_range_def)
qed

text \<open>\<^verbatim>\<open>ParseContentRange\<close> recovers the first and last byte position from the value that
  \<^verbatim>\<open>ContentRange\<close> prints, for every non-empty range of non-negative start, and does not panic.\<close>

theorem ContentRange_roundtrip:
  assumes "0 \<le> Start r" and "0 < Length r" and "int64_range (Start r + Length r)" and "0 \<le> sz"
  shows "ParseContentRange (ContentRange r sz) = Some (Inr (Start r, Start r + Length r - 1))"
proof -
  define a where "a = FormatInt (Start r)"
  define e where "e = Start r + Length r - 1"
  define b where "b = FormatInt e"
  have w: "wrap64 (wrap64 (Start r + Length r) - 1) = e"
    using assms(1-3) by (simp add: e_def int64_range_def wrap64_bounds)
  have c: "ContentRange r sz = (''bytes '' @ a) @ CHR ''-'' # (b @ CHR ''/'' # FormatInt sz)"
    by (simp add: ContentRange_def a_def b_def w)
  have c2: "ContentRange r sz = (''bytes '' @ a @ ''-'' @ b) @ CHR ''/'' # FormatInt sz"
    by (simp add: c)
  have "CHR ''-'' \<notin> set (''bytes '' @ a)" using assms(1) FormatInt_no_minus by (simp add: a_def)
  then have i1: "Index (ContentRange r sz) ''-'' = Some (6 + length a)"
    unfolding c by (subst Index_single_append) simp_all
  have "CHR ''/'' \<notin> set (''bytes '' @ a @ ''-'' @ b)" using FormatInt_no_sep(2) by (simp add: a_def b_def)
  then have i2: "Index (ContentRange r sz) ''/'' = Some (7 + length a + length b)"
    unfolding c2 by (subst Index_single_append) simp_all
  have s1: "go_slice (ContentRange r sz) 6 (6 + length a) = Some a"
    by (simp add: c go_slice_def)
  have s2: "go_slice (ContentRange r sz) (Suc (6 + length a)) (7 + length a + length b) = Some b"
    by (simp add: c go_slice_def eval_nat_numeral)
  have "int64_range (Start r)" "int64_range e" using assms(1-3) by (auto simp: e_def int64_range_def)
  then have "ParseInt (TrimString a) = Some (Start r)" "ParseInt (TrimString b) = Some e"
    by (simp_all add: a_def b_def ParseInt_FormatInt)
  with i1 i2 s1 s2 show ?thesis
    by (simp add: ParseContentRange_def HasPrefix_def e_def) (simp add: c)
qed

theorem ContentRange_roundtrip_witness:
  "ParseContentRange (ContentRange \<lparr>Start = 10, Length = 5\<rparr> 100) = Some (Inr (10, 14))"
  using ContentRange_roundtrip [of "\<lparr>Start = 10, Length = 5\<rparr>" 100] by (simp add: int64_range_def)

end
