(* ===== verification/Errs.thy ===== *)
theory Errs
  imports GoPrelude
begin

text \<open>
  The sentinel errors of \<^verbatim>\<open>internal/errs\<close>.  The sources wrap them with messages
  (\<^verbatim>\<open>errors.WithMessage\<close>, \<^verbatim>\<open>errors.Wrap\<close>, \<^verbatim>\<open>errors.WithStack\<close>) and test them through
  \<^verbatim>\<open>errors.Cause\<close>/\<^verbatim>\<open>errors.Is\<close>, which look through the wrapping: the model keeps the cause and
  drops the added text.  \<open>ErrMsg\<close> is an error made on the spot (\<^verbatim>\<open>errors.New\<close>,
  \<^verbatim>\<open>errors.Errorf\<close>); \<open>ErrExt\<close> is an error that comes out of code outside the repository.
\<close>

datatype err =
    NotImplement | NotSupport | RelativePath
  | MoveBetweenTwoStorages | UploadNotSupported
  | MetaNotFound | StorageNotFound | StreamIncomplete
  | ObjectNotFound | NotFolder | NotFile
  | PermissionDenied | InvalidName
  | EmptyUsername | EmptyPassword | WrongPassword | DeleteAdminOrGuest
  | ErrChangeDefaultRole
  | TooManyDevices | SessionInactive
  | RecordNotFound
  | ErrMsg string
  | ErrExt string

fun IsObjectNotFound :: "err \<Rightarrow> bool" where
  "IsObjectNotFound e = (e = ObjectNotFound)"

fun IsNotFoundError :: "err \<Rightarrow> bool" where
  "IsNotFoundError e = (e = ObjectNotFound \<or> e = StorageNotFound)"

fun IsNotSupportError :: "err \<Rightarrow> bool" where
  "IsNotSupportError e = (e = NotSupport)"

fun IsNotImplement :: "err \<Rightarrow> bool" where
  "IsNotImplement e = (e = NotImplement)"

end
