(* ===== verification/PathUtil.thy ===== *)
theory PathUtil
  imports Errs
begin

text \<open>
  Request paths.  The first section models what the sources use of Go's package \<^verbatim>\<open>path\<close>
  (\<^verbatim>\<open>Clean\<close>, \<^verbatim>\<open>Join\<close>, \<^verbatim>\<open>Split\<close>, \<^verbatim>\<open>Dir\<close>, \<^verbatim>\<open>Base\<close>, \<^verbatim>\<open>Ext\<close>); the second translates
  \<^verbatim>\<open>pkg/utils/path.go\<close>, \<^verbatim>\<open>pkg/utils/balance.go\<close> and \<^verbatim>\<open>slashClean\<close> of \<^verbatim>\<open>server/webdav/file.go\<close>.
  The abstraction is the list of components of a cleaned rooted path: \<open>comps\<close> reads it off,
  \<open>render\<close> prints it, and every path operation is characterised on component lists, so that
  confinement properties become statements about list prefixes.
\<close>

section \<open>Package path\<close>

definition clean_step :: "bool \<Rightarrow> string list \<Rightarrow> string \<Rightarrow> string list" where
  "clean_step rooted st s =
     (if s = [] \<or> s = ''.'' then st
      else if s = ''..'' then
        (case st of
           [] \<Rightarrow> if rooted then [] else [''..'']
         | t # ts \<Rightarrow> if t = ''..'' then ''..'' # st else ts)
      else s # st)"

definition path_Clean :: "string \<Rightarrow> string" where
  "path_Clean p =
     (if p = [] then ''.''
      else let rooted = HasPrefix p ''/'';
               cs = rev (foldl (clean_step rooted) [] (Split CHR ''/'' p))
           in if rooted then CHR ''/'' # Join ''/'' cs
              else if cs = [] then ''.'' else Join ''/'' cs)"

definition path_Join :: "string \<Rightarrow> string \<Rightarrow> string" where
  "path_Join a b =
     (if a = [] \<and> b = [] then []
      else if a = [] then path_Clean b
      else path_Clean (a @ ''/'' @ b))"

definition path_Split :: "string \<Rightarrow> string \<times> string" where
  "path_Split p =
     (case LastIndex p ''/'' of
        None \<Rightarrow> ([], p)
      | Some i \<Rightarrow> (take (Suc i) p, drop (Suc i) p))"

definition path_Dir :: "string \<Rightarrow> string" where
  "path_Dir p = path_Clean (fst (path_Split p))"

definition path_Base :: "string \<Rightarrow> string" where
  "path_Base p =
     (if p = [] then ''.''
      else let q = rev (dropWhile (\<lambda>c. c = CHR ''/'') (rev p));
               b = snd (path_Split q)
           in if b = [] then ''/'' else b)"

definition path_Ext :: "string \<Rightarrow> string" where
  "path_Ext p =
     (let b = snd (path_Split p)
      in case LastIndex b ''.'' of None \<Rightarrow> [] | Some i \<Rightarrow> drop i b)"

definition to_lower :: "char \<Rightarrow> char" where
  "to_lower c = (let n = (of_char c :: nat) in if 65 \<le> n \<and> n \<le> 90 then char_of (n + 32) else c)"

definition ToLower :: "string \<Rightarrow> string" where
  "ToLower s = map to_lower s"

section \<open>pkg/utils/path.go and pkg/utils/balance.go\<close>

definition FixAndCleanPath :: "string \<Rightarrow> string" where
  "FixAndCleanPath path =
     (let path = ReplaceByte CHR 0x5C ''/'' path;
          path = (if \<not> HasPrefix path ''/'' then ''/'' @ path else path)
      in path_Clean path)"

definition PathAddSeparatorSuffix :: "string \<Rightarrow> string" where
  "PathAddSeparatorSuffix path = (if \<not> HasSuffix path ''/'' then path @ ''/'' else path)"

definition PathEqual :: "string \<Rightarrow> string \<Rightarrow> bool" where
  "PathEqual path1 path2 = (FixAndCleanPath path1 = FixAndCleanPath path2)"

definition IsSubPath :: "string \<Rightarrow> string \<Rightarrow> bool" where
  "IsSubPath path subPath =
     (let path = FixAndCleanPath path; subPath = FixAndCleanPath subPath
      in path = subPath \<or> HasPrefix subPath (PathAddSeparatorSuffix path))"

definition Ext :: "string \<Rightarrow> string" where
  "Ext path =
     (let ext = path_Ext path;
          ext = (case ext of c # cs \<Rightarrow> if c = CHR ''.'' then cs else ext | [] \<Rightarrow> ext)
      in ToLower ext)"

definition JoinBasePath :: "string \<Rightarrow> string \<Rightarrow> err + string" where
  "JoinBasePath basePath reqPath =
     (if reqPath = ''..'' \<or> HasSuffix reqPath ''/..'' \<or> HasPrefix reqPath ''../''
         \<or> Contains reqPath ''/../''
      then Inl RelativePath
      else Inr (path_Join (FixAndCleanPath basePath) (FixAndCleanPath reqPath)))"

definition GetActualMountPath :: "string \<Rightarrow> string" where
  "GetActualMountPath mountPath =
     (case LastIndex mountPath ''.balance'' of
        Some bIndex \<Rightarrow> take bIndex mountPath
      | None \<Rightarrow> mountPath)"

definition IsBalance :: "string \<Rightarrow> bool" where
  "IsBalance str = Contains str ''.balance''"

definition GetFullPath :: "string \<Rightarrow> string \<Rightarrow> string" where
  "GetFullPath mountPath path = path_Join (GetActualMountPath mountPath) path"

definition ValidateNameComponent :: "string \<Rightarrow> err option" where
  "ValidateNameComponent name =
     (if name = [] then Some InvalidName
      else if name = ''.'' \<or> name = ''..'' then Some InvalidName
      else if Contains name ''/'' \<or> Contains name [CHR 0x5C] then Some InvalidName
      else if Contains name ''..'' then Some InvalidName
      else if CHR 0x00 \<in> set name then Some InvalidName
      else None)"

definition JoinUnderBase :: "string \<Rightarrow> string \<Rightarrow> err + string" where
  "JoinUnderBase baseDir name =
     (case ValidateNameComponent name of
        Some e \<Rightarrow> Inl e
      | None \<Rightarrow>
          (let base = FixAndCleanPath baseDir;
               joined = FixAndCleanPath (path_Join base name)
           in if \<not> IsSubPath base joined then Inl InvalidName else Inr joined))"

text \<open>\<^verbatim>\<open>slashClean\<close> of \<^verbatim>\<open>server/webdav/file.go\<close>.\<close>

definition slashClean :: "string \<Rightarrow> string" where
  "slashClean name =
     (let name = (case name of [] \<Rightarrow> ''/'' | c # _ \<Rightarrow> if c \<noteq> CHR ''/'' then ''/'' @ name else name)
      in path_Clean name)"

section \<open>Component lists\<close>

definition comps :: "string \<Rightarrow> string list" where
  "comps p = rev (foldl (clean_step True) [] (Split CHR ''/'' p))"

definition render :: "string list \<Rightarrow> string" where
  "render cs = CHR ''/'' # Join ''/'' cs"

definition valid_comp :: "string \<Rightarrow> bool" where
  "valid_comp c \<longleftrightarrow> c \<noteq> [] \<and> c \<noteq> ''.'' \<and> c \<noteq> ''..'' \<and> CHR ''/'' \<notin> set c"

definition fcomps :: "string \<Rightarrow> string list" where
  "fcomps p = comps (ReplaceByte CHR 0x5C ''/'' p)"

definition clean_path :: "string \<Rightarrow> bool" where
  "clean_path p \<longleftrightarrow> (\<exists>cs. p = render cs \<and> list_all valid_comp cs)"

lemma clean_step_valid:
  "\<lbrakk>list_all valid_comp st; CHR ''/'' \<notin> set s\<rbrakk> \<Longrightarrow> list_all valid_comp (clean_step True st s)"
  by (auto simp: clean_step_def valid_comp_def split: list.splits)

lemma foldl_clean_valid:
  "\<lbrakk>list_all valid_comp st; \<forall>s \<in> set ss. CHR ''/'' \<notin> set s\<rbrakk>
   \<Longrightarrow> list_all valid_comp (foldl (clean_step True) st ss)"
  by (induction ss arbitrary: st) (auto intro: clean_step_valid)

lemma comps_valid [simp]: "list_all valid_comp (comps p)"
  unfolding comps_def list_all_rev
  by (rule foldl_clean_valid) (auto dest: Split_elems)

lemma foldl_clean_id:
  "list_all valid_comp cs \<Longrightarrow> foldl (clean_step True) st cs = rev cs @ st"
  by (induction cs arbitrary: st) (auto simp: clean_step_def valid_comp_def)

lemma clean_step_Nil [simp]: "clean_step r st [] = st"
  by (simp add: clean_step_def)

lemma valid_no_slash: "list_all valid_comp cs \<Longrightarrow> \<forall>c \<in> set cs. CHR ''/'' \<notin> set c"
  by (auto simp: list_all_iff valid_comp_def)

lemma comps_slash [simp]: "comps (CHR ''/'' # p) = comps p"
  by (simp add: comps_def)

lemma comps_Join: "list_all valid_comp cs \<Longrightarrow> comps (Join ''/'' cs) = cs"
  by (cases "cs = []") (simp_all add: comps_def Split_Join valid_no_slash foldl_clean_id)

lemma comps_render [simp]: "list_all valid_comp cs \<Longrightarrow> comps (render cs) = cs"
  by (simp add: render_def comps_Join)

lemma render_inj:
  "\<lbrakk>render cs = render ds; list_all valid_comp cs; list_all valid_comp ds\<rbrakk> \<Longrightarrow> cs = ds"
  by (metis comps_render)

lemma comps_append:
  "comps (p @ CHR ''/'' # q) = rev (foldl (clean_step True) (rev (comps p)) (Split CHR ''/'' q))"
  by (simp add: comps_def Split_append_sep)

lemma comps_append_valid:
  assumes "list_all valid_comp ds"
  shows "comps (p @ CHR ''/'' # render ds) = comps p @ ds"
proof -
  have "Split CHR ''/'' (render ds) = [] # Split CHR ''/'' (Join ''/'' ds)"
    by (simp add: render_def)
  then show ?thesis using assms
    by (cases "ds = []") (simp_all add: comps_append Split_Join valid_no_slash foldl_clean_id)
qed

lemma comps_append_one:
  "valid_comp c \<Longrightarrow> comps (p @ CHR ''/'' # c) = comps p @ [c]"
  by (simp add: comps_append Split_no_sep valid_comp_def clean_step_def)

lemma comps_Nil [simp]: "comps [] = []"
  by (simp add: comps_def)

lemma path_Clean_slash [simp]: "path_Clean ''/'' = ''/''"
  by (simp add: path_Clean_def HasPrefix_def)

lemma PathAddSeparatorSuffix_slash [simp]: "PathAddSeparatorSuffix ''/'' = ''/''"
  by (simp add: PathAddSeparatorSuffix_def HasSuffix_def)

lemma render_Nil [simp]: "render [] = ''/''"
  by (simp add: render_def)

lemma path_Clean_rooted: "path_Clean (CHR ''/'' # p) = render (comps p)"
  by (simp add: path_Clean_def HasPrefix_def comps_def render_def)

lemma path_Clean_render [simp]: "list_all valid_comp cs \<Longrightarrow> path_Clean (render cs) = render cs"
  using path_Clean_rooted [of "Join ''/'' cs"] by (simp add: render_def comps_Join)

lemma path_Join_render:
  "\<lbrakk>list_all valid_comp cs; list_all valid_comp ds\<rbrakk>
   \<Longrightarrow> path_Join (render cs) (render ds) = render (cs @ ds)"
  using path_Clean_rooted [of "Join ''/'' cs @ CHR ''/'' # render ds"]
    comps_append_valid [of ds "Join ''/'' cs"]
  by (simp add: path_Join_def comps_Join) (simp add: render_def)

lemma path_Join_one:
  "\<lbrakk>list_all valid_comp cs; valid_comp c\<rbrakk> \<Longrightarrow> path_Join (render cs) c = render (cs @ [c])"
  using path_Clean_rooted [of "Join ''/'' cs @ CHR ''/'' # c"] comps_append_one [of c "Join ''/'' cs"]
  by (simp add: path_Join_def comps_Join) (simp add: render_def)

lemma slashClean_render: "slashClean name = render (comps name)"
proof (cases name)
  case Nil
  then show ?thesis
    by (simp add: slashClean_def)
next
  case (Cons c cs)
  then show ?thesis
    using path_Clean_rooted [of name] path_Clean_rooted [of cs] by (simp add: slashClean_def)
qed

lemma FixAndCleanPath_render: "FixAndCleanPath p = render (fcomps p)"
proof (cases "ReplaceByte CHR 0x5C ''/'' p")
  case Nil
  then show ?thesis
    by (simp add: FixAndCleanPath_def fcomps_def HasPrefix_def)
next
  case (Cons c cs)
  then show ?thesis
    using path_Clean_rooted [of "c # cs"] path_Clean_rooted [of cs]
    by (auto simp: FixAndCleanPath_def fcomps_def HasPrefix_def Let_def)
qed

text \<open>Components of a fixed path hold no backslash either, so fixing twice changes nothing.\<close>

lemma set_foldl_clean:
  "set (foldl (clean_step r) st ss) \<subseteq> set st \<union> set ss \<union> {''..''}"
proof (induction ss arbitrary: st)
  case (Cons s ss)
  have "set (clean_step r st s) \<subseteq> set st \<union> {s, ''..''}"
    by (auto simp: clean_step_def split: list.splits if_splits)
  with Cons [of "clean_step r st s"] show ?case by auto
qed auto

lemma comps_chars: "c \<in> set (comps p) \<Longrightarrow> set c \<subseteq> set p"
proof -
  assume c: "c \<in> set (comps p)"
  then have "c \<in> set (Split CHR ''/'' p) \<or> c = ''..''"
    using set_foldl_clean [of True "[]" "Split CHR ''/'' p"] by (auto simp: comps_def)
  moreover have "c \<noteq> ''..''"
    using c comps_valid [of p] by (auto simp: list_all_iff valid_comp_def)
  ultimately show ?thesis by (auto dest: Split_elems_subset)
qed

lemma ReplaceByte_id: "c \<notin> set s \<Longrightarrow> ReplaceByte c new s = s"
  unfolding ReplaceByte_def by (induction s) auto

lemma ReplaceByte_notin: "c \<notin> set new \<Longrightarrow> c \<notin> set (ReplaceByte c new s)"
  unfolding ReplaceByte_def by (induction s) auto

lemma ReplaceByte_Cons [simp]:
  "ReplaceByte c new (x # xs) = (if x = c then new else [x]) @ ReplaceByte c new xs"
  by (simp add: ReplaceByte_def)

lemma ReplaceByte_append [simp]:
  "ReplaceByte c new (xs @ ys) = ReplaceByte c new xs @ ReplaceByte c new ys"
  by (simp add: ReplaceByte_def)

definition fix_comp :: "string \<Rightarrow> bool" where
  "fix_comp c \<longleftrightarrow> valid_comp c \<and> CHR 0x5C \<notin> set c"

lemma fcomps_fix [simp]: "list_all fix_comp (fcomps p)"
proof -
  have "CHR 0x5C \<notin> set (ReplaceByte CHR 0x5C ''/'' p)"
    by (rule ReplaceByte_notin) simp
  then have "\<forall>c \<in> set (fcomps p). CHR 0x5C \<notin> set c"
    using comps_chars by (fastforce simp: fcomps_def)
  with comps_valid [of "ReplaceByte CHR 0x5C ''/'' p"] show ?thesis
    by (auto simp: list_all_iff fix_comp_def fcomps_def)
qed

lemma fix_valid: "list_all fix_comp cs \<Longrightarrow> list_all valid_comp cs"
  by (auto simp: list_all_iff fix_comp_def)

lemma fcomps_valid [simp]: "list_all valid_comp (fcomps p)"
  by (rule fix_valid) simp

lemma render_no_backslash: "list_all fix_comp cs \<Longrightarrow> CHR 0x5C \<notin> set (render cs)"
  using set_Join [of "''/''" cs] by (fastforce simp: render_def list_all_iff fix_comp_def)

lemma fcomps_render [simp]: "list_all fix_comp cs \<Longrightarrow> fcomps (render cs) = cs"
  by (simp add: fcomps_def ReplaceByte_id render_no_backslash fix_valid)

lemma fcomps_FixAndCleanPath [simp]: "fcomps (FixAndCleanPath p) = fcomps p"
  by (simp add: FixAndCleanPath_render)

lemma FixAndCleanPath_idem [simp]: "FixAndCleanPath (FixAndCleanPath p) = FixAndCleanPath p"
  by (simp add: FixAndCleanPath_render)

lemma FixAndCleanPath_id: "list_all fix_comp cs \<Longrightarrow> FixAndCleanPath (render cs) = render cs"
  by (simp add: FixAndCleanPath_render)

lemma PathEqual_comps: "PathEqual p q \<longleftrightarrow> fcomps p = fcomps q"
  unfolding PathEqual_def FixAndCleanPath_render by (metis comps_render fcomps_valid)

lemma FixAndCleanPath_root: "FixAndCleanPath p = ''/'' \<longleftrightarrow> fcomps p = []"
proof -
  have "FixAndCleanPath p = ''/'' \<longleftrightarrow> render (fcomps p) = render []"
    by (simp add: FixAndCleanPath_render render_def)
  also have "\<dots> \<longleftrightarrow> fcomps p = []" using render_inj [of "fcomps p" "[]"] by auto
  finally show ?thesis .
qed

section \<open>The ancestor order on paths\<close>

lemma last_Join:
  "\<lbrakk>cs \<noteq> []; list_all valid_comp cs\<rbrakk> \<Longrightarrow> Join ''/'' cs \<noteq> [] \<and> last (Join ''/'' cs) \<noteq> CHR ''/''"
proof (induction cs rule: list_nonempty_induct)
  case (single x)
  then show ?case by (auto simp: valid_comp_def dest: last_in_set)
next
  case (cons x xs)
  then show ?case by (auto simp: Join_Cons)
qed

lemma PathAddSeparatorSuffix_render:
  "list_all valid_comp cs \<Longrightarrow>
   PathAddSeparatorSuffix (render cs) = (if cs = [] then ''/'' else render cs @ ''/'')"
proof (cases "cs = []")
  case True
  then show ?thesis by (simp add: PathAddSeparatorSuffix_def render_def HasSuffix_def)
next
  case False
  assume "list_all valid_comp cs"
  with False have "last (render cs) \<noteq> CHR ''/''"
    using last_Join [of cs] by (simp add: render_def)
  then have "\<not> HasSuffix (render cs) ''/''"
    by (auto simp: HasSuffix_def suffix_def)
  with False show ?thesis by (simp add: PathAddSeparatorSuffix_def)
qed

lemma Split_render:
  "\<lbrakk>ds \<noteq> []; list_all valid_comp ds\<rbrakk> \<Longrightarrow> Split CHR ''/'' (render ds) = [] # ds"
  by (simp add: render_def Split_Join valid_no_slash)

lemma render_prefix_strict:
  assumes "list_all valid_comp cs" "list_all valid_comp ds" "cs \<noteq> []"
  shows "prefix (render cs @ ''/'') (render ds) \<longleftrightarrow> strict_prefix cs ds"
proof
  assume "prefix (render cs @ ''/'') (render ds)"
  then obtain t where t: "render ds = render cs @ CHR ''/'' # t" by (auto simp: prefix_def)
  then have "ds \<noteq> []" using assms(3) by (auto simp: render_def)
  then have "[] # ds = ([] # cs) @ Split CHR ''/'' t"
    using t assms Split_render Split_append_sep by metis
  then show "strict_prefix cs ds" by (auto simp: strict_prefix_def prefix_def)
next
  assume "strict_prefix cs ds"
  then obtain es where "ds = cs @ es" "es \<noteq> []" by (auto simp: strict_prefix_def prefix_def)
  with assms(3) show "prefix (render cs @ ''/'') (render ds)"
    by (simp add: render_def Join_append)
qed

lemma render_sub:
  assumes "list_all valid_comp cs" "list_all valid_comp ds"
  shows "(render cs = render ds \<or> prefix (PathAddSeparatorSuffix (render cs)) (render ds))
         \<longleftrightarrow> prefix cs ds"
proof (cases "cs = []")
  case True
  then show ?thesis by (simp add: prefix_def render_def)
next
  case False
  with assms have "prefix (PathAddSeparatorSuffix (render cs)) (render ds) \<longleftrightarrow> strict_prefix cs ds"
    by (simp add: PathAddSeparatorSuffix_render render_prefix_strict)
  then show ?thesis using render_inj [OF _ assms] by (auto simp: strict_prefix_def)
qed

lemma IsSubPath_comps: "IsSubPath p q \<longleftrightarrow> prefix (fcomps p) (fcomps q)"
  using render_sub [of "fcomps p" "fcomps q"]
  by (simp add: IsSubPath_def FixAndCleanPath_render HasPrefix_def)

lemma IsSubPath_refl [simp]: "IsSubPath p p"
  by (simp add: IsSubPath_comps)

lemma IsSubPath_trans: "\<lbrakk>IsSubPath p q; IsSubPath q r\<rbrakk> \<Longrightarrow> IsSubPath p r"
  unfolding IsSubPath_comps by (rule prefix_order.trans)

lemma IsSubPath_antisym: "\<lbrakk>IsSubPath p q; IsSubPath q p\<rbrakk> \<Longrightarrow> PathEqual p q"
  unfolding IsSubPath_comps PathEqual_comps by (rule prefix_order.antisym)

lemma IsSubPath_root [simp]: "IsSubPath ''/'' p"
proof -
  have "fcomps ''/'' = []" using fcomps_render [of "[]"] by (simp add: render_def)
  then show ?thesis by (simp add: IsSubPath_comps)
qed

lemma IsSubPath_FixAndCleanPath [simp]:
  "IsSubPath (FixAndCleanPath p) q = IsSubPath p q"
  "IsSubPath p (FixAndCleanPath q) = IsSubPath p q"
  by (simp_all add: IsSubPath_comps)

section \<open>Parents and names\<close>

lemma render_snoc:
  "render (cs @ [c]) = (if cs = [] then ''/'' @ c else render cs @ ''/'' @ c)"
  by (simp add: render_def Join_append)

lemma path_Split_render:
  assumes "list_all valid_comp (cs @ [c])"
  shows "path_Split (render (cs @ [c])) = (PathAddSeparatorSuffix (render cs), c)"
proof -
  have v: "list_all valid_comp cs" "CHR ''/'' \<notin> set c" using assms by (auto simp: valid_comp_def)
  have r: "render (cs @ [c]) = (if cs = [] then [] else render cs) @ CHR ''/'' # c"
    by (simp add: render_snoc)
  have "LastIndex (render (cs @ [c])) ''/'' = Some (length (if cs = [] then [] else render cs))"
    unfolding r by (rule LastIndex_single [OF v(2)])
  then show ?thesis
    using v by (simp add: path_Split_def r PathAddSeparatorSuffix_render)
qed

lemma path_Clean_sep: "list_all valid_comp cs \<Longrightarrow> path_Clean (PathAddSeparatorSuffix (render cs)) = render cs"
proof -
  assume v: "list_all valid_comp cs"
  have "path_Clean (render cs @ ''/'') = render cs"
    using path_Clean_rooted [of "Join ''/'' cs @ ''/''"] comps_append [of "Join ''/'' cs" "[]"] v
    by (simp add: render_def comps_Join)
  then show ?thesis using v by (simp add: PathAddSeparatorSuffix_render)
qed

lemma path_Dir_render:
  "list_all valid_comp (cs @ [c]) \<Longrightarrow> path_Dir (render (cs @ [c])) = render cs"
  using path_Split_render [of cs c] by (simp add: path_Dir_def path_Clean_sep)

lemma path_Dir_root [simp]: "path_Dir ''/'' = ''/''"
  by (simp add: path_Dir_def path_Split_def path_Clean_def HasPrefix_def)

lemma path_Dir_render_butlast:
  "list_all valid_comp cs \<Longrightarrow> path_Dir (render cs) = render (butlast cs)"
proof (cases cs rule: rev_cases)
  case Nil
  then show ?thesis by (simp add: render_def)
next
  case (snoc ys y)
  then show "list_all valid_comp cs \<Longrightarrow> ?thesis" by (simp add: path_Dir_render)
qed

lemma path_Base_render:
  assumes "list_all valid_comp (cs @ [c])"
  shows "path_Base (render (cs @ [c])) = c"
proof -
  have c: "c \<noteq> []" "CHR ''/'' \<notin> set c" using assms by (auto simp: valid_comp_def)
  then obtain x xs where x: "rev c = x # xs" by (cases "rev c") auto
  then have "x \<in> set c" by (metis list.set_intros(1) set_rev)
  with c have "x \<noteq> CHR ''/''" by auto
  then have "rev (dropWhile (\<lambda>c. c = CHR ''/'') (rev (render (cs @ [c])))) = render (cs @ [c])"
    using x by (simp add: render_snoc)
  then show ?thesis
    using c path_Split_render [OF assms] by (simp add: path_Base_def) (simp add: render_snoc)
qed

section \<open>Confinement of joined paths\<close>

lemma JoinBasePath_comps:
  "JoinBasePath b r = Inr p \<Longrightarrow> p = render (fcomps b @ fcomps r)"
  by (auto simp: JoinBasePath_def FixAndCleanPath_render path_Join_render split: if_splits)

lemma fcomps_JoinBasePath:
  "JoinBasePath b r = Inr p \<Longrightarrow> fcomps p = fcomps b @ fcomps r"
  by (drule JoinBasePath_comps) simp

lemma ValidateNameComponent_None:
  "ValidateNameComponent name = None \<Longrightarrow> fix_comp name"
  by (auto simp: ValidateNameComponent_def fix_comp_def valid_comp_def split: if_splits)

lemma JoinUnderBase_eq:
  "JoinUnderBase baseDir name =
     (case ValidateNameComponent name of Some e \<Rightarrow> Inl e
      | None \<Rightarrow> Inr (render (fcomps baseDir @ [name])))"
proof (cases "ValidateNameComponent name")
  case None
  then have v: "fix_comp name" by (rule ValidateNameComponent_None)
  then have "valid_comp name" by (simp add: fix_comp_def)
  then have "path_Join (FixAndCleanPath baseDir) name = render (fcomps baseDir @ [name])"
    by (simp add: FixAndCleanPath_render path_Join_one)
  with v None show ?thesis
    by (simp add: JoinUnderBase_def FixAndCleanPath_id IsSubPath_comps)
qed (simp add: JoinUnderBase_def)

end
