(* ===== verification/GoHeap.thy ===== *)
theory GoHeap
  imports Main "HOL-Library.Multiset"
begin

text \<open>
  Go's \<^verbatim>\<open>container/heap\<close>, which \<^verbatim>\<open>server/webdav/lock.go\<close> uses for its expiry queue.  The package
  works on anything that implements \<^verbatim>\<open>heap.Interface\<close> (\<^verbatim>\<open>Len\<close>, \<^verbatim>\<open>Less\<close>, \<^verbatim>\<open>Swap\<close>, \<^verbatim>\<open>Push\<close>,
  \<^verbatim>\<open>Pop\<close>), so the model takes these operations as arguments and runs on an arbitrary state.
  The locale \<open>heap_interface\<close> states what an implementation promises; the heap order and the
  contents after \<^verbatim>\<open>Push\<close> and \<^verbatim>\<open>Remove\<close> are proved once in it.
\<close>

section \<open>The algorithms\<close>

function heap_up :: "('s \<Rightarrow> nat \<Rightarrow> nat \<Rightarrow> bool) \<Rightarrow> (nat \<Rightarrow> nat \<Rightarrow> 's \<Rightarrow> 's) \<Rightarrow> 's \<Rightarrow> nat \<Rightarrow> 's" where
  "heap_up lt swap s j =
     (let i = (j - 1) div 2
      in if i = j \<or> \<not> lt s j i then s else heap_up lt swap (swap i j s) i)"
  by pat_completeness auto
termination
  by (relation "measure (\<lambda>(_, _, _, j). j)") auto

function heap_down :: "('s \<Rightarrow> nat \<Rightarrow> nat \<Rightarrow> bool) \<Rightarrow> (nat \<Rightarrow> nat \<Rightarrow> 's \<Rightarrow> 's) \<Rightarrow> 's \<Rightarrow> nat \<Rightarrow> nat \<Rightarrow> 's \<times> nat"
  where
  "heap_down lt swap s i n =
     (let j1 = 2 * i + 1
      in if j1 \<ge> n then (s, i)
         else let j = (if j1 + 1 < n \<and> lt s (j1 + 1) j1 then j1 + 1 else j1)
              in if \<not> lt s j i then (s, i) else heap_down lt swap (swap i j s) j n)"
  by pat_completeness auto
termination
  by (relation "measure (\<lambda>(_, _, _, i, n). n - i)") (auto split: if_splits)

declare heap_up.simps [simp del] heap_down.simps [simp del]

definition heap_Push ::
  "('s \<Rightarrow> nat) \<Rightarrow> ('s \<Rightarrow> nat \<Rightarrow> nat \<Rightarrow> bool) \<Rightarrow> (nat \<Rightarrow> nat \<Rightarrow> 's \<Rightarrow> 's) \<Rightarrow> ('a \<Rightarrow> 's \<Rightarrow> 's) \<Rightarrow> 'a \<Rightarrow> 's \<Rightarrow> 's"
  where "heap_Push len lt swap push x s = (let s = push x s in heap_up lt swap s (len s - 1))"

definition heap_Remove ::
  "('s \<Rightarrow> nat) \<Rightarrow> ('s \<Rightarrow> nat \<Rightarrow> nat \<Rightarrow> bool) \<Rightarrow> (nat \<Rightarrow> nat \<Rightarrow> 's \<Rightarrow> 's) \<Rightarrow> ('s \<Rightarrow> 's) \<Rightarrow> nat \<Rightarrow> 's \<Rightarrow> 's"
  where
  "heap_Remove len lt swap pop i s =
     (let n = len s - 1;
          s = (if n \<noteq> i then
                 let s = swap i n s; (s, i') = heap_down lt swap s i n
                 in if i' > i then s else heap_up lt swap s i
               else s)
      in pop s)"

section \<open>Heaps as lists\<close>

definition lswap :: "nat \<Rightarrow> nat \<Rightarrow> 'a list \<Rightarrow> 'a list" where
  "lswap i j xs = xs[i := xs ! j, j := xs ! i]"

definition lless :: "('a \<Rightarrow> int) \<Rightarrow> 'a list \<Rightarrow> nat \<Rightarrow> nat \<Rightarrow> bool" where
  "lless k xs i j = (k (xs ! i) < k (xs ! j))"

abbreviation parent :: "nat \<Rightarrow> nat" where
  "parent i \<equiv> (i - 1) div 2"

text \<open>The heap order on the first \<open>n\<close> positions.\<close>

definition heap_ok :: "('a \<Rightarrow> int) \<Rightarrow> nat \<Rightarrow> 'a list \<Rightarrow> bool" where
  "heap_ok k n xs \<longleftrightarrow> (\<forall>i < n. 0 < i \<longrightarrow> k (xs ! parent i) \<le> k (xs ! i))"

text \<open>One defect at \<open>j\<close>: it may be smaller than its parent (\<open>up_def\<close>), larger than a child (\<open>down_def\<close>).\<close>

definition bypass :: "('a \<Rightarrow> int) \<Rightarrow> nat \<Rightarrow> 'a list \<Rightarrow> nat \<Rightarrow> bool" where
  "bypass k n xs j \<longleftrightarrow> (0 < j \<longrightarrow> (\<forall>c < n. 0 < c \<and> parent c = j \<longrightarrow> k (xs ! parent j) \<le> k (xs ! c)))"

definition up_ok :: "('a \<Rightarrow> int) \<Rightarrow> nat \<Rightarrow> 'a list \<Rightarrow> nat \<Rightarrow> bool" where
  "up_ok k n xs j \<longleftrightarrow>
     (\<forall>c < n. 0 < c \<and> c \<noteq> j \<longrightarrow> k (xs ! parent c) \<le> k (xs ! c)) \<and> bypass k n xs j"

definition down_ok :: "('a \<Rightarrow> int) \<Rightarrow> nat \<Rightarrow> 'a list \<Rightarrow> nat \<Rightarrow> bool" where
  "down_ok k n xs j \<longleftrightarrow>
     (\<forall>c < n. 0 < c \<and> c \<noteq> j \<and> parent c \<noteq> j \<longrightarrow> k (xs ! parent c) \<le> k (xs ! c)) \<and> bypass k n xs j"

definition children_ok :: "('a \<Rightarrow> int) \<Rightarrow> nat \<Rightarrow> 'a list \<Rightarrow> nat \<Rightarrow> bool" where
  "children_ok k n xs j \<longleftrightarrow> (\<forall>c < n. 0 < c \<and> parent c = j \<longrightarrow> k (xs ! j) \<le> k (xs ! c))"

lemma lswap_length [simp]: "length (lswap i j xs) = length xs"
  by (simp add: lswap_def)

lemma lswap_nth:
  "\<lbrakk>i < length xs; j < length xs; m < length xs\<rbrakk>
   \<Longrightarrow> lswap i j xs ! m = (if m = j then xs ! i else if m = i then xs ! j else xs ! m)"
  by (auto simp: lswap_def nth_list_update)

lemma lswap_mset [simp]: "\<lbrakk>i < length xs; j < length xs\<rbrakk> \<Longrightarrow> mset (lswap i j xs) = mset xs"
  by (simp add: lswap_def mset_swap)

lemma child_parent: "0 < c \<Longrightarrow> c = 2 * parent c + 1 \<or> c = 2 * parent c + 2"
  by presburger

lemma parent_less: "0 < c \<Longrightarrow> parent c < c"
  by auto

lemma heap_ok_mono: "\<lbrakk>heap_ok k n xs; m \<le> n\<rbrakk> \<Longrightarrow> heap_ok k m xs"
  by (simp add: heap_ok_def)

lemma heap_ok_min:
  assumes "heap_ok k n xs" "i < n"
  shows "k (xs ! 0) \<le> k (xs ! i)"
  using assms(2)
proof (induction i rule: less_induct)
  case (less i)
  show ?case
  proof (cases "i = 0")
    case False
    with less have "k (xs ! 0) \<le> k (xs ! parent i)" by auto
    also have "\<dots> \<le> k (xs ! i)" using assms(1) less.prems False by (simp add: heap_ok_def)
    finally show ?thesis .
  qed simp
qed

subsection \<open>Sifting up\<close>

lemma up_ok_done:
  assumes "up_ok k n xs j" "parent j = j \<or> k (xs ! parent j) \<le> k (xs ! j)"
  shows "heap_ok k n xs"
proof (unfold heap_ok_def, intro allI impI)
  fix i assume "i < n" "0 < i"
  then show "k (xs ! parent i) \<le> k (xs ! i)"
    using assms parent_less [of i] by (cases "i = j") (auto simp: up_ok_def)
qed

lemma up_ok_step:
  assumes ok: "up_ok k n xs j" and j: "0 < j" "j < n" "n \<le> length xs"
    and lt: "k (xs ! j) < k (xs ! parent j)"
  shows "up_ok k n (lswap (parent j) j xs) (parent j)"
proof -
  let ?p = "parent j" and ?ys = "lswap (parent j) j xs"
  have p: "?p < j" using j(1) by (rule parent_less)
  have nth: "?ys ! m = (if m = j then xs ! ?p else if m = ?p then xs ! j else xs ! m)" if "m < n" for m
    using that j p by (simp add: lswap_nth)
  have ord: "k (xs ! parent c) \<le> k (xs ! c)" if "c < n" "0 < c" "c \<noteq> j" for c
    using ok that by (simp add: up_ok_def)
  have sub: "k (xs ! ?p) \<le> k (xs ! c)" if "c < n" "0 < c" "parent c = j" for c
    using ok j(1) that by (auto simp: up_ok_def bypass_def)
  have "k (?ys ! parent c) \<le> k (?ys ! c)" if c: "c < n" "0 < c" "c \<noteq> ?p" for c
  proof -
    have pc: "parent c < c" "parent c < n" using c parent_less [of c] by auto
    show ?thesis
      using nth [OF c(1)] nth [OF pc(2)] p c pc lt ord [OF c(1,2)] sub [OF c(1,2)]
      by (auto split: if_splits)
  qed
  moreover have "k (?ys ! parent ?p) \<le> k (?ys ! c)" if pp: "0 < ?p" and c: "c < n" "0 < c" "parent c = ?p" for c
  proof -
    have q: "parent ?p < ?p" using pp by (rule parent_less)
    have le: "k (xs ! parent ?p) \<le> k (xs ! ?p)" using ord [of ?p] pp p j by simp
    have cp: "c \<noteq> ?p" using c(2,3) parent_less [of c] by auto
    have "?ys ! parent ?p = xs ! parent ?p" using nth [of "parent ?p"] q p j by auto
    moreover have "k (xs ! parent ?p) \<le> k (?ys ! c)"
      using nth [OF c(1)] ord [OF c(1,2)] le cp c by (cases "c = j") auto
    ultimately show ?thesis by simp
  qed
  ultimately show ?thesis by (simp add: up_ok_def bypass_def)
qed

lemma heap_up_list:
  assumes "up_ok k n xs j" "j < n" "n \<le> length xs"
  shows "heap_ok k n (heap_up (lless k) lswap xs j)
       \<and> mset (heap_up (lless k) lswap xs j) = mset xs
       \<and> drop n (heap_up (lless k) lswap xs j) = drop n xs"
  using assms
proof (induction j arbitrary: xs rule: less_induct)
  case (less j)
  show ?case
  proof (cases "parent j = j \<or> \<not> k (xs ! j) < k (xs ! parent j)")
    case True
    then have "heap_ok k n xs" using less.prems by (auto intro: up_ok_done)
    moreover have "heap_up (lless k) lswap xs j = xs"
      using True by (subst heap_up.simps) (auto simp: lless_def Let_def)
    ultimately show ?thesis by simp
  next
    case False
    then have j: "0 < j" by (cases j) auto
    have up: "up_ok k n (lswap (parent j) j xs) (parent j)"
      using less.prems j False by (intro up_ok_step) auto
    have pj: "parent j < n" "parent j < length xs" "j < length xs" using less.prems by auto
    have "drop n (lswap (parent j) j xs) = drop n xs"
      using less.prems pj by (simp add: lswap_def drop_update_cancel)
    moreover have "heap_up (lless k) lswap xs j = heap_up (lless k) lswap (lswap (parent j) j xs) (parent j)"
      using False by (subst heap_up.simps) (simp add: lless_def Let_def)
    ultimately show ?thesis
      using less.IH [OF parent_less [OF j] up] pj less.prems by simp
  qed
qed

subsection \<open>Sifting down\<close>

lemma down_ok_step:
  assumes ok: "down_ok k n xs i" and j: "j < n" "n \<le> length xs" "0 < j" "parent j = i"
    and small: "\<forall>c < n. 0 < c \<and> parent c = i \<longrightarrow> k (xs ! j) \<le> k (xs ! c)"
    and lt: "k (xs ! j) < k (xs ! i)"
  shows "down_ok k n (lswap i j xs) j"
    and "k (lswap i j xs ! i) \<le> k (lswap i j xs ! j)"
proof -
  let ?ys = "lswap i j xs"
  have i: "i < j" using j(3,4) parent_less by auto
  have nth: "?ys ! m = (if m = j then xs ! i else if m = i then xs ! j else xs ! m)" if "m < n" for m
    using that j i by (simp add: lswap_nth)
  have ord: "k (xs ! parent c) \<le> k (xs ! c)" if "c < n" "0 < c" "c \<noteq> i" "parent c \<noteq> i" for c
    using ok that by (simp add: down_ok_def)
  have bp: "k (xs ! parent i) \<le> k (xs ! j)" if "0 < i"
    using ok that j by (auto simp: down_ok_def bypass_def)
  have "k (?ys ! parent c) \<le> k (?ys ! c)" if c: "c < n" "0 < c" "c \<noteq> j" "parent c \<noteq> j" for c
  proof (cases "c = i")
    case True
    with c i bp nth [of i] nth [of "parent i"] j parent_less [of i] show ?thesis by auto
  next
    case False
    have pc: "parent c < n" using c by auto
    show ?thesis
      using nth [OF c(1)] nth [OF pc] c False small ord [OF c(1,2) False] by (auto split: if_splits)
  qed
  moreover have "k (?ys ! parent j) \<le> k (?ys ! c)" if c: "c < n" "0 < c" "parent c = j" for c
  proof -
    have "c \<noteq> i" "c \<noteq> j" using c i parent_less [of c] by auto
    moreover have "k (xs ! j) \<le> k (xs ! c)" using ord [of c] c i calculation by auto
    ultimately show ?thesis using nth [of i] nth [OF c(1)] j i by auto
  qed
  ultimately show "down_ok k n ?ys j" by (simp add: down_ok_def bypass_def)
  show "k (?ys ! i) \<le> k (?ys ! j)" using nth [of i] nth [of j] j i lt by simp
qed

lemma down_ok_done:
  assumes "down_ok k n xs j" "children_ok k n xs j" "0 < j \<longrightarrow> k (xs ! parent j) \<le> k (xs ! j)"
  shows "heap_ok k n xs"
proof (unfold heap_ok_def, intro allI impI)
  fix i assume i: "i < n" "0 < i"
  show "k (xs ! parent i) \<le> k (xs ! i)"
    using assms i by (cases "i = j"; cases "parent i = j") (auto simp: down_ok_def children_ok_def)
qed

lemma heap_down_list:
  assumes "down_ok k n xs i" "i < n" "n \<le> length xs"
  shows "case heap_down (lless k) lswap xs i n of (ys, i') \<Rightarrow>
           mset ys = mset xs \<and> drop n ys = drop n xs
         \<and> (i' = i \<and> ys = xs \<and> children_ok k n xs i \<or> i < i' \<and> heap_ok k n ys)"
  using assms
proof (induction "n - i" arbitrary: i xs rule: less_induct)
  case less
  let ?j1 = "2 * i + 1"
  define j where "j = (if ?j1 + 1 < n \<and> k (xs ! (?j1 + 1)) < k (xs ! ?j1) then ?j1 + 1 else ?j1)"
  have kids: "c = ?j1 \<or> c = ?j1 + 1" if "0 < c" "parent c = i" for c
    using child_parent [OF that(1)] that(2) by auto
  have pars: "parent ?j1 = i" "parent (?j1 + 1) = i" by auto
  show ?case
  proof (cases "?j1 \<ge> n")
    case True
    then have "children_ok k n xs i" using kids by (fastforce simp: children_ok_def)
    with True show ?thesis by (subst heap_down.simps) (simp add: Let_def)
  next
    case False
    have j: "j < n" "0 < j" "parent j = i" "i < j" using False pars by (auto simp: j_def)
    have small: "\<forall>c < n. 0 < c \<and> parent c = i \<longrightarrow> k (xs ! j) \<le> k (xs ! c)"
      using kids by (force simp: j_def)
    have unf: "heap_down (lless k) lswap xs i n =
        (if \<not> k (xs ! j) < k (xs ! i) then (xs, i) else heap_down (lless k) lswap (lswap i j xs) j n)"
      using False by (subst heap_down.simps) (simp add: Let_def lless_def j_def)
    show ?thesis
    proof (cases "k (xs ! j) < k (xs ! i)")
      case False
      then have "children_ok k n xs i" using small by (fastforce simp: children_ok_def)
      with False unf show ?thesis by simp
    next
      case True
      let ?ys = "lswap i j xs"
      have len: "i < length xs" "j < length xs" using less.prems j by auto
      have D: "down_ok k n ?ys j" and ij: "k (?ys ! i) \<le> k (?ys ! j)"
        using down_ok_step [OF less.prems(1) j(1) less.prems(3) j(2,3) small True] by auto
      have dr: "drop n ?ys = drop n xs" using less.prems j by (simp add: lswap_def drop_update_cancel)
      obtain zs i' where z: "heap_down (lless k) lswap ?ys j n = (zs, i')" by fastforce
      have "n - j < n - i" using j by simp
      from less.hyps [OF this D j(1)] z less.prems len
      have IH: "mset zs = mset xs" "drop n zs = drop n ?ys"
        "i' = j \<and> zs = ?ys \<and> children_ok k n ?ys j \<or> j < i' \<and> heap_ok k n zs" by auto
      moreover have "children_ok k n ?ys j \<Longrightarrow> heap_ok k n ?ys"
        using D ij j(3) by (intro down_ok_done) auto
      ultimately show ?thesis using unf True z dr j(4) by auto
    qed
  qed
qed

text \<open>Swapping the last element into position \<open>i\<close> leaves one defect, at \<open>i\<close>.\<close>

lemma swap_last_down_ok:
  assumes hp: "heap_ok k n xs" and i: "i < n" "Suc n = length xs"
  shows "down_ok k n (lswap i n xs) i"
proof -
  have nth: "lswap i n xs ! m = (if m = i then xs ! n else xs ! m)" if "m < n" for m
    using that i by (simp add: lswap_nth)
  show ?thesis
    unfolding down_ok_def bypass_def
  proof (intro conjI impI allI)
    fix c assume c: "c < n" "0 < c \<and> c \<noteq> i \<and> parent c \<noteq> i"
    then have "parent c < n" using parent_less [of c] by simp
    then show "k (lswap i n xs ! parent c) \<le> k (lswap i n xs ! c)"
      using hp c nth by (simp add: heap_ok_def)
  next
    fix c assume c: "0 < i" "c < n" "0 < c \<and> parent c = i"
    have "parent i < i" "c \<noteq> i" using c parent_less [of i] parent_less [of c] by auto
    then show "k (lswap i n xs ! parent i) \<le> k (lswap i n xs ! c)"
      using hp c i nth order_trans [of "k (xs ! parent i)" "k (xs ! i)"]
      by (auto simp: heap_ok_def)
  qed
qed

lemma drop_last: "Suc n = length xs \<Longrightarrow> drop n xs = [xs ! n]"
  by (metis Cons_nth_drop_Suc drop_all lessI order_refl)

lemma mset_butlast: "xs \<noteq> [] \<Longrightarrow> mset (butlast xs) = mset xs - {# last xs #}"
  by (metis add_diff_cancel_right' append_butlast_last_id mset.simps(1) mset.simps(2) mset_append)

section \<open>The interface\<close>

text \<open>
  \<open>arr\<close> is the slice behind the interface, \<open>key\<close> the value \<^verbatim>\<open>Less\<close> compares, \<open>inv\<close> the
  representation invariant that the operations keep, and \<open>frame\<close> what \<^verbatim>\<open>Swap\<close> leaves alone.
\<close>

locale heap_interface =
  fixes arr :: "'s \<Rightarrow> 'a list" and key :: "'s \<Rightarrow> 'a \<Rightarrow> int"
    and len :: "'s \<Rightarrow> nat" and lt :: "'s \<Rightarrow> nat \<Rightarrow> nat \<Rightarrow> bool" and swap :: "nat \<Rightarrow> nat \<Rightarrow> 's \<Rightarrow> 's"
    and push :: "'a \<Rightarrow> 's \<Rightarrow> 's" and pop :: "'s \<Rightarrow> 's"
    and inv :: "'s \<Rightarrow> bool" and frame :: "'s \<Rightarrow> 's \<Rightarrow> bool"
  assumes len_arr: "len s = length (arr s)"
    and lt_arr: "lt s i j = lless (key s) (arr s) i j"
    and swap_arr: "\<lbrakk>inv s; i < length (arr s); j < length (arr s)\<rbrakk>
      \<Longrightarrow> arr (swap i j s) = lswap i j (arr s) \<and> key (swap i j s) = key s \<and> inv (swap i j s) \<and> frame s (swap i j s)"
    and push_arr: "\<lbrakk>inv s; x \<notin> set (arr s)\<rbrakk>
      \<Longrightarrow> arr (push x s) = arr s @ [x] \<and> key (push x s) = key s \<and> inv (push x s)"
    and pop_arr: "\<lbrakk>inv s; arr s \<noteq> []\<rbrakk>
      \<Longrightarrow> arr (pop s) = butlast (arr s) \<and> key (pop s) = key s \<and> inv (pop s)"
    and frame_refl: "frame s s"
    and frame_trans: "\<lbrakk>frame s t; frame t u\<rbrakk> \<Longrightarrow> frame s u"
begin

definition heap :: "'s \<Rightarrow> bool" where
  "heap s \<longleftrightarrow> heap_ok (key s) (length (arr s)) (arr s)"

lemma heap_up_sim:
  assumes "inv s" "j < length (arr s)"
  shows "arr (heap_up lt swap s j) = heap_up (lless (key s)) lswap (arr s) j
       \<and> key (heap_up lt swap s j) = key s \<and> inv (heap_up lt swap s j) \<and> frame s (heap_up lt swap s j)"
  using assms
proof (induction j arbitrary: s rule: less_induct)
  case (less j)
  show ?case
  proof (cases "parent j = j \<or> \<not> lt s j (parent j)")
    case True
    then have "heap_up lt swap s j = s"
      by (subst heap_up.simps) (auto simp: Let_def)
    moreover have "heap_up (lless (key s)) lswap (arr s) j = arr s"
      using True by (subst heap_up.simps) (auto simp: Let_def lt_arr)
    ultimately show ?thesis using less.prems frame_refl by simp
  next
    case False
    then have p: "parent j < j" by (cases j) auto
    let ?t = "swap (parent j) j s"
    have t: "arr ?t = lswap (parent j) j (arr s)" "key ?t = key s" "inv ?t" "frame s ?t"
      using swap_arr [of s "parent j" j] less.prems p by auto
    have "heap_up lt swap s j = heap_up lt swap ?t (parent j)"
      using False by (subst heap_up.simps) (simp add: Let_def)
    moreover have "heap_up (lless (key s)) lswap (arr s) j = heap_up (lless (key s)) lswap (arr ?t) (parent j)"
      using False t by (subst heap_up.simps) (simp add: Let_def lt_arr)
    ultimately show ?thesis
      using less.IH [OF p t(3)] t less.prems p frame_trans [OF t(4)] by simp
  qed
qed

lemma heap_down_sim:
  assumes "inv s" "i < n" "n \<le> length (arr s)"
  shows "case heap_down lt swap s i n of (t, i') \<Rightarrow>
           heap_down (lless (key s)) lswap (arr s) i n = (arr t, i')
         \<and> key t = key s \<and> inv t \<and> frame s t"
  using assms
proof (induction "n - i" arbitrary: i s rule: less_induct)
  case less
  let ?j1 = "2 * i + 1"
  show ?case
  proof (cases "?j1 \<ge> n")
    case True
    then show ?thesis
      using less.prems frame_refl by (subst (1 2) heap_down.simps) (simp add: Let_def)
  next
    case False
    define j where "j = (if ?j1 + 1 < n \<and> lt s (?j1 + 1) ?j1 then ?j1 + 1 else ?j1)"
    have j: "j < n" "i < j" "n - j < n - i" using False by (auto simp: j_def)
    have u: "heap_down lt swap s i n =
        (if \<not> lt s j i then (s, i) else heap_down lt swap (swap i j s) j n)"
      using False by (subst heap_down.simps) (simp add: Let_def j_def)
    have v: "heap_down (lless (key s)) lswap (arr s) i n =
        (if \<not> lt s j i then (arr s, i) else heap_down (lless (key s)) lswap (lswap i j (arr s)) j n)"
      using False by (subst heap_down.simps) (simp add: Let_def j_def lt_arr)
    let ?t = "swap i j s"
    have t: "arr ?t = lswap i j (arr s)" "key ?t = key s" "inv ?t" "frame s ?t"
      using swap_arr [of s i j] less.prems j by auto
    show ?thesis
    proof (cases "lt s j i")
      case True
      have "n \<le> length (arr ?t)" using t less.prems by simp
      from less.hyps [OF j(3) t(3) j(1) this] u v True t(1,2)
      show ?thesis by (auto intro: frame_trans [OF t(4)] split: prod.splits)
    qed (use u v less.prems frame_refl in simp)
  qed
qed

abbreviation Push :: "'a \<Rightarrow> 's \<Rightarrow> 's" where
  "Push \<equiv> heap_Push len lt swap push"

abbreviation Remove :: "nat \<Rightarrow> 's \<Rightarrow> 's" where
  "Remove \<equiv> heap_Remove len lt swap pop"

lemma Push_correct:
  assumes "inv s" "x \<notin> set (arr s)" "heap s"
  shows "inv (Push x s) \<and> key (Push x s) = key s \<and> mset (arr (Push x s)) = add_mset x (mset (arr s))
       \<and> heap (Push x s) \<and> frame (push x s) (Push x s)"
proof -
  let ?t = "push x s" and ?n = "length (arr s)"
  have t: "arr ?t = arr s @ [x]" "key ?t = key s" "inv ?t" using push_arr assms by auto
  have P: "Push x s = heap_up lt swap ?t ?n" by (simp add: heap_Push_def len_arr t Let_def)
  have sim: "arr (Push x s) = heap_up (lless (key s)) lswap (arr ?t) ?n" "key (Push x s) = key s"
    "inv (Push x s)" "frame ?t (Push x s)"
    using heap_up_sim [OF t(3), of ?n] by (auto simp: P t)
  have "up_ok (key s) (Suc ?n) (arr ?t) ?n"
    using assms(3) unfolding up_ok_def bypass_def heap_def heap_ok_def
    by (auto simp: t nth_append less_Suc_eq)
  from heap_up_list [OF this] have up: "heap_ok (key s) (Suc ?n) (arr (Push x s))"
    "mset (arr (Push x s)) = mset (arr ?t)" by (auto simp: sim t)
  then have "length (arr (Push x s)) = Suc ?n" using mset_eq_length t(1) by fastforce
  with up sim show ?thesis by (simp add: heap_def t)
qed

text \<open>
  The sifting of \<^verbatim>\<open>Remove\<close>: the element to remove ends up last, the elements before it form a
  heap, and nothing outside the frame changes.
\<close>

definition sifted :: "'s \<Rightarrow> nat \<Rightarrow> 's \<Rightarrow> bool" where
  "sifted s i t \<longleftrightarrow> inv t \<and> key t = key s \<and> frame s t \<and> mset (arr t) = mset (arr s)
     \<and> drop (length (arr s) - 1) (arr t) = [arr s ! i] \<and> heap_ok (key s) (length (arr s) - 1) (arr t)"

lemma sift_down_up:
  assumes "inv s" "i < n" "Suc n = length (arr s)" "heap_ok (key s) n (arr s)"
    and v: "heap_down lt swap (swap i n s) i n = (v, i')"
  shows "sifted s i (if i' > i then v else heap_up lt swap v i)"
proof -
  let ?u = "swap i n s"
  have u: "arr ?u = lswap i n (arr s)" "key ?u = key s" "inv ?u" "frame s ?u"
    using swap_arr [of s i n] assms(1-3) by auto
  have dr: "drop n (arr ?u) = [arr s ! i]"
    using assms(2,3) drop_last [of n "arr ?u"] by (simp add: u lswap_nth)
  have D: "down_ok (key s) n (arr ?u) i" unfolding u by (rule swap_last_down_ok [OF assms(4,2,3)])
  have nle: "n \<le> length (arr ?u)" using assms(3) u(1) by simp
  have sim: "heap_down (lless (key s)) lswap (arr ?u) i n = (arr v, i')" "key v = key s" "inv v" "frame ?u v"
    using heap_down_sim [OF u(3) assms(2) nle] v u(2) by auto
  have L: "mset (arr v) = mset (arr s)" "drop n (arr v) = [arr s ! i]"
    and LC: "i' = i \<and> arr v = arr ?u \<and> children_ok (key s) n (arr ?u) i \<or> i < i' \<and> heap_ok (key s) n (arr v)"
    using heap_down_list [OF D assms(2) nle] sim(1) dr assms(2,3) by (auto simp: u(1))
  have n: "length (arr s) - Suc 0 = n" using assms(3) by simp
  show ?thesis
  proof (cases "i < i'")
    case True
    then show ?thesis using sim L LC frame_trans [OF u(4) sim(4)] by (simp add: sifted_def n)
  next
    case False
    have "up_ok (key s) n (arr v) i"
      using D LC False by (auto simp: up_ok_def down_ok_def children_ok_def)
    moreover have lv: "n \<le> length (arr v)" using mset_eq_length [OF L(1)] assms(3) by simp
    ultimately have up: "heap_ok (key s) n (heap_up (lless (key s)) lswap (arr v) i)
        \<and> mset (heap_up (lless (key s)) lswap (arr v) i) = mset (arr v)
        \<and> drop n (heap_up (lless (key s)) lswap (arr v) i) = drop n (arr v)"
      by (intro heap_up_list [OF _ assms(2)])
    with False show ?thesis
      using heap_up_sim [OF sim(3), of i] lv assms(2) sim(2) L
        frame_trans [OF u(4) frame_trans [OF sim(4)]] by (simp add: sifted_def n)
  qed
qed

lemma Remove_sifted:
  assumes "inv s" "i < length (arr s)" "heap s"
  obtains t where "sifted s i t" "Remove i s = pop t"
proof -
  define n where "n = length (arr s) - Suc 0"
  have n: "Suc n = length (arr s)" using assms(2) by (simp add: n_def)
  have hp: "heap_ok (key s) n (arr s)"
    using assms(3) n heap_ok_mono [of "key s" "length (arr s)" "arr s" n] by (simp add: heap_def)
  show ?thesis
  proof (cases "n = i")
    case True
    then have "sifted s i s"
      using assms(1) hp n drop_last [OF n] frame_refl by (simp add: sifted_def n_def [symmetric])
    moreover have "Remove i s = pop s"
      using True by (simp add: heap_Remove_def len_arr Let_def n_def [symmetric])
    ultimately show ?thesis by (rule that)
  next
    case False
    obtain v i' where v: "heap_down lt swap (swap i n s) i n = (v, i')" by fastforce
    have "i < n" using assms(2) n False by simp
    from sift_down_up [OF assms(1) this n hp v] show ?thesis
      using that False v by (simp add: heap_Remove_def len_arr Let_def n_def [symmetric])
  qed
qed

lemma Remove_correct:
  assumes "inv s" "i < length (arr s)" "heap s"
  shows "inv (Remove i s) \<and> key (Remove i s) = key s
       \<and> mset (arr (Remove i s)) = mset (arr s) - {# arr s ! i #} \<and> heap (Remove i s)
       \<and> (\<exists>t. frame s t \<and> inv t \<and> arr t \<noteq> [] \<and> last (arr t) = arr s ! i \<and> Remove i s = pop t)"
proof -
  obtain t where t: "sifted s i t" and R: "Remove i s = pop t" using Remove_sifted [OF assms] .
  have ne: "arr t \<noteq> []" using t by (auto simp: sifted_def)
  have len: "length (arr t) = length (arr s)" using t mset_eq_length by (auto simp: sifted_def)
  then have last: "last (arr t) = arr s ! i"
    using t assms(2) last_drop [of "length (arr s) - 1" "arr t"] by (simp add: sifted_def)
  have p: "arr (pop t) = butlast (arr t)" "key (pop t) = key s" "inv (pop t)"
    using pop_arr [of t] t ne by (auto simp: sifted_def)
  have "heap_ok (key s) (length (arr s) - 1) (butlast (arr t))"
    using t len by (auto simp: sifted_def heap_ok_def nth_butlast)
  then show ?thesis
    using R p t last ne len by (auto simp: sifted_def heap_def mset_butlast)
qed

end

end
