(* ===== verification/MemLS.thy ===== *)
theory MemLS
  imports PathUtil GoHeap
begin

text \<open>
  The WebDAV lock system \<^verbatim>\<open>memLS\<close> of \<^verbatim>\<open>server/webdav/lock.go\<close>.  Its nodes are shared by the maps
  \<^verbatim>\<open>byName\<close> and \<^verbatim>\<open>byToken\<close>, by the expiry queue \<^verbatim>\<open>byExpiry\<close> and by the release functions that
  \<^verbatim>\<open>Confirm\<close> hands out, so the model keeps them in an explicit store: a \<^verbatim>\<open>*memLSNode\<close> is an address,
  and a nil pointer is \<^const>\<open>None\<close>.  Times and durations are integers (nanoseconds).  Every
  operation runs under the mutex \<^verbatim>\<open>mu\<close> and is one atomic step; a panic is \<^const>\<open>None\<close>.
\<close>

section \<open>State\<close>

datatype ls_err = ErrConfirmationFailed | ErrForbidden | ErrLocked | ErrNoSuchLock

record Condition =
  Not :: bool
  Token :: string
  ETag :: string

record LockDetails =
  Root :: string
  Duration :: int
  OwnerXML :: string
  ZeroDepth :: bool

record memLSNode =
  details :: LockDetails
  token :: string
  refCount :: int
  expiry :: int
  byExpiryIndex :: int
  held :: bool

record memLS =
  store :: "nat \<Rightarrow> memLSNode"
  nextp :: nat
  byName :: "string \<rightharpoonup> nat"
  byToken :: "string \<rightharpoonup> nat"
  gen :: "64 word"
  byExpiry :: "nat list"

definition new_node :: "string \<Rightarrow> memLSNode" where
  "new_node name0 = \<lparr>details = \<lparr>Root = name0, Duration = 0, OwnerXML = [], ZeroDepth = False\<rparr>,
     token = [], refCount = 0, expiry = 0, byExpiryIndex = -1, held = False\<rparr>"

definition NewMemLS :: "64 word \<Rightarrow> memLS" where
  "NewMemLS now = \<lparr>store = (\<lambda>_. new_node []), nextp = 0, byName = Map.empty, byToken = Map.empty,
     gen = now, byExpiry = []\<rparr>"

definition upd :: "nat \<Rightarrow> (memLSNode \<Rightarrow> memLSNode) \<Rightarrow> memLS \<Rightarrow> memLS" where
  "upd a f m = m\<lparr>store := (store m)(a := f (store m a))\<rparr>"

section \<open>The expiry queue\<close>

definition byExpiry_Len :: "memLS \<Rightarrow> nat" where
  "byExpiry_Len m = length (byExpiry m)"

definition byExpiry_Less :: "memLS \<Rightarrow> nat \<Rightarrow> nat \<Rightarrow> bool" where
  "byExpiry_Less m i j = (expiry (store m (byExpiry m ! i)) < expiry (store m (byExpiry m ! j)))"

definition byExpiry_Swap :: "nat \<Rightarrow> nat \<Rightarrow> memLS \<Rightarrow> memLS" where
  "byExpiry_Swap i j m =
     (let b = (byExpiry m)[i := byExpiry m ! j, j := byExpiry m ! i];
          m = m\<lparr>byExpiry := b\<rparr>;
          m = upd (b ! i) (\<lambda>n. n\<lparr>byExpiryIndex := int i\<rparr>) m
      in upd (b ! j) (\<lambda>n. n\<lparr>byExpiryIndex := int j\<rparr>) m)"

definition byExpiry_Push :: "nat \<Rightarrow> memLS \<Rightarrow> memLS" where
  "byExpiry_Push a m =
     (let m = upd a (\<lambda>n. n\<lparr>byExpiryIndex := int (length (byExpiry m))\<rparr>) m
      in m\<lparr>byExpiry := byExpiry m @ [a]\<rparr>)"

definition byExpiry_Pop :: "memLS \<Rightarrow> memLS" where
  "byExpiry_Pop m =
     (let i = length (byExpiry m) - 1;
          m = upd (byExpiry m ! i) (\<lambda>n. n\<lparr>byExpiryIndex := -1\<rparr>) m
      in m\<lparr>byExpiry := take i (byExpiry m)\<rparr>)"

definition queue_Push :: "nat \<Rightarrow> memLS \<Rightarrow> memLS" where
  "queue_Push a m = heap_Push byExpiry_Len byExpiry_Less byExpiry_Swap byExpiry_Push a m"

definition queue_Remove :: "int \<Rightarrow> memLS \<Rightarrow> memLS" where
  "queue_Remove i m = heap_Remove byExpiry_Len byExpiry_Less byExpiry_Swap byExpiry_Pop (nat i) m"

section \<open>Operations\<close>

lemma LastIndex_bound: "LastIndex s [c] = Some i \<Longrightarrow> i < length s \<and> s ! i = c"
  by (induction s arbitrary: i) (auto split: option.splits if_splits)

text \<open>
  \<^verbatim>\<open>walkToRoot\<close>: the callback sees a name and whether it is the first one, may change the
  state, and says whether to go on.  A name without a slash makes \<^verbatim>\<open>name[:-1]\<close> panic.
\<close>

function walkToRoot ::
  "(string \<Rightarrow> bool \<Rightarrow> 's \<Rightarrow> ('s \<times> bool) go) \<Rightarrow> string \<Rightarrow> bool \<Rightarrow> 's \<Rightarrow> ('s \<times> bool) go" where
  "walkToRoot f name first s =
     (case f name first s of
        None \<Rightarrow> panic
      | Some (s, cont) \<Rightarrow>
          if \<not> cont then Some (s, False)
          else if name = ''/'' then Some (s, True)
          else case LastIndex name ''/'' of
            None \<Rightarrow> panic
          | Some i \<Rightarrow> walkToRoot f (if take i name = [] then ''/'' else take i name) False s)"
  by pat_completeness auto
termination
proof (relation "measure (\<lambda>(_, name, _, _). length name)", goal_cases)
  case (2 f name first s a s' cont i)
  then have "i < length name" "name ! i = CHR ''/''" by (auto dest: LastIndex_bound)
  moreover have "length name \<noteq> 1"
  proof
    assume "length name = 1"
    with calculation have "name = ''/''" by (cases name) auto
    with 2 show False by simp
  qed
  ultimately show ?case by (cases name) auto
qed simp

declare walkToRoot.simps [simp del]

definition canCreate_visit :: "memLS \<Rightarrow> bool \<Rightarrow> string \<Rightarrow> bool \<Rightarrow> unit \<Rightarrow> (unit \<times> bool) go" where
  "canCreate_visit m zeroDepth name0 first u =
     Some (u, case byName m name0 of
         None \<Rightarrow> True
       | Some n \<Rightarrow>
           if first then
             (if token (store m n) \<noteq> [] then False else if \<not> zeroDepth then False else True)
           else if token (store m n) \<noteq> [] \<and> \<not> ZeroDepth (details (store m n)) then False
           else True)"

definition canCreate :: "memLS \<Rightarrow> string \<Rightarrow> bool \<Rightarrow> bool go" where
  "canCreate m name zeroDepth = map_option snd (walkToRoot (canCreate_visit m zeroDepth) name True ())"

definition create_visit :: "string \<Rightarrow> bool \<Rightarrow> memLS \<times> nat option \<Rightarrow> ((memLS \<times> nat option) \<times> bool) go" where
  "create_visit name0 first s =
     (let (m, ret) = s;
          (m, n) = (case byName m name0 of
             None \<Rightarrow> (m\<lparr>store := (store m)(nextp m := new_node name0), nextp := Suc (nextp m),
                        byName := (byName m)(name0 \<mapsto> nextp m)\<rparr>, nextp m)
           | Some n \<Rightarrow> (m, n));
          m = upd n (\<lambda>x. x\<lparr>refCount := refCount x + 1\<rparr>) m
      in Some ((m, if first then Some n else ret), True))"

definition create :: "memLS \<Rightarrow> string \<Rightarrow> (memLS \<times> nat option) go" where
  "create m name = map_option fst (walkToRoot create_visit name True (m, None))"

definition remove_visit :: "string \<Rightarrow> bool \<Rightarrow> memLS \<Rightarrow> (memLS \<times> bool) go" where
  "remove_visit name0 first m =
     (case byName m name0 of
        None \<Rightarrow> panic
      | Some x \<Rightarrow>
          (let m = upd x (\<lambda>n. n\<lparr>refCount := refCount n - 1\<rparr>) m;
               m = (if refCount (store m x) = 0 then m\<lparr>byName := (byName m)(name0 := None)\<rparr> else m)
           in Some (m, True)))"

definition remove :: "memLS \<Rightarrow> nat \<Rightarrow> memLS go" where
  "remove m n =
     (let m = m\<lparr>byToken := (byToken m)(token (store m n) := None)\<rparr>;
          m = upd n (\<lambda>x. x\<lparr>token := []\<rparr>) m
      in case walkToRoot remove_visit (Root (details (store m n))) True m of
           None \<Rightarrow> panic
         | Some (m, _) \<Rightarrow>
             Some (if byExpiryIndex (store m n) \<ge> 0 then queue_Remove (byExpiryIndex (store m n)) m else m))"

text \<open>
  \<^verbatim>\<open>collectExpiredNodes\<close> loops until the earliest expiry lies in the future.  The loop removes one
  queue entry per round, so the queue length plus one is enough fuel (proved below).
\<close>

fun collect_loop :: "nat \<Rightarrow> int \<Rightarrow> memLS \<Rightarrow> memLS go" where
  "collect_loop 0 now m = None"
| "collect_loop (Suc fuel) now m =
     (case byExpiry m of
        [] \<Rightarrow> Some m
      | n # _ \<Rightarrow>
          if now < expiry (store m n) then Some m
          else case remove m n of None \<Rightarrow> panic | Some m \<Rightarrow> collect_loop fuel now m)"

definition collectExpiredNodes :: "memLS \<Rightarrow> int \<Rightarrow> memLS go" where
  "collectExpiredNodes m now = collect_loop (Suc (length (byExpiry m))) now m"

definition nextToken :: "memLS \<Rightarrow> memLS \<times> string" where
  "nextToken m = (let m = m\<lparr>gen := gen m + 1\<rparr> in (m, FormatUint (unat (gen m))))"

fun lookup :: "memLS \<Rightarrow> string \<Rightarrow> Condition list \<Rightarrow> nat option" where
  "lookup m name [] = None"
| "lookup m name (c # cs) =
     (case byToken m (Token c) of
        None \<Rightarrow> lookup m name cs
      | Some n \<Rightarrow>
          if held (store m n) then lookup m name cs
          else let d = details (store m n)
               in if name = Root d then Some n
                  else if ZeroDepth d then lookup m name cs
                  else if Root d = ''/'' \<or> HasPrefix name (Root d @ ''/'') then Some n
                  else lookup m name cs)"

definition hold :: "nat \<Rightarrow> memLS \<Rightarrow> memLS go" where
  "hold n m =
     (if held (store m n) then panic
      else let m = upd n (\<lambda>x. x\<lparr>held := True\<rparr>) m
           in Some (if Duration (details (store m n)) \<ge> 0 \<and> byExpiryIndex (store m n) \<ge> 0
                    then queue_Remove (byExpiryIndex (store m n)) m else m))"

definition unhold :: "nat \<Rightarrow> memLS \<Rightarrow> memLS go" where
  "unhold n m =
     (if \<not> held (store m n) then panic
      else let m = upd n (\<lambda>x. x\<lparr>held := False\<rparr>) m
           in Some (if Duration (details (store m n)) \<ge> 0 then queue_Push n m else m))"

definition opt_go :: "('a \<Rightarrow> 's \<Rightarrow> 's go) \<Rightarrow> 'a option \<Rightarrow> 's \<Rightarrow> 's go" where
  "opt_go f x s = (case x of None \<Rightarrow> Some s | Some a \<Rightarrow> f a s)"

type_synonym release = "nat option \<times> nat option"

definition Confirm ::
  "memLS \<Rightarrow> int \<Rightarrow> string \<Rightarrow> string \<Rightarrow> Condition list \<Rightarrow> (memLS \<times> (ls_err + release)) go" where
  "Confirm m now name0 name1 conditions =
     do {
       m \<leftarrow> collectExpiredNodes m now;
       let n0 = (if name0 \<noteq> [] then lookup m (slashClean name0) conditions else None);
       let n1 = (if name1 \<noteq> [] then lookup m (slashClean name1) conditions else None);
       if name0 \<noteq> [] \<and> n0 = None then Some (m, Inl ErrConfirmationFailed)
       else if name1 \<noteq> [] \<and> n1 = None then Some (m, Inl ErrConfirmationFailed)
       else do {
         let n1 = (if n1 = n0 then None else n1);
         m \<leftarrow> opt_go hold n0 m;
         m \<leftarrow> opt_go hold n1 m;
         Some (m, Inr (n0, n1))
       }
     }"

text \<open>The function that \<^verbatim>\<open>Confirm\<close> returns.\<close>

definition release_fn :: "release \<Rightarrow> memLS \<Rightarrow> memLS go" where
  "release_fn r m = do { m \<leftarrow> opt_go unhold (snd r) m; opt_go unhold (fst r) m }"

definition Create :: "memLS \<Rightarrow> int \<Rightarrow> LockDetails \<Rightarrow> (memLS \<times> (ls_err + string)) go" where
  "Create m now details0 =
     do {
       m \<leftarrow> collectExpiredNodes m now;
       let d = details0\<lparr>Root := slashClean (Root details0)\<rparr>;
       ok \<leftarrow> canCreate m (Root d) (ZeroDepth d);
       if \<not> ok then Some (m, Inl ErrLocked)
       else do {
         (m, ret) \<leftarrow> create m (Root d);
         n \<leftarrow> ret;
         let (m, tok) = nextToken m;
         let m = upd n (\<lambda>x. x\<lparr>token := tok\<rparr>) m;
         let m = m\<lparr>byToken := (byToken m)(tok \<mapsto> n)\<rparr>;
         let m = upd n (\<lambda>x. x\<lparr>details := d\<rparr>) m;
         let m = (if Duration d \<ge> 0 then queue_Push n (upd n (\<lambda>x. x\<lparr>expiry := now + Duration d\<rparr>) m) else m);
         Some (m, Inr tok)
       }
     }"

definition Refresh :: "memLS \<Rightarrow> int \<Rightarrow> string \<Rightarrow> int \<Rightarrow> (memLS \<times> (ls_err + LockDetails)) go" where
  "Refresh m now tok duration =
     do {
       m \<leftarrow> collectExpiredNodes m now;
       (case byToken m tok of
          None \<Rightarrow> Some (m, Inl ErrNoSuchLock)
        | Some n \<Rightarrow>
            if held (store m n) then Some (m, Inl ErrLocked)
            else
              let m = (if byExpiryIndex (store m n) \<ge> 0 then queue_Remove (byExpiryIndex (store m n)) m else m);
                  m = upd n (\<lambda>x. x\<lparr>details := (details x)\<lparr>Duration := duration\<rparr>\<rparr>) m;
                  m = (if duration \<ge> 0 then queue_Push n (upd n (\<lambda>x. x\<lparr>expiry := now + duration\<rparr>) m) else m)
              in Some (m, Inr (details (store m n))))
     }"

definition Unlock :: "memLS \<Rightarrow> int \<Rightarrow> string \<Rightarrow> (memLS \<times> ls_err option) go" where
  "Unlock m now tok =
     do {
       m \<leftarrow> collectExpiredNodes m now;
       (case byToken m tok of
          None \<Rightarrow> Some (m, Some ErrNoSuchLock)
        | Some n \<Rightarrow>
            if held (store m n) then Some (m, Some ErrLocked)
            else do { m \<leftarrow> remove m n; Some (m, None) })
     }"

section \<open>The walk over a clean path\<close>

fun iter_go ::
  "(string \<Rightarrow> bool \<Rightarrow> 's \<Rightarrow> ('s \<times> bool) go) \<Rightarrow> string list \<Rightarrow> bool \<Rightarrow> 's \<Rightarrow> ('s \<times> bool) go" where
  "iter_go f [] first s = Some (s, True)"
| "iter_go f (n # ns) first s =
     (case f n first s of
        None \<Rightarrow> panic
      | Some (s, cont) \<Rightarrow> if \<not> cont then Some (s, False) else iter_go f ns False s)"

definition anc_names :: "string list \<Rightarrow> string list" where
  "anc_names cs = map render (rev (prefixes cs))"

lemma take_render_snoc:
  assumes "valid_comp c"
  shows "LastIndex (render (cs @ [c])) ''/'' = Some (length (if cs = [] then [] else render cs))"
    and "take (length (if cs = [] then [] else render cs)) (render (cs @ [c]))
           = (if cs = [] then [] else render cs)"
proof -
  have r: "render (cs @ [c]) = (if cs = [] then [] else render cs) @ CHR ''/'' # c"
    by (simp add: render_snoc)
  show "LastIndex (render (cs @ [c])) ''/'' = Some (length (if cs = [] then [] else render cs))"
    unfolding r using assms by (intro LastIndex_single) (simp add: valid_comp_def)
  show "take (length (if cs = [] then [] else render cs)) (render (cs @ [c]))
      = (if cs = [] then [] else render cs)"
    unfolding r by simp
qed

lemma render_not_Nil [simp]: "render cs \<noteq> []"
  by (simp add: render_def)

lemma render_root_iff: "list_all valid_comp cs \<Longrightarrow> render cs = ''/'' \<longleftrightarrow> cs = []"
  using render_inj [of cs "[]"] by auto

lemma walkToRoot_iter:
  "list_all valid_comp cs \<Longrightarrow> walkToRoot f (render cs) first s = iter_go f (anc_names cs) first s"
proof (induction cs arbitrary: first s rule: rev_induct)
  case Nil
  show ?case
    by (subst walkToRoot.simps) (auto simp: anc_names_def split: option.splits)
next
  case (snoc c cs)
  then have v: "valid_comp c" "list_all valid_comp cs" by auto
  have "render (cs @ [c]) \<noteq> ''/''" using snoc.prems render_root_iff by blast
  moreover have "(if (if cs = [] then [] else render cs) = [] then ''/'' else if cs = [] then [] else render cs)
      = render cs" by simp
  ultimately show ?case
    using snoc.IH [OF v(2)] take_render_snoc [OF v(1), of cs]
    by (subst walkToRoot.simps) (auto simp: anc_names_def split: option.splits)
qed

lemma set_anc_names: "set (anc_names cs) = render ` {ds. prefix ds cs}"
  by (auto simp: anc_names_def)

lemma distinct_prefixes_list: "distinct (prefixes xs)"
  by (induction xs rule: rev_induct) (auto simp: prefixes_snoc)

lemma distinct_anc_names:
  assumes "list_all valid_comp cs"
  shows "distinct (anc_names cs)"
proof -
  have "list_all valid_comp ds" if "prefix ds cs" for ds
    using that assms by (auto simp: prefix_def)
  then have "inj_on render (set (prefixes cs))" by (auto intro!: inj_onI dest: render_inj)
  then show ?thesis by (simp add: anc_names_def distinct_map distinct_prefixes_list)
qed

lemma mem_anc_names:
  assumes "list_all valid_comp cs"
  shows "p \<in> set (anc_names cs) \<longleftrightarrow> clean_path p \<and> prefix (comps p) cs"
proof -
  have v: "list_all valid_comp ds" if "prefix ds cs" for ds
    using that assms by (auto simp: prefix_def)
  show ?thesis
    unfolding set_anc_names clean_path_def using v by (auto simp: image_iff)
qed

section \<open>The expiry queue implements the heap interface\<close>

text \<open>Every node knows its position in the queue, and \<open>-1\<close> means that it is not in it.\<close>

definition index_ok :: "memLS \<Rightarrow> bool" where
  "index_ok m \<longleftrightarrow> distinct (byExpiry m)
     \<and> (\<forall>i < length (byExpiry m). byExpiryIndex (store m (byExpiry m ! i)) = int i)
     \<and> (\<forall>a. a \<notin> set (byExpiry m) \<longrightarrow> byExpiryIndex (store m a) = -1)"

text \<open>What the queue operations leave alone: everything but the queue and the indices into it.\<close>

definition core :: "memLS \<Rightarrow> memLS" where
  "core m = m\<lparr>byExpiry := [], store := (\<lambda>a. (store m a)\<lparr>byExpiryIndex := 0\<rparr>)\<rparr>"

lemma core_sel [simp]:
  "byName (core m) = byName m" "byToken (core m) = byToken m" "gen (core m) = gen m"
  "nextp (core m) = nextp m" "details (store (core m) a) = details (store m a)"
  "token (store (core m) a) = token (store m a)" "refCount (store (core m) a) = refCount (store m a)"
  "expiry (store (core m) a) = expiry (store m a)" "held (store (core m) a) = held (store m a)"
  by (simp_all add: core_def)

lemma core_upd_index [simp]: "core (upd a (\<lambda>n. n\<lparr>byExpiryIndex := i\<rparr>) m) = core m"
  by (rule memLS.equality) (auto simp: core_def upd_def)

lemma core_byExpiry [simp]: "core (m\<lparr>byExpiry := b\<rparr>) = core m"
  by (simp add: core_def)

lemma core_fields:
  assumes "core m = core m'"
  shows "byName m = byName m'" "byToken m = byToken m'" "gen m = gen m'" "nextp m = nextp m'"
    "details (store m a) = details (store m' a)" "token (store m a) = token (store m' a)"
    "refCount (store m a) = refCount (store m' a)" "expiry (store m a) = expiry (store m' a)"
    "held (store m a) = held (store m' a)"
  using assms by (metis core_sel)+

definition queue_frame :: "memLS \<Rightarrow> memLS \<Rightarrow> bool" where
  "queue_frame m m' \<longleftrightarrow> core m = core m'"

definition expiry_key :: "memLS \<Rightarrow> nat \<Rightarrow> int" where
  "expiry_key m a = expiry (store m a)"

lemma store_upd: "store (upd a f m) b = (if b = a then f (store m a) else store m b)"
  by (simp add: upd_def)

lemma upd_other [simp]:
  "byExpiry (upd a f m) = byExpiry m" "byName (upd a f m) = byName m" "byToken (upd a f m) = byToken m"
  "gen (upd a f m) = gen m" "nextp (upd a f m) = nextp m"
  by (simp_all add: upd_def)

lemma Swap_props:
  assumes "index_ok m" "i < length (byExpiry m)" "j < length (byExpiry m)"
  shows "byExpiry (byExpiry_Swap i j m) = lswap i j (byExpiry m)" "index_ok (byExpiry_Swap i j m)"
    "core (byExpiry_Swap i j m) = core m" "expiry (store (byExpiry_Swap i j m) a) = expiry (store m a)"
proof -
  let ?b = "lswap i j (byExpiry m)" and ?m = "byExpiry_Swap i j m"
  show b: "byExpiry ?m = ?b" by (simp add: byExpiry_Swap_def lswap_def Let_def)
  show "core ?m = core m" by (simp add: byExpiry_Swap_def Let_def)
  then show "expiry (store ?m a) = expiry (store m a)" by (rule core_fields)
  have st: "store ?m a = (if a = ?b ! j then (store m a)\<lparr>byExpiryIndex := int j\<rparr>
      else if a = ?b ! i then (store m a)\<lparr>byExpiryIndex := int i\<rparr> else store m a)" for a
    by (auto simp: byExpiry_Swap_def Let_def lswap_def store_upd)
  have d: "distinct ?b" "set ?b = set (byExpiry m)"
    using assms by (auto simp: index_ok_def lswap_def distinct_swap)
  have "byExpiryIndex (store ?m (?b ! k)) = int k" if k: "k < length (byExpiry m)" for k
  proof -
    have "?b ! k = ?b ! j \<longleftrightarrow> k = j" "?b ! k = ?b ! i \<longleftrightarrow> k = i"
      using d(1) k assms(2,3) by (auto simp: nth_eq_iff_index_eq)
    moreover have "k \<noteq> i \<Longrightarrow> k \<noteq> j \<Longrightarrow> ?b ! k = byExpiry m ! k"
      using k assms(2,3) by (simp add: lswap_nth)
    ultimately show ?thesis using st [of "?b ! k"] k assms(1) by (auto simp: index_ok_def)
  qed
  moreover have "byExpiryIndex (store ?m a) = -1" if "a \<notin> set ?b" for a
  proof -
    have "a \<noteq> ?b ! j" "a \<noteq> ?b ! i" using that assms(2,3) by (metis lswap_length nth_mem)+
    with that st [of a] d(2) assms(1) show ?thesis by (simp add: index_ok_def)
  qed
  ultimately show "index_ok ?m" using d(1) by (simp add: index_ok_def b)
qed

lemma Push_props:
  assumes "index_ok m" "x \<notin> set (byExpiry m)"
  shows "index_ok (byExpiry_Push x m)" "core (byExpiry_Push x m) = core m"
    "byExpiry (byExpiry_Push x m) = byExpiry m @ [x]"
  using assms by (auto simp: byExpiry_Push_def Let_def index_ok_def store_upd nth_append nth_mem)

lemma Pop_props:
  assumes "index_ok m" "byExpiry m \<noteq> []"
  shows "index_ok (byExpiry_Pop m)" "core (byExpiry_Pop m) = core m"
    "byExpiry (byExpiry_Pop m) = butlast (byExpiry m)"
proof -
  let ?b = "byExpiry m" and ?m = "byExpiry_Pop m"
  show b: "byExpiry ?m = butlast ?b" by (simp add: byExpiry_Pop_def Let_def butlast_conv_take)
  show "core ?m = core m" by (simp add: byExpiry_Pop_def Let_def)
  have st: "store ?m a = (if a = last ?b then (store m a)\<lparr>byExpiryIndex := -1\<rparr> else store m a)" for a
    using assms(2) by (simp add: byExpiry_Pop_def Let_def store_upd last_conv_nth)
  have ys: "?b = butlast ?b @ [last ?b]" using assms(2) by simp
  have "distinct (butlast ?b @ [last ?b])" using assms(1) ys by (simp add: index_ok_def)
  then have d: "distinct (butlast ?b)" "last ?b \<notin> set (butlast ?b)" by auto
  have "byExpiryIndex (store ?m (butlast ?b ! i)) = int i" if i: "i < length (butlast ?b)" for i
    using d(2) i assms(1) st [of "butlast ?b ! i"] nth_mem [OF i]
    by (auto simp: index_ok_def nth_butlast)
  moreover have "byExpiryIndex (store ?m a) = -1" if "a \<notin> set (butlast ?b)" for a
  proof (cases "a = last ?b")
    case False
    then have "a \<notin> set ?b" using that by (subst ys) simp
    then show ?thesis using assms(1) st [of a] False by (simp add: index_ok_def)
  qed (simp add: st)
  ultimately show "index_ok ?m" using d(1) by (simp add: index_ok_def b)
qed

interpretation eq: heap_interface byExpiry expiry_key byExpiry_Len byExpiry_Less byExpiry_Swap
  byExpiry_Push byExpiry_Pop index_ok queue_frame
proof unfold_locales
  fix m i j
  assume a: "index_ok m" "i < length (byExpiry m)" "j < length (byExpiry m)"
  show "byExpiry (byExpiry_Swap i j m) = lswap i j (byExpiry m)
      \<and> expiry_key (byExpiry_Swap i j m) = expiry_key m
      \<and> index_ok (byExpiry_Swap i j m) \<and> queue_frame m (byExpiry_Swap i j m)"
    using Swap_props [OF a] by (simp add: expiry_key_def queue_frame_def fun_eq_iff)
next
  fix m x
  assume a: "index_ok m" "x \<notin> set (byExpiry m)"
  show "byExpiry (byExpiry_Push x m) = byExpiry m @ [x] \<and> expiry_key (byExpiry_Push x m) = expiry_key m
      \<and> index_ok (byExpiry_Push x m)"
    using Push_props [OF a] core_fields(8) [OF Push_props(2) [OF a]] by (simp add: expiry_key_def fun_eq_iff)
next
  fix m
  assume a: "index_ok m" "byExpiry m \<noteq> []"
  show "byExpiry (byExpiry_Pop m) = butlast (byExpiry m) \<and> expiry_key (byExpiry_Pop m) = expiry_key m
      \<and> index_ok (byExpiry_Pop m)"
    using Pop_props [OF a] core_fields(8) [OF Pop_props(2) [OF a]] by (simp add: expiry_key_def fun_eq_iff)
qed (simp_all add: byExpiry_Len_def byExpiry_Less_def lless_def expiry_key_def queue_frame_def)

definition queue_ok :: "memLS \<Rightarrow> bool" where
  "queue_ok m \<longleftrightarrow> index_ok m \<and> heap_ok (expiry_key m) (length (byExpiry m)) (byExpiry m)"

lemma queue_Push_ok:
  assumes "queue_ok m" "x \<notin> set (byExpiry m)"
  shows "queue_ok (queue_Push x m) \<and> core (queue_Push x m) = core m
       \<and> set (byExpiry (queue_Push x m)) = insert x (set (byExpiry m))"
proof -
  have h: "index_ok m" "eq.heap m" using assms(1) by (auto simp: queue_ok_def eq.heap_def)
  note P = eq.Push_correct [OF h(1) assms(2) h(2), folded queue_Push_def]
  then have "set (byExpiry (queue_Push x m)) = insert x (set (byExpiry m))"
    by (metis set_mset_add_mset_insert set_mset_mset)
  with P show ?thesis
    using Push_props(2) [OF h(1) assms(2)] by (auto simp: queue_ok_def eq.heap_def queue_frame_def)
qed

lemma queue_Remove_ok:
  assumes "queue_ok m" "a \<in> set (byExpiry m)"
  shows "queue_ok (queue_Remove (byExpiryIndex (store m a)) m)
       \<and> core (queue_Remove (byExpiryIndex (store m a)) m) = core m
       \<and> set (byExpiry (queue_Remove (byExpiryIndex (store m a)) m)) = set (byExpiry m) - {a}
       \<and> 0 \<le> byExpiryIndex (store m a)"
proof -
  obtain i where i: "i < length (byExpiry m)" "byExpiry m ! i = a"
    using assms(2) by (auto simp: in_set_conv_nth)
  have h: "index_ok m" "eq.heap m" using assms(1) by (auto simp: queue_ok_def eq.heap_def)
  have ix: "byExpiryIndex (store m a) = int i" using h(1) i by (auto simp: index_ok_def)
  let ?r = "queue_Remove (int i) m"
  have R: "index_ok ?r" "eq.heap ?r" "mset (byExpiry ?r) = mset (byExpiry m) - {#a#}"
    using eq.Remove_correct [OF h(1) i(1) h(2)] i(2) by (simp_all add: queue_Remove_def)
  obtain t where t: "core m = core t" "index_ok t" "byExpiry t \<noteq> []" "?r = byExpiry_Pop t"
    using eq.Remove_correct [OF h(1) i(1) h(2)] by (auto simp: queue_frame_def queue_Remove_def)
  then have "core ?r = core m" using Pop_props(2) [OF t(2,3)] by simp
  moreover have "set (byExpiry ?r) = set (byExpiry m) - {a}"
    using R(3) h(1) by (metis index_ok_def mset_eq_setD mset_remove1 set_remove1_eq)
  ultimately show ?thesis using R ix by (simp add: queue_ok_def eq.heap_def)
qed

section \<open>Consistency\<close>

definition locks :: "memLS \<Rightarrow> nat set" where
  "locks m = ran (byToken m)"

definition root :: "memLS \<Rightarrow> nat \<Rightarrow> string" where
  "root m a = Root (details (store m a))"

text \<open>The locks at a name or below it.\<close>

definition under :: "memLS \<Rightarrow> string \<Rightarrow> nat set" where
  "under m p = {a \<in> locks m. prefix (comps p) (comps (root m a))}"

definition node_ok :: "memLS \<Rightarrow> string \<Rightarrow> nat \<Rightarrow> bool" where
  "node_ok m p a \<longleftrightarrow> root m a = p \<and> clean_path p \<and> a < nextp m
     \<and> (token (store m a) \<noteq> [] \<longrightarrow> byToken m (token (store m a)) = Some a)
     \<and> (held (store m a) \<longrightarrow> token (store m a) \<noteq> [])"

definition names_ok :: "memLS \<Rightarrow> bool" where
  "names_ok m \<longleftrightarrow> (\<forall>p a. byName m p = Some a \<longrightarrow> node_ok m p a)"

text \<open>\<^verbatim>\<open>refCount\<close> counts the locked self-or-descendants, and a node exists exactly while there is one.\<close>

definition counts_ok :: "memLS \<Rightarrow> bool" where
  "counts_ok m \<longleftrightarrow> (\<forall>p. clean_path p \<longrightarrow>
     (case byName m p of
        None \<Rightarrow> under m p = {}
      | Some a \<Rightarrow> under m p \<noteq> {} \<and> refCount (store m a) = int (card (under m p))))"

definition tokens_ok :: "memLS \<Rightarrow> bool" where
  "tokens_ok m \<longleftrightarrow> finite (dom (byToken m))
     \<and> (\<forall>t a. byToken m t = Some a \<longrightarrow> token (store m a) = t \<and> t \<noteq> []
          \<and> byName m (root m a) = Some a \<and> (\<exists>k \<le> unat (gen m). t = FormatUint k))"

text \<open>The queue holds the locks that can expire now: of finite duration and not held.\<close>

definition expirable :: "memLS \<Rightarrow> nat set" where
  "expirable m = {a \<in> locks m. 0 \<le> Duration (details (store m a)) \<and> \<not> held (store m a)}"

text \<open>Two locks conflict when they are on one resource, or one covers the other with infinite depth.\<close>

definition covers :: "LockDetails \<Rightarrow> string \<Rightarrow> bool" where
  "covers d p \<longleftrightarrow> Root d = p \<or> \<not> ZeroDepth d \<and> prefix (comps (Root d)) (comps p)"

definition conflict :: "LockDetails \<Rightarrow> LockDetails \<Rightarrow> bool" where
  "conflict d e \<longleftrightarrow> covers d (Root e) \<or> covers e (Root d)"

definition exclusive :: "memLS \<Rightarrow> bool" where
  "exclusive m \<longleftrightarrow> (\<forall>a \<in> locks m. \<forall>b \<in> locks m. a \<noteq> b \<longrightarrow>
     \<not> conflict (details (store m a)) (details (store m b)))"

definition base_ok :: "memLS \<Rightarrow> bool" where
  "base_ok m \<longleftrightarrow> names_ok m \<and> counts_ok m \<and> tokens_ok m \<and> exclusive m"

definition consistent :: "memLS \<Rightarrow> bool" where
  "consistent m \<longleftrightarrow> base_ok m \<and> queue_ok m \<and> set (byExpiry m) = expirable m"

text \<open>All of this but the queue depends on the core only.\<close>

lemma core_simps:
  assumes "core m = core m'"
  shows "locks m = locks m'" "root m a = root m' a" "under m p = under m' p" "expirable m = expirable m'"
    "base_ok m = base_ok m'"
proof -
  note f = core_fields [OF assms]
  show l: "locks m = locks m'" by (simp add: locks_def f)
  show r: "root m a = root m' a" for a by (simp add: root_def f)
  show u: "under m p = under m' p" for p by (simp add: under_def l r)
  show "expirable m = expirable m'" by (simp add: expirable_def l f)
  show "base_ok m = base_ok m'"
    by (simp add: base_ok_def names_ok_def node_ok_def counts_ok_def tokens_ok_def exclusive_def l r u f
        cong: option.case_cong)
qed

lemma under_mono: "prefix (comps p) (comps q) \<Longrightarrow> under m q \<subseteq> under m p"
  by (auto simp: under_def dest: prefix_order.trans)

lemma finite_locks: "tokens_ok m \<Longrightarrow> finite (locks m)"
  by (simp add: tokens_ok_def locks_def finite_ran)

lemma finite_under: "tokens_ok m \<Longrightarrow> finite (under m p)"
  by (auto simp: under_def dest: finite_locks)

lemma tokens_okD:
  assumes "base_ok m" "byToken m t = Some a"
  shows "token (store m a) = t" "t \<noteq> []" "byName m (root m a) = Some a" "\<exists>k \<le> unat (gen m). t = FormatUint k"
  using assms unfolding base_ok_def tokens_ok_def by blast+

lemma names_okD:
  assumes "base_ok m" "byName m p = Some a"
  shows "root m a = p" "clean_path p" "a < nextp m"
    "token (store m a) \<noteq> [] \<Longrightarrow> byToken m (token (store m a)) = Some a"
    "held (store m a) \<Longrightarrow> token (store m a) \<noteq> []"
  using assms unfolding base_ok_def names_ok_def node_ok_def by blast+

lemma lock_node:
  assumes "base_ok m" "a \<in> locks m"
  shows "byName m (root m a) = Some a" "token (store m a) \<noteq> []" "byToken m (token (store m a)) = Some a"
    "clean_path (root m a)" "a < nextp m" "a \<in> under m (root m a)"
proof -
  obtain t where t: "byToken m t = Some a" using assms(2) by (auto simp: locks_def ran_def)
  note k = tokens_okD [OF assms(1) t]
  show "byName m (root m a) = Some a" by (rule k)
  show "token (store m a) \<noteq> []" "byToken m (token (store m a)) = Some a" using t k by simp_all
  show "clean_path (root m a)" "a < nextp m" using names_okD [OF assms(1) k(3)] by simp_all
  show "a \<in> under m (root m a)" using assms(2) by (simp add: under_def)
qed

lemma locked_iff:
  assumes "base_ok m" "byName m p = Some a"
  shows "a \<in> locks m \<longleftrightarrow> token (store m a) \<noteq> []"
  using names_okD(4) [OF assms] lock_node(2) [OF assms(1)] by (auto simp: locks_def intro: ranI)

lemma byName_inj: "\<lbrakk>names_ok m; byName m p = Some a; byName m q = Some a\<rbrakk> \<Longrightarrow> p = q"
  by (auto simp: names_ok_def node_ok_def)

lemma clean_pathE:
  assumes "clean_path p"
  obtains "p = render (comps p)" "list_all valid_comp (comps p)"
  using assms by (auto simp: clean_path_def)

lemma clean_path_eq: "\<lbrakk>clean_path p; clean_path q; comps p = comps q\<rbrakk> \<Longrightarrow> p = q"
  by (metis clean_pathE)

lemma clean_path_slashClean [simp]: "clean_path (slashClean name)"
  unfolding clean_path_def slashClean_render by (intro exI [of _ "comps name"]) simp

lemma consistent_NewMemLS: "consistent (NewMemLS now)"
  by (simp add: consistent_def base_ok_def names_ok_def counts_ok_def tokens_ok_def exclusive_def
      queue_ok_def index_ok_def heap_ok_def expirable_def locks_def under_def NewMemLS_def new_node_def)

section \<open>Whether a lock can be created\<close>

lemma iter_canCreate:
  "iter_go (canCreate_visit m zd) ns first u =
     Some (u, (case ns of [] \<Rightarrow> True | n # ns' \<Rightarrow> snd (the (canCreate_visit m zd n first u)))
              \<and> (\<forall>n \<in> set (tl ns). snd (the (canCreate_visit m zd n False u))))"
proof (induction ns arbitrary: first)
  case (Cons n ns)
  then show ?case by (cases ns) (auto simp: canCreate_visit_def)
qed simp

lemma anc_names_Cons:
  "list_all valid_comp cs \<Longrightarrow>
   anc_names cs = render cs # tl (anc_names cs) \<and> set (tl (anc_names cs)) = set (anc_names cs) - {render cs}"
proof -
  assume v: "list_all valid_comp cs"
  have h: "anc_names cs = render cs # tl (anc_names cs)"
    by (cases cs rule: rev_cases) (auto simp: anc_names_def prefixes_snoc)
  with distinct_anc_names [OF v] show ?thesis by (metis Diff_insert_absorb distinct.simps(2) list.simps(15))
qed

definition admits :: "memLS \<Rightarrow> bool \<Rightarrow> string \<Rightarrow> bool \<Rightarrow> bool" where
  "admits m zd q first = snd (the (canCreate_visit m zd q first ()))"

lemma admits_first:
  assumes ok: "base_ok m" and p: "clean_path p"
  shows "admits m zd p True \<longleftrightarrow>
    (\<forall>a \<in> locks m. root m a \<noteq> p \<and> (\<not> zd \<longrightarrow> \<not> prefix (comps p) (comps (root m a))))"
proof (cases "byName m p")
  case None
  then have "under m p = {}" using ok p by (auto simp: base_ok_def counts_ok_def)
  then show ?thesis using None by (auto simp: admits_def canCreate_visit_def under_def)
next
  case (Some a)
  then have "under m p \<noteq> {}" using ok p by (auto simp: base_ok_def counts_ok_def)
  moreover have "a \<in> locks m \<longleftrightarrow> token (store m a) \<noteq> []" by (rule locked_iff [OF ok Some])
  moreover have "root m a = p" by (rule names_okD(1) [OF ok Some])
  moreover have "b = a" if "b \<in> locks m" "root m b = p" for b
    using lock_node(1) [OF ok that(1)] that(2) Some by simp
  ultimately show ?thesis using Some by (auto simp: admits_def canCreate_visit_def under_def)
qed

lemma admits_rest:
  assumes ok: "base_ok m" and v: "list_all valid_comp cs"
  shows "(\<forall>q \<in> set (anc_names cs) - {render cs}. admits m zd q False) \<longleftrightarrow>
    (\<forall>a \<in> locks m. root m a \<noteq> render cs \<longrightarrow> \<not> ZeroDepth (details (store m a)) \<longrightarrow> \<not> prefix (comps (root m a)) cs)"
    (is "?L = ?R")
proof
  assume L: ?L
  show ?R
  proof (intro ballI impI notI)
    fix a assume a: "a \<in> locks m" "root m a \<noteq> render cs" "\<not> ZeroDepth (details (store m a))" "prefix (comps (root m a)) cs"
    then have "root m a \<in> set (anc_names cs) - {render cs}"
      using mem_anc_names [OF v] lock_node(4) [OF ok a(1)] by simp
    with L have "admits m zd (root m a) False" by blast
    with a lock_node(1,2) [OF ok a(1)] show False by (simp add: admits_def canCreate_visit_def)
  qed
next
  assume R: ?R
  show ?L
  proof
    fix q assume q: "q \<in> set (anc_names cs) - {render cs}"
    show "admits m zd q False"
    proof (cases "byName m q")
      case (Some a)
      with R q names_okD(1) [OF ok Some] locked_iff [OF ok Some] mem_anc_names [OF v] show ?thesis
        by (auto simp: admits_def canCreate_visit_def)
    qed (simp add: admits_def canCreate_visit_def)
  qed
qed

text \<open>
  \<^verbatim>\<open>canCreate\<close> answers whether the new lock would conflict with no existing one.
\<close>

lemma canCreate_iff:
  assumes ok: "base_ok m" and p: "clean_path (Root d)"
  shows "canCreate m (Root d) (ZeroDepth d) = Some (\<forall>a \<in> locks m. \<not> conflict (details (store m a)) d)"
proof -
  let ?cs = "comps (Root d)"
  have v: "list_all valid_comp ?cs" and r: "Root d = render ?cs" using p by (auto elim: clean_pathE)
  have "canCreate m (Root d) (ZeroDepth d) =
      Some (admits m (ZeroDepth d) (Root d) True
            \<and> (\<forall>q \<in> set (anc_names ?cs) - {Root d}. admits m (ZeroDepth d) q False))"
    using walkToRoot_iter [OF v, of "canCreate_visit m (ZeroDepth d)" True "()"] anc_names_Cons [OF v] r
    by (simp add: canCreate_def iter_canCreate admits_def split: list.splits)
  moreover have "(\<forall>a \<in> locks m. \<not> conflict (details (store m a)) d) \<longleftrightarrow>
      (\<forall>a \<in> locks m. root m a \<noteq> Root d \<and> (\<not> ZeroDepth d \<longrightarrow> \<not> prefix ?cs (comps (root m a))))
    \<and> (\<forall>a \<in> locks m. root m a \<noteq> Root d \<longrightarrow> \<not> ZeroDepth (details (store m a)) \<longrightarrow> \<not> prefix (comps (root m a)) ?cs)"
    by (auto simp: conflict_def covers_def root_def)
  ultimately show ?thesis
    using admits_first [OF ok p] admits_rest [OF ok v] r by simp
qed

end
