(* ===== verification/MemLSInv.thy ===== *)
theory MemLSInv
  imports MemLS
begin

text \<open>
  The internal steps of the lock system keep it consistent: \<^verbatim>\<open>create\<close> and \<^verbatim>\<open>remove\<close> walk the path
  to the root and adjust the reference counts, \<^verbatim>\<open>collectExpiredNodes\<close> removes what has expired,
  \<^verbatim>\<open>hold\<close> and \<^verbatim>\<open>unhold\<close> take a lock out of the expiry queue and put it back.  None of them panics
  on a consistent state.
\<close>

section \<open>create: counting up\<close>

definition grow :: "memLS \<Rightarrow> string \<Rightarrow> memLS" where
  "grow m p =
     (case byName m p of
        None \<Rightarrow> m\<lparr>store := (store m)(nextp m := (new_node p)\<lparr>refCount := 1\<rparr>), nextp := Suc (nextp m),
                  byName := (byName m)(p \<mapsto> nextp m)\<rparr>
      | Some a \<Rightarrow> upd a (\<lambda>x. x\<lparr>refCount := refCount x + 1\<rparr>) m)"

lemma create_visit_grow:
  "create_visit p first (m, ret) = Some ((grow m p, if first then byName (grow m p) p else ret), True)"
  by (auto simp: create_visit_def grow_def upd_def new_node_def split: option.splits)

lemma iter_create:
  "iter_go create_visit ns False (m, ret) = Some ((foldl grow m ns, ret), True)"
  by (induction ns arbitrary: m) (auto simp: create_visit_grow)

definition ptr_ok :: "memLS \<Rightarrow> bool" where
  "ptr_ok m \<longleftrightarrow> (\<forall>p a. byName m p = Some a \<longrightarrow> root m a = p \<and> a < nextp m)"

definition grown :: "memLS \<Rightarrow> string set \<Rightarrow> memLS \<Rightarrow> bool" where
  "grown m S m' \<longleftrightarrow>
     byToken m' = byToken m \<and> gen m' = gen m \<and> byExpiry m' = byExpiry m \<and> nextp m \<le> nextp m'
   \<and> (\<forall>p a. byName m p = Some a \<longrightarrow> byName m' p = Some a
        \<and> store m' a = (store m a)\<lparr>refCount := refCount (store m a) + (if p \<in> S then 1 else 0)\<rparr>)
   \<and> (\<forall>p. byName m p = None \<longrightarrow> p \<in> S \<longrightarrow> (\<exists>a. byName m' p = Some a \<and> nextp m \<le> a \<and> a < nextp m'
        \<and> store m' a = (new_node p)\<lparr>refCount := 1\<rparr>))
   \<and> (\<forall>p. byName m p = None \<longrightarrow> p \<notin> S \<longrightarrow> byName m' p = None)
   \<and> (\<forall>a. a \<notin> ran (byName m) \<longrightarrow> a < nextp m \<longrightarrow> store m' a = store m a)
   \<and> (\<forall>a. nextp m \<le> a \<longrightarrow> store m' a = store m a \<or> byExpiryIndex (store m' a) = -1)"

lemma grownD:
  assumes "grown m S m'"
  shows "byToken m' = byToken m" "gen m' = gen m" "byExpiry m' = byExpiry m" "nextp m \<le> nextp m'"
    "byName m p = Some a \<Longrightarrow> byName m' p = Some a"
    "byName m p = Some a \<Longrightarrow>
       store m' a = (store m a)\<lparr>refCount := refCount (store m a) + (if p \<in> S then 1 else 0)\<rparr>"
    "byName m p = None \<Longrightarrow> p \<in> S \<Longrightarrow> \<exists>a. byName m' p = Some a \<and> nextp m \<le> a \<and> a < nextp m'
       \<and> store m' a = (new_node p)\<lparr>refCount := 1\<rparr>"
    "byName m p = None \<Longrightarrow> p \<notin> S \<Longrightarrow> byName m' p = None"
    "a \<notin> ran (byName m) \<Longrightarrow> a < nextp m \<Longrightarrow> store m' a = store m a"
    "nextp m \<le> a \<Longrightarrow> store m' a = store m a \<or> byExpiryIndex (store m' a) = -1"
  using assms unfolding grown_def by blast+

lemma grown_ptr_ok:
  assumes "grown m S m'" "ptr_ok m"
  shows "ptr_ok m'"
  unfolding ptr_ok_def
proof (intro allI impI)
  fix p a assume a: "byName m' p = Some a"
  show "root m' a = p \<and> a < nextp m'"
  proof (cases "byName m p")
    case (Some b)
    then have "root m b = p" "b < nextp m" using assms(2) by (auto simp: ptr_ok_def)
    with grownD(4,5,6) [OF assms(1)] Some a show ?thesis by (fastforce simp: root_def)
  next
    case None
    then have "p \<in> S" using grownD(8) [OF assms(1) None] a by auto
    with grownD(7) [OF assms(1) None] a show ?thesis by (auto simp: root_def new_node_def)
  qed
qed

lemma grown_refl: "grown m {} m"
  by (simp add: grown_def)

lemma grown_step_old:
  assumes g: "grown m S m1" and ok: "ptr_ok m" and n: "n \<notin> S" and a: "byName m1 n = Some a"
  shows "grown m (insert n S) (grow m1 n)"
proof -
  have g2: "grow m1 n = upd a (\<lambda>x. x\<lparr>refCount := refCount x + 1\<rparr>) m1" using a by (simp add: grow_def)
  have an: "byName m n = Some a" using grownD(5,8) [OF g] n a by (cases "byName m n") auto
  have neq: "b \<noteq> a" if "byName m1 p = Some b" "p \<noteq> n" for p b
    using that a grown_ptr_ok [OF g ok] by (auto simp: ptr_ok_def)
  have an2: "a < nextp m" "a \<in> ran (byName m)" using ok an by (auto simp: ptr_ok_def intro: ranI)
  let ?m2 = "upd a (\<lambda>x. x\<lparr>refCount := refCount x + 1\<rparr>) m1"
  have "byName ?m2 p = Some b \<and> store ?m2 b =
      (store m b)\<lparr>refCount := refCount (store m b) + (if p \<in> insert n S then 1 else 0)\<rparr>"
    if pb: "byName m p = Some b" for p b
    using grownD(5,6) [OF g pb] neq [of p b] an n pb by (cases "p = n") (auto simp: store_upd)
  moreover have "\<exists>b. byName ?m2 p = Some b \<and> nextp m \<le> b \<and> b < nextp ?m2
      \<and> store ?m2 b = (new_node p)\<lparr>refCount := 1\<rparr>" if pn: "byName m p = None" "p \<in> insert n S" for p
  proof -
    have "p \<noteq> n" using an pn by auto
    then show ?thesis using grownD(7) [OF g pn(1)] pn(2) neq [of p] by (auto simp: store_upd)
  qed
  moreover have "byName ?m2 p = None" if "byName m p = None" "p \<notin> insert n S" for p
    using that grownD(8) [OF g that(1)] by auto
  moreover have "store ?m2 b = store m b" if "b \<notin> ran (byName m)" "b < nextp m" for b
    using that grownD(9) [OF g that] an2 by (auto simp: store_upd)
  moreover have "store ?m2 b = store m b \<or> byExpiryIndex (store ?m2 b) = -1" if "nextp m \<le> b" for b
    using grownD(10) [OF g that] an2(1) that by (auto simp: store_upd)
  ultimately show ?thesis
    using grownD(1-4) [OF g] unfolding grown_def g2 by simp
qed

lemma grown_step_new:
  assumes g: "grown m S m1" and ok: "ptr_ok m" and n: "n \<notin> S" and a: "byName m1 n = None"
  shows "grown m (insert n S) (grow m1 n)"
proof -
  have nn: "byName m n = None" using grownD(5) [OF g] a by (cases "byName m n") auto
  have old: "b < nextp m1" if "byName m1 p = Some b" for p b
    using that grown_ptr_ok [OF g ok] by (auto simp: ptr_ok_def)
  have le: "nextp m \<le> nextp m1" by (rule grownD(4) [OF g])
  let ?m2 = "grow m1 n"
  have f: "byToken ?m2 = byToken m1" "gen ?m2 = gen m1" "byExpiry ?m2 = byExpiry m1"
    "nextp ?m2 = Suc (nextp m1)" "byName ?m2 = (byName m1)(n \<mapsto> nextp m1)"
    "store ?m2 = (store m1)(nextp m1 := (new_node n)\<lparr>refCount := 1\<rparr>)"
    using a by (simp_all add: grow_def)
  have "byName ?m2 p = Some b \<and> store ?m2 b =
      (store m b)\<lparr>refCount := refCount (store m b) + (if p \<in> insert n S then 1 else 0)\<rparr>"
    if "byName m p = Some b" for p b
    using that nn old grownD(5,6) [OF g that] by (auto simp: f)
  moreover have "\<exists>b. byName ?m2 p = Some b \<and> nextp m \<le> b \<and> b < nextp ?m2
      \<and> store ?m2 b = (new_node p)\<lparr>refCount := 1\<rparr>" if pn: "byName m p = None" "p \<in> insert n S" for p
  proof (cases "p = n")
    case False
    obtain b where b: "byName m1 p = Some b" "nextp m \<le> b" "b < nextp m1"
      "store m1 b = (new_node p)\<lparr>refCount := 1\<rparr>" using grownD(7) [OF g pn(1)] pn(2) False by auto
    then show ?thesis using False by (intro exI [of _ b]) (auto simp: f)
  qed (use le f in auto)
  moreover have "byName ?m2 p = None" if "byName m p = None" "p \<notin> insert n S" for p
    using that grownD(8) [OF g that(1)] by (auto simp: f)
  moreover have "store ?m2 b = store m b" if "b \<notin> ran (byName m)" "b < nextp m" for b
    using that grownD(9) [OF g that] le by (auto simp: f)
  moreover have "store ?m2 b = store m b \<or> byExpiryIndex (store ?m2 b) = -1" if "nextp m \<le> b" for b
    using grownD(10) [OF g that] by (auto simp: f new_node_def)
  ultimately show ?thesis
    using grownD(1-3) [OF g] le unfolding grown_def by (simp add: f)
qed

lemma grown_foldl:
  "\<lbrakk>ptr_ok m; distinct ns\<rbrakk> \<Longrightarrow> grown m (set ns) (foldl grow m ns)"
proof (induction ns rule: rev_induct)
  case Nil
  then show ?case by (simp add: grown_refl)
next
  case (snoc n ns)
  then have g: "grown m (set ns) (foldl grow m ns)" and n: "n \<notin> set ns" by auto
  show ?case
    using grown_step_old [OF g snoc.prems(1) n] grown_step_new [OF g snoc.prems(1) n]
    by (cases "byName (foldl grow m ns) n") auto
qed

lemma create_grown:
  assumes ok: "ptr_ok m" and p: "clean_path p"
  obtains m' a where "create m p = Some (m', Some a)" "byName m' p = Some a"
    "grown m (set (anc_names (comps p))) m'"
proof -
  let ?ns = "anc_names (comps p)"
  have v: "list_all valid_comp (comps p)" and r: "p = render (comps p)" using p by (auto elim: clean_pathE)
  have h: "?ns = p # tl ?ns" using anc_names_Cons [OF v] r by simp
  let ?m' = "foldl grow m ?ns"
  have "distinct ?ns" by (rule distinct_anc_names [OF v])
  then have g: "grown m (set ?ns) ?m'" and g1: "grown m {p} (grow m p)"
    using grown_foldl [OF ok, of ?ns] grown_foldl [OF ok, of "[p]"] by auto
  have "grown (grow m p) (set (tl ?ns)) ?m'"
    using grown_foldl [OF grown_ptr_ok [OF g1 ok], of "tl ?ns"] \<open>distinct ?ns\<close> h
    by (metis distinct_tl foldl_Cons)
  moreover obtain a where a: "byName (grow m p) p = Some a"
    by (cases "byName m p") (auto simp: grow_def)
  ultimately have "byName ?m' p = Some a" using grownD(5) by blast
  moreover have "create m p = Some (?m', Some a)"
  proof -
    have "walkToRoot create_visit p True (m, None) = iter_go create_visit (p # tl ?ns) True (m, None)"
      using walkToRoot_iter [OF v, of create_visit True "(m, None)"] r h by simp
    also have "\<dots> = Some ((foldl grow m (p # tl ?ns), Some a), True)"
      using a by (simp add: create_visit_grow iter_create)
    finally show ?thesis by (simp add: create_def flip: h)
  qed
  ultimately show ?thesis using that g by blast
qed

text \<open>The new lock, its token and its details are then entered.\<close>

definition enter :: "nat \<Rightarrow> string \<Rightarrow> LockDetails \<Rightarrow> memLS \<Rightarrow> memLS" where
  "enter a tok d m =
     m\<lparr>gen := gen m + 1, byToken := (byToken m)(tok \<mapsto> a),
       store := (store m)(a := (store m a)\<lparr>token := tok, details := d\<rparr>)\<rparr>"

lemma enter_sel [simp]:
  "gen (enter a tok d m) = gen m + 1" "byToken (enter a tok d m) = (byToken m)(tok \<mapsto> a)"
  "byName (enter a tok d m) = byName m" "nextp (enter a tok d m) = nextp m" "byExpiry (enter a tok d m) = byExpiry m"
  "store (enter a tok d m) b = (if b = a then (store m a)\<lparr>token := tok, details := d\<rparr> else store m b)"
  by (simp_all add: enter_def)

lemma base_ok_ptr_ok: "base_ok m \<Longrightarrow> ptr_ok m"
  by (auto simp: ptr_ok_def dest: names_okD)

text \<open>A state in which \<open>create\<close> has run for a lock that conflicts with none.\<close>

abbreviation ancs :: "LockDetails \<Rightarrow> string set" where
  "ancs d \<equiv> set (anc_names (comps (Root d)))"

definition created :: "memLS \<Rightarrow> LockDetails \<Rightarrow> memLS \<Rightarrow> nat \<Rightarrow> string \<Rightarrow> bool" where
  "created m d m1 a tok \<longleftrightarrow>
     base_ok m \<and> clean_path (Root d) \<and> (\<forall>b \<in> locks m. \<not> conflict (details (store m b)) d)
   \<and> grown m (ancs d) m1 \<and> byName m1 (Root d) = Some a
   \<and> unat (gen m) < 2 ^ 64 - 1 \<and> tok = FormatUint (unat (gen m + 1))"

lemma createdD:
  assumes "created m d m1 a tok"
  shows "base_ok m" "clean_path (Root d)" "b \<in> locks m \<Longrightarrow> \<not> conflict (details (store m b)) d"
    "grown m (ancs d) m1" "byName m1 (Root d) = Some a"
    "unat (gen m) < 2 ^ 64 - 1" "tok = FormatUint (unat (gen m + 1))"
  using assms unfolding created_def by blast+

lemma mem_ancs: "clean_path (Root d) \<Longrightarrow> q \<in> ancs d \<longleftrightarrow> clean_path q \<and> prefix (comps q) (comps (Root d))"
  by (rule mem_anc_names) (auto elim: clean_pathE)

lemma gen_Suc: "unat g < 2 ^ 64 - 1 \<Longrightarrow> unat (g + 1 :: 64 word) = Suc (unat g)"
  by (simp add: unat_word_ariths)

lemma tok_fresh:
  assumes c: "created m d m1 a tok"
  shows "byToken m tok = None" "tok \<noteq> []"
proof -
  show "byToken m tok = None"
  proof (cases "byToken m tok")
    case (Some b)
    from tokens_okD(4) [OF createdD(1) [OF c] Some] obtain k
      where "k \<le> unat (gen m)" "FormatUint (Suc (unat (gen m))) = FormatUint k"
      using createdD(6,7) [OF c] gen_Suc by auto
    then show ?thesis using FormatUint_inj by fastforce
  qed simp
  show "tok \<noteq> []" using createdD(7) [OF c] by (simp del: FormatUint.simps)
qed

lemma created_name:
  assumes c: "created m d m1 a tok"
  shows "byName m (Root d) = Some a \<and> token (store m a) = [] \<and> \<not> held (store m a)
       \<or> byName m (Root d) = None \<and> nextp m \<le> a \<and> \<not> held (store m1 a)"
proof (cases "byName m (Root d)")
  case None
  then have "Root d \<in> ancs d" using mem_ancs createdD(2) [OF c] by simp
  from grownD(7) [OF createdD(4) [OF c] None this] createdD(5) [OF c] None show ?thesis
    by (auto simp: new_node_def)
next
  case (Some b)
  then have b: "b = a" using grownD(5) [OF createdD(4) [OF c] Some] createdD(5) [OF c] by simp
  have "root m a = Root d" using names_okD(1) [OF createdD(1) [OF c] Some] b by simp
  then have "a \<notin> locks m" using createdD(3) [OF c] by (auto simp: conflict_def covers_def root_def)
  then have t: "token (store m a) = []" using locked_iff [OF createdD(1) [OF c]] Some b by simp
  then have "\<not> held (store m a)" using names_okD(5) [OF createdD(1) [OF c] Some] b by auto
  then show ?thesis using Some b t by simp
qed

lemma created_old_node:
  assumes "created m d m1 a tok" "byName m q = Some b"
  shows "byName m1 q = Some b" "details (store m1 b) = details (store m b)" "token (store m1 b) = token (store m b)"
    "expiry (store m1 b) = expiry (store m b)" "held (store m1 b) = held (store m b)"
    "byExpiryIndex (store m1 b) = byExpiryIndex (store m b)"
    "refCount (store m1 b) = refCount (store m b) + (if q \<in> ancs d then 1 else 0)"
  using grownD(5,6) [OF createdD(4) [OF assms(1)] assms(2)] by simp_all

lemma created_fresh:
  assumes c: "created m d m1 a tok"
  shows "a \<notin> locks m" "\<not> held (store m1 a)"
proof -
  show "a \<notin> locks m" using created_name [OF c] lock_node(2,5) [OF createdD(1) [OF c], of a] by auto
  show "\<not> held (store m1 a)" using created_name [OF c] created_old_node(5) [OF c, of "Root d" a] by auto
qed

lemma created_old_lock:
  assumes c: "created m d m1 a tok" and b: "b \<in> locks m"
  defines "m2 \<equiv> enter a tok d m1"
  shows "b \<noteq> a" "root m2 b = root m b" "details (store m2 b) = details (store m b)"
    "token (store m2 b) = token (store m b)" "expiry (store m2 b) = expiry (store m b)"
    "held (store m2 b) = held (store m b)"
proof -
  show ne: "b \<noteq> a" using created_fresh(1) [OF c] b by auto
  note created_old_node [OF c lock_node(1) [OF createdD(1) [OF c] b]]
  with ne show "root m2 b = root m b" "details (store m2 b) = details (store m b)"
    "token (store m2 b) = token (store m b)" "expiry (store m2 b) = expiry (store m b)"
    "held (store m2 b) = held (store m b)" by (simp_all add: root_def m2_def)
qed

lemma ran_upd_fresh: "f x = None \<Longrightarrow> ran (f(x \<mapsto> y)) = insert y (ran f)"
  by auto

lemma locks_enter:
  assumes c: "created m d m1 a tok"
  shows "locks (enter a tok d m1) = insert a (locks m)"
  using grownD(1) [OF createdD(4) [OF c]] tok_fresh(1) [OF c] by (simp add: locks_def ran_upd_fresh)

lemma root_enter [simp]: "root (enter a tok d m1) a = Root d"
  by (simp add: root_def)

lemma under_enter:
  assumes c: "created m d m1 a tok"
  shows "under (enter a tok d m1) q =
    (if prefix (comps q) (comps (Root d)) then insert a (under m q) else under m q)"
proof -
  let ?m2 = "enter a tok d m1"
  have "under ?m2 q = {b \<in> insert a (locks m). prefix (comps q) (comps (root ?m2 b))}"
    by (simp add: under_def locks_enter [OF c])
  also have "\<dots> = (if prefix (comps q) (comps (Root d)) then {a} else {}) \<union> under m q"
    using created_old_lock(2) [OF c] by (auto simp: under_def)
  finally show ?thesis by auto
qed

lemma created_new_name:
  assumes c: "created m d m1 a tok" and q: "byName m q = None" "byName m1 q = Some b"
  shows "q \<in> ancs d" "nextp m \<le> b" "b < nextp m1" "store m1 b = (new_node q)\<lparr>refCount := 1\<rparr>"
proof -
  note g = createdD(4) [OF c]
  show k: "q \<in> ancs d" using grownD(8) [OF g q(1)] q(2) by auto
  from grownD(7) [OF g q(1) k] q(2)
  show "nextp m \<le> b" "b < nextp m1" "store m1 b = (new_node q)\<lparr>refCount := 1\<rparr>" by auto
qed

lemma created_ptr: "\<lbrakk>created m d m1 a tok; byName m1 q = Some b\<rbrakk> \<Longrightarrow> root m1 b = q \<and> b < nextp m1"
  using grown_ptr_ok [OF createdD(4) base_ok_ptr_ok [OF createdD(1)]] by (auto simp: ptr_ok_def)

lemma names_enter:
  assumes c: "created m d m1 a tok"
  shows "names_ok (enter a tok d m1)"
  unfolding names_ok_def
proof (intro allI impI)
  fix q b assume "byName (enter a tok d m1) q = Some b"
  then have b: "byName m1 q = Some b" by simp
  show "node_ok (enter a tok d m1) q b"
  proof (cases "b = a")
    case True
    then have "q = Root d" using created_ptr [OF c b] created_ptr [OF c createdD(5) [OF c]] by simp
    with True createdD(2) [OF c] created_ptr [OF c b] created_fresh(2) [OF c] tok_fresh(2) [OF c]
    show ?thesis by (simp add: node_ok_def)
  next
    case ne: False
    show ?thesis
    proof (cases "byName m q")
      case None
      then show ?thesis
        using ne mem_ancs [OF createdD(2) [OF c]] created_new_name [OF c None b]
        by (simp add: node_ok_def root_def new_node_def)
    next
      case (Some e)
      then have e: "e = b" using created_old_node(1) [OF c Some] b by simp
      note k = names_okD [OF createdD(1) [OF c] Some] and o = created_old_node [OF c Some]
      have "byToken m1 = byToken m" by (rule grownD(1) [OF createdD(4) [OF c]])
      moreover have "token (store m b) \<noteq> tok" using k(4) tok_fresh [OF c] e by auto
      ultimately show ?thesis
        using k o e ne created_ptr [OF c b] by (auto simp: node_ok_def root_def)
    qed
  qed
qed

lemma counts_enter:
  assumes c: "created m d m1 a tok"
  shows "counts_ok (enter a tok d m1)"
  unfolding counts_ok_def
proof (intro allI impI)
  fix q assume q: "clean_path q"
  have cm: "case byName m q of None \<Rightarrow> under m q = {}
      | Some b \<Rightarrow> under m q \<noteq> {} \<and> refCount (store m b) = int (card (under m q))"
    using createdD(1) [OF c] q by (auto simp: base_ok_def counts_ok_def)
  have fin: "finite (under m q)" using createdD(1) [OF c] finite_under by (auto simp: base_ok_def)
  have na: "a \<notin> under m q" using created_fresh(1) [OF c] by (simp add: under_def)
  have rc: "refCount (store (enter a tok d m1) b) = refCount (store m1 b)" for b by simp
  note anc = mem_ancs [OF createdD(2) [OF c], of q]
  show "case byName (enter a tok d m1) q of None \<Rightarrow> under (enter a tok d m1) q = {}
      | Some b \<Rightarrow> under (enter a tok d m1) q \<noteq> {}
          \<and> refCount (store (enter a tok d m1) b) = int (card (under (enter a tok d m1) q))"
  proof (cases "byName m q")
    case None
    show ?thesis
    proof (cases "byName m1 q")
      case (Some b)
      then show ?thesis
        using created_new_name(1,4) [OF c None Some] anc cm None rc [of b]
        by (simp add: under_enter [OF c] del: enter_sel(6))
    next
      case n1: None
      then have "q \<notin> ancs d" using grownD(7) [OF createdD(4) [OF c] None] by auto
      then show ?thesis using n1 anc q cm None by (simp add: under_enter [OF c])
    qed
  next
    case (Some b)
    then show ?thesis
      using created_old_node(1,7) [OF c Some] anc q cm fin na rc by (auto simp: under_enter [OF c])
  qed
qed

lemma tokens_enter:
  assumes c: "created m d m1 a tok"
  shows "tokens_ok (enter a tok d m1)"
proof -
  let ?m2 = "enter a tok d m1"
  note ok = createdD(1) [OF c] and g = createdD(4) [OF c]
  have gen: "unat (gen ?m2) = Suc (unat (gen m))" using grownD(2) [OF g] gen_Suc [OF createdD(6) [OF c]] by simp
  have "token (store ?m2 b) = t \<and> t \<noteq> [] \<and> byName ?m2 (root ?m2 b) = Some b
      \<and> (\<exists>k\<le>unat (gen ?m2). t = FormatUint k)" if t: "byToken ?m2 t = Some b" for t b
  proof (cases "t = tok")
    case True
    then have "b = a" using t by simp
    moreover have "\<exists>k\<le>unat (gen ?m2). tok = FormatUint k"
      using createdD(7) [OF c] grownD(2) [OF g] by (intro exI [of _ "unat (gen ?m2)"]) simp
    ultimately show ?thesis using True tok_fresh(2) [OF c] createdD(5) [OF c] by simp
  next
    case False
    then have tm: "byToken m t = Some b" using t grownD(1) [OF g] by simp
    then have "b \<in> locks m" by (auto simp: locks_def intro: ranI)
    note o = created_old_lock [OF c this] and k = tokens_okD [OF ok tm]
    obtain j where "j \<le> unat (gen m)" "t = FormatUint j" using k(4) by blast
    then have "\<exists>j\<le>unat (gen ?m2). t = FormatUint j" unfolding gen by (intro exI [of _ j]) simp
    then show ?thesis using o k created_old_node(1) [OF c k(3)] by simp
  qed
  moreover have "finite (dom (byToken ?m2))" using ok grownD(1) [OF g] by (simp add: base_ok_def tokens_ok_def)
  ultimately show ?thesis unfolding tokens_ok_def by blast
qed

lemma conflict_sym: "conflict d1 d2 = conflict d2 d1"
  by (auto simp: conflict_def)

lemma exclusive_enter:
  assumes c: "created m d m1 a tok"
  shows "exclusive (enter a tok d m1)"
proof -
  have "exclusive m" using createdD(1) [OF c] by (simp add: base_ok_def)
  moreover have "\<not> conflict (details (store m b)) d \<and> \<not> conflict d (details (store m b))" if "b \<in> locks m" for b
    using createdD(3) [OF c that] conflict_sym by blast
  ultimately show ?thesis
    using created_old_lock(1,3) [OF c] unfolding exclusive_def locks_enter [OF c] by auto
qed

lemma base_enter: "created m d m1 a tok \<Longrightarrow> base_ok (enter a tok d m1)"
  by (simp add: base_ok_def names_enter counts_enter tokens_enter exclusive_enter)

end
