(* ===== verification/MemLSOps.thy ===== *)
theory MemLSOps
  imports MemLSInv
begin

text \<open>
  The rest of the internal steps: \<^verbatim>\<open>remove\<close>, \<^verbatim>\<open>collectExpiredNodes\<close>, \<^verbatim>\<open>hold\<close> and \<^verbatim>\<open>unhold\<close>, each
  shown to succeed on a consistent state, to keep it consistent, and to change the abstract
  \<open>view\<close> of the lock table (token to details, expiry and held flag) as it should.
\<close>

section \<open>The abstract view\<close>

record lock =
  ldetails :: LockDetails
  lexpiry :: "int option"
  lheld :: bool

definition info :: "memLSNode \<Rightarrow> lock" where
  "info n = \<lparr>ldetails = details n, lexpiry = (if 0 \<le> Duration (details n) then Some (expiry n) else None),
             lheld = held n\<rparr>"

definition view :: "memLS \<Rightarrow> string \<rightharpoonup> lock" where
  "view m t = map_option (\<lambda>a. info (store m a)) (byToken m t)"

lemma core_view:
  assumes "core m = core m'"
  shows "view m = view m'"
proof -
  have "info (store m a) = info (store m' a)" for a by (simp add: info_def core_fields [OF assms])
  then show ?thesis by (simp add: view_def core_fields [OF assms] fun_eq_iff)
qed

lemma queue_ok_cong:
  assumes "byExpiry m' = byExpiry m" "\<And>b. byExpiryIndex (store m' b) = byExpiryIndex (store m b)"
    "\<And>b. b \<in> set (byExpiry m) \<Longrightarrow> expiry (store m' b) = expiry (store m b)"
  shows "queue_ok m' = queue_ok m"
proof -
  have eq: "expiry_key m' (byExpiry m ! i) = expiry_key m (byExpiry m ! i)" if "i < length (byExpiry m)" for i
    using assms(3) that by (simp add: expiry_key_def)
  have "parent i < length (byExpiry m)" if "i < length (byExpiry m)" for i using that by simp
  with eq have "heap_ok (expiry_key m') (length (byExpiry m)) (byExpiry m)
      = heap_ok (expiry_key m) (length (byExpiry m)) (byExpiry m)"
    unfolding heap_ok_def by (intro all_cong1) auto
  then show ?thesis using assms(1,2) by (simp add: queue_ok_def index_ok_def)
qed

lemma consistentD:
  assumes "consistent m"
  shows "base_ok m" "queue_ok m" "set (byExpiry m) = expirable m"
  using assms by (simp_all add: consistent_def)

lemma queue_index:
  assumes "queue_ok m"
  shows "0 \<le> byExpiryIndex (store m a) \<longleftrightarrow> a \<in> set (byExpiry m)"
  using assms by (auto simp: queue_ok_def index_ok_def in_set_conv_nth)

lemma countsD:
  assumes "base_ok m" "clean_path p"
  shows "byName m p = None \<longleftrightarrow> under m p = {}"
    "byName m p = Some a \<Longrightarrow> refCount (store m a) = int (card (under m p))"
proof -
  have c: "case byName m p of None \<Rightarrow> under m p = {}
      | Some b \<Rightarrow> under m p \<noteq> {} \<and> refCount (store m b) = int (card (under m p))"
    using assms by (simp add: base_ok_def counts_ok_def)
  then show "byName m p = None \<longleftrightarrow> under m p = {}" by (auto split: option.splits)
  show "byName m p = Some a \<Longrightarrow> refCount (store m a) = int (card (under m p))" using c by simp
qed

section \<open>remove\<close>

definition dec :: "memLSNode \<Rightarrow> memLSNode" where
  "dec x = x\<lparr>refCount := refCount x - 1\<rparr>"

definition shrink :: "string set \<Rightarrow> memLS \<Rightarrow> memLS" where
  "shrink S m =
     m\<lparr>store := (\<lambda>a. if \<exists>p\<in>S. byName m p = Some a then dec (store m a) else store m a),
       byName := (\<lambda>p. if p \<in> S \<and> (\<exists>a. byName m p = Some a \<and> refCount (store m a) = 1) then None else byName m p)\<rparr>"

lemma shrink_empty [simp]: "shrink {} m = m"
  by (simp add: shrink_def)

lemma remove_visit_shrink:
  assumes "byName m p = Some a"
  shows "remove_visit p first m = Some (shrink {p} m, True)"
proof -
  have "upd a (\<lambda>n. n\<lparr>refCount := refCount n - 1\<rparr>) m =
      m\<lparr>store := (\<lambda>b. if b = a then dec (store m b) else store m b)\<rparr>"
    by (rule memLS.equality) (auto simp: upd_def dec_def)
  with assms show ?thesis
    by (cases "refCount (store m a) = 1")
      (auto simp: remove_visit_def shrink_def dec_def fun_eq_iff Let_def intro!: memLS.equality)
qed

lemma shrink_insert:
  assumes "ptr_ok m" "p \<notin> S"
  shows "shrink S (shrink {p} m) = shrink (insert p S) m"
proof -
  have inj: "q = p" if "byName m q = Some a" "byName m p = Some a" for q a
    using assms(1) that by (auto simp: ptr_ok_def)
  have b: "byName (shrink {p} m) q = byName m q" if "q \<noteq> p" for q using that by (simp add: shrink_def)
  have s: "store (shrink {p} m) a = (if byName m p = Some a then dec (store m a) else store m a)" for a
    by (simp add: shrink_def)
  have ex: "(\<exists>q\<in>S. byName (shrink {p} m) q = Some a) \<longleftrightarrow> (\<exists>q\<in>S. byName m q = Some a)" for a
    using b assms(2) by metis
  show ?thesis
  proof (rule memLS.equality)
    show "store (shrink S (shrink {p} m)) = store (shrink (insert p S) m)"
    proof
      fix a
      have "store (shrink S (shrink {p} m)) a =
          (if \<exists>q\<in>S. byName m q = Some a then dec (store (shrink {p} m) a) else store (shrink {p} m) a)"
        using ex by (simp add: shrink_def [of S])
      also have "\<dots> = store (shrink (insert p S) m) a"
      proof (cases "byName m p = Some a")
        case True
        then have "\<not> (\<exists>q\<in>S. byName m q = Some a)" using inj assms(2) by blast
        with True show ?thesis by (simp add: s) (simp add: shrink_def)
      next
        case False
        then show ?thesis by (simp add: s) (simp add: shrink_def)
      qed
      finally show "store (shrink S (shrink {p} m)) a = store (shrink (insert p S) m) a" .
    qed
    show "byName (shrink S (shrink {p} m)) = byName (shrink (insert p S) m)"
    proof
      fix q
      show "byName (shrink S (shrink {p} m)) q = byName (shrink (insert p S) m) q"
      proof (cases "q = p")
        case True
        then show ?thesis using assms(2) by (simp add: shrink_def)
      next
        case False
        then have "byName m q = Some a \<Longrightarrow> store (shrink {p} m) a = store m a" for a using inj s by auto
        then show ?thesis using b [OF False] False by (auto simp: shrink_def [of S] shrink_def [of "insert p S"])
      qed
    qed
  qed (simp_all add: shrink_def)
qed

lemma shrink_ptr_ok: "ptr_ok m \<Longrightarrow> ptr_ok (shrink S m)"
  by (auto simp: ptr_ok_def shrink_def root_def dec_def split: if_splits)

lemma iter_remove:
  "\<lbrakk>ptr_ok m; distinct ns; \<forall>p \<in> set ns. byName m p \<noteq> None\<rbrakk>
   \<Longrightarrow> iter_go remove_visit ns first m = Some (shrink (set ns) m, True)"
proof (induction ns arbitrary: m first)
  case (Cons p ns)
  then obtain a where "byName m p = Some a" by auto
  moreover have "\<forall>q \<in> set ns. byName (shrink {p} m) q \<noteq> None"
    using Cons.prems by (auto simp: shrink_def)
  ultimately show ?case
    using Cons.IH [OF shrink_ptr_ok [OF Cons.prems(1), of "{p}"], of False] Cons.prems
    by (simp add: remove_visit_shrink shrink_insert)
qed simp

definition removed :: "memLS \<Rightarrow> nat \<Rightarrow> memLS" where
  "removed m n = shrink (ancs (details (store m n)))
     (upd n (\<lambda>x. x\<lparr>token := []\<rparr>) (m\<lparr>byToken := (byToken m)(token (store m n) := None)\<rparr>))"

lemma removed_sel:
  "byToken (removed m n) = (byToken m)(token (store m n) := None)" "gen (removed m n) = gen m"
  "nextp (removed m n) = nextp m" "byExpiry (removed m n) = byExpiry m"
  "details (store (removed m n) b) = details (store m b)" "expiry (store (removed m n) b) = expiry (store m b)"
  "held (store (removed m n) b) = held (store m b)"
  "byExpiryIndex (store (removed m n) b) = byExpiryIndex (store m b)"
  "token (store (removed m n) b) = (if b = n then [] else token (store m b))"
  "refCount (store (removed m n) b) =
     refCount (store m b) - (if \<exists>p \<in> ancs (details (store m n)). byName m p = Some b then 1 else 0)"
  "byName (removed m n) p = (if p \<in> ancs (details (store m n))
     \<and> (\<exists>a. byName m p = Some a \<and> refCount (store m a) = 1) then None else byName m p)"
  "root (removed m n) b = root m b"
  by (auto simp: removed_def shrink_def dec_def upd_def root_def)

lemma mem_ancs_under:
  assumes "base_ok m" "n \<in> locks m"
  shows "p \<in> ancs (details (store m n)) \<longleftrightarrow> clean_path p \<and> n \<in> under m p"
  using mem_ancs [of "details (store m n)"] lock_node(4) [OF assms] assms(2)
  by (simp add: under_def root_def)

lemma remove_removed:
  assumes ok: "base_ok m" and n: "n \<in> locks m"
  shows "remove m n = Some (if byExpiryIndex (store m n) \<ge> 0
     then queue_Remove (byExpiryIndex (store m n)) (removed m n) else removed m n)"
proof -
  let ?d = "details (store m n)"
  let ?m1 = "upd n (\<lambda>x. x\<lparr>token := []\<rparr>) (m\<lparr>byToken := (byToken m)(token (store m n) := None)\<rparr>)"
  have v: "list_all valid_comp (comps (Root ?d))" "Root ?d = render (comps (Root ?d))"
    using lock_node(4) [OF assms] by (auto simp: root_def elim: clean_pathE)
  have p1: "ptr_ok ?m1" using base_ok_ptr_ok [OF ok] by (auto simp: ptr_ok_def root_def store_upd)
  have "byName ?m1 p \<noteq> None" if "p \<in> ancs ?d" for p
    using that countsD(1) [OF ok, of p] unfolding mem_ancs_under [OF assms] by auto
  then have it: "iter_go remove_visit (anc_names (comps (Root ?d))) True ?m1 = Some (removed m n, True)"
    using iter_remove [OF p1 distinct_anc_names [OF v(1)]] by (simp add: removed_def)
  have w: "walkToRoot remove_visit (Root ?d) True ?m1 = Some (removed m n, True)"
    using walkToRoot_iter [OF v(1), of remove_visit True ?m1] v(2) it by simp
  show ?thesis using w removed_sel(8) [of m n n] by (simp add: remove_def Let_def store_upd)
qed

lemma locks_removed:
  assumes ok: "base_ok m" and n: "n \<in> locks m"
  shows "locks (removed m n) = locks m - {n}"
proof -
  let ?t = "token (store m n)"
  have "b \<in> ran ((byToken m)(?t := None)) \<longleftrightarrow> b \<in> ran (byToken m) \<and> b \<noteq> n" for b
  proof
    assume "b \<in> ran ((byToken m)(?t := None))"
    then obtain s where s: "byToken m s = Some b" "s \<noteq> ?t" by (auto simp: ran_def split: if_splits)
    then have "b \<noteq> n" using tokens_okD(1) [OF ok s(1)] by auto
    then show "b \<in> ran (byToken m) \<and> b \<noteq> n" using s(1) by (auto intro: ranI)
  next
    assume b: "b \<in> ran (byToken m) \<and> b \<noteq> n"
    then obtain s where s: "byToken m s = Some b" by (auto simp: ran_def)
    then have "s \<noteq> ?t" using lock_node(3) [OF assms] b by auto
    then have "((byToken m)(?t := None)) s = Some b" using s by simp
    then show "b \<in> ran ((byToken m)(?t := None))" by (rule ranI)
  qed
  then show ?thesis by (auto simp: locks_def removed_sel)
qed

lemma under_removed:
  assumes "base_ok m" "n \<in> locks m"
  shows "under (removed m n) p = under m p - {n}"
  using locks_removed [OF assms] by (auto simp: under_def removed_sel)

lemma names_removed:
  assumes ok: "base_ok m" and n: "n \<in> locks m" and h: "\<not> held (store m n)"
  shows "names_ok (removed m n)"
  unfolding names_ok_def
proof (intro allI impI)
  fix p b assume "byName (removed m n) p = Some b"
  then have b: "byName m p = Some b" by (simp add: removed_sel split: if_splits)
  note k = names_okD [OF ok b]
  show "node_ok (removed m n) p b"
  proof (cases "b = n")
    case True
    then show ?thesis using k(1-3) h by (simp add: node_ok_def removed_sel)
  next
    case False
    then have "token (store m b) \<noteq> token (store m n)"
      using k(4) lock_node(2,3) [OF ok n] by auto
    then show ?thesis using k False by (simp add: node_ok_def removed_sel)
  qed
qed

lemma counts_removed:
  assumes ok: "base_ok m" and n: "n \<in> locks m"
  shows "counts_ok (removed m n)"
  unfolding counts_ok_def
proof (intro allI impI)
  fix p assume p: "clean_path p"
  have cm: "case byName m p of None \<Rightarrow> under m p = {}
      | Some b \<Rightarrow> under m p \<noteq> {} \<and> refCount (store m b) = int (card (under m p))"
    using ok p by (simp add: base_ok_def counts_ok_def)
  have fin: "finite (under m p)" using ok finite_under by (auto simp: base_ok_def)
  have S: "p \<in> ancs (details (store m n)) \<longleftrightarrow> n \<in> under m p" using mem_ancs_under [OF assms] p by simp
  show "case byName (removed m n) p of None \<Rightarrow> under (removed m n) p = {}
      | Some b \<Rightarrow> under (removed m n) p \<noteq> {}
          \<and> refCount (store (removed m n) b) = int (card (under (removed m n) p))"
  proof (cases "byName m p")
    case None
    then show ?thesis using cm by (simp add: removed_sel under_removed [OF assms])
  next
    case (Some b)
    have nm: "(\<exists>q \<in> ancs (details (store m n)). byName m q = Some b) \<longleftrightarrow> n \<in> under m p"
      using S Some names_okD(1) [OF ok Some] names_okD(1) [OF ok] by blast
    have rc: "refCount (store m b) = int (card (under m p))" "under m p \<noteq> {}" using cm Some by auto
    show ?thesis
    proof (cases "n \<in> under m p")
      case True
      then have one: "card (under m p) = 1 \<longleftrightarrow> under m p - {n} = {}"
        using fin by (auto simp: card_Suc_eq card_1_singleton_iff)
      have "int (card (under m p - {n})) = int (card (under m p)) - 1"
        using True fin rc(2) by (simp add: card_Diff_singleton of_nat_diff card_gt_0_iff Suc_le_eq)
      then show ?thesis
        using True one rc Some S nm by (auto simp: removed_sel under_removed [OF assms])
    next
      case False
      then show ?thesis using rc Some S nm by (simp add: removed_sel under_removed [OF assms])
    qed
  qed
qed

lemma tokens_removed:
  assumes ok: "base_ok m" and n: "n \<in> locks m"
  shows "tokens_ok (removed m n)"
proof -
  have "token (store (removed m n) b) = t \<and> t \<noteq> [] \<and> byName (removed m n) (root (removed m n) b) = Some b
      \<and> (\<exists>k\<le>unat (gen (removed m n)). t = FormatUint k)" if t: "byToken (removed m n) t = Some b" for t b
  proof -
    have tm: "byToken m t = Some b" "t \<noteq> token (store m n)" using t by (auto simp: removed_sel split: if_splits)
    note k = tokens_okD [OF ok tm(1)]
    have b: "b \<in> locks m" "b \<noteq> n" using tm k by (auto simp: locks_def intro: ranI)
    have "\<not> (root m b \<in> ancs (details (store m n)) \<and> refCount (store m b) = 1)"
    proof
      assume a: "root m b \<in> ancs (details (store m n)) \<and> refCount (store m b) = 1"
      then have "n \<in> under m (root m b)" "b \<in> under m (root m b)"
        using mem_ancs_under [OF assms] lock_node(6) [OF ok b(1)] by auto
      moreover have "card (under m (root m b)) = 1"
        using a countsD(2) [OF ok lock_node(4) [OF ok b(1)] k(3)] by simp
      ultimately show False using b(2) by (auto simp: card_1_singleton_iff)
    qed
    then show ?thesis using k b by (auto simp: removed_sel)
  qed
  moreover have "finite (dom (byToken (removed m n)))" using ok by (simp add: base_ok_def tokens_ok_def removed_sel)
  ultimately show ?thesis unfolding tokens_ok_def by blast
qed

lemma base_removed:
  assumes ok: "base_ok m" and n: "n \<in> locks m" and h: "\<not> held (store m n)"
  shows "base_ok (removed m n)"
proof -
  have "exclusive (removed m n)"
    using ok locks_removed [OF ok n] by (auto simp: base_ok_def exclusive_def removed_sel)
  then show ?thesis by (simp add: base_ok_def names_removed [OF assms] counts_removed [OF ok n] tokens_removed [OF ok n])
qed

lemma view_removed:
  assumes "base_ok m" "n \<in> locks m"
  shows "view (removed m n) = (view m)(token (store m n) := None)"
  by (auto simp: view_def removed_sel info_def fun_eq_iff intro: option.map_cong)

text \<open>\<^verbatim>\<open>remove\<close> takes exactly one lock out of the table.\<close>

definition removes :: "memLS \<Rightarrow> nat \<Rightarrow> memLS \<Rightarrow> bool" where
  "removes m n m' \<longleftrightarrow> consistent m' \<and> view m' = (view m)(token (store m n) := None)
     \<and> byToken m' = (byToken m)(token (store m n) := None) \<and> gen m' = gen m
     \<and> set (byExpiry m') = set (byExpiry m) - {n}"

lemma remove_removes:
  assumes c: "consistent m" and n: "n \<in> locks m" and h: "\<not> held (store m n)"
  obtains m' where "remove m n = Some m'" "removes m n m'"
proof -
  note k = consistentD [OF c]
  let ?r = "removed m n"
  have q: "queue_ok ?r" using k(2) queue_ok_cong [of ?r m] by (simp add: removed_sel)
  have b: "base_ok ?r" by (rule base_removed [OF k(1) n h])
  have e: "expirable ?r = expirable m - {n}"
    using locks_removed [OF k(1) n] by (auto simp: expirable_def removed_sel)
  have ix: "0 \<le> byExpiryIndex (store m n) \<longleftrightarrow> n \<in> set (byExpiry m)" by (rule queue_index [OF k(2)])
  show ?thesis
  proof (cases "n \<in> set (byExpiry m)")
    case True
    let ?m' = "queue_Remove (byExpiryIndex (store ?r n)) ?r"
    have "n \<in> set (byExpiry ?r)" using True by (simp add: removed_sel)
    from queue_Remove_ok [OF q this]
    have R: "queue_ok ?m'" "core ?m' = core ?r" "set (byExpiry ?m') = set (byExpiry m) - {n}"
      by (auto simp: removed_sel)
    have "removes m n ?m'"
      unfolding removes_def consistent_def
      using R b e k(3) core_simps [OF R(2)] core_view [OF R(2)] core_fields [OF R(2)] view_removed [OF k(1) n]
      by (simp add: removed_sel)
    moreover have "remove m n = Some ?m'" using remove_removed [OF k(1) n] ix True by (simp add: removed_sel)
    ultimately show ?thesis using that by blast
  next
    case False
    then have "removes m n ?r"
      using b q e k(3) view_removed [OF k(1) n] by (auto simp: removes_def consistent_def removed_sel)
    moreover have "remove m n = Some ?r" using remove_removed [OF k(1) n] ix False by simp
    ultimately show ?thesis using that by blast
  qed
qed

end
