(* ===== verification/MemLSSpec.thy ===== *)
theory MemLSSpec
  imports MemLSOps
begin

text \<open>
  The contract of \<^verbatim>\<open>LockSystem\<close> (\<^verbatim>\<open>server/webdav/lock.go\<close>): what each operation does to a table
  from tokens to locks.  The \<open>spec_\<close> functions are written on that table, without reference
  counts, queue or store; the refinement lemmas show that every operation of \<^verbatim>\<open>memLS\<close> run on a
  consistent state returns (it neither panics nor loops), gives the answer of the specification
  and moves the table as the specification does.
\<close>

section \<open>The specification\<close>

type_synonym locktable = "string \<rightharpoonup> lock"

definition expired :: "int \<Rightarrow> lock \<Rightarrow> bool" where
  "expired now l \<longleftrightarrow> \<not> lheld l \<and> (case lexpiry l of None \<Rightarrow> False | Some e \<Rightarrow> e \<le> now)"

definition live :: "int \<Rightarrow> locktable \<Rightarrow> locktable" where
  "live now V t = (case V t of None \<Rightarrow> None | Some l \<Rightarrow> if expired now l then None else Some l)"

definition expires_at :: "int \<Rightarrow> int \<Rightarrow> int option" where
  "expires_at now dur = (if 0 \<le> dur then Some (now + dur) else None)"

definition clean_root :: "LockDetails \<Rightarrow> LockDetails" where
  "clean_root d = d\<lparr>Root := slashClean (Root d)\<rparr>"

definition spec_Create :: "locktable \<Rightarrow> int \<Rightarrow> LockDetails \<Rightarrow> locktable \<Rightarrow> ls_err + string \<Rightarrow> bool" where
  "spec_Create V now d V' r \<longleftrightarrow>
     (let V = live now V; d = clean_root d
      in if \<exists>t l. V t = Some l \<and> conflict (ldetails l) d then V' = V \<and> r = Inl ErrLocked
         else \<exists>t. r = Inr t \<and> V t = None \<and> t \<noteq> []
              \<and> V' = V(t \<mapsto> \<lparr>ldetails = d, lexpiry = expires_at now (Duration d), lheld = False\<rparr>))"

definition spec_Refresh :: "locktable \<Rightarrow> int \<Rightarrow> string \<Rightarrow> int \<Rightarrow> locktable \<times> (ls_err + LockDetails)" where
  "spec_Refresh V now t dur =
     (let V = live now V
      in case V t of
           None \<Rightarrow> (V, Inl ErrNoSuchLock)
         | Some l \<Rightarrow>
             if lheld l then (V, Inl ErrLocked)
             else let d = (ldetails l)\<lparr>Duration := dur\<rparr>
                  in (V(t \<mapsto> \<lparr>ldetails = d, lexpiry = expires_at now dur, lheld = False\<rparr>), Inr d))"

definition spec_Unlock :: "locktable \<Rightarrow> int \<Rightarrow> string \<Rightarrow> locktable \<times> ls_err option" where
  "spec_Unlock V now t =
     (let V = live now V
      in case V t of
           None \<Rightarrow> (V, Some ErrNoSuchLock)
         | Some l \<Rightarrow> if lheld l then (V, Some ErrLocked) else (V(t := None), None))"

definition usable :: "locktable \<Rightarrow> string \<Rightarrow> Condition \<Rightarrow> bool" where
  "usable V name c \<longleftrightarrow>
     (case V (Token c) of None \<Rightarrow> False | Some l \<Rightarrow> \<not> lheld l \<and> covers (ldetails l) name)"

definition spec_lookup :: "locktable \<Rightarrow> string \<Rightarrow> Condition list \<Rightarrow> string option" where
  "spec_lookup V name cs = map_option Token (find (usable V name) cs)"

definition set_held :: "bool \<Rightarrow> string option \<Rightarrow> locktable \<Rightarrow> locktable" where
  "set_held b t V = (case t of None \<Rightarrow> V | Some t \<Rightarrow> V(t := map_option (\<lambda>l. l\<lparr>lheld := b\<rparr>) (V t)))"

type_synonym tokens = "string option \<times> string option"

definition spec_Confirm ::
  "locktable \<Rightarrow> int \<Rightarrow> string \<Rightarrow> string \<Rightarrow> Condition list \<Rightarrow> locktable \<times> (ls_err + tokens)" where
  "spec_Confirm V now name0 name1 cs =
     (let V = live now V;
          t0 = (if name0 \<noteq> [] then spec_lookup V (slashClean name0) cs else None);
          t1 = (if name1 \<noteq> [] then spec_lookup V (slashClean name1) cs else None)
      in if name0 \<noteq> [] \<and> t0 = None \<or> name1 \<noteq> [] \<and> t1 = None then (V, Inl ErrConfirmationFailed)
         else let t1 = (if t1 = t0 then None else t1)
              in (set_held True t1 (set_held True t0 V), Inr (t0, t1)))"

definition spec_release :: "tokens \<Rightarrow> locktable \<Rightarrow> locktable" where
  "spec_release ts V = set_held False (fst ts) (set_held False (snd ts) V)"

section \<open>collectExpiredNodes\<close>

lemma view_None [simp]: "view m t = None \<longleftrightarrow> byToken m t = None"
  by (simp add: view_def)

lemma expired_info:
  "expired now (info n) \<longleftrightarrow> \<not> held n \<and> 0 \<le> Duration (details n) \<and> expiry n \<le> now"
  by (simp add: expired_def info_def)

lemma live_upd_expired:
  "V t = Some l \<Longrightarrow> expired now l \<Longrightarrow> live now (V(t := None)) = live now V"
  by (auto simp: live_def fun_eq_iff)

lemma live_id: "(\<And>t l. V t = Some l \<Longrightarrow> \<not> expired now l) \<Longrightarrow> live now V = V"
  by (auto simp: live_def fun_eq_iff split: option.splits)

definition pruned :: "int \<Rightarrow> memLS \<Rightarrow> memLS \<Rightarrow> bool" where
  "pruned now m m' \<longleftrightarrow> consistent m' \<and> view m' = live now (view m) \<and> gen m' = gen m
     \<and> (\<forall>t a. byToken m' t = Some a \<longrightarrow> byToken m t = Some a)"

lemma queue_lock:
  assumes c: "consistent m" and a: "a \<in> set (byExpiry m)"
  shows "a \<in> locks m" "\<not> held (store m a)" "0 \<le> Duration (details (store m a))"
    "view m (token (store m a)) = Some (info (store m a))"
proof -
  have "a \<in> expirable m" using consistentD(3) [OF c] a by simp
  then show l: "a \<in> locks m" and "\<not> held (store m a)" "0 \<le> Duration (details (store m a))"
    by (simp_all add: expirable_def)
  show "view m (token (store m a)) = Some (info (store m a))"
    using lock_node(3) [OF consistentD(1) [OF c] l] by (simp add: view_def)
qed

lemma queue_head_live:
  assumes c: "consistent m" and h: "byExpiry m = [] \<or> now < expiry (store m (hd (byExpiry m)))"
  shows "live now (view m) = view m"
proof (rule live_id)
  fix t l assume "view m t = Some l"
  then obtain a where a: "byToken m t = Some a" "l = info (store m a)" by (auto simp: view_def)
  show "\<not> expired now l"
  proof
    assume e: "expired now l"
    then have "a \<in> expirable m" using a by (auto simp: expired_info expirable_def locks_def intro: ranI)
    then obtain i where i: "i < length (byExpiry m)" "byExpiry m ! i = a"
      using consistentD(3) [OF c] by (metis in_set_conv_nth)
    have "expiry_key m (byExpiry m ! 0) \<le> expiry_key m (byExpiry m ! i)"
      using consistentD(2) [OF c] heap_ok_min i(1) by (auto simp: queue_ok_def)
    then have "expiry (store m (hd (byExpiry m))) \<le> expiry (store m a)"
      using i by (cases "byExpiry m") (auto simp: expiry_key_def)
    then show False using h e a(2) i by (auto simp: expired_info)
  qed
qed

lemma length_queue: "consistent m \<Longrightarrow> length (byExpiry m) = card (set (byExpiry m))"
  by (metis consistentD(2) distinct_card index_ok_def queue_ok_def)

lemma collect_loop_pruned:
  "\<lbrakk>consistent m; length (byExpiry m) < fuel\<rbrakk> \<Longrightarrow> \<exists>m'. collect_loop fuel now m = Some m' \<and> pruned now m m'"
proof (induction fuel arbitrary: m)
  case (Suc fuel)
  note c = Suc.prems(1)
  show ?case
  proof (cases "byExpiry m = [] \<or> now < expiry (store m (hd (byExpiry m)))")
    case True
    then have "collect_loop (Suc fuel) now m = Some m" by (auto split: list.splits)
    then show ?thesis using queue_head_live [OF c True] c by (simp add: pruned_def)
  next
    case False
    then obtain n ns where n: "byExpiry m = n # ns" "expiry (store m n) \<le> now"
      by (cases "byExpiry m") auto
    note k = queue_lock [OF c, of n]
    obtain m1 where m1: "remove m n = Some m1" "removes m n m1"
      using remove_removes [OF c k(1) k(2)] n(1) by auto
    have R: "consistent m1" "view m1 = (view m)(token (store m n) := None)" "gen m1 = gen m"
      "byToken m1 = (byToken m)(token (store m n) := None)"
      "set (byExpiry m1) = set (byExpiry m) - {n}"
      using m1(2) by (auto simp: removes_def)
    have "length (byExpiry m1) < fuel"
    proof -
      have "card (set (byExpiry m) - {n}) < card (set (byExpiry m))"
        using n(1) by (intro psubset_card_mono) auto
      then show ?thesis using Suc.prems(2) length_queue [OF c] length_queue [OF R(1)] R(5) by simp
    qed
    from Suc.IH [OF R(1) this] obtain m' where m': "collect_loop fuel now m1 = Some m'" "pruned now m1 m'"
      by blast
    have "expired now (info (store m n))" using k(2,3) n by (simp add: expired_info)
    then have lv: "live now (view m1) = live now (view m)" using live_upd_expired k(4) n(1) R(2) by simp
    have "byToken m t = Some a" if "byToken m1 t = Some a" for t a
      using that R(4) by (auto split: if_splits)
    with m'(2) lv R(3) have "pruned now m m'" by (auto simp: pruned_def)
    moreover have "collect_loop (Suc fuel) now m = Some m'" using n m1(1) m'(1) by simp
    ultimately show ?thesis by blast
  qed
qed simp

lemma collect_pruned:
  assumes "consistent m"
  obtains m' where "collectExpiredNodes m now = Some m'" "pruned now m m'"
  using collect_loop_pruned [OF assms, of "Suc (length (byExpiry m))" now] that
  by (auto simp: collectExpiredNodes_def)

section \<open>Changing one lock in place\<close>

definition drop_queue :: "nat \<Rightarrow> memLS \<Rightarrow> memLS" where
  "drop_queue n m = (if byExpiryIndex (store m n) \<ge> 0 then queue_Remove (byExpiryIndex (store m n)) m else m)"

lemma drop_queue_ok:
  assumes q: "queue_ok m"
  shows "queue_ok (drop_queue n m)" "core (drop_queue n m) = core m"
    "set (byExpiry (drop_queue n m)) = set (byExpiry m) - {n}"
  using queue_Remove_ok [OF q, of n] queue_index [OF q, of n] q
  by (cases "n \<in> set (byExpiry m)"; simp add: drop_queue_def)+

text \<open>An update of a lock that keeps its place: \<^verbatim>\<open>held\<close>, \<^verbatim>\<open>expiry\<close> and \<^verbatim>\<open>Duration\<close> may change.\<close>

definition in_place :: "memLSNode \<Rightarrow> memLSNode \<Rightarrow> bool" where
  "in_place x y \<longleftrightarrow> token y = token x \<and> refCount y = refCount x \<and> byExpiryIndex y = byExpiryIndex x
     \<and> Root (details y) = Root (details x) \<and> ZeroDepth (details y) = ZeroDepth (details x)"

lemma conflict_cong:
  "\<lbrakk>Root d' = Root d; ZeroDepth d' = ZeroDepth d; Root e' = Root e; ZeroDepth e' = ZeroDepth e\<rbrakk>
   \<Longrightarrow> conflict d' e' = conflict d e"
  by (simp add: conflict_def covers_def)

lemma upd_in_place:
  assumes ok: "base_ok m" and a: "a \<in> locks m" and f: "in_place (store m a) (f (store m a))"
  shows "base_ok (upd a f m)" "locks (upd a f m) = locks m" "root (upd a f m) b = root m b"
    "view (upd a f m) = (view m)(token (store m a) \<mapsto> info (f (store m a)))"
proof -
  let ?m = "upd a f m"
  have s: "token (store ?m b) = token (store m b)" "refCount (store ?m b) = refCount (store m b)"
    "Root (details (store ?m b)) = Root (details (store m b))"
    "ZeroDepth (details (store ?m b)) = ZeroDepth (details (store m b))" for b
    using f by (simp_all add: store_upd in_place_def)
  have held_other: "b \<noteq> a \<Longrightarrow> held (store ?m b) = held (store m b)" for b by (simp add: store_upd)
  show l: "locks ?m = locks m" by (simp add: locks_def)
  show r: "root ?m b = root m b" for b by (simp add: root_def s)
  have u: "under ?m p = under m p" for p by (simp add: under_def l r)
  have nk: "node_ok ?m p b" if "node_ok m p b" for p b
    using that lock_node(2) [OF ok a] s(1) [of b] held_other [of b] unfolding node_ok_def r
    by (cases "b = a") simp_all
  have ex: "conflict (details (store ?m b)) (details (store ?m c)) = conflict (details (store m b)) (details (store m c))"
    for b c by (rule conflict_cong) (simp_all add: s)
  show "base_ok ?m"
    using ok nk unfolding base_ok_def names_ok_def counts_ok_def tokens_ok_def exclusive_def
    by (simp add: u l r s ex cong: option.case_cong)
  show "view ?m = (view m)(token (store m a) \<mapsto> info (f (store m a)))"
  proof
    fix t
    show "view ?m t = ((view m)(token (store m a) \<mapsto> info (f (store m a)))) t"
    proof (cases "t = token (store m a)")
      case True
      then show ?thesis using lock_node(3) [OF ok a] by (simp add: view_def store_upd)
    next
      case False
      then have "byToken m t \<noteq> Some a" using tokens_okD(1) [OF ok] by auto
      then show ?thesis using False by (cases "byToken m t") (auto simp: view_def store_upd)
    qed
  qed
qed

lemma queue_ok_in_place:
  assumes "in_place (store m a) (f (store m a))" "a \<notin> set (byExpiry m) \<or> expiry (f (store m a)) = expiry (store m a)"
  shows "queue_ok (upd a f m) = queue_ok m"
  using assms by (intro queue_ok_cong) (auto simp: store_upd in_place_def)

lemma expirable_upd:
  assumes "locks (upd a f m) = locks m" "a \<in> locks m"
  shows "expirable (upd a f m) = (if 0 \<le> Duration (details (f (store m a))) \<and> \<not> held (f (store m a))
     then insert a (expirable m - {a}) else expirable m - {a})"
  using assms by (auto simp: expirable_def store_upd)

text \<open>\<open>re_entered\<close>: one lock has new contents; nothing else has changed.\<close>

definition re_entered :: "memLS \<Rightarrow> nat \<Rightarrow> lock \<Rightarrow> memLS \<Rightarrow> bool" where
  "re_entered m a l m' \<longleftrightarrow> consistent m' \<and> view m' = (view m)(token (store m a) \<mapsto> l)
     \<and> gen m' = gen m \<and> byToken m' = byToken m"

lemma re_entered_core:
  assumes c: "core m' = core m1" and q: "queue_ok m'" "set (byExpiry m') = expirable m1"
    and b: "base_ok m1" "view m1 = (view m)(token (store m a) \<mapsto> l)" "gen m1 = gen m" "byToken m1 = byToken m"
  shows "re_entered m a l m'"
  using core_simps(4,5) [OF c] core_view [OF c] core_fields(2,3) [OF c] q b
  by (simp add: re_entered_def consistent_def)

lemma hold_ok:
  assumes c: "consistent m" and a: "a \<in> locks m" and h: "\<not> held (store m a)"
  obtains m' where "hold a m = Some m'" "re_entered m a ((info (store m a))\<lparr>lheld := True\<rparr>) m'"
proof -
  let ?f = "\<lambda>x. x\<lparr>held := True\<rparr>"
  let ?m = "upd a ?f m"
  note k = consistentD [OF c]
  have f: "in_place (store m a) (?f (store m a))" by (simp add: in_place_def)
  note U = upd_in_place [where f = ?f, OF k(1) a f]
  have q: "queue_ok ?m" using queue_ok_in_place [where f = ?f, OF f] k(2) by simp
  have "0 \<le> Duration (details (store m a))" if "0 \<le> byExpiryIndex (store m a)"
    using that queue_index [OF k(2)] queue_lock(3) [OF c] by simp
  then have "hold a m = Some (drop_queue a ?m)"
    using h by (auto simp: hold_def Let_def store_upd drop_queue_def)
  moreover have "re_entered m a ((info (store m a))\<lparr>lheld := True\<rparr>) (drop_queue a ?m)"
  proof (rule re_entered_core [OF drop_queue_ok(2) [OF q] drop_queue_ok(1) [OF q] _ U(1)])
    show "set (byExpiry (drop_queue a ?m)) = expirable ?m"
      unfolding drop_queue_ok(3) [OF q] using k(3) expirable_upd [OF U(2) a] by simp
  qed (simp_all add: U(4) info_def)
  ultimately show ?thesis by (rule that)
qed

lemma unhold_ok:
  assumes c: "consistent m" and a: "a \<in> locks m" and h: "held (store m a)"
  obtains m' where "unhold a m = Some m'" "re_entered m a ((info (store m a))\<lparr>lheld := False\<rparr>) m'"
proof -
  let ?f = "\<lambda>x. x\<lparr>held := False\<rparr>"
  let ?m = "upd a ?f m"
  note k = consistentD [OF c]
  have f: "in_place (store m a) (?f (store m a))" by (simp add: in_place_def)
  note U = upd_in_place [where f = ?f, OF k(1) a f]
  have q: "queue_ok ?m" using queue_ok_in_place [where f = ?f, OF f] k(2) by simp
  have na: "a \<notin> set (byExpiry m)" using queue_lock(2) [OF c] h by auto
  let ?m' = "if 0 \<le> Duration (details (store m a)) then queue_Push a ?m else ?m"
  have "unhold a m = Some ?m'" using h by (simp add: unhold_def Let_def store_upd)
  moreover have "re_entered m a ((info (store m a))\<lparr>lheld := False\<rparr>) ?m'"
  proof (rule re_entered_core)
    show "core ?m' = core ?m" "queue_ok ?m'" using queue_Push_ok [OF q] na q by simp_all
    show "set (byExpiry ?m') = expirable ?m"
      using queue_Push_ok [OF q] na k(3) expirable_upd [OF U(2) a] by simp
    show "base_ok ?m" by (rule U)
  qed (simp_all add: U(4) info_def)
  ultimately show ?thesis by (rule that)
qed

section \<open>The operations refine the specification\<close>

lemma prunedD:
  assumes "pruned now m m'"
  shows "consistent m'" "view m' = live now (view m)" "gen m' = gen m"
    "byToken m' t = Some a \<Longrightarrow> byToken m t = Some a"
  using assms by (auto simp: pruned_def)

lemma re_enteredD:
  assumes "re_entered m a l m'"
  shows "consistent m'" "view m' = (view m)(token (store m a) \<mapsto> l)" "gen m' = gen m" "byToken m' = byToken m"
  using assms by (auto simp: re_entered_def)

lemma view_Some: "byToken m t = Some a \<Longrightarrow> view m t = Some (info (store m a))"
  by (simp add: view_def)

lemma info_sel [simp]: "lheld (info n) = held n" "ldetails (info n) = details n"
  by (simp_all add: info_def)

lemma token_lock:
  assumes "consistent m" "byToken m t = Some a"
  shows "a \<in> locks m" "token (store m a) = t"
  using assms(2) tokens_okD(1) [OF consistentD(1) [OF assms(1)] assms(2)] by (auto simp: locks_def intro: ranI)

text \<open>Held locks never leave the table by expiring.\<close>

lemma live_held: "V t = Some l \<Longrightarrow> lheld l \<Longrightarrow> live now V t = Some l"
  by (simp add: live_def expired_def)

definition set_duration :: "int \<Rightarrow> int \<Rightarrow> memLSNode \<Rightarrow> memLSNode" where
  "set_duration now dur x =
     (let x = x\<lparr>details := (details x)\<lparr>Duration := dur\<rparr>\<rparr> in if 0 \<le> dur then x\<lparr>expiry := now + dur\<rparr> else x)"

lemma refreshed:
  fixes now dur :: int
  assumes c: "consistent m" and a: "a \<in> locks m" and h: "\<not> held (store m a)"
  defines "m1 \<equiv> upd a (set_duration now dur) (drop_queue a m)"
  defines "m' \<equiv> if 0 \<le> dur then queue_Push a m1 else m1"
  shows "re_entered m a \<lparr>ldetails = (details (store m a))\<lparr>Duration := dur\<rparr>, lexpiry = expires_at now dur, lheld = False\<rparr> m'"
    "details (store m' a) = (details (store m a))\<lparr>Duration := dur\<rparr>"
proof -
  note k = consistentD [OF c]
  let ?d = "drop_queue a m" and ?f = "set_duration now dur"
  note D = drop_queue_ok [OF k(2), of a] and fl = core_fields [OF drop_queue_ok(2) [OF k(2), of a]]
  have b: "base_ok ?d" "a \<in> locks ?d" using core_simps(1,5) [OF D(2)] k(1) a by simp_all
  have f: "in_place (store ?d a) (?f (store ?d a))" by (simp add: in_place_def set_duration_def Let_def)
  note U = upd_in_place [where f = ?f, OF b f]
  have na: "a \<notin> set (byExpiry ?d)" using D(3) by simp
  have q: "queue_ok m1" using queue_ok_in_place [where f = ?f, OF f] na D(1) by (simp add: m1_def)
  have qs: "set (byExpiry m1) = expirable m - {a}" using D(3) k(3) by (simp add: m1_def)
  have ex: "expirable m1 = (if 0 \<le> dur then insert a (expirable m - {a}) else expirable m - {a})"
    using expirable_upd [OF U(2) b(2)] h core_simps(4) [OF D(2)]
    by (simp add: m1_def set_duration_def Let_def fl(9))
  have P: "queue_ok m'" "core m' = core m1" "set (byExpiry m') = expirable m1"
    using queue_Push_ok [OF q, of a] q qs ex by (auto simp: m'_def)
  show "details (store m' a) = (details (store m a))\<lparr>Duration := dur\<rparr>"
    using core_fields(5) [OF P(2), of a] fl(5) [of a] by (simp add: m1_def store_upd set_duration_def Let_def)
  show "re_entered m a \<lparr>ldetails = (details (store m a))\<lparr>Duration := dur\<rparr>,
      lexpiry = expires_at now dur, lheld = False\<rparr> m'"
  proof (rule re_entered_core [OF P(2,1,3)])
    show "base_ok m1" using U(1) by (simp add: m1_def)
    show "view m1 = (view m)(token (store m a) \<mapsto> \<lparr>ldetails = (details (store m a))\<lparr>Duration := dur\<rparr>,
        lexpiry = expires_at now dur, lheld = False\<rparr>)"
      using U(4) h core_view [OF D(2)]
      by (simp add: m1_def fl info_def set_duration_def Let_def expires_at_def)
    show "gen m1 = gen m" "byToken m1 = byToken m" using fl(2,3) by (simp_all add: m1_def)
  qed
qed

lemma Refresh_refines:
  assumes c: "consistent m"
  obtains m' r where "Refresh m now t dur = Some (m', r)" "spec_Refresh (view m) now t dur = (view m', r)"
    "consistent m'" "gen m' = gen m" "\<And>s a. byToken m' s = Some a \<Longrightarrow> byToken m s = Some a"
proof -
  obtain m1 where m1: "collectExpiredNodes m now = Some m1" "pruned now m m1" using collect_pruned [OF c] .
  note p = prunedD [OF m1(2)]
  show ?thesis
  proof (cases "byToken m1 t")
    case None
    then have "live now (view m) t = None" using p(2) by (metis view_None)
    with None m1(1) p show ?thesis
      by (intro that [of m1 "Inl ErrNoSuchLock"]) (simp_all add: Refresh_def spec_Refresh_def)
  next
    case (Some a)
    note v = view_Some [OF Some] and L = token_lock [OF p(1) Some]
    show ?thesis
    proof (cases "held (store m1 a)")
      case True
      with Some m1(1) p v show ?thesis
        by (intro that [of m1 "Inl ErrLocked"]) (simp_all add: Refresh_def spec_Refresh_def Let_def)
    next
      case False
      let ?m2 = "upd a (set_duration now dur) (drop_queue a m1)"
      let ?m' = "if 0 \<le> dur then queue_Push a ?m2 else ?m2"
      note R = refreshed [OF p(1) L(1) False, where now = now and dur = dur]
      let ?M = "if 0 \<le> dur then queue_Push a (upd a (\<lambda>x. x\<lparr>expiry := now + dur\<rparr>)
                  (upd a (\<lambda>x. x\<lparr>details := (details x)\<lparr>Duration := dur\<rparr>\<rparr>) (drop_queue a m1)))
                else upd a (\<lambda>x. x\<lparr>details := (details x)\<lparr>Duration := dur\<rparr>\<rparr>) (drop_queue a m1)"
      have e: "?M = ?m'" by (simp add: upd_def set_duration_def Let_def)
      have "Refresh m now t dur = Some (?M, Inr (details (store ?M a)))"
        using m1(1) Some False by (simp add: Refresh_def Let_def drop_queue_def)
      then have "Refresh m now t dur = Some (?m', Inr (details (store ?m' a)))" unfolding e .
      moreover have "spec_Refresh (view m) now t dur = (view ?m', Inr (details (store ?m' a)))"
        unfolding R(2) re_enteredD(2) [OF R(1)] using v False L(2)
        by (simp add: spec_Refresh_def p(2) [symmetric] Let_def)
      ultimately show ?thesis
        using re_enteredD(1,3,4) [OF R(1)] p(3,4)
        by (intro that [of ?m' "Inr (details (store ?m' a))"]) simp_all
    qed
  qed
qed

lemma Unlock_refines:
  assumes c: "consistent m"
  obtains m' r where "Unlock m now t = Some (m', r)" "spec_Unlock (view m) now t = (view m', r)"
    "consistent m'" "gen m' = gen m" "\<And>s a. byToken m' s = Some a \<Longrightarrow> byToken m s = Some a"
proof -
  obtain m1 where m1: "collectExpiredNodes m now = Some m1" "pruned now m m1" using collect_pruned [OF c] .
  note p = prunedD [OF m1(2)]
  show ?thesis
  proof (cases "byToken m1 t")
    case None
    then have "live now (view m) t = None" using p(2) by (metis view_None)
    with None m1(1) p show ?thesis
      by (intro that [of m1 "Some ErrNoSuchLock"]) (simp_all add: Unlock_def spec_Unlock_def)
  next
    case (Some a)
    note v = view_Some [OF Some] and L = token_lock [OF p(1) Some]
    show ?thesis
    proof (cases "held (store m1 a)")
      case True
      with Some m1(1) p v show ?thesis
        by (intro that [of m1 "Some ErrLocked"]) (simp_all add: Unlock_def spec_Unlock_def Let_def)
    next
      case False
      obtain m2 where m2: "remove m1 a = Some m2" "removes m1 a m2"
        using remove_removes [OF p(1) L(1) False] .
      have R: "consistent m2" "view m2 = (view m1)(t := None)" "byToken m2 = (byToken m1)(t := None)" "gen m2 = gen m1"
        using m2(2) L(2) by (auto simp: removes_def)
      have "byToken m s = Some b" if "byToken m2 s = Some b" for s b
        using that R(3) p(4) by (auto split: if_splits)
      moreover have "Unlock m now t = Some (m2, None)" using m1(1) Some False m2(1) by (simp add: Unlock_def)
      moreover have "spec_Unlock (view m) now t = (view m2, None)"
        using v False R(2) by (simp add: spec_Unlock_def p(2) [symmetric] Let_def)
      ultimately show ?thesis using R(1,4) p(3) by (intro that [of m2 None]) simp_all
    qed
  qed
qed

subsection \<open>Create\<close>

lemma created_index:
  assumes c: "created m d m1 a tok" and k: "consistent m"
  shows "byExpiryIndex (store m1 b) = byExpiryIndex (store m b)"
proof (cases "b \<in> ran (byName m)")
  case True
  then show ?thesis using created_old_node(6) [OF c] by (auto simp: ran_def)
next
  case False
  note g = createdD(4) [OF c]
  show ?thesis
  proof (cases "b < nextp m")
    case True
    then show ?thesis using grownD(9) [OF g False] by simp
  next
    case nb: False
    then have "b \<notin> set (byExpiry m)"
      using queue_lock(1) [OF k] lock_node(5) [OF consistentD(1) [OF k]] by auto
    then have "byExpiryIndex (store m b) = -1"
      using consistentD(2) [OF k] by (auto simp: queue_ok_def index_ok_def)
    then show ?thesis using grownD(10) [OF g, of b] nb by auto
  qed
qed

lemma entered:
  fixes now :: int
  assumes c: "created m d m1 a tok" and k: "consistent m"
  defines "m2 \<equiv> enter a tok d m1"
  defines "m3 \<equiv> if 0 \<le> Duration d then upd a (\<lambda>x. x\<lparr>expiry := now + Duration d\<rparr>) m2 else m2"
  defines "m' \<equiv> if 0 \<le> Duration d then queue_Push a m3 else m3"
  shows "consistent m'"
    "view m' = (view m)(tok \<mapsto> \<lparr>ldetails = d, lexpiry = expires_at now (Duration d), lheld = False\<rparr>)"
    "gen m' = gen m + 1" "byToken m' = (byToken m)(tok \<mapsto> a)"
proof -
  note g = createdD(4) [OF c]
  have l2: "locks m2 = insert a (locks m)" using locks_enter [OF c] by (simp add: m2_def)
  have a2: "a \<in> locks m2" using l2 by simp
  have b2: "base_ok m2" using base_enter [OF c] by (simp add: m2_def)
  have old: "details (store m2 b) = details (store m b)" "expiry (store m2 b) = expiry (store m b)"
    "held (store m2 b) = held (store m b)" "b \<noteq> a" if "b \<in> locks m" for b
    using created_old_lock [OF c that] by (simp_all add: m2_def)
  have new: "details (store m2 a) = d" "held (store m2 a) = False" "token (store m2 a) = tok"
    using created_fresh(2) [OF c] by (simp_all add: m2_def)
  have q2: "byExpiry m2 = byExpiry m" using grownD(3) [OF g] by (simp add: m2_def)
  have na: "a \<notin> set (byExpiry m)" using queue_lock(1) [OF k] created_fresh(1) [OF c] by auto
  have qk: "queue_ok m2"
    using consistentD(2) [OF k] queue_lock(1) [OF k] old(2) q2 created_index [OF c k]
    by (subst queue_ok_cong [of m2 m]) (auto simp: m2_def)
  have f: "in_place (store m2 a) ((\<lambda>x. x\<lparr>expiry := now + Duration d\<rparr>) (store m2 a))" by (simp add: in_place_def)
  note U = upd_in_place [where f = "\<lambda>x. x\<lparr>expiry := now + Duration d\<rparr>", OF b2 a2 f]
  have b3: "base_ok m3" "locks m3 = locks m2" "byExpiry m3 = byExpiry m" "gen m3 = gen m + 1"
    "byToken m3 = (byToken m)(tok \<mapsto> a)"
    using U b2 q2 grownD(1,2) [OF g] by (simp_all add: m3_def) (simp_all add: m2_def)
  have q3: "queue_ok m3"
    using queue_ok_in_place [where f = "\<lambda>x. x\<lparr>expiry := now + Duration d\<rparr>", OF f] qk na q2 by (simp add: m3_def)
  have e3: "expirable m3 = (if 0 \<le> Duration d then insert a (expirable m) else expirable m)"
    unfolding expirable_def b3(2) l2 using new old by (auto simp: m3_def store_upd)
  have P: "queue_ok m'" "core m' = core m3" "set (byExpiry m') = expirable m3"
    using queue_Push_ok [OF q3, of a] q3 b3(3) e3 na consistentD(3) [OF k] by (auto simp: m'_def)
  show "consistent m'" using P core_simps(4,5) [OF P(2)] b3(1) by (simp add: consistent_def)
  show "gen m' = gen m + 1" "byToken m' = (byToken m)(tok \<mapsto> a)" using core_fields(2,3) [OF P(2)] b3 by simp_all
  have v2: "view m2 = (view m)(tok \<mapsto> info (store m2 a))"
  proof
    fix t
    show "view m2 t = ((view m)(tok \<mapsto> info (store m2 a))) t"
    proof (cases "byToken m t")
      case None
      then show ?thesis using grownD(1) [OF g] by (simp add: view_def m2_def)
    next
      case (Some b)
      then have "b \<in> locks m" by (auto simp: locks_def intro: ranI)
      moreover have "t \<noteq> tok" using tok_fresh(1) [OF c] Some by auto
      moreover have "byToken m2 t = Some b"
        using Some \<open>t \<noteq> tok\<close> grownD(1) [OF g] by (simp add: m2_def)
      moreover have "info (store m2 b) = info (store m b)" using old [of b] calculation by (simp add: info_def)
      ultimately show ?thesis using Some by (simp add: view_def)
    qed
  qed
  have "view m3 = (view m)(tok \<mapsto> \<lparr>ldetails = d, lexpiry = expires_at now (Duration d), lheld = False\<rparr>)"
    using v2 U(4) new by (auto simp: m3_def info_def expires_at_def)
  then show "view m' = (view m)(tok \<mapsto> \<lparr>ldetails = d, lexpiry = expires_at now (Duration d), lheld = False\<rparr>)"
    using core_view [OF P(2)] by simp
qed

lemma conflict_view:
  assumes "base_ok m"
  shows "(\<exists>a \<in> locks m. conflict (details (store m a)) d) \<longleftrightarrow> (\<exists>t l. view m t = Some l \<and> conflict (ldetails l) d)"
proof
  assume "\<exists>a \<in> locks m. conflict (details (store m a)) d"
  then obtain a t where "byToken m t = Some a" "conflict (details (store m a)) d"
    by (auto simp: locks_def ran_def)
  then show "\<exists>t l. view m t = Some l \<and> conflict (ldetails l) d"
    using view_Some [of m t a] by (intro exI [of _ t] exI [of _ "info (store m a)"]) simp
qed (auto simp: locks_def ran_def view_def)

lemma Create_refines:
  assumes c: "consistent m" and room: "unat (gen m) < 2 ^ 64 - 1"
  obtains m' r where "Create m now d = Some (m', r)" "spec_Create (view m) now d (view m') r" "consistent m'"
    "gen m' = (case r of Inl _ \<Rightarrow> gen m | Inr _ \<Rightarrow> gen m + 1)"
    "\<And>s a. byToken m' s = Some a \<Longrightarrow> byToken m s = Some a \<or> r = Inr s"
proof -
  obtain m1 where m1: "collectExpiredNodes m now = Some m1" "pruned now m m1" using collect_pruned [OF c] .
  note p = prunedD [OF m1(2)] and b1 = consistentD(1) [OF prunedD(1) [OF m1(2)]]
  define e where "e = clean_root d"
  have cl: "clean_path (Root e)" by (simp add: e_def clean_root_def)
  note cc = canCreate_iff [OF b1 cl]
  show ?thesis
  proof (cases "\<exists>a \<in> locks m1. conflict (details (store m1 a)) e")
    case True
    then have "Create m now d = Some (m1, Inl ErrLocked)"
      using m1(1) cc by (auto simp: Create_def Let_def e_def clean_root_def)
    moreover have "spec_Create (view m) now d (view m1) (Inl ErrLocked)"
      using True conflict_view [OF b1, of e] by (auto simp: spec_Create_def Let_def p(2) [symmetric] e_def)
    ultimately show ?thesis using that [of m1 "Inl ErrLocked"] p by simp
  next
    case False
    obtain m2 a where m2: "create m1 (Root e) = Some (m2, Some a)" "byName m2 (Root e) = Some a"
      "grown m1 (ancs e) m2" using create_grown [OF base_ok_ptr_ok [OF b1] cl] .
    define tok where "tok = FormatUint (unat (gen m1 + 1))"
    have cr: "created m1 e m2 a tok"
      using False b1 cl m2 room p(3) by (auto simp: created_def tok_def)
    note E = entered [OF cr p(1), where now = now]
    let ?m' = "if 0 \<le> Duration e then queue_Push a
        (if 0 \<le> Duration e then upd a (\<lambda>x. x\<lparr>expiry := now + Duration e\<rparr>) (enter a tok e m2) else enter a tok e m2)
      else (if 0 \<le> Duration e then upd a (\<lambda>x. x\<lparr>expiry := now + Duration e\<rparr>) (enter a tok e m2) else enter a tok e m2)"
    have en: "upd a (\<lambda>x. x\<lparr>details := e\<rparr>)
        ((upd a (\<lambda>x. x\<lparr>token := tok\<rparr>) (m2\<lparr>gen := gen m2 + 1\<rparr>))\<lparr>byToken := (byToken m2)(tok \<mapsto> a)\<rparr>) = enter a tok e m2"
      by (simp add: upd_def enter_def)
    have g2: "gen m2 = gen m1" by (rule grownD(2) [OF m2(3)])
    have "canCreate m1 (Root e) (ZeroDepth e) = Some True" using cc False by simp
    then have C: "Create m now d = Some (?m', Inr tok)"
      using m1(1) m2(1) en g2
      by (simp add: Create_def Let_def nextToken_def tok_def [symmetric] clean_root_def [symmetric] e_def [symmetric])
    have "view m1 tok = None" using tok_fresh(1) [OF cr] by simp
    then have S: "spec_Create (view m) now d (view ?m') (Inr tok)"
      unfolding E(2) using False conflict_view [OF b1, of e] tok_fresh(2) [OF cr]
      by (auto simp: spec_Create_def Let_def p(2) [symmetric] e_def [symmetric])
    have T: "byToken m s = Some b \<or> Inr tok = Inr s" if "byToken ?m' s = Some b" for s b
      using that p(4) unfolding E(4) by (auto split: if_splits)
    show ?thesis
      by (rule that [OF C S E(1) _ T]) (simp_all add: E(3) p(3))
  qed
qed

subsection \<open>Confirm and the release function\<close>

lemma covers_iff:
  assumes "clean_path (Root d)" "clean_path q"
  shows "covers d q \<longleftrightarrow> q = Root d \<or> \<not> ZeroDepth d \<and> (Root d = ''/'' \<or> HasPrefix q (Root d @ ''/''))"
proof -
  have v: "list_all valid_comp (comps (Root d))" "Root d = render (comps (Root d))"
    "list_all valid_comp (comps q)" "q = render (comps q)"
    using assms by (auto elim: clean_pathE)
  have "prefix (comps (Root d)) (comps q) \<longleftrightarrow> (Root d = ''/'' \<or> HasPrefix q (Root d @ ''/''))" if ne: "q \<noteq> Root d"
  proof (cases "comps (Root d) = []")
    case True
    then show ?thesis using v(2) by simp
  next
    case False
    then have "Root d \<noteq> ''/''" using comps_slash [of "[]"] by auto
    moreover have "HasPrefix q (Root d @ ''/'') \<longleftrightarrow> strict_prefix (comps (Root d)) (comps q)"
      using render_prefix_strict [OF v(1,3) False] v(2,4) by (simp add: HasPrefix_def)
    moreover have "comps (Root d) \<noteq> comps q" using ne clean_path_eq [OF assms(2,1)] by auto
    ultimately show ?thesis by (auto simp: strict_prefix_def)
  qed
  then show ?thesis by (auto simp: covers_def)
qed

definition ptr :: "memLS \<Rightarrow> string option \<Rightarrow> nat option \<Rightarrow> bool" where
  "ptr m t n \<longleftrightarrow> (case t of None \<Rightarrow> n = None | Some s \<Rightarrow> n \<noteq> None \<and> byToken m s = n)"

lemma lookup_refines:
  assumes c: "consistent m" and q: "clean_path name"
  shows "ptr m (spec_lookup (view m) name cs) (lookup m name cs)"
proof (induction cs)
  case (Cons c cs)
  show ?case
  proof (cases "byToken m (Token c)")
    case None
    then show ?thesis using Cons by (simp add: spec_lookup_def usable_def view_def)
  next
    case (Some n)
    have "clean_path (Root (details (store m n)))"
      using lock_node(4) [OF consistentD(1) [OF c] token_lock(1) [OF c Some]] by (simp add: root_def)
    from covers_iff [OF this q] show ?thesis
      using Cons Some by (auto simp: spec_lookup_def usable_def view_def Let_def ptr_def split: option.splits)
  qed
qed (simp add: spec_lookup_def ptr_def)

lemma spec_lookup_Some:
  assumes "spec_lookup V name cs = Some t"
  shows "\<exists>l. V t = Some l \<and> \<not> lheld l \<and> covers (ldetails l) name \<and> (\<exists>c \<in> set cs. Token c = t)"
  using assms by (auto simp: spec_lookup_def usable_def find_Some_iff split: option.splits)

lemma set_held_same: "view m (token (store m a)) = Some (info (store m a)) \<Longrightarrow>
   (view m)(token (store m a) \<mapsto> (info (store m a))\<lparr>lheld := b\<rparr>) = set_held b (Some (token (store m a))) (view m)"
  by (simp add: set_held_def)

lemma hold_opt:
  assumes c: "consistent m" and p: "ptr m t n"
    and h: "\<And>s. t = Some s \<Longrightarrow> \<exists>l. view m s = Some l \<and> lheld l = (\<not> b)"
  obtains m' where "opt_go (if b then hold else unhold) n m = Some m'" "consistent m'" "view m' = set_held b t (view m)"
    "gen m' = gen m" "byToken m' = byToken m"
proof (cases t)
  case None
  then show ?thesis using that [of m] c p by (simp add: opt_go_def ptr_def set_held_def)
next
  case (Some s)
  then obtain a where a: "n = Some a" "byToken m s = Some a" using p by (auto simp: ptr_def)
  note L = token_lock [OF c a(2)] and v = view_Some [OF a(2)]
  have hd: "held (store m a) = (\<not> b)" using h [OF Some] v by auto
  obtain m' where m': "(if b then hold else unhold) a m = Some m'"
    "re_entered m a ((info (store m a))\<lparr>lheld := b\<rparr>) m'"
  proof (cases b)
    case True
    then show ?thesis using hold_ok [OF c L(1)] hd that by auto
  next
    case False
    then show ?thesis using unhold_ok [OF c L(1)] hd that by auto
  qed
  note R = re_enteredD [OF m'(2)]
  have "view m' = set_held b t (view m)" using R(2) set_held_same [of m a b] v L(2) Some by simp
  then show ?thesis using that [of m'] m'(1) R a(1) by (simp add: opt_go_def)
qed

definition rel_ok :: "memLS \<Rightarrow> release \<Rightarrow> tokens \<Rightarrow> bool" where
  "rel_ok m r ts \<longleftrightarrow> ptr m (fst ts) (fst r) \<and> ptr m (snd ts) (snd r)"

lemma ptr_cong: "byToken m' = byToken m \<Longrightarrow> ptr m' t n = ptr m t n"
  by (simp add: ptr_def cong: option.case_cong)

lemma ptr_inj:
  assumes c: "consistent m" and p: "ptr m t n" "ptr m t' n'"
  shows "n = n' \<longleftrightarrow> t = t'"
proof (cases "t = None \<or> t' = None")
  case True
  then show ?thesis using p by (auto simp: ptr_def split: option.splits)
next
  case False
  then obtain s s' a a' where k: "t = Some s" "t' = Some s'" "n = Some a" "n' = Some a'"
    "byToken m s = Some a" "byToken m s' = Some a'" using p by (auto simp: ptr_def)
  have "a = a' \<longleftrightarrow> s = s'"
    using token_lock(2) [OF c k(5)] token_lock(2) [OF c k(6)] k(5,6) by (metis option.inject)
  then show ?thesis using k(1-4) by simp
qed

lemma ptr_if:
  "\<lbrakk>consistent m; ptr m t n; ptr m t' n'\<rbrakk>
   \<Longrightarrow> ptr m (if t = t' then None else t) (if n = n' then None else n)"
  using ptr_inj [of m t n t' n'] by (auto simp: ptr_def)

lemma set_held_other [simp]: "t \<noteq> Some s \<Longrightarrow> set_held b t V s = V s"
  by (auto simp: set_held_def split: option.splits)

lemma Confirm_refines:
  assumes c: "consistent m"
  obtains m' r r' where "Confirm m now name0 name1 cs = Some (m', r)"
    "spec_Confirm (view m) now name0 name1 cs = (view m', r')"
    "case r of Inl e \<Rightarrow> r' = Inl e | Inr x \<Rightarrow> (\<exists>ts. r' = Inr ts \<and> rel_ok m' x ts)"
    "consistent m'" "gen m' = gen m" "\<And>s a. byToken m' s = Some a \<Longrightarrow> byToken m s = Some a"
proof -
  obtain m1 where m1: "collectExpiredNodes m now = Some m1" "pruned now m m1" using collect_pruned [OF c] .
  note p = prunedD [OF m1(2)]
  let ?t = "\<lambda>name. if name \<noteq> [] then spec_lookup (view m1) (slashClean name) cs else None"
  let ?n = "\<lambda>name. if name \<noteq> [] then lookup m1 (slashClean name) cs else None"
  have pt: "ptr m1 (?t name) (?n name)" for name
    using lookup_refines [OF p(1)] by (simp add: ptr_def)
  have us: "\<exists>l. view m1 s = Some l \<and> \<not> lheld l" if "?t name = Some s" for name s
    using that spec_lookup_Some [of "view m1" "slashClean name" cs s] by (auto split: if_splits)
  have none: "?n name = None \<longleftrightarrow> ?t name = None" for name
    using pt [of name] unfolding ptr_def by (cases "?t name") auto
  let ?t1 = "if ?t name1 = ?t name0 then None else ?t name1"
  let ?n1 = "if ?n name1 = ?n name0 then None else ?n name1"
  show ?thesis
  proof (cases "name0 \<noteq> [] \<and> ?t name0 = None \<or> name1 \<noteq> [] \<and> ?t name1 = None")
    case True
    then have "Confirm m now name0 name1 cs = Some (m1, Inl ErrConfirmationFailed)"
      using none [of name0] none [of name1] m1(1) by (auto simp: Confirm_def Let_def)
    moreover have "spec_Confirm (view m) now name0 name1 cs = (view m1, Inl ErrConfirmationFailed)"
      using True by (auto simp: spec_Confirm_def Let_def p(2) [symmetric])
    ultimately show ?thesis using p by (intro that [of m1 "Inl ErrConfirmationFailed"]) auto
  next
    case False
    have p1: "ptr m1 ?t1 ?n1" by (rule ptr_if [OF p(1) pt [of name1] pt [of name0]])
    obtain m2 where m2: "opt_go hold (?n name0) m1 = Some m2" "consistent m2"
      "view m2 = set_held True (?t name0) (view m1)" "gen m2 = gen m1" "byToken m2 = byToken m1"
      using hold_opt [OF p(1) pt [of name0], of True] us [of name0] by auto
    have p2: "ptr m2 ?t1 ?n1" using p1 ptr_cong [OF m2(5)] by simp
    have "\<exists>l. view m2 s = Some l \<and> lheld l = (\<not> True)" if "?t1 = Some s" for s
      using that us [of name1 s] unfolding m2(3) by (auto split: if_splits)
    from hold_opt [OF m2(2) p2, of True, OF this] obtain m3 where
      m3: "opt_go hold ?n1 m2 = Some m3" "consistent m3" "view m3 = set_held True ?t1 (view m2)"
        "gen m3 = gen m2" "byToken m3 = byToken m2"
      by auto
    have ok: "\<not> (name0 \<noteq> [] \<and> ?n name0 = None)" "\<not> (name1 \<noteq> [] \<and> ?n name1 = None)"
      using False none by blast+
    have "Confirm m now name0 name1 cs = Some (m3, Inr (?n name0, ?n1))"
      unfolding Confirm_def Let_def m1(1) using ok m2(1) m3(1) by simp
    moreover have "spec_Confirm (view m) now name0 name1 cs = (view m3, Inr (?t name0, ?t1))"
      unfolding spec_Confirm_def Let_def p(2) [symmetric] m3(3) m2(3) using False by simp
    moreover have "rel_ok m3 (?n name0, ?n1) (?t name0, ?t1)"
      using pt [of name0] p1 ptr_cong [OF m2(5)] ptr_cong [OF m3(5)] by (simp add: rel_ok_def)
    ultimately show ?thesis
      using m3(2,4,5) m2(4,5) p(3,4)
      by (intro that [of m3 "Inr (?n name0, ?n1)" "Inr (?t name0, ?t1)"]) simp_all
  qed
qed

lemma release_refines:
  assumes c: "consistent m" and r: "rel_ok m r ts"
    and h: "\<And>s. fst ts = Some s \<or> snd ts = Some s \<Longrightarrow> \<exists>l. view m s = Some l \<and> lheld l"
    and d: "fst ts = None \<or> fst ts \<noteq> snd ts"
  obtains m' where "release_fn r m = Some m'" "view m' = spec_release ts (view m)" "consistent m'"
    "gen m' = gen m" "byToken m' = byToken m"
proof -
  obtain m1 where m1: "opt_go unhold (snd r) m = Some m1" "consistent m1" "view m1 = set_held False (snd ts) (view m)"
    "gen m1 = gen m" "byToken m1 = byToken m"
    using hold_opt [OF c, of "snd ts" "snd r" False] r h by (auto simp: rel_ok_def)
  have "ptr m1 (fst ts) (fst r)" using r ptr_cong [OF m1(5)] by (simp add: rel_ok_def)
  moreover have "\<exists>l. view m1 s = Some l \<and> lheld l = (\<not> False)" if "fst ts = Some s" for s
    using that h [of s] d unfolding m1(3) by auto
  ultimately obtain m2 where m2: "opt_go unhold (fst r) m1 = Some m2" "consistent m2"
    "view m2 = set_held False (fst ts) (view m1)" "gen m2 = gen m1" "byToken m2 = byToken m1"
    using hold_opt [OF m1(2), of "fst ts" "fst r" False] by auto
  show ?thesis using that [of m2] m1 m2 by (simp add: release_fn_def spec_release_def)
qed

end
