(* ===== verification/LockSystem.thy ===== *)
theory LockSystem
  imports MemLSSpec
begin

text \<open>
  The interface \<^verbatim>\<open>LockSystem\<close> of \<^verbatim>\<open>server/webdav/lock.go\<close> as a locale, what follows from it for the
  requests that share one lock system, its interpretation by \<^verbatim>\<open>memLS\<close>, and the states that the
  running server can reach.  Requests interleave: each holds the release functions it got from
  \<^verbatim>\<open>Confirm\<close> until it finishes, while others lock, refresh, unlock and let locks expire.
\<close>

section \<open>Facts about the specification\<close>

definition toks :: "tokens \<Rightarrow> string list" where
  "toks ts = (case fst ts of None \<Rightarrow> [] | Some t \<Rightarrow> [t]) @ (case snd ts of None \<Rightarrow> [] | Some t \<Rightarrow> [t])"

definition held_set :: "locktable \<Rightarrow> string set" where
  "held_set V = {t. \<exists>l. V t = Some l \<and> lheld l}"

text \<open>No two locks of the table conflict.\<close>

definition table_exclusive :: "locktable \<Rightarrow> bool" where
  "table_exclusive V \<longleftrightarrow> (\<forall>t t' l l'. V t = Some l \<longrightarrow> V t' = Some l' \<longrightarrow> t \<noteq> t' \<longrightarrow>
     \<not> conflict (ldetails l) (ldetails l'))"

lemma table_exclusiveD:
  "\<lbrakk>table_exclusive V; V t = Some l; V t' = Some l'; t \<noteq> t'\<rbrakk> \<Longrightarrow> \<not> conflict (ldetails l) (ldetails l')"
  unfolding table_exclusive_def by blast

lemma live_SomeD: "live now V t = Some l \<Longrightarrow> V t = Some l"
  by (auto simp: live_def split: option.splits if_splits)

lemma held_live [simp]: "held_set (live now V) = held_set V"
proof -
  have "(\<exists>l. live now V t = Some l \<and> lheld l) \<longleftrightarrow> (\<exists>l. V t = Some l \<and> lheld l)" for t
    using live_SomeD [of now V t] live_held [of V t _ now] by blast
  then show ?thesis by (simp add: held_set_def)
qed

text \<open>A table whose locks all stem, up to duration, expiry and held flag, from another one.\<close>

definition stems :: "locktable \<Rightarrow> locktable \<Rightarrow> bool" where
  "stems V' V \<longleftrightarrow> (\<forall>t l'. V' t = Some l' \<longrightarrow> (\<exists>l. V t = Some l
     \<and> Root (ldetails l') = Root (ldetails l) \<and> ZeroDepth (ldetails l') = ZeroDepth (ldetails l)))"

lemma stems_exclusive:
  assumes "stems V' V" "table_exclusive V"
  shows "table_exclusive V'"
  unfolding table_exclusive_def
proof (intro allI impI)
  fix t t' l1 l2 assume a: "V' t = Some l1" "V' t' = Some l2" "t \<noteq> t'"
  obtain k1 where k1: "V t = Some k1" "Root (ldetails l1) = Root (ldetails k1)"
    "ZeroDepth (ldetails l1) = ZeroDepth (ldetails k1)" using assms(1) a(1) unfolding stems_def by blast
  obtain k2 where k2: "V t' = Some k2" "Root (ldetails l2) = Root (ldetails k2)"
    "ZeroDepth (ldetails l2) = ZeroDepth (ldetails k2)" using assms(1) a(2) unfolding stems_def by blast
  show "\<not> conflict (ldetails l1) (ldetails l2)"
    using table_exclusiveD [OF assms(2) k1(1) k2(1) a(3)] conflict_cong [OF k1(2,3) k2(2,3)] by simp
qed

lemma stems_live: "stems (live now V) V"
  by (auto simp: stems_def dest: live_SomeD)

lemma stems_trans: "\<lbrakk>stems V2 V1; stems V1 V0\<rbrakk> \<Longrightarrow> stems V2 V0"
  unfolding stems_def by fastforce

lemma stems_set_held: "stems (set_held b t V) V"
  by (auto simp: stems_def set_held_def split: option.splits if_splits)

lemma spec_Create_held:
  assumes "spec_Create V now d V' r"
  shows "held_set V' = held_set V" "table_exclusive V \<Longrightarrow> table_exclusive V'"
    "\<And>t. t \<in> held_set V \<Longrightarrow> r \<noteq> Inr t"
proof -
  let ?V = "live now V" and ?d = "clean_root d"
  have s: "V' = ?V \<and> r = Inl ErrLocked \<or> (\<exists>t. (\<forall>t l. ?V t = Some l \<longrightarrow> \<not> conflict (ldetails l) ?d) \<and> r = Inr t
      \<and> ?V t = None \<and> V' = ?V(t \<mapsto> \<lparr>ldetails = ?d, lexpiry = expires_at now (Duration ?d), lheld = False\<rparr>))"
    using assms unfolding spec_Create_def Let_def by (auto split: if_splits)
  then consider "V' = ?V" "r = Inl ErrLocked"
    | t where "\<forall>t l. ?V t = Some l \<longrightarrow> \<not> conflict (ldetails l) ?d" "r = Inr t" "?V t = None"
      "V' = ?V(t \<mapsto> \<lparr>ldetails = ?d, lexpiry = expires_at now (Duration ?d), lheld = False\<rparr>)" by blast
  note cs = this
  show "held_set V' = held_set V"
  proof (cases rule: cs)
    case (2 t)
    then have "held_set V' = held_set ?V" by (auto simp: held_set_def)
    then show ?thesis by simp
  qed simp
  show "table_exclusive V'" if "table_exclusive V"
  proof (cases rule: cs)
    case 1
    then show ?thesis using stems_exclusive [OF stems_live that] by simp
  next
    case (2 t)
    have e: "table_exclusive ?V" by (rule stems_exclusive [OF stems_live that])
    show ?thesis
      unfolding table_exclusive_def 2(4)
      using table_exclusiveD [OF e] 2(1) conflict_sym by (auto split: if_splits)
  qed
  show "r \<noteq> Inr t" if "t \<in> held_set V" for t
  proof (cases rule: cs)
    case (2 u)
    have "t \<in> held_set ?V" using that by simp
    then show ?thesis using 2 by (auto simp: held_set_def)
  qed simp
qed

lemma spec_Refresh_held:
  assumes "spec_Refresh V now t dur = (V', r)"
  shows "held_set V' = held_set V" "stems V' V"
proof -
  have h: "held_set V' = held_set (live now V) \<and> stems V' (live now V)"
    using assms by (auto simp: spec_Refresh_def Let_def held_set_def stems_def split: option.splits if_splits)
  then show "held_set V' = held_set V" by simp
  show "stems V' V" using h stems_trans stems_live by blast
qed

lemma spec_Unlock_held:
  assumes "spec_Unlock V now t = (V', r)"
  shows "held_set V' = held_set V" "stems V' V"
proof -
  have h: "held_set V' = held_set (live now V) \<and> stems V' (live now V)"
    using assms by (auto simp: spec_Unlock_def Let_def held_set_def stems_def split: option.splits if_splits)
  then show "held_set V' = held_set V" by simp
  show "stems V' V" using h stems_trans stems_live by blast
qed

lemma held_set_held:
  "held_set (set_held b t V) = (case t of None \<Rightarrow> held_set V
     | Some s \<Rightarrow> if V s \<noteq> None \<and> b then insert s (held_set V) else held_set V - {s})"
  by (auto simp: held_set_def set_held_def split: option.splits)

lemma spec_Confirm_held:
  assumes "spec_Confirm V now n0 n1 cs = (V', r)"
  shows "stems V' V" "r = Inl e \<Longrightarrow> held_set V' = held_set V"
    "r = Inr ts \<Longrightarrow> held_set V' = held_set V \<union> set (toks ts)"
    "r = Inr ts \<Longrightarrow> distinct (toks ts) \<and> set (toks ts) \<inter> held_set V = {}"
proof -
  let ?V = "live now V"
  let ?t = "\<lambda>n. if n \<noteq> [] then spec_lookup ?V (slashClean n) cs else None"
  let ?t1 = "if ?t n1 = ?t n0 then None else ?t n1"
  have us: "?V s \<noteq> None \<and> s \<notin> held_set V" if "?t n = Some s" for n s
  proof -
    have "spec_lookup ?V (slashClean n) cs = Some s" using that by (simp split: if_splits)
    then obtain l where l: "?V s = Some l" "\<not> lheld l" using spec_lookup_Some by blast
    then have "V s = Some l" by (auto dest: live_SomeD)
    then show ?thesis using l by (simp add: held_set_def)
  qed
  have s: "V' = ?V \<and> r = Inl ErrConfirmationFailed \<or>
      V' = set_held True ?t1 (set_held True (?t n0) ?V) \<and> r = Inr (?t n0, ?t1)"
    using assms unfolding spec_Confirm_def Let_def by (auto split: if_splits)
  show "stems V' V"
    using s stems_trans [OF stems_trans [OF stems_set_held stems_set_held] stems_live] stems_live by metis
  show "held_set V' = held_set V" if "r = Inl e" using s that by auto
  have us1: "?V s \<noteq> None \<and> s \<notin> held_set V" if "?t1 = Some s" for s
    using that us [of n1 s] by (simp split: if_splits)
  have h: "held_set (set_held True t W) = held_set W \<union> set_option t" if "\<And>s. t = Some s \<Longrightarrow> W s \<noteq> None" for t W
    using that by (auto simp: held_set_held split: option.splits)
  have k: "set_held True (?t n0) ?V s \<noteq> None" if "?V s \<noteq> None" for s
    using that by (auto simp: set_held_def split: option.splits)
  show "held_set V' = held_set V \<union> set (toks ts)" if r: "r = Inr ts"
  proof -
    have e: "V' = set_held True ?t1 (set_held True (?t n0) ?V)" "ts = (?t n0, ?t1)" using s r by auto
    have "held_set V' = held_set V \<union> set_option (?t n0) \<union> set_option ?t1"
      unfolding e(1) by (subst h, use us1 k in blast)+ (subst h, use us in blast, simp)
    also have "\<dots> = held_set V \<union> set (toks ts)"
      unfolding e(2) toks_def fst_conv snd_conv by (auto split: option.splits)
    finally show ?thesis .
  qed
  show "distinct (toks ts) \<and> set (toks ts) \<inter> held_set V = {}" if r: "r = Inr ts"
  proof -
    have e: "ts = (?t n0, ?t1)" using s r by auto
    have "?t1 = None \<or> ?t1 \<noteq> ?t n0" by simp
    then show ?thesis
      using us [of n0] us1 unfolding e toks_def fst_conv snd_conv by (fastforce split: option.splits)
  qed
qed

lemma spec_Confirm_keeps:
  assumes c: "spec_Confirm V now n0 n1 cs = (V', r)" and l: "live now V t = Some l" "lheld l"
  shows "V' t = Some l"
proof -
  let ?V = "live now V"
  let ?t = "\<lambda>n. if n \<noteq> [] then spec_lookup ?V (slashClean n) cs else None"
  let ?t1 = "if ?t n1 = ?t n0 then None else ?t n1"
  have t0: "?t n \<noteq> Some t" for n using spec_lookup_Some [of ?V "slashClean n" cs t] l by auto
  then have t1: "?t1 \<noteq> Some t" by simp
  have "V' = ?V \<or> V' = set_held True ?t1 (set_held True (?t n0) ?V)"
    using c unfolding spec_Confirm_def Let_def by (auto split: if_splits)
  then show ?thesis
  proof
    assume "V' = set_held True ?t1 (set_held True (?t n0) ?V)"
    then show ?thesis using l(1) set_held_other [OF t1] set_held_other [OF t0 [of n0]] by simp
  qed (use l(1) in simp)
qed

lemma spec_Refresh_keeps:
  assumes "spec_Refresh V now u dur = (V', r)" "live now V t = Some l" "lheld l"
  shows "V' t = Some l"
  using assms by (auto simp: spec_Refresh_def Let_def split: if_splits option.splits)

lemma spec_Unlock_keeps:
  assumes "spec_Unlock V now u = (V', r)" "live now V t = Some l" "lheld l"
  shows "V' t = Some l"
  using assms by (auto simp: spec_Unlock_def Let_def split: if_splits option.splits)

lemma spec_release_held:
  assumes "set (toks ts) \<subseteq> held_set V"
  shows "held_set (spec_release ts V) = held_set V - set (toks ts)" "stems (spec_release ts V) V"
proof -
  show "held_set (spec_release ts V) = held_set V - set (toks ts)"
    by (auto simp: spec_release_def held_set_held toks_def split: option.splits)
  show "stems (spec_release ts V) V"
    unfolding spec_release_def by (rule stems_trans [OF stems_set_held stems_set_held])
qed

section \<open>The interface\<close>

text \<open>
  \<open>keeps\<close>: a release function stays valid as long as its locks are held and in the table.
\<close>

definition keeps :: "('s \<Rightarrow> locktable) \<Rightarrow> ('s \<Rightarrow> 'r \<Rightarrow> tokens \<Rightarrow> bool) \<Rightarrow> 's \<Rightarrow> 's \<Rightarrow> bool" where
  "keeps V rel s s' \<longleftrightarrow> (\<forall>r ts. rel s r ts \<longrightarrow> set (toks ts) \<subseteq> held_set (V s) \<longrightarrow>
     set (toks ts) \<subseteq> dom (V s') \<longrightarrow> rel s' r ts)"

lemma keepsD:
  "\<lbrakk>keeps V rel s s'; rel s r ts; set (toks ts) \<subseteq> held_set (V s); set (toks ts) \<subseteq> dom (V s')\<rbrakk> \<Longrightarrow> rel s' r ts"
  unfolding keeps_def by blast

locale lock_system =
  fixes V :: "'s \<Rightarrow> locktable" and ok :: "'s \<Rightarrow> bool" and room :: "'s \<Rightarrow> nat"
    and rel :: "'s \<Rightarrow> 'r \<Rightarrow> tokens \<Rightarrow> bool"
    and create :: "'s \<Rightarrow> int \<Rightarrow> LockDetails \<Rightarrow> ('s \<times> (ls_err + string)) go"
    and refresh :: "'s \<Rightarrow> int \<Rightarrow> string \<Rightarrow> int \<Rightarrow> ('s \<times> (ls_err + LockDetails)) go"
    and unlock :: "'s \<Rightarrow> int \<Rightarrow> string \<Rightarrow> ('s \<times> ls_err option) go"
    and confirm :: "'s \<Rightarrow> int \<Rightarrow> string \<Rightarrow> string \<Rightarrow> Condition list \<Rightarrow> ('s \<times> (ls_err + 'r)) go"
    and release :: "'r \<Rightarrow> 's \<Rightarrow> 's go"
  assumes create_law: "\<lbrakk>ok s; 0 < room s\<rbrakk> \<Longrightarrow> \<exists>s' r. create s now d = Some (s', r) \<and> ok s'
      \<and> spec_Create (V s) now d (V s') r \<and> room s \<le> Suc (room s') \<and> keeps V rel s s'"
    and refresh_law: "ok s \<Longrightarrow> \<exists>s' r. refresh s now t dur = Some (s', r) \<and> ok s'
      \<and> spec_Refresh (V s) now t dur = (V s', r) \<and> room s' = room s \<and> keeps V rel s s'"
    and unlock_law: "ok s \<Longrightarrow> \<exists>s' r. unlock s now t = Some (s', r) \<and> ok s'
      \<and> spec_Unlock (V s) now t = (V s', r) \<and> room s' = room s \<and> keeps V rel s s'"
    and confirm_law: "ok s \<Longrightarrow> \<exists>s' r r'. confirm s now n0 n1 cs = Some (s', r) \<and> ok s'
      \<and> spec_Confirm (V s) now n0 n1 cs = (V s', r')
      \<and> (case r of Inl e \<Rightarrow> r' = Inl e | Inr x \<Rightarrow> (\<exists>ts. r' = Inr ts \<and> rel s' x ts))
      \<and> room s' = room s \<and> keeps V rel s s'"
    and release_law: "\<lbrakk>ok s; rel s r ts; set (toks ts) \<subseteq> held_set (V s); distinct (toks ts)\<rbrakk>
      \<Longrightarrow> \<exists>s'. release r s = Some s' \<and> ok s' \<and> V s' = spec_release ts (V s) \<and> room s' = room s \<and> keeps V rel s s'"
begin

text \<open>
  The state of the server: the lock system and the release functions that requests in progress
  hold.  Together they hold exactly the held locks, each once.
\<close>

definition all_toks :: "('r \<times> tokens) list \<Rightarrow> string list" where
  "all_toks outs = concat (map (\<lambda>x. toks (snd x)) outs)"

definition sys_ok :: "'s \<Rightarrow> ('r \<times> tokens) list \<Rightarrow> bool" where
  "sys_ok s outs \<longleftrightarrow> ok s \<and> (\<forall>x \<in> set outs. rel s (fst x) (snd x)) \<and> distinct (all_toks outs)
     \<and> set (all_toks outs) = held_set (V s) \<and> table_exclusive (V s)"

lemma sys_okD:
  assumes "sys_ok s outs"
  shows "ok s" "distinct (all_toks outs)" "set (all_toks outs) = held_set (V s)" "table_exclusive (V s)"
    "x \<in> set outs \<Longrightarrow> rel s (fst x) (snd x)" "x \<in> set outs \<Longrightarrow> set (toks (snd x)) \<subseteq> held_set (V s)"
proof -
  show "ok s" "distinct (all_toks outs)" "set (all_toks outs) = held_set (V s)" "table_exclusive (V s)"
    "x \<in> set outs \<Longrightarrow> rel s (fst x) (snd x)" using assms by (auto simp: sys_ok_def)
  show "x \<in> set outs \<Longrightarrow> set (toks (snd x)) \<subseteq> held_set (V s)"
    using assms by (auto simp: sys_ok_def all_toks_def)
qed

lemma held_dom: "held_set W \<subseteq> dom W"
  by (auto simp: held_set_def)

text \<open>A step that only adds held locks keeps every release function valid.\<close>

lemma rel_kept:
  assumes o: "sys_ok s outs" and k: "keeps V rel s s'" and h: "held_set (V s) \<subseteq> held_set (V s')" and x: "x \<in> set outs"
  shows "rel s' (fst x) (snd x)"
proof (rule keepsD [OF k sys_okD(5,6) [OF o x]])
  show "set (toks (snd x)) \<subseteq> dom (V s')" using sys_okD(6) [OF o x] h held_dom by blast
qed

lemma sys_same:
  assumes o: "sys_ok s outs" and "ok s'" "keeps V rel s s'" "held_set (V s') = held_set (V s)" "table_exclusive (V s')"
  shows "sys_ok s' outs"
  using sys_okD(2,3) [OF o] rel_kept [OF o assms(3)] assms by (auto simp: sys_ok_def)

lemma sys_create:
  assumes o: "sys_ok s outs" and r: "0 < room s"
  obtains s' r where "create s now d = Some (s', r)" "sys_ok s' outs" "spec_Create (V s) now d (V s') r"
    "room s \<le> Suc (room s')"
proof -
  obtain s' r where c: "create s now d = Some (s', r)" "ok s'" "spec_Create (V s) now d (V s') r"
    "room s \<le> Suc (room s')" "keeps V rel s s'"
    using create_law [OF sys_okD(1) [OF o] r] by blast
  have "sys_ok s' outs"
    using sys_same [OF o c(2,5)] spec_Create_held(1,2) [OF c(3)] sys_okD(4) [OF o] by simp
  with c show ?thesis by (intro that)
qed

lemma sys_refresh:
  assumes o: "sys_ok s outs"
  obtains s' r where "refresh s now t dur = Some (s', r)" "sys_ok s' outs" "spec_Refresh (V s) now t dur = (V s', r)"
    "room s' = room s"
proof -
  obtain s' r where c: "refresh s now t dur = Some (s', r)" "ok s'" "spec_Refresh (V s) now t dur = (V s', r)"
    "room s' = room s" "keeps V rel s s'"
    using refresh_law [OF sys_okD(1) [OF o]] by blast
  have "sys_ok s' outs"
    using sys_same [OF o c(2,5)] spec_Refresh_held [OF c(3)] stems_exclusive sys_okD(4) [OF o] by blast
  with c show ?thesis by (intro that)
qed

lemma sys_unlock:
  assumes o: "sys_ok s outs"
  obtains s' r where "unlock s now t = Some (s', r)" "sys_ok s' outs" "spec_Unlock (V s) now t = (V s', r)"
    "room s' = room s"
proof -
  obtain s' r where c: "unlock s now t = Some (s', r)" "ok s'" "spec_Unlock (V s) now t = (V s', r)"
    "room s' = room s" "keeps V rel s s'"
    using unlock_law [OF sys_okD(1) [OF o]] by blast
  have "sys_ok s' outs"
    using sys_same [OF o c(2,5)] spec_Unlock_held [OF c(3)] stems_exclusive sys_okD(4) [OF o] by blast
  with c show ?thesis by (intro that)
qed

lemma sys_confirm:
  assumes o: "sys_ok s outs"
  obtains (failed) s' where "confirm s now n0 n1 cs = Some (s', Inl ErrConfirmationFailed)" "sys_ok s' outs"
      "spec_Confirm (V s) now n0 n1 cs = (V s', Inl ErrConfirmationFailed)" "room s' = room s"
    | (confirmed) s' r ts where "confirm s now n0 n1 cs = Some (s', Inr r)" "sys_ok s' (outs @ [(r, ts)])"
      "spec_Confirm (V s) now n0 n1 cs = (V s', Inr ts)" "room s' = room s"
proof -
  obtain s' r r' where c: "confirm s now n0 n1 cs = Some (s', r)" "ok s'"
    "spec_Confirm (V s) now n0 n1 cs = (V s', r')"
    "case r of Inl e \<Rightarrow> r' = Inl e | Inr x \<Rightarrow> (\<exists>ts. r' = Inr ts \<and> rel s' x ts)"
    "room s' = room s" "keeps V rel s s'"
    using confirm_law [OF sys_okD(1) [OF o]] by blast
  note h = spec_Confirm_held [OF c(3)]
  have ex: "table_exclusive (V s')" using stems_exclusive [OF h(1) sys_okD(4) [OF o]] .
  show ?thesis
  proof (cases r)
    case (Inl e)
    then have r': "r' = Inl e" using c(4) by simp
    then have "e = ErrConfirmationFailed" using c(3) by (auto simp: spec_Confirm_def Let_def split: if_splits)
    moreover have "sys_ok s' outs" using sys_same [OF o c(2,6) h(2) [OF r'] ex] .
    ultimately show ?thesis using c Inl r' by (intro failed [of s']) simp_all
  next
    case (Inr x)
    then obtain ts where r': "r' = Inr ts" and x: "rel s' x ts" using c(4) by auto
    have "rel s' (fst y) (snd y)" if "y \<in> set (outs @ [(x, ts)])" for y
    proof (cases "y \<in> set outs")
      case True
      then show ?thesis using rel_kept [OF o c(6) _ True] h(3) [OF r'] by simp
    qed (use that x in auto)
    moreover have "distinct (all_toks (outs @ [(x, ts)]))"
      "set (all_toks (outs @ [(x, ts)])) = held_set (V s')"
      using sys_okD(2,3) [OF o] h(3,4) [OF r'] by (auto simp: all_toks_def)
    ultimately have "sys_ok s' (outs @ [(x, ts)])" using c(2) ex by (simp add: sys_ok_def)
    then show ?thesis using c Inr r' by (intro confirmed [of s' x ts]) simp_all
  qed
qed

lemma sys_release:
  assumes o: "sys_ok s (xs @ (r, ts) # ys)"
  obtains s' where "release r s = Some s'" "sys_ok s' (xs @ ys)" "V s' = spec_release ts (V s)" "room s' = room s"
proof -
  have m: "(r, ts) \<in> set (xs @ (r, ts) # ys)" by simp
  have d: "distinct (toks ts)" using sys_okD(2) [OF o] by (simp add: all_toks_def)
  obtain s' where c: "release r s = Some s'" "ok s'" "V s' = spec_release ts (V s)" "room s' = room s" "keeps V rel s s'"
    using release_law [OF sys_okD(1) [OF o] _ _ d] sys_okD(5,6) [OF o m] by auto
  have tk: "set (toks ts) \<subseteq> held_set (V s)" using sys_okD(6) [OF o m] by simp
  note h = spec_release_held [OF tk, folded c(3)]
  have hs: "set (all_toks (xs @ ys)) = held_set (V s')"
    using sys_okD(2,3) [OF o] h(1) by (auto simp: all_toks_def)
  have "rel s' (fst x) (snd x)" if x: "x \<in> set (xs @ ys)" for x
  proof (rule keepsD [OF c(5)])
    have x': "x \<in> set (xs @ (r, ts) # ys)" using x by auto
    show "rel s (fst x) (snd x)" "set (toks (snd x)) \<subseteq> held_set (V s)" using sys_okD(5,6) [OF o x'] .
    show "set (toks (snd x)) \<subseteq> dom (V s')" 
    proof -
      have "set (toks (snd x)) \<subseteq> set (all_toks (xs @ ys))" using x by (auto simp: all_toks_def)
      then show ?thesis using hs held_dom [of "V s'"] by blast
    qed
  qed
  moreover have "distinct (all_toks (xs @ ys))" using sys_okD(2) [OF o] by (auto simp: all_toks_def)
  ultimately have "sys_ok s' (xs @ ys)"
    using c(2) hs stems_exclusive [OF h(2) sys_okD(4) [OF o]] by (simp add: sys_ok_def)
  with c show ?thesis by (intro that)
qed

end

section \<open>memLS is a lock system\<close>

definition ls_room :: "memLS \<Rightarrow> nat" where
  "ls_room m = 2 ^ 64 - 1 - unat (gen m)"

lemma keeps_memLS:
  assumes "\<And>s a. s \<in> held_set (view m) \<Longrightarrow> byToken m' s = Some a \<Longrightarrow> byToken m s = Some a"
  shows "keeps view rel_ok m m'"
proof -
  have p: "ptr m' t n" 
    if pt: "ptr m t n" "set_option t \<subseteq> held_set (view m)" "set_option t \<subseteq> dom (view m')" for t n
  proof (cases t)
    case (Some s)
    then obtain a where a: "byToken m' s = Some a" using pt(3) by (auto simp: view_def)
    then have "byToken m s = Some a" using assms pt(2) Some by auto
    then show ?thesis using pt(1) a Some by (simp add: ptr_def)
  qed (use pt in \<open>simp add: ptr_def\<close>)
  have "set (toks ts) = set_option (fst ts) \<union> set_option (snd ts)" for ts
    by (auto simp: toks_def split: option.splits)
  then show ?thesis unfolding keeps_def rel_ok_def using p by simp
qed

interpretation ls: lock_system view consistent ls_room rel_ok Create Refresh Unlock Confirm release_fn
proof unfold_locales
  fix s :: memLS and now :: int and d :: LockDetails
  assume c: "consistent s" and r: "0 < ls_room s"
  have "unat (gen s) < 2 ^ 64 - 1" using r by (simp add: ls_room_def)
  from Create_refines [OF c this] obtain m' r where m': "Create s now d = Some (m', r)"
    "spec_Create (view s) now d (view m') r" "consistent m'"
    "gen m' = (case r of Inl _ \<Rightarrow> gen s | Inr _ \<Rightarrow> gen s + 1)"
    "\<And>t a. byToken m' t = Some a \<Longrightarrow> byToken s t = Some a \<or> r = Inr t" by blast
  have "unat (gen m') \<le> Suc (unat (gen s))"
    using m'(4) gen_Suc [OF \<open>unat (gen s) < 2 ^ 64 - 1\<close>] by (simp split: sum.splits)
  then have "ls_room s \<le> Suc (ls_room m')" by (simp add: ls_room_def)
  moreover have "keeps view rel_ok s m'"
    using m'(5) spec_Create_held(3) [OF m'(2)] by (intro keeps_memLS) blast
  ultimately show "\<exists>s' r. Create s now d = Some (s', r) \<and> consistent s' \<and> spec_Create (view s) now d (view s') r
      \<and> ls_room s \<le> Suc (ls_room s') \<and> keeps view rel_ok s s'" using m' by blast
next
  fix s :: memLS and now dur :: int and t :: string
  assume c: "consistent s"
  obtain m' r where m': "Refresh s now t dur = Some (m', r)" "spec_Refresh (view s) now t dur = (view m', r)"
    "consistent m'" "gen m' = gen s" "\<And>u a. byToken m' u = Some a \<Longrightarrow> byToken s u = Some a"
    using Refresh_refines [OF c] by blast
  then have "keeps view rel_ok s m'" by (intro keeps_memLS)
  then show "\<exists>s' r. Refresh s now t dur = Some (s', r) \<and> consistent s' \<and> spec_Refresh (view s) now t dur = (view s', r)
      \<and> ls_room s' = ls_room s \<and> keeps view rel_ok s s'"
    using m'(1-4) by (auto simp: ls_room_def)
next
  fix s :: memLS and now :: int and t :: string
  assume c: "consistent s"
  obtain m' r where m': "Unlock s now t = Some (m', r)" "spec_Unlock (view s) now t = (view m', r)"
    "consistent m'" "gen m' = gen s" "\<And>u a. byToken m' u = Some a \<Longrightarrow> byToken s u = Some a"
    using Unlock_refines [OF c] by blast
  then have "keeps view rel_ok s m'" by (intro keeps_memLS)
  then show "\<exists>s' r. Unlock s now t = Some (s', r) \<and> consistent s' \<and> spec_Unlock (view s) now t = (view s', r)
      \<and> ls_room s' = ls_room s \<and> keeps view rel_ok s s'"
    using m'(1-4) by (auto simp: ls_room_def)
next
  fix s :: memLS and now :: int and n0 n1 :: string and cs :: "Condition list"
  assume c: "consistent s"
  obtain m' r r' where m': "Confirm s now n0 n1 cs = Some (m', r)"
    "spec_Confirm (view s) now n0 n1 cs = (view m', r')"
    "case r of Inl e \<Rightarrow> r' = Inl e | Inr x \<Rightarrow> (\<exists>ts. r' = Inr ts \<and> rel_ok m' x ts)"
    "consistent m'" "gen m' = gen s" "\<And>u a. byToken m' u = Some a \<Longrightarrow> byToken s u = Some a"
    using Confirm_refines [OF c] by blast
  then have "keeps view rel_ok s m'" by (intro keeps_memLS)
  then show "\<exists>s' r r'. Confirm s now n0 n1 cs = Some (s', r) \<and> consistent s'
      \<and> spec_Confirm (view s) now n0 n1 cs = (view s', r')
      \<and> (case r of Inl e \<Rightarrow> r' = Inl e | Inr x \<Rightarrow> (\<exists>ts. r' = Inr ts \<and> rel_ok s' x ts))
      \<and> ls_room s' = ls_room s \<and> keeps view rel_ok s s'"
    using m'(1-5) by (auto simp: ls_room_def)
next
  fix s :: memLS and r :: release and ts :: tokens
  assume c: "consistent s" "rel_ok s r ts" "set (toks ts) \<subseteq> held_set (view s)" "distinct (toks ts)"
  have "\<exists>l. view s u = Some l \<and> lheld l" if "fst ts = Some u \<or> snd ts = Some u" for u
  proof -
    have "u \<in> set (toks ts)" using that by (auto simp: toks_def)
    then show ?thesis using c(3) by (auto simp: held_set_def)
  qed
  moreover have "fst ts = None \<or> fst ts \<noteq> snd ts" using c(4) by (auto simp: toks_def)
  ultimately obtain m' where m': "release_fn r s = Some m'" "view m' = spec_release ts (view s)"
    "consistent m'" "gen m' = gen s" "byToken m' = byToken s"
    using release_refines [OF c(1,2)] by blast
  then have "keeps view rel_ok s m'" by (intro keeps_memLS) simp
  then show "\<exists>s'. release_fn r s = Some s' \<and> consistent s' \<and> view s' = spec_release ts (view s)
      \<and> ls_room s' = ls_room s \<and> keeps view rel_ok s s'"
    using m' by (auto simp: ls_room_def)
qed

section \<open>The running server\<close>

text \<open>
  What requests do to the shared lock system, one atomic call (under \<^verbatim>\<open>mu\<close>) at a time, at
  times of their choosing; \<open>outs\<close> are the release functions that are still to be called.
\<close>

datatype ls_op =
    OpConfirm int string string "Condition list"
  | OpCreate int LockDetails
  | OpRefresh int string int
  | OpUnlock int string
  | OpRelease nat

record server =
  ls :: memLS
  outs :: "release list"

fun exec :: "ls_op \<Rightarrow> server \<Rightarrow> server go" where
  "exec (OpConfirm now n0 n1 cs) s =
     do { (m, r) \<leftarrow> Confirm (ls s) now n0 n1 cs;
          Some \<lparr>ls = m, outs = (case r of Inl _ \<Rightarrow> outs s | Inr f \<Rightarrow> outs s @ [f])\<rparr> }"
| "exec (OpCreate now d) s = do { (m, _) \<leftarrow> Create (ls s) now d; Some (s\<lparr>ls := m\<rparr>) }"
| "exec (OpRefresh now t dur) s = do { (m, _) \<leftarrow> Refresh (ls s) now t dur; Some (s\<lparr>ls := m\<rparr>) }"
| "exec (OpUnlock now t) s = do { (m, _) \<leftarrow> Unlock (ls s) now t; Some (s\<lparr>ls := m\<rparr>) }"
| "exec (OpRelease i) s =
     (if i < length (outs s)
      then do { m \<leftarrow> release_fn (outs s ! i) (ls s);
                Some \<lparr>ls = m, outs = take i (outs s) @ drop (Suc i) (outs s)\<rparr> }
      else Some s)"

definition boot :: "64 word \<Rightarrow> server" where
  "boot now = \<lparr>ls = NewMemLS now, outs = []\<rparr>"

text \<open>
  States reached before the 64-bit token counter runs out; it starts at the Unix time in seconds.
\<close>

inductive reached :: "64 word \<Rightarrow> server \<Rightarrow> bool" for g :: "64 word" where
  reached_boot: "reached g (boot g)"
| reached_step: "\<lbrakk>reached g s; 0 < ls_room (ls s); exec op s = Some s'\<rbrakk> \<Longrightarrow> reached g s'"

definition server_ok :: "server \<Rightarrow> bool" where
  "server_ok s \<longleftrightarrow> (\<exists>tss. length tss = length (outs s) \<and> ls.sys_ok (ls s) (zip (outs s) tss))"

lemma view_NewMemLS [simp]: "view (NewMemLS g) = Map.empty"
  by (simp add: view_def NewMemLS_def fun_eq_iff)

lemma server_ok_boot: "server_ok (boot g)"
  unfolding server_ok_def ls.sys_ok_def
  by (simp add: boot_def consistent_NewMemLS ls.all_toks_def held_set_def table_exclusive_def)

lemma server_ok_ls: "\<lbrakk>server_ok s; \<And>os. ls.sys_ok (ls s) os \<Longrightarrow> ls.sys_ok m os\<rbrakk> \<Longrightarrow> server_ok (s\<lparr>ls := m\<rparr>)"
  by (auto simp: server_ok_def)

text \<open>Every call succeeds and leaves the server in order.\<close>

lemma exec_ok:
  assumes s: "server_ok s" and r: "0 < ls_room (ls s)"
  shows "\<exists>s'. exec op s = Some s' \<and> server_ok s'"
proof -
  obtain tss where tss: "length tss = length (outs s)" "ls.sys_ok (ls s) (zip (outs s) tss)"
    using s by (auto simp: server_ok_def)
  show ?thesis
  proof (cases op)
    case (OpConfirm now n0 n1 cs)
    from tss(2) show ?thesis
    proof (cases rule: ls.sys_confirm [where now = now and ?n0.0 = n0 and ?n1.0 = n1 and cs = cs])
      case (failed m')
      then show ?thesis using OpConfirm tss(1) by (auto simp: server_ok_def)
    next
      case (confirmed m' r ts)
      have "ls.sys_ok m' (zip (outs s @ [r]) (tss @ [ts]))" using confirmed(2) tss(1) by simp
      then have "server_ok \<lparr>ls = m', outs = outs s @ [r]\<rparr>"
        using tss(1) by (auto simp: server_ok_def intro!: exI [of _ "tss @ [ts]"])
      then show ?thesis using OpConfirm confirmed(1) by simp
    qed
  next
    case (OpCreate now d)
    obtain m' r' where "Create (ls s) now d = Some (m', r')" "ls.sys_ok m' (zip (outs s) tss)"
      using ls.sys_create [OF tss(2) r] by metis
    then show ?thesis using OpCreate tss(1) by (auto simp: server_ok_def)
  next
    case (OpRefresh now t dur)
    obtain m' r' where "Refresh (ls s) now t dur = Some (m', r')" "ls.sys_ok m' (zip (outs s) tss)"
      using ls.sys_refresh [OF tss(2)] by metis
    then show ?thesis using OpRefresh tss(1) by (auto simp: server_ok_def)
  next
    case (OpUnlock now t)
    obtain m' r' where "Unlock (ls s) now t = Some (m', r')" "ls.sys_ok m' (zip (outs s) tss)"
      using ls.sys_unlock [OF tss(2)] by metis
    then show ?thesis using OpUnlock tss(1) by (auto simp: server_ok_def)
  next
    case (OpRelease i)
    show ?thesis
    proof (cases "i < length (outs s)")
      case True
      have os: "outs s = take i (outs s) @ outs s ! i # drop (Suc i) (outs s)" using True by (rule id_take_nth_drop)
      have ts: "tss = take i tss @ tss ! i # drop (Suc i) tss" using True tss(1) by (intro id_take_nth_drop) simp
      have z: "zip (outs s) tss = zip (take i (outs s)) (take i tss)
          @ (outs s ! i, tss ! i) # zip (drop (Suc i) (outs s)) (drop (Suc i) tss)"
        by (subst os, subst ts) (use tss(1) True in simp)
      obtain m' where m': "release_fn (outs s ! i) (ls s) = Some m'"
        "ls.sys_ok m' (zip (take i (outs s)) (take i tss) @ zip (drop (Suc i) (outs s)) (drop (Suc i) tss))"
        using ls.sys_release [OF tss(2) [unfolded z]] by metis
      have "ls.sys_ok m' (zip (take i (outs s) @ drop (Suc i) (outs s)) (take i tss @ drop (Suc i) tss))"
        using m'(2) tss(1) by simp
      then have "server_ok \<lparr>ls = m', outs = take i (outs s) @ drop (Suc i) (outs s)\<rparr>"
        using tss(1) by (auto simp: server_ok_def intro!: exI [of _ "take i tss @ drop (Suc i) tss"])
      then show ?thesis using OpRelease True m'(1) by simp
    qed (use OpRelease s in simp)
  qed
qed

lemma reached_ok: "reached g s \<Longrightarrow> server_ok s"
proof (induction rule: reached.induct)
  case (reached_step s op s')
  then show ?case using exec_ok [OF reached_step.IH reached_step.hyps(2), of op] by auto
qed (rule server_ok_boot)

lemma reached_sys:
  assumes "reached g s"
  obtains tss where "length tss = length (outs s)" "ls.sys_ok (ls s) (zip (outs s) tss)"
  using reached_ok [OF assms] by (auto simp: server_ok_def)

lemma reached_consistent: "reached g s \<Longrightarrow> consistent (ls s)"
  by (erule reached_sys) (rule ls.sys_okD(1))

section \<open>Correctness of the lock system\<close>

text \<open>C1: No call of the lock system panics or loops, whatever the requests did before and
  however they interleaved, and it leaves nodes, names, reference counts, tokens and expiry
  queue consistent.\<close>

theorem lock_calls_never_panic:
  assumes "reached g s" "0 < ls_room (ls s)"
  shows "\<exists>s'. exec op s = Some s' \<and> consistent (ls s')"
  using exec_ok [OF reached_ok [OF assms(1)] assms(2), of op] reached_consistent
    reached_step [OF assms] by blast

theorem lock_calls_never_panic_witness:
  "\<exists>s'. exec (OpCreate 0 \<lparr>Root = ''/a'', Duration = 5, OwnerXML = [], ZeroDepth = False\<rparr>) (boot 1700000000) = Some s'
     \<and> consistent (ls s')"
  by (rule lock_calls_never_panic [OF reached_boot]) (simp add: ls_room_def boot_def NewMemLS_def)

text \<open>C2: In every state the server reaches, no two locks conflict: two different tokens never
  lock one resource, and no lock lies in the scope of another one of infinite depth.\<close>

theorem locks_are_exclusive:
  assumes "reached g s"
  shows "table_exclusive (view (ls s))"
  using assms by (rule reached_sys) (rule ls.sys_okD(4))

theorem locks_are_exclusive_witness: "table_exclusive (view (ls (boot 7)))"
  by (rule locks_are_exclusive [OF reached_boot])

text \<open>C3: \<^verbatim>\<open>Create\<close> grants a lock exactly when no unexpired lock conflicts with it; the new
  token is fresh, and otherwise the answer is \<^verbatim>\<open>ErrLocked\<close> and the table loses only expired locks.\<close>

theorem Create_correct:
  assumes "reached g s" "0 < ls_room (ls s)"
  shows "\<exists>m' r. Create (ls s) now d = Some (m', r)
    \<and> ((\<exists>t. r = Inr t) \<longleftrightarrow> (\<forall>t l. live now (view (ls s)) t = Some l \<longrightarrow> \<not> conflict (ldetails l) (clean_root d)))
    \<and> (case r of
         Inl e \<Rightarrow> e = ErrLocked \<and> view m' = live now (view (ls s))
       | Inr t \<Rightarrow> live now (view (ls s)) t = None
           \<and> view m' = (live now (view (ls s)))(t \<mapsto> \<lparr>ldetails = clean_root d,
               lexpiry = expires_at now (Duration d), lheld = False\<rparr>))"
proof -
  obtain tss where "ls.sys_ok (ls s) (zip (outs s) tss)" using reached_sys [OF assms(1)] by blast
  from ls.sys_create [OF this assms(2)] obtain m' r where
    "Create (ls s) now d = Some (m', r)" "spec_Create (view (ls s)) now d (view m') r" by metis
  moreover have "Duration (clean_root d) = Duration d" by (simp add: clean_root_def)
  ultimately show ?thesis
    by (intro exI [of _ m'] exI [of _ r]) (auto simp: spec_Create_def Let_def split: if_splits)
qed

theorem Create_correct_witness:
  "\<exists>m' t. Create (ls (boot 1)) 0 \<lparr>Root = ''/a'', Duration = 5, OwnerXML = [], ZeroDepth = False\<rparr> = Some (m', Inr t)"
proof -
  let ?d = "\<lparr>Root = ''/a'', Duration = 5, OwnerXML = [], ZeroDepth = False\<rparr>"
  have "0 < ls_room (ls (boot 1))" by (simp add: ls_room_def boot_def NewMemLS_def)
  from Create_correct [OF reached_boot this, of 0 ?d] obtain m' r where
    "Create (ls (boot 1)) 0 ?d = Some (m', r)"
    "(\<exists>t. r = Inr t) \<longleftrightarrow> (\<forall>t l. live 0 (view (ls (boot 1))) t = Some l \<longrightarrow> \<not> conflict (ldetails l) (clean_root ?d))"
    by blast
  moreover have "live 0 (view (ls (boot 1))) t = None" for t by (simp add: boot_def live_def)
  ultimately show ?thesis by auto
qed

text \<open>C4: \<^verbatim>\<open>Confirm\<close> succeeds exactly when, for each resource named, one of the conditions carries the
  token of an unexpired lock that is not held and covers the resource; those locks are then held
  and nothing else changes.  Otherwise it fails and no lock becomes held.\<close>

theorem Confirm_correct:
  assumes "reached g s"
  shows "\<exists>m' r. Confirm (ls s) now n0 n1 cs = Some (m', r)
    \<and> ((\<exists>f. r = Inr f) \<longleftrightarrow> (\<forall>n \<in> {n0, n1}. n \<noteq> [] \<longrightarrow>
          (\<exists>c \<in> set cs. usable (live now (view (ls s))) (slashClean n) c)))
    \<and> (case r of
         Inl e \<Rightarrow> e = ErrConfirmationFailed \<and> view m' = live now (view (ls s))
       | Inr f \<Rightarrow> (\<exists>ts. rel_ok m' f ts \<and> spec_Confirm (view (ls s)) now n0 n1 cs = (view m', Inr ts)
            \<and> held_set (view m') = held_set (view (ls s)) \<union> set (toks ts)
            \<and> set (toks ts) \<inter> held_set (view (ls s)) = {}))"
proof -
  obtain m' r r' where m': "Confirm (ls s) now n0 n1 cs = Some (m', r)"
    "spec_Confirm (view (ls s)) now n0 n1 cs = (view m', r')"
    "case r of Inl e \<Rightarrow> r' = Inl e | Inr x \<Rightarrow> (\<exists>ts. r' = Inr ts \<and> rel_ok m' x ts)"
    by (rule Confirm_refines [OF reached_consistent [OF assms], of now n0 n1 cs]) (rule that)
  have lk: "spec_lookup W n cs = None \<longleftrightarrow> \<not> (\<exists>c \<in> set cs. usable W n c)" for W n
    by (auto simp: spec_lookup_def find_None_iff)
  have g: "(\<exists>ts. r' = Inr ts) \<longleftrightarrow> (\<forall>n \<in> {n0, n1}. n \<noteq> [] \<longrightarrow>
      (\<exists>c \<in> set cs. usable (live now (view (ls s))) (slashClean n) c))"
  proof -
    let ?A = "\<lambda>n. n \<noteq> [] \<and> spec_lookup (live now (view (ls s))) (slashClean n) cs = None"
    have "(\<exists>ts. r' = Inr ts) \<longleftrightarrow> \<not> (?A n0 \<or> ?A n1)"
      using m'(2) unfolding spec_Confirm_def Let_def by (cases "?A n0 \<or> ?A n1") (auto split: if_splits)
    then show ?thesis by (simp add: lk) blast
  qed
  have f: "r' = Inl e \<Longrightarrow> e = ErrConfirmationFailed \<and> view m' = live now (view (ls s))" for e
    using m'(2) by (auto simp: spec_Confirm_def Let_def split: if_splits)
  show ?thesis
  proof (cases r)
    case (Inl e)
    then show ?thesis using m' g f by (intro exI [of _ m'] exI [of _ r]) auto
  next
    case (Inr x)
    then obtain ts where ts: "r' = Inr ts" "rel_ok m' x ts" using m'(3) by auto
    have h: "held_set (view m') = held_set (view (ls s)) \<union> set (toks ts) \<and> set (toks ts) \<inter> held_set (view (ls s)) = {}"
      using spec_Confirm_held(3,4) [OF m'(2) ts(1)] by blast
    have u: "\<forall>n \<in> {n0, n1}. n \<noteq> [] \<longrightarrow> (\<exists>c \<in> set cs. usable (live now (view (ls s))) (slashClean n) c)"
      using g ts(1) by blast
    have w: "\<exists>ts. rel_ok m' x ts \<and> spec_Confirm (view (ls s)) now n0 n1 cs = (view m', Inr ts)
        \<and> held_set (view m') = held_set (view (ls s)) \<union> set (toks ts) \<and> set (toks ts) \<inter> held_set (view (ls s)) = {}"
      using h ts m'(2) by blast
    show ?thesis
      by (intro exI [of _ m'] exI [of _ r] conjI) (use m'(1) u w Inr in \<open>auto simp del: split_paired_Ex\<close>)
  qed
qed

theorem Confirm_correct_witness:
  "\<exists>m'. Confirm (ls (boot 1)) 0 ''/a'' [] [\<lparr>Not = False, Token = ''2'', ETag = []\<rparr>] = Some (m', Inl ErrConfirmationFailed)"
proof -
  let ?cs = "[\<lparr>Not = False, Token = ''2'', ETag = []\<rparr>]"
  obtain m' r where c: "Confirm (ls (boot 1)) 0 ''/a'' [] ?cs = Some (m', r)"
    "(\<exists>f. r = Inr f) \<longleftrightarrow> (\<forall>n \<in> {''/a'', []}. n \<noteq> [] \<longrightarrow>
       (\<exists>c \<in> set ?cs. usable (live 0 (view (ls (boot 1)))) (slashClean n) c))"
    "case r of Inl e \<Rightarrow> e = ErrConfirmationFailed | Inr f \<Rightarrow> True"
    using Confirm_correct [OF reached_boot, of 1 0 "''/a''" "[]" ?cs] by (fastforce split: sum.splits)
  have "\<not> (\<exists>f. r = Inr f)" using c(2) by (simp add: usable_def live_def boot_def)
  then show ?thesis using c(1,3) by (cases r) auto
qed

text \<open>While a request holds a lock that it has confirmed, no other call changes it: it does not
  expire, and it can be neither refreshed nor unlocked nor confirmed again.\<close>

theorem held_lock_protected:
  assumes r: "reached g s" "0 < ls_room (ls s)" and l: "view (ls s) t = Some l" "lheld l"
    and e: "exec op s = Some s'" "\<forall>i. op \<noteq> OpRelease i"
  shows "view (ls s') t = Some l"
proof -
  have lv: "live now (view (ls s)) t = Some l" for now using l by (rule live_held)
  obtain tss where o: "ls.sys_ok (ls s) (zip (outs s) tss)" using reached_sys [OF r(1)] by blast
  show ?thesis
  proof (cases op)
    case (OpConfirm now n0 n1 cs)
    obtain m' r r' where m': "Confirm (ls s) now n0 n1 cs = Some (m', r)"
      "spec_Confirm (view (ls s)) now n0 n1 cs = (view m', r')"
      using Confirm_refines [OF reached_consistent [OF r(1)]] by metis
    have "view m' t = Some l"
      using spec_Confirm_keeps [OF m'(2) lv l(2)] .
    then show ?thesis using e OpConfirm m'(1) by auto
  next
    case (OpCreate now d)
    from ls.sys_create [OF o r(2)] obtain m' r where m': "Create (ls s) now d = Some (m', r)"
      "spec_Create (view (ls s)) now d (view m') r" by metis
    have "view m' t = Some l" using m'(2) lv [of now] by (auto simp: spec_Create_def Let_def split: if_splits)
    then show ?thesis using e OpCreate m'(1) by auto
  next
    case (OpRefresh now u dur)
    from ls.sys_refresh [OF o] obtain m' r where m': "Refresh (ls s) now u dur = Some (m', r)"
      "spec_Refresh (view (ls s)) now u dur = (view m', r)" by metis
    have "view m' t = Some l" by (rule spec_Refresh_keeps [OF m'(2) lv l(2)])
    then show ?thesis using e OpRefresh m'(1) by auto
  next
    case (OpUnlock now u)
    from ls.sys_unlock [OF o] obtain m' r where m': "Unlock (ls s) now u = Some (m', r)"
      "spec_Unlock (view (ls s)) now u = (view m', r)" by metis
    have "view m' t = Some l" by (rule spec_Unlock_keeps [OF m'(2) lv l(2)])
    then show ?thesis using e OpUnlock m'(1) by auto
  qed (use e in auto)
qed

definition some_lock :: LockDetails where
  "some_lock = \<lparr>Root = ''/a'', Duration = 5, OwnerXML = [], ZeroDepth = False\<rparr>"

text \<open>A state with one lock.\<close>

lemma locked_state:
  obtains m t where "reached 1 \<lparr>ls = m, outs = []\<rparr>" "ls.sys_ok m []" "2 < ls_room m"
    "view m = [t \<mapsto> \<lparr>ldetails = clean_root some_lock, lexpiry = Some 5, lheld = False\<rparr>]"
proof -
  have room: "ls_room (ls (boot 1)) = 2 ^ 64 - 2" by (simp add: ls_room_def boot_def NewMemLS_def)
  have o: "ls.sys_ok (ls (boot 1)) []" using reached_sys [OF reached_boot, of 1] by (auto simp: boot_def)
  from ls.sys_create [OF o, of 0 some_lock] obtain m1 r where m1: "Create (ls (boot 1)) 0 some_lock = Some (m1, r)"
    "ls.sys_ok m1 []" "spec_Create (view (ls (boot 1))) 0 some_lock (view m1) r" "ls_room (ls (boot 1)) \<le> Suc (ls_room m1)"
    using room by auto
  have "live 0 (view (ls (boot 1))) = Map.empty" by (simp add: boot_def live_def fun_eq_iff)
  moreover have "Duration (clean_root some_lock) = 5" by (simp add: clean_root_def some_lock_def)
  ultimately obtain t where t: "view m1 = [t \<mapsto> \<lparr>ldetails = clean_root some_lock, lexpiry = Some 5, lheld = False\<rparr>]"
    using m1(3) by (auto simp: spec_Create_def Let_def expires_at_def)
  have "reached 1 \<lparr>ls = m1, outs = []\<rparr>"
    using reached_step [OF reached_boot, of 1 "OpCreate 0 some_lock"] m1(1) room by (simp add: boot_def)
  moreover have "2 < ls_room m1" using m1(4) room by simp
  ultimately show ?thesis using that m1(2) t by blast
qed

theorem held_lock_protected_witness:
  "\<exists>s t l. reached 1 s \<and> view (ls s) t = Some l \<and> lheld l \<and> (\<forall>now s'. exec (OpUnlock now t) s = Some s' \<longrightarrow> view (ls s') t = Some l)"
proof -
  obtain m1 t where r1: "reached 1 \<lparr>ls = m1, outs = []\<rparr>" and m1: "ls.sys_ok m1 []" "2 < ls_room m1"
    and t: "view m1 = [t \<mapsto> \<lparr>ldetails = clean_root some_lock, lexpiry = Some 5, lheld = False\<rparr>]"
    by (rule locked_state)
  let ?cs = "[\<lparr>Not = False, Token = t, ETag = []\<rparr>]"
  have cov: "covers (clean_root some_lock) (slashClean ''/a'')" by (simp add: covers_def clean_root_def some_lock_def)
  obtain m2 f ts where m2: "Confirm m1 0 ''/a'' [] ?cs = Some (m2, Inr f)"
    "held_set (view m2) = held_set (view m1) \<union> set (toks ts)" "spec_Confirm (view m1) 0 ''/a'' [] ?cs = (view m2, Inr ts)"
  proof -
    obtain m2 r where c: "Confirm m1 0 ''/a'' [] ?cs = Some (m2, r)"
      "(\<exists>f. r = Inr f) \<longleftrightarrow> (\<forall>n \<in> {''/a'', []}. n \<noteq> [] \<longrightarrow> (\<exists>c \<in> set ?cs. usable (live 0 (view m1)) (slashClean n) c))"
      "case r of Inl e \<Rightarrow> True | Inr f \<Rightarrow> (\<exists>ts. spec_Confirm (view m1) 0 ''/a'' [] ?cs = (view m2, Inr ts)
         \<and> held_set (view m2) = held_set (view m1) \<union> set (toks ts))"
      using Confirm_correct [OF r1, of 0 "''/a''" "[]" ?cs] by (fastforce split: sum.splits)
    have "\<exists>f. r = Inr f" unfolding c(2) using cov by (simp add: t usable_def live_def expired_def)
    then show ?thesis using c(1,3) that by auto
  qed
  have "t \<in> set (toks ts)"
    using m2(3) cov by (auto simp: spec_Confirm_def Let_def spec_lookup_def usable_def t live_def expired_def toks_def
        split: if_splits option.splits)
  then obtain l where l: "view m2 t = Some l" "lheld l" using m2(2) by (auto simp: held_set_def)
  let ?s = "\<lparr>ls = m2, outs = [f]\<rparr>"
  have rm1: "0 < ls_room m1" using m1(2) by simp
  have r2: "reached 1 ?s" using reached_step [OF r1, of "OpConfirm 0 ''/a'' [] ?cs"] m2(1) rm1 by simp
  have "ls_room m2 = ls_room m1"
    using ls.sys_confirm [OF m1(1), of 0 "''/a''" "[]" ?cs "ls_room m2 = ls_room m1"] m2(1) by auto
  then have "\<forall>now s'. exec (OpUnlock now t) ?s = Some s' \<longrightarrow> view (ls s') t = Some l"
    using held_lock_protected [OF r2 _ _ l(2), of t "OpUnlock _ t"] l(1) rm1 by simp
  then show ?thesis using r2 l by (intro exI [of _ ?s] exI [of _ t] exI [of _ l]) simp
qed

definition locks_below :: "locktable \<Rightarrow> string \<Rightarrow> string set" where
  "locks_below V p = {t. \<exists>l. V t = Some l \<and> prefix (comps p) (comps (Root (ldetails l)))}"

lemma card_under:
  assumes c: "consistent m"
  shows "card (under m p) = card (locks_below (view m) p)" "under m p = {} \<longleftrightarrow> locks_below (view m) p = {}"
proof -
  have i: "inj_on (\<lambda>t. the (byToken m t)) (locks_below (view m) p)"
  proof (rule inj_onI)
    fix t u assume a: "t \<in> locks_below (view m) p" "u \<in> locks_below (view m) p" "the (byToken m t) = the (byToken m u)"
    then obtain b where "byToken m t = Some b" "byToken m u = Some b" by (auto simp: locks_below_def view_def)
    then show "t = u" using token_lock(2) [OF c] by metis
  qed
  have im: "under m p = (\<lambda>t. the (byToken m t)) ` locks_below (view m) p"
  proof (intro set_eqI iffI)
    fix a assume a: "a \<in> under m p"
    then have "byToken m (token (store m a)) = Some a" "prefix (comps p) (comps (root m a))"
      using lock_node(3) [OF consistentD(1) [OF c]] by (auto simp: under_def)
    then show "a \<in> (\<lambda>t. the (byToken m t)) ` locks_below (view m) p"
      by (intro image_eqI [of _ _ "token (store m a)"]) (auto simp: locks_below_def view_def root_def)
  next
    fix a assume "a \<in> (\<lambda>t. the (byToken m t)) ` locks_below (view m) p"
    then show "a \<in> under m p" by (auto simp: locks_below_def view_def under_def locks_def root_def intro: ranI)
  qed
  show "card (under m p) = card (locks_below (view m) p)" unfolding im by (rule card_image [OF i])
  show "under m p = {} \<longleftrightarrow> locks_below (view m) p = {}" unfolding im by simp
qed

text \<open>The name table does not leak: a node exists exactly for the locked resources and their
  ancestors, and its reference count is the number of locks at it or below.\<close>

theorem names_do_not_leak:
  assumes "reached g s" "clean_path p"
  shows "(byName (ls s) p = None \<longleftrightarrow> locks_below (view (ls s)) p = {})
    \<and> (\<forall>a. byName (ls s) p = Some a \<longrightarrow> refCount (store (ls s) a) = int (card (locks_below (view (ls s)) p)))"
  using countsD [OF consistentD(1) assms(2)] card_under reached_consistent [OF assms(1)] by simp

theorem names_do_not_leak_witness:
  "(byName (ls (boot 1)) ''/'' = None \<longleftrightarrow> locks_below (view (ls (boot 1))) ''/'' = {})"
  using names_do_not_leak [OF reached_boot, of "''/''" 1] clean_path_slashClean [of "[]"]
  by (simp add: slashClean_render)

text \<open>When no request holds a release function, no lock is held.\<close>

theorem idle_server_holds_no_lock:
  assumes "reached g s" "outs s = []"
  shows "held_set (view (ls s)) = {}"
proof -
  obtain tss where "ls.sys_ok (ls s) (zip (outs s) tss)" using reached_sys [OF assms(1)] by blast
  then show ?thesis using ls.sys_okD(3) assms(2) by (fastforce simp: ls.all_toks_def)
qed

theorem idle_server_holds_no_lock_witness: "held_set (view (ls (boot 5))) = {}"
  by (rule idle_server_holds_no_lock [OF reached_boot]) (simp add: boot_def)

text \<open>C5: \<^verbatim>\<open>Refresh\<close> and \<^verbatim>\<open>Unlock\<close> return on every state the server reaches and do to the table of
  locks exactly what their contract says, \<^verbatim>\<open>ErrNoSuchLock\<close> and \<^verbatim>\<open>ErrLocked\<close> included.\<close>

theorem Refresh_Unlock_refine:
  assumes "reached g s"
  shows "(\<exists>m' r. Refresh (ls s) now t dur = Some (m', r) \<and> spec_Refresh (view (ls s)) now t dur = (view m', r))
    \<and> (\<exists>m' r. Unlock (ls s) now t = Some (m', r) \<and> spec_Unlock (view (ls s)) now t = (view m', r))"
  using ls.refresh_law ls.unlock_law reached_consistent [OF assms] by blast

theorem Refresh_Unlock_refine_witness:
  "\<exists>m' r. Unlock (ls (boot 1)) 0 ''2'' = Some (m', r) \<and> spec_Unlock (view (ls (boot 1))) 0 ''2'' = (view m', r)"
  using Refresh_Unlock_refine [OF reached_boot, of 1 0 "''2''"] by blast

text \<open>\<^verbatim>\<open>collectExpiredNodes\<close> terminates and removes exactly the locks that have expired and are
  not held.\<close>

theorem collect_removes_exactly_expired:
  assumes "reached g s"
  shows "\<exists>m'. collectExpiredNodes (ls s) now = Some m' \<and> consistent m'
    \<and> (\<forall>t l. view m' t = Some l \<longleftrightarrow> view (ls s) t = Some l \<and> \<not> expired now l)"
proof -
  obtain m' where m': "collectExpiredNodes (ls s) now = Some m'" "pruned now (ls s) m'"
    using collect_pruned [OF reached_consistent [OF assms]] .
  have "live now V t = Some l \<longleftrightarrow> V t = Some l \<and> \<not> expired now l" for V t l
    by (auto simp: live_def split: option.splits)
  then show ?thesis using m' prunedD(1,2) [OF m'(2)] by auto
qed

theorem collect_removes_exactly_expired_witness:
  "\<exists>m'. collectExpiredNodes (ls (boot 1)) 3 = Some m' \<and> view m' = Map.empty"
  using collect_removes_exactly_expired [OF reached_boot, of 1 3] by (auto simp: boot_def fun_eq_iff not_Some_eq)

end
