(* ===== verification/IfHeader.thy ===== *)
theory IfHeader
  imports MemLS
begin

text \<open>
  The parser of the WebDAV \<^verbatim>\<open>If\<close> header, \<^verbatim>\<open>server/webdav/if.go\<close>.  A token type is the datatype
  \<open>tokenType\<close>: the negative runes of the source are constructors and \<open>Rune c\<close> is a token of one
  byte.  The parsers return \<^const>\<open>None\<close> where the source returns \<^verbatim>\<open>ok = false\<close>.  Each loop consumes
  at least one byte per round, which is what the termination proofs show.
\<close>

section \<open>Definitions\<close>

record ifList =
  resourceTag :: string
  conditions :: "Condition list"

record ifHeader =
  lists :: "ifList list"

datatype tokenType = errTok | eofTok | strTok | notTok | angleTok | squareTok | Rune char

definition blank :: "char \<Rightarrow> bool" where
  "blank c \<longleftrightarrow> c = CHR 0x09 \<or> c = CHR '' ''"

definition word_char :: "char \<Rightarrow> bool" where
  "word_char c \<longleftrightarrow> \<not> blank c \<and> c \<notin> set ''()<>[]''"

fun IndexByte :: "string \<Rightarrow> char \<Rightarrow> nat option" where
  "IndexByte [] c = None"
| "IndexByte (x # xs) c = (if x = c then Some 0 else map_option Suc (IndexByte xs c))"

definition delimited :: "tokenType \<Rightarrow> char \<Rightarrow> string \<Rightarrow> tokenType \<times> string \<times> string" where
  "delimited ty c s =
     (case IndexByte s c of
        None \<Rightarrow> (errTok, [], [])
      | Some j \<Rightarrow> (ty, tl (take j s), drop (Suc j) s))"

definition lex :: "string \<Rightarrow> tokenType \<times> string \<times> string" where
  "lex s0 =
     (let s = dropWhile blank s0
      in case s of
           [] \<Rightarrow> (eofTok, [], [])
         | c # rest \<Rightarrow>
             let tokenStr = takeWhile word_char s; remaining = dropWhile word_char s
             in if tokenStr \<noteq> [] then
                  (if tokenStr = ''Not'' then (notTok, [], remaining) else (strTok, tokenStr, remaining))
                else if c = CHR ''<'' then delimited angleTok CHR ''>'' s
                else if c = CHR ''['' then delimited squareTok CHR '']'' s
                else (Rune c, [], rest))"

definition parseCondition :: "string \<Rightarrow> (Condition \<times> string) option" where
  "parseCondition s =
     (let (ty, str, s) = lex s;
          neg = (ty = notTok);
          (ty, str, s) = (if ty = notTok then lex s else (ty, str, s))
      in case ty of
           strTok \<Rightarrow> Some (\<lparr>Not = neg, Token = str, ETag = []\<rparr>, s)
         | angleTok \<Rightarrow> Some (\<lparr>Not = neg, Token = str, ETag = []\<rparr>, s)
         | squareTok \<Rightarrow> Some (\<lparr>Not = neg, Token = [], ETag = str\<rparr>, s)
         | _ \<Rightarrow> None)"

lemma length_dropWhile_le: "length (dropWhile P xs) \<le> length xs"
  by (induction xs) auto

lemma IndexByte_less: "IndexByte s c = Some j \<Longrightarrow> j < length s"
  by (induction s arbitrary: j) (auto split: if_splits)

text \<open>A token that is not the end of the input takes at least one byte.\<close>

lemma lex_shorter:
  assumes "lex s0 = (ty, str, r)" "ty \<noteq> eofTok" "ty \<noteq> errTok"
  shows "length r < length s0"
proof (cases "dropWhile blank s0")
  case Nil
  then show ?thesis using assms unfolding lex_def Let_def Nil by simp
next
  case (Cons c rest)
  let ?s = "dropWhile blank s0"
  have le: "length ?s \<le> length s0" by (rule length_dropWhile_le)
  have "length (dropWhile word_char ?s) < length ?s" if "takeWhile word_char ?s \<noteq> []"
  proof -
    have "length (takeWhile word_char ?s) + length (dropWhile word_char ?s) = length ?s"
      by (metis length_append takeWhile_dropWhile_id)
    then show ?thesis using that by (metis add_gr_0 length_greater_0_conv less_add_same_cancel2)
  qed
  then have "length r < length ?s"
    using assms Cons by (auto simp: lex_def Let_def delimited_def split: if_splits option.splits)
  then show ?thesis using le by simp
qed

lemma lex_le: "lex s0 = (ty, str, r) \<Longrightarrow> length r \<le> length s0"
proof (cases "ty = eofTok \<or> ty = errTok")
  case True
  assume a: "lex s0 = (ty, str, r)"
  then have "r = []"
    using True by (auto simp: lex_def Let_def delimited_def split: if_splits option.splits list.splits)
  then show ?thesis by simp
qed (auto dest: lex_shorter)

lemma parseCondition_shorter:
  assumes "parseCondition s = Some (c, r)"
  shows "length r < length s"
proof -
  obtain ty str s1 where l1: "lex s = (ty, str, s1)" using prod_cases3 by blast
  show ?thesis
  proof (cases "ty = notTok")
    case True
    obtain ty2 str2 s2 where l2: "lex s1 = (ty2, str2, s2)" using prod_cases3 by blast
    have "r = s2" using assms l1 l2 True by (auto simp: parseCondition_def split: tokenType.splits)
    moreover have "length s1 < length s" using lex_shorter [OF l1] True by simp
    ultimately show ?thesis using lex_le [OF l2] by simp
  next
    case False
    then have "r = s1" "ty \<noteq> eofTok" "ty \<noteq> errTok"
      using assms l1 by (auto simp: parseCondition_def split: tokenType.splits)
    then show ?thesis using lex_shorter [OF l1] by simp
  qed
qed

function parseList_loop :: "Condition list \<Rightarrow> string \<Rightarrow> (ifList \<times> string) option" where
  "parseList_loop cs s =
     (let (ty, _, remaining) = lex s
      in if ty = Rune CHR '')'' then
           (if cs = [] then None else Some (\<lparr>resourceTag = [], conditions = cs\<rparr>, remaining))
         else case parseCondition s of
                None \<Rightarrow> None
              | Some (c, remaining) \<Rightarrow> parseList_loop (cs @ [c]) remaining)"
  by pat_completeness auto
termination
  by (relation "measure (\<lambda>(_, s). length s)") (auto dest: parseCondition_shorter)

declare parseList_loop.simps [simp del]

definition parseList :: "string \<Rightarrow> (ifList \<times> string) option" where
  "parseList s = (let (ty, _, s) = lex s in if ty \<noteq> Rune CHR ''('' then None else parseList_loop [] s)"

lemma parseList_loop_shorter: "parseList_loop cs s = Some (l, r) \<Longrightarrow> length r < length s"
proof (induction cs s rule: parseList_loop.induct)
  case (1 cs s)
  obtain ty str r1 where l1: "lex s = (ty, str, r1)" using prod_cases3 by blast
  show ?case
  proof (cases "ty = Rune CHR '')''")
    case True
    then have "r = r1" using 1(2) l1 by (subst (asm) parseList_loop.simps) (simp split: if_splits)
    then show ?thesis using lex_shorter [OF l1] True by simp
  next
    case False
    then obtain c r2 where c: "parseCondition s = Some (c, r2)" "parseList_loop (cs @ [c]) r2 = Some (l, r)"
      using 1(2) l1 by (subst (asm) parseList_loop.simps) (auto split: option.splits)
    have "length r < length r2" by (rule 1(1) [OF l1 [symmetric] refl refl False c(1) refl c(2)])
    then show ?thesis using parseCondition_shorter [OF c(1)] by simp
  qed
qed

lemma parseList_shorter:
  assumes "parseList s = Some (l, r)"
  shows "length r < length s"
proof -
  obtain ty str r1 where l1: "lex s = (ty, str, r1)" using prod_cases3 by blast
  then show ?thesis
    using assms lex_le [OF l1] parseList_loop_shorter [of "[]" r1 l r] by (simp add: parseList_def split: if_splits)
qed

function parseNoTagLists :: "ifList list \<Rightarrow> string \<Rightarrow> ifHeader option" where
  "parseNoTagLists ls s =
     (case parseList s of
        None \<Rightarrow> None
      | Some (l, remaining) \<Rightarrow>
          if remaining = [] then Some \<lparr>lists = ls @ [l]\<rparr> else parseNoTagLists (ls @ [l]) remaining)"
  by pat_completeness auto
termination
  by (relation "measure (\<lambda>(_, s). length s)") (auto dest: parseList_shorter)

function parseTaggedLists :: "string \<Rightarrow> nat \<Rightarrow> bool \<Rightarrow> ifList list \<Rightarrow> string \<Rightarrow> ifHeader option" where
  "parseTaggedLists tag n first ls s =
     (let (ty, tokenStr, remaining) = lex s
      in if ty = angleTok then
           (if \<not> first \<and> n = 0 then None else parseTaggedLists tokenStr 0 False ls remaining)
         else if ty = Rune CHR ''('' then
           (case parseList s of
              None \<Rightarrow> None
            | Some (l, remaining) \<Rightarrow>
                let ls = ls @ [l\<lparr>resourceTag := tag\<rparr>]
                in if remaining = [] then Some \<lparr>lists = ls\<rparr> else parseTaggedLists tag (Suc n) False ls remaining)
         else None)"
  by pat_completeness auto
termination
proof (relation "measure (\<lambda>(_, _, _, _, s). length s)", goal_cases)
  case (2 tag n first ls s x y ty tokenStr remaining)
  then show ?case using lex_shorter [of s] by (metis in_measure case_prod_conv tokenType.distinct)
qed (auto dest: parseList_shorter)

declare parseNoTagLists.simps [simp del] parseTaggedLists.simps [simp del]

definition parseIfHeader :: "string \<Rightarrow> ifHeader option" where
  "parseIfHeader httpHeader =
     (let s = TrimSpace httpHeader; (ty, _, _) = lex s
      in if ty = Rune CHR ''('' then parseNoTagLists [] s
         else if ty = angleTok then parseTaggedLists [] 0 True [] s
         else None)"

section \<open>Printing\<close>

text \<open>The header a client writes for a list of alternatives, all of them tagged or none.\<close>

definition print_condition :: "Condition \<Rightarrow> string" where
  "print_condition c = (if Not c then ''Not '' else []) @
     (if ETag c \<noteq> [] then ''['' @ ETag c @ '']'' else ''<'' @ Token c @ ''>'')"

definition print_list :: "ifList \<Rightarrow> string" where
  "print_list l = (if resourceTag l = [] then [] else ''<'' @ resourceTag l @ ''>'')
     @ ''('' @ concat (map print_condition (conditions l)) @ '')''"

definition print_header :: "ifHeader \<Rightarrow> string" where
  "print_header h = concat (map print_list (lists h))"

definition condition_ok :: "Condition \<Rightarrow> bool" where
  "condition_ok c \<longleftrightarrow> (ETag c = [] \<or> Token c = []) \<and> CHR '']'' \<notin> set (ETag c) \<and> CHR ''>'' \<notin> set (Token c)"

definition list_ok :: "ifList \<Rightarrow> bool" where
  "list_ok l \<longleftrightarrow> conditions l \<noteq> [] \<and> list_all condition_ok (conditions l) \<and> CHR ''>'' \<notin> set (resourceTag l)"

definition header_ok :: "ifHeader \<Rightarrow> bool" where
  "header_ok h \<longleftrightarrow> lists h \<noteq> [] \<and> list_all list_ok (lists h)
     \<and> ((\<forall>l \<in> set (lists h). resourceTag l = []) \<or> (\<forall>l \<in> set (lists h). resourceTag l \<noteq> []))"

lemma IndexByte_append: "c \<notin> set xs \<Longrightarrow> IndexByte (xs @ c # ys) c = Some (length xs)"
  by (induction xs) auto

lemma lex_angle: "CHR ''>'' \<notin> set t \<Longrightarrow> lex (''<'' @ t @ ''>'' @ r) = (angleTok, t, r)"
  using IndexByte_append [of "CHR ''>''" "CHR ''<'' # t" r]
  by (simp add: lex_def blank_def word_char_def delimited_def)

lemma lex_square: "CHR '']'' \<notin> set t \<Longrightarrow> lex (''['' @ t @ '']'' @ r) = (squareTok, t, r)"
  using IndexByte_append [of "CHR '']''" "CHR ''['' # t" r]
  by (simp add: lex_def blank_def word_char_def delimited_def)

lemma lex_paren:
  "lex (''('' @ r) = (Rune CHR ''('', [], r)" "lex ('')'' @ r) = (Rune CHR '')'', [], r)"
  by (simp_all add: lex_def blank_def word_char_def)

lemma lex_Not: "lex (''Not '' @ r) = (notTok, [], CHR '' '' # r)"
  by (simp add: lex_def blank_def word_char_def)

lemma lex_blank [simp]: "lex (CHR '' '' # r) = lex r"
  by (simp add: lex_def blank_def)

lemma parseCondition_print:
  assumes "condition_ok c"
  shows "parseCondition (print_condition c @ r) = Some (c, r)"
    "\<exists>ty str r'. lex (print_condition c @ r) = (ty, str, r') \<and> ty \<noteq> Rune CHR '')''"
proof -
  let ?b = "if ETag c \<noteq> [] then ''['' @ ETag c @ '']'' else ''<'' @ Token c @ ''>''"
  have b: "lex (?b @ r) = (if ETag c \<noteq> [] then squareTok else angleTok, if ETag c \<noteq> [] then ETag c else Token c, r)"
    using assms lex_square [of "ETag c" r] lex_angle [of "Token c" r] by (simp add: condition_ok_def)
  have p: "print_condition c @ r = (if Not c then ''Not '' @ ?b @ r else ?b @ r)" by (simp add: print_condition_def)
  have l: "lex (print_condition c @ r) = (if Not c then (notTok, [], CHR '' '' # ?b @ r) else lex (?b @ r))"
    unfolding p using lex_Not by simp
  show "\<exists>ty str r'. lex (print_condition c @ r) = (ty, str, r') \<and> ty \<noteq> Rune CHR '')''"
    unfolding l b by auto
  have "c = \<lparr>Not = Not c, Token = if ETag c \<noteq> [] then [] else Token c, ETag = ETag c\<rparr>"
    using assms by (auto simp: condition_ok_def)
  then show "parseCondition (print_condition c @ r) = Some (c, r)"
    unfolding parseCondition_def l using b by (cases "Not c"; cases "ETag c = []") simp_all
qed

lemma parseList_loop_print:
  assumes "list_all condition_ok ds" "cs @ ds \<noteq> []"
  shows "parseList_loop cs (concat (map print_condition ds) @ '')'' @ r) = Some (\<lparr>resourceTag = [], conditions = cs @ ds\<rparr>, r)"
  using assms
proof (induction ds arbitrary: cs)
  case Nil
  then show ?case using lex_paren(2) [of r] by (subst parseList_loop.simps) simp
next
  case (Cons d ds)
  let ?s = "concat (map print_condition ds) @ '')'' @ r"
  obtain ty str r' where l: "lex (print_condition d @ ?s) = (ty, str, r')" "ty \<noteq> Rune CHR '')''"
    using parseCondition_print(2) [of d ?s] Cons.prems by auto
  have p: "parseCondition (print_condition d @ ?s) = Some (d, ?s)"
    using parseCondition_print(1) [of d ?s] Cons.prems by simp
  have "parseList_loop (cs @ [d]) ?s = Some (\<lparr>resourceTag = [], conditions = (cs @ [d]) @ ds\<rparr>, r)"
    using Cons by simp
  then show ?case using l p by (subst parseList_loop.simps) simp
qed

lemma parseList_print:
  assumes "list_ok l"
  shows "parseList (''('' @ concat (map print_condition (conditions l)) @ '')'' @ r) = Some (l\<lparr>resourceTag := []\<rparr>, r)"
  using parseList_loop_print [of "conditions l" "[]" r] assms
    lex_paren(1) [of "concat (map print_condition (conditions l)) @ '')'' @ r"]
  by (simp add: parseList_def list_ok_def)

lemma print_list_ne [simp]: "print_list l \<noteq> []"
  by (simp add: print_list_def)

lemma parseNoTagLists_print:
  assumes "list_all list_ok ls" "\<forall>l \<in> set ls. resourceTag l = []" "ls \<noteq> []"
  shows "parseNoTagLists ks (concat (map print_list ls)) = Some \<lparr>lists = ks @ ls\<rparr>"
  using assms
proof (induction ls arbitrary: ks)
  case (Cons l ls)
  let ?r = "concat (map print_list ls)"
  have l: "l\<lparr>resourceTag := []\<rparr> = l" using Cons.prems(2) by simp
  have p: "parseList (print_list l @ ?r) = Some (l, ?r)"
    using parseList_print [of l ?r] Cons.prems l by (simp add: print_list_def)
  show ?case
  proof (cases "ls = []")
    case True
    then show ?thesis using p by (subst parseNoTagLists.simps) simp
  next
    case False
    then have "?r \<noteq> []" by (cases ls) auto
    then show ?thesis using p Cons False by (subst parseNoTagLists.simps) simp
  qed
qed simp

lemma parseTaggedLists_print:
  assumes "list_all list_ok ls" "\<forall>l \<in> set ls. resourceTag l \<noteq> []" "ls \<noteq> []" "first \<or> n \<noteq> 0"
  shows "parseTaggedLists tag n first ks (concat (map print_list ls)) = Some \<lparr>lists = ks @ ls\<rparr>"
  using assms
proof (induction ls arbitrary: ks tag n first)
  case (Cons l ls)
  let ?r = "concat (map print_list ls)"
  let ?b = "''('' @ concat (map print_condition (conditions l)) @ '')'' @ ?r"
  have a: "lex (print_list l @ ?r) = (angleTok, resourceTag l, ?b)"
    using lex_angle [of "resourceTag l" ?b] Cons.prems by (simp add: print_list_def list_ok_def)
  have b: "lex ?b = (Rune CHR ''('', [], concat (map print_condition (conditions l)) @ '')'' @ ?r)"
    by (rule lex_paren(1))
  have p: "parseList ?b = Some (l\<lparr>resourceTag := []\<rparr>, ?r)" using parseList_print Cons.prems by simp
  have step: "parseTaggedLists tag n first ks (print_list l @ ?r) = parseTaggedLists (resourceTag l) 0 False ks ?b"
    using a Cons.prems(4) by (subst parseTaggedLists.simps) auto
  have step2: "parseTaggedLists (resourceTag l) 0 False ks ?b =
      (if ?r = [] then Some \<lparr>lists = ks @ [l]\<rparr> else parseTaggedLists (resourceTag l) 1 False (ks @ [l]) ?r)"
    by (subst parseTaggedLists.simps) (use b p in simp)
  show ?case
  proof (cases "ls = []")
    case True
    then show ?thesis using step step2 by simp
  next
    case False
    then have "?r \<noteq> []" by (cases ls) auto
    then show ?thesis using step step2 Cons False by simp
  qed
qed simp

lemma print_list_ends: "\<exists>c cs. print_list l = c # cs @ '')'' \<and> (c = CHR ''<'' \<or> c = CHR ''('')"
  by (auto simp: print_list_def)

lemma print_header_trim:
  assumes "lists h \<noteq> []"
  shows "TrimSpace (print_header h) = print_header h"
proof -
  obtain l ls where h: "lists h = l # ls" using assms by (cases "lists h") auto
  obtain k ks where k: "lists h = ks @ [k]" using assms by (cases "lists h" rule: rev_cases) auto
  obtain c cs where c: "print_header h = c # cs" "c = CHR ''<'' \<or> c = CHR ''(''"
    using print_list_ends [of l] by (auto simp: print_header_def h)
  obtain ds where d: "print_header h = ds @ '')''"
    using print_list_ends [of k] by (auto simp: print_header_def k)
  show ?thesis
    unfolding TrimSpace_def using c(2) by (intro trim_by_id [OF c(1) d]) (auto simp: is_space_def)
qed

section \<open>Correctness of the parser\<close>

text \<open>The header that states a list of alternatives, each a non-empty list of conditions with an
  optional resource tag, is parsed back to exactly these alternatives.\<close>

theorem parseIfHeader_print:
  assumes "header_ok h"
  shows "parseIfHeader (print_header h) = Some h"
proof -
  obtain l ls where h: "lists h = l # ls" using assms by (cases "lists h") (auto simp: header_ok_def)
  have t: "TrimSpace (print_header h) = print_header h" using print_header_trim h by simp
  let ?r = "concat (map print_condition (conditions l)) @ '')'' @ concat (map print_list ls)"
  have lok: "list_all list_ok (lists h)" using assms by (simp add: header_ok_def)
  show ?thesis
  proof (cases "resourceTag l = []")
    case True
    then have u: "\<forall>k \<in> set (lists h). resourceTag k = []" using assms h by (auto simp: header_ok_def)
    have "lex (print_header h) = (Rune CHR ''('', [], ?r)"
      using lex_paren(1) [of ?r] True by (simp add: print_header_def h print_list_def)
    then show ?thesis
      using parseNoTagLists_print [OF lok u, of "[]"] h t by (simp add: parseIfHeader_def print_header_def)
  next
    case False
    then have u: "\<forall>k \<in> set (lists h). resourceTag k \<noteq> []" using assms h by (auto simp: header_ok_def)
    have "lex (print_header h) = (angleTok, resourceTag l, ''('' @ ?r)"
      using lex_angle [of "resourceTag l" "''('' @ ?r"] False lok by (simp add: print_header_def h print_list_def list_ok_def)
    then show ?thesis
      using parseTaggedLists_print [OF lok u, of True 0 "[]" "[]"] h t by (simp add: parseIfHeader_def print_header_def)
  qed
qed

theorem parseIfHeader_print_witness:
  "parseIfHeader ''<http://h/a>(<7>Not [x])'' =
     Some \<lparr>lists = [\<lparr>resourceTag = ''http://h/a'', conditions =
       [\<lparr>Not = False, Token = ''7'', ETag = []\<rparr>, \<lparr>Not = True, Token = [], ETag = ''x''\<rparr>]\<rparr>]\<rparr>"
  using parseIfHeader_print [of "\<lparr>lists = [\<lparr>resourceTag = ''http://h/a'', conditions =
       [\<lparr>Not = False, Token = ''7'', ETag = []\<rparr>, \<lparr>Not = True, Token = [], ETag = ''x''\<rparr>]\<rparr>]\<rparr>"]
  by (simp add: header_ok_def list_ok_def condition_ok_def print_header_def print_list_def print_condition_def)

lemma parseList_loop_ne: "parseList_loop cs s = Some (l, r) \<Longrightarrow> conditions l \<noteq> []"
proof (induction cs s rule: parseList_loop.induct)
  case (1 cs s)
  then show ?case
    by (subst (asm) (2) parseList_loop.simps) (auto split: prod.splits if_splits option.splits)
qed

lemma parseList_ne: "parseList s = Some (l, r) \<Longrightarrow> conditions l \<noteq> []"
  using parseList_loop_ne [of "[]"] by (auto simp: parseList_def split: prod.splits if_splits)

definition nonempty_lists :: "ifList list \<Rightarrow> bool" where
  "nonempty_lists ls \<longleftrightarrow> (\<forall>l \<in> set ls. conditions l \<noteq> [])"

lemma parseNoTagLists_ne:
  "\<lbrakk>parseNoTagLists ls s = Some h; nonempty_lists ls\<rbrakk> \<Longrightarrow> lists h \<noteq> [] \<and> nonempty_lists (lists h)"
proof (induction ls s rule: parseNoTagLists.induct)
  case (1 ls s)
  obtain l r where l: "parseList s = Some (l, r)"
    using 1(2) by (subst (asm) parseNoTagLists.simps) (auto split: option.splits)
  have n: "nonempty_lists (ls @ [l])" using 1(3) parseList_ne [OF l] by (auto simp: nonempty_lists_def)
  show ?case
  proof (cases "r = []")
    case True
    then have "h = \<lparr>lists = ls @ [l]\<rparr>" using 1(2) l by (subst (asm) parseNoTagLists.simps) simp
    then show ?thesis using n by simp
  next
    case False
    then have "parseNoTagLists (ls @ [l]) r = Some h" using 1(2) l by (subst (asm) parseNoTagLists.simps) simp
    then show ?thesis using 1(1) [OF l refl False _ n] by simp
  qed
qed

lemma parseTaggedLists_ne:
  "\<lbrakk>parseTaggedLists tag n first ls s = Some h; nonempty_lists ls\<rbrakk> \<Longrightarrow> lists h \<noteq> [] \<and> nonempty_lists (lists h)"
proof (induction tag n first ls s rule: parseTaggedLists.induct)
  case (1 tag n first ls s)
  obtain ty str r where x: "lex s = (ty, str, r)" using prod_cases3 by blast
  show ?case
  proof (cases "ty = angleTok")
    case True
    then have "\<not> (\<not> first \<and> n = 0)" "parseTaggedLists str 0 False ls r = Some h"
      using 1(3) x by (subst (asm) parseTaggedLists.simps, simp split: if_splits)+
    then show ?thesis using 1(1) [OF x [symmetric] refl refl True _ _ 1(4)] by simp
  next
    case na: False
    then obtain l r2 where l: "parseList s = Some (l, r2)" "ty = Rune CHR ''(''"
      using 1(3) x by (subst (asm) parseTaggedLists.simps) (auto split: option.splits if_splits)
    let ?ls = "ls @ [l\<lparr>resourceTag := tag\<rparr>]"
    have n: "nonempty_lists ?ls" using 1(4) parseList_ne [OF l(1)] by (auto simp: nonempty_lists_def)
    show ?thesis
    proof (cases "r2 = []")
      case True
      then have "h = \<lparr>lists = ?ls\<rparr>" using 1(3) l x na by (subst (asm) parseTaggedLists.simps) simp
      then show ?thesis using n by simp
    next
      case False
      then have "parseTaggedLists tag (Suc n) False ?ls r2 = Some h"
        using 1(3) l x na by (subst (asm) parseTaggedLists.simps) simp
      then show ?thesis using 1(2) [OF x [symmetric] refl refl na l(2,1) refl refl False _ n] by simp
    qed
  qed
qed

text \<open>Whatever the header, a successful parse gives at least one list, and no list is empty, so
  the handlers may take the first condition of the first list.\<close>

theorem parseIfHeader_nonempty:
  assumes "parseIfHeader s = Some h"
  shows "lists h \<noteq> [] \<and> (\<forall>l \<in> set (lists h). conditions l \<noteq> [])"
  using assms parseNoTagLists_ne [of "[]"] parseTaggedLists_ne [of "[]" 0 True "[]"]
  by (auto simp: parseIfHeader_def nonempty_lists_def Let_def split: prod.splits if_splits)

theorem parseIfHeader_nonempty_witness:
  "lists \<lparr>lists = [\<lparr>resourceTag = [], conditions = [\<lparr>Not = False, Token = ''7'', ETag = []\<rparr>]\<rparr>]\<rparr> \<noteq> []"
proof -
  let ?h = "\<lparr>lists = [\<lparr>resourceTag = [], conditions = [\<lparr>Not = False, Token = ''7'', ETag = []\<rparr>]\<rparr>]\<rparr>"
  have "parseIfHeader ''(<7>)'' = Some ?h" by code_simp
  then show ?thesis using parseIfHeader_nonempty by blast
qed

end
