(* ===== verification/Perm.thy ===== *)
theory Perm
  imports PathUtil
begin

text \<open>
  Users, roles and permissions: \<^verbatim>\<open>internal/model/user.go\<close>, \<^verbatim>\<open>roles.go\<close>, \<^verbatim>\<open>role.go\<close>, \<^verbatim>\<open>meta.go\<close>,
  \<^verbatim>\<open>server/common/role_perm.go\<close>, \<^verbatim>\<open>check.go\<close> and \<^verbatim>\<open>server/webdav/path.go\<close>.  A permission is an
  \<^verbatim>\<open>int32\<close> bit mask.  \<^verbatim>\<open>op.GetRole\<close> (and \<^verbatim>\<open>model.FetchRole\<close>, which is set to it) reads the
  database through a cache; it is the argument \<open>getRole\<close>, with \<^const>\<open>None\<close> for its errors.  The
  regular expressions of the third-party package \<^verbatim>\<open>regexp2\<close> are the argument \<open>regex\<close>:
  \<^const>\<open>None\<close> where \<^verbatim>\<open>MustCompile\<close> panics, otherwise the match function.
\<close>

section \<open>Data\<close>

type_synonym int32 = "32 word"

record PermissionEntry =
  Path :: string
  Permission :: int32

record Role =
  RoleID :: nat
  RoleName :: string
  Default :: bool
  PermissionScopes :: "PermissionEntry list"

record User =
  UserID :: nat
  Username :: string
  PwdHash :: string
  PwdTS :: int
  Salt :: string
  BasePath :: string
  Roles :: "int list"
  RolesDetail :: "Role list"
  Disabled :: bool
  UserPermission :: int32
  OtpSecret :: string

record Meta =
  MetaID :: nat
  MetaPath :: string
  MetaPassword :: string
  PSub :: bool
  MetaWrite :: bool
  WSub :: bool
  Hide :: string
  HSub :: bool
  Readme :: string
  RSub :: bool
  MetaHeader :: string
  HeaderSub :: bool

type_synonym get_role = "64 word \<Rightarrow> Role option"

definition GENERAL :: int where "GENERAL = 0"

definition GUEST :: int where "GUEST = 1"

definition ADMIN :: int where "ADMIN = 2"

definition PermSeeHides :: nat where "PermSeeHides = 0"

definition PermAccessWithoutPassword :: nat where "PermAccessWithoutPassword = 1"

definition PermWrite :: nat where "PermWrite = 3"

definition PermRename :: nat where "PermRename = 4"

definition PermMove :: nat where "PermMove = 5"

definition PermCopy :: nat where "PermCopy = 6"

definition PermRemove :: nat where "PermRemove = 7"

definition PermWebdavRead :: nat where "PermWebdavRead = 8"

definition PermWebdavManage :: nat where "PermWebdavManage = 9"

definition PermPathLimit :: nat where "PermPathLimit = 14"

definition PermMCPManage :: nat where "PermMCPManage = 16"

section \<open>Users\<close>

fun Roles_Contains :: "int list \<Rightarrow> int \<Rightarrow> bool" where
  "Roles_Contains [] role = False"
| "Roles_Contains (v # r) role = (if v = role then True else Roles_Contains r role)"

definition IsGuest :: "User \<Rightarrow> bool" where
  "IsGuest u = Roles_Contains (Roles u) GUEST"

definition IsAdmin :: "User \<Rightarrow> bool" where
  "IsAdmin u = Roles_Contains (Roles u) ADMIN"

text \<open>The hash function \<^verbatim>\<open>utils.HashData(SHA256, _)\<close> is the argument \<open>sha\<close>.\<close>

definition StaticHashSalt :: string where
  "StaticHashSalt = ''https://github.com/alist-org/alist''"

definition StaticHash :: "(string \<Rightarrow> string) \<Rightarrow> string \<Rightarrow> string" where
  "StaticHash sha password = sha (password @ ''-'' @ StaticHashSalt)"

definition HashPwd :: "(string \<Rightarrow> string) \<Rightarrow> string \<Rightarrow> string \<Rightarrow> string" where
  "HashPwd sha static salt = sha (static @ ''-'' @ salt)"

definition TwoHashPwd :: "(string \<Rightarrow> string) \<Rightarrow> string \<Rightarrow> string \<Rightarrow> string" where
  "TwoHashPwd sha password salt = HashPwd sha (StaticHash sha password) salt"

definition ValidatePwdStaticHash :: "(string \<Rightarrow> string) \<Rightarrow> User \<Rightarrow> string \<Rightarrow> err option" where
  "ValidatePwdStaticHash sha u pwdStaticHash =
     (if pwdStaticHash = [] then Some EmptyPassword
      else if PwdHash u \<noteq> HashPwd sha pwdStaticHash (Salt u) then Some WrongPassword
      else None)"

definition ValidateRawPassword :: "(string \<Rightarrow> string) \<Rightarrow> User \<Rightarrow> string \<Rightarrow> err option" where
  "ValidateRawPassword sha u password = ValidatePwdStaticHash sha u (StaticHash sha password)"

definition SetPassword :: "(string \<Rightarrow> string) \<Rightarrow> string \<Rightarrow> int \<Rightarrow> User \<Rightarrow> string \<Rightarrow> User" where
  "SetPassword sha salt now u pwd = u\<lparr>Salt := salt, PwdHash := TwoHashPwd sha pwd salt, PwdTS := now\<rparr>"

definition perm_bit :: "int32 \<Rightarrow> nat \<Rightarrow> bool" where
  "perm_bit p n = (and (signed_drop_bit n p) 1 = 1)"

definition CheckPathLimit :: "User \<Rightarrow> bool" where
  "CheckPathLimit u = perm_bit (UserPermission u) 14"

fun base_paths_entries :: "PermissionEntry list \<Rightarrow> string list \<Rightarrow> string list" where
  "base_paths_entries [] acc = acc"
| "base_paths_entries (entry # es) acc =
     base_paths_entries es (if Path entry = [] then acc
                            else if Path entry \<in> set acc then acc else acc @ [Path entry])"

fun base_paths_roles :: "get_role \<Rightarrow> int list \<Rightarrow> string list \<Rightarrow> string list" where
  "base_paths_roles getRole [] acc = acc"
| "base_paths_roles getRole (rid # rs) acc =
     base_paths_roles getRole rs
       (case getRole (of_int rid) of None \<Rightarrow> acc | Some role \<Rightarrow> base_paths_entries (PermissionScopes role) acc)"

definition GetAllBasePathsFromRoles :: "get_role \<Rightarrow> User \<Rightarrow> string list" where
  "GetAllBasePathsFromRoles getRole u = base_paths_roles getRole (Roles u) []"

definition JoinPath :: "get_role \<Rightarrow> User \<Rightarrow> string \<Rightarrow> err + string" where
  "JoinPath getRole u reqPath =
     (if reqPath = ''/'' then Inr (FixAndCleanPath (BasePath u))
      else case JoinBasePath (BasePath u) reqPath of
             Inl e \<Rightarrow> Inl e
           | Inr path \<Rightarrow>
               if path \<noteq> ''/'' \<and> CheckPathLimit u
                  \<and> \<not> list_ex (\<lambda>base. IsSubPath base path) (GetAllBasePathsFromRoles getRole u)
               then Inl PermissionDenied else Inr path)"

definition ResolvePath :: "get_role \<Rightarrow> User \<Rightarrow> string \<Rightarrow> err + string" where
  "ResolvePath getRole u raw =
     (let cleaned = FixAndCleanPath raw; basePath = FixAndCleanPath (BasePath u);
          cleaned = (if basePath \<noteq> ''/'' \<and> IsSubPath basePath cleaned
                     then (let c = TrimPrefix cleaned basePath in if c = [] then ''/'' else c)
                     else cleaned)
      in JoinPath getRole u cleaned)"

section \<open>Permissions by role\<close>

definition HasPermission :: "int32 \<Rightarrow> nat \<Rightarrow> bool" where
  "HasPermission perm b = (and (signed_drop_bit b perm) 1 = 1)"

definition at_root :: "User \<Rightarrow> string \<Rightarrow> bool" where
  "at_root u reqPath \<longleftrightarrow> reqPath = ''/'' \<or> PathEqual reqPath (BasePath u)"

fun merge_entries :: "bool \<Rightarrow> string \<Rightarrow> PermissionEntry list \<Rightarrow> int32 \<Rightarrow> int32" where
  "merge_entries atRoot reqPath [] perm = perm"
| "merge_entries atRoot reqPath (entry # es) perm =
     merge_entries atRoot reqPath es
       (if atRoot \<or> IsSubPath (Path entry) reqPath then or perm (Permission entry) else perm)"

fun merge_roles :: "get_role \<Rightarrow> bool \<Rightarrow> string \<Rightarrow> int list \<Rightarrow> int32 \<Rightarrow> int32" where
  "merge_roles getRole atRoot reqPath [] perm = perm"
| "merge_roles getRole atRoot reqPath (rid # rs) perm =
     merge_roles getRole atRoot reqPath rs
       (case getRole (of_int rid) of
          None \<Rightarrow> perm
        | Some role \<Rightarrow> merge_entries atRoot reqPath (PermissionScopes role) perm)"

definition MergeRolePermissions :: "get_role \<Rightarrow> User option \<Rightarrow> string \<Rightarrow> int32" where
  "MergeRolePermissions getRole u reqPath =
     (case u of None \<Rightarrow> 0 | Some u \<Rightarrow> merge_roles getRole (at_root u reqPath) reqPath (Roles u) 0)"

text \<open>Some permission entry of some role of the user.\<close>

definition any_entry :: "get_role \<Rightarrow> int list \<Rightarrow> (PermissionEntry \<Rightarrow> bool) \<Rightarrow> bool" where
  "any_entry getRole rs P =
     list_ex (\<lambda>rid. case getRole (of_int rid) of None \<Rightarrow> False | Some role \<Rightarrow> list_ex P (PermissionScopes role)) rs"

definition CanReadPathByRole :: "get_role \<Rightarrow> User option \<Rightarrow> string \<Rightarrow> bool" where
  "CanReadPathByRole getRole u reqPath =
     (case u of
        None \<Rightarrow> False
      | Some u \<Rightarrow>
          if at_root u reqPath then Roles u \<noteq> []
          else any_entry getRole (Roles u) (\<lambda>entry. PathEqual (Path entry) reqPath
                 \<or> IsSubPath (Path entry) reqPath \<or> IsSubPath reqPath (Path entry)))"

definition HasChildPermission :: "get_role \<Rightarrow> User option \<Rightarrow> string \<Rightarrow> nat \<Rightarrow> bool" where
  "HasChildPermission getRole u reqPath b =
     (case u of
        None \<Rightarrow> False
      | Some u \<Rightarrow> any_entry getRole (Roles u) (\<lambda>entry. IsSubPath reqPath (Path entry) \<and> HasPermission (Permission entry) b))"

definition CheckPathLimitWithRoles :: "get_role \<Rightarrow> User option \<Rightarrow> string \<Rightarrow> bool" where
  "CheckPathLimitWithRoles getRole u reqPath =
     (let perm = MergeRolePermissions getRole u reqPath
      in if HasPermission perm PermPathLimit then CanReadPathByRole getRole u reqPath else True)"

definition CanWrite :: "Meta option \<Rightarrow> string \<Rightarrow> bool" where
  "CanWrite meta path =
     (case meta of None \<Rightarrow> False | Some m \<Rightarrow> if \<not> MetaWrite m then False else WSub m \<or> MetaPath m = path)"

definition IsApply :: "string \<Rightarrow> string \<Rightarrow> bool \<Rightarrow> bool" where
  "IsApply metaPath reqPath applySub =
     (if PathEqual metaPath reqPath then True else IsSubPath metaPath reqPath \<and> applySub)"

type_synonym regexps = "string \<Rightarrow> (string \<Rightarrow> bool) option"

fun hidden_by :: "regexps \<Rightarrow> string \<Rightarrow> string list \<Rightarrow> bool go" where
  "hidden_by regex name [] = Some False"
| "hidden_by regex name (hide # hs) =
     (case regex hide of None \<Rightarrow> panic | Some f \<Rightarrow> if f name then Some True else hidden_by regex name hs)"

definition CanAccessWithRoles ::
  "get_role \<Rightarrow> regexps \<Rightarrow> User option \<Rightarrow> Meta option \<Rightarrow> string \<Rightarrow> string \<Rightarrow> bool go" where
  "CanAccessWithRoles getRole regex u meta reqPath password =
     (if \<not> CanReadPathByRole getRole u reqPath then Some False
      else
        let perm = MergeRolePermissions getRole u reqPath
        in do {
             hid \<leftarrow> (case meta of
                       None \<Rightarrow> Some False
                     | Some m \<Rightarrow>
                         if \<not> HasPermission perm PermSeeHides \<and> Hide m \<noteq> []
                            \<and> IsApply (MetaPath m) (path_Dir reqPath) (HSub m)
                         then hidden_by regex (path_Base reqPath) (Split CHR 0x0A (Hide m))
                         else Some False);
             if hid then Some False
             else if HasPermission perm PermAccessWithoutPassword then Some True
             else case meta of
                    None \<Rightarrow> Some True
                  | Some m \<Rightarrow>
                      if MetaPassword m = [] then Some True
                      else if \<not> PathEqual (MetaPath m) reqPath \<and> \<not> PSub m then Some True
                      else Some (MetaPassword m = password)
           })"

definition CanAccess ::
  "get_role \<Rightarrow> regexps \<Rightarrow> User option \<Rightarrow> Meta option \<Rightarrow> string \<Rightarrow> string \<Rightarrow> bool go" where
  "CanAccess getRole regex user meta reqPath password = CanAccessWithRoles getRole regex user meta reqPath password"

section \<open>Library\<close>

lemma HasPermission_iff: "HasPermission perm b \<longleftrightarrow> bit perm (min b 31)"
proof -
  have "and (signed_drop_bit b perm) 1 = 1 \<longleftrightarrow> bit (signed_drop_bit b perm) 0"
    by (simp add: and_one_eq bit_0 odd_iff_mod_2_eq_one)
  then show ?thesis by (simp add: HasPermission_def bit_signed_drop_bit_iff min_def)
qed

lemma HasPermission_or [simp]: "HasPermission (or p q) b \<longleftrightarrow> HasPermission p b \<or> HasPermission q b"
  by (simp add: HasPermission_iff bit_or_iff)

lemma HasPermission_0 [simp]: "\<not> HasPermission 0 b"
  by (simp add: HasPermission_iff)

lemma merge_entries_iff:
  "HasPermission (merge_entries atRoot reqPath es perm) b \<longleftrightarrow>
   HasPermission perm b \<or> (\<exists>e \<in> set es. (atRoot \<or> IsSubPath (Path e) reqPath) \<and> HasPermission (Permission e) b)"
  by (induction es arbitrary: perm) auto

lemma any_entry_iff:
  "any_entry getRole rs P \<longleftrightarrow>
   (\<exists>rid \<in> set rs. \<exists>role. getRole (of_int rid) = Some role \<and> (\<exists>e \<in> set (PermissionScopes role). P e))"
proof -
  have "(case x of None \<Rightarrow> False | Some r \<Rightarrow> Q r) \<longleftrightarrow> (\<exists>r. x = Some r \<and> Q r)" for x :: "Role option" and Q
    by (cases x) auto
  then show ?thesis by (simp add: any_entry_def list_ex_iff)
qed

lemma any_entry_Cons [simp]:
  "any_entry getRole (rid # rs) P \<longleftrightarrow>
   (case getRole (of_int rid) of None \<Rightarrow> False | Some role \<Rightarrow> list_ex P (PermissionScopes role)) \<or> any_entry getRole rs P"
  by (simp add: any_entry_def)

lemma any_entry_Nil [simp]: "\<not> any_entry getRole [] P"
  by (simp add: any_entry_def)

lemma merge_roles_iff:
  "HasPermission (merge_roles getRole atRoot reqPath rs perm) b \<longleftrightarrow>
   HasPermission perm b \<or> any_entry getRole rs (\<lambda>e. (atRoot \<or> IsSubPath (Path e) reqPath) \<and> HasPermission (Permission e) b)"
  by (induction rs arbitrary: perm) (auto simp: merge_entries_iff list_ex_iff split: option.splits)

lemma set_base_paths_entries:
  "set (base_paths_entries es acc) = set acc \<union> {Path e | e. e \<in> set es \<and> Path e \<noteq> []}"
  by (induction es arbitrary: acc) auto

lemma set_base_paths_roles:
  "p \<in> set (base_paths_roles getRole rs acc) \<longleftrightarrow>
   p \<in> set acc \<or> p \<noteq> [] \<and> any_entry getRole rs (\<lambda>e. Path e = p)"
  by (induction rs arbitrary: acc)
    (auto simp: list_ex_iff set_base_paths_entries split: option.splits)

lemma any_entry_mono: "\<lbrakk>any_entry getRole rs P; \<And>e. P e \<Longrightarrow> Q e\<rbrakk> \<Longrightarrow> any_entry getRole rs Q"
  by (auto simp: any_entry_iff)

lemma Merge_iff:
  "HasPermission (MergeRolePermissions getRole (Some u) p) b \<longleftrightarrow>
   any_entry getRole (Roles u) (\<lambda>e. (at_root u p \<or> IsSubPath (Path e) p) \<and> HasPermission (Permission e) b)"
  by (simp add: MergeRolePermissions_def merge_roles_iff)

lemma JoinPath_comps:
  assumes "JoinPath getRole u r = Inr p"
  shows "\<exists>ds. list_all fix_comp ds \<and> p = render (fcomps (BasePath u) @ ds)"
proof (cases "r = ''/''")
  case True
  then show ?thesis using assms by (intro exI [of _ "[]"]) (simp add: JoinPath_def FixAndCleanPath_render)
next
  case False
  then have "JoinBasePath (BasePath u) r = Inr p"
    using assms by (auto simp: JoinPath_def split: sum.splits if_splits)
  then show ?thesis by (intro exI [of _ "fcomps r"]) (simp add: JoinBasePath_comps)
qed

lemma prefixes_comparable: "\<lbrakk>prefix xs zs; prefix ys zs\<rbrakk> \<Longrightarrow> prefix xs ys \<or> prefix ys xs"
  by (rule prefix_same_cases) auto

section \<open>Correctness of the permission checks\<close>

text \<open>The merged permission mask of a user on a path has a bit exactly when an entry of one of the
  user's roles has that bit and applies: every entry at the root or at the user's base path, and
  elsewhere the entries whose path is the requested path or an ancestor of it.\<close>

theorem MergeRolePermissions_grants:
  "HasPermission (MergeRolePermissions getRole (Some u) p) b \<longleftrightarrow>
   (\<exists>rid \<in> set (Roles u). \<exists>role. getRole (of_int rid) = Some role \<and>
     (\<exists>e \<in> set (PermissionScopes role).
        (p = ''/'' \<or> PathEqual p (BasePath u) \<or> IsSubPath (Path e) p) \<and> HasPermission (Permission e) b))"
  by (simp add: Merge_iff any_entry_iff at_root_def disj_assoc)

text \<open>A permission granted on a path below the base path is granted on everything below it.\<close>

theorem permission_inherited:
  assumes "\<not> at_root u p" "IsSubPath p q" "HasPermission (MergeRolePermissions getRole (Some u) p) b"
  shows "HasPermission (MergeRolePermissions getRole (Some u) q) b"
  using assms unfolding Merge_iff by (auto elim!: any_entry_mono intro: IsSubPath_trans)

theorem permission_inherited_witness:
  "HasPermission (MergeRolePermissions
     (\<lambda>i. if i = 1 then Some \<lparr>RoleID = 1, RoleName = ''guest'', Default = False,
        PermissionScopes = [\<lparr>Path = ''/a'', Permission = 8\<rparr>]\<rparr> else None)
     (Some \<lparr>UserID = 1, Username = ''g'', PwdHash = [], PwdTS = 0, Salt = [], BasePath = ''/'', Roles = [1],
        RolesDetail = [], Disabled = False, UserPermission = 0, OtpSecret = []\<rparr>) ''/a/b'') PermWrite"
  by (rule permission_inherited [of _ "''/a''"]; code_simp)


definition guest_of :: "string \<Rightarrow> User" where
  "guest_of b = \<lparr>UserID = 1, Username = ''g'', PwdHash = [], PwdTS = 0, Salt = [], BasePath = b, Roles = [1],
     RolesDetail = [], Disabled = False, UserPermission = 0x4000, OtpSecret = []\<rparr>"

definition one_role :: "string \<Rightarrow> int32 \<Rightarrow> get_role" where
  "one_role p perm = (\<lambda>i. if i = 1 then Some \<lparr>RoleID = 1, RoleName = ''guest'', Default = False,
     PermissionScopes = [\<lparr>Path = p, Permission = perm\<rparr>]\<rparr> else None)"


lemma TrimPrefix_render:
  assumes "list_all valid_comp (b @ ds)" "b \<noteq> []"
  shows "(let c = TrimPrefix (render (b @ ds)) (render b) in if c = [] then ''/'' else c) = render ds"
proof (cases "ds = []")
  case False
  have "render (b @ ds) = render b @ render ds"
    using assms(2) False by (simp add: render_def Join_append)
  then show ?thesis using False by (simp add: TrimPrefix_def HasPrefix_def render_def)
qed (simp add: TrimPrefix_def HasPrefix_def)

lemma fcomps_path_Join:
  "fcomps (path_Join (FixAndCleanPath p) (FixAndCleanPath q)) = fcomps p @ fcomps q"
  unfolding FixAndCleanPath_render by (simp add: path_Join_render)

lemma ResolvePath_JoinPath: "\<exists>c. ResolvePath getRole u raw = JoinPath getRole u c"
  unfolding ResolvePath_def Let_def by blast

lemma ResolvePath_sub:
  assumes "fcomps raw = fcomps (BasePath u) @ ds" "fcomps (BasePath u) \<noteq> []"
  shows "ResolvePath getRole u raw = JoinPath getRole u (render ds)"
proof -
  let ?b = "fcomps (BasePath u)"
  have v: "list_all valid_comp (?b @ ds)" using fcomps_valid [of raw] assms(1) by simp
  have s: "IsSubPath (FixAndCleanPath (BasePath u)) (FixAndCleanPath raw)"
    unfolding IsSubPath_comps by (simp add: assms(1))
  have "FixAndCleanPath (BasePath u) \<noteq> ''/''" using FixAndCleanPath_root assms(2) by simp
  then show ?thesis
    using s TrimPrefix_render [OF v assms(2)] unfolding ResolvePath_def FixAndCleanPath_render assms(1)
    by (simp add: Let_def)
qed

text \<open>WebDAV resolves every request to a path below the user's base path, and a request path that
  already contains the base path resolves as the path relative to it does.\<close>

theorem ResolvePath_confined_and_relative:
  "(\<forall>p. ResolvePath getRole u raw = Inr p \<longrightarrow> IsSubPath (BasePath u) p)
   \<and> (\<not> IsSubPath (BasePath u) raw \<longrightarrow>
        ResolvePath getRole u (path_Join (FixAndCleanPath (BasePath u)) (FixAndCleanPath raw))
        = ResolvePath getRole u raw)"
proof (intro conjI allI impI)
  fix p assume "ResolvePath getRole u raw = Inr p"
  then obtain c where "JoinPath getRole u c = Inr p" using ResolvePath_JoinPath by metis
  from JoinPath_comps [OF this] show "IsSubPath (BasePath u) p" by (auto simp: IsSubPath_comps)
next
  assume n: "\<not> IsSubPath (BasePath u) raw"
  then have b: "fcomps (BasePath u) \<noteq> []" by (auto simp: IsSubPath_comps)
  have "ResolvePath getRole u raw = JoinPath getRole u (FixAndCleanPath raw)"
    using n by (simp add: ResolvePath_def Let_def)
  then show "ResolvePath getRole u (path_Join (FixAndCleanPath (BasePath u)) (FixAndCleanPath raw))
      = ResolvePath getRole u raw"
    using ResolvePath_sub [OF fcomps_path_Join b, of getRole] by (simp add: FixAndCleanPath_render)
qed

theorem ResolvePath_confined_and_relative_witness:
  "ResolvePath (one_role ''/'' 0) (guest_of ''/home'') ''/home/x'' = Inr ''/home/x''
   \<and> ResolvePath (one_role ''/'' 0) (guest_of ''/home'') ''/x'' = Inr ''/home/x''"
proof -
  have "\<not> IsSubPath (BasePath (guest_of ''/home'')) ''/x''" by code_simp
  moreover have "path_Join (FixAndCleanPath (BasePath (guest_of ''/home''))) (FixAndCleanPath ''/x'') = ''/home/x''"
    by code_simp
  ultimately have "ResolvePath (one_role ''/'' 0) (guest_of ''/home'') ''/home/x''
      = ResolvePath (one_role ''/'' 0) (guest_of ''/home'') ''/x''"
    using ResolvePath_confined_and_relative [of "one_role ''/'' 0" "guest_of ''/home''" "''/x''"] by simp
  moreover have "ResolvePath (one_role ''/'' 0) (guest_of ''/home'') ''/x'' = Inr ''/home/x''" by code_simp
  ultimately show ?thesis by simp
qed

text \<open>Navigation: when a path below the base path is readable, so is every ancestor of it.\<close>

theorem readable_ancestors:
  assumes "CanReadPathByRole getRole (Some u) q" "\<not> at_root u q" "IsSubPath p q"
  shows "CanReadPathByRole getRole (Some u) p"
proof -
  let ?P = "\<lambda>p e. PathEqual (Path e) p \<or> IsSubPath (Path e) p \<or> IsSubPath p (Path e)"
  have q: "any_entry getRole (Roles u) (?P q)" using assms(1,2) by (simp add: CanReadPathByRole_def)
  have "?P p e" if "?P q e" for e
    using that assms(3) prefixes_comparable [of "fcomps (Path e)" "fcomps q" "fcomps p"]
    unfolding IsSubPath_comps PathEqual_comps by (metis prefix_order.trans)
  then have "any_entry getRole (Roles u) (?P p)" by (rule any_entry_mono [OF q])
  moreover have "Roles u \<noteq> []" using q by (auto simp: any_entry_iff)
  ultimately show ?thesis by (simp add: CanReadPathByRole_def)
qed

theorem readable_ancestors_witness:
  "CanReadPathByRole (one_role ''/home/x/y'' 8) (Some (guest_of ''/'')) ''/home''"
  by (rule readable_ancestors [of _ _ "''/home/x''"]; code_simp)

text \<open>Access to a path protected by a password, for a user without the permission to skip it, is
  granted only with that password; and nothing that a hide pattern matches is granted to a user
  who may not see hidden files.\<close>

theorem CanAccess_guards:
  assumes "CanAccessWithRoles getRole regex (Some u) (Some m) p password = Some True"
  shows "CanReadPathByRole getRole (Some u) p
    \<and> (MetaPassword m \<noteq> [] \<and> (PathEqual (MetaPath m) p \<or> PSub m)
        \<and> \<not> HasPermission (MergeRolePermissions getRole (Some u) p) PermAccessWithoutPassword
        \<longrightarrow> password = MetaPassword m)
    \<and> (Hide m \<noteq> [] \<and> IsApply (MetaPath m) (path_Dir p) (HSub m)
        \<and> \<not> HasPermission (MergeRolePermissions getRole (Some u) p) PermSeeHides
        \<longrightarrow> (\<forall>h \<in> set (Split CHR 0x0A (Hide m)). \<exists>f. regex h = Some f \<and> \<not> f (path_Base p)))"
proof -
  have h: "hidden_by regex name hs = Some False \<Longrightarrow> \<forall>h \<in> set hs. \<exists>f. regex h = Some f \<and> \<not> f name" for name hs
    by (induction hs) (auto split: option.splits if_splits)
  show ?thesis
    using assms h [of "path_Base p" "Split CHR 0x0A (Hide m)"]
    by (auto simp: CanAccessWithRoles_def Let_def bind_eq_Some_conv split: if_splits)
qed

definition pw_meta :: "string \<Rightarrow> Meta" where
  "pw_meta p = \<lparr>MetaID = 1, MetaPath = p, MetaPassword = ''pw'', PSub = True, MetaWrite = False, WSub = False,
     Hide = [], HSub = False, Readme = [], RSub = False, MetaHeader = [], HeaderSub = False\<rparr>"

theorem CanAccess_guards_witness:
  "CanAccessWithRoles (one_role ''/'' 0) (\<lambda>_. Some (\<lambda>_. False)) (Some (guest_of ''/''))
     (Some (pw_meta ''/a''))
     ''/a/b'' ''pw'' = Some True \<and> CanReadPathByRole (one_role ''/'' 0) (Some (guest_of ''/'')) ''/a/b''"
proof -
  have a: "CanAccessWithRoles (one_role ''/'' 0) (\<lambda>_. Some (\<lambda>_. False)) (Some (guest_of ''/''))
     (Some (pw_meta ''/a''))
     ''/a/b'' ''pw'' = Some True" by code_simp
  then show ?thesis using CanAccess_guards [OF a] by simp
qed

text \<open>A password that was set is accepted, whatever the salt (a SHA-256 digest is never empty).\<close>

theorem SetPassword_validates:
  assumes "\<And>s. sha s \<noteq> []"
  shows "ValidateRawPassword sha (SetPassword sha salt now u pwd) pwd = None"
  using assms by (simp add: ValidateRawPassword_def ValidatePwdStaticHash_def SetPassword_def TwoHashPwd_def StaticHash_def)

theorem SetPassword_validates_witness:
  "ValidateRawPassword (\<lambda>s. CHR ''h'' # s) (SetPassword (\<lambda>s. CHR ''h'' # s) ''salt'' 5 (guest_of ''/'') ''pw'') ''pw'' = None"
  by (rule SetPassword_validates) simp

end
