(* ===== verification/WebdavHandler.thy ===== *)
theory WebdavHandler
  imports LockSystem IfHeader Perm
begin

text \<open>
  The WebDAV request handlers, \<^verbatim>\<open>server/webdav/webdav.go\<close> and the file operations of
  \<^verbatim>\<open>file.go\<close>.  A request runs on the lock system and on a file system behind the operations of
  \<^verbatim>\<open>internal/fs\<close>, which are the record \<open>FS\<close>; what the XML decoder and \<^verbatim>\<open>url.Parse\<close> make of the
  request are arguments.  \<open>clock i\<close> is the time that the \<open>i\<close>-th reading of \<^verbatim>\<open>time.Now\<close> gives.
  A handler returns the new state, the status and the error; a panic is \<^const>\<open>None\<close>.
\<close>

section \<open>Requests and the file system\<close>

datatype wd_err = Ls ls_err | Wd string | Fs err

record Request =
  Method :: string
  URLPath :: string
  ReqHost :: string
  Header :: "string \<Rightarrow> string"
  ContentLength :: int
  LockBody :: "(int \<times> wd_err) + string option"
  PatchBody :: "(int \<times> wd_err) + string"

record FileInfo =
  FileName :: string
  FileSize :: int
  IsDir :: bool

record 'fs FS =
  fsGet :: "'fs \<Rightarrow> string \<Rightarrow> err + FileInfo"
  fsRemove :: "'fs \<Rightarrow> string \<Rightarrow> 'fs \<times> err option"
  fsMakeDir :: "'fs \<Rightarrow> string \<Rightarrow> 'fs \<times> err option"
  fsRename :: "'fs \<Rightarrow> string \<Rightarrow> string \<Rightarrow> 'fs \<times> err option"
  fsMove :: "'fs \<Rightarrow> string \<Rightarrow> string \<Rightarrow> 'fs \<times> err option"
  fsCopy :: "'fs \<Rightarrow> string \<Rightarrow> string \<Rightarrow> 'fs \<times> err option"
  fsPutDirectly :: "'fs \<Rightarrow> string \<Rightarrow> FileInfo \<Rightarrow> 'fs \<times> err option"
  fsPatch :: "'fs \<Rightarrow> string \<Rightarrow> string \<Rightarrow> 'fs \<times> err option"
  fsETag :: "'fs \<Rightarrow> FileInfo \<Rightarrow> err + string"
  osIsNotExist :: "err \<Rightarrow> bool"

record 'fs site =
  lsys :: memLS
  files :: 'fs

record Handler =
  Prefix :: string
  urlParse :: "string \<Rightarrow> (string \<times> string) option"
  clock :: "nat \<Rightarrow> int"

type_synonym 'fs reply = "('fs site \<times> int \<times> wd_err option) go"

section \<open>Paths, locks and headers\<close>

definition stripPrefix :: "Handler \<Rightarrow> string \<Rightarrow> (int \<times> wd_err) + string" where
  "stripPrefix h p =
     (if Prefix h = [] then Inr p
      else let r = TrimPrefix p (Prefix h)
           in if length r < length p then Inr r else Inl (404, Wd ''webdav: prefix mismatch''))"

definition infiniteTimeout :: int where "infiniteTimeout = -1"

definition infiniteDepth :: int where "infiniteDepth = -1"

definition invalidDepth :: int where "invalidDepth = -2"

definition parseDepth :: "string \<Rightarrow> int" where
  "parseDepth s = (if s = ''0'' then 0 else if s = ''1'' then 1 else if s = ''infinity'' then infiniteDepth
                   else invalidDepth)"

definition errInvalidTimeout :: wd_err where "errInvalidTimeout = Wd ''webdav: invalid timeout''"

text \<open>A duration is in nanoseconds; \<^verbatim>\<open>1<<32-1\<close> seconds fit in 64 bits.\<close>

definition parseTimeout :: "string \<Rightarrow> wd_err + int" where
  "parseTimeout s =
     (if s = [] then Inr infiniteTimeout
      else let s = (case IndexByte s CHR '','' of None \<Rightarrow> s | Some i \<Rightarrow> take i s);
               s = TrimSpace s
           in if s = ''Infinite'' then Inr infiniteTimeout
              else if \<not> HasPrefix s ''Second-'' then Inl errInvalidTimeout
              else let s = drop 7 s
                   in if s = [] \<or> \<not> is_digit (s ! 0) then Inl errInvalidTimeout
                      else case ParseInt s of
                             None \<Rightarrow> Inl errInvalidTimeout
                           | Some n \<Rightarrow> if 2 ^ 32 - 1 < n then Inl errInvalidTimeout else Inr (n * 1000000000))"

definition lock :: "int \<Rightarrow> string \<Rightarrow> memLS \<Rightarrow> (memLS \<times> ((int \<times> wd_err) + string)) go" where
  "lock now name m =
     do {
       (m, r) \<leftarrow> Create m now \<lparr>Root = name, Duration = infiniteTimeout, OwnerXML = [], ZeroDepth = True\<rparr>;
       (case r of
          Inl e \<Rightarrow> if e = ErrLocked then Some (m, Inl (423, Ls e)) else Some (m, Inl (500, Ls e))
        | Inr tok \<Rightarrow> Some (m, Inr tok))
     }"

text \<open>The release functions: the one that unlocks temporary locks, and the one of \<^verbatim>\<open>Confirm\<close>.\<close>

datatype rel = TempLocks int string string | Confirmed release

definition unlock_temp :: "int \<Rightarrow> string \<Rightarrow> memLS \<Rightarrow> memLS go" where
  "unlock_temp now tok m =
     (if tok \<noteq> [] then do { (m, _) \<leftarrow> Unlock m now tok; Some m } else Some m)"

fun run_release :: "rel \<Rightarrow> memLS \<Rightarrow> memLS go" where
  "run_release (TempLocks now srcToken dstToken) m =
     do { m \<leftarrow> unlock_temp now dstToken m; unlock_temp now srcToken m }"
| "run_release (Confirmed r) m = release_fn r m"

fun confirm_lists ::
  "Handler \<Rightarrow> Request \<Rightarrow> string \<Rightarrow> string \<Rightarrow> nat \<Rightarrow> ifList list \<Rightarrow> memLS \<Rightarrow> (memLS \<times> ((int \<times> wd_err) + rel)) go" where
  "confirm_lists h r src dst i [] m = Some (m, Inl (412, Ls ErrLocked))"
| "confirm_lists h r src dst i (l # rest) m =
     (let lsrc = (if resourceTag l = [] then Inr (Some src)
                  else case urlParse h (resourceTag l) of
                         None \<Rightarrow> Inr None
                       | Some (uhost, upath) \<Rightarrow>
                           if uhost \<noteq> ReqHost r then Inr None
                           else case stripPrefix h upath of Inl e \<Rightarrow> Inl e | Inr p \<Rightarrow> Inr (Some p))
      in case lsrc of
           Inl e \<Rightarrow> Some (m, Inl e)
         | Inr None \<Rightarrow> confirm_lists h r src dst i rest m
         | Inr (Some lsrc) \<Rightarrow>
             do {
               (m, res) \<leftarrow> Confirm m (clock h i) lsrc dst (conditions l);
               (case res of
                  Inl e \<Rightarrow> if e = ErrConfirmationFailed then confirm_lists h r src dst (Suc i) rest m
                           else Some (m, Inl (500, Ls e))
                | Inr f \<Rightarrow> Some (m, Inr (Confirmed f)))
             })"

definition temp_locks ::
  "int \<Rightarrow> string \<Rightarrow> string \<Rightarrow> memLS \<Rightarrow> (memLS \<times> ((int \<times> wd_err) + rel)) go" where
  "temp_locks now src dst m =
     do {
       (m, a) \<leftarrow> (if src \<noteq> [] then lock now src m else Some (m, Inr []));
       (case a of
          Inl e \<Rightarrow> Some (m, Inl e)
        | Inr srcToken \<Rightarrow>
            do {
              (m, b) \<leftarrow> (if dst \<noteq> [] then lock now dst m else Some (m, Inr []));
              (case b of
                 Inl e \<Rightarrow> do { m \<leftarrow> unlock_temp now srcToken m; Some (m, Inl e) }
               | Inr dstToken \<Rightarrow> Some (m, Inr (TempLocks now srcToken dstToken)))
            })
     }"

definition confirmLocks ::
  "Handler \<Rightarrow> Request \<Rightarrow> string \<Rightarrow> string \<Rightarrow> memLS \<Rightarrow> (memLS \<times> ((int \<times> wd_err) + rel)) go" where
  "confirmLocks h r src dst m =
     (let hdr = Header r ''If''
      in if hdr = [] then temp_locks (clock h 0) src dst m
         else case parseIfHeader hdr of
                None \<Rightarrow> Some (m, Inl (400, Wd ''webdav: invalid If header''))
              | Some ih \<Rightarrow> confirm_lists h r src dst 0 (lists ih) m)"

section \<open>Handlers\<close>

text \<open>
  The frame every writing handler shares: confirm the locks or answer with the failure, run the
  rest of the handler, and call the release function on the way out (\<^verbatim>\<open>defer release()\<close>).
\<close>

definition guarded ::
  "Handler \<Rightarrow> Request \<Rightarrow> string \<Rightarrow> string \<Rightarrow> ('fs \<Rightarrow> 'fs \<times> int \<times> wd_err option) \<Rightarrow> 'fs site \<Rightarrow> 'fs reply" where
  "guarded h r src dst body s =
     do {
       (m, res) \<leftarrow> confirmLocks h r src dst (lsys s);
       (case res of
          Inl (status, e) \<Rightarrow> Some (s\<lparr>lsys := m\<rparr>, status, Some e)
        | Inr rel \<Rightarrow>
            let (f, status, e) = body (files s)
            in do { m \<leftarrow> run_release rel m; Some (\<lparr>lsys = m, files = f\<rparr>, status, e) })
     }"

definition with_path ::
  "Handler \<Rightarrow> Request \<Rightarrow> (string \<Rightarrow> 'fs site \<Rightarrow> 'fs reply) \<Rightarrow> 'fs site \<Rightarrow> 'fs reply" where
  "with_path h r k s =
     (case stripPrefix h (URLPath r) of Inl (status, e) \<Rightarrow> Some (s, status, Some e) | Inr reqPath \<Rightarrow> k reqPath s)"

definition delete_body ::
  "'fs FS \<Rightarrow> get_role \<Rightarrow> User \<Rightarrow> string \<Rightarrow> 'fs \<Rightarrow> 'fs \<times> int \<times> wd_err option" where
  "delete_body fs getRole user reqPath f =
     (case ResolvePath getRole user reqPath of
        Inl e \<Rightarrow> (f, 403, Some (Fs e))
      | Inr p \<Rightarrow>
          (case fsGet fs f p of
             Inl e \<Rightarrow> (f, if IsObjectNotFound e then 404 else 405, Some (Fs e))
           | Inr _ \<Rightarrow>
               (case fsRemove fs f p of
                  (f, Some e) \<Rightarrow> (f, 405, Some (Fs e))
                | (f, None) \<Rightarrow> (f, 204, None))))"

definition handleDelete :: "'fs FS \<Rightarrow> get_role \<Rightarrow> User \<Rightarrow> Handler \<Rightarrow> Request \<Rightarrow> 'fs site \<Rightarrow> 'fs reply" where
  "handleDelete fs getRole user h r =
     with_path h r (\<lambda>reqPath. guarded h r reqPath [] (delete_body fs getRole user reqPath))"

definition put_body ::
  "'fs FS \<Rightarrow> get_role \<Rightarrow> User \<Rightarrow> Request \<Rightarrow> string \<Rightarrow> 'fs \<Rightarrow> 'fs \<times> int \<times> wd_err option" where
  "put_body fs getRole user r reqPath f =
     (case ResolvePath getRole user reqPath of
        Inl e \<Rightarrow> (f, 403, Some (Fs e))
      | Inr p \<Rightarrow>
          let obj = \<lparr>FileName = path_Base p, FileSize = ContentLength r, IsDir = False\<rparr>
          in (case fsPutDirectly fs f (path_Dir p) obj of
                (f, Some e) \<Rightarrow> (f, if IsNotFoundError e then 404 else 405, Some (Fs e))
              | (f, None) \<Rightarrow>
                  let fi = (case fsGet fs f p of Inl _ \<Rightarrow> obj | Inr fi \<Rightarrow> fi)
                  in (case fsETag fs f fi of
                        Inl e \<Rightarrow> (f, 500, Some (Fs e))
                      | Inr _ \<Rightarrow> (f, 201, None))))"

definition handlePut :: "'fs FS \<Rightarrow> get_role \<Rightarrow> User \<Rightarrow> Handler \<Rightarrow> Request \<Rightarrow> 'fs site \<Rightarrow> 'fs reply" where
  "handlePut fs getRole user h r =
     with_path h r (\<lambda>reqPath s. if reqPath = [] then Some (s, 405, None)
       else guarded h r reqPath [] (put_body fs getRole user r reqPath) s)"

definition mkcol_body ::
  "'fs FS \<Rightarrow> get_role \<Rightarrow> User \<Rightarrow> Request \<Rightarrow> string \<Rightarrow> 'fs \<Rightarrow> 'fs \<times> int \<times> wd_err option" where
  "mkcol_body fs getRole user r reqPath f =
     (case ResolvePath getRole user reqPath of
        Inl e \<Rightarrow> (f, 403, Some (Fs e))
      | Inr p \<Rightarrow>
          if ContentLength r > 0 then (f, 415, None)
          else (case fsGet fs f p of
                  Inr _ \<Rightarrow> (f, 405, None)
                | Inl _ \<Rightarrow>
                    (case fsGet fs f (path_Dir p) of
                       Inl e \<Rightarrow> (f, if IsObjectNotFound e then 409 else 405, Some (Fs e))
                     | Inr _ \<Rightarrow>
                         (case fsMakeDir fs f p of
                            (f, Some e) \<Rightarrow> (f, if osIsNotExist fs e then 409 else 405, Some (Fs e))
                          | (f, None) \<Rightarrow> (f, 201, None)))))"

definition handleMkcol :: "'fs FS \<Rightarrow> get_role \<Rightarrow> User \<Rightarrow> Handler \<Rightarrow> Request \<Rightarrow> 'fs site \<Rightarrow> 'fs reply" where
  "handleMkcol fs getRole user h r =
     with_path h r (\<lambda>reqPath. guarded h r reqPath [] (mkcol_body fs getRole user r reqPath))"

definition proppatch_body ::
  "'fs FS \<Rightarrow> get_role \<Rightarrow> User \<Rightarrow> Request \<Rightarrow> string \<Rightarrow> 'fs \<Rightarrow> 'fs \<times> int \<times> wd_err option" where
  "proppatch_body fs getRole user r reqPath f =
     (case ResolvePath getRole user reqPath of
        Inl e \<Rightarrow> (f, 403, Some (Fs e))
      | Inr p \<Rightarrow>
          (case fsGet fs f p of
             Inl e \<Rightarrow> (f, if IsObjectNotFound e then 404 else 405, Some (Fs e))
           | Inr _ \<Rightarrow>
               (case PatchBody r of
                  Inl (status, e) \<Rightarrow> (f, status, Some e)
                | Inr patches \<Rightarrow>
                    (case fsPatch fs f p patches of
                       (f, Some e) \<Rightarrow> (f, 500, Some (Fs e))
                     | (f, None) \<Rightarrow> (f, 0, None)))))"

definition handleProppatch :: "'fs FS \<Rightarrow> get_role \<Rightarrow> User \<Rightarrow> Handler \<Rightarrow> Request \<Rightarrow> 'fs site \<Rightarrow> 'fs reply" where
  "handleProppatch fs getRole user h r =
     with_path h r (\<lambda>reqPath. guarded h r reqPath [] (proppatch_body fs getRole user r reqPath))"

definition moveFiles ::
  "'fs FS \<Rightarrow> get_role \<Rightarrow> User \<Rightarrow> string \<Rightarrow> string \<Rightarrow> 'fs \<Rightarrow> 'fs \<times> int \<times> wd_err option" where
  "moveFiles fs getRole user src dst f =
     (let srcDir = path_Dir src; dstDir = path_Dir dst; srcName = path_Base src; dstName = path_Base dst;
          perm = MergeRolePermissions getRole (Some user) src
      in if srcDir \<noteq> dstDir \<and> \<not> HasPermission perm PermMove then (f, 403, None)
         else if srcName \<noteq> dstName \<and> \<not> HasPermission perm PermRename then (f, 403, None)
         else if srcDir = dstDir then
           (case fsRename fs f src dstName of
              (f, Some e) \<Rightarrow> (f, 500, Some (Fs e)) | (f, None) \<Rightarrow> (f, 201, None))
         else
           (case fsMove fs f src dstDir of
              (f, Some e) \<Rightarrow> (f, 500, Some (Fs e))
            | (f, None) \<Rightarrow>
                if srcName \<noteq> dstName then
                  (case fsRename fs f (path_Join dstDir srcName) dstName of
                     (f, Some e) \<Rightarrow> (f, 500, Some (Fs e)) | (f, None) \<Rightarrow> (f, 201, None))
                else (f, 201, None)))"

definition copyFiles :: "'fs FS \<Rightarrow> string \<Rightarrow> string \<Rightarrow> 'fs \<Rightarrow> 'fs \<times> int \<times> wd_err option" where
  "copyFiles fs src dst f =
     (case fsCopy fs f src (path_Dir dst) of
        (f, Some e) \<Rightarrow> (f, 500, Some (Fs e)) | (f, None) \<Rightarrow> (f, 201, None))"

definition errInvalidDestination :: wd_err where
  "errInvalidDestination = Wd ''webdav: invalid destination''"

definition errInvalidDepth :: wd_err where "errInvalidDepth = Wd ''webdav: invalid depth''"

definition handleCopyMove :: "'fs FS \<Rightarrow> get_role \<Rightarrow> User \<Rightarrow> Handler \<Rightarrow> Request \<Rightarrow> 'fs site \<Rightarrow> 'fs reply" where
  "handleCopyMove fs getRole user h r s =
     (let hdr = Header r ''Destination''
      in if hdr = [] then Some (s, 400, Some errInvalidDestination)
         else case urlParse h hdr of
           None \<Rightarrow> Some (s, 400, Some errInvalidDestination)
         | Some (uhost, upath) \<Rightarrow>
             if uhost \<noteq> [] \<and> uhost \<noteq> ReqHost r then Some (s, 502, Some errInvalidDestination)
             else case stripPrefix h (URLPath r) of
               Inl (status, e) \<Rightarrow> Some (s, status, Some e)
             | Inr src \<Rightarrow>
                 case stripPrefix h upath of
                   Inl (status, e) \<Rightarrow> Some (s, status, Some e)
                 | Inr dst \<Rightarrow>
                     if dst = [] then Some (s, 502, Some errInvalidDestination)
                     else if dst = src then Some (s, 403, Some (Wd ''webdav: destination equals source''))
                     else case ResolvePath getRole user src of
                       Inl e \<Rightarrow> Some (s, 403, Some (Fs e))
                     | Inr src \<Rightarrow>
                         case ResolvePath getRole user dst of
                           Inl e \<Rightarrow> Some (s, 403, Some (Fs e))
                         | Inr dst \<Rightarrow>
                             let hdr = Header r ''Depth''; depth = (if hdr = [] then infiniteDepth else parseDepth hdr)
                             in if Method r = ''COPY'' then
                                  guarded h r [] dst (\<lambda>f.
                                    if depth \<noteq> 0 \<and> depth \<noteq> infiniteDepth then (f, 400, Some errInvalidDepth)
                                    else copyFiles fs src dst f) s
                                else
                                  guarded h r src dst (\<lambda>f.
                                    if depth \<noteq> infiniteDepth then (f, 400, Some errInvalidDepth)
                                    else moveFiles fs getRole user src dst f) s)"

definition handleLock :: "get_role \<Rightarrow> User \<Rightarrow> Handler \<Rightarrow> Request \<Rightarrow> 'fs site \<Rightarrow> 'fs reply" where
  "handleLock getRole user h r s =
     (case parseTimeout (Header r ''Timeout'') of
        Inl e \<Rightarrow> Some (s, 400, Some e)
      | Inr duration \<Rightarrow>
          (case LockBody r of
             Inl (status, e) \<Rightarrow> Some (s, status, Some e)
           | Inr None \<Rightarrow>
               (case parseIfHeader (Header r ''If'') of
                  None \<Rightarrow> Some (s, 400, Some (Wd ''webdav: invalid If header''))
                | Some ih \<Rightarrow>
                    let tok = (if length (lists ih) = 1 \<and> length (conditions (lists ih ! 0)) = 1
                                 then Token (conditions (lists ih ! 0) ! 0) else [])
                    in if tok = [] then Some (s, 400, Some (Wd ''webdav: invalid lock tok''))
                       else do {
                         (m, res) \<leftarrow> Refresh (lsys s) (clock h 0) tok duration;
                         (case res of
                            Inl e \<Rightarrow> Some (s\<lparr>lsys := m\<rparr>, if e = ErrNoSuchLock then 412 else 500, Some (Ls e))
                          | Inr _ \<Rightarrow> Some (s\<lparr>lsys := m\<rparr>, 0, None))
                       })
           | Inr (Some owner) \<Rightarrow>
               let hdr = Header r ''Depth''; depth = (if hdr = [] then infiniteDepth else parseDepth hdr)
               in if depth \<noteq> 0 \<and> depth \<noteq> infiniteDepth then Some (s, 400, Some errInvalidDepth)
                  else case stripPrefix h (URLPath r) of
                    Inl (status, e) \<Rightarrow> Some (s, status, Some e)
                  | Inr reqPath \<Rightarrow>
                      case ResolvePath getRole user reqPath of
                        Inl e \<Rightarrow> Some (s, 403, Some (Fs e))
                      | Inr p \<Rightarrow>
                          do {
                            (m, res) \<leftarrow> Create (lsys s) (clock h 0)
                               \<lparr>Root = p, Duration = duration, OwnerXML = owner, ZeroDepth = (depth = 0)\<rparr>;
                            (case res of
                               Inl e \<Rightarrow> Some (s\<lparr>lsys := m\<rparr>, if e = ErrLocked then 423 else 500, Some (Ls e))
                             | Inr _ \<Rightarrow> Some (s\<lparr>lsys := m\<rparr>, 0, None))
                          }))"

definition unlock_status :: "ls_err option \<Rightarrow> int" where
  "unlock_status e =
     (case e of None \<Rightarrow> 204 | Some ErrForbidden \<Rightarrow> 403 | Some ErrLocked \<Rightarrow> 423 | Some ErrNoSuchLock \<Rightarrow> 409
      | Some _ \<Rightarrow> 500)"

definition handleUnlock :: "Handler \<Rightarrow> Request \<Rightarrow> 'fs site \<Rightarrow> 'fs reply" where
  "handleUnlock h r s =
     (let t = Header r ''Lock-Token''
      in if length t < 2 \<or> t ! 0 \<noteq> CHR ''<'' \<or> t ! (length t - 1) \<noteq> CHR ''>''
         then Some (s, 400, Some (Wd ''webdav: invalid lock tok''))
         else do {
           (m, e) \<leftarrow> Unlock (lsys s) (clock h 0) (tl (butlast t));
           Some (s\<lparr>lsys := m\<rparr>, unlock_status e, map_option Ls e)
         })"

definition handleOptions :: "'fs FS \<Rightarrow> get_role \<Rightarrow> User \<Rightarrow> Handler \<Rightarrow> Request \<Rightarrow> 'fs site \<Rightarrow> 'fs reply \<times> string" where
  "handleOptions fs getRole user h r s =
     (case stripPrefix h (URLPath r) of
        Inl (status, e) \<Rightarrow> (Some (s, status, Some e), [])
      | Inr reqPath \<Rightarrow>
          case ResolvePath getRole user reqPath of
            Inl e \<Rightarrow> (Some (s, 403, Some (Fs e)), [])
          | Inr p \<Rightarrow>
              (Some (s, 0, None),
               case fsGet fs (files s) p of
                 Inl _ \<Rightarrow> ''OPTIONS, LOCK, PUT, MKCOL''
               | Inr fi \<Rightarrow>
                   if IsDir fi then ''OPTIONS, LOCK, DELETE, PROPPATCH, COPY, MOVE, UNLOCK, PROPFIND''
                   else ''OPTIONS, LOCK, GET, HEAD, POST, DELETE, PROPPATCH, COPY, MOVE, UNLOCK, PROPFIND, PUT''))"

text \<open>
  The reading methods do not touch the lock system; their effect (caches of the file system
  included) is the argument \<open>reader\<close>.
\<close>

definition ServeHTTP ::
  "'fs FS \<Rightarrow> (Request \<Rightarrow> 'fs \<Rightarrow> 'fs \<times> int \<times> wd_err option) \<Rightarrow> get_role \<Rightarrow> User \<Rightarrow> Handler \<Rightarrow> Request
   \<Rightarrow> 'fs site \<Rightarrow> 'fs reply" where
  "ServeHTTP fs reader getRole user h r s =
     (let m = Method r
      in if m = ''OPTIONS'' then fst (handleOptions fs getRole user h r s)
         else if m \<in> {''GET'', ''HEAD'', ''POST''} then
           (let (f, status, e) = reader r (files s) in Some (s\<lparr>files := f\<rparr>, status, e))
         else if m = ''DELETE'' then handleDelete fs getRole user h r s
         else if m = ''PUT'' then handlePut fs getRole user h r s
         else if m = ''MKCOL'' then handleMkcol fs getRole user h r s
         else if m = ''COPY'' \<or> m = ''MOVE'' then handleCopyMove fs getRole user h r s
         else if m = ''LOCK'' then handleLock getRole user h r s
         else if m = ''UNLOCK'' then handleUnlock h r s
         else if m = ''PROPFIND'' then
           (let (f, status, e) = reader r (files s)
            in Some (s\<lparr>files := f\<rparr>, if e \<noteq> None then 404 else status, e))
         else if m = ''PROPPATCH'' then handleProppatch fs getRole user h r s
         else Some (s, 400, Some (Wd ''webdav: unsupported method'')))"

section \<open>Lock discipline of one request\<close>

text \<open>Whether an unexpired lock covers a resource.\<close>

definition blocked :: "locktable \<Rightarrow> int \<Rightarrow> string \<Rightarrow> bool" where
  "blocked V now p \<longleftrightarrow> (\<exists>t l. live now V t = Some l \<and> covers (ldetails l) (slashClean p))"

definition temp_details :: "string \<Rightarrow> LockDetails" where
  "temp_details p = \<lparr>Root = p, Duration = infiniteTimeout, OwnerXML = [], ZeroDepth = True\<rparr>"

definition temp_lock :: "string \<Rightarrow> lock" where
  "temp_lock p = \<lparr>ldetails = clean_root (temp_details p), lexpiry = None, lheld = False\<rparr>"

lemma conflict_temp: "conflict d (clean_root (temp_details p)) \<longleftrightarrow> covers d (slashClean p)"
  by (auto simp: conflict_def covers_def clean_root_def temp_details_def)

lemma live_live [simp]: "live now (live now V) = live now V"
  by (auto simp: live_def fun_eq_iff split: option.splits)

lemma live_temp [simp]: "live now (V(t \<mapsto> temp_lock p)) = (live now V)(t \<mapsto> temp_lock p)"
  by (auto simp: live_def fun_eq_iff temp_lock_def expired_def)

definition locked_by :: "locktable \<Rightarrow> string \<Rightarrow> string \<Rightarrow> locktable" where
  "locked_by V tok p = (if tok = [] then V else V(tok \<mapsto> temp_lock p))"

lemma live_locked_by [simp]: "live now (locked_by V tok p) = locked_by (live now V) tok p"
  by (simp add: locked_by_def)

lemma lock_ok:
  assumes o: "ls.sys_ok m os" and r: "0 < ls_room m"
  obtains (blocked) m' where "lock now p m = Some (m', Inl (423, Ls ErrLocked))" "ls.sys_ok m' os"
      "view m' = live now (view m)" "blocked (view m) now p"
    | (locked) m' tok where "lock now p m = Some (m', Inr tok)" "ls.sys_ok m' os" "tok \<noteq> []"
      "live now (view m) tok = None" "view m' = locked_by (live now (view m)) tok p"
      "\<not> blocked (view m) now p" "ls_room m \<le> Suc (ls_room m')"
proof -
  from ls.sys_create [OF o r] obtain m' r' where c: "Create m now (temp_details p) = Some (m', r')" "ls.sys_ok m' os"
    "spec_Create (view m) now (temp_details p) (view m') r'" "ls_room m \<le> Suc (ls_room m')" by metis
  have l: "lock now p m = Some (m', case r' of Inl e \<Rightarrow> (if e = ErrLocked then Inl (423, Ls e) else Inl (500, Ls e)) | Inr t \<Rightarrow> Inr t)"
    using c(1) by (simp add: lock_def temp_details_def split: sum.splits)
  have b: "blocked (view m) now p \<longleftrightarrow> (\<exists>t l. live now (view m) t = Some l \<and> conflict (ldetails l) (clean_root (temp_details p)))"
    by (simp add: blocked_def conflict_temp)
  show ?thesis
  proof (cases "blocked (view m) now p")
    case True
    then have "view m' = live now (view m)" "r' = Inl ErrLocked"
      using c(3) unfolding b by (simp_all add: spec_Create_def Let_def)
    then show ?thesis using True l c(2) by (intro blocked [of m']) simp_all
  next
    case False
    then have sc: "\<exists>t. r' = Inr t \<and> live now (view m) t = None \<and> t \<noteq> []
        \<and> view m' = (live now (view m))(t \<mapsto> \<lparr>ldetails = clean_root (temp_details p),
             lexpiry = expires_at now (Duration (clean_root (temp_details p))), lheld = False\<rparr>)"
      using c(3) unfolding b by (simp add: spec_Create_def Let_def)
    have "expires_at now (Duration (clean_root (temp_details p))) = None"
      by (simp add: expires_at_def clean_root_def temp_details_def infiniteTimeout_def)
    with sc obtain t where t: "r' = Inr t" "live now (view m) t = None" "t \<noteq> []"
      "view m' = (live now (view m))(t \<mapsto> temp_lock p)" by (auto simp: temp_lock_def)
    then show ?thesis using False l c(2,4) by (intro locked [of m' t]) (simp_all add: locked_by_def)
  qed
qed

text \<open>Unlocking a temporary lock at the time it was taken takes it out of the table again.\<close>

lemma unlock_temp_ok:
  assumes o: "ls.sys_ok m os" and v: "view m = locked_by W tok p" and f: "tok \<noteq> [] \<Longrightarrow> W tok = None \<and> live now W = W"
  obtains m' where "unlock_temp now tok m = Some m'" "ls.sys_ok m' os" "view m' = W"
proof (cases "tok = []")
  case True
  then show ?thesis using that [of m] o v by (simp add: unlock_temp_def locked_by_def)
next
  case False
  from ls.sys_unlock [OF o] obtain m' r where u: "Unlock m now tok = Some (m', r)" "ls.sys_ok m' os"
    "spec_Unlock (view m) now tok = (view m', r)" by metis
  have lv: "live now (view m) = W(tok \<mapsto> temp_lock p)" using v f [OF False] False by (simp add: locked_by_def)
  have "spec_Unlock (view m) now tok = (W(tok := None), None)"
    by (simp add: spec_Unlock_def lv Let_def) (simp add: temp_lock_def)
  then have "view m' = W" using u(3) f [OF False] by (simp add: fun_upd_idem)
  then show ?thesis using that [of m'] u False by (simp add: unlock_temp_def)
qed

definition opt_lock :: "int \<Rightarrow> string \<Rightarrow> memLS \<Rightarrow> (memLS \<times> ((int \<times> wd_err) + string)) go" where
  "opt_lock now p m = (if p \<noteq> [] then lock now p m else Some (m, Inr []))"

definition pruned_for :: "int \<Rightarrow> string \<Rightarrow> locktable \<Rightarrow> locktable" where
  "pruned_for now p V = (if p = [] then V else live now V)"

lemma live_pruned_for [simp]: "live now (pruned_for now p V) = live now V"
  by (simp add: pruned_for_def)

lemma opt_lock_ok:
  assumes o: "ls.sys_ok m os" and r: "0 < ls_room m"
  obtains (blocked) m' where "opt_lock now p m = Some (m', Inl (423, Ls ErrLocked))" "ls.sys_ok m' os"
      "view m' = live now (view m)" "p \<noteq> []"
    | (locked) m' tok where "opt_lock now p m = Some (m', Inr tok)" "ls.sys_ok m' os" "tok = [] \<longleftrightarrow> p = []"
      "tok \<noteq> [] \<Longrightarrow> live now (view m) tok = None" "view m' = locked_by (pruned_for now p (view m)) tok p"
      "p \<noteq> [] \<Longrightarrow> \<not> blocked (view m) now p" "ls_room m \<le> Suc (ls_room m')"
proof (cases "p = []")
  case True
  then show ?thesis using o by (intro locked [of m "[]"]) (simp_all add: opt_lock_def pruned_for_def locked_by_def)
next
  case False
  from o r show ?thesis
  proof (cases rule: lock_ok [where now = now and p = p])
    case (blocked m')
    then show ?thesis using False by (intro that(1) [of m']) (simp_all add: opt_lock_def)
  next
    case (locked m' tok)
    then show ?thesis using False by (intro that(2) [of m' tok]) (simp_all add: opt_lock_def pruned_for_def)
  qed
qed

lemma blocked_locked_by:
  assumes "blocked V now p" "live now V' = locked_by (live now V) a q" "a \<noteq> [] \<Longrightarrow> live now V a = None"
  shows "blocked V' now p"
proof -
  obtain t l where t: "live now V t = Some l" "covers (ldetails l) (slashClean p)"
    using assms(1) by (auto simp: blocked_def)
  then have "live now V' t = Some l" using assms(2,3) by (auto simp: locked_by_def)
  then show ?thesis using t(2) by (auto simp: blocked_def)
qed

definition temp_taken :: "int \<Rightarrow> string \<Rightarrow> string \<Rightarrow> locktable \<Rightarrow> string \<Rightarrow> string \<Rightarrow> locktable \<Rightarrow> bool" where
  "temp_taken now src dst V a b V' \<longleftrightarrow>
     (\<exists>W. W \<subseteq>\<^sub>m V \<and> V' = locked_by (locked_by W a src) b dst
        \<and> (a \<noteq> [] \<longrightarrow> W a = None \<and> live now W = W) \<and> (b \<noteq> [] \<longrightarrow> locked_by W a src b = None \<and> live now W = W))"

lemma live_map_le: "live now V \<subseteq>\<^sub>m V"
  unfolding map_le_def by (metis domD live_SomeD)

lemma pruned_for_le: "pruned_for now p V \<subseteq>\<^sub>m V"
  by (simp add: pruned_for_def live_map_le)

lemma temp_locks_opt:
  "temp_locks now src dst m =
     do {
       (m, a) \<leftarrow> opt_lock now src m;
       (case a of
          Inl e \<Rightarrow> Some (m, Inl e)
        | Inr srcToken \<Rightarrow>
            do {
              (m, b) \<leftarrow> opt_lock now dst m;
              (case b of
                 Inl e \<Rightarrow> do { m \<leftarrow> unlock_temp now srcToken m; Some (m, Inl e) }
               | Inr dstToken \<Rightarrow> Some (m, Inr (TempLocks now srcToken dstToken)))
            })
     }"
  unfolding temp_locks_def opt_lock_def by (rule refl)

lemma temp_locks_ok:
  assumes o: "ls.sys_ok m os" and r: "1 < ls_room m"
  obtains (failed) m' where "temp_locks now src dst m = Some (m', Inl (423, Ls ErrLocked))" "ls.sys_ok m' os"
      "view m' \<subseteq>\<^sub>m view m"
    | (taken) m' a b where "temp_locks now src dst m = Some (m', Inr (TempLocks now a b))" "ls.sys_ok m' os"
      "temp_taken now src dst (view m) a b (view m')"
      "\<forall>p \<in> {src, dst}. p \<noteq> [] \<longrightarrow> \<not> blocked (view m) now p"
proof -
  have r0: "0 < ls_room m" using r by simp
  from o r0 show ?thesis
  proof (cases rule: opt_lock_ok [where now = now and p = src])
    case (blocked m1)
    then show ?thesis using live_map_le by (intro failed [of m1]) (simp_all add: temp_locks_opt)
  next
    case (locked m1 a)
    let ?W = "pruned_for now src (view m)"
    have r1: "0 < ls_room m1" using locked(7) r by simp
    have l1: "live now (view m1) = locked_by (live now (view m)) a src" using locked(5) by simp
    from locked(2) r1 show ?thesis
    proof (cases rule: opt_lock_ok [where now = now and p = dst])
      case b: (blocked m2)
      have "view m2 = locked_by (live now (view m)) a src" using b(3) l1 by simp
      then obtain m3 where "unlock_temp now a m2 = Some m3" "ls.sys_ok m3 os" "view m3 = live now (view m)"
        using unlock_temp_ok [OF b(2)] locked(4) by (metis live_live)
      then show ?thesis using locked(1) b(1) live_map_le by (intro failed [of m3]) (simp_all add: temp_locks_opt)
    next
      case d: (locked m2 b)
      have t: "temp_locks now src dst m = Some (m2, Inr (TempLocks now a b))"
        using locked(1) d(1) by (simp add: temp_locks_opt)
      have nb: "\<not> blocked (view m) now dst" if "dst \<noteq> []"
        using d(6) [OF that] blocked_locked_by [OF _ l1 locked(4)] by blast
      have "temp_taken now src dst (view m) a b (view m2)"
      proof (cases "dst = []")
        case True
        then have "b = []" "view m2 = locked_by ?W a src" using d(3,5) locked(5) by (simp_all add: pruned_for_def locked_by_def)
        moreover have "a \<noteq> [] \<longrightarrow> ?W a = None \<and> live now ?W = ?W"
          using locked(3,4) by (auto simp: pruned_for_def)
        ultimately show ?thesis
          unfolding temp_taken_def using pruned_for_le by (intro exI [of _ ?W]) (simp add: locked_by_def)
      next
        case False
        then have "view m2 = locked_by (locked_by (live now (view m)) a src) b dst"
          using d(5) l1 by (simp add: pruned_for_def)
        then show ?thesis
          unfolding temp_taken_def using live_map_le locked(4) d(4) l1
          by (intro exI [of _ "live now (view m)"]) simp
      qed
      then show ?thesis using t d(2) nb locked(6) by (intro taken [of m2 a b]) auto
    qed
  qed
qed

lemma release_temp_ok:
  assumes o: "ls.sys_ok m os" and t: "temp_taken now src dst V a b (view m)"
  obtains m' where "run_release (TempLocks now a b) m = Some m'" "ls.sys_ok m' os" "view m' \<subseteq>\<^sub>m V"
proof -
  obtain W where W: "W \<subseteq>\<^sub>m V" "view m = locked_by (locked_by W a src) b dst"
    "a \<noteq> [] \<longrightarrow> W a = None \<and> live now W = W" "b \<noteq> [] \<longrightarrow> locked_by W a src b = None \<and> live now W = W"
    using t by (auto simp: temp_taken_def)
  obtain m1 where m1: "unlock_temp now b m = Some m1" "ls.sys_ok m1 os" "view m1 = locked_by W a src"
    using unlock_temp_ok [OF o W(2), of now] W(4) by auto
  obtain m2 where "unlock_temp now a m1 = Some m2" "ls.sys_ok m2 os" "view m2 = W"
    using unlock_temp_ok [OF m1(2,3), of now] W(3) by auto
  then show ?thesis using m1(1) W(1) by (intro that [of m2]) simp_all
qed

definition unheld :: "locktable \<Rightarrow> string option \<Rightarrow> bool" where
  "unheld V t \<longleftrightarrow> (\<forall>s. t = Some s \<longrightarrow> (\<exists>l. V s = Some l \<and> \<not> lheld l))"

lemma set_held_cancel:
  assumes "unheld V t"
  shows "set_held False t (set_held True t V) = V"
proof (cases t)
  case (Some s)
  then obtain l where l: "V s = Some l" "\<not> lheld l" using assms by (auto simp: unheld_def)
  have "l\<lparr>lheld := True, lheld := False\<rparr> = l" using l(2) by simp
  then show ?thesis using Some l by (simp add: set_held_def fun_upd_idem)
qed (simp add: set_held_def)

lemma spec_confirm_release:
  assumes "spec_Confirm V now n0 n1 cs = (V', Inr ts)"
  shows "spec_release ts V' = live now V"
    "\<forall>p \<in> {n0, n1}. p \<noteq> [] \<longrightarrow> (\<exists>c \<in> set cs. usable V (slashClean p) c)"
proof -
  let ?V = "live now V"
  let ?t = "\<lambda>n. if n \<noteq> [] then spec_lookup ?V (slashClean n) cs else None"
  let ?t1 = "if ?t n1 = ?t n0 then None else ?t n1"
  have e: "V' = set_held True ?t1 (set_held True (?t n0) ?V)" "ts = (?t n0, ?t1)"
    and ok: "\<not> (n0 \<noteq> [] \<and> ?t n0 = None \<or> n1 \<noteq> [] \<and> ?t n1 = None)"
    using assms unfolding spec_Confirm_def Let_def by (auto split: if_splits)
  have u: "unheld ?V (?t n)" for n
    using spec_lookup_Some [of ?V "slashClean n" cs] by (auto simp: unheld_def)
  have "unheld (set_held True (?t n0) ?V) ?t1"
    unfolding unheld_def
  proof (intro allI impI)
    fix s assume s: "?t1 = Some s"
    then have "?t n0 \<noteq> Some s" "?t n1 = Some s" by (simp_all split: if_splits)
    then show "\<exists>l. set_held True (?t n0) ?V s = Some l \<and> \<not> lheld l"
      using u [of n1] set_held_other [of "?t n0" s True ?V] by (simp add: unheld_def)
  qed
  then show "spec_release ts V' = ?V"
    unfolding spec_release_def e fst_conv snd_conv by (simp only: set_held_cancel u)
  have mono: "usable V n c" if "usable ?V n c" for n c
    using that by (auto simp: usable_def split: option.splits dest!: live_SomeD)
  have "\<exists>c \<in> set cs. usable ?V (slashClean p) c" if "p \<in> {n0, n1}" "p \<noteq> []" for p
  proof -
    have "spec_lookup ?V (slashClean p) cs \<noteq> None" using ok that by auto
    then show ?thesis by (auto simp: spec_lookup_def find_None_iff)
  qed
  then show "\<forall>p \<in> {n0, n1}. p \<noteq> [] \<longrightarrow> (\<exists>c \<in> set cs. usable V (slashClean p) c)"
    using mono by blast
qed

text \<open>The resource that a list of the \<^verbatim>\<open>If\<close> header speaks of.\<close>

definition resource :: "Handler \<Rightarrow> Request \<Rightarrow> string \<Rightarrow> ifList \<Rightarrow> string option" where
  "resource h r src l =
     (if resourceTag l = [] then Some src
      else case urlParse h (resourceTag l) of
             None \<Rightarrow> None
           | Some (uhost, upath) \<Rightarrow>
               if uhost \<noteq> ReqHost r then None
               else case stripPrefix h upath of Inl _ \<Rightarrow> None | Inr p \<Rightarrow> Some p)"

definition list_grants :: "Handler \<Rightarrow> Request \<Rightarrow> string \<Rightarrow> string \<Rightarrow> locktable \<Rightarrow> ifList \<Rightarrow> bool" where
  "list_grants h r src dst V l \<longleftrightarrow>
     (\<exists>lsrc. resource h r src l = Some lsrc
        \<and> (\<forall>p \<in> {lsrc, dst}. p \<noteq> [] \<longrightarrow> (\<exists>c \<in> set (conditions l). usable V (slashClean p) c)))"

lemma list_grants_mono: "\<lbrakk>list_grants h r src dst V' l; V' \<subseteq>\<^sub>m V\<rbrakk> \<Longrightarrow> list_grants h r src dst V l"
proof -
  assume g: "list_grants h r src dst V' l" and le: "V' \<subseteq>\<^sub>m V"
  have mono: "usable V n c" if us: "usable V' n c" for n c
  proof -
    obtain k where "V' (Token c) = Some k" "\<not> lheld k" "covers (ldetails k) n"
      using us by (auto simp: usable_def split: option.splits)
    moreover from this have "V (Token c) = Some k" using le by (metis domI map_le_def)
    ultimately show ?thesis by (simp add: usable_def)
  qed
  obtain lsrc where l: "resource h r src l = Some lsrc"
    "\<forall>p \<in> {lsrc, dst}. p \<noteq> [] \<longrightarrow> (\<exists>c \<in> set (conditions l). usable V' (slashClean p) c)"
    using g by (auto simp: list_grants_def)
  have "\<exists>c \<in> set (conditions l). usable V (slashClean p) c" if p: "p \<in> {lsrc, dst}" "p \<noteq> []" for p
  proof -
    obtain c where "c \<in> set (conditions l)" "usable V' (slashClean p) c" using l(2) p by blast
    then show ?thesis using mono by blast
  qed
  then show ?thesis unfolding list_grants_def using l(1) by (intro exI [of _ lsrc]) blast
qed

lemma confirm_lists_ok:
  assumes "ls.sys_ok m os"
  shows "(\<exists>m' st e. confirm_lists h r src dst i lists0 m = Some (m', Inl (st, e)) \<and> ls.sys_ok m' os \<and> view m' \<subseteq>\<^sub>m view m)
    \<or> (\<exists>m' f ts. confirm_lists h r src dst i lists0 m = Some (m', Inr (Confirmed f)) \<and> ls.sys_ok m' (os @ [(f, ts)])
         \<and> spec_release ts (view m') \<subseteq>\<^sub>m view m \<and> (\<exists>l \<in> set lists0. list_grants h r src dst (view m) l))"
  using assms
proof (induction lists0 arbitrary: m i)
  case Nil
  then show ?case by simp
next
  case (Cons l rest)
  let ?res = "if resourceTag l = [] then Inr (Some src)
      else case urlParse h (resourceTag l) of None \<Rightarrow> Inr None
        | Some (uhost, upath) \<Rightarrow> if uhost \<noteq> ReqHost r then Inr None
            else case stripPrefix h upath of Inl e \<Rightarrow> Inl e | Inr p \<Rightarrow> Inr (Some p)"
  show ?case
  proof (cases ?res)
    case (Inl e)
    then show ?thesis using Cons.prems by (cases e) (simp add: Let_def)
  next
    case (Inr x)
    show ?thesis
    proof (cases x)
      case None
      then have "confirm_lists h r src dst i (l # rest) m = confirm_lists h r src dst i rest m"
        using Inr by (simp add: Let_def)
      then show ?thesis using Cons.IH [OF Cons.prems, of i] by auto
    next
      case (Some lsrc)
      have rs: "resource h r src l = Some lsrc"
        using Inr Some by (auto simp: resource_def split: if_splits option.splits sum.splits)
      have step: "confirm_lists h r src dst i (l # rest) m =
          do { (m, res) \<leftarrow> Confirm m (clock h i) lsrc dst (conditions l);
               (case res of
                  Inl e \<Rightarrow> if e = ErrConfirmationFailed then confirm_lists h r src dst (Suc i) rest m
                           else Some (m, Inl (500, Ls e))
                | Inr f \<Rightarrow> Some (m, Inr (Confirmed f))) }"
        using Inr Some by (simp add: Let_def)
      from Cons.prems show ?thesis
      proof (cases rule: ls.sys_confirm [where now = "clock h i" and ?n0.0 = lsrc and ?n1.0 = dst and cs = "conditions l"])
        case (failed m1)
        have v: "view m1 \<subseteq>\<^sub>m view m"
          using failed(3) live_map_le [of "clock h i" "view m"] by (auto simp: spec_Confirm_def Let_def split: if_splits)
        have "confirm_lists h r src dst i (l # rest) m = confirm_lists h r src dst (Suc i) rest m1"
          unfolding step failed(1) by simp
        moreover have "list_grants h r src dst (view m) k" if "list_grants h r src dst (view m1) k" for k
          using list_grants_mono [OF that v] .
        ultimately show ?thesis
          using Cons.IH [OF failed(2), of "Suc i"] map_le_trans [OF _ v] by (simp del: confirm_lists.simps) metis
      next
        case (confirmed m1 f ts)
        note R = spec_confirm_release [OF confirmed(3)]
        have "list_grants h r src dst (view m) l" unfolding list_grants_def using rs R(2) by blast
        moreover have "spec_release ts (view m1) \<subseteq>\<^sub>m view m" using R(1) live_map_le by simp
        moreover have "confirm_lists h r src dst i (l # rest) m = Some (m1, Inr (Confirmed f))"
          unfolding step confirmed(1) by simp
        ultimately show ?thesis using confirmed(2) by (auto simp del: confirm_lists.simps split_paired_Ex)
      qed
    qed
  qed
qed

text \<open>
  When a handler may go on: without an \<^verbatim>\<open>If\<close> header no unexpired lock covers a resource it is
  about to change; with one, some list of the header names locks that cover them.
\<close>

definition permitted :: "Handler \<Rightarrow> Request \<Rightarrow> string \<Rightarrow> string \<Rightarrow> locktable \<Rightarrow> bool" where
  "permitted h r src dst V \<longleftrightarrow>
     (if Header r ''If'' = [] then \<forall>p \<in> {src, dst}. p \<noteq> [] \<longrightarrow> \<not> blocked V (clock h 0) p
      else \<exists>ih. parseIfHeader (Header r ''If'') = Some ih \<and> (\<exists>l \<in> set (lists ih). list_grants h r src dst V l))"

lemma confirmLocks_ok:
  assumes o: "ls.sys_ok m os" and r: "1 < ls_room m"
  obtains (refused) m' st e where "confirmLocks h r src dst m = Some (m', Inl (st, e))" "ls.sys_ok m' os" "view m' \<subseteq>\<^sub>m view m"
      "Header r ''If'' = [] \<longrightarrow> st = 423"
    | (granted) m' rel where "confirmLocks h r src dst m = Some (m', Inr rel)" "permitted h r src dst (view m)"
      "\<exists>m''. run_release rel m' = Some m'' \<and> ls.sys_ok m'' os \<and> view m'' \<subseteq>\<^sub>m view m"
proof (cases "Header r ''If'' = []")
  case True
  then have c: "confirmLocks h r src dst m = temp_locks (clock h 0) src dst m" by (simp add: confirmLocks_def)
  from o r show ?thesis
  proof (cases rule: temp_locks_ok [where now = "clock h 0" and src = src and dst = dst])
    case (failed m')
    then show ?thesis using c by (intro refused [of m']) auto
  next
    case (taken m' a b)
    have "\<exists>m''. run_release (TempLocks (clock h 0) a b) m' = Some m'' \<and> ls.sys_ok m'' os \<and> view m'' \<subseteq>\<^sub>m view m"
      using release_temp_ok [OF taken(2,3)] by metis
    then show ?thesis
      using taken c True by (intro granted [of m' "TempLocks (clock h 0) a b"]) (simp_all add: permitted_def)
  qed
next
  case False
  show ?thesis
  proof (cases "parseIfHeader (Header r ''If'')")
    case None
    then show ?thesis using False o by (intro refused [of m]) (simp_all add: confirmLocks_def)
  next
    case (Some ih)
    have c: "confirmLocks h r src dst m = confirm_lists h r src dst 0 (lists ih) m"
      using Some False by (simp add: confirmLocks_def)
    from confirm_lists_ok [OF o, of h r src dst 0 "lists ih"] show ?thesis
    proof (elim disjE exE conjE)
      fix m' st e assume "confirm_lists h r src dst 0 (lists ih) m = Some (m', Inl (st, e))"
        "ls.sys_ok m' os" "view m' \<subseteq>\<^sub>m view m"
      then show ?thesis using c False by (intro refused [of m' st e]) simp_all
    next
      fix m' f ts assume k: "confirm_lists h r src dst 0 (lists ih) m = Some (m', Inr (Confirmed f))"
        "ls.sys_ok m' (os @ [(f, ts)])" "spec_release ts (view m') \<subseteq>\<^sub>m view m"
        "\<exists>l \<in> set (lists ih). list_grants h r src dst (view m) l"
      have "\<exists>m''. run_release (Confirmed f) m' = Some m'' \<and> ls.sys_ok m'' os \<and> view m'' \<subseteq>\<^sub>m view m"
        using ls.sys_release [of m' os f ts "[]"] k(2,3) by (metis append_Nil2 run_release.simps(2))
      then show ?thesis
        using k(1,4) c Some False by (intro granted [of m' "Confirmed f"]) (simp_all add: permitted_def)
    qed
  qed
qed

text \<open>What a request does to the site: nothing is left locked or held that was not before.\<close>

definition tidy :: "(release \<times> tokens) list \<Rightarrow> 'fs site \<Rightarrow> 'fs site \<Rightarrow> bool" where
  "tidy os s s' \<longleftrightarrow> ls.sys_ok (lsys s') os \<and> view (lsys s') \<subseteq>\<^sub>m view (lsys s)"

lemma guarded_ok:
  assumes o: "ls.sys_ok (lsys s) os" and r: "1 < ls_room (lsys s)"
  obtains s' st e where "guarded h r src dst body s = Some (s', st, e)" "tidy os s s'"
    "files s' = files s \<or> permitted h r src dst (view (lsys s)) \<and> (files s', st, e) = body (files s)"
    "\<not> permitted h r src dst (view (lsys s)) \<and> Header r ''If'' = [] \<Longrightarrow> st = 423"
proof -
  from o r show ?thesis
  proof (cases rule: confirmLocks_ok [where h = h and r = r and src = src and dst = dst])
    case (refused m' st e)
    then show ?thesis
      by (intro that [of "s\<lparr>lsys := m'\<rparr>" st "Some e"]) (simp_all add: guarded_def tidy_def)
  next
    case (granted m' rel)
    then obtain m'' where m'': "run_release rel m' = Some m''" "ls.sys_ok m'' os" "view m'' \<subseteq>\<^sub>m view (lsys s)" by blast
    obtain f st e where b: "body (files s) = (f, st, e)" using prod_cases3 by blast
    show ?thesis
      by (rule that [of "\<lparr>lsys = m'', files = f\<rparr>" st e])
        (use granted m'' b in \<open>simp_all add: guarded_def tidy_def\<close>)
  qed
qed

lemma tidy_refl: "ls.sys_ok (lsys s) os \<Longrightarrow> tidy os s s"
  by (simp add: tidy_def)

definition served :: "(release \<times> tokens) list \<Rightarrow> 'fs site \<Rightarrow> 'fs reply \<Rightarrow> bool" where
  "served os s res \<longleftrightarrow> (\<exists>s' st e. res = Some (s', st, e) \<and> tidy os s s')"

lemma served_guarded:
  "\<lbrakk>ls.sys_ok (lsys s) os; 1 < ls_room (lsys s)\<rbrakk> \<Longrightarrow> served os s (guarded h r src dst body s)"
  by (rule guarded_ok [of s os h r src dst body]) (auto simp: served_def)

lemma served_here: "ls.sys_ok (lsys s) os \<Longrightarrow> served os s (Some (s, st, e))"
  by (auto simp: served_def tidy_def)

lemma served_files: "ls.sys_ok (lsys s) os \<Longrightarrow> served os s (Some (s\<lparr>files := f\<rparr>, st, e))"
  by (auto simp: served_def tidy_def)

lemma served_with_path:
  "\<lbrakk>ls.sys_ok (lsys s) os; \<And>p. served os s (k p s)\<rbrakk> \<Longrightarrow> served os s (with_path h r k s)"
  by (auto simp: with_path_def served_here split: sum.splits)

lemma spec_Unlock_le: "spec_Unlock V now t = (V', r) \<Longrightarrow> V' \<subseteq>\<^sub>m V"
  using live_map_le [of now V]
  by (auto simp: spec_Unlock_def Let_def map_le_def dom_def split: option.splits if_splits)

lemma served_CopyMove:
  assumes "ls.sys_ok (lsys s) os" "1 < ls_room (lsys s)"
  shows "served os s (handleCopyMove fs getRole user h r s)"
  unfolding handleCopyMove_def Let_def
  using served_guarded [OF assms] served_here [OF assms(1)]
  by (auto split: option.splits sum.splits prod.splits)

lemma served_Unlock:
  assumes "ls.sys_ok (lsys s) os"
  shows "served os s (handleUnlock h r s)"
proof -
  have "served os s (do { (m, e) \<leftarrow> Unlock (lsys s) (clock h 0) t; Some (s\<lparr>lsys := m\<rparr>, unlock_status e, map_option Ls e) })" for t
  proof -
    from ls.sys_unlock [OF assms] obtain m' e where "Unlock (lsys s) (clock h 0) t = Some (m', e)" "ls.sys_ok m' os"
      "spec_Unlock (view (lsys s)) (clock h 0) t = (view m', e)" by metis
    then show ?thesis using spec_Unlock_le by (auto simp: served_def tidy_def)
  qed
  then show ?thesis unfolding handleUnlock_def Let_def using served_here [OF assms] by simp
qed

text \<open>LOCK is the method that may add a lock or refresh one.\<close>

lemma served_Lock:
  assumes o: "ls.sys_ok (lsys s) os" and r: "0 < ls_room (lsys s)"
  shows "\<exists>s' st e. handleLock getRole user h rq s = Some (s', st, e) \<and> ls.sys_ok (lsys s') os \<and> files s' = files s"
proof -
  let ?P = "\<lambda>res. \<exists>s' st e. res = Some (s', st, e) \<and> ls.sys_ok (lsys s') os \<and> files s' = files s"
  have here: "?P (Some (s, st, e))" for st e using o by auto
  have c: "?P (do { (m, res) \<leftarrow> Create (lsys s) (clock h 0) d;
      (case res of Inl e \<Rightarrow> Some (s\<lparr>lsys := m\<rparr>, if e = ErrLocked then 423 else 500, Some (Ls e))
       | Inr _ \<Rightarrow> Some (s\<lparr>lsys := m\<rparr>, 0, None)) })" for d
  proof -
    from ls.sys_create [OF o r] obtain m' r' where "Create (lsys s) (clock h 0) d = Some (m', r')" "ls.sys_ok m' os"
      by metis
    then show ?thesis by (cases r') simp_all
  qed
  have f: "?P (do { (m, res) \<leftarrow> Refresh (lsys s) (clock h 0) t dur;
      (case res of Inl e \<Rightarrow> Some (s\<lparr>lsys := m\<rparr>, if e = ErrNoSuchLock then 412 else 500, Some (Ls e))
       | Inr _ \<Rightarrow> Some (s\<lparr>lsys := m\<rparr>, 0, None)) })" for t dur
  proof -
    from ls.sys_refresh [OF o] obtain m' r' where "Refresh (lsys s) (clock h 0) t dur = Some (m', r')" "ls.sys_ok m' os"
      by metis
    then show ?thesis by (cases r') simp_all
  qed
  show ?thesis
    unfolding handleLock_def Let_def using here c f
    by (auto split: sum.splits option.splits prod.splits simp del: split_paired_Ex)
qed

section \<open>Correctness of the handlers\<close>

lemma served_ServeHTTP:
  assumes o: "ls.sys_ok (lsys s) os" and r: "1 < ls_room (lsys s)" and m: "Method rq \<noteq> ''LOCK''"
  shows "served os s (ServeHTTP fs reader getRole user h rq s)"
proof -
  note g = served_guarded [OF o r] served_here [OF o] served_files [OF o] served_CopyMove [OF o r] served_Unlock [OF o]
  have "served os s (fst (handleOptions fs getRole user h rq s))"
    by (auto simp: handleOptions_def g split: sum.splits)
  moreover have "served os s (handleDelete fs getRole user h rq s)" "served os s (handleMkcol fs getRole user h rq s)"
    "served os s (handleProppatch fs getRole user h rq s)" "served os s (handlePut fs getRole user h rq s)"
    unfolding handleDelete_def handleMkcol_def handleProppatch_def handlePut_def
    by (rule served_with_path [OF o], simp add: g)+
  ultimately show ?thesis
    unfolding ServeHTTP_def Let_def using m g by (auto split: prod.splits)
qed


definition no_fs :: "string list FS" where
  "no_fs = \<lparr>fsGet = (\<lambda>f p. if p \<in> set f then Inr \<lparr>FileName = p, FileSize = 0, IsDir = False\<rparr> else Inl ObjectNotFound),
     fsRemove = (\<lambda>f p. (removeAll p f, None)), fsMakeDir = (\<lambda>f p. (p # f, None)),
     fsRename = (\<lambda>f p q. (f, None)), fsMove = (\<lambda>f p q. (f, None)), fsCopy = (\<lambda>f p q. (f, None)),
     fsPutDirectly = (\<lambda>f p i. (p # f, None)), fsPatch = (\<lambda>f p q. (f, None)), fsETag = (\<lambda>f i. Inr []),
     osIsNotExist = (\<lambda>_. False)\<rparr>"

definition dav :: Handler where
  "dav = \<lparr>Prefix = ''/dav'', urlParse = (\<lambda>_. None), clock = (\<lambda>_. 0)\<rparr>"

definition delete_a :: Request where
  "delete_a = \<lparr>Method = ''DELETE'', URLPath = ''/dav/a/b'', ReqHost = [], Header = (\<lambda>_. []), ContentLength = 0,
     LockBody = Inr None, PatchBody = Inr []\<rparr>"




text \<open>The resources that a request is about to change, as the lock check sees them.\<close>

definition targets :: "get_role \<Rightarrow> User \<Rightarrow> Handler \<Rightarrow> Request \<Rightarrow> (string \<times> string) option" where
  "targets getRole user h rq =
     (case stripPrefix h (URLPath rq) of
        Inl _ \<Rightarrow> None
      | Inr p \<Rightarrow>
          if Method rq = ''COPY'' \<or> Method rq = ''MOVE'' then
            (case urlParse h (Header rq ''Destination'') of
               None \<Rightarrow> None
             | Some (_, upath) \<Rightarrow>
                 (case stripPrefix h upath of
                    Inl _ \<Rightarrow> None
                  | Inr q \<Rightarrow>
                      (case (ResolvePath getRole user p, ResolvePath getRole user q) of
                         (Inr src, Inr dst) \<Rightarrow> Some (if Method rq = ''COPY'' then [] else src, dst)
                       | _ \<Rightarrow> None)))
          else Some (p, []))"



text \<open>MOVE changes files only with the permission that it needs: to move when the directory changes,
  to rename when the name changes; otherwise the answer is 403.\<close>

theorem moveFiles_needs_permission:
  assumes "moveFiles fs getRole user src dst f = (f', st, e)"
    "path_Dir src \<noteq> path_Dir dst \<and> \<not> HasPermission (MergeRolePermissions getRole (Some user) src) PermMove
     \<or> path_Base src \<noteq> path_Base dst \<and> \<not> HasPermission (MergeRolePermissions getRole (Some user) src) PermRename"
  shows "f' = f \<and> st = 403"
  using assms by (auto simp: moveFiles_def Let_def split: if_splits)

theorem moveFiles_needs_permission_witness:
  "moveFiles no_fs (one_role ''/'' 0) (guest_of ''/'') ''/a/b'' ''/c/b'' [''/a/b''] = ([''/a/b''], 403, None)"
proof -
  obtain f' st e where m: "moveFiles no_fs (one_role ''/'' 0) (guest_of ''/'') ''/a/b'' ''/c/b'' [''/a/b''] = (f', st, e)"
    using prod_cases3 by blast
  have "path_Dir ''/a/b'' \<noteq> path_Dir ''/c/b''
      \<and> \<not> HasPermission (MergeRolePermissions (one_role ''/'' 0) (Some (guest_of ''/'')) ''/a/b'') PermMove" by code_simp
  with moveFiles_needs_permission [OF m] have "f' = [''/a/b''] \<and> st = 403" by blast
  moreover have "e = None" using m by (auto simp: moveFiles_def Let_def calculation split: if_splits prod.splits option.splits)
  ultimately show ?thesis using m by simp
qed

lemma parse_digits_int: "\<lbrakk>ParseInt s = Some n; s \<noteq> []; is_digit (s ! 0)\<rbrakk> \<Longrightarrow> 0 \<le> n"
  by (cases s) (auto simp: ParseInt_def is_digit_def Let_def split: if_splits option.splits)

text \<open>A lock timeout that a client asks for is infinite, or not negative and far within the 64 bits of a
  duration in nanoseconds.\<close>

theorem parseTimeout_bounds:
  assumes "parseTimeout s = Inr d"
  shows "d = infiniteTimeout \<or> 0 \<le> d \<and> d \<le> (2 ^ 32 - 1) * 1000000000 \<and> d < 2 ^ 63"
  using assms parse_digits_int
  by (auto simp: parseTimeout_def Let_def split: if_splits option.splits)

theorem parseTimeout_bounds_witness: "parseTimeout ''Second-5, Infinite'' = Inr 5000000000 \<and> (5000000000::int) < 2 ^ 63"
proof -
  have "parseTimeout ''Second-5, Infinite'' = Inr 5000000000" by code_simp
  then show ?thesis using parseTimeout_bounds [of "''Second-5, Infinite''" 5000000000] by (simp add: infiniteTimeout_def)
qed

end
