(* ===== verification/ObjModel.thy ===== *)
theory ObjModel
  imports PathUtil
begin

text \<open>
  Objects of a listing (\<^verbatim>\<open>internal/model/object.go\<close>, \<^verbatim>\<open>internal/model/obj.go\<close>): the record a driver
  returns and the wrappers around it, the mapping of names, sorting, putting folders first, and the
  merge that hides and de-duplicates names.  Times are integers.  \<^verbatim>\<open>sort.Slice\<close>, which is not stable
  and whose result is fixed only up to equal elements, is an argument; \<^verbatim>\<open>natural.Less\<close> and the
  regular expressions of \<^verbatim>\<open>regexp2\<close> are arguments too.
\<close>

section \<open>Objects\<close>

record Object =
  ObjID :: string
  ObjPath :: string
  ObjName :: string
  ObjSize :: int
  ObjModified :: int
  IsFolder :: bool

datatype Obj = Obj Object | ObjWrapName string Obj | ObjWrapStorageClass string Obj

fun GetName :: "Obj \<Rightarrow> string" where
  "GetName (Obj ob) = ObjName ob"
| "GetName (ObjWrapName n ob) = n"
| "GetName (ObjWrapStorageClass c ob) = GetName ob"

fun raw :: "Obj \<Rightarrow> Object" where
  "raw (Obj ob) = ob"
| "raw (ObjWrapName n ob) = raw ob"
| "raw (ObjWrapStorageClass c ob) = raw ob"

definition GetSize :: "Obj \<Rightarrow> int" where
  "GetSize ob = ObjSize (raw ob)"

definition ModTime :: "Obj \<Rightarrow> int" where
  "ModTime ob = ObjModified (raw ob)"

definition IsDir :: "Obj \<Rightarrow> bool" where
  "IsDir ob = IsFolder (raw ob)"

definition GetPath :: "Obj \<Rightarrow> string" where
  "GetPath ob = ObjPath (raw ob)"

text \<open>\<^verbatim>\<open>SetPath\<close> is a method of \<^verbatim>\<open>Object\<close> and of the storage class wrapper, not of the name wrapper.\<close>

fun SetPath :: "string \<Rightarrow> Obj \<Rightarrow> Obj" where
  "SetPath p (Obj ob) = Obj (ob\<lparr>ObjPath := p\<rparr>)"
| "SetPath p (ObjWrapStorageClass c ob) = ObjWrapStorageClass c (SetPath p ob)"
| "SetPath p (ObjWrapName n ob) = ObjWrapName n ob"

fun UnwrapObj :: "Obj \<Rightarrow> Obj" where
  "UnwrapObj (ObjWrapName n ob) = ob"
| "UnwrapObj (ObjWrapStorageClass c ob) = ob"
| "UnwrapObj (Obj ob) = Obj ob"

fun StorageClass :: "Obj \<Rightarrow> string option" where
  "StorageClass (ObjWrapStorageClass c ob) = (if c = [] then None else Some c)"
| "StorageClass (ObjWrapName n ob) = StorageClass ob"
| "StorageClass (Obj ob) = None"

definition WrapObjStorageClass :: "Obj \<Rightarrow> string \<Rightarrow> Obj" where
  "WrapObjStorageClass ob c = (if c = [] then ob else ObjWrapStorageClass c ob)"

section \<open>Names\<close>

function ReplaceAll :: "string \<Rightarrow> string \<Rightarrow> string \<Rightarrow> string" where
  "ReplaceAll [] old new = (if old = [] then new else [])"
| "ReplaceAll (c # s) old new =
     (if old = [] then new @ c # ReplaceAll s old new
      else if prefix old (c # s) then new @ ReplaceAll (drop (length old) (c # s)) old new
      else c # ReplaceAll s old new)"
  by pat_completeness auto
termination
  by (relation "measure (\<lambda>(s, _). length s)") auto

text \<open>The map \<^verbatim>\<open>conf.FilenameCharMap\<close> is the list of its entries in the order they are visited.\<close>

definition MappingName :: "(string \<times> string) list \<Rightarrow> string \<Rightarrow> string" where
  "MappingName charMap name = foldl (\<lambda>n (k, v). ReplaceAll n k v) name charMap"

definition WrapObjName :: "(string \<times> string) list \<Rightarrow> Obj \<Rightarrow> Obj" where
  "WrapObjName charMap ob = ObjWrapName (MappingName charMap (GetName ob)) ob"

definition WrapObjsName :: "(string \<times> string) list \<Rightarrow> Obj list \<Rightarrow> Obj list" where
  "WrapObjsName charMap objs = map (WrapObjName charMap) objs"

section \<open>Order\<close>

type_synonym sort_slice = "(Obj \<Rightarrow> Obj \<Rightarrow> bool) \<Rightarrow> Obj list \<Rightarrow> Obj list"

definition files_less :: "(string \<Rightarrow> string \<Rightarrow> bool) \<Rightarrow> string \<Rightarrow> string \<Rightarrow> Obj \<Rightarrow> Obj \<Rightarrow> bool" where
  "files_less naturalLess orderBy orderDirection a b =
     (if orderBy = ''name'' then
        let c = naturalLess (GetName a) (GetName b) in if orderDirection = ''desc'' then \<not> c else c
      else if orderBy = ''size'' then
        (if orderDirection = ''desc'' then GetSize a \<ge> GetSize b else GetSize a \<le> GetSize b)
      else if orderBy = ''modified'' then
        (if orderDirection = ''desc'' then ModTime a > ModTime b else ModTime a < ModTime b)
      else False)"

definition SortFiles ::
    "sort_slice \<Rightarrow> (string \<Rightarrow> string \<Rightarrow> bool) \<Rightarrow> Obj list \<Rightarrow> string \<Rightarrow> string \<Rightarrow> Obj list" where
  "SortFiles sortSlice naturalLess objs orderBy orderDirection =
     (if orderBy = [] then objs else sortSlice (files_less naturalLess orderBy orderDirection) objs)"

text \<open>\<^verbatim>\<open>sort.SliceStable\<close>, by insertion.\<close>

fun insert_stable :: "('a \<Rightarrow> 'a \<Rightarrow> bool) \<Rightarrow> 'a \<Rightarrow> 'a list \<Rightarrow> 'a list" where
  "insert_stable lt x [] = [x]"
| "insert_stable lt x (y # ys) = (if lt y x then y # insert_stable lt x ys else x # y # ys)"

definition SliceStable :: "('a \<Rightarrow> 'a \<Rightarrow> bool) \<Rightarrow> 'a list \<Rightarrow> 'a list" where
  "SliceStable lt xs = foldr (insert_stable lt) xs []"

definition folder_less :: "bool \<Rightarrow> Obj \<Rightarrow> Obj \<Rightarrow> bool" where
  "folder_less front a b =
     (if IsDir a \<or> IsDir b then
        (if \<not> IsDir a then \<not> front else if \<not> IsDir b then front else False)
      else False)"

definition ExtractFolder :: "Obj list \<Rightarrow> string \<Rightarrow> Obj list" where
  "ExtractFolder objs extractFolder =
     (if extractFolder = [] then objs else SliceStable (folder_less (extractFolder = ''front'')) objs)"

section \<open>Merging\<close>

record ObjMerge =
  regs :: "(string \<Rightarrow> bool) list"
  seen :: "string set"

definition NewObjMerge :: ObjMerge where
  "NewObjMerge = \<lparr>regs = [], seen = {}\<rparr>"

definition clickObj :: "ObjMerge \<Rightarrow> Obj \<Rightarrow> ObjMerge \<times> bool" where
  "clickObj om ob =
     (if list_ex (\<lambda>reg. reg (GetName ob)) (regs om) then (om, False)
      else (om\<lparr>seen := insert (GetName ob) (seen om)\<rparr>, GetName ob \<notin> seen om))"

fun insertObjs :: "ObjMerge \<Rightarrow> Obj list \<Rightarrow> Obj list \<Rightarrow> ObjMerge \<times> Obj list" where
  "insertObjs om objs [] = (om, objs)"
| "insertObjs om objs (ob # obs) =
     (let (om, add) = clickObj om ob in insertObjs om (if add then objs @ [ob] else objs) obs)"

definition Merge :: "ObjMerge \<Rightarrow> Obj list \<Rightarrow> Obj list \<Rightarrow> ObjMerge \<times> Obj list" where
  "Merge om objs objs' = (let (om, new) = insertObjs om [] objs in insertObjs om new objs')"

text \<open>\<^verbatim>\<open>regexp2.MustCompile\<close> panics on a pattern that does not compile.\<close>

fun compile_all :: "(string \<Rightarrow> (string \<Rightarrow> bool) option) \<Rightarrow> string list \<Rightarrow> (string \<Rightarrow> bool) list go" where
  "compile_all compile [] = Some []"
| "compile_all compile (r # rs) =
     (case compile r of None \<Rightarrow> panic | Some reg \<Rightarrow> map_option ((#) reg) (compile_all compile rs))"

definition InitHideReg :: "(string \<Rightarrow> (string \<Rightarrow> bool) option) \<Rightarrow> ObjMerge \<Rightarrow> string \<Rightarrow> ObjMerge go" where
  "InitHideReg compile om hides =
     map_option (\<lambda>rs. om\<lparr>regs := rs\<rparr>) (compile_all compile (Split CHR 0x0A hides))"

definition Reset :: "ObjMerge \<Rightarrow> ObjMerge" where
  "Reset om = om\<lparr>seen := {}\<rparr>"

section \<open>Facts\<close>

lemma raw_SetPath: "raw (SetPath p ob) = (raw ob)\<lparr>ObjPath := p\<rparr> \<or> SetPath p ob = ob \<or> raw (SetPath p ob) = raw ob"
  by (induction p ob rule: SetPath.induct) auto

lemma SetPath_sel [simp]: "GetName (SetPath p ob) = GetName ob" "IsDir (SetPath p ob) = IsDir ob" "GetSize (SetPath p ob) = GetSize ob"
  by (induction p ob rule: SetPath.induct) (auto simp: IsDir_def GetSize_def)

lemma IsDir_wrap [simp]: "IsDir (ObjWrapName n ob) = IsDir ob" "IsDir (WrapObjName cm ob) = IsDir ob"
  by (simp_all add: IsDir_def WrapObjName_def)

lemma insert_front:
  "\<lbrakk>\<forall>d \<in> set ds. lt d x = False; \<forall>y \<in> set ys. \<not> lt y x\<rbrakk> \<Longrightarrow> insert_stable lt x (ds @ ys) = x # ds @ ys"
  by (cases ds; cases ys; simp)

lemma insert_behind:
  "\<lbrakk>\<forall>d \<in> set ds. lt d x; \<forall>y \<in> set ys. \<not> lt y x\<rbrakk> \<Longrightarrow> insert_stable lt x (ds @ ys) = ds @ x # ys"
proof (induction ds)
  case Nil
  then show ?case by (cases ys) auto
qed auto

lemma SliceStable_folder:
  "SliceStable (folder_less front) objs = filter (\<lambda>ob. IsDir ob = front) objs @ filter (\<lambda>ob. IsDir ob \<noteq> front) objs"
proof (induction objs)
  case (Cons ob objs)
  show ?case
  proof (cases "IsDir ob = front")
    case True
    then show ?thesis using Cons
      by (simp add: SliceStable_def) (subst insert_front; auto simp: folder_less_def split: if_splits)
  next
    case False
    then show ?thesis using Cons
      by (simp add: SliceStable_def) (subst insert_behind; auto simp: folder_less_def split: if_splits)
  qed
qed (simp add: SliceStable_def)

text \<open>\<^const>\<open>ExtractFolder\<close> is the stable partition it is meant to be: folders first for \<^verbatim>\<open>front\<close>, files
  first for any other setting, nothing moved without one, the order inside either group kept.\<close>

theorem ExtractFolder_partitions:
  "ExtractFolder objs ext =
     (if ext = [] then objs
      else if ext = ''front'' then filter IsDir objs @ filter (\<lambda>ob. \<not> IsDir ob) objs
      else filter (\<lambda>ob. \<not> IsDir ob) objs @ filter IsDir objs)"
  by (simp add: ExtractFolder_def SliceStable_folder)

definition visible :: "ObjMerge \<Rightarrow> Obj \<Rightarrow> bool" where
  "visible om ob \<longleftrightarrow> (\<forall>reg \<in> set (regs om). \<not> reg (GetName ob))"

text \<open>The first visible object of every name not seen before.\<close>

fun firsts :: "(Obj \<Rightarrow> bool) \<Rightarrow> string set \<Rightarrow> Obj list \<Rightarrow> Obj list" where
  "firsts V S [] = []"
| "firsts V S (ob # obs) =
     (if V ob \<and> GetName ob \<notin> S then ob # firsts V (insert (GetName ob) S) obs else firsts V S obs)"

lemma insertObjs_firsts:
  "insertObjs om acc obs =
     (om\<lparr>seen := seen om \<union> GetName ` {ob \<in> set obs. visible om ob}\<rparr>, acc @ firsts (visible om) (seen om) obs)"
proof (induction obs arbitrary: om acc)
  case (Cons ob obs)
  have v: "visible (om\<lparr>seen := s\<rparr>) = visible om" for s by (simp add: visible_def fun_eq_iff)
  have ex: "list_ex (\<lambda>reg. reg (GetName ob)) (regs om) \<longleftrightarrow> \<not> visible om ob"
    by (auto simp: visible_def list_ex_iff)
  show ?case
    by (cases "visible om ob"; cases "GetName ob \<in> seen om")
      (auto simp: Cons.IH clickObj_def ex v insert_absorb Let_def intro!: arg_cong2 [where f = seen_update])
qed (simp add: Let_def)

lemma firsts_append:
  "firsts V S (xs @ ys) = firsts V S xs @ firsts V (S \<union> GetName ` {ob \<in> set xs. V ob}) ys"
proof (induction xs arbitrary: S)
  case (Cons x xs)
  have "GetName ` {ob \<in> set (x # xs). V ob} = (if V x then {GetName x} else {}) \<union> GetName ` {ob \<in> set xs. V ob}"
    by auto
  then have "S \<union> GetName ` {ob \<in> set (x # xs). V ob}
      = (if V x then insert (GetName x) S else S) \<union> GetName ` {ob \<in> set xs. V ob}" by simp
  then show ?case using Cons by (simp add: insert_absorb del: set_simps)
qed simp

lemma Merge_firsts: "snd (Merge om a b) = firsts (visible om) (seen om) (a @ b)"
proof -
  have "visible (om\<lparr>seen := s\<rparr>) = visible om" for s by (simp add: visible_def fun_eq_iff)
  then show ?thesis by (simp add: Merge_def insertObjs_firsts firsts_append)
qed

lemma firsts_names:
  assumes "\<And>ob ob'. GetName ob = GetName ob' \<Longrightarrow> V ob = V ob'"
  shows "GetName ` set (firsts V S obs) = GetName ` {ob \<in> set obs. V ob} - S"
proof (induction obs arbitrary: S)
  case (Cons ob obs)
  have "GetName ` {x \<in> set (ob # obs). V x} = (if V ob then {GetName ob} else {}) \<union> GetName ` {x \<in> set obs. V x}"
    by auto
  with Cons [of S] Cons [of "insert (GetName ob) S"] show ?case by auto
qed simp

lemma firsts_distinct: "distinct (map GetName (firsts V S obs)) \<and> GetName ` set (firsts V S obs) \<inter> S = {}"
  by (induction V S obs rule: firsts.induct) auto

lemma firsts_find:
  assumes V: "\<And>ob ob'. GetName ob = GetName ob' \<Longrightarrow> V ob = V ob'"
  shows "map (\<lambda>ob. find (\<lambda>x. GetName x = GetName ob) obs) (firsts V S obs) = map Some (firsts V S obs)"
proof (induction obs arbitrary: S)
  case (Cons ob obs)
  have "GetName x \<noteq> GetName ob" if "x \<in> set (firsts V (insert (GetName ob) S) obs)" for x
  proof
    assume "GetName x = GetName ob"
    with imageI [OF that, of GetName] firsts_distinct [of V "insert (GetName ob) S" obs] show False by auto
  qed
  moreover have "GetName x \<noteq> GetName ob" if mem: "x \<in> set (firsts V S obs)" and nf: "\<not> (V ob \<and> GetName ob \<notin> S)" for x
  proof
    assume eq: "GetName x = GetName ob"
    have names: "GetName ` set (firsts V S obs) = GetName ` {ob \<in> set obs. V ob} - S"
      by (rule firsts_names) (rule V)
    have "GetName x \<in> GetName ` {ob \<in> set obs. V ob} - S"
      unfolding names [symmetric] using mem by (rule imageI)
    then obtain y where y: "GetName y = GetName x" "V y" "GetName x \<notin> S" by auto
    with eq V [of y ob] nf show False by simp
  qed
  ultimately have
    "\<forall>x \<in> set (firsts V (insert (GetName ob) S) obs). GetName ob \<noteq> GetName x"
    "\<not> (V ob \<and> GetName ob \<notin> S) \<Longrightarrow> \<forall>x \<in> set (firsts V S obs). GetName ob \<noteq> GetName x"
    by metis+
  then show ?case using Cons [of S] Cons [of "insert (GetName ob) S"] by simp
qed simp

lemma subseq_firsts: "subseq (firsts V S obs) obs"
  by (induction V S obs rule: firsts.induct) auto

text \<open>What a merged listing holds: for every name that no hide pattern matches and that was not seen
  before, exactly one object, and it is the first one of that name (a real file hides the virtual
  folder of the same name); the order of the listing is kept.\<close>

theorem Merge_first_of_each_visible_name:
  "distinct (map GetName (snd (Merge om objs objs')))
   \<and> GetName ` set (snd (Merge om objs objs'))
       = GetName ` {ob \<in> set (objs @ objs'). visible om ob} - seen om
   \<and> map (\<lambda>ob. find (\<lambda>x. GetName x = GetName ob) (objs @ objs')) (snd (Merge om objs objs'))
       = map Some (snd (Merge om objs objs'))
   \<and> subseq (snd (Merge om objs objs')) (objs @ objs')"
proof -
  have V: "visible om ob = visible om ob'" if "GetName ob = GetName ob'" for ob ob'
    using that by (simp add: visible_def)
  show ?thesis
    unfolding Merge_firsts
    using firsts_distinct firsts_names [OF V] firsts_find [OF V] subseq_firsts
    by (simp del: set_append map_eq_conv)
qed


end
