(* ===== verification/UrlTree.thy ===== *)
theory UrlTree
  imports ObjModel
begin

text \<open>
  The driver \<^verbatim>\<open>drivers/url_tree\<close>: a tree of folders and of files that are URLs, kept as indented
  text in the storage.  \<open>BuildTree\<close> reads the text, \<open>StringifyTree\<close> writes it, and the operations
  of the driver change the tree and write the text back.  \<^verbatim>\<open>getSizeFromUrl\<close>, an HTTP request, is
  the argument \<open>head\<close>, with \<^const>\<open>None\<close> for its errors.  A pointer into the tree is the position of
  the node, a list of child indices.
\<close>

section \<open>Nodes (types.go)\<close>

datatype Node = Node (Url: string) (Name: string) (Level: int) (Modified: int) (NSize: int) (Children: "Node list")

definition isFile :: "Node \<Rightarrow> bool" where
  "isFile node \<longleftrightarrow> Url node \<noteq> []"

fun getByPath :: "Node \<Rightarrow> string list \<Rightarrow> Node option"
  and getByPath_children :: "Node list \<Rightarrow> string list \<Rightarrow> Node option" where
  "getByPath node [] = None"
| "getByPath node (p # ps) =
     (if Name node \<noteq> p then None
      else if ps = [] then Some node
      else getByPath_children (Children node) ps)"
| "getByPath_children [] ps = None"
| "getByPath_children (child # cs) ps =
     (case getByPath child ps of Some tmp \<Rightarrow> Some tmp | None \<Rightarrow> getByPath_children cs ps)"

fun calSize :: "Node \<Rightarrow> Node" where
  "calSize (Node u n l md sz cs) =
     (if u \<noteq> [] then Node u n l md sz cs
      else let cs = map calSize cs
           in Node u n l md (foldl (\<lambda>s c. wrap64 (s + NSize c)) 0 cs) cs)"

fun setLevel :: "int \<Rightarrow> Node \<Rightarrow> Node" where
  "setLevel level (Node u n l md sz cs) = Node u n level md sz (map (setLevel (level + 1)) cs)"

fun deepCopy :: "int \<Rightarrow> Node \<Rightarrow> Node" where
  "deepCopy level (Node u n l md sz cs) = Node u n level md sz (map (deepCopy (level + 1)) cs)"

section \<open>Reading the text (util.go)\<close>

definition isFolder :: "string \<Rightarrow> bool" where
  "isFolder line = HasSuffix line '':''"

type_synonym head_size = "string \<Rightarrow> int option"

definition parse_info :: "string \<Rightarrow> err + (string \<times> int \<times> int \<times> bool)" where
  "parse_info info =
     (let parts = Split CHR '':'' info; name = parts ! 0
      in if length parts > 1 then
           (case ParseInt (parts ! 1) of
              None \<Rightarrow> Inl (ErrMsg ''invalid line: file size must be an integer'')
            | Some sz \<Rightarrow>
                if length parts > 2 then
                  (case ParseInt (parts ! 2) of
                     None \<Rightarrow> Inl (ErrMsg ''invalid line: file modified must be an unix timestamp'')
                   | Some md \<Rightarrow> Inr (name, sz, md, True))
                else Inr (name, sz, 0, True))
         else Inr (name, 0, 0, False))"

definition parseFileLine :: "head_size \<Rightarrow> string \<Rightarrow> bool \<Rightarrow> err + Node" where
  "parseFileLine head line headSize =
     (if \<not> Contains line ''http://'' \<and> \<not> Contains line ''https://''
      then Inl (ErrMsg ''invalid line: url is required for file'')
      else
        let index = (case Index line ''http://'' of Some i \<Rightarrow> i | None \<Rightarrow> the (Index line ''https://''));
            url = drop index line; info = take index line;
            parsed = (if index > 0 then
                        (if \<not> HasSuffix info '':'' then Inl (ErrMsg ''invalid line: file info must end with :'')
                         else if butlast info = [] then Inl (ErrMsg ''invalid line: file name can't be empty'')
                         else parse_info (butlast info))
                      else Inr (path_Base url, 0, 0, False))
        in case parsed of
             Inl e \<Rightarrow> Inl e
           | Inr (name, sz, md, haveSize) \<Rightarrow>
               let sz = (if \<not> haveSize \<and> headSize then (case head url of None \<Rightarrow> sz | Some s \<Rightarrow> s) else sz)
               in Inr (Node url name 0 md sz []))"

text \<open>
  The stack of \<^verbatim>\<open>BuildTree\<close>, top first.  Every node on it is the last child of the node below; an
  entry carries its node, and the link to the one below is made when it leaves the stack.
\<close>

definition add_child :: "Node \<Rightarrow> Node \<Rightarrow> Node" where
  "add_child node child = Node (Url node) (Name node) (Level node) (Modified node) (NSize node) (Children node @ [child])"

fun pop_to :: "int \<Rightarrow> Node list \<Rightarrow> Node list" where
  "pop_to level (node # below # rest) =
     (if level \<le> Level node then pop_to level (add_child below node # rest) else node # below # rest)"
| "pop_to level stack = stack"

fun unwind :: "Node list \<Rightarrow> Node" where
  "unwind (node # below # rest) = unwind (add_child below node # rest)"
| "unwind [node] = node"
| "unwind [] = Node [] ''root'' (-1) 0 0 []"

definition count_spaces :: "string \<Rightarrow> nat" where
  "count_spaces line = length (takeWhile (\<lambda>c. c = CHR '' '') line)"

definition add_line :: "head_size \<Rightarrow> bool \<Rightarrow> string \<Rightarrow> Node list \<Rightarrow> err + Node list" where
  "add_line head headSize line0 stack =
     (let indent = count_spaces line0
      in if indent mod 2 \<noteq> 0 then Inl (ErrMsg ''the line is not a multiple of 2'')
         else
           let level = int (indent div 2); line = TrimSpace (drop indent line0)
           in if line = [] then Inr stack
              else let stack = pop_to level stack
                   in if isFolder line then Inr (Node [] (TrimSuffix line '':'') level 0 0 [] # stack)
                      else case parseFileLine head line headSize of
                             Inl e \<Rightarrow> Inl e
                           | Inr (Node u n _ md sz cs) \<Rightarrow>
                               Inr (add_child (hd stack) (Node u n level md sz cs) # tl stack))"

fun add_lines :: "head_size \<Rightarrow> bool \<Rightarrow> string list \<Rightarrow> Node list \<Rightarrow> err + Node list" where
  "add_lines head headSize [] stack = Inr stack"
| "add_lines head headSize (line # lines) stack =
     (case add_line head headSize line stack of
        Inl e \<Rightarrow> Inl e
      | Inr stack \<Rightarrow> add_lines head headSize lines stack)"

definition BuildTree :: "head_size \<Rightarrow> string \<Rightarrow> bool \<Rightarrow> err + Node" where
  "BuildTree head txt headSize =
     (case add_lines head headSize (Split CHR 0x0A txt) [Node [] ''root'' (-1) 0 0 []] of
        Inl e \<Rightarrow> Inl e
      | Inr stack \<Rightarrow> Inr (unwind stack))"

section \<open>Writing the text\<close>

definition indent_of :: "int \<Rightarrow> string" where
  "indent_of level = replicate (2 * nat level) CHR '' ''"

definition file_line :: "Node \<Rightarrow> string" where
  "file_line node =
     (if NSize node = 0 \<and> Modified node = 0 then
        (if path_Base (Url node) = Name node then Url node else Name node @ '':'' @ Url node)
      else Name node @ '':''
        @ (if NSize node \<noteq> 0 \<or> Modified node \<noteq> 0 then FormatInt (NSize node) @ '':'' else [])
        @ (if Modified node \<noteq> 0 then FormatInt (Modified node) @ '':'' else [])
        @ Url node)"

fun StringifyTree :: "Node \<Rightarrow> string" where
  "StringifyTree (Node u n l md sz cs) =
     (if l = -1 then Join [CHR 0x0A] (map StringifyTree cs)
      else indent_of l @
        (if u = [] then n @ '':'' @ concat (map (\<lambda>c. CHR 0x0A # StringifyTree c) cs)
         else file_line (Node u n l md sz cs)))"

definition splitPath :: "string \<Rightarrow> string list" where
  "splitPath path =
     (if path = ''/'' then [''root'']
      else let path = (if HasSuffix path ''/'' then butlast path else path)
           in ''root'' # tl (Split CHR ''/'' path))"

definition GetNodeFromRootByPath :: "Node \<Rightarrow> string \<Rightarrow> Node option" where
  "GetNodeFromRootByPath root path = getByPath root (splitPath path)"

definition nodeToObj :: "Node option \<Rightarrow> string \<Rightarrow> err + Object" where
  "nodeToObj node path =
     (case node of
        None \<Rightarrow> Inl ObjectNotFound
      | Some n \<Rightarrow> Inr \<lparr>ObjID = [], ObjPath = path, ObjName = Name n, ObjSize = NSize n, ObjModified = Modified n,
                       IsFolder = (\<not> isFile n)\<rparr>)"

section \<open>Positions\<close>

text \<open>The position of the node that \<^verbatim>\<open>getByPath\<close> points to.\<close>

fun posByPath :: "Node \<Rightarrow> string list \<Rightarrow> nat list option"
  and posByPath_children :: "nat \<Rightarrow> Node list \<Rightarrow> string list \<Rightarrow> nat list option" where
  "posByPath node [] = None"
| "posByPath node (p # ps) =
     (if Name node \<noteq> p then None
      else if ps = [] then Some []
      else posByPath_children 0 (Children node) ps)"
| "posByPath_children i [] ps = None"
| "posByPath_children i (child # cs) ps =
     (case posByPath child ps of Some pos \<Rightarrow> Some (i # pos) | None \<Rightarrow> posByPath_children (Suc i) cs ps)"

fun node_at :: "Node \<Rightarrow> nat list \<Rightarrow> Node" where
  "node_at node [] = node"
| "node_at node (i # pos) = node_at (Children node ! i) pos"

fun upd_at :: "nat list \<Rightarrow> (Node \<Rightarrow> Node) \<Rightarrow> Node \<Rightarrow> Node" where
  "upd_at [] f node = f node"
| "upd_at (i # pos) f (Node u n l md sz cs) = Node u n l md sz (cs[i := upd_at pos f (cs ! i)])"

definition set_children :: "Node list \<Rightarrow> Node \<Rightarrow> Node" where
  "set_children cs node = Node (Url node) (Name node) (Level node) (Modified node) (NSize node) cs"

definition set_name :: "string \<Rightarrow> Node \<Rightarrow> Node" where
  "set_name n node = Node (Url node) n (Level node) (Modified node) (NSize node) (Children node)"

text \<open>
  Where a node ends up when the children named \<open>name\<close> of the node at \<open>parent\<close> are taken out: the
  later children move up; \<^const>\<open>None\<close> when it was in a part that is taken out.
\<close>

fun shift_pos :: "Node \<Rightarrow> nat list \<Rightarrow> string \<Rightarrow> nat list \<Rightarrow> nat list option" where
  "shift_pos node [] name (j # pos) =
     (if Name (Children node ! j) = name then None
      else Some (length (filter (\<lambda>c. Name c \<noteq> name) (take j (Children node))) # pos))"
| "shift_pos node (i # parent) name (j # pos) =
     (if i = j then map_option ((#) j) (shift_pos (Children node ! i) parent name pos) else Some (j # pos))"
| "shift_pos node parent name pos = Some pos"

section \<open>The driver (driver.go)\<close>

record Urls =
  Writable :: bool
  HeadSize :: bool
  DownloadParams :: string
  UrlStructure :: string
  treeRoot :: Node
  downloadParamsTmpl :: "string option"

text \<open>
  The packages \<^verbatim>\<open>text/template\<close> and \<^verbatim>\<open>net/url\<close> are arguments: \<open>parses\<close> says whether a template
  parses, \<open>execute\<close> executes it on a node and its path, and \<open>inject\<close> adds a query string to a URL.
\<close>

definition Init :: "(string \<Rightarrow> bool) \<Rightarrow> head_size \<Rightarrow> Urls \<Rightarrow> Urls \<times> err option" where
  "Init parses head d =
     (case BuildTree head (UrlStructure d) (HeadSize d) of
        Inl e \<Rightarrow> (d, Some e)
      | Inr node \<Rightarrow>
          let d = d\<lparr>treeRoot := calSize node, downloadParamsTmpl := None\<rparr>;
              params = TrimSpace (DownloadParams d)
          in if params = [] then (d, None)
             else if parses params then (d\<lparr>downloadParamsTmpl := Some params\<rparr>, None)
             else (d, Some (ErrMsg ''failed to parse download_params'')))"

definition buildDownloadURL ::
    "(string \<Rightarrow> Node \<Rightarrow> string \<Rightarrow> string option) \<Rightarrow> (string \<Rightarrow> string \<Rightarrow> err + string) \<Rightarrow> string \<Rightarrow> Node \<Rightarrow> string \<Rightarrow> err + string" where
  "buildDownloadURL execute inject tmpl node path =
     (case execute tmpl node path of
        None \<Rightarrow> Inl (ErrMsg ''failed to execute download_params'')
      | Some out \<Rightarrow>
          let rendered = TrimPrefix (TrimSpace out) ''?''
          in if rendered = [] then Inr (Url node) else inject (Url node) rendered)"

definition Link ::
    "(string \<Rightarrow> Node \<Rightarrow> string \<Rightarrow> string option) \<Rightarrow> (string \<Rightarrow> string \<Rightarrow> err + string) \<Rightarrow> Urls \<Rightarrow> string \<Rightarrow> string \<Rightarrow> err + string" where
  "Link execute inject d path argsType =
     (case GetNodeFromRootByPath (treeRoot d) path of
        None \<Rightarrow> Inl ObjectNotFound
      | Some node \<Rightarrow>
          if isFile node then
            (case downloadParamsTmpl d of
               None \<Rightarrow> Inr (Url node)
             | Some tmpl \<Rightarrow> if argsType \<noteq> ''preview'' then buildDownloadURL execute inject tmpl node path
                            else Inr (Url node))
          else Inl NotFile)"

definition Get :: "Urls \<Rightarrow> string \<Rightarrow> err + Object" where
  "Get d path = nodeToObj (GetNodeFromRootByPath (treeRoot d) path) path"

definition List :: "Urls \<Rightarrow> string \<Rightarrow> err + Object list" where
  "List d dir =
     (case GetNodeFromRootByPath (treeRoot d) dir of
        None \<Rightarrow> Inl ObjectNotFound
      | Some node \<Rightarrow>
          if isFile node then Inl NotFolder
          else Inr (map (\<lambda>c. projr (nodeToObj (Some c) (path_Join dir (Name c)))) (Children node)))"

definition updateStorage :: "Urls \<Rightarrow> Urls" where
  "updateStorage d = d\<lparr>UrlStructure := StringifyTree (treeRoot d)\<rparr>"

definition pos_of :: "Urls \<Rightarrow> string \<Rightarrow> nat list option" where
  "pos_of d path = posByPath (treeRoot d) (splitPath path)"

definition MakeDir :: "Urls \<Rightarrow> string \<Rightarrow> string \<Rightarrow> Urls \<times> (err + Object)" where
  "MakeDir d parentDir dirName =
     (if \<not> Writable d then (d, Inl PermissionDenied)
      else case pos_of d parentDir of
             None \<Rightarrow> (d, Inl ObjectNotFound)
           | Some pos \<Rightarrow>
               let node = node_at (treeRoot d) pos
               in if isFile node then (d, Inl NotFolder)
                  else let dir = Node [] dirName (Level node + 1) 0 0 []
                       in (updateStorage (d\<lparr>treeRoot := upd_at pos (\<lambda>n. add_child n dir) (treeRoot d)\<rparr>),
                           nodeToObj (Some dir) (path_Join parentDir dirName)))"

definition Move :: "Urls \<Rightarrow> string \<Rightarrow> string \<Rightarrow> Urls \<times> (err + Object)" where
  "Move d src dstDir =
     (if \<not> Writable d then (d, Inl PermissionDenied)
      else if HasPrefix dstDir src then (d, Inl (ErrMsg ''cannot move parent dir to child''))
      else case pos_of d dstDir of
        None \<Rightarrow> (d, Inl NotFolder)
      | Some dpos \<Rightarrow>
          let dstNode = node_at (treeRoot d) dpos
          in if isFile dstNode then (d, Inl NotFolder)
             else let (srcDir, srcName) = path_Split src
                  in case pos_of d srcDir of
                       None \<Rightarrow> (d, Inl ObjectNotFound)
                     | Some ppos \<Rightarrow>
                         let srcParent = node_at (treeRoot d) ppos;
                             found = filter (\<lambda>c. Name c = srcName) (Children srcParent)
                         in if found = [] then (d, Inl ObjectNotFound)
                            else
                              let srcNode = setLevel (Level dstNode + 1) (last found);
                                  root1 = upd_at ppos (\<lambda>n. set_children (filter (\<lambda>c. Name c \<noteq> srcName) (Children n)) n) (treeRoot d);
                                  obj = (\<lambda>n. nodeToObj (Some n) (path_Join dstDir srcName))
                              in case shift_pos (treeRoot d) ppos srcName dpos of
                                   None \<Rightarrow> (updateStorage (d\<lparr>treeRoot := calSize root1\<rparr>), obj srcNode)
                                 | Some pos \<Rightarrow>
                                     (updateStorage (d\<lparr>treeRoot := calSize (upd_at pos (\<lambda>n. add_child n srcNode) root1)\<rparr>),
                                      obj (calSize srcNode)))"

definition Rename :: "Urls \<Rightarrow> string \<Rightarrow> string \<Rightarrow> Urls \<times> (err + Object)" where
  "Rename d src newName =
     (if \<not> Writable d then (d, Inl PermissionDenied)
      else case pos_of d src of
             None \<Rightarrow> (d, Inl ObjectNotFound)
           | Some pos \<Rightarrow>
               (updateStorage (d\<lparr>treeRoot := upd_at pos (set_name newName) (treeRoot d)\<rparr>),
                nodeToObj (Some (set_name newName (node_at (treeRoot d) pos))) (path_Join (path_Dir src) newName)))"

definition Copy :: "Urls \<Rightarrow> string \<Rightarrow> string \<Rightarrow> Urls \<times> (err + Object)" where
  "Copy d src dstDir =
     (if \<not> Writable d then (d, Inl PermissionDenied)
      else if HasPrefix dstDir src then (d, Inl (ErrMsg ''cannot copy parent dir to child''))
      else case pos_of d dstDir of
        None \<Rightarrow> (d, Inl NotFolder)
      | Some dpos \<Rightarrow>
          let dstNode = node_at (treeRoot d) dpos
          in if isFile dstNode then (d, Inl NotFolder)
             else case pos_of d src of
                    None \<Rightarrow> (d, Inl ObjectNotFound)
                  | Some spos \<Rightarrow>
                      let newNode = deepCopy (Level dstNode + 1) (node_at (treeRoot d) spos)
                      in (updateStorage (d\<lparr>treeRoot := calSize (upd_at dpos (\<lambda>n. add_child n newNode) (treeRoot d))\<rparr>),
                          nodeToObj (Some (calSize newNode)) (path_Join dstDir (path_Base src))))"

definition Remove :: "Urls \<Rightarrow> string \<Rightarrow> Urls \<times> err option" where
  "Remove d obj =
     (if \<not> Writable d then (d, Some PermissionDenied)
      else let (objDir, objName) = path_Split obj
           in case pos_of d objDir of
                None \<Rightarrow> (d, Some ObjectNotFound)
              | Some pos \<Rightarrow>
                  let parent = node_at (treeRoot d) pos;
                      found = filter (\<lambda>c. Name c = objName) (Children parent)
                  in if found = [] then (d, Some ObjectNotFound)
                     else
                       let root = upd_at pos (\<lambda>n. set_children (filter (\<lambda>c. Name c \<noteq> objName) (Children n)) n) (treeRoot d);
                           root = (if NSize (last found) > 0 then calSize root else root)
                       in (updateStorage (d\<lparr>treeRoot := root\<rparr>), None))"

definition PutURL :: "head_size \<Rightarrow> Urls \<Rightarrow> string \<Rightarrow> string \<Rightarrow> string \<Rightarrow> Urls \<times> (err + Object)" where
  "PutURL head d dstDir name url =
     (if \<not> Writable d then (d, Inl PermissionDenied)
      else case pos_of d dstDir of
        None \<Rightarrow> (d, Inl NotFolder)
      | Some pos \<Rightarrow>
          let dirNode = node_at (treeRoot d) pos
          in if isFile dirNode then (d, Inl NotFolder)
             else
               let sz = (if HeadSize d then head url else None);
                   newNode = Node url name (Level dirNode + 1) 0 (case sz of None \<Rightarrow> 0 | Some s \<Rightarrow> s) [];
                   root = upd_at pos (\<lambda>n. add_child n newNode) (treeRoot d);
                   root = (if sz = None then root else calSize root)
               in (updateStorage (d\<lparr>treeRoot := root\<rparr>), nodeToObj (Some newNode) (path_Join dstDir name)))"

definition Put :: "head_size \<Rightarrow> Urls \<Rightarrow> string \<Rightarrow> string \<Rightarrow> Urls \<times> err option" where
  "Put head d dstDir streamName =
     (if \<not> Writable d then (d, Some PermissionDenied)
      else case pos_of d dstDir of
        None \<Rightarrow> (d, Some ObjectNotFound)
      | Some pos \<Rightarrow>
          if isFile (node_at (treeRoot d) pos) then (d, Some NotFolder)
          else case parseFileLine head streamName (HeadSize d) of
                 Inl e \<Rightarrow> (d, Some e)
               | Inr file \<Rightarrow>
                   (updateStorage (d\<lparr>treeRoot := upd_at pos (\<lambda>n. add_child n file) (treeRoot d)\<rparr>), None))"

end
