(* ===== verification/UrlTreeText.thy ===== *)
theory UrlTreeText
  imports UrlTree
begin

text \<open>
  The text of \<^verbatim>\<open>drivers/url_tree\<close> and its tree: a saved tree is read back.  A tree is \<open>node_ok\<close> when
  its text determines it: names and URLs fit on a line, and the indentation of every node puts it
  below its parent.  The proof follows the lines of the text (\<open>lines_of\<close>) through the stack of
  \<^const>\<open>BuildTree\<close>.
\<close>

section \<open>Trees the text can express\<close>

definition url_ok :: "string \<Rightarrow> bool" where
  "url_ok u \<longleftrightarrow> (HasPrefix u ''http://'' \<or> HasPrefix u ''https://'' \<and> \<not> Contains u ''http://'')
     \<and> CHR 0x0A \<notin> set u \<and> last u \<noteq> CHR '':'' \<and> \<not> is_space (last u)"

definition file_name_ok :: "string \<Rightarrow> bool" where
  "file_name_ok n \<longleftrightarrow> n \<noteq> [] \<and> CHR '':'' \<notin> set n \<and> CHR 0x0A \<notin> set n \<and> \<not> is_space (hd n)"

definition folder_name_ok :: "string \<Rightarrow> bool" where
  "folder_name_ok n \<longleftrightarrow> CHR 0x0A \<notin> set n \<and> (n = [] \<or> \<not> is_space (hd n))"

definition file_ok :: "Node \<Rightarrow> bool" where
  "file_ok f \<longleftrightarrow> url_ok (Url f) \<and> Children f = [] \<and> int64_range (NSize f) \<and> int64_range (Modified f)
     \<and> (file_name_ok (Name f) \<or> Name f = path_Base (Url f) \<and> NSize f = 0 \<and> Modified f = 0)"

text \<open>A folder is followed by a sibling that is not indented deeper, or the text reads it as a child.\<close>

fun siblings_ok :: "Node list \<Rightarrow> bool" where
  "siblings_ok (a # b # cs) \<longleftrightarrow> (isFile a \<or> Level b \<le> Level a) \<and> siblings_ok (b # cs)"
| "siblings_ok cs \<longleftrightarrow> True"

fun node_ok :: "Node \<Rightarrow> bool" where
  "node_ok (Node u n l md sz cs) \<longleftrightarrow>
     (if u = [] then folder_name_ok n \<and> md = 0 \<and> siblings_ok cs \<and> (\<forall>c \<in> set cs. l < Level c \<and> node_ok c)
      else file_ok (Node u n l md sz cs))"

definition tree_ok :: "Node \<Rightarrow> bool" where
  "tree_ok t \<longleftrightarrow> node_ok t \<and> Level t = -1 \<and> Name t = ''root'' \<and> \<not> isFile t"

text \<open>
  What reading the text of a tree gives: a folder has the size 0 until \<^const>\<open>calSize\<close>, and the size
  of a file whose line has none is asked for when \<open>HeadSize\<close> is set.
\<close>

fun reloaded :: "head_size \<Rightarrow> bool \<Rightarrow> Node \<Rightarrow> Node" where
  "reloaded head hs (Node u n l md sz cs) =
     (if u = [] then Node u n l md 0 (map (reloaded head hs) cs)
      else Node u n l md (if hs \<and> sz = 0 \<and> md = 0 then (case head u of None \<Rightarrow> 0 | Some s \<Rightarrow> s) else sz) cs)"

lemma reloaded_sel [simp]:
  "Level (reloaded head hs c) = Level c" "Name (reloaded head hs c) = Name c"
  "Url (reloaded head hs c) = Url c" "isFile (reloaded head hs c) = isFile c"
  by (cases c; simp add: isFile_def)+

lemma add_child_sel [simp]:
  "Level (add_child p c) = Level p" "Name (add_child p c) = Name p" "Url (add_child p c) = Url p"
  "isFile (add_child p c) = isFile p" "Children (add_child p c) = Children p @ [c]"
  by (simp_all add: add_child_def isFile_def)

section \<open>The line of a file\<close>

definition infos :: "Node \<Rightarrow> string list" where
  "infos f = (if NSize f = 0 \<and> Modified f = 0 \<and> path_Base (Url f) = Name f then []
     else Name f # (if NSize f \<noteq> 0 \<or> Modified f \<noteq> 0 then [FormatInt (NSize f)] else [])
       @ (if Modified f \<noteq> 0 then [FormatInt (Modified f)] else []))"

definition info_text :: "string list \<Rightarrow> string" where
  "info_text xs = concat (map (\<lambda>x. x @ '':'') xs)"

lemma file_line_infos: "file_line f = info_text (infos f) @ Url f"
  by (simp add: file_line_def infos_def info_text_def)

lemma info_text_Join: "xs \<noteq> [] \<Longrightarrow> info_text xs = Join '':'' xs @ '':''"
  by (induction xs rule: list_nonempty_induct) (auto simp: info_text_def Join_Cons)

text \<open>No URL starts inside the information before it: there a colon is never followed by a slash.\<close>

lemma Split_hd_after:
  assumes "s = u @ c # d # v" "d \<noteq> c"
  shows "\<exists>x \<in> set (tl (Split c s)). x \<noteq> [] \<and> hd x = d"
proof -
  obtain y ys where v: "Split c v = y # ys" by (cases "Split c v") auto
  obtain z zs where u: "Split c u = z # zs" by (cases "Split c u") auto
  have "Split c s = (z # zs) @ (d # y) # ys"
    using assms by (simp add: Split_append_sep u v)
  then show ?thesis by auto
qed

definition info_ok :: "string list \<Rightarrow> bool" where
  "info_ok xs \<longleftrightarrow> (\<forall>x \<in> set xs. CHR '':'' \<notin> set x) \<and> (\<forall>x \<in> set (tl xs). x \<noteq> [] \<and> hd x \<noteq> CHR ''/'')"

lemma Split_info_text:
  assumes "xs \<noteq> []" "info_ok xs"
  shows "Split CHR '':'' (info_text xs) = xs @ [[]]"
  using assms by (simp add: info_text_Join Split_append_sep Split_Join info_ok_def)

lemma info_no_slash:
  assumes "info_ok xs" "i + 1 < length (info_text xs)" "info_text xs ! i = CHR '':''"
  shows "info_text xs ! (i + 1) \<noteq> CHR ''/''"
proof
  assume slash: "info_text xs ! (i + 1) = CHR ''/''"
  from assms have ne: "xs \<noteq> []" by (auto simp: info_text_def)
  have "info_text xs = take i (info_text xs) @ CHR '':'' # CHR ''/'' # drop (i + 2) (info_text xs)"
    using assms slash by (metis Suc_eq_plus1 Suc_lessD add_2_eq_Suc' id_take_nth_drop Cons_nth_drop_Suc)
  from Split_hd_after [OF this] obtain x where "x \<in> set (tl (xs @ [[]]))" "x \<noteq> []" "hd x = CHR ''/''"
    using Split_info_text [OF ne assms(1)] by auto
  with ne assms(1) show False by (auto simp: info_ok_def)
qed

lemma no_early_url:
  assumes xs: "info_ok xs" and w: "CHR '':'' \<notin> set w" "w \<noteq> []" and u: "u \<noteq> []" "hd u \<noteq> CHR ''/''"
    and k: "k < length (info_text xs)"
  shows "\<not> prefix (w @ ''://'') (drop k (info_text xs @ u))"
proof
  assume "prefix (w @ ''://'') (drop k (info_text xs @ u))"
  then obtain v where v: "drop k (info_text xs @ u) = w @ ''://'' @ v" by (auto simp: prefix_def)
  have at: "(info_text xs @ u) ! (k + j) = (w @ ''://'' @ v) ! j" if "k + j < length (info_text xs @ u)" for j
    using v k by (metis nth_drop that less_imp_le_nat length_append trans_le_add1)
  have len: "length (info_text xs @ u) = k + length (w @ ''://'' @ v)"
    using arg_cong [OF v, of length] k by simp
  from k have ne: "xs \<noteq> []" by (auto simp: info_text_def)
  then have lst: "info_text xs ! (length (info_text xs) - 1) = CHR '':''"
    by (simp add: info_text_Join)
  show False
  proof (cases "k + length w < length (info_text xs)")
    case True
    have c: "info_text xs ! (k + length w) = CHR '':''"
      using at [of "length w"] True len by (simp add: nth_append)
    have s: "(info_text xs @ u) ! (k + (length w + 1)) = CHR ''/''"
      using at [of "length w + 1"] len by (simp add: nth_append)
    show False
    proof (cases "k + length w + 1 < length (info_text xs)")
      case True
      with info_no_slash [OF xs _ c] s show False by (simp add: nth_append add.assoc)
    next
      case False
      with True have "k + (length w + 1) = length (info_text xs)" by simp
      with s u show False by (simp add: nth_append hd_conv_nth)
    qed
  next
    case False
    define j where "j = length (info_text xs) - 1 - k"
    have j: "j < length w" "k + j = length (info_text xs) - 1" using False k by (auto simp: j_def)
    have "(info_text xs @ u) ! (k + j) = w ! j" using at [of j] j len k by (simp add: nth_append)
    moreover have "length (info_text xs) - 1 < length (info_text xs)" using k by linarith
    then have "(info_text xs @ u) ! (k + j) = CHR '':''" using j lst by (simp add: nth_append)
    ultimately show False using w j by (metis nth_mem)
  qed
qed

lemma Index_skip:
  assumes "\<And>k. k < length a \<Longrightarrow> \<not> prefix sub (drop k (a @ b))"
  shows "Index (a @ b) sub = map_option (\<lambda>i. length a + i) (Index b sub)"
  using assms
proof (induction a)
  case (Cons c a)
  have "\<not> prefix sub (c # a @ b)" using Cons.prems [of 0] by simp
  moreover have "\<not> prefix sub (drop k (a @ b))" if "k < length a" for k
    using Cons.prems [of "Suc k"] that by simp
  ultimately show ?case using Cons.IH by (simp add: option.map_comp comp_def)
qed (cases "Index b sub"; simp)

lemma Index_prefix: "prefix sub s \<Longrightarrow> Index s sub = Some 0"
  by (cases s) auto

lemma url_index:
  assumes xs: "info_ok xs" and u: "url_ok u"
  defines "line \<equiv> info_text xs @ u"
  shows "(case Index line ''http://'' of Some i \<Rightarrow> i | None \<Rightarrow> the (Index line ''https://'')) = length (info_text xs)"
    and "Contains line ''http://'' \<or> Contains line ''https://''"
proof -
  have h: "u \<noteq> []" "hd u \<noteq> CHR ''/''" using u by (auto simp: url_ok_def HasPrefix_def prefix_def)
  have skip: "Index line (w @ ''://'') = map_option (\<lambda>i. length (info_text xs) + i) (Index u (w @ ''://''))"
    if "CHR '':'' \<notin> set w" "w \<noteq> []" for w
    unfolding line_def by (rule Index_skip) (rule no_early_url [OF xs that h])
  have hs: "Index line ''http://'' = map_option (\<lambda>i. length (info_text xs) + i) (Index u ''http://'')"
    "Index line ''https://'' = map_option (\<lambda>i. length (info_text xs) + i) (Index u ''https://'')"
    using skip [of "''http''"] skip [of "''https''"] by simp_all
  from u show "(case Index line ''http://'' of Some i \<Rightarrow> i | None \<Rightarrow> the (Index line ''https://'')) = length (info_text xs)"
    and "Contains line ''http://'' \<or> Contains line ''https://''"
    unfolding url_ok_def HasPrefix_def Contains_def hs by (auto simp: Index_prefix)
qed

lemma info_ok_infos: "file_ok f \<Longrightarrow> info_ok (infos f)"
proof -
  assume f: "file_ok f"
  have num: "CHR '':'' \<notin> set (FormatInt k)" "FormatInt k \<noteq> []" "hd (FormatInt k) \<noteq> CHR ''/''" for k
  proof -
    show ne: "FormatInt k \<noteq> []" by (simp add: FormatInt_def)
    show "CHR '':'' \<notin> set (FormatInt k)" "hd (FormatInt k) \<noteq> CHR ''/''"
      using FormatInt_chars [of _ k] is_digit_not_sign hd_in_set [OF ne] by fastforce+
  qed
  from f show "info_ok (infos f)"
    by (auto simp: file_ok_def infos_def info_ok_def file_name_ok_def num)
qed

lemma parseFileLine_file_line:
  assumes f: "file_ok f"
  shows "parseFileLine head (file_line f) hs
       = Inr (Node (Url f) (Name f) 0 (Modified f)
           (if hs \<and> NSize f = 0 \<and> Modified f = 0 then (case head (Url f) of None \<Rightarrow> 0 | Some s \<Rightarrow> s) else NSize f) [])"
proof -
  note xs = info_ok_infos [OF f]
  from f have u: "url_ok (Url f)" and r: "int64_range (NSize f)" "int64_range (Modified f)" by (simp_all add: file_ok_def)
  note ix = url_index [OF xs u, folded file_line_infos]
  show ?thesis
  proof (cases "infos f = []")
    case True
    then have "file_line f = Url f" "NSize f = 0" "Modified f = 0" "path_Base (Url f) = Name f"
      by (auto simp: file_line_infos info_text_def infos_def split: if_splits)
    with True ix show ?thesis
      by (simp add: parseFileLine_def info_text_def Let_def split: option.splits)
  next
    case False
    have name: "file_name_ok (Name f)" using f False by (auto simp: file_ok_def infos_def)
    have p: "parse_info (Join '':'' (infos f)) = Inr (Name f, NSize f, Modified f, NSize f \<noteq> 0 \<or> Modified f \<noteq> 0)"
      using xs False Split_Join [OF False, of "CHR '':''"] r
      by (auto simp: parse_info_def info_ok_def infos_def Let_def ParseInt_FormatInt)
    have ne: "Join '':'' (infos f) \<noteq> []"
      using name False by (auto simp: infos_def file_name_ok_def)
    have "take (length (info_text (infos f))) (file_line f) = Join '':'' (infos f) @ '':''"
      "drop (length (info_text (infos f))) (file_line f) = Url f" "0 < length (info_text (infos f))"
      using False by (simp_all add: file_line_infos info_text_Join)
    then show ?thesis using ix p ne
      by (simp add: parseFileLine_def HasSuffix_def suffix_def Let_def, auto split: option.split)
  qed
qed

section \<open>The lines of a tree\<close>

fun lines_of :: "Node \<Rightarrow> string list" where
  "lines_of (Node u n l md sz cs) =
     (indent_of l @ (if u = [] then n @ '':'' else file_line (Node u n l md sz cs)))
       # (if u = [] then concat (map lines_of cs) else [])"

lemma lines_of_not_Nil [simp]: "lines_of c \<noteq> []"
  by (cases c) simp

lemma Join_concat:
  "(\<And>x. x \<in> set xs \<Longrightarrow> f x \<noteq> []) \<Longrightarrow> Join sep (map (\<lambda>x. Join sep (f x)) xs) = Join sep (concat (map f xs))"
proof (induction xs)
  case (Cons x xs)
  show ?case
  proof (cases xs)
    case (Cons y ys)
    then have "concat (map f xs) \<noteq> []" using Cons.prems by auto
    then show ?thesis using Cons.IH Cons.prems Cons by (simp add: Join_append)
  qed simp
qed simp

lemma Join_concat_Cons:
  assumes "\<And>x. x \<in> set xs \<Longrightarrow> f x \<noteq> []"
  shows "y @ concat (map (\<lambda>x. CHR 0x0A # Join [CHR 0x0A] (f x)) xs) = Join [CHR 0x0A] (y # concat (map f xs))"
  using assms
proof (induction xs arbitrary: y)
  case (Cons x xs)
  have "Join [CHR 0x0A] (y # concat (map f (x # xs)))
      = y @ [CHR 0x0A] @ Join [CHR 0x0A] (f x @ concat (map f xs))"
    using Cons.prems [of x] by (simp add: Join_Cons)
  also have "Join [CHR 0x0A] (f x @ concat (map f xs))
      = Join [CHR 0x0A] (f x) @ concat (map (\<lambda>x. CHR 0x0A # Join [CHR 0x0A] (f x)) xs)"
  proof -
    obtain z zs where z: "f x = zs @ [z]" using Cons.prems [of x] by (cases "f x" rule: rev_cases) auto
    have IH: "z @ concat (map (\<lambda>x. CHR 0x0A # Join [CHR 0x0A] (f x)) xs) = Join [CHR 0x0A] (z # concat (map f xs))"
      using Cons by auto
    show ?thesis
    proof (cases zs)
      case Nil
      with IH z show ?thesis by simp
    next
      case (Cons a as)
      then have zs: "zs \<noteq> []" by simp
      have "Join [CHR 0x0A] (f x @ concat (map f xs)) = Join [CHR 0x0A] (zs @ (z # concat (map f xs)))"
        by (simp add: z)
      also have "\<dots> = Join [CHR 0x0A] zs @ [CHR 0x0A] @ z @ concat (map (\<lambda>x. CHR 0x0A # Join [CHR 0x0A] (f x)) xs)"
        using zs by (simp only: Join_append IH list.distinct not_False_eq_True)
      finally show ?thesis using zs by (simp add: z Join_append)
    qed
  qed
  finally show ?case by simp
qed simp

lemma StringifyTree_lines: "node_ok t \<Longrightarrow> 0 \<le> Level t \<Longrightarrow> StringifyTree t = Join [CHR 0x0A] (lines_of t)"
proof (induction t)
  case (Node u n l md sz cs)
  show ?case
  proof (cases "u = []")
    case True
    have IH: "StringifyTree c = Join [CHR 0x0A] (lines_of c)" if "c \<in> set cs" for c
      using Node.IH [OF that] Node.prems that True by fastforce
    have "map (\<lambda>c. CHR 0x0A # StringifyTree c) cs = map (\<lambda>c. CHR 0x0A # Join [CHR 0x0A] (lines_of c)) cs"
      using IH by simp
    then have "StringifyTree (Node u n l md sz cs)
        = (indent_of l @ n @ '':'') @ concat (map (\<lambda>c. CHR 0x0A # Join [CHR 0x0A] (lines_of c)) cs)"
      using True Node.prems by (simp del: map_eq_conv)
    also have "\<dots> = Join [CHR 0x0A] ((indent_of l @ n @ '':'') # concat (map lines_of cs))"
      by (rule Join_concat_Cons) simp
    finally show ?thesis using True by simp
  qed (use Node.prems in simp)
qed

lemma StringifyTree_root:
  "tree_ok t \<Longrightarrow> StringifyTree t = Join [CHR 0x0A] (concat (map lines_of (Children t)))"
proof (cases t)
  case (Node u n l md sz cs)
  assume t: "tree_ok t"
  then have "StringifyTree c = Join [CHR 0x0A] (lines_of c)" if "c \<in> set cs" for c
    using that Node by (force intro!: StringifyTree_lines simp: tree_ok_def isFile_def)
  then have "map StringifyTree cs = map (\<lambda>c. Join [CHR 0x0A] (lines_of c)) cs" by simp
  then have "Join [CHR 0x0A] (map StringifyTree cs) = Join [CHR 0x0A] (concat (map lines_of cs))"
    by (simp only: Join_concat [of cs lines_of, OF lines_of_not_Nil])
  with Node t show ?thesis by (simp add: tree_ok_def)
qed

section \<open>One line through the stack\<close>

text \<open>The stack after a whole subtree has been read, with the subtree attached where its indentation puts it.\<close>

definition attach :: "Node list \<Rightarrow> Node \<Rightarrow> Node list" where
  "attach st c = add_child (hd (pop_to (Level c) st)) c # tl (pop_to (Level c) st)"

lemma pop_to_not_Nil [simp]: "st \<noteq> [] \<Longrightarrow> pop_to l st \<noteq> []"
  by (induction l st rule: pop_to.induct) auto

lemma count_spaces_indent:
  assumes "\<not> is_space (hd s)" "s \<noteq> []"
  shows "count_spaces (indent_of l @ s) = 2 * nat l" "drop (2 * nat l) (indent_of l @ s) = s"
proof -
  have "hd s \<noteq> CHR '' ''" using assms by (auto simp: is_space_def)
  then show "count_spaces (indent_of l @ s) = 2 * nat l" "drop (2 * nat l) (indent_of l @ s) = s"
    using assms(2) by (cases s; simp add: count_spaces_def indent_of_def takeWhile_append)+
qed

lemma add_line_indented:
  assumes s: "s \<noteq> []" "\<not> is_space (hd s)" "\<not> is_space (last s)" and l: "0 \<le> l"
  shows "add_line head hs (indent_of l @ s) st
       = (let stack = pop_to l st
          in if isFolder s then Inr (Node [] (TrimSuffix s '':'') l 0 0 [] # stack)
             else case parseFileLine head s hs of
                    Inl e \<Rightarrow> Inl e
                  | Inr (Node u n _ md sz cs) \<Rightarrow> Inr (add_child (hd stack) (Node u n l md sz cs) # tl stack))"
proof -
  have trim: "TrimSpace s = s"
    unfolding TrimSpace_def
    by (rule trim_by_ends) (use s in simp_all)
  have level: "int (2 * nat l div 2) = l" using l by simp
  show ?thesis
    unfolding add_line_def Let_def count_spaces_indent [OF s(2,1)] trim level using s by simp
qed

lemma add_line_folder:
  assumes "folder_name_ok n" "0 \<le> l"
  shows "add_line head hs (indent_of l @ n @ '':'') st = Inr (Node [] n l 0 0 [] # pop_to l st)"
proof -
  have s: "n @ '':'' \<noteq> []" "\<not> is_space (hd (n @ '':''))" "\<not> is_space (last (n @ '':''))"
    using assms by (auto simp: folder_name_ok_def hd_append is_space_def)
  show ?thesis unfolding add_line_indented [OF s assms(2)]
    by (simp add: isFolder_def HasSuffix_def TrimSuffix_def suffix_def)
qed

lemma path_Base_url: "url_ok u \<Longrightarrow> u \<noteq> []"
  by (auto simp: url_ok_def HasPrefix_def)

lemma add_line_file:
  assumes f: "file_ok f" "0 \<le> Level f" "isFile f"
  shows "add_line head hs (indent_of (Level f) @ file_line f) st = Inr (attach st (reloaded head hs f))"
proof -
  from f have u: "url_ok (Url f)" by (simp add: file_ok_def)
  then have h: "hd (Url f) = CHR ''h''" "Url f \<noteq> []"
    by (auto simp: url_ok_def HasPrefix_def prefix_def)
  have lst: "last (file_line f) = last (Url f)" using h by (simp add: file_line_infos)
  have "hd (file_line f) = (if infos f = [] then CHR ''h'' else hd (Name f))"
    using f h by (auto simp: file_line_infos infos_def info_text_def file_ok_def file_name_ok_def)
  then have s: "file_line f \<noteq> []" "\<not> is_space (hd (file_line f))" "\<not> is_space (last (file_line f))"
    using f u h lst by (auto simp: file_line_infos infos_def file_ok_def file_name_ok_def url_ok_def is_space_def split: if_splits)
  have fld: "\<not> isFolder (file_line f)"
    using u lst by (auto simp: isFolder_def HasSuffix_def suffix_def url_ok_def)
  show ?thesis unfolding add_line_indented [OF s f(2)] parseFileLine_file_line [OF f(1)]
    using fld f by (cases f) (auto simp: attach_def file_ok_def isFile_def Let_def)
qed

section \<open>A subtree through the stack\<close>

lemma pop_to_id: "Level p < k \<Longrightarrow> pop_to k (p # st) = p # st"
  by (cases st) auto

lemma foldl_add_child:
  "foldl add_child p cs = Node (Url p) (Name p) (Level p) (Modified p) (NSize p) (Children p @ cs)"
  by (induction cs arbitrary: p) (auto simp: add_child_def)

lemma add_lines_append:
  "add_lines head hs (xs @ ys) st
     = (case add_lines head hs xs st of Inl e \<Rightarrow> Inl e | Inr st \<Rightarrow> add_lines head hs ys st)"
  by (induction xs arbitrary: st) (auto split: sum.splits)

text \<open>
  \<open>reads\<close>: the lines take the stack \<open>st\<close> to one that no later line at a level in \<open>K\<close>, nor the end of
  the text, can tell from \<open>st'\<close>.
\<close>

definition same_for :: "(int \<Rightarrow> bool) \<Rightarrow> Node list \<Rightarrow> Node list \<Rightarrow> bool" where
  "same_for K st st' \<longleftrightarrow> st \<noteq> [] \<and> unwind st = unwind st' \<and> (\<forall>k. K k \<longrightarrow> pop_to k st = pop_to k st')"

definition reads :: "head_size \<Rightarrow> bool \<Rightarrow> string list \<Rightarrow> (int \<Rightarrow> bool) \<Rightarrow> Node list \<Rightarrow> Node list \<Rightarrow> bool" where
  "reads head hs xs K st st' \<longleftrightarrow> (\<exists>r. add_lines head hs xs st = Inr r \<and> same_for K r st')"

abbreviation below :: "Node \<Rightarrow> int \<Rightarrow> bool" where
  "below c k \<equiv> isFile c \<or> k \<le> Level c"

lemma reads_children:
  assumes node: "\<And>c st. \<lbrakk>c \<in> set cs; st \<noteq> []\<rbrakk> \<Longrightarrow> reads head hs (lines_of c) (below c) st (attach st (reloaded head hs c))"
    and lev: "\<forall>c \<in> set cs. Level p < Level c" and sib: "siblings_ok cs"
    and st: "same_for (\<lambda>k. k \<le> Level p \<or> cs \<noteq> [] \<and> k = Level (hd cs)) st (p # rest)"
  shows "reads head hs (concat (map lines_of cs)) (\<lambda>k. k \<le> Level p) st (foldl add_child p (map (reloaded head hs) cs) # rest)"
  using assms
proof (induction cs arbitrary: p st)
  case Nil
  then show ?case by (simp add: reads_def same_for_def)
next
  case (Cons c cs)
  let ?p = "add_child p (reloaded head hs c)"
  have "pop_to (Level c) st = p # rest"
    using Cons.prems by (simp add: same_for_def pop_to_id)
  then have at: "attach st (reloaded head hs c) = ?p # rest" by (simp add: attach_def)
  have "reads head hs (lines_of c) (below c) st (attach st (reloaded head hs c))"
    by (rule Cons.prems(1)) (use Cons.prems(4) in \<open>simp_all add: same_for_def\<close>)
  then obtain r where r: "add_lines head hs (lines_of c) st = Inr r" "same_for (below c) r (?p # rest)"
    by (auto simp: reads_def at)
  have next_le: "isFile c \<or> Level (hd cs) \<le> Level c" if "cs \<noteq> []"
    using that Cons.prems(3) by (cases cs) auto
  have "same_for (\<lambda>k. k \<le> Level ?p \<or> cs \<noteq> [] \<and> k = Level (hd cs)) r (?p # rest)"
    using r(2) next_le Cons.prems(2) by (auto simp: same_for_def)
  then have "reads head hs (concat (map lines_of cs)) (\<lambda>k. k \<le> Level ?p) r
      (foldl add_child ?p (map (reloaded head hs) cs) # rest)"
    using Cons.prems by (intro Cons.IH) (auto elim: siblings_ok.elims)
  then show ?case by (simp add: reads_def add_lines_append r(1))
qed

lemma reads_node:
  assumes "node_ok c" "0 \<le> Level c" "st \<noteq> []"
  shows "reads head hs (lines_of c) (below c) st (attach st (reloaded head hs c))"
  using assms
proof (induction c arbitrary: st)
  case (Node u n l md sz cs)
  show ?case
  proof (cases "u = []")
    case False
    then have "file_ok (Node u n l md sz cs)" using Node.prems by simp
    from add_line_file [OF this, of head hs st] False Node.prems show ?thesis
      by (simp add: reads_def same_for_def isFile_def attach_def)
  next
    case True
    define p where "p = Node [] n l 0 0 []"
    obtain a rest where a: "pop_to l st = a # rest" using Node.prems by (cases "pop_to l st") auto
    have "reads head hs (concat (map lines_of cs)) (\<lambda>k. k \<le> Level p) (p # pop_to l st)
        (foldl add_child p (map (reloaded head hs) cs) # pop_to l st)"
      using True Node.prems
      by (intro reads_children) (force simp: p_def same_for_def intro!: Node.IH)+
    moreover have "foldl add_child p (map (reloaded head hs) cs) = reloaded head hs (Node u n l md sz cs)"
      using True Node.prems by (simp add: foldl_add_child p_def)
    moreover have "same_for (\<lambda>k. k \<le> l) r (a' # a # rest) \<Longrightarrow> Level a' = l \<Longrightarrow> same_for (\<lambda>k. k \<le> l) r (add_child a a' # rest)" for r a'
      by (simp add: same_for_def)
    ultimately show ?thesis
      using True Node.prems add_line_folder [of n l head hs st]
      by (auto simp: reads_def attach_def isFile_def a p_def)
  qed
qed

lemma lines_of_no_newline: "node_ok c \<Longrightarrow> \<forall>x \<in> set (lines_of c). CHR 0x0A \<notin> set x"
proof (induction c)
  case (Node u n l md sz cs)
  have num: "CHR 0x0A \<notin> set (FormatInt k)" for k
    using FormatInt_chars [of "CHR 0x0A" k] by (auto simp: is_digit_def)
  have ind: "CHR 0x0A \<notin> set (indent_of k)" for k by (simp add: indent_of_def)
  show ?case
  proof (cases "u = []")
    case True
    with Node ind show ?thesis by (auto simp: folder_name_ok_def)
  next
    case False
    then show ?thesis using Node.prems num ind
      by (auto simp: file_ok_def file_line_infos info_text_def infos_def url_ok_def file_name_ok_def)
  qed
qed

theorem BuildTree_StringifyTree:
  assumes t: "tree_ok t"
  shows "BuildTree head (StringifyTree t) hs = Inr (reloaded head hs t)"
proof -
  obtain md sz cs where n: "t = Node [] ''root'' (-1) md sz cs" and cs: "siblings_ok cs" "\<forall>c \<in> set cs. -1 < Level c \<and> node_ok c"
    and md: "md = 0" using t by (cases t) (auto simp: tree_ok_def isFile_def)
  let ?ls = "concat (map lines_of cs)" and ?root = "Node [] ''root'' (-1) 0 0 []"
  have "reads head hs ?ls (\<lambda>k. k \<le> Level ?root) [?root] [foldl add_child ?root (map (reloaded head hs) cs)]"
    by (rule reads_children) (use cs in \<open>force simp: same_for_def intro!: reads_node\<close>)+
  then obtain r where r: "add_lines head hs ?ls [?root] = Inr r" "unwind r = reloaded head hs t"
    by (auto simp: reads_def same_for_def foldl_add_child n md)
  have text_eq: "StringifyTree t = Join [CHR 0x0A] ?ls" using StringifyTree_root [OF t] n by simp
  show ?thesis
  proof (cases "cs = []")
    case True
    then show ?thesis using r text_eq
      by (simp add: BuildTree_def n add_line_def count_spaces_def TrimSpace_def trim_by_def)
  next
    case False
    then have ne: "?ls \<noteq> []" by (cases cs) auto
    have "Split CHR 0x0A (StringifyTree t) = ?ls"
      unfolding text_eq using ne lines_of_no_newline cs by (intro Split_Join) auto
    then show ?thesis by (simp add: BuildTree_def r)
  qed
qed

end
