(* ===== verification/UrlTreeOps.thy ===== *)
theory UrlTreeOps
  imports UrlTreeText
begin

text \<open>
  The operations of \<^verbatim>\<open>drivers/url_tree\<close>: each of them leaves a tree whose text reads back as that
  tree, so that a restart of the driver (\<^const>\<open>Init\<close> on the saved text) loses nothing; an operation
  that fails changes nothing.  \<^const>\<open>Put\<close> is the exception.
\<close>

section \<open>Regular trees\<close>

text \<open>A tree whose levels are the depths of its nodes.\<close>

fun regular :: "int \<Rightarrow> Node \<Rightarrow> bool" where
  "regular k (Node u n l md sz cs) \<longleftrightarrow> l = k
     \<and> (if u = [] then folder_name_ok n \<and> md = 0 \<and> (\<forall>c \<in> set cs. regular (k + 1) c)
        else file_ok (Node u n l md sz cs))"

lemma regular_Level: "regular k c \<Longrightarrow> Level c = k"
  by (cases c) simp

lemma regular_folder:
  "regular k c \<Longrightarrow> \<not> isFile c \<Longrightarrow> folder_name_ok (Name c) \<and> Modified c = 0 \<and> (\<forall>x \<in> set (Children c). regular (k + 1) x)"
  by (cases c) (simp add: isFile_def)

lemma regular_folderI:
  assumes "\<not> isFile c" "Level c = k" "folder_name_ok (Name c)" "Modified c = 0" "\<forall>x \<in> set (Children c). regular (k + 1) x"
  shows "regular k c"
  using assms by (cases c) (simp add: isFile_def)

lemma siblings_ok_level: "\<forall>c \<in> set cs. Level c = k \<Longrightarrow> siblings_ok cs"
  by (induction cs rule: siblings_ok.induct) auto

lemma regular_node_ok: "regular k c \<Longrightarrow> node_ok c"
proof (induction c arbitrary: k)
  case (Node u n l md sz cs)
  have "siblings_ok cs" if "u = []"
    using Node.prems that by (intro siblings_ok_level [of cs "k + 1"]) (auto dest: regular_Level)
  moreover have "l < Level c \<and> node_ok c" if "c \<in> set cs" "u = []" for c
    using Node that regular_Level [of "k + 1" c] by auto
  ultimately show ?case using Node.prems by auto
qed

lemma regular_calSize: "regular k c \<Longrightarrow> regular k (calSize c)"
  by (induction c arbitrary: k) (auto simp: Let_def)

lemma calSize_sel [simp]:
  "Name (calSize c) = Name c" "Level (calSize c) = Level c" "Url (calSize c) = Url c" "isFile (calSize c) = isFile c"
  by (cases c; simp add: Let_def isFile_def)+

lemma regular_setLevel: "regular k c \<Longrightarrow> regular m (setLevel m c)"
proof (induction c arbitrary: k m)
  case (Node u n l md sz cs)
  then show ?case by (cases "u = []") (auto simp: file_ok_def)
qed

lemma deepCopy_setLevel: "deepCopy m c = setLevel m c"
  by (induction c arbitrary: m) simp

lemma regular_add_child:
  "\<lbrakk>regular k p; \<not> isFile p; regular (k + 1) c\<rbrakk> \<Longrightarrow> regular k (add_child p c)"
  by (cases p) (auto simp: add_child_def isFile_def)

lemma regular_filter:
  "\<lbrakk>regular k p; \<not> isFile p\<rbrakk> \<Longrightarrow> regular k (set_children (filter Q (Children p)) p)"
  by (cases p) (auto simp: set_children_def isFile_def)

lemma regular_rename:
  "\<lbrakk>regular k p; file_name_ok n\<rbrakk> \<Longrightarrow> regular k (set_name n p)"
  by (cases p) (auto simp: set_name_def isFile_def file_ok_def folder_name_ok_def file_name_ok_def)

section \<open>Positions\<close>

fun valid_pos :: "Node \<Rightarrow> nat list \<Rightarrow> bool" where
  "valid_pos t [] = True"
| "valid_pos t (i # pos) \<longleftrightarrow> i < length (Children t) \<and> valid_pos (Children t ! i) pos"

lemma posByPath_valid:
  "posByPath t ps = Some pos \<Longrightarrow> valid_pos t pos \<and> (pos = [] \<longrightarrow> length ps = 1)"
  "posByPath_children i cs ps = Some pos \<Longrightarrow>
     \<exists>j rest. pos = (i + j) # rest \<and> j < length cs \<and> valid_pos (cs ! j) rest"
proof (induction t ps and i cs ps arbitrary: pos and pos rule: posByPath_posByPath_children.induct)
  case (2 node p ps)
  then show ?case by (fastforce split: if_splits)
next
  case (4 i child cs ps)
  show ?case
  proof (cases "posByPath child ps")
    case None
    with 4 obtain j rest where "pos = (Suc i + j) # rest" "j < length cs" "valid_pos (cs ! j) rest" by auto
    then show ?thesis by (intro exI [of _ "Suc j"] exI [of _ rest]) simp
  next
    case (Some q)
    with 4 show ?thesis by (intro exI [of _ 0] exI [of _ q]) simp
  qed
qed auto

lemma getByPath_pos:
  "getByPath t ps = map_option (node_at t) (posByPath t ps)"
  "getByPath_children cs ps = map_option (\<lambda>pos. node_at (cs ! (hd pos - i)) (tl pos)) (posByPath_children i cs ps)"
proof (induction t ps and i cs ps rule: posByPath_posByPath_children.induct)
  case (2 node p ps)
  then show ?case
    using posByPath_valid(2) [of 0 "Children node" ps]
    by (cases "posByPath_children 0 (Children node) ps") auto
next
  case (4 i child cs ps)
  show ?case
  proof (cases "posByPath_children (Suc i) cs ps")
    case None
    with 4 show ?thesis by (auto split: option.splits)
  next
    case (Some q)
    with posByPath_valid(2) [OF this] 4 show ?thesis by (auto split: option.splits)
  qed
qed auto

lemma pos_of_node:
  assumes "pos_of d path = Some pos"
  shows "valid_pos (treeRoot d) pos" "GetNodeFromRootByPath (treeRoot d) path = Some (node_at (treeRoot d) pos)"
    "splitPath path \<noteq> [''root''] \<Longrightarrow> pos \<noteq> []"
proof -
  have p: "posByPath (treeRoot d) (splitPath path) = Some pos" using assms by (simp add: pos_of_def)
  show "valid_pos (treeRoot d) pos" using posByPath_valid(1) [OF p] by blast
  show "GetNodeFromRootByPath (treeRoot d) path = Some (node_at (treeRoot d) pos)"
    by (simp add: GetNodeFromRootByPath_def getByPath_pos(1) p)
  have "hd (splitPath path) = ''root''" by (simp add: splitPath_def Let_def)
  then show "splitPath path \<noteq> [''root''] \<Longrightarrow> pos \<noteq> []"
    using posByPath_valid(1) [OF p] by (auto simp: length_Suc_conv)
qed

lemma regular_node_at:
  "\<lbrakk>valid_pos t pos; regular k t\<rbrakk> \<Longrightarrow> regular (Level (node_at t pos)) (node_at t pos)"
proof (induction pos arbitrary: t k)
  case Nil
  then show ?case using regular_Level by auto
next
  case (Cons i pos)
  then show ?case by (cases t) (force simp: file_ok_def split: if_splits)
qed

lemma regular_upd_at:
  "\<lbrakk>valid_pos t pos; regular k t; regular (Level (node_at t pos)) (f (node_at t pos))\<rbrakk> \<Longrightarrow> regular k (upd_at pos f t)"
proof (induction pos arbitrary: t k)
  case Nil
  then show ?case using regular_Level by auto
next
  case (Cons i pos)
  obtain u n l md sz cs where t: "t = Node u n l md sz cs" by (cases t)
  with Cons.prems have "u = []" by (auto simp: file_ok_def split: if_splits)
  moreover from this have "regular (k + 1) (cs ! i)" using Cons.prems t by auto
  with Cons t have "regular (k + 1) (upd_at pos f (cs ! i))" by simp
  ultimately show ?case using Cons.prems t set_update_subset_insert [of cs i "upd_at pos f (cs ! i)"] by auto
qed

lemma upd_at_sel:
  "pos \<noteq> [] \<Longrightarrow> Name (upd_at pos f t) = Name t" "pos \<noteq> [] \<Longrightarrow> Url (upd_at pos f t) = Url t"
  by (cases pos; cases t; simp)+

lemma set_children_sel [simp]:
  "Url (set_children cs n) = Url n" "Level (set_children cs n) = Level n" "Name (set_children cs n) = Name n"
  "isFile (set_children cs n) = isFile n"
  by (simp_all add: set_children_def isFile_def)

lemma upd_at_keeps:
  "(\<And>n. Url (f n) = Url n) \<Longrightarrow> Url (upd_at pos f t) = Url t"
  "(\<And>n. Level (f n) = Level n) \<Longrightarrow> Level (upd_at pos f t) = Level t"
  "(\<And>n. Name (f n) = Name n) \<Longrightarrow> Name (upd_at pos f t) = Name t"
  by (cases pos; cases t; simp)+

text \<open>Where the other nodes are after the children named \<open>name\<close> of one node are gone.\<close>

lemma shift_pos_sound:
  assumes "valid_pos t par" "valid_pos t pos" "shift_pos t par name pos = Some pos'"
  defines "t' \<equiv> upd_at par (\<lambda>n. set_children (filter (\<lambda>c. Name c \<noteq> name) (Children n)) n) t"
  shows "valid_pos t' pos' \<and> Url (node_at t' pos') = Url (node_at t pos) \<and> Level (node_at t' pos') = Level (node_at t pos)"
  unfolding t'_def using assms(1-3)
proof (induction t par name pos arbitrary: pos' rule: shift_pos.induct)
  case (1 t name j pos)
  let ?cs = "Children t" and ?Q = "\<lambda>c. Name c \<noteq> name"
  from 1 have j: "j < length ?cs" "?Q (?cs ! j)" "pos' = length (filter ?Q (take j ?cs)) # pos"
    by (auto split: if_splits)
  have "filter ?Q ?cs = filter ?Q (take j ?cs @ ?cs ! j # drop (Suc j) ?cs)"
    by (simp only: id_take_nth_drop [OF j(1), symmetric])
  also have "\<dots> = filter ?Q (take j ?cs) @ ?cs ! j # filter ?Q (drop (Suc j) ?cs)" using j(2) by simp
  finally have "length (filter ?Q (take j ?cs)) < length (filter ?Q ?cs)"
    "filter ?Q ?cs ! length (filter ?Q (take j ?cs)) = ?cs ! j" by simp_all
  with 1 j show ?case by (simp add: set_children_def)
next
  case (2 t i par name j pos)
  then show ?case by (cases t) (auto split: if_splits)
qed (auto simp: upd_at_keeps)

section \<open>The operations\<close>

datatype url_op =
    OpMakeDir string string | OpMove string string | OpRename string string | OpCopy string string
  | OpRemove string | OpPutURL string string string

fun run_op :: "head_size \<Rightarrow> Urls \<Rightarrow> url_op \<Rightarrow> Urls \<times> err option" where
  "run_op head d (OpMakeDir p n) = (let (d, r) = MakeDir d p n in (d, case r of Inl e \<Rightarrow> Some e | Inr _ \<Rightarrow> None))"
| "run_op head d (OpMove s t) = (let (d, r) = Move d s t in (d, case r of Inl e \<Rightarrow> Some e | Inr _ \<Rightarrow> None))"
| "run_op head d (OpRename s n) = (let (d, r) = Rename d s n in (d, case r of Inl e \<Rightarrow> Some e | Inr _ \<Rightarrow> None))"
| "run_op head d (OpCopy s t) = (let (d, r) = Copy d s t in (d, case r of Inl e \<Rightarrow> Some e | Inr _ \<Rightarrow> None))"
| "run_op head d (OpRemove s) = Remove d s"
| "run_op head d (OpPutURL p n u) = (let (d, r) = PutURL head d p n u in (d, case r of Inl e \<Rightarrow> Some e | Inr _ \<Rightarrow> None))"

text \<open>
  The names a request may bring in.  A renamed root is left out: no path leads to it any more.
\<close>

fun op_ok :: "url_op \<Rightarrow> bool" where
  "op_ok (OpMakeDir p n) \<longleftrightarrow> folder_name_ok n"
| "op_ok (OpRename s n) \<longleftrightarrow> file_name_ok n \<and> splitPath s \<noteq> [''root'']"
| "op_ok (OpPutURL p n u) \<longleftrightarrow> file_name_ok n \<and> url_ok u"
| "op_ok _ \<longleftrightarrow> True"

definition regular_root :: "Node \<Rightarrow> bool" where
  "regular_root t \<longleftrightarrow> regular (-1) t \<and> Name t = ''root'' \<and> \<not> isFile t"

definition saved :: "Urls \<Rightarrow> bool" where
  "saved d \<longleftrightarrow> regular_root (treeRoot d) \<and> UrlStructure d = StringifyTree (treeRoot d)"

lemma regular_root_tree_ok: "regular_root t \<Longrightarrow> tree_ok t"
  using regular_Level [of "-1" t] regular_node_ok [of "-1" t] by (simp add: regular_root_def tree_ok_def)

lemma saved_updateStorage: "regular_root t \<Longrightarrow> saved (updateStorage (d\<lparr>treeRoot := t\<rparr>))"
  by (simp add: saved_def updateStorage_def)

lemma regular_root_calSize: "regular_root t \<Longrightarrow> regular_root (calSize t)"
  by (simp add: regular_root_def regular_calSize)

text \<open>The two changes every operation is made of: a new child of a folder, and children taken out.\<close>

lemma root_add_child:
  assumes "regular_root t" "valid_pos t pos" "\<not> isFile (node_at t pos)" "regular (Level (node_at t pos) + 1) c"
  shows "regular_root (upd_at pos (\<lambda>n. add_child n c) t)"
  using assms regular_upd_at [of t pos "-1" "\<lambda>n. add_child n c"]
    regular_add_child [OF regular_node_at [of t pos "-1"], of c]
  by (simp add: regular_root_def upd_at_keeps isFile_def)

lemma root_take_out:
  assumes "regular_root t" "valid_pos t pos"
  shows "regular_root (upd_at pos (\<lambda>n. set_children (filter Q (Children n)) n) t)"
proof -
  have r: "regular (Level (node_at t pos)) (node_at t pos)"
    using assms regular_node_at by (auto simp: regular_root_def)
  have "regular (Level (node_at t pos)) (set_children (filter Q (Children (node_at t pos))) (node_at t pos))"
  proof (cases "isFile (node_at t pos)")
    case True
    with r show ?thesis by (cases "node_at t pos") (auto simp: isFile_def set_children_def file_ok_def)
  qed (use r regular_filter in blast)
  with assms show ?thesis
    using regular_upd_at [of t pos "-1"] by (simp add: regular_root_def upd_at_keeps isFile_def)
qed

lemma child_regular:
  assumes "regular_root t" "valid_pos t pos" "c \<in> set (Children (node_at t pos))"
  shows "\<exists>k. regular k c"
proof -
  have "regular (Level (node_at t pos)) (node_at t pos)"
    using assms regular_node_at by (auto simp: regular_root_def)
  with assms(3) show ?thesis by (cases "node_at t pos") (auto simp: file_ok_def split: if_splits)
qed

lemma last_found: "filter Q xs \<noteq> [] \<Longrightarrow> last (filter Q xs) \<in> set xs"
  using last_in_set [of "filter Q xs"] by simp

lemma saved_MakeDir: "\<lbrakk>saved d; folder_name_ok n\<rbrakk> \<Longrightarrow> saved (fst (MakeDir d p n))"
  unfolding MakeDir_def
  by (auto simp: Let_def saved_def [of d] split: option.split dest!: pos_of_node(1)
      intro!: saved_updateStorage root_add_child)

lemma saved_Rename: "\<lbrakk>saved d; file_name_ok n; splitPath s \<noteq> [''root'']\<rbrakk> \<Longrightarrow> saved (fst (Rename d s n))"
proof (cases "pos_of d s")
  case (Some pos)
  assume d: "saved d" and n: "file_name_ok n" and s: "splitPath s \<noteq> [''root'']"
  note pos = pos_of_node(1) [OF Some] pos_of_node(3) [OF Some s]
  have "regular (-1) (upd_at pos (set_name n) (treeRoot d))"
    using d n pos regular_node_at [of "treeRoot d" pos "-1"]
    by (intro regular_upd_at regular_rename) (auto simp: saved_def regular_root_def)
  with d pos have "regular_root (upd_at pos (set_name n) (treeRoot d))"
    by (simp add: saved_def regular_root_def upd_at_sel isFile_def)
  with d Some show ?thesis by (simp add: Rename_def saved_updateStorage)
qed (simp add: Rename_def)

lemma saved_Copy: "saved d \<Longrightarrow> saved (fst (Copy d s t))"
proof (cases "pos_of d s"; cases "pos_of d t")
  fix spos dpos assume d: "saved d" and pos: "pos_of d s = Some spos" "pos_of d t = Some dpos"
  then have r: "regular_root (treeRoot d)" by (simp add: saved_def)
  have "regular (Level (node_at (treeRoot d) spos)) (node_at (treeRoot d) spos)"
    using r pos_of_node(1) [OF pos(1)] regular_node_at by (auto simp: regular_root_def)
  then have "regular (Level (node_at (treeRoot d) dpos) + 1)
      (deepCopy (Level (node_at (treeRoot d) dpos) + 1) (node_at (treeRoot d) spos))"
    by (simp add: deepCopy_setLevel regular_setLevel)
  with d r pos show ?thesis
    by (auto simp: Copy_def Let_def intro!: saved_updateStorage regular_root_calSize root_add_child
        pos_of_node(1) [OF pos(2)])
qed (simp_all add: Copy_def Let_def)

lemma saved_Remove: "saved d \<Longrightarrow> saved (fst (Remove d s))"
  unfolding Remove_def
  by (auto simp: Let_def saved_def [of d] split: option.split prod.split dest!: pos_of_node(1)
      intro!: saved_updateStorage root_take_out regular_root_calSize)

lemma saved_Move: "saved d \<Longrightarrow> saved (fst (Move d s t))"
proof (cases "pos_of d t"; cases "pos_of d (fst (path_Split s))")
  fix dpos ppos assume d: "saved d" and pos: "pos_of d t = Some dpos" "pos_of d (fst (path_Split s)) = Some ppos"
  let ?r = "treeRoot d" and ?name = "snd (path_Split s)"
  let ?r1 = "upd_at ppos (\<lambda>n. set_children (filter (\<lambda>c. Name c \<noteq> ?name) (Children n)) n) ?r"
  let ?found = "filter (\<lambda>c. Name c = ?name) (Children (node_at ?r ppos))"
  note v = pos_of_node(1) [OF pos(1)] pos_of_node(1) [OF pos(2)]
  have r: "regular_root ?r" using d by (simp add: saved_def)
  have r1: "regular_root ?r1" by (rule root_take_out [OF r v(2)])
  have "regular_root (upd_at p (\<lambda>n. add_child n (setLevel (Level (node_at ?r dpos) + 1) (last ?found))) ?r1)"
    if p: "shift_pos ?r ppos ?name dpos = Some p" and ne: "?found \<noteq> []" and nf: "\<not> isFile (node_at ?r dpos)" for p
  proof -
    note at = shift_pos_sound [OF v(2,1) p]
    obtain k where "regular k (last ?found)"
      using child_regular [OF r v(2) last_found] ne by blast
    then have "regular (Level (node_at ?r dpos) + 1) (setLevel (Level (node_at ?r dpos) + 1) (last ?found))"
      by (rule regular_setLevel)
    with r1 at nf show ?thesis by (intro root_add_child) (simp_all add: isFile_def)
  qed
  with d r1 pos show ?thesis
    by (auto simp: Move_def Let_def case_prod_beta split: option.split intro!: saved_updateStorage regular_root_calSize)
qed (simp_all add: Move_def Let_def case_prod_beta)

lemma saved_PutURL:
  assumes d: "saved d" "\<not> HeadSize d" and n: "file_name_ok n" "url_ok u"
  shows "saved (fst (PutURL head d p n u))"
proof -
  have "regular k (Node u n k 0 0 [])" for k
    using n path_Base_url by (auto simp: file_ok_def int64_range_def)
  with d show ?thesis unfolding PutURL_def
    by (auto simp: Let_def saved_def [of d] split: option.split dest!: pos_of_node(1)
        intro!: saved_updateStorage root_add_child)
qed

lemma HeadSize_run_op [simp]: "HeadSize (fst (run_op head d r)) = HeadSize d"
  by (cases r) (simp_all add: MakeDir_def Move_def Rename_def Copy_def Remove_def PutURL_def Let_def
      updateStorage_def case_prod_beta split: option.split)

lemma saved_run_op: "\<lbrakk>saved d; \<not> HeadSize d; op_ok r\<rbrakk> \<Longrightarrow> saved (fst (run_op head d r))"
  by (cases r) (simp_all add: case_prod_beta Let_def saved_MakeDir saved_Rename saved_Copy saved_Remove saved_Move saved_PutURL)

section \<open>What the driver keeps\<close>

lemma calSize_reloaded: "node_ok t \<Longrightarrow> calSize (reloaded head False t) = calSize t"
proof (induction t)
  case (Node u n l md sz cs)
  have "map (calSize \<circ> reloaded head False) cs = map calSize cs" if "u = []"
    using Node that by auto
  then show ?case using Node.prems by (cases "u = []") (simp_all add: Let_def del: map_eq_conv)
qed

text \<open>C10: Saving loses nothing. For a tree whose names and URLs fit on a line and whose levels put every
  node below its parent, \<^const>\<open>BuildTree\<close> reads from the text of \<^const>\<open>StringifyTree\<close> that same tree;
  only folder sizes are left to \<^const>\<open>calSize\<close>, and a file line without a size asks the server for it
  when \<open>headSize\<close> is set.\<close>

theorem BuildTree_reads_back:
  assumes "tree_ok t"
  shows "BuildTree head (StringifyTree t) headSize = Inr (reloaded head headSize t)"
  using assms by (rule BuildTree_StringifyTree)

theorem BuildTree_reads_back_witness:
  "BuildTree (\<lambda>u. Some 7) (StringifyTree (Node [] ''root'' (-1) 0 0
       [Node [] ''docs'' 0 0 12 [Node ''http://h/a:b'' ''a'' 1 3 12 [], Node ''https://h/c'' ''c'' 1 0 0 []]])) True
     = Inr (Node [] ''root'' (-1) 0 0
       [Node [] ''docs'' 0 0 0 [Node ''http://h/a:b'' ''a'' 1 3 12 [], Node ''https://h/c'' ''c'' 1 0 7 []]])"
proof -
  let ?t = "Node [] ''root'' (-1) 0 0
       [Node [] ''docs'' 0 0 12 [Node ''http://h/a:b'' ''a'' 1 3 12 [], Node ''https://h/c'' ''c'' 1 0 0 []]]"
  have "tree_ok ?t"
    by (simp add: tree_ok_def isFile_def folder_name_ok_def file_ok_def url_ok_def file_name_ok_def HasPrefix_def
        Contains_def is_space_def int64_range_def)
  from BuildTree_reads_back [OF this, of "\<lambda>u. Some 7" True] show ?thesis by simp
qed

definition serve :: "head_size \<Rightarrow> Urls \<Rightarrow> url_op list \<Rightarrow> Urls" where
  "serve head d reqs = foldl (\<lambda>d r. fst (run_op head d r)) d reqs"

lemma saved_serve: "\<lbrakk>saved d; \<not> HeadSize d; list_all op_ok reqs\<rbrakk> \<Longrightarrow> saved (serve head d reqs) \<and> \<not> HeadSize (serve head d reqs)"
  by (induction reqs arbitrary: d) (simp_all add: serve_def saved_run_op)

definition a_driver :: Urls where
  "a_driver = \<lparr>Writable = True, HeadSize = False, DownloadParams = [], UrlStructure = ''f:'' @ [CHR 0x0A] @ ''g:'',
     treeRoot = Node [] ''root'' (-1) 0 0 [Node [] ''f'' 0 0 0 [], Node [] ''g'' 0 0 0 []], downloadParamsTmpl = None\<rparr>"

lemma saved_a_driver: "saved a_driver"
  by (simp add: saved_def a_driver_def regular_root_def isFile_def folder_name_ok_def is_space_def indent_of_def)



text \<open>A request that fails changes nothing: neither the tree nor the stored text.\<close>

theorem failed_request_changes_nothing:
  assumes "snd (run_op head d r) = Some e"
  shows "fst (run_op head d r) = d"
  using assms
  by (cases r) (auto simp: MakeDir_def Move_def Rename_def Copy_def Remove_def PutURL_def Let_def nodeToObj_def
      case_prod_beta split: option.splits if_splits)

theorem failed_request_changes_nothing_witness:
  "fst (run_op (\<lambda>_. None) a_driver (OpMove ''/f'' ''/nowhere'')) = a_driver"
  by (rule failed_request_changes_nothing [where e = NotFolder])
    (simp add: Move_def a_driver_def pos_of_def splitPath_def HasPrefix_def HasSuffix_def suffix_def Let_def)

text \<open>\<^const>\<open>Put\<close> does not set the level of the new file.  A file put into the folder \<^verbatim>\<open>/f\<close> is in that
  folder until the driver restarts; its line is not indented, and the restart finds it in the root.\<close>

theorem Put_file_moves_on_restart:
  "let d = fst (Put (\<lambda>_. None) a_driver ''/g'' ''a:http://x''); d' = fst (Init (\<lambda>_. True) (\<lambda>_. None) d)
   in Get d ''/g/a'' = Inr \<lparr>ObjID = [], ObjPath = ''/g/a'', ObjName = ''a'', ObjSize = 0, ObjModified = 0, IsFolder = False\<rparr>
    \<and> Get d' ''/g/a'' = Inl ObjectNotFound
    \<and> Get d' ''/a'' = Inr \<lparr>ObjID = [], ObjPath = ''/a'', ObjName = ''a'', ObjSize = 0, ObjModified = 0, IsFolder = False\<rparr>"
  by code_simp

text \<open>The root renamed, no path leads anywhere.\<close>

theorem Rename_root_unreachable:
  assumes "pos_of d ''/'' \<noteq> None" "Writable d" "n \<noteq> ''root''"
  shows "Get (fst (Rename d ''/'' n)) path = Inl ObjectNotFound"
proof -
  have "pos_of d ''/'' = Some []" using assms(1) by (auto simp: pos_of_def splitPath_def split: if_splits)
  then have t: "treeRoot (fst (Rename d ''/'' n)) = set_name n (treeRoot d)"
    using assms(2) by (simp add: Rename_def updateStorage_def)
  have "hd (splitPath path) = ''root''" "splitPath path \<noteq> []" by (simp_all add: splitPath_def Let_def)
  then obtain ps where "splitPath path = ''root'' # ps" by (cases "splitPath path") auto
  with assms(3) show ?thesis by (simp add: Get_def GetNodeFromRootByPath_def t nodeToObj_def set_name_def)
qed

end
