(* ===== verification/OpCache.thy ===== *)
theory OpCache
  imports ObjModel
begin

text \<open>
  The cache of directory listings in \<^verbatim>\<open>internal/op/fs.go\<close>, with the storage record of
  \<^verbatim>\<open>internal/model/storage.go\<close>.  The cache is a map from keys to listings; an entry that expires is
  an entry that is gone.  \<^verbatim>\<open>ClearCache\<close> follows the cached listings downwards by recursion; the depth
  the stack allows is an argument, and \<^const>\<open>None\<close> is a stack overflow.
\<close>

section \<open>Storages (internal/model/storage.go, internal/op/const.go)\<close>

record Storage =
  ID :: nat
  MountPath :: string
  Order :: int
  Driver :: string
  CacheExpiration :: int
  Status :: string
  Addition :: string
  Remark :: string
  StModified :: int
  StDisabled :: bool
  OrderBy :: string
  OrderDirection :: string
  ExtractFolderTo :: string
  EnableSign :: bool
  WebProxy :: bool
  DownProxyUrl :: string
  DownProxySign :: bool

definition WORK :: string where "WORK = ''work''"
definition DISABLED :: string where "DISABLED = ''disabled''"
definition RootName :: string where "RootName = ''root''"

section \<open>The cache of listings\<close>

type_synonym list_cache = "string \<Rightarrow> Obj list option"

definition Key :: "Storage \<Rightarrow> string \<Rightarrow> string" where
  "Key st path = path_Join (MountPath st) (FixAndCleanPath path)"

fun delete_first :: "string \<Rightarrow> Obj list \<Rightarrow> Obj list" where
  "delete_first n [] = []"
| "delete_first n (ob # obs) = (if GetName ob = n then obs else ob # delete_first n obs)"

fun replace_first :: "string \<Rightarrow> Obj \<Rightarrow> Obj list \<Rightarrow> Obj list" where
  "replace_first n new [] = []"
| "replace_first n new (ob # obs) = (if GetName ob = n then new # obs else ob # replace_first n new obs)"

definition updateCacheObj :: "Storage \<Rightarrow> list_cache \<Rightarrow> string \<Rightarrow> Obj \<Rightarrow> Obj \<Rightarrow> list_cache" where
  "updateCacheObj st cache path oldObj newObj =
     (let key = Key st path
      in case cache key of
           None \<Rightarrow> cache
         | Some objs \<Rightarrow> cache(key \<mapsto> replace_first (GetName oldObj) newObj (delete_first (GetName newObj) objs)))"

definition delCacheObj :: "Storage \<Rightarrow> list_cache \<Rightarrow> string \<Rightarrow> Obj \<Rightarrow> list_cache" where
  "delCacheObj st cache path ob =
     (let key = Key st path
      in case cache key of
           None \<Rightarrow> cache
         | Some objs \<Rightarrow> cache(key \<mapsto> delete_first (GetName ob) objs))"

text \<open>The deferred sorting of a listing that got a new object reorders it later and is left out.\<close>

definition addCacheObj :: "Storage \<Rightarrow> list_cache \<Rightarrow> string \<Rightarrow> Obj \<Rightarrow> list_cache" where
  "addCacheObj st cache path newObj =
     (let key = Key st path
      in case cache key of
           None \<Rightarrow> cache
         | Some objs \<Rightarrow>
             if list_ex (\<lambda>ob. GetName ob = GetName newObj) objs
             then cache(key \<mapsto> replace_first (GetName newObj) newObj objs)
             else if objs \<noteq> [] \<and> IsDir (last objs) = IsDir newObj then cache(key \<mapsto> objs @ [newObj])
             else cache(key \<mapsto> newObj # objs))"

fun ClearCache :: "nat \<Rightarrow> Storage \<Rightarrow> list_cache \<Rightarrow> string \<Rightarrow> list_cache go"
  and ClearCache_dirs :: "nat \<Rightarrow> Storage \<Rightarrow> list_cache \<Rightarrow> string \<Rightarrow> Obj list \<Rightarrow> list_cache go" where
  "ClearCache 0 st cache path = panic"
| "ClearCache (Suc n) st cache path =
     (case (case cache (Key st path) of
              None \<Rightarrow> Some cache
            | Some objs \<Rightarrow> ClearCache_dirs n st cache path objs) of
        None \<Rightarrow> panic
      | Some cache \<Rightarrow> Some (cache(Key st path := None)))"
| "ClearCache_dirs n st cache path [] = Some cache"
| "ClearCache_dirs n st cache path (ob # obs) =
     (if IsDir ob then
        (case ClearCache n st cache (path_Join path (GetName ob)) of
           None \<Rightarrow> panic
         | Some cache \<Rightarrow> ClearCache_dirs n st cache path obs)
      else ClearCache_dirs n st cache path obs)"

section \<open>Keys\<close>

definition std_mount :: "Storage \<Rightarrow> bool" where
  "std_mount st \<longleftrightarrow> MountPath st = render (fcomps (MountPath st))"

lemma Key_render: "std_mount st \<Longrightarrow> Key st path = render (fcomps (MountPath st) @ fcomps path)"
  unfolding std_mount_def Key_def FixAndCleanPath_render
  by (metis path_Join_render fcomps_valid)

lemma Key_inj: "std_mount st \<Longrightarrow> Key st p = Key st q \<longleftrightarrow> fcomps p = fcomps q"
  by (auto simp: Key_render dest!: render_inj)

lemma fcomps_path_Join_name:
  "\<lbrakk>p = render cs; list_all fix_comp cs; fix_comp n\<rbrakk> \<Longrightarrow> path_Join p n = render (cs @ [n]) \<and> fcomps (path_Join p n) = cs @ [n]"
  by (simp add: path_Join_one fix_valid) (simp add: fix_comp_def path_Join_one fix_valid)

section \<open>Changes to one listing\<close>

abbreviation names :: "Obj list \<Rightarrow> string list" where
  "names objs \<equiv> map GetName objs"

lemma set_delete_first: "distinct (names objs) \<Longrightarrow> set (delete_first n objs) = {ob \<in> set objs. GetName ob \<noteq> n}"
  by (induction n objs rule: delete_first.induct) (auto simp: image_iff)

lemma distinct_delete_first: "distinct (names objs) \<Longrightarrow> distinct (names (delete_first n objs))"
  by (induction n objs rule: delete_first.induct) (auto simp: set_delete_first)

lemma set_replace_first:
  "distinct (names objs) \<Longrightarrow>
     set (replace_first n new objs) = {ob \<in> set objs. GetName ob \<noteq> n} \<union> (if n \<in> set (names objs) then {new} else {})"
  by (induction n new objs rule: replace_first.induct) (auto simp: image_iff)

lemma distinct_replace_first:
  "\<lbrakk>distinct (names objs); GetName new = n \<or> GetName new \<notin> set (names objs)\<rbrakk> \<Longrightarrow> distinct (names (replace_first n new objs))"
  by (induction n new objs rule: replace_first.induct) (auto simp: set_replace_first)

section \<open>What ClearCache clears\<close>

definition entry :: "Storage \<Rightarrow> list_cache \<Rightarrow> string list \<Rightarrow> Obj list option" where
  "entry st cache cs = cache (Key st (render cs))"

text \<open>
  \<open>reach\<close>: the directories found from \<open>cs\<close> by following cached listings, in components below the mount.
\<close>

inductive reach :: "Storage \<Rightarrow> list_cache \<Rightarrow> string list \<Rightarrow> string list \<Rightarrow> bool" for st cache cs where
  here: "reach st cache cs cs"
| down: "\<lbrakk>reach st cache cs ds; entry st cache ds = Some objs; ob \<in> set objs; IsDir ob\<rbrakk>
    \<Longrightarrow> reach st cache cs (ds @ [GetName ob])"

lemma reach_child: "\<lbrakk>entry st cache ds = Some objs; ob \<in> set objs; IsDir ob\<rbrakk> \<Longrightarrow> reach st cache ds (ds @ [GetName ob])"
  by (rule reach.down [OF reach.here])

lemma reach_trans: "\<lbrakk>reach st c ds es; reach st c cs ds\<rbrakk> \<Longrightarrow> reach st c cs es"
  by (induction rule: reach.induct) (auto intro: reach.intros)

definition dir_names_ok :: "list_cache \<Rightarrow> bool" where
  "dir_names_ok cache \<longleftrightarrow> (\<forall>objs \<in> ran cache. \<forall>ob \<in> set objs. IsDir ob \<longrightarrow> fix_comp (GetName ob))"

lemma dir_names_okD: "\<lbrakk>dir_names_ok c; c k = Some objs; ob \<in> set objs; IsDir ob\<rbrakk> \<Longrightarrow> fix_comp (GetName ob)"
  by (auto simp: dir_names_ok_def ran_def)

definition without :: "Storage \<Rightarrow> list_cache \<Rightarrow> string list set \<Rightarrow> list_cache" where
  "without st cache H k = (if \<exists>cs \<in> H. list_all fix_comp cs \<and> k = Key st (render cs) then None else cache k)"

lemma dir_names_ok_without: "dir_names_ok c \<Longrightarrow> dir_names_ok (without st c H)"
  by (fastforce simp: dir_names_ok_def without_def ran_def)

lemma without_without: "without st (without st c H) K = without st c (H \<union> K)"
  by (auto simp: without_def fun_eq_iff)

lemma without_empty [simp]: "without st c {} = c"
  by (simp add: without_def fun_eq_iff)

lemma entry_without:
  "\<lbrakk>std_mount st; list_all fix_comp ds\<rbrakk> \<Longrightarrow> entry st (without st c H) ds = (if ds \<in> H then None else entry st c ds)"
  by (auto simp: without_def Key_inj entry_def)

lemma reach_fix: "\<lbrakk>reach st c cs ds; list_all fix_comp cs; dir_names_ok c\<rbrakk> \<Longrightarrow> list_all fix_comp ds"
  by (induction rule: reach.induct) (auto simp: entry_def dest: dir_names_okD)

text \<open>Taking out a set that is closed under \<^const>\<open>reach\<close> hides nothing but that set.\<close>

lemma reach_without:
  assumes st: "std_mount st" and c: "dir_names_ok c" and cs: "list_all fix_comp cs"
    and closed: "\<And>ds es. \<lbrakk>ds \<in> H; reach st c ds es\<rbrakk> \<Longrightarrow> es \<in> H"
  shows "Collect (reach st (without st c H) cs) \<union> H = Collect (reach st c cs) \<union> H"
proof -
  have "reach st c cs ds" if "reach st (without st c H) cs ds" for ds
    using that
  proof (induction rule: reach.induct)
    case (down ds objs ob)
    then have "list_all fix_comp ds" using reach_fix cs c by blast
    with down st show ?case by (auto simp: entry_without split: if_splits intro: reach.down)
  qed (rule reach.here)
  moreover have "reach st (without st c H) cs ds \<or> ds \<in> H" if "reach st c cs ds" for ds
    using that
  proof (induction rule: reach.induct)
    case (down ds objs ob)
    have "ds @ [GetName ob] \<in> H" if "ds \<in> H"
      using closed [OF that] reach_child [OF down(2,3,4)] by blast
    moreover have "list_all fix_comp ds" using reach_fix [OF down(1) cs c] .
    then have "entry st (without st c H) ds = Some objs" if "ds \<notin> H"
      using that down(2) st by (simp add: entry_without)
    ultimately show ?case using down(3-5) by (blast intro: reach.down)
  qed (simp add: reach.here)
  ultimately show ?thesis by blast
qed

lemma reach_split:
  assumes "entry st c cs = Some objs"
  shows "Collect (reach st c cs) = insert cs (\<Union>ob \<in> {ob \<in> set objs. IsDir ob}. Collect (reach st c (cs @ [GetName ob])))"
proof -
  have "reach st c cs ds \<Longrightarrow> ds = cs \<or> (\<exists>ob \<in> set objs. IsDir ob \<and> reach st c (cs @ [GetName ob]) ds)" for ds
    by (induction rule: reach.induct) (use assms in \<open>auto intro: reach.intros\<close>)
  then show ?thesis
    using reach.here [of st c cs] reach_child [OF assms] by (auto intro: reach_trans)
qed

lemma reach_none: "entry st c cs = None \<Longrightarrow> Collect (reach st c cs) = {cs}"
proof -
  assume a: "entry st c cs = None"
  have "reach st c cs ds \<Longrightarrow> ds = cs" for ds by (induction rule: reach.induct) (use a in auto)
  then show ?thesis by (auto intro: reach.here)
qed

lemma reach_dirs_without:
  assumes st: "std_mount st" and c: "dir_names_ok c" and cs: "list_all fix_comp cs"
    and obs: "\<forall>ob \<in> set obs. IsDir ob \<longrightarrow> fix_comp (GetName ob)"
    and H: "H = Collect (reach st c ds)"
  shows "H \<union> (\<Union>ob \<in> {ob \<in> set obs. IsDir ob}. Collect (reach st (without st c H) (cs @ [GetName ob])))
       = H \<union> (\<Union>ob \<in> {ob \<in> set obs. IsDir ob}. Collect (reach st c (cs @ [GetName ob])))"
proof -
  have "Collect (reach st (without st c H) (cs @ [GetName ob])) \<union> H = Collect (reach st c (cs @ [GetName ob])) \<union> H"
    if "ob \<in> set obs" "IsDir ob" for ob
    by (rule reach_without [OF st c]) (use cs obs that H in \<open>auto intro: reach_trans\<close>)
  then show ?thesis by blast
qed

lemma ClearCache_dirs_spec:
  assumes st: "std_mount st"
    and clear: "\<And>c c' cs. \<lbrakk>ClearCache n st c (render cs) = Some c'; list_all fix_comp cs; dir_names_ok c\<rbrakk>
      \<Longrightarrow> c' = without st c (Collect (reach st c cs))"
  shows "\<lbrakk>ClearCache_dirs n st c (render cs) obs = Some c'; list_all fix_comp cs; dir_names_ok c;
          \<forall>ob \<in> set obs. IsDir ob \<longrightarrow> fix_comp (GetName ob)\<rbrakk>
      \<Longrightarrow> c' = without st c (\<Union>ob \<in> {ob \<in> set obs. IsDir ob}. Collect (reach st c (cs @ [GetName ob])))"
proof (induction obs arbitrary: c)
  case (Cons ob obs)
  show ?case
  proof (cases "IsDir ob")
    case True
    let ?H = "Collect (reach st c (cs @ [GetName ob]))"
    have ob: "fix_comp (GetName ob)" using Cons.prems True by simp
    then have j: "path_Join (render cs) (GetName ob) = render (cs @ [GetName ob])"
      using Cons.prems path_Join_one [of cs "GetName ob"] by (simp add: fix_valid fix_comp_def [of "GetName ob"])
    with Cons.prems True obtain c1 where c1: "ClearCache n st c (render (cs @ [GetName ob])) = Some c1"
        "ClearCache_dirs n st c1 (render cs) obs = Some c'" by (auto split: option.splits)
    have e: "c1 = without st c ?H" using clear [OF c1(1)] Cons.prems ob by simp
    then have "c' = without st c1 (\<Union>ob \<in> {ob \<in> set obs. IsDir ob}. Collect (reach st c1 (cs @ [GetName ob])))"
      using Cons.IH [OF c1(2)] Cons.prems by (simp add: dir_names_ok_without)
    also have "\<dots> = without st c (?H \<union> (\<Union>ob \<in> {ob \<in> set obs. IsDir ob}. Collect (reach st c (cs @ [GetName ob]))))"
      unfolding e without_without
      using Cons.prems by (subst reach_dirs_without [OF st]) auto
    finally show ?thesis using True by (simp add: insert_Collect [symmetric] Collect_disj_eq conj_disj_distribR) (auto intro: arg_cong [where f = "without st c"])
  next
    case False
    have "{x \<in> set (ob # obs). IsDir x} = {x \<in> set obs. IsDir x}" using False by auto
    with Cons False show ?thesis by simp
  qed
qed simp

lemma ClearCache_spec:
  assumes st: "std_mount st"
  shows "\<lbrakk>ClearCache n st c (render cs) = Some c'; list_all fix_comp cs; dir_names_ok c\<rbrakk>
      \<Longrightarrow> c' = without st c (Collect (reach st c cs))"
proof (induction n arbitrary: c c' cs)
  case (Suc n)
  show ?case
  proof (cases "entry st c cs")
    case None
    then show ?thesis using Suc.prems by (auto simp: reach_none [OF None] without_def fun_eq_iff entry_def)
  next
    case (Some objs)
    then obtain c1 where c1: "ClearCache_dirs n st c (render cs) objs = Some c1" "c' = c1(Key st (render cs) := None)"
      using Suc.prems by (auto simp: entry_def split: option.splits)
    have "c1 = without st c (\<Union>ob \<in> {ob \<in> set objs. IsDir ob}. Collect (reach st c (cs @ [GetName ob])))"
      using Suc Some by (intro ClearCache_dirs_spec [OF st _ c1(1)]) (auto simp: entry_def dest: dir_names_okD)
    with c1(2) Suc.prems show ?thesis
      unfolding reach_split [OF Some] by (auto simp: without_def fun_eq_iff)
  qed
qed simp

text \<open>The stack depth that is enough: one more than the longest cached path below the start.\<close>

definition deepest :: "Storage \<Rightarrow> list_cache \<Rightarrow> nat \<Rightarrow> bool" where
  "deepest st c b \<longleftrightarrow> (\<forall>cs. list_all fix_comp cs \<longrightarrow> entry st c cs \<noteq> None \<longrightarrow> length cs \<le> b)"

lemma deepest_mono: "\<lbrakk>deepest st c b; c' \<subseteq>\<^sub>m c\<rbrakk> \<Longrightarrow> deepest st c' b"
  unfolding deepest_def entry_def map_le_def by (metis domI not_None_eq)

lemma without_le: "without st c H \<subseteq>\<^sub>m c"
  by (auto simp: without_def map_le_def split: if_splits)

lemma ClearCache_dirs_returns:
  assumes st: "std_mount st"
    and clear: "\<And>c cs. \<lbrakk>list_all fix_comp cs; dir_names_ok c; deepest st c b; 1 \<le> n; b + 2 \<le> length cs + n\<rbrakk>
      \<Longrightarrow> ClearCache n st c (render cs) \<noteq> None"
    and cs: "list_all fix_comp cs" "1 \<le> n" "b + 1 \<le> length cs + n"
  shows "\<lbrakk>dir_names_ok c; deepest st c b; \<forall>ob \<in> set obs. IsDir ob \<longrightarrow> fix_comp (GetName ob)\<rbrakk>
    \<Longrightarrow> ClearCache_dirs n st c (render cs) obs \<noteq> None"
proof (induction obs arbitrary: c)
  case (Cons ob obs)
  show ?case
  proof (cases "IsDir ob")
    case True
    then have ob: "fix_comp (GetName ob)" using Cons.prems by simp
    then have j: "path_Join (render cs) (GetName ob) = render (cs @ [GetName ob])"
      using cs path_Join_one [of cs "GetName ob"] by (simp add: fix_valid fix_comp_def [of "GetName ob"])
    have "ClearCache n st c (render (cs @ [GetName ob])) \<noteq> None"
      using Cons.prems cs ob by (intro clear) auto
    then obtain c1 where c1: "ClearCache n st c (render (cs @ [GetName ob])) = Some c1" by blast
    then have "c1 = without st c (Collect (reach st c (cs @ [GetName ob])))"
      using ClearCache_spec [OF st c1] cs ob Cons.prems by simp
    then have "dir_names_ok c1" "deepest st c1 b"
      using Cons.prems dir_names_ok_without without_le deepest_mono by blast+
    with Cons True c1 j show ?thesis by simp
  qed (use Cons in simp)
qed simp

lemma ClearCache_returns:
  assumes st: "std_mount st"
  shows "\<lbrakk>list_all fix_comp cs; dir_names_ok c; deepest st c b; 1 \<le> n; b + 2 \<le> length cs + n\<rbrakk>
    \<Longrightarrow> ClearCache n st c (render cs) \<noteq> None"
proof (induction n arbitrary: c cs)
  case (Suc n)
  show ?case
  proof (cases "entry st c cs")
    case (Some objs)
    then have len: "length cs \<le> b" using Suc.prems by (auto simp: deepest_def)
    have "ClearCache_dirs n st c (render cs) objs \<noteq> None"
      using Suc.prems Some len
      by (intro ClearCache_dirs_returns [OF st, where b = b] Suc.IH) (auto simp: entry_def dest: dir_names_okD)
    with Some show ?thesis by (auto simp: entry_def)
  qed (simp add: entry_def)
qed simp

text \<open>C13: \<^const>\<open>ClearCache\<close> returns when the stack is deeper than the cached paths are long, and what it
  takes out is the listing of the path and of every directory found below it by following cached
  listings, nothing else.\<close>

theorem ClearCache_clears_reachable:
  assumes "std_mount st" "dir_names_ok cache" "deepest st cache b" "b + 2 \<le> n"
  shows "ClearCache n st cache (FixAndCleanPath path)
       = Some (without st cache (Collect (reach st cache (fcomps path))))"
proof -
  have "ClearCache n st cache (render (fcomps path)) \<noteq> None"
    using assms by (intro ClearCache_returns) auto
  then show ?thesis
    using ClearCache_spec [OF assms(1), of n cache "fcomps path"] assms by (auto simp: FixAndCleanPath_render)
qed

definition a_storage :: Storage where
  "a_storage = \<lparr>ID = 1, MountPath = ''/m'', Order = 0, Driver = ''Local'', CacheExpiration = 30, Status = ''work'', Addition = [],
     Remark = [], StModified = 0, StDisabled = False, OrderBy = [], OrderDirection = [], ExtractFolderTo = [],
     EnableSign = False, WebProxy = False, DownProxyUrl = [], DownProxySign = False\<rparr>"

definition a_dir :: "string \<Rightarrow> Obj" where
  "a_dir n = Obj \<lparr>ObjID = [], ObjPath = [], ObjName = n, ObjSize = 0, ObjModified = 0, IsFolder = True\<rparr>"

definition a_cache :: list_cache where
  "a_cache = [''/m/a'' \<mapsto> [a_dir ''b''], ''/m/a/b'' \<mapsto> [a_dir ''c'']]"

lemma a_cache_facts:
  "std_mount a_storage" "dir_names_ok a_cache" "deepest a_storage a_cache 2"
proof -
  have m: "fcomps ''/m'' = [''m'']" by code_simp
  then show s: "std_mount a_storage" by (simp add: std_mount_def a_storage_def render_def)
  show "dir_names_ok a_cache"
    by (auto simp: dir_names_ok_def a_cache_def ran_def a_dir_def fix_comp_def valid_comp_def split: if_splits)
  have "render [''m'', ''a''] = ''/m/a''" "render [''m'', ''a'', ''b''] = ''/m/a/b''" by code_simp+
  then have "render ms \<in> dom a_cache \<Longrightarrow> list_all fix_comp ms \<Longrightarrow> ms = [''m'', ''a''] \<or> ms = [''m'', ''a'', ''b'']" for ms
    using render_inj [of ms "[''m'', ''a'']"] render_inj [of ms "[''m'', ''a'', ''b'']"]
    by (auto simp: a_cache_def fix_valid valid_comp_def split: if_splits)
  then show "deepest a_storage a_cache 2"
    using s m by (fastforce simp: deepest_def entry_def Key_render a_storage_def fix_comp_def valid_comp_def)
qed

theorem ClearCache_clears_reachable_witness:
  "ClearCache 4 a_storage a_cache (FixAndCleanPath ''/a'')
     = Some (without a_storage a_cache (Collect (reach a_storage a_cache (fcomps ''/a''))))"
  by (rule ClearCache_clears_reachable [OF a_cache_facts]) simp

text \<open>A directory deleted, moved or renamed while its own listing is no longer cached leaves the cached
  listings below it alone: \<^const>\<open>ClearCache\<close> does not find them, and they stay until they expire.\<close>

theorem ClearCache_misses_orphans:
  "ClearCache (Suc n) a_storage [''/m/a/b'' \<mapsto> [a_dir ''c'']] ''/a'' = Some [''/m/a/b'' \<mapsto> [a_dir ''c'']]"
proof -
  have "Key a_storage ''/a'' = ''/m/a''" by code_simp
  then show ?thesis by (simp add: fun_eq_iff)
qed

section \<open>Listings after a change\<close>

text \<open>The listing at a path holds exactly the objects \<open>S\<close>, each name once.\<close>

definition lists_exactly :: "Storage \<Rightarrow> list_cache \<Rightarrow> string \<Rightarrow> Obj set \<Rightarrow> bool" where
  "lists_exactly st cache path S \<longleftrightarrow>
     (\<exists>objs. cache (Key st path) = Some objs \<and> set objs = S \<and> distinct (names objs))"

lemma distinct_add:
  assumes "distinct (names objs)" "\<not> list_ex (\<lambda>ob. GetName ob = GetName new) objs"
  shows "GetName new \<notin> set (names objs)" "{ob \<in> set objs. GetName ob \<noteq> GetName new} = set objs"
  using assms by (auto simp: list_ex_iff)

text \<open>A cached listing follows the changes made through the server: a deleted object leaves it, a new
  one enters it in place of one of the same name, a renamed one is exchanged and an object that had
  the new name goes; no name appears twice.\<close>

theorem cached_listing_follows_changes:
  assumes S: "lists_exactly st cache path S"
    and old: "old \<in> S" "GetName ob \<noteq> GetName old"
  shows "lists_exactly st (delCacheObj st cache path ob) path {x \<in> S. GetName x \<noteq> GetName ob}
    \<and> lists_exactly st (addCacheObj st cache path ob) path (insert ob {x \<in> S. GetName x \<noteq> GetName ob})
    \<and> lists_exactly st (updateCacheObj st cache path old ob) path
        (insert ob {x \<in> S. GetName x \<noteq> GetName old \<and> GetName x \<noteq> GetName ob})"
proof (intro conjI)
  obtain objs where o: "cache (Key st path) = Some objs" "set objs = S" "distinct (names objs)"
    using S by (auto simp: lists_exactly_def)
  show "lists_exactly st (delCacheObj st cache path ob) path {x \<in> S. GetName x \<noteq> GetName ob}"
    using o by (simp add: lists_exactly_def delCacheObj_def Let_def set_delete_first distinct_delete_first)
  show "lists_exactly st (addCacheObj st cache path ob) path (insert ob {x \<in> S. GetName x \<noteq> GetName ob})"
  proof (cases "list_ex (\<lambda>x. GetName x = GetName ob) objs")
    case True
    then have "GetName ob \<in> set (names objs)" by (auto simp: list_ex_iff image_iff) metis
    with True o show ?thesis
      by (simp add: lists_exactly_def addCacheObj_def Let_def set_replace_first distinct_replace_first)
  next
    case False
    then show ?thesis using o distinct_add [OF o(3) False]
      by (auto simp: lists_exactly_def addCacheObj_def Let_def)
  qed
  let ?d = "delete_first (GetName ob) objs"
  have d: "set ?d = {x \<in> S. GetName x \<noteq> GetName ob}" "distinct (names ?d)"
    using o by (simp_all add: set_delete_first distinct_delete_first)
  have "old \<in> set ?d" unfolding d(1) using old by simp
  then have "GetName old \<in> set (names ?d)" "GetName ob \<notin> set (names ?d)"
    by (simp, auto simp: d(1))
  then have "set (replace_first (GetName old) ob ?d) = insert ob {x \<in> S. GetName x \<noteq> GetName old \<and> GetName x \<noteq> GetName ob}"
    "distinct (names (replace_first (GetName old) ob ?d))"
    using d(2) by (simp_all add: set_replace_first distinct_replace_first d(1)) auto
  with o show "lists_exactly st (updateCacheObj st cache path old ob) path
      (insert ob {x \<in> S. GetName x \<noteq> GetName old \<and> GetName x \<noteq> GetName ob})"
    by (simp add: lists_exactly_def updateCacheObj_def Let_def)
qed

theorem cached_listing_follows_changes_witness:
  "lists_exactly a_storage (addCacheObj a_storage a_cache ''/a'' (a_dir ''x'')) ''/a''
     (insert (a_dir ''x'') {x \<in> {a_dir ''b''}. GetName x \<noteq> ''x''})
   \<and> lists_exactly a_storage (updateCacheObj a_storage a_cache ''/a'' (a_dir ''b'') (a_dir ''x'')) ''/a''
       (insert (a_dir ''x'') {x \<in> {a_dir ''b''}. GetName x \<noteq> ''b'' \<and> GetName x \<noteq> ''x''})"
proof -
  have "Key a_storage ''/a'' = ''/m/a''" by code_simp
  then have l: "lists_exactly a_storage a_cache ''/a'' {a_dir ''b''}"
    by (simp add: lists_exactly_def a_cache_def)
  have n: "GetName (a_dir n) = n" for n by (simp add: a_dir_def)
  show ?thesis
    using cached_listing_follows_changes [OF l, of "a_dir ''b''" "a_dir ''x''"] by (simp add: n)
qed

text \<open>Renamed to the name it has, an object disappears from the cached listing: the loop that makes
  room for the new name takes it out, and the loop that looks for the old name finds nothing.\<close>

theorem rename_to_same_name_unlists:
  assumes "lists_exactly st cache path S" "GetName new = GetName old"
  shows "lists_exactly st (updateCacheObj st cache path old new) path {x \<in> S. GetName x \<noteq> GetName old}"
proof -
  obtain objs where o: "cache (Key st path) = Some objs" "set objs = S" "distinct (names objs)"
    using assms by (auto simp: lists_exactly_def)
  have same: "replace_first n new xs = xs" if "n \<notin> set (names xs)" for n xs
    using that by (induction xs) auto
  have "GetName old \<notin> set (names (delete_first (GetName new) objs))"
    using o assms by (auto simp: set_delete_first)
  with o assms show ?thesis
    by (simp add: lists_exactly_def updateCacheObj_def Let_def same set_delete_first distinct_delete_first)
qed

theorem rename_to_same_name_unlists_witness:
  "lists_exactly a_storage (updateCacheObj a_storage a_cache ''/a'' (a_dir ''b'') (a_dir ''b'')) ''/a''
     {x \<in> {a_dir ''b''}. GetName x \<noteq> GetName (a_dir ''b'')}"
proof -
  have "Key a_storage ''/a'' = ''/m/a''" by code_simp
  then have "lists_exactly a_storage a_cache ''/a'' {a_dir ''b''}"
    by (simp add: lists_exactly_def a_cache_def)
  then show ?thesis by (rule rename_to_same_name_unlists) simp
qed

end
