(* ===== verification/StorageMap.thy ===== *)
theory StorageMap
  imports OpCache "HOL-Library.Char_ord" "HOL-Library.List_Lexorder" "HOL-Library.Multiset"
begin

text \<open>
  Which storage serves a path (\<^verbatim>\<open>internal/op/storage.go\<close>, \<^verbatim>\<open>internal/op/path.go\<close>): the storages by mount
  path, the longest mount path that covers a request, the balancing between the storages that share
  one, and the virtual folders above the mounts.  \<^verbatim>\<open>storagesMap\<close> is the list of its entries in the
  order \<^verbatim>\<open>Range\<close> visits them; the results do not depend on that order.
\<close>

section \<open>The map of storages\<close>

record 'd mounted =
  dStorage :: Storage
  dState :: 'd

type_synonym 'd storages = "(string \<times> 'd mounted) list"

fun Store :: "string \<Rightarrow> 'v \<Rightarrow> (string \<times> 'v) list \<Rightarrow> (string \<times> 'v) list" where
  "Store k v [] = [(k, v)]"
| "Store k v ((k', v') # xs) = (if k' = k then (k, v) # xs else (k', v') # Store k v xs)"

definition Delete :: "string \<Rightarrow> (string \<times> 'v) list \<Rightarrow> (string \<times> 'v) list" where
  "Delete k xs = filter (\<lambda>(k', v). k' \<noteq> k) xs"

definition HasStorage :: "'d storages \<Rightarrow> string \<Rightarrow> bool" where
  "HasStorage m mountPath = (map_of m (FixAndCleanPath mountPath) \<noteq> None)"

definition GetStorageByMountPath :: "'d storages \<Rightarrow> string \<Rightarrow> err + 'd mounted" where
  "GetStorageByMountPath m mountPath =
     (case map_of m (FixAndCleanPath mountPath) of
        None \<Rightarrow> Inl (ErrMsg ''no mount path for an storage'')
      | Some v \<Rightarrow> Inr v)"

definition firstPathSegment :: "string \<Rightarrow> string" where
  "firstPathSegment p =
     (let p = TrimPrefix (FixAndCleanPath p) ''/''
      in if p = [] then [] else case Index p ''/'' of Some i \<Rightarrow> take i p | None \<Rightarrow> p)"

section \<open>Selection\<close>

abbreviation mount_of :: "'d mounted \<Rightarrow> string" where
  "mount_of v \<equiv> MountPath (dStorage v)"

definition visit_storage :: "string \<Rightarrow> 'd mounted list \<times> nat \<Rightarrow> string \<times> 'd mounted \<Rightarrow> 'd mounted list \<times> nat" where
  "visit_storage path = (\<lambda>(storages, cur) (key, value).
     let mountPath = GetActualMountPath key
     in if IsSubPath mountPath path then
          let slashCount = CountByte (PathAddSeparatorSuffix mountPath) CHR ''/'';
              (storages, cur) = (if slashCount > cur then ([], slashCount) else (storages, cur))
          in if slashCount = cur then (storages @ [value], cur) else (storages, cur)
        else (storages, cur))"

definition getStoragesByPath :: "'d storages \<Rightarrow> string \<Rightarrow> 'd mounted list" where
  "getStoragesByPath m path = sort_key mount_of (fst (foldl (visit_storage path) ([], 0) m))"

text \<open>The balance map keeps the index used last for a virtual path.\<close>

definition GetBalancedStorage :: "'d storages \<Rightarrow> (string \<Rightarrow> nat option) \<Rightarrow> string \<Rightarrow> (string \<Rightarrow> nat option) \<times> 'd mounted option" where
  "GetBalancedStorage m balanceMap path0 =
     (let path = FixAndCleanPath path0; storages = getStoragesByPath m path; storageNum = length storages
      in if storageNum = 0 then (balanceMap, None)
         else if storageNum = 1 then (balanceMap, Some (storages ! 0))
         else let virtualPath = GetActualMountPath (mount_of (storages ! 0));
                  i = (case balanceMap virtualPath of None \<Rightarrow> 0 | Some i \<Rightarrow> i);
                  i = (i + 1) mod storageNum
              in (balanceMap(virtualPath \<mapsto> i), Some (storages ! i)))"

definition GetStorageAndActualPath ::
    "'d storages \<Rightarrow> (string \<Rightarrow> nat option) \<Rightarrow> string \<Rightarrow> (string \<Rightarrow> nat option) \<times> (err + 'd mounted \<times> string)" where
  "GetStorageAndActualPath m balanceMap rawPath0 =
     (let rawPath = FixAndCleanPath rawPath0
      in case GetBalancedStorage m balanceMap rawPath of
           (b, None) \<Rightarrow> (b, Inl StorageNotFound)
         | (b, Some st) \<Rightarrow>
             let mountPath = GetActualMountPath (mount_of st)
             in (b, Inr (st, FixAndCleanPath (TrimPrefix rawPath mountPath))))"

section \<open>Virtual folders\<close>

definition virtual_name :: "string \<Rightarrow> string \<Rightarrow> string" where
  "virtual_name prfx mountPath = hd (Split CHR ''/'' (TrimPrefix (drop (length prfx) mountPath) ''/''))"

fun virtual_files :: "string \<Rightarrow> string set \<Rightarrow> 'd mounted list \<Rightarrow> Obj list" where
  "virtual_files prfx S [] = []"
| "virtual_files prfx S (v # vs) =
     (let mountPath = GetActualMountPath (mount_of v)
      in if length prfx \<ge> length mountPath \<or> \<not> IsSubPath prfx mountPath then virtual_files prfx S vs
         else let name = virtual_name prfx mountPath
              in if name \<in> S then virtual_files prfx S vs
                 else Obj \<lparr>ObjID = [], ObjPath = [], ObjName = name, ObjSize = 0,
                           ObjModified = StModified (dStorage v), IsFolder = True\<rparr>
                      # virtual_files prfx (insert name S) vs)"

definition by_order :: "'d mounted list \<Rightarrow> 'd mounted list" where
  "by_order vs = sort_key (\<lambda>v. Order (dStorage v)) (sort_key mount_of vs)"

definition GetStorageVirtualFilesByPath :: "'d storages \<Rightarrow> string \<Rightarrow> Obj list" where
  "GetStorageVirtualFilesByPath m prfx = virtual_files (FixAndCleanPath prfx) {} (by_order (map snd m))"

section \<open>Well-formed maps\<close>

text \<open>
  Entries are filed under the mount path of their storage, which is clean.  \<open>mounts_ok\<close> asks in
  addition that what is left of a mount path without its balance suffix is clean, too: a mount
  path such as \<^verbatim>\<open>/a/.balance\<close>, with nothing before the suffix, is not.
\<close>

definition storages_ok :: "'d storages \<Rightarrow> bool" where
  "storages_ok m \<longleftrightarrow> distinct (map fst m) \<and> (\<forall>(k, v) \<in> set m. mount_of v = k \<and> FixAndCleanPath k = k)"

definition mounts_ok :: "'d storages \<Rightarrow> bool" where
  "mounts_ok m \<longleftrightarrow> storages_ok m \<and> (\<forall>(k, v) \<in> set m. FixAndCleanPath (GetActualMountPath k) = GetActualMountPath k)"

abbreviation depth :: "string \<Rightarrow> nat" where
  "depth k \<equiv> length (fcomps (GetActualMountPath k))"

lemma Count_append [simp]: "CountByte (xs @ ys) c = CountByte xs c + CountByte ys c"
  by (simp add: CountByte_def)

lemma Count_none: "c \<notin> set xs \<Longrightarrow> CountByte xs c = 0"
  by (induction xs) (auto simp: CountByte_def)

lemma Count_Cons [simp]: "CountByte (x # xs) c = (if x = c then 1 else 0) + CountByte xs c"
  by (simp add: CountByte_def)

lemma Count_Nil [simp]: "CountByte [] c = 0"
  by (simp add: CountByte_def)

lemma Count_Join:
  "list_all valid_comp cs \<Longrightarrow> CountByte (Join ''/'' cs) CHR ''/'' = length cs - 1"
proof (induction cs)
  case (Cons c cs)
  have "CountByte c CHR ''/'' = 0" using Cons.prems by (simp add: Count_none valid_comp_def)
  then show ?case using Cons by (cases "cs = []") (simp_all add: Join_Cons)
qed simp

lemma slash_count:
  assumes "FixAndCleanPath p = p"
  shows "CountByte (PathAddSeparatorSuffix p) CHR ''/'' = length (fcomps p) + 1"
proof -
  have p: "p = render (fcomps p)" using assms FixAndCleanPath_render by metis
  have "CountByte (PathAddSeparatorSuffix (render cs)) CHR ''/'' = length cs + 1" if "list_all valid_comp cs" for cs
    using that Count_Join [OF that]
    by (cases "cs = []") (simp_all add: PathAddSeparatorSuffix_render, simp add: render_def)
  from this [of "fcomps p"] p show ?thesis by simp
qed

section \<open>The longest match\<close>

definition covers_path :: "string \<Rightarrow> string \<Rightarrow> bool" where
  "covers_path path k = IsSubPath (GetActualMountPath k) path"

abbreviation slashes :: "string \<Rightarrow> nat" where
  "slashes k \<equiv> CountByte (PathAddSeparatorSuffix (GetActualMountPath k)) CHR ''/''"

definition best :: "string \<Rightarrow> string list \<Rightarrow> nat" where
  "best path ks = Max (insert 0 (slashes ` {k \<in> set ks. covers_path path k}))"

lemma best_snoc: "best path (ks @ [k]) = (if covers_path path k then max (slashes k) (best path ks) else best path ks)"
proof -
  have fin: "finite (insert 0 (slashes ` {k \<in> set ks. covers_path path k}))" by simp
  have "insert 0 (slashes ` {x \<in> set (ks @ [k]). covers_path path x})
      = (if covers_path path k then insert (slashes k) else id) (insert 0 (slashes ` {x \<in> set ks. covers_path path x}))"
    by auto
  then show ?thesis using fin by (simp add: best_def Max_insert [OF fin])
qed

lemma best_ge: "\<lbrakk>k \<in> set ks; covers_path path k\<rbrakk> \<Longrightarrow> slashes k \<le> best path ks"
  by (auto simp: best_def intro!: Max_ge)

lemma slashes_pos: "0 < slashes k"
proof -
  have "CHR ''/'' \<in> set (PathAddSeparatorSuffix p)" for p
    by (auto simp: PathAddSeparatorSuffix_def HasSuffix_def suffix_def)
  then have "filter (\<lambda>x. x = CHR ''/'') (PathAddSeparatorSuffix p) \<noteq> []" for p
    by (auto simp: filter_empty_conv)
  then show ?thesis by (simp add: CountByte_def)
qed

abbreviation picked :: "string \<Rightarrow> 'd storages \<Rightarrow> 'd mounted list" where
  "picked path m \<equiv> map snd (filter (\<lambda>(k, v). covers_path path k \<and> slashes k = best path (map fst m)) m)"

lemma visit_all: "foldl (visit_storage path) ([], 0) m = (picked path m, best path (map fst m))"
proof (induction m rule: rev_induct)
  case (snoc kv m)
  obtain k v where kv: "kv = (k, v)" by (cases kv)
  let ?b = "best path (map fst m)"
  have old: "slashes k' \<le> ?b" if "(k', v') \<in> set m" "covers_path path k'" for k' v'
    using that by (intro best_ge) force+
  have "filter (\<lambda>(k', v'). covers_path path k' \<and> slashes k' = slashes k) m = []" if "?b < slashes k"
    using old that by (fastforce simp: filter_empty_conv)
  then show ?case using snoc
    by (auto simp: kv visit_storage_def covers_path_def [symmetric] best_snoc Let_def max_def)
qed (simp add: best_def)

text \<open>Two mounts that cover a path at the same depth are the same.\<close>

lemma covers_eq:
  assumes "covers_path path k" "covers_path path k'" "depth k = depth k'"
    "FixAndCleanPath (GetActualMountPath k) = GetActualMountPath k"
    "FixAndCleanPath (GetActualMountPath k') = GetActualMountPath k'"
  shows "GetActualMountPath k = GetActualMountPath k'"
proof -
  have "fcomps (GetActualMountPath k) = fcomps (GetActualMountPath k')"
    using assms(1-3) unfolding covers_path_def IsSubPath_comps
    by (metis prefix_length_prefix prefix_order.antisym order_refl)
  with assms(4,5) show ?thesis by (metis FixAndCleanPath_render)
qed

definition longest :: "'d storages \<Rightarrow> string \<Rightarrow> 'd mounted \<Rightarrow> bool" where
  "longest m path v \<longleftrightarrow> v \<in> snd ` set m \<and> covers_path path (mount_of v)
     \<and> (\<forall>k \<in> fst ` set m. covers_path path k \<longrightarrow> depth k \<le> depth (mount_of v))"

lemma mounts_okD:
  assumes "mounts_ok m" "(k, v) \<in> set m"
  shows "mount_of v = k" "slashes k = depth k + 1" "FixAndCleanPath k = k"
    "FixAndCleanPath (GetActualMountPath k) = GetActualMountPath k"
  using assms by (auto simp: mounts_ok_def storages_ok_def slash_count)

lemma set_picked:
  assumes m: "mounts_ok m"
  shows "set (picked path m) = {v. longest m path v}"
proof -
  let ?b = "best path (map fst m)"
  have sc: "slashes k = depth k + 1" if "k \<in> fst ` set m" for k using mounts_okD(2) [OF m] that by auto
  have iff: "slashes k = ?b \<longleftrightarrow> (\<forall>k' \<in> fst ` set m. covers_path path k' \<longrightarrow> depth k' \<le> depth k)"
    if k: "k \<in> fst ` set m" "covers_path path k" for k
  proof
    assume eq: "slashes k = ?b"
    show "\<forall>k' \<in> fst ` set m. covers_path path k' \<longrightarrow> depth k' \<le> depth k"
    proof (intro ballI impI)
      fix k' assume k': "k' \<in> fst ` set m" "covers_path path k'"
      then have "slashes k' \<le> ?b" by (intro best_ge) simp_all
      with sc [OF k'(1)] sc [OF k(1)] eq show "depth k' \<le> depth k" by simp
    qed
  next
    assume le: "\<forall>k' \<in> fst ` set m. covers_path path k' \<longrightarrow> depth k' \<le> depth k"
    have "?b \<le> slashes k"
      unfolding best_def using le sc k by (intro Max.boundedI) auto
    then show "slashes k = ?b" using best_ge [of k "map fst m" path] k by simp
  qed
  show ?thesis
  proof (intro set_eqI iffI)
    fix v assume "v \<in> set (picked path m)"
    then obtain k where k: "(k, v) \<in> set m" "covers_path path k" "slashes k = ?b" by auto
    then have "k \<in> fst ` set m" "v \<in> snd ` set m" "mount_of v = k" using mounts_okD(1) [OF m] by force+
    with k iff [of k] show "v \<in> {v. longest m path v}" by (simp add: longest_def)
  next
    fix v assume "v \<in> {v. longest m path v}"
    then obtain k where k: "(k, v) \<in> set m" and l: "longest m path v" by (auto simp: longest_def)
    then have "mount_of v = k" "k \<in> fst ` set m" using mounts_okD(1) [OF m] by force+
    with k l iff [of k] show "v \<in> set (picked path m)" by (force simp: longest_def)
  qed
qed

lemma distinct_picked:
  assumes m: "mounts_ok m"
  shows "distinct (map mount_of (picked path m))"
proof -
  have e: "map mount_of (map snd xs) = map fst xs" if "set xs \<subseteq> set m" for xs
    using that mounts_okD(1) [OF m] by (induction xs) auto
  show ?thesis
    unfolding e [OF filter_is_subset] using m by (simp add: mounts_ok_def storages_ok_def distinct_map_filter)
qed

lemma getStoragesByPath_picked: "getStoragesByPath m path = sort_key mount_of (picked path m)"
  by (simp add: getStoragesByPath_def visit_all)

lemma set_getStoragesByPath: "mounts_ok m \<Longrightarrow> set (getStoragesByPath m path) = {v. longest m path v}"
  by (simp only: getStoragesByPath_picked set_sort set_picked)

lemma same_mount:
  assumes m: "mounts_ok m" and v: "longest m path v" "longest m path w"
  shows "GetActualMountPath (mount_of v) = GetActualMountPath (mount_of w)"
proof -
  obtain k l where kl: "(k, v) \<in> set m" "(l, w) \<in> set m" using v by (auto simp: longest_def)
  then have mo: "mount_of v = k" "mount_of w = l" using mounts_okD(1) [OF m] by auto
  have "k \<in> fst ` set m" "l \<in> fst ` set m" using kl by force+
  then have "depth k = depth l" using v mo unfolding longest_def by (metis antisym)
  then show ?thesis
    using v mo mounts_okD(4) [OF m kl(1)] mounts_okD(4) [OF m kl(2)] by (intro covers_eq [of path]) (simp_all add: longest_def)
qed

lemma mounts_ok_perm: "\<lbrakk>mounts_ok m; mset m' = mset m\<rbrakk> \<Longrightarrow> mounts_ok m'"
proof -
  assume m: "mounts_ok m" "mset m' = mset m"
  have "set m' = set m" using m(2) by (metis set_mset_mset)
  moreover have "mset (map fst m') = mset (map fst m)" using m(2) by simp
  from mset_eq_imp_distinct_iff [OF this] have "distinct (map fst m')"
    using m(1) by (simp add: mounts_ok_def storages_ok_def)
  ultimately show ?thesis using m(1) by (simp add: mounts_ok_def storages_ok_def)
qed

lemma getStoragesByPath_perm:
  assumes m: "mounts_ok m" "mset m' = mset m"
  shows "getStoragesByPath m' path = getStoragesByPath m path"
proof -
  have "set m' = set m" using m(2) by (metis set_mset_mset)
  then have "best path (map fst m') = best path (map fst m)" by (simp add: best_def)
  then have "mset (picked path m') = mset (picked path m)" using m(2) unfolding mset_map mset_filter by simp
  then have "mset (picked path m') = mset (sort_key mount_of (picked path m))" by simp
  moreover have "inj_on mount_of (set (picked path m'))"
    using distinct_picked [OF mounts_ok_perm [OF m]] by (simp add: distinct_map del: map_map)
  ultimately show ?thesis
    unfolding getStoragesByPath_picked by (intro sort_key_inj_key_eq) simp_all
qed

text \<open>C14: The storages that serve a path: those whose mount path, without its balance suffix, is the longest
  one at or above the path, in the order of their mount paths; the order in which the map of storages
  is visited does not matter, and all of them stand for the same place.\<close>

theorem getStoragesByPath_longest_match:
  assumes "mounts_ok m" "mset m' = mset m"
  shows "getStoragesByPath m' path = getStoragesByPath m path
    \<and> set (getStoragesByPath m path) = {v. longest m path v}
    \<and> sorted_wrt (<) (map mount_of (getStoragesByPath m path))
    \<and> (\<exists>p. set (map (GetActualMountPath \<circ> mount_of) (getStoragesByPath m path)) \<subseteq> {p})"
proof (intro conjI)
  show "getStoragesByPath m' path = getStoragesByPath m path" by (rule getStoragesByPath_perm [OF assms])
  show l: "set (getStoragesByPath m path) = {v. longest m path v}" by (rule set_getStoragesByPath [OF assms(1)])
  have "distinct (map mount_of (sort_key mount_of (picked path m)))"
    using distinct_picked [OF assms(1), of path] by (simp add: distinct_map del: map_map)
  then show "sorted_wrt (<) (map mount_of (getStoragesByPath m path))"
    by (simp add: getStoragesByPath_picked strict_sorted_iff del: map_map)
  show "\<exists>p. set (map (GetActualMountPath \<circ> mount_of) (getStoragesByPath m path)) \<subseteq> {p}"
  proof (cases "getStoragesByPath m path")
    case (Cons v vs)
    then have "longest m path v" using l by auto
    then have "GetActualMountPath (mount_of w) = GetActualMountPath (mount_of v)" if "longest m path w" for w
      using same_mount [OF assms(1) that] by blast
    then show ?thesis by (auto simp: l)
  qed simp
qed

section \<open>Balancing\<close>

fun balanced :: "'d storages \<Rightarrow> (string \<Rightarrow> nat option) \<Rightarrow> string \<Rightarrow> nat \<Rightarrow> 'd mounted option list" where
  "balanced m b path 0 = []"
| "balanced m b path (Suc n) = (let (b', v) = GetBalancedStorage m b path in v # balanced m b' path n)"

abbreviation last_index :: "'d mounted list \<Rightarrow> (string \<Rightarrow> nat option) \<Rightarrow> nat" where
  "last_index xs b \<equiv> (case b (GetActualMountPath (mount_of (xs ! 0))) of None \<Rightarrow> 0 | Some i \<Rightarrow> i)"

lemma balanced_from:
  assumes xs: "xs = getStoragesByPath m (FixAndCleanPath path)" "1 < length xs"
  shows "balanced m b path n = map (\<lambda>k. Some (xs ! ((last_index xs b + 1 + k) mod length xs))) [0..<n]"
proof (induction n arbitrary: b)
  case (Suc n)
  let ?i = "(last_index xs b + 1) mod length xs" and ?vp = "GetActualMountPath (mount_of (xs ! 0))"
  have step: "GetBalancedStorage m b path = (b(?vp \<mapsto> ?i), Some (xs ! ?i))"
    using xs by (auto simp: GetBalancedStorage_def Let_def)
  have m: "(?i + 1 + k) mod length xs = (last_index xs b + 1 + Suc k) mod length xs" for k
    using mod_add_left_eq [of "last_index xs b + 1" "length xs" "1 + k"] by (simp add: add.assoc)
  have "balanced m (b(?vp \<mapsto> ?i)) path n = map (\<lambda>k. Some (xs ! ((last_index xs b + 1 + Suc k) mod length xs))) [0..<n]"
    unfolding Suc.IH m [symmetric] by simp
  then show ?case by (simp add: step upt_conv_Cons map_Suc_upt [symmetric] del: upt_Suc)
qed simp

text \<open>Balancing is fair: of as many consecutive requests as there are storages for a path, each storage
  gets exactly one, whatever was asked before.\<close>

theorem balancing_is_fair:
  assumes "storages = getStoragesByPath m (FixAndCleanPath path)"
  shows "mset (balanced m b path (length storages)) = mset (map Some storages)"
proof -
  let ?xs = "getStoragesByPath m (FixAndCleanPath path)"
  consider "length ?xs = 0" | "length ?xs = 1" | "1 < length ?xs" by linarith
  then show ?thesis
  proof cases
    case 3
    define i where "i = last_index ?xs b + 1"
    have "balanced m b path (length ?xs) = map Some (rotate i ?xs)"
      unfolding balanced_from [OF refl 3] i_def [symmetric] by (rule nth_equalityI) (simp_all add: nth_rotate)
    moreover have "mset (rotate1 xs) = mset xs" for xs :: "'a mounted list" by (cases xs) simp_all
    then have "mset (rotate k xs) = mset xs" for k and xs :: "'a mounted list" by (induction k) simp_all
    ultimately show ?thesis unfolding assms by (metis mset_map)
  next
    case 2
    then obtain v where "?xs = [v]" by (auto simp: length_Suc_conv)
    then show ?thesis unfolding assms by (simp add: GetBalancedStorage_def Let_def)
  qed (simp add: assms)
qed

section \<open>The path inside the storage\<close>

lemma TrimPrefix_comps:
  assumes "list_all fix_comp (ms @ rs)"
  shows "fcomps (TrimPrefix (render (ms @ rs)) (render ms)) = rs"
proof -
  have v: "list_all fix_comp rs" using assms by simp
  then have b: "fcomps (Join ''/'' rs) = rs"
    using fcomps_render [OF v] by (simp add: fcomps_def render_def)
  show ?thesis
  proof (cases "ms = [] \<or> rs = []")
    case True
    with b show ?thesis by (auto simp: render_def TrimPrefix_def HasPrefix_def fcomps_def ReplaceByte_def)
  next
    case False
    then have "render (ms @ rs) = render ms @ render rs" by (simp add: render_def Join_append)
    with v show ?thesis by simp
  qed
qed

lemma GetBalancedStorage_result:
  "snd (GetBalancedStorage m b path) = (if getStoragesByPath m (FixAndCleanPath path) = [] then None
     else Some (getStoragesByPath m (FixAndCleanPath path) !
       (if length (getStoragesByPath m (FixAndCleanPath path)) = 1 then 0
        else (last_index (getStoragesByPath m (FixAndCleanPath path)) b + 1) mod length (getStoragesByPath m (FixAndCleanPath path)))))"
  by (simp add: GetBalancedStorage_def Let_def)

lemma covers_path_Fix [simp]: "covers_path (FixAndCleanPath path) = covers_path path"
  by (simp add: covers_path_def fun_eq_iff)

lemma longest_Fix [simp]: "longest m (FixAndCleanPath path) = longest m path"
  by (simp add: longest_def fun_eq_iff)

text \<open>There is a longest mount as soon as one covers the path.\<close>

lemma longest_exists:
  assumes m: "mounts_ok m" and k: "k \<in> fst ` set m" "covers_path path k"
  shows "\<exists>v. longest m path v"
proof -
  let ?K = "{k \<in> fst ` set m. covers_path path k}"
  have fin: "finite (depth ` ?K)" "depth ` ?K \<noteq> {}" using k by auto
  from Max_in [OF fin] obtain l where lm: "Max (depth ` ?K) = depth l" "l \<in> ?K" by (rule imageE)
  have l: "l \<in> ?K" "\<forall>k' \<in> ?K. depth k' \<le> depth l"
    using Max_ge [OF fin(1)] lm(2) unfolding lm(1) by blast+
  then obtain v where "(l, v) \<in> set m" by auto
  with l mounts_okD(1) [OF m this] show ?thesis by (intro exI [of _ v]) (force simp: longest_def)
qed

lemma storage_and_actual_path:
  assumes m: "mounts_ok m"
  shows "case snd (GetStorageAndActualPath m b path) of
      Inr (v, actualPath) \<Rightarrow> longest m path v
        \<and> fcomps path = fcomps (GetActualMountPath (mount_of v)) @ fcomps actualPath
        \<and> FixAndCleanPath actualPath = actualPath
    | Inl e \<Rightarrow> e = StorageNotFound \<and> {k \<in> fst ` set m. covers_path path k} = {}"
proof (cases "snd (GetBalancedStorage m b (FixAndCleanPath path))")
  case None
  then have "getStoragesByPath m path' = []" if "path' = FixAndCleanPath path" for path'
    using that by (simp add: GetBalancedStorage_result split: if_splits)
  then have "{v. longest m path v} = {}" using set_getStoragesByPath [OF m, of "FixAndCleanPath path"] by simp
  then have "{k \<in> fst ` set m. covers_path path k} = {}" using longest_exists [OF m] by blast
  with None show ?thesis by (cases "GetBalancedStorage m b (FixAndCleanPath path)") (simp add: GetStorageAndActualPath_def)
next
  case (Some v)
  let ?xs = "getStoragesByPath m (FixAndCleanPath path)"
  have "?xs \<noteq> []" "\<exists>i < length ?xs. v = ?xs ! i"
    using Some by (auto simp: GetBalancedStorage_result split: if_splits intro!: mod_less_divisor)
  then have "v \<in> set ?xs" by auto
  then have l: "longest m path v" using set_getStoragesByPath [OF m, of "FixAndCleanPath path"] by simp
  then obtain k where k: "(k, v) \<in> set m" by (auto simp: longest_def)
  let ?ms = "fcomps (GetActualMountPath (mount_of v))"
  have mk: "GetActualMountPath (mount_of v) = render ?ms"
    using mounts_okD(1,4) [OF m k] FixAndCleanPath_render by metis
  obtain rs where rs: "fcomps path = ?ms @ rs"
    using l by (auto simp: longest_def covers_path_def IsSubPath_comps prefix_def)
  have "fcomps (TrimPrefix (FixAndCleanPath path) (GetActualMountPath (mount_of v))) = rs"
    using TrimPrefix_comps [of ?ms rs] fcomps_fix [of path] mk by (simp add: FixAndCleanPath_render rs)
  with Some l rs show ?thesis
    by (cases "GetBalancedStorage m b (FixAndCleanPath path)") (simp add: GetStorageAndActualPath_def Let_def)
qed

text \<open>A map of storages for the witnesses.\<close>

definition a_map :: "unit storages" where
  "a_map = [(''/a'', \<lparr>dStorage = a_storage\<lparr>MountPath := ''/a''\<rparr>, dState = ()\<rparr>),
            (''/a.balance1'', \<lparr>dStorage = a_storage\<lparr>MountPath := ''/a.balance1''\<rparr>, dState = ()\<rparr>),
            (''/a/b'', \<lparr>dStorage = a_storage\<lparr>MountPath := ''/a/b''\<rparr>, dState = ()\<rparr>)]"

lemma mounts_ok_a_map: "mounts_ok a_map"
proof -
  have "FixAndCleanPath ''/a'' = ''/a''" "FixAndCleanPath ''/a/b'' = ''/a/b''" "FixAndCleanPath ''/a.balance1'' = ''/a.balance1''"
    "GetActualMountPath ''/a'' = ''/a''" "GetActualMountPath ''/a/b'' = ''/a/b''" "GetActualMountPath ''/a.balance1'' = ''/a''"
    by code_simp+
  then show ?thesis by (simp add: mounts_ok_def storages_ok_def a_map_def)
qed

text \<open>What \<^const>\<open>GetStorageAndActualPath\<close> answers: a storage mounted at the longest mount path above the
  request, and the rest of the path, so that mount path and rest together spell the request; when no
  mount covers the path, and only then, the error that no storage was found.\<close>

theorem GetStorageAndActualPath_correct:
  assumes m: "mounts_ok m"
  shows "case snd (GetStorageAndActualPath m b path) of
      Inr (v, actualPath) \<Rightarrow> longest m path v
        \<and> fcomps path = fcomps (GetActualMountPath (mount_of v)) @ fcomps actualPath
        \<and> FixAndCleanPath actualPath = actualPath
    | Inl e \<Rightarrow> e = StorageNotFound \<and> {k \<in> fst ` set m. covers_path path k} = {}"
  by (rule storage_and_actual_path [OF m])

theorem GetStorageAndActualPath_correct_witness:
  "case snd (GetStorageAndActualPath a_map (\<lambda>_. None) ''/a/x/../y'') of
      Inr (v, actualPath) \<Rightarrow> longest a_map ''/a/x/../y'' v
        \<and> fcomps ''/a/x/../y'' = fcomps (GetActualMountPath (mount_of v)) @ fcomps actualPath
        \<and> FixAndCleanPath actualPath = actualPath
    | Inl e \<Rightarrow> e = StorageNotFound \<and> {k \<in> fst ` set a_map. covers_path ''/a/x/../y'' k} = {}"
  by (rule GetStorageAndActualPath_correct [OF mounts_ok_a_map])

theorem getStoragesByPath_longest_match_witness:
  "getStoragesByPath (rev a_map) ''/a/x'' = getStoragesByPath a_map ''/a/x''
    \<and> set (getStoragesByPath a_map ''/a/x'') = {v. longest a_map ''/a/x'' v}"
  using getStoragesByPath_longest_match [OF mounts_ok_a_map, of "rev a_map" "''/a/x''"] by simp

theorem balancing_is_fair_witness:
  "mset (balanced a_map (\<lambda>_. Some 5) ''/a/x'' (length (getStoragesByPath a_map (FixAndCleanPath ''/a/x''))))
   = mset (map Some (getStoragesByPath a_map (FixAndCleanPath ''/a/x'')))"
  by (rule balancing_is_fair) (rule refl)

section \<open>The folders above the mounts\<close>

lemma render_below:
  assumes "list_all fix_comp (ps @ c # rs)"
  shows "length (render ps) < length (render (ps @ c # rs))" "virtual_name (render ps) (render (ps @ c # rs)) = c"
proof -
  have c: "c \<noteq> []" "CHR ''/'' \<notin> set c" using assms by (auto simp: fix_comp_def valid_comp_def)
  have first: "hd (Split CHR ''/'' (Join ''/'' (c # rs))) = c"
    using c by (cases rs) (simp_all add: Split_no_sep Split_append_sep)
  have ne: "hd (Join ''/'' (c # rs)) \<noteq> CHR ''/''" "Join ''/'' (c # rs) \<noteq> []"
    using c by (cases rs; cases c; auto)+
  then have t: "TrimPrefix (Join ''/'' (c # rs)) ''/'' = Join ''/'' (c # rs)"
    by (auto simp: TrimPrefix_def HasPrefix_def prefix_def)
  have "length (render ps) < length (render (ps @ c # rs)) \<and> virtual_name (render ps) (render (ps @ c # rs)) = c"
  proof (cases "ps = []")
    case True
    with first ne t show ?thesis by (simp add: virtual_name_def render_def)
  next
    case False
    then have e: "render (ps @ c # rs) = render ps @ ''/'' @ Join ''/'' (c # rs)" by (simp add: render_def Join_append)
    have "TrimPrefix (''/'' @ x) ''/'' = x" for x by (rule TrimPrefix_append)
    with first show ?thesis by (simp add: e virtual_name_def)
  qed
  then show "length (render ps) < length (render (ps @ c # rs))" "virtual_name (render ps) (render (ps @ c # rs)) = c" by blast+
qed

lemma virtual_skip:
  assumes "FixAndCleanPath p = p" "FixAndCleanPath q = q"
  shows "\<not> (length p \<ge> length q \<or> \<not> IsSubPath p q) \<longleftrightarrow> strict_prefix (fcomps p) (fcomps q)"
    and "fcomps q = fcomps p @ c # rs \<Longrightarrow> virtual_name p q = c"
proof -
  have r: "p = render (fcomps p)" "q = render (fcomps q)" using assms FixAndCleanPath_render by metis+
  have below: "length p < length q \<and> virtual_name p q = c" if "fcomps q = fcomps p @ c # rs" for c rs
    using render_below [of "fcomps p" c rs] fcomps_fix [of q] that r by metis
  then show "fcomps q = fcomps p @ c # rs \<Longrightarrow> virtual_name p q = c" by blast
  show "\<not> (length p \<ge> length q \<or> \<not> IsSubPath p q) \<longleftrightarrow> strict_prefix (fcomps p) (fcomps q)"
  proof
    assume "strict_prefix (fcomps p) (fcomps q)"
    then obtain c rs where "fcomps q = fcomps p @ c # rs" by (auto simp: strict_prefix_def prefix_def neq_Nil_conv)
    with below show "\<not> (length p \<ge> length q \<or> \<not> IsSubPath p q)" by (force simp: IsSubPath_comps)
  next
    assume "\<not> (length p \<ge> length q \<or> \<not> IsSubPath p q)"
    then show "strict_prefix (fcomps p) (fcomps q)" using r by (auto simp: IsSubPath_comps strict_prefix_def)
  qed
qed

definition next_folders :: "string \<Rightarrow> string set \<Rightarrow> string set" where
  "next_folders path ks = {c. \<exists>k \<in> ks. \<exists>rs. fcomps (GetActualMountPath k) = fcomps path @ c # rs}"

lemma virtual_files_names:
  assumes p: "FixAndCleanPath p = p"
    and vs: "\<forall>v \<in> set vs. FixAndCleanPath (GetActualMountPath (mount_of v)) = GetActualMountPath (mount_of v)"
  shows "GetName ` set (virtual_files p S vs) = next_folders p (mount_of ` set vs) - S
    \<and> distinct (map GetName (virtual_files p S vs))"
  using vs
proof (induction vs arbitrary: S)
  case (Cons v vs)
  let ?q = "GetActualMountPath (mount_of v)"
  have q: "FixAndCleanPath ?q = ?q" using Cons.prems by simp
  have IH: "GetName ` set (virtual_files p T vs) = next_folders p (mount_of ` set vs) - T
    \<and> distinct (map GetName (virtual_files p T vs))" for T using Cons by simp
  have split: "next_folders p (mount_of ` set (v # vs)) = next_folders p {mount_of v} \<union> next_folders p (mount_of ` set vs)"
    by (auto simp: next_folders_def)
  show ?case
  proof (cases "strict_prefix (fcomps p) (fcomps ?q)")
    case False
    then have "next_folders p {mount_of v} = {}" by (auto simp: next_folders_def strict_prefix_def prefix_def)
    with False IH [of S] virtual_skip(1) [OF p q] show ?thesis unfolding split by (simp add: Let_def)
  next
    case True
    then obtain c rs where c: "fcomps ?q = fcomps p @ c # rs" by (auto simp: strict_prefix_def prefix_def neq_Nil_conv)
    then have "next_folders p {mount_of v} = {c}" by (auto simp: next_folders_def)
    with True c IH [of S] IH [of "insert c S"] virtual_skip [OF p q] show ?thesis unfolding split by (auto simp: Let_def)
  qed
qed (simp add: next_folders_def)

text \<open>The virtual folders shown at a path are the next components of the mount paths strictly below it,
  each once.\<close>

theorem virtual_folders_lead_to_mounts:
  assumes "mounts_ok m"
  shows "GetName ` set (GetStorageVirtualFilesByPath m path) = next_folders path (fst ` set m)
    \<and> distinct (map GetName (GetStorageVirtualFilesByPath m path))"
proof -
  have "mount_of ` set (by_order (map snd m)) = fst ` set m"
    using mounts_okD(1) [OF assms] by (force simp: by_order_def image_iff)
  moreover have "next_folders (FixAndCleanPath path) = next_folders path" by (simp add: next_folders_def fun_eq_iff)
  moreover have "\<forall>v \<in> set (by_order (map snd m)). FixAndCleanPath (GetActualMountPath (mount_of v)) = GetActualMountPath (mount_of v)"
    using mounts_okD [OF assms] by (auto simp: by_order_def)
  ultimately show ?thesis
    using virtual_files_names [of "FixAndCleanPath path" "by_order (map snd m)" "{}"]
    by (simp add: GetStorageVirtualFilesByPath_def)
qed

theorem virtual_folders_lead_to_mounts_witness:
  "GetName ` set (GetStorageVirtualFilesByPath a_map ''/a/'') = next_folders ''/a/'' (fst ` set a_map)"
  using virtual_folders_lead_to_mounts [OF mounts_ok_a_map, of "''/a/''"] by blast

end
