(* ===== verification/StorageReg.thy ===== *)
theory StorageReg
  imports StorageMap Perm
begin

text \<open>
  The life of a storage (\<^verbatim>\<open>internal/op/storage.go\<close>, \<^verbatim>\<open>internal/op/driver.go\<close>,
  \<^verbatim>\<open>internal/db/role.go\<close>): creating, loading, enabling, disabling, updating and deleting it.  The
  database rows are reached through the functions of \<open>db_api\<close>, what the drivers do through those of
  \<open>driver_api\<close>; a driver call that panics returns \<^const>\<open>None\<close> beside the state it left.  The hooks run
  in the background are left out.
\<close>

section \<open>What the code calls\<close>

record 'd driver_api =
  driverMap :: "string \<Rightarrow> 'd option"
  supportedOnIOS :: "string \<Rightarrow> bool"
  unmarshal :: "string \<Rightarrow> 'd \<Rightarrow> 'd \<times> err option go"
  marshal :: "'d \<Rightarrow> string option"
  initReference :: "'d \<Rightarrow> ('d mounted \<Rightarrow> 'd \<times> err option go) option"
  initDriver :: "Storage \<Rightarrow> 'd \<Rightarrow> 'd \<times> err option go"
  dropDriver :: "'d \<Rightarrow> 'd \<times> err option"
  errorText :: "err \<Rightarrow> string"
  panicText :: string

record 'b db_api =
  dbCreateStorage :: "'b \<Rightarrow> Storage \<Rightarrow> 'b \<times> (err + nat)"
  dbUpdateStorage :: "'b \<Rightarrow> Storage \<Rightarrow> 'b \<times> err option"
  dbGetStorageById :: "'b \<Rightarrow> nat \<Rightarrow> err + Storage"
  dbDeleteStorageById :: "'b \<Rightarrow> nat \<Rightarrow> 'b \<times> err option"
  dbFindRoles :: "'b \<Rightarrow> err + Role list"
  dbSaveRole :: "'b \<Rightarrow> Role \<Rightarrow> 'b \<times> err option"
  dbFindUsers :: "'b \<Rightarrow> err + User list"

record ('d, 'b) registry =
  storagesMap :: "'d storages"
  database :: 'b
  regListCache :: list_cache
  roleCache :: "nat \<Rightarrow> Role option"
  userCache :: "string \<Rightarrow> User option"

definition GetDriver :: "'d driver_api \<Rightarrow> string \<Rightarrow> err + 'd" where
  "GetDriver K name =
     (if \<not> supportedOnIOS K name then Inl (ErrMsg ''unsupported on iOS'')
      else case driverMap K name of None \<Rightarrow> Inl (ErrMsg ''no driver named'') | Some d \<Rightarrow> Inr d)"

section \<open>Saving and initialising\<close>

definition saveDriverStorage ::
    "'d driver_api \<Rightarrow> 'b db_api \<Rightarrow> 'b \<Rightarrow> 'd mounted \<Rightarrow> 'b \<times> 'd mounted \<times> err option" where
  "saveDriverStorage K B db v =
     (case marshal K (dState v) of
        None \<Rightarrow> (db, v, Some (ErrMsg ''error while marshal addition''))
      | Some str \<Rightarrow>
          let v = v\<lparr>dStorage := (dStorage v)\<lparr>Addition := str\<rparr>\<rparr>; (db, e) = dbUpdateStorage B db (dStorage v)
          in (db, v, e))"

definition MustSaveDriverStorage :: "'d driver_api \<Rightarrow> 'b db_api \<Rightarrow> 'b \<Rightarrow> 'd mounted \<Rightarrow> 'b \<times> 'd mounted" where
  "MustSaveDriverStorage K B db v = (let (db, v, e) = saveDriverStorage K B db v in (db, v))"

definition SetStatus :: "string \<Rightarrow> 'd mounted \<Rightarrow> 'd mounted" where
  "SetStatus s v = v\<lparr>dStorage := (dStorage v)\<lparr>Status := s\<rparr>\<rparr>"

definition refMountPath :: "string \<Rightarrow> string" where
  "refMountPath remark =
     (case Index remark [CHR 0x0A] of
        Some i \<Rightarrow> if i > 0 then drop 4 (take i remark) else drop 4 remark
      | None \<Rightarrow> drop 4 remark)"

definition refer :: "'d driver_api \<Rightarrow> 'd storages \<Rightarrow> Storage \<Rightarrow> 'd \<Rightarrow> 'd \<times> err option go" where
  "refer K m storage d =
     (case initReference K d of
        None \<Rightarrow> (d, Some None)
      | Some ref \<Rightarrow>
          if HasPrefix (Remark storage) ''ref:/'' then
            (case GetStorageByMountPath m (refMountPath (Remark storage)) of
               Inl e \<Rightarrow> (d, Some (Some e))
             | Inr refStorage \<Rightarrow>
                 (case ref refStorage of
                    (d, Some (Some e)) \<Rightarrow>
                      (d, Some (Some (if IsNotSupportError e then ErrMsg ''ref: storage is not of this driver'' else e)))
                  | r \<Rightarrow> r))
          else (d, Some None))"

text \<open>The steps of \<^verbatim>\<open>initStorage\<close> that may fail or panic, in order.\<close>

definition init_steps :: "'d driver_api \<Rightarrow> 'd storages \<Rightarrow> Storage \<Rightarrow> 'd \<Rightarrow> 'd \<times> err option go" where
  "init_steps K m storage d =
     (case unmarshal K (Addition storage) d of
        (d, Some None) \<Rightarrow>
          (case refer K m storage d of
             (d, Some None) \<Rightarrow> initDriver K storage d
           | r \<Rightarrow> r)
      | r \<Rightarrow> r)"

text \<open>
  A panic is recovered: its text becomes the status, the storage is saved and kept in the map.  The
  named result is not assigned then, so the caller gets no error.
\<close>

definition initStorage ::
    "'d driver_api \<Rightarrow> 'b db_api \<Rightarrow> ('d, 'b) registry \<Rightarrow> Storage \<Rightarrow> 'd \<Rightarrow> ('d, 'b) registry \<times> err option" where
  "initStorage K B st storage d =
     (let (d, out) = init_steps K (storagesMap st) storage d;
          v = \<lparr>dStorage = storage, dState = d\<rparr>;
          (status, e) = (case out of
              None \<Rightarrow> (panicText K, None)
            | Some (Some e) \<Rightarrow> (errorText K e, Some e)
            | Some None \<Rightarrow> (WORK, None));
          (db, v) = MustSaveDriverStorage K B (database st) (SetStatus status v)
      in (st\<lparr>database := db, storagesMap := Store (MountPath storage) v (storagesMap st)\<rparr>, e))"

text \<open>A driver that is changed in place stays in the map only if it was there.\<close>

definition touch :: "string \<Rightarrow> 'v \<Rightarrow> (string \<times> 'v) list \<Rightarrow> (string \<times> 'v) list" where
  "touch k v m = (if map_of m k = None then m else Store k v m)"

section \<open>Operations\<close>

definition CreateStorage ::
    "'d driver_api \<Rightarrow> 'b db_api \<Rightarrow> int \<Rightarrow> ('d, 'b) registry \<Rightarrow> Storage \<Rightarrow> ('d, 'b) registry \<times> nat \<times> err option" where
  "CreateStorage K B now st storage0 =
     (let storage = storage0\<lparr>StModified := now, MountPath := FixAndCleanPath (MountPath storage0)\<rparr>
      in case GetDriver K (Driver storage) of
           Inl e \<Rightarrow> (st, 0, Some e)
         | Inr d \<Rightarrow>
             (case dbCreateStorage B (database st) storage of
                (db, Inl e) \<Rightarrow> (st\<lparr>database := db\<rparr>, ID storage, Some e)
              | (db, Inr i) \<Rightarrow>
                  let (st, e) = initStorage K B (st\<lparr>database := db\<rparr>) (storage\<lparr>ID := i\<rparr>) d in (st, i, e)))"

definition LoadStorage ::
    "'d driver_api \<Rightarrow> 'b db_api \<Rightarrow> ('d, 'b) registry \<Rightarrow> Storage \<Rightarrow> ('d, 'b) registry \<times> err option" where
  "LoadStorage K B st storage0 =
     (let storage = storage0\<lparr>MountPath := FixAndCleanPath (MountPath storage0)\<rparr>
      in case GetDriver K (Driver storage) of
           Inl e \<Rightarrow> (st, Some e)
         | Inr d \<Rightarrow> initStorage K B st storage d)"

definition EnableStorage ::
    "'d driver_api \<Rightarrow> 'b db_api \<Rightarrow> ('d, 'b) registry \<Rightarrow> nat \<Rightarrow> ('d, 'b) registry \<times> err option" where
  "EnableStorage K B st i =
     (case dbGetStorageById B (database st) i of
        Inl e \<Rightarrow> (st, Some e)
      | Inr storage \<Rightarrow>
          if \<not> StDisabled storage then (st, Some (ErrMsg ''this storage have enabled''))
          else let storage = storage\<lparr>StDisabled := False\<rparr>
               in case dbUpdateStorage B (database st) storage of
                    (db, Some e) \<Rightarrow> (st\<lparr>database := db\<rparr>, Some e)
                  | (db, None) \<Rightarrow> LoadStorage K B (st\<lparr>database := db\<rparr>) storage)"

definition DisableStorage ::
    "'d driver_api \<Rightarrow> 'b db_api \<Rightarrow> ('d, 'b) registry \<Rightarrow> nat \<Rightarrow> ('d, 'b) registry \<times> err option" where
  "DisableStorage K B st i =
     (case dbGetStorageById B (database st) i of
        Inl e \<Rightarrow> (st, Some e)
      | Inr storage \<Rightarrow>
          if StDisabled storage then (st, Some (ErrMsg ''this storage have disabled''))
          else case GetStorageByMountPath (storagesMap st) (MountPath storage) of
                 Inl e \<Rightarrow> (st, Some e)
               | Inr v \<Rightarrow>
                   let (d, e) = dropDriver K (dState v);
                       st = st\<lparr>storagesMap := Store (FixAndCleanPath (MountPath storage)) (v\<lparr>dState := d\<rparr>) (storagesMap st)\<rparr>
                   in case e of
                        Some e \<Rightarrow> (st, Some e)
                      | None \<Rightarrow>
                          let storage = storage\<lparr>StDisabled := True, Status := DISABLED\<rparr>
                          in case dbUpdateStorage B (database st) storage of
                               (db, Some e) \<Rightarrow> (st\<lparr>database := db\<rparr>, Some e)
                             | (db, None) \<Rightarrow>
                                 (st\<lparr>database := db, storagesMap := Delete (MountPath storage) (storagesMap st)\<rparr>, None))"

subsection \<open>Role scopes that follow a mount\<close>

definition move_scope :: "string \<Rightarrow> string \<Rightarrow> PermissionEntry \<Rightarrow> PermissionEntry \<times> bool" where
  "move_scope oldPath newPath ent =
     (let entryPath = path_Clean (Path ent); oldPathClean = path_Clean oldPath
      in if entryPath = oldPathClean then (ent\<lparr>Path := newPath\<rparr>, True)
         else if HasPrefix entryPath (oldPathClean @ ''/'') then
           (ent\<lparr>Path := newPath @ drop (length oldPathClean) entryPath\<rparr>, True)
         else (ent, False))"

fun move_roles :: "'b db_api \<Rightarrow> string \<Rightarrow> string \<Rightarrow> 'b \<Rightarrow> nat list \<Rightarrow> Role list \<Rightarrow> 'b \<times> (err + nat list)" where
  "move_roles B oldPath newPath db ids [] = (db, Inr ids)"
| "move_roles B oldPath newPath db ids (role # roles) =
     (if RoleName role = ''admin'' \<or> RoleName role = ''guest'' then move_roles B oldPath newPath db ids roles
      else
        let moved = map (move_scope oldPath newPath) (PermissionScopes role)
        in if list_ex snd moved then
             (case dbSaveRole B db (role\<lparr>PermissionScopes := map fst moved\<rparr>) of
                (db, Some e) \<Rightarrow> (db, Inl e)
              | (db, None) \<Rightarrow> move_roles B oldPath newPath db (ids @ [RoleID role]) roles)
           else move_roles B oldPath newPath db ids roles)"

definition UpdateRolePermissionsPathPrefix :: "'b db_api \<Rightarrow> 'b \<Rightarrow> string \<Rightarrow> string \<Rightarrow> 'b \<times> (err + nat list)" where
  "UpdateRolePermissionsPathPrefix B db oldPath newPath =
     (case dbFindRoles B db of
        Inl e \<Rightarrow> (db, Inl e)
      | Inr roles \<Rightarrow> move_roles B oldPath newPath db [] roles)"

definition GetUsersByRole :: "'b db_api \<Rightarrow> 'b \<Rightarrow> nat \<Rightarrow> err + User list" where
  "GetUsersByRole B db roleID =
     (case dbFindUsers B db of Inl e \<Rightarrow> Inl e | Inr users \<Rightarrow> Inr (filter (\<lambda>u. int roleID \<in> set (Roles u)) users))"

fun forget_users :: "'b db_api \<Rightarrow> ('d, 'b) registry \<Rightarrow> nat list \<Rightarrow> ('d, 'b) registry \<times> err option" where
  "forget_users B st [] = (st, None)"
| "forget_users B st (i # ids) =
     (let st = st\<lparr>roleCache := (roleCache st)(i := None)\<rparr>
      in case GetUsersByRole B (database st) i of
           Inl e \<Rightarrow> (st, Some e)
         | Inr users \<Rightarrow>
             forget_users B (st\<lparr>userCache := (\<lambda>n. if n \<in> Username ` set users then None else userCache st n)\<rparr>) ids)"

definition move_mount ::
    "'b db_api \<Rightarrow> ('d, 'b) registry \<Rightarrow> string \<Rightarrow> string \<Rightarrow> ('d, 'b) registry \<times> err option" where
  "move_mount B st oldPath newPath =
     (let st = st\<lparr>storagesMap := Delete oldPath (storagesMap st)\<rparr>
      in case UpdateRolePermissionsPathPrefix B (database st) oldPath newPath of
           (db, Inl e) \<Rightarrow> (st\<lparr>database := db\<rparr>, Some e)
         | (db, Inr ids) \<Rightarrow>
             forget_users B (st\<lparr>database := db, roleCache := (\<lambda>i. if i \<in> set ids then None else roleCache st i)\<rparr>) ids)"

text \<open>The end of \<^verbatim>\<open>UpdateStorage\<close>: the driver found under the old mount path is dropped and initialised again.\<close>

definition restart_driver ::
    "'d driver_api \<Rightarrow> 'b db_api \<Rightarrow> ('d, 'b) registry \<Rightarrow> string \<Rightarrow> Storage \<Rightarrow> err + 'd mounted \<Rightarrow> ('d, 'b) registry \<times> err option" where
  "restart_driver K B st oldPath storage found =
     (case found of
        Inl e \<Rightarrow> (st, Some e)
      | Inr v \<Rightarrow>
          (case dropDriver K (dState v) of
             (d, Some e) \<Rightarrow>
               (st\<lparr>storagesMap := touch (FixAndCleanPath oldPath) (v\<lparr>dState := d\<rparr>) (storagesMap st)\<rparr>, Some e)
           | (d, None) \<Rightarrow> initStorage K B st storage d))"

definition move_and_restart ::
    "'d driver_api \<Rightarrow> 'b db_api \<Rightarrow> ('d, 'b) registry \<Rightarrow> string \<Rightarrow> Storage \<Rightarrow> err + 'd mounted \<Rightarrow> ('d, 'b) registry \<times> err option" where
  "move_and_restart K B st oldPath storage found =
     (let (st, e) = (if oldPath \<noteq> MountPath storage then move_mount B st oldPath (MountPath storage) else (st, None))
      in case e of
           Some e \<Rightarrow> (st, Some e)
         | None \<Rightarrow> restart_driver K B st oldPath storage found)"

definition UpdateStorage ::
    "'d driver_api \<Rightarrow> 'b db_api \<Rightarrow> nat \<Rightarrow> int \<Rightarrow> ('d, 'b) registry \<Rightarrow> Storage \<Rightarrow> (('d, 'b) registry \<times> err option) go" where
  "UpdateStorage K B stackDepth now st storage0 =
     (case dbGetStorageById B (database st) (ID storage0) of
        Inl e \<Rightarrow> Some (st, Some e)
      | Inr oldStorage \<Rightarrow>
          if Driver oldStorage \<noteq> Driver storage0 then Some (st, Some (ErrMsg ''driver cannot be changed''))
          else
            let storage = storage0\<lparr>StModified := now, MountPath := FixAndCleanPath (MountPath storage0)\<rparr>
            in case dbUpdateStorage B (database st) storage of
                 (db, Some e) \<Rightarrow> Some (st\<lparr>database := db\<rparr>, Some e)
               | (db, None) \<Rightarrow>
                   let st = st\<lparr>database := db\<rparr>; found = GetStorageByMountPath (storagesMap st) (MountPath oldStorage)
                   in case (case found of
                              Inl _ \<Rightarrow> Some (regListCache st)
                            | Inr v \<Rightarrow> ClearCache stackDepth (dStorage v) (regListCache st) ''/'') of
                        None \<Rightarrow> panic
                      | Some cache \<Rightarrow>
                          let st = st\<lparr>regListCache := cache\<rparr>
                          in if StDisabled storage then Some (st, None)
                             else
                               Some (move_and_restart K B st (MountPath oldStorage) storage found))"

definition used_by :: "string \<Rightarrow> Role list \<Rightarrow> User list \<Rightarrow> bool" where
  "used_by firstMount roles users \<longleftrightarrow>
     list_ex (\<lambda>r. list_ex (\<lambda>ent. firstPathSegment (Path ent) = firstMount) (PermissionScopes r)) roles
     \<or> list_ex (\<lambda>u. firstPathSegment (BasePath u) = firstMount) users"

definition may_delete :: "'b db_api \<Rightarrow> 'b \<Rightarrow> Storage \<Rightarrow> err option" where
  "may_delete B db storage =
     (let firstMount = firstPathSegment (MountPath storage)
      in if firstMount = [] then None
         else case dbFindRoles B db of
                Inl e \<Rightarrow> Some e
              | Inr roles \<Rightarrow>
                  (case dbFindUsers B db of
                     Inl e \<Rightarrow> Some e
                   | Inr users \<Rightarrow>
                       if used_by firstMount roles users then Some (ErrMsg ''storage is used'') else None))"

definition DeleteStorageById ::
    "'d driver_api \<Rightarrow> 'b db_api \<Rightarrow> ('d, 'b) registry \<Rightarrow> nat \<Rightarrow> ('d, 'b) registry \<times> err option" where
  "DeleteStorageById K B st i =
     (case dbGetStorageById B (database st) i of
        Inl e \<Rightarrow> (st, Some e)
      | Inr storage \<Rightarrow>
          (case may_delete B (database st) storage of
             Some e \<Rightarrow> (st, Some e)
           | None \<Rightarrow>
               let (st, e) =
                 (if StDisabled storage then (st, None)
                  else case GetStorageByMountPath (storagesMap st) (MountPath storage) of
                         Inl e \<Rightarrow> (st, Some e)
                       | Inr v \<Rightarrow>
                           let (d, e) = dropDriver K (dState v);
                               st = st\<lparr>storagesMap := Store (FixAndCleanPath (MountPath storage)) (v\<lparr>dState := d\<rparr>) (storagesMap st)\<rparr>
                           in case e of
                                Some e \<Rightarrow> (st, Some e)
                              | None \<Rightarrow> (st\<lparr>storagesMap := Delete (MountPath storage) (storagesMap st)\<rparr>, None))
               in case e of
                    Some e \<Rightarrow> (st, Some e)
                  | None \<Rightarrow> (let (db, e) = dbDeleteStorageById B (database st) i in (st\<lparr>database := db\<rparr>, e))))"

section \<open>The map stays well-formed\<close>

lemma fst_Store: "fst ` set (Store k v m) = insert k (fst ` set m)"
  by (induction k v m rule: Store.induct) auto

lemma set_Store: "distinct (map fst m) \<Longrightarrow> set (Store k v m) = insert (k, v) {x \<in> set m. fst x \<noteq> k}"
  by (induction k v m rule: Store.induct) (auto simp: image_iff)

lemma distinct_Store: "distinct (map fst m) \<Longrightarrow> distinct (map fst (Store k v m))"
proof (induction k v m rule: Store.induct)
  case (2 k v k' v' xs)
  then show ?case using fst_Store [of k v xs] by auto
qed simp

lemma storages_ok_Store:
  "\<lbrakk>storages_ok m; mount_of v = k; FixAndCleanPath k = k\<rbrakk> \<Longrightarrow> storages_ok (Store k v m)"
  by (auto simp: storages_ok_def distinct_Store set_Store)

lemma storages_ok_Delete: "storages_ok m \<Longrightarrow> storages_ok (Delete k m)"
  by (auto simp: storages_ok_def Delete_def distinct_map_filter)

lemma storages_ok_touch:
  "\<lbrakk>storages_ok m; mount_of v = k; FixAndCleanPath k = k\<rbrakk> \<Longrightarrow> storages_ok (touch k v m)"
  by (simp add: touch_def storages_ok_Store)

lemma GetStorageByMountPath_ok:
  "\<lbrakk>storages_ok m; GetStorageByMountPath m k = Inr v\<rbrakk> \<Longrightarrow> mount_of v = FixAndCleanPath k"
  by (auto simp: GetStorageByMountPath_def storages_ok_def split: option.splits dest!: map_of_SomeD)

lemma mount_of_save: "mount_of (snd (MustSaveDriverStorage K B db v)) = mount_of v"
  by (simp add: MustSaveDriverStorage_def saveDriverStorage_def Let_def case_prod_beta split: option.split)

lemma initStorage_ok:
  assumes "storages_ok (storagesMap st)" "FixAndCleanPath (MountPath storage) = MountPath storage"
  shows "storages_ok (storagesMap (fst (initStorage K B st storage d)))"
proof -
  have "mount_of (SetStatus s \<lparr>dStorage = storage, dState = d\<rparr>) = MountPath storage" for s and d :: 'a
    by (simp add: SetStatus_def)
  then show ?thesis
    using assms unfolding initStorage_def Let_def case_prod_beta
    by (auto intro!: storages_ok_Store simp: mount_of_save)
qed

lemma LoadStorage_ok: "storages_ok (storagesMap st) \<Longrightarrow> storages_ok (storagesMap (fst (LoadStorage K B st s)))"
  by (auto simp: LoadStorage_def Let_def split: sum.split intro!: initStorage_ok)

lemma CreateStorage_ok: "storages_ok (storagesMap st) \<Longrightarrow> storages_ok (storagesMap (fst (CreateStorage K B now st s)))"
  by (auto simp: CreateStorage_def Let_def case_prod_beta split: sum.split prod.split intro!: initStorage_ok)

lemma EnableStorage_ok: "storages_ok (storagesMap st) \<Longrightarrow> storages_ok (storagesMap (fst (EnableStorage K B st i)))"
  by (auto simp: EnableStorage_def Let_def split: sum.split prod.split option.split intro!: LoadStorage_ok)

lemma DisableStorage_ok: "storages_ok (storagesMap st) \<Longrightarrow> storages_ok (storagesMap (fst (DisableStorage K B st i)))"
  unfolding DisableStorage_def Let_def case_prod_beta
  by (auto split: sum.split prod.split option.split intro!: storages_ok_Delete storages_ok_Store dest: GetStorageByMountPath_ok)

lemma forget_users_map: "storagesMap (fst (forget_users B st ids)) = storagesMap st"
  by (induction B st ids rule: forget_users.induct) (auto simp: Let_def split: sum.split)

lemma move_mount_ok: "storages_ok (storagesMap st) \<Longrightarrow> storages_ok (storagesMap (fst (move_mount B st a b)))"
  by (auto simp: move_mount_def Let_def forget_users_map storages_ok_Delete split: sum.split prod.split)

lemma DeleteStorageById_ok: "storages_ok (storagesMap st) \<Longrightarrow> storages_ok (storagesMap (fst (DeleteStorageById K B st i)))"
  unfolding DeleteStorageById_def Let_def case_prod_beta
  by (auto split: sum.split prod.split option.split intro!: storages_ok_Delete storages_ok_Store dest: GetStorageByMountPath_ok)

lemma restart_driver_ok:
  assumes "storages_ok (storagesMap st)" "FixAndCleanPath (MountPath s) = MountPath s"
    and "\<And>v. found = Inr v \<Longrightarrow> mount_of v = FixAndCleanPath oldPath"
  shows "storages_ok (storagesMap (fst (restart_driver K B st oldPath s found)))"
  using assms unfolding restart_driver_def
  by (auto split: sum.split prod.split option.split intro!: storages_ok_touch initStorage_ok)

lemma move_and_restart_ok:
  assumes "storages_ok (storagesMap st)" "FixAndCleanPath (MountPath s) = MountPath s"
    and "\<And>v. found = Inr v \<Longrightarrow> mount_of v = FixAndCleanPath oldPath"
  shows "storages_ok (storagesMap (fst (move_and_restart K B st oldPath s found)))"
  using move_mount_ok [OF assms(1), of B oldPath "MountPath s"] assms restart_driver_ok [OF _ assms(2,3)]
  by (auto simp: move_and_restart_def case_prod_beta split: option.split)

lemma UpdateStorage_cases:
  assumes "UpdateStorage K B n now st s = Some (st', e)"
  obtains "storagesMap st' = storagesMap st"
  | old db c where "dbGetStorageById B (database st) (ID s) = Inr old" "\<not> StDisabled s"
      "(st', e) = move_and_restart K B (st\<lparr>database := db, regListCache := c\<rparr>) (MountPath old)
         (s\<lparr>StModified := now, MountPath := FixAndCleanPath (MountPath s)\<rparr>)
         (GetStorageByMountPath (storagesMap st) (MountPath old))"
proof (cases "dbGetStorageById B (database st) (ID s)")
  case (Inl e')
  with assms have "storagesMap st' = storagesMap st" by (simp add: UpdateStorage_def)
  then show thesis by (rule that(1))
next
  case (Inr old)
  let ?s = "s\<lparr>StModified := now, MountPath := FixAndCleanPath (MountPath s)\<rparr>"
  let ?found = "GetStorageByMountPath (storagesMap st) (MountPath old)"
  obtain db r where db: "dbUpdateStorage B (database st) ?s = (db, r)" by (cases "dbUpdateStorage B (database st) ?s")
  let ?cache = "case ?found of Inl _ \<Rightarrow> Some (regListCache st) | Inr v \<Rightarrow> ClearCache n (dStorage v) (regListCache st) ''/''"
  show thesis
  proof (cases "Driver old \<noteq> Driver s \<or> r \<noteq> None")
    case True
    with assms Inr db have "storagesMap st' = storagesMap st"
      by (auto simp: UpdateStorage_def Let_def split: if_splits)
    then show thesis by (rule that(1))
  next
    case False
    with assms Inr db have up: "(case ?cache of None \<Rightarrow> None
        | Some c \<Rightarrow> if StDisabled s then Some (st\<lparr>database := db, regListCache := c\<rparr>, None)
                   else Some (move_and_restart K B (st\<lparr>database := db, regListCache := c\<rparr>) (MountPath old) ?s ?found))
      = Some (st', e)" unfolding UpdateStorage_def Let_def by (simp cong: option.case_cong sum.case_cong if_cong)
    then obtain c where c: "?cache = Some c" by (cases ?cache) auto
    show thesis
    proof (cases "StDisabled s")
      case True
      with up c have "storagesMap st' = storagesMap st" by auto
      then show thesis by (rule that(1))
    next
      case False
      with up c have "(st', e) = move_and_restart K B (st\<lparr>database := db, regListCache := c\<rparr>) (MountPath old) ?s ?found" by simp
      with Inr False show thesis by (rule that(2))
    qed
  qed
qed

lemma UpdateStorage_ok:
  assumes ok: "storages_ok (storagesMap st)" and up: "UpdateStorage K B n now st s = Some (st', e)"
  shows "storages_ok (storagesMap st')"
  using up
proof (cases rule: UpdateStorage_cases)
  case (2 old db c)
  have "storages_ok (storagesMap (fst (st', e)))"
    unfolding 2(3) using ok GetStorageByMountPath_ok [OF ok] by (intro move_and_restart_ok) simp_all
  then show ?thesis by simp
qed (use ok in simp)

section \<open>Reachable registries\<close>

inductive reg_step :: "'d driver_api \<Rightarrow> 'b db_api \<Rightarrow> ('d, 'b) registry \<Rightarrow> ('d, 'b) registry \<Rightarrow> bool" for K B where
  create: "reg_step K B st (fst (CreateStorage K B now st s))"
| load: "reg_step K B st (fst (LoadStorage K B st s))"
| enable: "reg_step K B st (fst (EnableStorage K B st i))"
| disable: "reg_step K B st (fst (DisableStorage K B st i))"
| update: "UpdateStorage K B n now st s = Some (st', e) \<Longrightarrow> reg_step K B st st'"
| delete: "reg_step K B st (fst (DeleteStorageById K B st i))"

lemma reg_step_ok: "\<lbrakk>reg_step K B st st'; storages_ok (storagesMap st)\<rbrakk> \<Longrightarrow> storages_ok (storagesMap st')"
  by (induction rule: reg_step.induct)
    (auto intro: CreateStorage_ok LoadStorage_ok EnableStorage_ok DisableStorage_ok UpdateStorage_ok DeleteStorageById_ok)

lemma reg_steps_ok: "\<lbrakk>(reg_step K B)\<^sup>*\<^sup>* st st'; storages_ok (storagesMap st)\<rbrakk> \<Longrightarrow> storages_ok (storagesMap st')"
  by (induction rule: rtranclp_induct) (auto intro: reg_step_ok)

text \<open>C15: Whatever storages are created, loaded, enabled, disabled, updated and deleted, with whatever drivers
  and database, errors and panics included: no mount path is taken twice, every storage is filed under
  its own mount path, and that path is clean.\<close>

theorem registry_well_formed:
  assumes "(reg_step K B)\<^sup>*\<^sup>* st st'" "storagesMap st = []"
  shows "storages_ok (storagesMap st')"
  by (rule reg_steps_ok [OF assms(1)]) (simp add: assms(2) storages_ok_def)

definition a_driver_api :: "nat driver_api" where
  "a_driver_api = \<lparr>driverMap = (\<lambda>n. if n = ''Local'' then Some 0 else None), supportedOnIOS = (\<lambda>_. True),
     unmarshal = (\<lambda>a d. (d, Some None)), marshal = (\<lambda>d. Some []), initReference = (\<lambda>d. None),
     initDriver = (\<lambda>s d. if Remark s = ''bad'' then (d, None) else (d + 1, Some None)), dropDriver = (\<lambda>d. (0, None)),
     errorText = (\<lambda>e. ''error''), panicText = ''[panic]''\<rparr>"

definition a_db_api :: "Storage list db_api" where
  "a_db_api = \<lparr>dbCreateStorage = (\<lambda>db s. (s # db, Inr (length db + 1))), dbUpdateStorage = (\<lambda>db s. (s # db, None)),
     dbGetStorageById = (\<lambda>db i. case db of [] \<Rightarrow> Inl RecordNotFound | s # _ \<Rightarrow> Inr s), dbDeleteStorageById = (\<lambda>db i. ([], None)),
     dbFindRoles = (\<lambda>db. Inr []), dbSaveRole = (\<lambda>db r. (db, None)), dbFindUsers = (\<lambda>db. Inr [])\<rparr>"

definition a_registry :: "(nat, Storage list) registry" where
  "a_registry = \<lparr>storagesMap = [], database = [], regListCache = (\<lambda>_. None), roleCache = (\<lambda>_. None), userCache = (\<lambda>_. None)\<rparr>"

theorem registry_well_formed_witness:
  "storages_ok (storagesMap (fst (DisableStorage a_driver_api a_db_api
     (fst (CreateStorage a_driver_api a_db_api 7 a_registry a_storage)) 1)))"
proof (rule registry_well_formed)
  show "(reg_step a_driver_api a_db_api)\<^sup>*\<^sup>* a_registry
      (fst (DisableStorage a_driver_api a_db_api (fst (CreateStorage a_driver_api a_db_api 7 a_registry a_storage)) 1))"
  proof (rule rtranclp.rtrancl_into_rtrancl)
    show "(reg_step a_driver_api a_db_api)\<^sup>*\<^sup>* a_registry (fst (CreateStorage a_driver_api a_db_api 7 a_registry a_storage))"
      by (rule r_into_rtranclp) (rule create)
  qed (rule disable)
  show "storagesMap a_registry = []" by (simp add: a_registry_def)
qed

section \<open>What initialising does\<close>

lemma map_of_Store: "map_of (Store k v m) = (map_of m)(k \<mapsto> v)"
  by (induction k v m rule: Store.induct) (auto simp: fun_eq_iff)

lemma Status_save: "Status (dStorage (snd (MustSaveDriverStorage K B db v))) = Status (dStorage v)"
  by (simp add: MustSaveDriverStorage_def saveDriverStorage_def Let_def case_prod_beta split: option.split)

lemma dState_save: "dState (snd (MustSaveDriverStorage K B db v)) = dState v"
  by (simp add: MustSaveDriverStorage_def saveDriverStorage_def Let_def case_prod_beta split: option.split)

text \<open>\<^const>\<open>initStorage\<close> keeps the storage in the map whatever happens, so that it can be looked up and
  repaired: its status is \<^verbatim>\<open>work\<close> exactly when reading the settings, resolving the reference and the
  driver's own initialisation all succeeded; an error is reported to the caller, a panic is not.\<close>

theorem initStorage_registers:
  assumes "panicText K \<noteq> WORK" "\<And>e. errorText K e \<noteq> WORK"
  shows "\<exists>v. map_of (storagesMap (fst (initStorage K B st storage d))) = (map_of (storagesMap st))(MountPath storage \<mapsto> v)
     \<and> dState v = fst (init_steps K (storagesMap st) storage d)
     \<and> (Status (dStorage v) = WORK \<longleftrightarrow> snd (init_steps K (storagesMap st) storage d) = Some None)
     \<and> snd (initStorage K B st storage d) = (case snd (init_steps K (storagesMap st) storage d) of None \<Rightarrow> None | Some e \<Rightarrow> e)"
proof -
  obtain d' out where o: "init_steps K (storagesMap st) storage d = (d', out)" by fastforce
  let ?s = "case out of None \<Rightarrow> panicText K | Some (Some e) \<Rightarrow> errorText K e | Some None \<Rightarrow> WORK"
  let ?v = "snd (MustSaveDriverStorage K B (database st) (SetStatus ?s \<lparr>dStorage = storage, dState = d'\<rparr>))"
  have i: "storagesMap (fst (initStorage K B st storage d)) = Store (MountPath storage) ?v (storagesMap st)"
    "snd (initStorage K B st storage d) = (case out of None \<Rightarrow> None | Some e \<Rightarrow> e)"
    by (auto simp: initStorage_def o Let_def case_prod_beta split: option.split)
  have "Status (dStorage ?v) = ?s" "dState ?v = d'" by (simp_all add: Status_save dState_save SetStatus_def)
  moreover have "?s = WORK \<longleftrightarrow> out = Some None" using assms by (auto split: option.split)
  ultimately show ?thesis using i by (intro exI [of _ ?v]) (simp add: o map_of_Store)
qed

theorem initStorage_registers_witness:
  "\<exists>v. map_of (storagesMap (fst (initStorage a_driver_api a_db_api a_registry (a_storage\<lparr>Remark := ''bad''\<rparr>) 0)))
       = (map_of (storagesMap a_registry))(''/m'' \<mapsto> v)
     \<and> Status (dStorage v) \<noteq> WORK
     \<and> snd (initStorage a_driver_api a_db_api a_registry (a_storage\<lparr>Remark := ''bad''\<rparr>) 0) = None"
proof -
  have "panicText a_driver_api \<noteq> WORK" "\<And>e. errorText a_driver_api e \<noteq> WORK"
    by (simp_all add: a_driver_api_def WORK_def)
  from initStorage_registers [OF this, of a_db_api a_registry "a_storage\<lparr>Remark := ''bad''\<rparr>" 0] show ?thesis
    by (auto simp: init_steps_def refer_def a_driver_api_def a_storage_def)
qed

section \<open>Deleting and moving\<close>



lemma move_scope_below:
  assumes v: "list_all valid_comp os" "list_all valid_comp es" "os \<noteq> []"
  shows "path_Clean (render es) = path_Clean (render os) \<or> HasPrefix (path_Clean (render es)) (path_Clean (render os) @ ''/'')
       \<longleftrightarrow> prefix os es"
  using render_sub [OF v(1,2)] v by (auto simp: HasPrefix_def PathAddSeparatorSuffix_render)

text \<open>When a mount moves, the scopes of roles move with it: a scope at or below the old mount path names the
  same place below the new one, every other scope is left alone.\<close>

theorem move_scope_follows_mount:
  assumes "list_all valid_comp os" "os \<noteq> []" "list_all valid_comp ns" "list_all valid_comp es" "Path p = render es"
  shows "comps (Path (fst (move_scope (render os) (render ns) p)))
       = (if prefix os es then ns @ drop (length os) es else es)
    \<and> snd (move_scope (render os) (render ns) p) = prefix os es"
proof (cases "prefix os es")
  case False
  with move_scope_below [OF assms(1,4,2)] assms show ?thesis by (simp add: move_scope_def Let_def)
next
  case True
  then obtain rs where rs: "es = os @ rs" by (auto simp: prefix_def)
  show ?thesis
  proof (cases "rs = []")
    case True
    with rs assms show ?thesis by (simp add: move_scope_def)
  next
    case False
    have r: "render es = render os @ CHR ''/'' # Join ''/'' rs"
      using rs False assms(2) by (simp add: render_def Join_append)
    have v: "list_all valid_comp rs" using assms(4) rs by simp
    have "comps (render ns @ CHR ''/'' # Join ''/'' rs) = ns @ rs"
      using v assms(3) by (simp add: comps_append Split_Join valid_no_slash False foldl_clean_id)
    moreover have "path_Clean (Path p) = render os @ CHR ''/'' # Join ''/'' rs"
      using path_Clean_render [OF assms(4)] r assms(5) by simp
    ultimately show ?thesis using rs assms(1) True
      by (simp add: move_scope_def Let_def HasPrefix_def)
  qed
qed

theorem move_scope_follows_mount_witness:
  "comps (Path (fst (move_scope ''/a'' ''/b/c'' \<lparr>Path = ''/a/x'', Permission = 0\<rparr>))) = [''b'', ''c'', ''x'']"
proof -
  have r: "render [''a''] = ''/a''" "render [''b'', ''c''] = ''/b/c''" "render [''a'', ''x''] = ''/a/x''" by code_simp+
  show ?thesis
    using move_scope_follows_mount [of "[''a'']" "[''b'', ''c'']" "[''a'', ''x'']" "\<lparr>Path = ''/a/x'', Permission = 0\<rparr>"]
    by (simp add: valid_comp_def r)
qed

text \<open>Disabling a storage through \<^const>\<open>UpdateStorage\<close> does not stop it: the row in the database says
  disabled, the driver stays in the map and goes on serving.\<close>

theorem update_to_disabled_keeps_serving:
  assumes "UpdateStorage K B n now st s = Some (st', e)" "StDisabled s"
  shows "storagesMap st' = storagesMap st"
  using assms(1)
proof (cases rule: UpdateStorage_cases)
  case (2 old db c)
  with assms(2) show ?thesis by simp
qed

theorem update_to_disabled_keeps_serving_witness:
  "let st = fst (CreateStorage a_driver_api a_db_api 7 a_registry a_storage)
   in case UpdateStorage a_driver_api a_db_api 9 8 st (a_storage\<lparr>StDisabled := True\<rparr>) of
        None \<Rightarrow> True | Some (st', e) \<Rightarrow> storagesMap st' = storagesMap st"
proof -
  define st where "st = fst (CreateStorage a_driver_api a_db_api 7 a_registry a_storage)"
  have "storagesMap st' = storagesMap st"
    if "UpdateStorage a_driver_api a_db_api 9 8 st (a_storage\<lparr>StDisabled := True\<rparr>) = Some (st', e)" for st' e
    by (rule update_to_disabled_keeps_serving [OF that]) simp
  then show ?thesis unfolding Let_def st_def [symmetric]
    by (cases "UpdateStorage a_driver_api a_db_api 9 8 st (a_storage\<lparr>StDisabled := True\<rparr>)") auto
qed

end
