(* ===== verification/OpFs.thy ===== *)
theory OpFs
  imports OpCache
begin

text \<open>
  File operations on one storage (\<^verbatim>\<open>internal/op/fs.go\<close>): the layer between the request handlers and a
  driver.  A driver is a record of the operations it implements, over a state \<open>'s\<close> that stands for
  the remote store; the operations that only read leave it alone.  Next to it the layer keeps the
  caches of listings and of links.  Calls that share a \<^verbatim>\<open>singleflight\<close> group are run one after the
  other; the hooks that build the search index are left out.
\<close>

section \<open>Drivers (internal/driver)\<close>

record Config =
  ConfigName :: string
  LocalSort :: bool
  OnlyLocal :: bool
  NoCache :: bool
  CheckStatus :: bool
  NoOverwriteUpload :: bool
  NoUpload :: bool
  OnlyProxy :: bool

record ListArgs =
  ReqPath :: string
  S3ShowPlaceholder :: bool
  Refresh :: bool
  NoUpdateIndex :: bool

record LinkArgs =
  IP :: string
  LinkType :: string

record Link =
  LinkURL :: string
  Expiration :: "int option"
  IPCacheKey :: bool

record FileStream =
  StreamName :: string
  Exist :: "Obj option"

datatype root_addition = IRootId string | IRootPath string | NoRootAddition

text \<open>
  What a type switch finds: the interface whose method also returns the new object (which may be
  \<^verbatim>\<open>nil\<close>), the one whose method returns an error only, or neither.
\<close>

datatype ('s, 'a) impl =
    WithResult "'s \<Rightarrow> 'a \<Rightarrow> 's \<times> (err + Obj option)"
  | Plain "'s \<Rightarrow> 'a \<Rightarrow> 's \<times> err option"
  | NotImpl

fun call :: "('s, 'a) impl \<Rightarrow> 's \<Rightarrow> 'a \<Rightarrow> 's \<times> (err + Obj option)" where
  "call (WithResult f) s a = f s a"
| "call (Plain f) s a = (case f s a of (s, None) \<Rightarrow> (s, Inr None) | (s, Some e) \<Rightarrow> (s, Inl e))"
| "call NotImpl s a = (s, Inl NotImplement)"

fun not_impl :: "('s, 'a) impl \<Rightarrow> bool" where
  "not_impl NotImpl = True"
| "not_impl _ = False"

record 's driver =
  config :: Config
  storage :: Storage
  addition :: root_addition
  drv_Get :: "('s \<Rightarrow> string \<Rightarrow> err + Obj) option"
  drv_GetRoot :: "('s \<Rightarrow> err + Obj option) option"
  drv_List :: "'s \<Rightarrow> Obj \<Rightarrow> ListArgs \<Rightarrow> err + Obj list"
  drv_Link :: "'s \<Rightarrow> Obj \<Rightarrow> LinkArgs \<Rightarrow> err + Link"
  drv_Other :: "('s \<Rightarrow> Obj \<Rightarrow> string \<Rightarrow> err + string) option"
  drv_MakeDir :: "('s, Obj \<times> string) impl"
  drv_Move :: "('s, Obj \<times> Obj) impl"
  drv_Rename :: "('s, Obj \<times> string) impl"
  drv_Copy :: "('s, Obj \<times> Obj) impl"
  drv_Remove :: "('s \<Rightarrow> Obj \<Rightarrow> 's \<times> err option) option"
  drv_Put :: "('s, Obj \<times> FileStream) impl"
  drv_PutURL :: "('s, Obj \<times> string \<times> string) impl"

text \<open>What the layer takes from its surroundings: the name map, the sorting of a slice, the stack depth.\<close>

record env =
  charMap :: "(string \<times> string) list"
  sortSlice :: sort_slice
  naturalLess :: "string \<Rightarrow> string \<Rightarrow> bool"
  stackDepth :: nat

record 's fs =
  backend :: 's
  listCache :: list_cache
  linkCache :: "string \<Rightarrow> Link option"

definition no_args :: ListArgs where
  "no_args = \<lparr>ReqPath = [], S3ShowPlaceholder = False, Refresh = False, NoUpdateIndex = False\<rparr>"

definition not_init :: err where
  "not_init = ErrMsg ''storage not init''"

definition storage_off :: "'s driver \<Rightarrow> bool" where
  "storage_off D \<longleftrightarrow> CheckStatus (config D) \<and> Status (storage D) \<noteq> WORK"

section \<open>Reading\<close>

definition set_path :: "Obj \<Rightarrow> Obj \<Rightarrow> Obj" where
  "set_path dir f =
     (if GetPath f = [] \<and> GetPath dir \<noteq> [] then SetPath (path_Join (GetPath dir) (GetName f)) f else f)"

definition arrange :: "env \<Rightarrow> 's driver \<Rightarrow> Obj \<Rightarrow> Obj list \<Rightarrow> Obj list" where
  "arrange E D dir files =
     (let files = WrapObjsName (charMap E) (map (set_path dir) files);
          files = (if LocalSort (config D)
                   then SortFiles (sortSlice E) (naturalLess E) files (OrderBy (storage D)) (OrderDirection (storage D))
                   else files)
      in ExtractFolder files (ExtractFolderTo (storage D)))"

definition list_dir :: "env \<Rightarrow> 's driver \<Rightarrow> 's fs \<Rightarrow> string \<Rightarrow> Obj \<Rightarrow> ListArgs \<Rightarrow> 's fs \<times> (err + Obj list)" where
  "list_dir E D st key dir args =
     (case drv_List D (backend st) dir args of
        Inl e \<Rightarrow> (st, Inl e)
      | Inr files \<Rightarrow>
          let files = arrange E D dir files;
              cache = (if NoCache (config D) then listCache st
                       else if files \<noteq> [] then (listCache st)(key \<mapsto> files)
                       else (listCache st)(key := None))
          in (st\<lparr>listCache := cache\<rparr>, Inr files))"

definition get_root :: "'s driver \<Rightarrow> 's \<Rightarrow> err + Obj" where
  "get_root D s =
     (let rootOf = (\<lambda>i p. Obj \<lparr>ObjID = i, ObjPath = p, ObjName = RootName, ObjSize = 0,
                              ObjModified = StModified (storage D), IsFolder = True\<rparr>);
          missing = Inl (ErrMsg ''please implement IRootPath or IRootId or GetRooter method'')
      in case drv_GetRoot D of
           Some getRoot \<Rightarrow>
             (case getRoot s of
                Inl e \<Rightarrow> Inl e
              | Inr None \<Rightarrow> missing
              | Inr (Some ob) \<Rightarrow> Inr (ObjWrapName RootName ob))
         | None \<Rightarrow>
             (case addition D of
                IRootId i \<Rightarrow> Inr (ObjWrapName RootName (rootOf i []))
              | IRootPath p \<Rightarrow> Inr (ObjWrapName RootName (rootOf [] p))
              | NoRootAddition \<Rightarrow> missing))"

definition get_direct :: "env \<Rightarrow> 's driver \<Rightarrow> 's \<Rightarrow> string \<Rightarrow> Obj option" where
  "get_direct E D s path =
     (case drv_Get D of
        None \<Rightarrow> None
      | Some g \<Rightarrow> (case g s path of Inl e \<Rightarrow> None | Inr ob \<Rightarrow> Some (WrapObjName (charMap E) ob)))"

definition find_obj :: "string \<Rightarrow> Obj list \<Rightarrow> err + Obj" where
  "find_obj name files = (case find (\<lambda>f. GetName f = name) files of Some f \<Rightarrow> Inr f | None \<Rightarrow> Inl ObjectNotFound)"

lemma fcomps_sep: "list_all fix_comp cs \<Longrightarrow> fcomps (PathAddSeparatorSuffix (render cs)) = cs"
proof -
  assume cs: "list_all fix_comp cs"
  have "CHR 0x5C \<notin> set (PathAddSeparatorSuffix (render cs))"
    using render_no_backslash [OF cs] by (auto simp: PathAddSeparatorSuffix_def)
  then have "fcomps (PathAddSeparatorSuffix (render cs)) = comps (PathAddSeparatorSuffix (render cs))"
    by (simp add: fcomps_def ReplaceByte_id)
  also have "\<dots> = cs"
    using cs comps_append [of "render cs" "[]"] by (auto simp: PathAddSeparatorSuffix_render fix_valid)
  finally show ?thesis .
qed

lemma parent_comps:
  assumes "fcomps path \<noteq> []"
  shows "fcomps (fst (path_Split (FixAndCleanPath path))) = butlast (fcomps path)"
    and "snd (path_Split (FixAndCleanPath path)) = last (fcomps path)"
proof -
  obtain cs c where cs: "fcomps path = cs @ [c]" using assms by (cases "fcomps path" rule: rev_cases) auto
  have v: "list_all fix_comp (cs @ [c])" using fcomps_fix [of path] cs by simp
  have "path_Split (FixAndCleanPath path) = (PathAddSeparatorSuffix (render cs), c)"
    using path_Split_render [of cs c] fix_valid [OF v] by (simp add: FixAndCleanPath_render cs)
  then show "fcomps (fst (path_Split (FixAndCleanPath path))) = butlast (fcomps path)"
    "snd (path_Split (FixAndCleanPath path)) = last (fcomps path)"
    using v by (simp_all add: cs fcomps_sep)
qed

lemma not_root: "\<not> PathEqual (FixAndCleanPath path) ''/'' \<longleftrightarrow> fcomps path \<noteq> []"
  using fcomps_render [of "[]"] by (simp add: PathEqual_comps)

lemma parent_shorter:
  assumes "\<not> PathEqual (FixAndCleanPath path) ''/''" "(dir, name) = path_Split (FixAndCleanPath path)"
  shows "length (fcomps dir) < length (fcomps path)"
proof -
  have ne: "fcomps path \<noteq> []" using assms(1) not_root [of path] by blast
  have "dir = fst (path_Split (FixAndCleanPath path))" using assms(2) by (metis fst_conv)
  with parent_comps(1) [OF ne] ne show ?thesis by simp
qed

function List :: "env \<Rightarrow> 's driver \<Rightarrow> 's fs \<Rightarrow> string \<Rightarrow> ListArgs \<Rightarrow> 's fs \<times> (err + Obj list)"
  and Get :: "env \<Rightarrow> 's driver \<Rightarrow> 's fs \<Rightarrow> string \<Rightarrow> 's fs \<times> (err + Obj)" where
  "List E D st path args =
     (if storage_off D then (st, Inl not_init)
      else
        let path = FixAndCleanPath path; key = Key (storage D) path
        in case (if Refresh args then None else listCache st key) of
             Some files \<Rightarrow> (st, Inr files)
           | None \<Rightarrow>
               (case Get E D st path of
                  (st, Inl e) \<Rightarrow> (st, Inl e)
                | (st, Inr ob) \<Rightarrow>
                    let dir = UnwrapObj ob
                    in if \<not> IsDir dir then (st, Inl NotFolder)
                       else list_dir E D st key dir args))"
| "Get E D st path =
     (let path = FixAndCleanPath path
      in case get_direct E D (backend st) path of
           Some ob \<Rightarrow> (st, Inr ob)
         | None \<Rightarrow>
             if PathEqual path ''/'' then (st, get_root D (backend st))
             else let (dir, name) = path_Split path
                  in case List E D st dir no_args of
                       (st, Inl e) \<Rightarrow> (st, Inl e)
                     | (st, Inr files) \<Rightarrow> (st, find_obj name files))"
  by pat_completeness auto
termination
  by (relation "measure (case_sum (\<lambda>(E, D, st, path, args). 2 * length (fcomps path) + 1)
                                   (\<lambda>(E, D, st, path). 2 * length (fcomps path)))")
    (auto dest: parent_shorter)

declare List.simps [simp del] Get.simps [simp del]

definition GetUnwrap :: "env \<Rightarrow> 's driver \<Rightarrow> 's fs \<Rightarrow> string \<Rightarrow> 's fs \<times> (err + Obj)" where
  "GetUnwrap E D st path =
     (case Get E D st path of
        (st, Inl e) \<Rightarrow> (st, Inl e)
      | (st, Inr ob) \<Rightarrow> (st, Inr (UnwrapObj ob)))"

text \<open>\<^verbatim>\<open>op.Link\<close>.  The key a link is stored under carries the address of the client when the driver asks
  for it; the key it is looked up under never does.\<close>

definition Link :: "env \<Rightarrow> 's driver \<Rightarrow> 's fs \<Rightarrow> string \<Rightarrow> LinkArgs \<Rightarrow> 's fs \<times> (err + Link \<times> Obj)" where
  "Link E D st path args =
     (if storage_off D then (st, Inl not_init)
      else case GetUnwrap E D st path of
             (st, Inl e) \<Rightarrow> (st, Inl e)
           | (st, Inr file) \<Rightarrow>
               if IsDir file then (st, Inl NotFile)
               else let key = Key (storage D) path
                    in case linkCache st key of
                         Some link \<Rightarrow> (st, Inr (link, file))
                       | None \<Rightarrow>
                           (case drv_Link D (backend st) file args of
                              Inl e \<Rightarrow> (st, Inl e)
                            | Inr link \<Rightarrow>
                                let key = (if IPCacheKey link then key @ '':'' @ IP args else key)
                                in (if Expiration link \<noteq> None then st\<lparr>linkCache := (linkCache st)(key \<mapsto> link)\<rparr> else st,
                                    Inr (link, file))))"

definition Other :: "env \<Rightarrow> 's driver \<Rightarrow> 's fs \<Rightarrow> string \<Rightarrow> string \<Rightarrow> 's fs \<times> (err + string)" where
  "Other E D st path method =
     (case GetUnwrap E D st path of
        (st, Inl e) \<Rightarrow> (st, Inl e)
      | (st, Inr ob) \<Rightarrow>
          (st, case drv_Other D of None \<Rightarrow> Inl NotImplement | Some f \<Rightarrow> f (backend st) ob method))"

lemma list_dir_backend: "backend (fst (list_dir E D st key dir args)) = backend st"
  by (simp add: list_dir_def Let_def split: sum.splits)

text \<open>Reading leaves the driver's state alone.\<close>

lemma reads_keep_backend:
  "backend (fst (List E D st path args)) = backend st"
  "backend (fst (Get E D st path)) = backend st"
proof (induction E D st path args and E D st path rule: List_Get.induct)
  case (1 E D st path args)
  then show ?case
    by (subst List.simps) (auto simp: Let_def list_dir_backend split: option.splits sum.splits prod.splits)
next
  case (2 E D st path)
  then show ?case
    by (subst Get.simps) (auto simp: Let_def split: option.splits sum.splits prod.splits)
qed

lemma GetUnwrap_backend: "backend (fst (GetUnwrap E D st path)) = backend st"
  using reads_keep_backend(2) [of E D st path] by (auto simp: GetUnwrap_def split: sum.splits prod.splits)

lemma Link_backend: "backend (fst (Link E D st path args)) = backend st"
  using GetUnwrap_backend [of E D st path] by (auto simp: Link_def Let_def split: sum.splits prod.splits option.splits)

section \<open>Writing\<close>

definition clear :: "env \<Rightarrow> 's driver \<Rightarrow> 's fs \<Rightarrow> string \<Rightarrow> 's fs go" where
  "clear E D st path =
     map_option (\<lambda>c. st\<lparr>listCache := c\<rparr>) (ClearCache (stackDepth E) (storage D) (listCache st) path)"

text \<open>
  What follows a successful call: the new object enters the cached listing of its directory, or,
  when the driver returns none, that listing is cleared unless the caller asked to be lazy.
\<close>

definition enter :: "env \<Rightarrow> 's driver \<Rightarrow> bool \<Rightarrow> 's fs \<Rightarrow> string \<Rightarrow> Obj option \<Rightarrow> 's fs go" where
  "enter E D lazyCache st dirPath newObj =
     (case newObj of
        Some ob \<Rightarrow> Some (st\<lparr>listCache := addCacheObj (storage D) (listCache st) dirPath (WrapObjName (charMap E) ob)\<rparr>)
      | None \<Rightarrow> if \<not> lazyCache then clear E D st dirPath else Some st)"

definition finish :: "'s fs go \<Rightarrow> ('s fs \<times> err option) go" where
  "finish r = map_option (\<lambda>st. (st, None)) r"

text \<open>
  \<^verbatim>\<open>MakeDir\<close> makes the parent first.  Were the root itself not found, the nested call would wait for
  the one it is nested in, which holds the same key of \<^verbatim>\<open>mkdirG\<close>: it does not return.
\<close>

function MakeDir :: "env \<Rightarrow> 's driver \<Rightarrow> bool \<Rightarrow> 's fs \<Rightarrow> string \<Rightarrow> ('s fs \<times> err option) go" where
  "MakeDir E D lazyCache st path =
     (if storage_off D then Some (st, Some not_init)
      else
        let path = FixAndCleanPath path
        in case GetUnwrap E D st path of
             (st, Inr f) \<Rightarrow> Some (st, if IsDir f then None else Some (ErrMsg ''file exists''))
           | (st, Inl e) \<Rightarrow>
               if \<not> IsObjectNotFound e then Some (st, Some e)
               else if PathEqual path ''/'' then panic
               else let (parentPath, dirName) = path_Split path
                    in case MakeDir E D False st parentPath of
                         None \<Rightarrow> panic
                       | Some (st, Some e) \<Rightarrow> Some (st, Some e)
                       | Some (st, None) \<Rightarrow>
                           (case GetUnwrap E D st parentPath of
                              (st, Inl e) \<Rightarrow> Some (st, Some e)
                            | (st, Inr parentDir) \<Rightarrow>
                                (case call (drv_MakeDir D) (backend st) (parentDir, dirName) of
                                   (s, Inl e) \<Rightarrow> Some (st\<lparr>backend := s\<rparr>, Some e)
                                 | (s, Inr newObj) \<Rightarrow> finish (enter E D lazyCache (st\<lparr>backend := s\<rparr>) parentPath newObj))))"
  by pat_completeness auto
termination
  by (relation "measure (\<lambda>(E, D, lazyCache, st, path). length (fcomps path))") (auto dest: parent_shorter)

declare MakeDir.simps [simp del]

definition Move :: "env \<Rightarrow> 's driver \<Rightarrow> bool \<Rightarrow> 's fs \<Rightarrow> string \<Rightarrow> string \<Rightarrow> ('s fs \<times> err option) go" where
  "Move E D lazyCache st srcPath dstDirPath =
     (if storage_off D then Some (st, Some not_init)
      else
        let srcPath = FixAndCleanPath srcPath; dstDirPath = FixAndCleanPath dstDirPath
        in case Get E D st srcPath of
             (st, Inl e) \<Rightarrow> Some (st, Some e)
           | (st, Inr srcRawObj) \<Rightarrow>
               (case GetUnwrap E D st dstDirPath of
                  (st, Inl e) \<Rightarrow> Some (st, Some e)
                | (st, Inr dstDir) \<Rightarrow>
                    (case call (drv_Move D) (backend st) (UnwrapObj srcRawObj, dstDir) of
                       (s, Inl e) \<Rightarrow> Some (st\<lparr>backend := s\<rparr>, Some e)
                     | (s, Inr newObj) \<Rightarrow>
                         let cache = delCacheObj (storage D) (listCache st) (path_Dir srcPath) srcRawObj
                         in finish (enter E D lazyCache (st\<lparr>backend := s, listCache := cache\<rparr>) dstDirPath newObj))))"

definition Rename :: "env \<Rightarrow> 's driver \<Rightarrow> bool \<Rightarrow> 's fs \<Rightarrow> string \<Rightarrow> string \<Rightarrow> ('s fs \<times> err option) go" where
  "Rename E D lazyCache st srcPath dstName =
     (if storage_off D then Some (st, Some not_init)
      else
        let srcPath = FixAndCleanPath srcPath
        in case Get E D st srcPath of
             (st, Inl e) \<Rightarrow> Some (st, Some e)
           | (st, Inr srcRawObj) \<Rightarrow>
               let srcDirPath = path_Dir srcPath
               in case call (drv_Rename D) (backend st) (UnwrapObj srcRawObj, dstName) of
                    (s, Inl e) \<Rightarrow> Some (st\<lparr>backend := s\<rparr>, Some e)
                  | (s, Inr (Some newObj)) \<Rightarrow>
                      Some (st\<lparr>backend := s,
                              listCache := updateCacheObj (storage D) (listCache st) srcDirPath srcRawObj (WrapObjName (charMap E) newObj)\<rparr>,
                            None)
                  | (s, Inr None) \<Rightarrow>
                      finish (if \<not> lazyCache then clear E D (st\<lparr>backend := s\<rparr>) srcDirPath else Some (st\<lparr>backend := s\<rparr>)))"

definition Copy :: "env \<Rightarrow> 's driver \<Rightarrow> bool \<Rightarrow> 's fs \<Rightarrow> string \<Rightarrow> string \<Rightarrow> ('s fs \<times> err option) go" where
  "Copy E D lazyCache st srcPath dstDirPath =
     (if storage_off D then Some (st, Some not_init)
      else
        let srcPath = FixAndCleanPath srcPath; dstDirPath = FixAndCleanPath dstDirPath
        in case GetUnwrap E D st srcPath of
             (st, Inl e) \<Rightarrow> Some (st, Some e)
           | (st, Inr srcObj) \<Rightarrow>
               (case GetUnwrap E D st dstDirPath of
                  (st, Inl e) \<Rightarrow> Some (st, Some e)
                | (st, Inr dstDir) \<Rightarrow>
                    (case call (drv_Copy D) (backend st) (srcObj, dstDir) of
                       (s, Inl e) \<Rightarrow> Some (st\<lparr>backend := s\<rparr>, Some e)
                     | (s, Inr newObj) \<Rightarrow> finish (enter E D lazyCache (st\<lparr>backend := s\<rparr>) dstDirPath newObj))))"

definition Remove :: "env \<Rightarrow> 's driver \<Rightarrow> 's fs \<Rightarrow> string \<Rightarrow> ('s fs \<times> err option) go" where
  "Remove E D st path =
     (if storage_off D then Some (st, Some not_init)
      else if PathEqual path ''/'' then Some (st, Some (ErrMsg ''delete root folder is not allowed''))
      else
        let path = FixAndCleanPath path
        in case Get E D st path of
             (st, Inl e) \<Rightarrow> Some (st, if IsObjectNotFound e then None else Some e)
           | (st, Inr rawObj) \<Rightarrow>
               (case drv_Remove D of
                  None \<Rightarrow> Some (st, Some NotImplement)
                | Some f \<Rightarrow>
                    (case f (backend st) (UnwrapObj rawObj) of
                       (s, Some e) \<Rightarrow> Some (st\<lparr>backend := s\<rparr>, Some e)
                     | (s, None) \<Rightarrow>
                         let st = st\<lparr>backend := s, listCache := delCacheObj (storage D) (listCache st) (path_Dir path) rawObj\<rparr>
                         in finish (if IsDir rawObj then clear E D st path else Some st))))"

section \<open>Uploading\<close>

definition Replace1 :: "string \<Rightarrow> string \<Rightarrow> string \<Rightarrow> string" where
  "Replace1 s old new = (case Index s old of None \<Rightarrow> s | Some i \<Rightarrow> take i s @ new @ drop (i + length old) s)"

definition urlTreeSplitLineFormPath :: "string \<Rightarrow> string \<times> string" where
  "urlTreeSplitLineFormPath path0 =
     (let path = Replace1 (Replace1 path0 ''https:/'' ''https://'') ''http:/'' ''http://'';
          (pp, file) =
            (if Contains path '':https:/'' \<or> Contains path '':http:/'' then
               let fPath = hd (Split CHR '':'' path); pp = fst (path_Split fPath)
               in (pp, drop (length pp) path)
             else if Contains path ''/https:/'' \<or> Contains path ''/http:/'' then
               let index = (case Index path ''/http://'' of Some i \<Rightarrow> i | None \<Rightarrow> the (Index path ''/https://''))
               in (take index path, drop (index + 1) path)
             else path_Split path)
      in (if pp = [] then ''/'' else pp, file))"

definition put_target :: "'s driver \<Rightarrow> string \<Rightarrow> FileStream \<Rightarrow> string \<times> FileStream" where
  "put_target D dstDirPath file =
     (if Driver (storage D) = ''UrlTree'' then
        let (dir, link) = urlTreeSplitLineFormPath (path_Join dstDirPath (StreamName file))
        in (dir, \<lparr>StreamName = link, Exist = None\<rparr>)
      else (dstDirPath, file))"

definition tempName :: "FileStream \<Rightarrow> string" where
  "tempName file = StreamName file @ ''.alist_to_delete''"

text \<open>
  The first step of \<^verbatim>\<open>Put\<close>: an object that is in the way is removed when it is empty, renamed when
  the driver cannot overwrite, and handed to the driver otherwise.
\<close>

definition put_prepare ::
    "env \<Rightarrow> 's driver \<Rightarrow> 's fs \<Rightarrow> string \<Rightarrow> FileStream \<Rightarrow> ('s fs \<times> (err + Obj option \<times> FileStream)) go" where
  "put_prepare E D st dstPath file =
     (case GetUnwrap E D st dstPath of
        (st, Inl e) \<Rightarrow> Some (st, Inr (None, file))
      | (st, Inr fi) \<Rightarrow>
          if GetSize fi = 0 then
            (case Remove E D st dstPath of
               None \<Rightarrow> panic
             | Some (st, Some e) \<Rightarrow> Some (st, Inl e)
             | Some (st, None) \<Rightarrow> Some (st, Inr (Some fi, file)))
          else if NoOverwriteUpload (config D) then
            (case Rename E D False st dstPath (tempName file) of
               None \<Rightarrow> panic
             | Some (st, Some e) \<Rightarrow> Some (st, Inl e)
             | Some (st, None) \<Rightarrow> Some (st, Inr (Some fi, file)))
          else Some (st, Inr (Some fi, file\<lparr>Exist := Some fi\<rparr>)))"

text \<open>The last step: the renamed object comes back when the upload failed and goes when it did not.\<close>

definition put_settle ::
    "env \<Rightarrow> 's driver \<Rightarrow> 's fs \<Rightarrow> string \<Rightarrow> FileStream \<Rightarrow> Obj option \<Rightarrow> err option \<Rightarrow> ('s fs \<times> err option) go" where
  "put_settle E D st dstDirPath file fi res =
     (let tempPath = path_Join dstDirPath (tempName file)
      in case fi of
           None \<Rightarrow> Some (st, res)
         | Some ob \<Rightarrow>
             if NoOverwriteUpload (config D) \<and> GetSize ob > 0 then
               (case res of
                  Some e \<Rightarrow>
                    (case Rename E D False st tempPath (StreamName file) of
                       None \<Rightarrow> panic
                     | Some (st, _) \<Rightarrow> Some (st, Some e))
                | None \<Rightarrow>
                    (case Remove E D st tempPath of
                       None \<Rightarrow> panic
                     | Some (st, Some e) \<Rightarrow> Some (st, Some e)
                     | Some (st, None) \<Rightarrow>
                         let key = Key (storage D) (path_Join dstDirPath (StreamName file))
                         in Some (st\<lparr>linkCache := (linkCache st)(key := None)\<rparr>, None)))
             else Some (st, res))"

definition Put :: "env \<Rightarrow> 's driver \<Rightarrow> bool \<Rightarrow> 's fs \<Rightarrow> string \<Rightarrow> FileStream \<Rightarrow> ('s fs \<times> err option) go" where
  "Put E D lazyCache st dstDirPath0 file0 =
     (if storage_off D then Some (st, Some not_init)
      else
        let (dstDirPath1, file1) = put_target D dstDirPath0 file0; dstDirPath = FixAndCleanPath dstDirPath1
        in case put_prepare E D st (path_Join dstDirPath (StreamName file1)) file1 of
             None \<Rightarrow> panic
           | Some (st, Inl e) \<Rightarrow> Some (st, Some e)
           | Some (st, Inr (fi, file)) \<Rightarrow>
               (case MakeDir E D False st dstDirPath of
                  None \<Rightarrow> panic
                | Some (st, Some e) \<Rightarrow> Some (st, Some e)
                | Some (st, None) \<Rightarrow>
                    (case GetUnwrap E D st dstDirPath of
                       (st, Inl e) \<Rightarrow> Some (st, Some e)
                     | (st, Inr parentDir) \<Rightarrow>
                         if not_impl (drv_Put D) then Some (st, Some NotImplement)
                         else case call (drv_Put D) (backend st) (parentDir, file) of
                                (s, Inl e) \<Rightarrow> put_settle E D (st\<lparr>backend := s\<rparr>) dstDirPath file fi (Some e)
                              | (s, Inr newObj) \<Rightarrow>
                                  (case enter E D lazyCache (st\<lparr>backend := s\<rparr>) dstDirPath newObj of
                                     None \<Rightarrow> panic
                                   | Some st \<Rightarrow> put_settle E D st dstDirPath file fi None))))"

definition PutURL :: "env \<Rightarrow> 's driver \<Rightarrow> bool \<Rightarrow> 's fs \<Rightarrow> string \<Rightarrow> string \<Rightarrow> string \<Rightarrow> ('s fs \<times> err option) go" where
  "PutURL E D lazyCache st dstDirPath0 dstName url =
     (if storage_off D then Some (st, Some not_init)
      else
        let dstDirPath = FixAndCleanPath dstDirPath0
        in case GetUnwrap E D st (path_Join dstDirPath dstName) of
             (st, Inr _) \<Rightarrow> Some (st, Some (ErrMsg ''obj already exists''))
           | (st, Inl _) \<Rightarrow>
               (case MakeDir E D False st dstDirPath of
                  None \<Rightarrow> panic
                | Some (st, Some e) \<Rightarrow> Some (st, Some e)
                | Some (st, None) \<Rightarrow>
                    (case GetUnwrap E D st dstDirPath of
                       (st, Inl e) \<Rightarrow> Some (st, Some e)
                     | (st, Inr dstDir) \<Rightarrow>
                         (case call (drv_PutURL D) (backend st) (dstDir, dstName, url) of
                            (s, Inl e) \<Rightarrow> Some (st\<lparr>backend := s\<rparr>, Some e)
                          | (s, Inr newObj) \<Rightarrow> finish (enter E D lazyCache (st\<lparr>backend := s\<rparr>) dstDirPath newObj)))))"

section \<open>Reading through the cache\<close>

text \<open>
  The reference: what is at a path, asked of the driver without any cache, on component lists.
\<close>

definition dir_of :: "env \<Rightarrow> 's driver \<Rightarrow> 's \<Rightarrow> err + Obj \<Rightarrow> err + Obj list" where
  "dir_of E D s r =
     (if storage_off D then Inl not_init
      else case r of
             Inl e \<Rightarrow> Inl e
           | Inr ob \<Rightarrow>
               if \<not> IsDir (UnwrapObj ob) then Inl NotFolder
               else case drv_List D s (UnwrapObj ob) no_args of
                      Inl e \<Rightarrow> Inl e
                    | Inr files \<Rightarrow> Inr (arrange E D (UnwrapObj ob) files))"

function obj_at :: "env \<Rightarrow> 's driver \<Rightarrow> 's \<Rightarrow> string list \<Rightarrow> err + Obj" where
  "obj_at E D s cs =
     (case get_direct E D s (render cs) of
        Some ob \<Rightarrow> Inr ob
      | None \<Rightarrow>
          if cs = [] then get_root D s
          else case dir_of E D s (obj_at E D s (butlast cs)) of
                 Inl e \<Rightarrow> Inl e
               | Inr files \<Rightarrow> find_obj (last cs) files)"
  by pat_completeness auto
termination
  by (relation "measure (\<lambda>(E, D, s, cs). length cs)") auto

declare obj_at.simps [simp del]

definition dir_at :: "env \<Rightarrow> 's driver \<Rightarrow> 's \<Rightarrow> string list \<Rightarrow> err + Obj list" where
  "dir_at E D s cs = dir_of E D s (obj_at E D s cs)"

text \<open>Every cached listing is what the driver would list now.\<close>

definition coherent :: "env \<Rightarrow> 's driver \<Rightarrow> 's fs \<Rightarrow> bool" where
  "coherent E D st \<longleftrightarrow>
     (\<forall>cs files. list_all fix_comp cs \<longrightarrow> entry (storage D) (listCache st) cs = Some files
        \<longrightarrow> dir_at E D (backend st) cs = Inr files)"

lemma coherentD:
  "\<lbrakk>coherent E D st; listCache st (Key (storage D) (FixAndCleanPath path)) = Some files\<rbrakk>
   \<Longrightarrow> dir_at E D (backend st) (fcomps path) = Inr files"
  by (auto simp: coherent_def entry_def FixAndCleanPath_render)

definition args_free :: "'s driver \<Rightarrow> bool" where
  "args_free D \<longleftrightarrow> (\<forall>s ob args. drv_List D s ob args = drv_List D s ob no_args)"

text \<open>The outcome of a read: the reference result, the driver untouched, the cache still coherent.\<close>

definition read_ok :: "env \<Rightarrow> 's driver \<Rightarrow> 's fs \<Rightarrow> 'r \<Rightarrow> 's fs \<times> 'r \<Rightarrow> bool" where
  "read_ok E D st r out \<longleftrightarrow> snd out = r \<and> backend (fst out) = backend st \<and> linkCache (fst out) = linkCache st
     \<and> coherent E D (fst out)"

lemma list_dir_ok:
  assumes D: "std_mount (storage D)" "args_free D" and st: "coherent E D st"
    and at: "obj_at E D (backend st) (fcomps path) = Inr ob" "IsDir (UnwrapObj ob)" "\<not> storage_off D"
  shows "read_ok E D st (dir_at E D (backend st) (fcomps path))
     (list_dir E D st (Key (storage D) (FixAndCleanPath path)) (UnwrapObj ob) args)"
proof (cases "drv_List D (backend st) (UnwrapObj ob) no_args")
  case (Inl e)
  then have "drv_List D (backend st) (UnwrapObj ob) args = Inl e" using D(2) unfolding args_free_def by metis
  with Inl at st show ?thesis by (simp add: read_ok_def list_dir_def dir_at_def dir_of_def)
next
  case (Inr files)
  then have l: "drv_List D (backend st) (UnwrapObj ob) args = Inr files" using D(2) unfolding args_free_def by metis
  let ?fs = "arrange E D (UnwrapObj ob) files"
  have d: "dir_at E D (backend st) (fcomps path) = Inr ?fs" using Inr at by (simp add: dir_at_def dir_of_def)
  have "coherent E D (st\<lparr>listCache := (listCache st)(Key (storage D) (FixAndCleanPath path) \<mapsto> ?fs)\<rparr>)"
    "coherent E D (st\<lparr>listCache := (listCache st)(Key (storage D) (FixAndCleanPath path) := None)\<rparr>)"
    using st d by (auto simp: coherent_def entry_def Key_inj [OF D(1)])
  then show ?thesis using st l d by (simp add: read_ok_def list_dir_def Let_def)
qed

lemma read_correct:
  fixes D :: "'s driver" and st :: "'s fs"
  assumes D: "std_mount (storage D)" "args_free D"
  shows "coherent E D st \<Longrightarrow> read_ok E D st (dir_at E D (backend st) (fcomps path)) (List E D st path args)"
    and "coherent E D st \<Longrightarrow> read_ok E D st (obj_at E D (backend st) (fcomps path)) (Get E D st path)"
  using D
proof (induction E D st path args and E D st path rule: List_Get.induct)
  case (1 E D st path args)
  show ?case
  proof (cases "storage_off D")
    case True
    then show ?thesis using 1 by (subst List.simps) (simp add: read_ok_def dir_at_def dir_of_def)
  next
    case False
    let ?p = "FixAndCleanPath path"
    show ?thesis
    proof (cases "if Refresh args then None else listCache st (Key (storage D) ?p)")
      case (Some files)
      with coherentD [OF 1(2)] False 1 show ?thesis
        by (subst List.simps) (auto simp: read_ok_def Let_def split: if_splits)
    next
      case None
      have g: "read_ok E D st (obj_at E D (backend st) (fcomps path)) (Get E D st ?p)"
        using 1(1) [OF False refl refl None] 1 by simp
      obtain st' r where r: "Get E D st ?p = (st', r)" by (cases "Get E D st ?p")
      have st': "backend st' = backend st" "linkCache st' = linkCache st" "coherent E D st'"
        "r = obj_at E D (backend st) (fcomps path)" using g by (simp_all add: read_ok_def r)
      have "List E D st path args = (case r of Inl e \<Rightarrow> (st', Inl e)
          | Inr ob \<Rightarrow> if \<not> IsDir (UnwrapObj ob) then (st', Inl NotFolder)
                     else list_dir E D st' (Key (storage D) ?p) (UnwrapObj ob) args)"
        using False None r by (subst List.simps) (auto simp: Let_def split: sum.splits)
      then show ?thesis
        using st' False list_dir_ok [OF 1(3,4) st'(3), of path _ args]
        by (auto simp: read_ok_def dir_at_def dir_of_def split: sum.splits if_splits)
    qed
  qed
next
  case (2 E D st path)
  let ?p = "FixAndCleanPath path"
  have p: "?p = render (fcomps path)" by (rule FixAndCleanPath_render)
  show ?case
  proof (cases "get_direct E D (backend st) ?p = None \<and> fcomps path \<noteq> []")
    case False
    then show ?thesis using 2 not_root [of path]
      by (subst Get.simps, subst obj_at.simps) (auto simp: read_ok_def p [symmetric] Let_def split: option.splits)
  next
    case True
    obtain dir name where s: "path_Split ?p = (dir, name)" by (cases "path_Split ?p")
    have dn: "fcomps dir = butlast (fcomps path)" "name = last (fcomps path)"
      using parent_comps [of path] True s by simp_all
    have nr: "\<not> PathEqual ?p ''/''" using True not_root [of path] by blast
    have l: "read_ok E D st (dir_at E D (backend st) (fcomps dir)) (List E D st dir no_args)"
      by (rule 2(1) [OF refl conjunct1 [OF True] nr refl s [symmetric] 2(2,3,4)])
    obtain st' r where r: "List E D st dir no_args = (st', r)" by (cases "List E D st dir no_args")
    have "Get E D st path = (case r of Inl e \<Rightarrow> (st', Inl e) | Inr files \<Rightarrow> (st', find_obj name files))"
      using True nr s r by (subst Get.simps) (auto simp: Let_def split: sum.splits)
    moreover have "obj_at E D (backend st) (fcomps path)
        = (case dir_at E D (backend st) (fcomps dir) of Inl e \<Rightarrow> Inl e | Inr files \<Rightarrow> find_obj name files)"
      unfolding dn(2) using True by (subst obj_at.simps) (simp add: dir_at_def dn(1) p [symmetric])
    ultimately show ?thesis using l by (auto simp: read_ok_def r split: sum.splits)
  qed
qed


text \<open>A driver that lists a fixed root, for the witnesses.\<close>

definition flat_driver :: "Obj list driver" where
  "flat_driver = \<lparr>config = \<lparr>ConfigName = ''Flat'', LocalSort = False, OnlyLocal = False, NoCache = False, CheckStatus = True, NoOverwriteUpload = False, NoUpload = False, OnlyProxy = False\<rparr>,
     storage = a_storage, addition = IRootPath ''/'', drv_Get = None, drv_GetRoot = None,
     drv_List = (\<lambda>s ob args. if GetPath ob = ''/'' then Inr s else Inr []),
     drv_Link = (\<lambda>s ob args. Inl NotImplement), drv_Other = None, drv_MakeDir = NotImpl, drv_Move = NotImpl,
     drv_Rename = NotImpl, drv_Copy = NotImpl, drv_Remove = None, drv_Put = NotImpl, drv_PutURL = NotImpl\<rparr>"

definition plain_env :: env where
  "plain_env = \<lparr>charMap = [], sortSlice = (\<lambda>lt xs. xs), naturalLess = (\<lambda>a b. False), stackDepth = 100\<rparr>"

definition flat_fs :: "Obj list fs" where
  "flat_fs = \<lparr>backend = [a_dir ''b''], listCache = (\<lambda>_. None), linkCache = (\<lambda>_. None)\<rparr>"

lemma flat_driver_facts: "std_mount (storage flat_driver)" "args_free flat_driver" "coherent plain_env flat_driver flat_fs"
  by (simp_all add: flat_driver_def a_cache_facts(1) args_free_def coherent_def entry_def flat_fs_def)


end
