(* ===== verification/Vfs.thy ===== *)
theory Vfs
  imports OpFs StorageMap Perm
begin

text \<open>
  The virtual file system (\<^verbatim>\<open>internal/fs\<close>): requests name mount paths; this layer finds the storage
  that serves a path, hands the rest of the path to \<^verbatim>\<open>internal/op\<close>, and shows the folders above the
  mounts.  Its state is the map of storages, each with its driver and the state behind it, the
  balancing counters, the caches that all storages share, and the queue of copy tasks.  Contexts are
  arguments: the user and the settings stored in them, and the flags that callers set.
\<close>

section \<open>State\<close>

record CopyTask =
  Creator :: "User option"
  SrcObjPath :: string
  DstDirPath :: string
  SrcStorageMp :: string
  DstStorageMp :: string
  SkipExisting :: bool

type_synonym 's mount = "('s driver \<times> 's) mounted"

record 's vfs =
  mounts :: "('s driver \<times> 's) storages"
  balance :: "string \<Rightarrow> nat option"
  listings :: list_cache
  links :: "string \<Rightarrow> Link option"
  copyTasks :: "CopyTask list"

definition driver_of :: "'s mount \<Rightarrow> 's driver" where
  "driver_of v = (fst (dState v))\<lparr>storage := dStorage v\<rparr>"

text \<open>The view of one storage and back.\<close>

definition open_fs :: "'s vfs \<Rightarrow> 's mount \<Rightarrow> 's fs" where
  "open_fs w v = \<lparr>backend = snd (dState v), listCache = listings w, linkCache = links w\<rparr>"

definition close_fs :: "'s vfs \<Rightarrow> 's mount \<Rightarrow> 's fs \<Rightarrow> 's vfs" where
  "close_fs w v st = w\<lparr>mounts := Store (mount_of v) (v\<lparr>dState := (fst (dState v), backend st)\<rparr>) (mounts w),
     listings := listCache st, links := linkCache st\<rparr>"

text \<open>A storage is an object with an identity: a call finds it as the calls before left it.\<close>

definition current :: "'s vfs \<Rightarrow> 's mount \<Rightarrow> 's mount" where
  "current w v = (case map_of (mounts w) (mount_of v) of None \<Rightarrow> v | Some v' \<Rightarrow> v')"

definition call_read :: "('s driver \<Rightarrow> 's fs \<Rightarrow> 's fs \<times> 'r) \<Rightarrow> 's mount \<Rightarrow> 's vfs \<Rightarrow> 's vfs \<times> 'r" where
  "call_read f v0 w = (let v = current w v0; (st, r) = f (driver_of v) (open_fs w v) in (close_fs w v st, r))"

definition call_write :: "('s driver \<Rightarrow> 's fs \<Rightarrow> ('s fs \<times> 'r) go) \<Rightarrow> 's mount \<Rightarrow> 's vfs \<Rightarrow> ('s vfs \<times> 'r) go" where
  "call_write f v0 w =
     (let v = current w v0 in map_option (\<lambda>(st, r). (close_fs w v st, r)) (f (driver_of v) (open_fs w v)))"

definition locate :: "'s vfs \<Rightarrow> string \<Rightarrow> 's vfs \<times> (err + 's mount \<times> string)" where
  "locate w path = (case GetStorageAndActualPath (mounts w) (balance w) path of (b, r) \<Rightarrow> (w\<lparr>balance := b\<rparr>, r))"

section \<open>Reading\<close>

definition GetStorage :: "'s vfs \<Rightarrow> string \<Rightarrow> 's vfs \<times> (err + 's mount)" where
  "GetStorage w path =
     (case locate w path of (w, Inl e) \<Rightarrow> (w, Inl e) | (w, Inr (v, _)) \<Rightarrow> (w, Inr v))"

definition whetherHide :: "get_role \<Rightarrow> User option \<Rightarrow> Meta option \<Rightarrow> string \<Rightarrow> bool" where
  "whetherHide getRole user meta path =
     (case user of
        None \<Rightarrow> False
      | Some u \<Rightarrow>
          if HasPermission (MergeRolePermissions getRole user path) PermSeeHides then False
          else case meta of
                 None \<Rightarrow> False
               | Some m \<Rightarrow>
                   if Hide m = [] then False
                   else if \<not> PathEqual (MetaPath m) path \<and> \<not> HSub m then False
                   else True)"

text \<open>What is taken from outside: the roles, the regular expressions and what \<^verbatim>\<open>op\<close> needs.\<close>

record site =
  siteEnv :: env
  roles :: get_role
  regexs :: regexps

definition fs_list ::
    "site \<Rightarrow> User option \<Rightarrow> Meta option \<Rightarrow> 's vfs \<Rightarrow> string \<Rightarrow> bool \<Rightarrow> ('s vfs \<times> (err + Obj list)) go" where
  "fs_list S user meta w path refresh =
     (let virtualFiles = GetStorageVirtualFilesByPath (mounts w) path;
          (w, found) = locate w path;
          args = \<lparr>ReqPath = path, S3ShowPlaceholder = False, Refresh = refresh, NoUpdateIndex = False\<rparr>;
          merge = (\<lambda>objs. map_option (\<lambda>om. snd (Merge om objs virtualFiles))
                     (if whetherHide (roles S) user meta path
                      then InitHideReg (regexs S) NewObjMerge (case meta of Some m \<Rightarrow> Hide m | None \<Rightarrow> [])
                      else Some NewObjMerge))
      in case found of
           Inl e \<Rightarrow> if virtualFiles = [] then Some (w, Inl e)
                    else map_option (\<lambda>objs. (w, Inr objs)) (merge [])
         | Inr (v, actualPath) \<Rightarrow>
             (case call_read (\<lambda>D st. List (siteEnv S) D st actualPath args) v w of
                (w, Inl e) \<Rightarrow> if virtualFiles = [] then Some (w, Inl e)
                              else map_option (\<lambda>objs. (w, Inr objs)) (merge [])
              | (w, Inr objs) \<Rightarrow> map_option (\<lambda>objs. (w, Inr objs)) (merge objs)))"

definition virtual_root :: Obj where
  "virtual_root = Obj \<lparr>ObjID = [], ObjPath = [], ObjName = ''root'', ObjSize = 0, ObjModified = 0, IsFolder = True\<rparr>"

definition fs_get :: "site \<Rightarrow> 's vfs \<Rightarrow> string \<Rightarrow> 's vfs \<times> (err + Obj)" where
  "fs_get S w path0 =
     (let path = FixAndCleanPath path0
      in case (if path \<noteq> ''/''
               then find (\<lambda>f. GetName f = path_Base path) (GetStorageVirtualFilesByPath (mounts w) (path_Dir path))
               else None) of
           Some f \<Rightarrow> (w, Inr f)
         | None \<Rightarrow>
             (case locate w path of
                (w, Inl e) \<Rightarrow> (w, if path = ''/'' then Inr virtual_root else Inl e)
              | (w, Inr (v, actualPath)) \<Rightarrow> call_read (\<lambda>D st. Get (siteEnv S) D st actualPath) v w))"

definition fs_link ::
    "site \<Rightarrow> string option \<Rightarrow> 's vfs \<Rightarrow> string \<Rightarrow> LinkArgs \<Rightarrow> 's vfs \<times> (err + Link \<times> Obj)" where
  "fs_link S apiUrl w path args =
     (case locate w path of
        (w, Inl e) \<Rightarrow> (w, Inl e)
      | (w, Inr (v, actualPath)) \<Rightarrow>
          (case call_read (\<lambda>D st. OpFs.Link (siteEnv S) D st actualPath args) v w of
             (w, Inl e) \<Rightarrow> (w, Inl e)
           | (w, Inr (l, ob)) \<Rightarrow>
               (w, Inr (if LinkURL l \<noteq> [] \<and> \<not> HasPrefix (LinkURL l) ''http://'' \<and> \<not> HasPrefix (LinkURL l) ''https://''
                        then (case apiUrl of Some u \<Rightarrow> l\<lparr>LinkURL := u @ LinkURL l\<rparr> | None \<Rightarrow> l) else l, ob))))"

section \<open>Writing\<close>

definition fs_makeDir :: "site \<Rightarrow> bool \<Rightarrow> 's vfs \<Rightarrow> string \<Rightarrow> ('s vfs \<times> err option) go" where
  "fs_makeDir S lazyCache w path =
     (case locate w path of
        (w, Inl e) \<Rightarrow> Some (w, Some e)
      | (w, Inr (v, actualPath)) \<Rightarrow> call_write (\<lambda>D st. MakeDir (siteEnv S) D lazyCache st actualPath) v w)"

definition fs_move :: "site \<Rightarrow> bool \<Rightarrow> 's vfs \<Rightarrow> string \<Rightarrow> string \<Rightarrow> ('s vfs \<times> err option) go" where
  "fs_move S lazyCache w srcPath dstDirPath =
     (case locate w srcPath of
        (w, Inl e) \<Rightarrow> Some (w, Some e)
      | (w, Inr (srcStorage, srcActualPath)) \<Rightarrow>
          (case locate w dstDirPath of
             (w, Inl e) \<Rightarrow> Some (w, Some e)
           | (w, Inr (dstStorage, dstDirActualPath)) \<Rightarrow>
               if mount_of srcStorage \<noteq> mount_of dstStorage then Some (w, Some MoveBetweenTwoStorages)
               else call_write (\<lambda>D st. Move (siteEnv S) D lazyCache st srcActualPath dstDirActualPath) srcStorage w))"

definition fs_rename :: "site \<Rightarrow> bool \<Rightarrow> 's vfs \<Rightarrow> string \<Rightarrow> string \<Rightarrow> ('s vfs \<times> err option) go" where
  "fs_rename S lazyCache w srcPath dstName =
     (case locate w srcPath of
        (w, Inl e) \<Rightarrow> Some (w, Some e)
      | (w, Inr (v, srcActualPath)) \<Rightarrow> call_write (\<lambda>D st. Rename (siteEnv S) D lazyCache st srcActualPath dstName) v w)"

definition fs_remove :: "site \<Rightarrow> 's vfs \<Rightarrow> string \<Rightarrow> ('s vfs \<times> err option) go" where
  "fs_remove S w path =
     (case locate w path of
        (w, Inl e) \<Rightarrow> Some (w, Some e)
      | (w, Inr (v, actualPath)) \<Rightarrow> call_write (\<lambda>D st. Remove (siteEnv S) D st actualPath) v w)"

definition fs_putDirectly :: "site \<Rightarrow> bool \<Rightarrow> 's vfs \<Rightarrow> string \<Rightarrow> FileStream \<Rightarrow> ('s vfs \<times> err option) go" where
  "fs_putDirectly S lazyCache w dstDirPath file =
     (case locate w dstDirPath of
        (w, Inl e) \<Rightarrow> Some (w, Some e)
      | (w, Inr (v, dstDirActualPath)) \<Rightarrow>
          if NoUpload (config (driver_of v)) then Some (w, Some UploadNotSupported)
          else call_write (\<lambda>D st. Put (siteEnv S) D lazyCache st dstDirActualPath file) v w)"

definition fs_PutURL :: "site \<Rightarrow> 's vfs \<Rightarrow> string \<Rightarrow> string \<Rightarrow> string \<Rightarrow> ('s vfs \<times> err option) go" where
  "fs_PutURL S w path dstName url =
     (case locate w path of
        (w, Inl e) \<Rightarrow> Some (w, Some e)
      | (w, Inr (v, dstDirActualPath)) \<Rightarrow>
          if NoUpload (config (driver_of v)) then Some (w, Some UploadNotSupported)
          else if not_impl (drv_PutURL (driver_of v)) then Some (w, Some NotImplement)
          else call_write (\<lambda>D st. PutURL (siteEnv S) D False st dstDirActualPath dstName url) v w)"

section \<open>Copying\<close>

text \<open>
  \<^verbatim>\<open>Copy\<close> inside one storage is left to its driver, unless the driver cannot; otherwise a task is queued
  (or, when the caller asks for no task, a file is copied at once through a stream made from its
  link, which is the argument \<open>seekable\<close>).  A file that exists with the same size may be skipped.
\<close>

definition same_file_there ::
    "site \<Rightarrow> 's mount \<Rightarrow> string \<Rightarrow> 's mount \<Rightarrow> string \<Rightarrow> 's vfs \<Rightarrow> 's vfs \<times> bool" where
  "same_file_there S srcStorage srcPath dstStorage dstDirPath w =
     (case call_read (\<lambda>D st. Get (siteEnv S) D st srcPath) srcStorage w of
        (w, Inl e) \<Rightarrow> (w, False)
      | (w, Inr srcObj) \<Rightarrow>
          if IsDir srcObj then (w, False)
          else case call_read (\<lambda>D st. Get (siteEnv S) D st (path_Join dstDirPath (GetName srcObj))) dstStorage w of
                 (w, Inl e) \<Rightarrow> (w, False)
               | (w, Inr dstFile) \<Rightarrow> (w, \<not> IsDir dstFile \<and> GetSize dstFile = GetSize srcObj))"

definition add_copy_task ::
    "User option \<Rightarrow> bool \<Rightarrow> 's mount \<Rightarrow> string \<Rightarrow> 's mount \<Rightarrow> string \<Rightarrow> 's vfs \<Rightarrow> 's vfs \<times> CopyTask" where
  "add_copy_task user skipExisting srcStorage srcPath dstStorage dstDirPath w =
     (let t = \<lparr>Creator = user, SrcObjPath = srcPath, DstDirPath = dstDirPath, SrcStorageMp = mount_of srcStorage,
               DstStorageMp = mount_of dstStorage, SkipExisting = skipExisting\<rparr>
      in (w\<lparr>copyTasks := copyTasks w @ [t]\<rparr>, t))"

definition copy_now ::
    "site \<Rightarrow> (Obj \<Rightarrow> Link \<Rightarrow> err + FileStream) \<Rightarrow> 's mount \<Rightarrow> string \<Rightarrow> 's mount \<Rightarrow> string \<Rightarrow> Obj \<Rightarrow> 's vfs \<Rightarrow> ('s vfs \<times> err option) go" where
  "copy_now S seekable srcStorage srcPath dstStorage dstDirPath srcObj w =
     (case call_read (\<lambda>D st. OpFs.Link (siteEnv S) D st srcPath \<lparr>IP = [], LinkType = []\<rparr>) srcStorage w of
        (w, Inl e) \<Rightarrow> Some (w, Some e)
      | (w, Inr (link, _)) \<Rightarrow>
          (case seekable srcObj link of
             Inl e \<Rightarrow> Some (w, Some e)
           | Inr ss \<Rightarrow> call_write (\<lambda>D st. Put (siteEnv S) D False st dstDirPath ss) dstStorage w))"

definition copy_elsewhere ::
    "site \<Rightarrow> (Obj \<Rightarrow> Link \<Rightarrow> err + FileStream) \<Rightarrow> User option \<Rightarrow> bool \<Rightarrow> bool \<Rightarrow> 's mount \<Rightarrow> string \<Rightarrow> 's mount \<Rightarrow> string
      \<Rightarrow> 's vfs \<Rightarrow> ('s vfs \<times> CopyTask option \<times> err option) go" where
  "copy_elsewhere S seekable user noTask skipExisting srcStorage srcPath dstStorage dstDirPath w =
     (let queue = (\<lambda>w. case add_copy_task user skipExisting srcStorage srcPath dstStorage dstDirPath w of
                           (w, t) \<Rightarrow> Some (w, Some t, None))
      in if \<not> noTask then queue w
         else case call_read (\<lambda>D st. Get (siteEnv S) D st srcPath) srcStorage w of
                (w, Inl e) \<Rightarrow> Some (w, None, Some e)
              | (w, Inr srcObj) \<Rightarrow>
                  if IsDir srcObj then queue w
                  else map_option (\<lambda>(w, e). (w, None, e)) (copy_now S seekable srcStorage srcPath dstStorage dstDirPath srcObj w))"

definition fs_copy ::
    "site \<Rightarrow> (Obj \<Rightarrow> Link \<Rightarrow> err + FileStream) \<Rightarrow> User option \<Rightarrow> bool \<Rightarrow> bool \<Rightarrow> bool \<Rightarrow> 's vfs \<Rightarrow> string \<Rightarrow> string
      \<Rightarrow> ('s vfs \<times> CopyTask option \<times> err option) go" where
  "fs_copy S seekable user noTask skipExisting lazyCache w srcObjPath dstDirPath =
     (case locate w srcObjPath of
        (w, Inl e) \<Rightarrow> Some (w, None, Some e)
      | (w, Inr (srcStorage, srcPath)) \<Rightarrow>
          (case locate w dstDirPath of
             (w, Inl e) \<Rightarrow> Some (w, None, Some e)
           | (w, Inr (dstStorage, dstPath)) \<Rightarrow>
               let elsewhere = copy_elsewhere S seekable user noTask skipExisting srcStorage srcPath dstStorage dstPath
               in if mount_of srcStorage = mount_of dstStorage then
                    (case (if skipExisting then same_file_there S srcStorage srcPath dstStorage dstPath w else (w, False)) of
                       (w, True) \<Rightarrow> Some (w, None, None)
                     | (w, False) \<Rightarrow>
                         (case call_write (\<lambda>D st. Copy (siteEnv S) D lazyCache st srcPath dstPath) srcStorage w of
                            None \<Rightarrow> panic
                          | Some (w, e) \<Rightarrow>
                              if e = Some NotImplement \<or> e = Some NotSupport then elsewhere w else Some (w, None, e)))
                  else elsewhere w))"

text \<open>
  Running a queued task.  The storages of a task are found by their mount paths, as they are after a
  restart; \<open>canceled i\<close> says whether the context was cancelled before the \<open>i\<close>-th child.
\<close>

fun queue_children ::
    "(nat \<Rightarrow> bool) \<Rightarrow> nat \<Rightarrow> CopyTask \<Rightarrow> 's mount \<Rightarrow> 's mount \<Rightarrow> string \<Rightarrow> string \<Rightarrow> Obj list \<Rightarrow> 's vfs \<Rightarrow> 's vfs" where
  "queue_children canceled i t srcStorage dstStorage srcObjPath dstObjPath [] w = w"
| "queue_children canceled i t srcStorage dstStorage srcObjPath dstObjPath (ob # obs) w =
     (if canceled i then w
      else queue_children canceled (Suc i) t srcStorage dstStorage srcObjPath dstObjPath obs
             (fst (add_copy_task (Creator t) (SkipExisting t) srcStorage (path_Join srcObjPath (GetName ob)) dstStorage dstObjPath w)))"

definition copyFileBetween2Storages ::
    "site \<Rightarrow> (Obj \<Rightarrow> Link \<Rightarrow> err + FileStream) \<Rightarrow> CopyTask \<Rightarrow> 's mount \<Rightarrow> 's mount \<Rightarrow> string \<Rightarrow> string \<Rightarrow> 's vfs \<Rightarrow> ('s vfs \<times> err option) go" where
  "copyFileBetween2Storages S seekable t srcStorage dstStorage srcFilePath dstDirPath w =
     (case call_read (\<lambda>D st. Get (siteEnv S) D st srcFilePath) srcStorage w of
        (w, Inl e) \<Rightarrow> Some (w, Some e)
      | (w, Inr srcFile) \<Rightarrow>
          let (w, there) =
                (if SkipExisting t then
                   (case call_read (\<lambda>D st. Get (siteEnv S) D st (path_Join dstDirPath (GetName srcFile))) dstStorage w of
                      (w, Inl e) \<Rightarrow> (w, False)
                    | (w, Inr dstFile) \<Rightarrow> (w, \<not> IsDir dstFile \<and> GetSize dstFile = GetSize srcFile))
                 else (w, False))
          in if there then Some (w, None)
             else case call_read (\<lambda>D st. OpFs.Link (siteEnv S) D st srcFilePath \<lparr>IP = [], LinkType = []\<rparr>) srcStorage w of
                    (w, Inl e) \<Rightarrow> Some (w, Some e)
                  | (w, Inr (link, _)) \<Rightarrow>
                      (case seekable srcFile link of
                         Inl e \<Rightarrow> Some (w, Some e)
                       | Inr ss \<Rightarrow> call_write (\<lambda>D st. Put (siteEnv S) D True st dstDirPath ss) dstStorage w))"

definition copyBetween2Storages ::
    "site \<Rightarrow> (Obj \<Rightarrow> Link \<Rightarrow> err + FileStream) \<Rightarrow> (nat \<Rightarrow> bool) \<Rightarrow> CopyTask \<Rightarrow> 's mount \<Rightarrow> 's mount \<Rightarrow> 's vfs \<Rightarrow> ('s vfs \<times> err option) go" where
  "copyBetween2Storages S seekable canceled t srcStorage dstStorage w =
     (case call_read (\<lambda>D st. Get (siteEnv S) D st (SrcObjPath t)) srcStorage w of
        (w, Inl e) \<Rightarrow> Some (w, Some e)
      | (w, Inr srcObj) \<Rightarrow>
          if IsDir srcObj then
            (case call_read (\<lambda>D st. List (siteEnv S) D st (SrcObjPath t) no_args) srcStorage w of
               (w, Inl e) \<Rightarrow> Some (w, Some e)
             | (w, Inr objs) \<Rightarrow>
                 Some (queue_children canceled 0 t srcStorage dstStorage (SrcObjPath t)
                         (path_Join (DstDirPath t) (GetName srcObj)) objs w, None))
          else copyFileBetween2Storages S seekable t srcStorage dstStorage (SrcObjPath t) (DstDirPath t) w)"

text \<open>The error of the first lookup is overwritten by the second: without a source the task dereferences \<^verbatim>\<open>nil\<close>.\<close>

definition run_copy_task ::
    "site \<Rightarrow> (Obj \<Rightarrow> Link \<Rightarrow> err + FileStream) \<Rightarrow> (nat \<Rightarrow> bool) \<Rightarrow> CopyTask \<Rightarrow> 's vfs \<Rightarrow> ('s vfs \<times> err option) go" where
  "run_copy_task S seekable canceled t w =
     (case (GetStorageByMountPath (mounts w) (SrcStorageMp t), GetStorageByMountPath (mounts w) (DstStorageMp t)) of
        (_, Inl e) \<Rightarrow> Some (w, Some e)
      | (Inl _, Inr _) \<Rightarrow> panic
      | (Inr srcStorage, Inr dstStorage) \<Rightarrow> copyBetween2Storages S seekable canceled t srcStorage dstStorage w)"

section \<open>What a call may change\<close>

text \<open>
  Calls keep the mounts and their settings; only the state behind a storage changes.  \<open>same_but P\<close>:
  nothing changed behind the storages whose mount path does not satisfy \<open>P\<close>.
\<close>

definition kept :: "(string \<Rightarrow> bool) \<Rightarrow> string \<times> 's mount \<Rightarrow> string \<times> 's mount \<Rightarrow> bool" where
  "kept P = (\<lambda>(k, v) (k', v'). k' = k \<and> dStorage v' = dStorage v \<and> fst (dState v') = fst (dState v)
     \<and> (\<not> P k \<longrightarrow> snd (dState v') = snd (dState v)))"

definition same_but :: "(string \<Rightarrow> bool) \<Rightarrow> 's vfs \<Rightarrow> 's vfs \<Rightarrow> bool" where
  "same_but P w w' \<longleftrightarrow>
     list_all2 (kept P) (mounts w) (mounts w')"

abbreviation unchanged :: "'s vfs \<Rightarrow> 's vfs \<Rightarrow> bool" where
  "unchanged \<equiv> same_but (\<lambda>_. False)"

lemma kept_refl [simp]: "kept P x x"
  by (auto simp: kept_def split: prod.splits)

lemma same_but_refl [simp, intro]: "same_but P w w"
  by (simp add: same_but_def list_all2_same)

lemma same_but_mono: "\<lbrakk>same_but P w w'; \<And>k. P k \<Longrightarrow> Q k\<rbrakk> \<Longrightarrow> same_but Q w w'"
  unfolding same_but_def by (erule list_all2_mono) (auto simp: kept_def)

lemma same_but_trans [trans]: "\<lbrakk>same_but P w w'; same_but P w' w''\<rbrakk> \<Longrightarrow> same_but P w w''"
  unfolding same_but_def by (rule list_all2_trans [of "kept P" "kept P"]) (auto simp: kept_def)

lemma unchanged_trans: "\<lbrakk>unchanged w w'; same_but P w' w''\<rbrakk> \<Longrightarrow> same_but P w w''"
  by (blast intro: same_but_trans same_but_mono)

lemma same_but_mounts: "mounts w' = mounts w \<Longrightarrow> same_but P w w'"
  by (simp add: same_but_def list_all2_same)

lemma same_but_keys: "same_but P w w' \<Longrightarrow> map fst (mounts w') = map fst (mounts w)"
  unfolding same_but_def by (induction rule: list_all2_induct) (auto simp: kept_def)

lemma same_but_storages_ok: "\<lbrakk>same_but P w w'; storages_ok (mounts w)\<rbrakk> \<Longrightarrow> storages_ok (mounts w')"
proof -
  assume s: "same_but P w w'" "storages_ok (mounts w)"
  have "\<exists>v. (k, v) \<in> set (mounts w) \<and> dStorage v' = dStorage v" if "(k, v') \<in> set (mounts w')" for k v'
    using s(1) that unfolding same_but_def by (induction rule: list_all2_induct) (auto simp: kept_def)
  with s(2) same_but_keys [OF s(1)] show ?thesis unfolding storages_ok_def by fastforce
qed

lemma list_all2_Store:
  assumes "map_of m k = Some v" "R (k, v) (k, v')" "\<And>x. R x x"
  shows "list_all2 R m (Store k v' m)"
  using assms(1)
proof (induction m)
  case (Cons x m)
  then show ?case using assms(2,3) by (cases x) (auto simp: list_all2_same split: if_splits)
qed simp

text \<open>A storage of the map, by its identity.\<close>

definition mounted_in :: "'s vfs \<Rightarrow> 's mount \<Rightarrow> bool" where
  "mounted_in w v \<longleftrightarrow> storages_ok (mounts w) \<and> mount_of v \<in> fst ` set (mounts w)"

lemma current_mounted:
  assumes "mounted_in w v"
  shows "map_of (mounts w) (mount_of v) = Some (current w v)" "mount_of (current w v) = mount_of v"
proof -
  obtain v' where v': "(mount_of v, v') \<in> set (mounts w)" using assms by (auto simp: mounted_in_def)
  then show "map_of (mounts w) (mount_of v) = Some (current w v)" "mount_of (current w v) = mount_of v"
    using assms map_of_is_SomeI [OF _ v'] by (fastforce simp: mounted_in_def storages_ok_def current_def)+
qed

lemma same_but_mounted: "\<lbrakk>same_but P w w'; mounted_in w v\<rbrakk> \<Longrightarrow> mounted_in w' v"
  using same_but_keys [of P w w'] same_but_storages_ok [of P w w'] unfolding mounted_in_def by (metis set_map)

lemma close_fs_same:
  assumes "mounted_in w v" "backend st = snd (dState (current w v)) \<or> P (mount_of v)"
  shows "same_but P w (close_fs w (current w v) st)"
  unfolding same_but_def close_fs_def
  using list_all2_Store [OF current_mounted(1) [OF assms(1)], of "kept P"] assms(2) current_mounted(2) [OF assms(1)]
  by (auto simp: kept_def)

lemma call_write_same:
  "\<lbrakk>call_write f v w = Some (w', r); mounted_in w v; P (mount_of v)\<rbrakk> \<Longrightarrow> same_but P w w'"
  by (auto simp: call_write_def Let_def intro: close_fs_same)

lemma call_read_same:
  assumes "call_read f v w = (w', r)" "mounted_in w v" "\<And>D st. backend (fst (f D st)) = backend st"
  shows "same_but P w w'"
  using assms(1,2) assms(3) [of "driver_of (current w v)" "open_fs w (current w v)"]
  by (auto simp: call_read_def Let_def open_fs_def split: prod.splits intro!: close_fs_same)

text \<open>Finding a storage changes the counters only.\<close>

lemma locate_same: "locate w path = (w', r) \<Longrightarrow> mounts w' = mounts w"
  by (auto simp: locate_def split: prod.splits)

lemma locate_found:
  assumes "locate w path = (w', Inr (v, p))" "storages_ok (mounts w)"
  shows "mounted_in w' v" "IsSubPath (GetActualMountPath (mount_of v)) path"
proof -
  let ?xs = "getStoragesByPath (mounts w) (FixAndCleanPath path)"
  have "snd (GetBalancedStorage (mounts w) (balance w) (FixAndCleanPath path)) = Some v"
    using assms(1) by (auto simp: locate_def GetStorageAndActualPath_def Let_def split: prod.splits option.splits)
  then have "?xs \<noteq> []" "\<exists>i < length ?xs. v = ?xs ! i"
    by (auto simp: GetBalancedStorage_result split: if_splits intro!: mod_less_divisor)
  then have "v \<in> set ?xs" by auto
  then obtain k where k: "(k, v) \<in> set (mounts w)" "covers_path path k"
    by (auto simp: getStoragesByPath_picked)
  then have "mount_of v = k" using assms(2) by (auto simp: storages_ok_def)
  with k assms(2) show "mounted_in w' v" "IsSubPath (GetActualMountPath (mount_of v)) path"
    by (force simp: mounted_in_def locate_same [OF assms(1)] covers_path_def)+
qed

lemma located_read:
  assumes "locate w path = (w1, Inr (v, p))" "call_read f v w1 = (w2, r)" "storages_ok (mounts w)"
    "\<And>D st. backend (fst (f D st)) = backend st"
  shows "unchanged w w2"
  using same_but_mounts [OF locate_same [OF assms(1)]] call_read_same [OF assms(2) locate_found(1) [OF assms(1,3)] assms(4)]
  by (rule same_but_trans)

lemma located_write:
  assumes "locate w path = (w1, Inr (v, p))" "call_write f v w1 = Some (w2, r)" "storages_ok (mounts w)"
  shows "same_but (covers_path path) w w2"
proof -
  have "covers_path path (mount_of v)" using locate_found(2) [OF assms(1,3)] by (simp add: covers_path_def)
  with call_write_same [OF assms(2) locate_found(1) [OF assms(1,3)], of "covers_path path"]
  have "same_but (covers_path path) w1 w2" by blast
  with same_but_mounts [OF locate_same [OF assms(1)]] show ?thesis by (rule same_but_trans)
qed

lemma located_not: "locate w path = (w1, Inl e) \<Longrightarrow> same_but P w w1"
  by (rule same_but_mounts) (rule locate_same)

lemma located_only: "locate w path = (w1, r) \<Longrightarrow> same_but P w w1"
  by (rule same_but_mounts) (rule locate_same)

lemma fs_list_same:
  assumes "fs_list S user meta w path refresh = Some (w', r)" "storages_ok (mounts w)"
  shows "unchanged w w'"
proof -
  obtain w1 found where l: "locate w path = (w1, found)" by fastforce
  show ?thesis
  proof (cases found)
    case (Inl e)
    with assms(1) l have "w' = w1" by (auto simp: fs_list_def Let_def split: if_splits)
    with l Inl show ?thesis by (auto intro: located_not)
  next
    case (Inr vp)
    obtain v p where vp: "vp = (v, p)" by (cases vp)
    let ?args = "\<lparr>ReqPath = path, S3ShowPlaceholder = False, Refresh = refresh, NoUpdateIndex = False\<rparr>"
    obtain w2 out where c: "call_read (\<lambda>D st. List (siteEnv S) D st p ?args) v w1 = (w2, out)" by fastforce
    have "w' = w2" using assms(1) by (auto simp: fs_list_def Let_def l Inr vp c split: sum.splits if_splits)
    with located_read [OF l [unfolded Inr vp] c assms(2)] reads_keep_backend(1) show ?thesis by blast
  qed
qed

lemma fs_get_same: "\<lbrakk>fs_get S w path = (w', r); storages_ok (mounts w)\<rbrakk> \<Longrightarrow> unchanged w w'"
  by (auto simp: fs_get_def Let_def reads_keep_backend split: option.splits prod.splits sum.splits
      dest: located_not intro: located_read)

lemma fs_link_same: "\<lbrakk>fs_link S apiUrl w path args = (w', r); storages_ok (mounts w)\<rbrakk> \<Longrightarrow> unchanged w w'"
  by (auto simp: fs_link_def Let_def Link_backend split: prod.splits sum.splits dest: located_not intro: located_read)

lemma GetStorage_same: "GetStorage w path = (w', r) \<Longrightarrow> same_but P w w'"
  by (auto simp: GetStorage_def split: prod.splits sum.splits dest: located_only)

text \<open>A change made for a path happens behind a storage mounted above the path.\<close>

lemma fs_makeDir_same: "\<lbrakk>fs_makeDir S lazy w path = Some (w', r); storages_ok (mounts w)\<rbrakk> \<Longrightarrow> same_but (covers_path path) w w'"
  by (auto simp: fs_makeDir_def split: prod.splits sum.splits dest: located_not intro: located_write)

lemma fs_rename_same: "\<lbrakk>fs_rename S lazy w path name = Some (w', r); storages_ok (mounts w)\<rbrakk> \<Longrightarrow> same_but (covers_path path) w w'"
  by (auto simp: fs_rename_def split: prod.splits sum.splits dest: located_not intro: located_write)

lemma fs_remove_same: "\<lbrakk>fs_remove S w path = Some (w', r); storages_ok (mounts w)\<rbrakk> \<Longrightarrow> same_but (covers_path path) w w'"
  by (auto simp: fs_remove_def split: prod.splits sum.splits dest: located_not intro: located_write)

lemma fs_putDirectly_same:
  "\<lbrakk>fs_putDirectly S lazy w path file = Some (w', r); storages_ok (mounts w)\<rbrakk> \<Longrightarrow> same_but (covers_path path) w w'"
  by (auto simp: fs_putDirectly_def split: prod.splits sum.splits if_splits dest: located_only intro: located_write)

lemma fs_PutURL_same:
  "\<lbrakk>fs_PutURL S w path name url = Some (w', r); storages_ok (mounts w)\<rbrakk> \<Longrightarrow> same_but (covers_path path) w w'"
  by (auto simp: fs_PutURL_def split: prod.splits sum.splits if_splits dest: located_only intro: located_write)

lemma fs_move_same:
  assumes "fs_move S lazy w src dst = Some (w', r)" "storages_ok (mounts w)"
  shows "same_but (\<lambda>k. covers_path src k \<and> covers_path dst k) w w'"
proof -
  obtain w1 a where l1: "locate w src = (w1, a)" by fastforce
  show ?thesis
  proof (cases a)
    case (Inl e)
    with assms(1) l1 show ?thesis by (auto simp: fs_move_def dest: located_not)
  next
    case (Inr vp)
    obtain v p where vp: "vp = (v, p)" by (cases vp)
    note l1 = l1 [unfolded Inr vp]
    obtain w2 b where l2: "locate w1 dst = (w2, b)" by fastforce
    have m: "mounts w1 = mounts w" "mounts w2 = mounts w" using locate_same [OF l1] locate_same [OF l2] by simp_all
    have s: "same_but P w w2" for P using m by (intro same_but_mounts) simp
    show ?thesis
    proof (cases "\<exists>v' q. b = Inr (v', q) \<and> mount_of v = mount_of v'")
      case False
      then have "w' = w2" using assms(1) by (auto simp: fs_move_def l1 l2 split: sum.splits prod.splits if_splits)
      with s show ?thesis by simp
    next
      case True
      then obtain v' q where b: "b = Inr (v', q)" "mount_of v = mount_of v'" by blast
      have "mounted_in w2 v" using locate_found(1) [OF l1 assms(2)] m by (simp add: mounted_in_def)
      moreover have "covers_path src (mount_of v)" "covers_path dst (mount_of v)"
        using locate_found(2) [OF l1 assms(2)] locate_found(2) [OF l2 [unfolded b(1)]] assms(2) m b(2)
        by (simp_all add: covers_path_def)
      ultimately have "same_but (\<lambda>k. covers_path src k \<and> covers_path dst k) w2 w'"
        using assms(1) b(2) by (auto simp: fs_move_def l1 l2 b(1) intro: call_write_same)
      with s show ?thesis by (blast intro: same_but_trans)
    qed
  qed
qed

text \<open>Copying: the queue may grow; behind the storages only those above one of the two paths may change.\<close>

lemma same_file_there_same:
  assumes "same_file_there S v p v' q w = (w', r)" "mounted_in w v" "mounted_in w v'"
  shows "unchanged w w'"
proof -
  obtain w1 a where c: "call_read (\<lambda>D st. Get (siteEnv S) D st p) v w = (w1, a)" by fastforce
  have u: "unchanged w w1" by (rule call_read_same [OF c assms(2)]) (simp add: reads_keep_backend)
  have "unchanged w1 w'"
    using assms(1) c same_but_mounted [OF u assms(3)]
    by (auto simp: same_file_there_def reads_keep_backend split: sum.splits if_splits prod.splits intro: call_read_same)
  with u show ?thesis by (rule same_but_trans)
qed

lemma copy_now_same:
  assumes "copy_now S seekable v p v' q ob w = Some (w', r)" "mounted_in w v" "mounted_in w v'" "P (mount_of v')"
  shows "same_but P w w'"
proof -
  obtain w1 a where c: "call_read (\<lambda>D st. OpFs.Link (siteEnv S) D st p \<lparr>IP = [], LinkType = []\<rparr>) v w = (w1, a)" by fastforce
  have u: "same_but P w w1" by (rule call_read_same [OF c assms(2)]) (simp add: Link_backend)
  have "same_but P w1 w'"
    using assms(1,4) c same_but_mounted [OF u assms(3)]
    by (auto simp: copy_now_def split: sum.splits prod.splits intro: call_write_same)
  with u show ?thesis by (rule same_but_trans)
qed

lemma copy_elsewhere_same:
  assumes "copy_elsewhere S seekable user noTask skip v p v' q w = Some (w', t, r)" "mounted_in w v" "mounted_in w v'" "P (mount_of v')"
  shows "same_but P w w'"
proof -
  have q: "same_but P w1 (fst (add_copy_task user skip v p v' q w1))" for w1 by (rule same_but_mounts) (simp add: add_copy_task_def Let_def)
  show ?thesis
  proof (cases noTask)
    case False
    with assms(1) q [of w] show ?thesis by (auto simp: copy_elsewhere_def Let_def split: prod.splits)
  next
    case True
    obtain w1 a where c: "call_read (\<lambda>D st. Get (siteEnv S) D st p) v w = (w1, a)" by fastforce
    have u: "same_but P w w1" by (rule call_read_same [OF c assms(2)]) (simp add: reads_keep_backend)
    have "same_but P w1 w'"
      using assms(1,4) True c q [of w1] same_but_mounted [OF u assms(2)] same_but_mounted [OF u assms(3)]
      by (auto simp: copy_elsewhere_def Let_def split: prod.splits sum.splits if_splits intro: copy_now_same)
    with u show ?thesis by (rule same_but_trans)
  qed
qed

lemma fs_copy_same:
  assumes "fs_copy S seekable user noTask skip lazy w src dst = Some (w', t, r)" "storages_ok (mounts w)"
  shows "same_but (covers_path dst) w w'"
proof -
  obtain w1 a where l1: "locate w src = (w1, a)" by fastforce
  obtain w2 b where l2: "locate w1 dst = (w2, b)" by fastforce
  have m: "mounts w1 = mounts w" "mounts w2 = mounts w" using locate_same [OF l1] locate_same [OF l2] by simp_all
  have s: "same_but P w w1" "same_but P w w2" for P using m by (auto intro: same_but_mounts)
  show ?thesis
  proof (cases "\<exists>v p v' q. a = Inr (v, p) \<and> b = Inr (v', q)")
    case False
    then have "w' = w1 \<or> w' = w2" using assms(1) by (auto simp: fs_copy_def l1 l2 split: sum.splits prod.splits)
    with s show ?thesis by auto
  next
    case True
    then obtain v p v' q where ab: "a = Inr (v, p)" "b = Inr (v', q)" by blast
    have in2: "mounted_in w2 v" "mounted_in w2 v'"
      using locate_found(1) [OF l1 [unfolded ab(1)] assms(2)] locate_found(1) [OF l2 [unfolded ab(2)]] assms(2) m
      by (simp_all add: mounted_in_def)
    have cov: "covers_path dst (mount_of v')"
      using locate_found(2) [OF l2 [unfolded ab(2)]] assms(2) m by (simp add: covers_path_def)
    obtain w3 x where x: "(if skip then same_file_there S v p v' q w2 else (w2, False)) = (w3, x)" by fastforce
    have u3: "unchanged w2 w3" using x in2 by (auto split: if_splits intro: same_file_there_same)
    have "same_but (covers_path dst) w2 w'"
    proof (cases "mount_of v = mount_of v'")
      case False
      with assms(1) in2 cov show ?thesis by (auto simp: fs_copy_def l1 l2 ab intro: copy_elsewhere_same)
    next
      case True
      note eq = True
      have cv: "covers_path dst (mount_of v)" using cov True by simp
      show ?thesis
      proof (cases x)
        case True
        with assms(1) x eq u3 show ?thesis by (auto simp: fs_copy_def l1 l2 ab intro: same_but_mono)
      next
        case False
        from assms(1) obtain w4 e where c: "call_write (\<lambda>D st. Copy (siteEnv S) D lazy st p q) v w3 = Some (w4, e)"
          using x eq False by (auto simp: fs_copy_def l1 l2 ab split: option.splits)
        have u4: "same_but (covers_path dst) w3 w4"
          using call_write_same [OF c same_but_mounted [OF u3 in2(1)], of "covers_path dst"] cv by blast
        have u24: "same_but (covers_path dst) w2 w4" using unchanged_trans [OF u3 u4] .
        have "same_but (covers_path dst) w4 w'"
          using assms(1) x eq False c cov same_but_mounted [OF u24 in2(1)] same_but_mounted [OF u24 in2(2)]
          by (auto simp: fs_copy_def l1 l2 ab split: if_splits intro: copy_elsewhere_same)
        with u24 show ?thesis by (rule same_but_trans)
      qed
    qed
    with s(2) show ?thesis by (rule same_but_trans)
  qed
qed

section \<open>What a listing shows\<close>

definition hidden_patterns :: "site \<Rightarrow> User option \<Rightarrow> Meta option \<Rightarrow> string \<Rightarrow> string list" where
  "hidden_patterns S user meta path =
     (case meta of
        None \<Rightarrow> []
      | Some m \<Rightarrow> if whetherHide (roles S) user meta path then Split CHR 0x0A (Hide m) else [])"

lemma compile_all_set:
  "\<lbrakk>compile_all rx rs = Some fs; r \<in> set rs\<rbrakk> \<Longrightarrow> \<exists>f \<in> set fs. rx r = Some f"
  by (induction rs arbitrary: fs) (auto split: option.splits)

abbreviation merger :: "site \<Rightarrow> User option \<Rightarrow> Meta option \<Rightarrow> string \<Rightarrow> ObjMerge go" where
  "merger S user meta path \<equiv>
     (if whetherHide (roles S) user meta path
      then InitHideReg (regexs S) NewObjMerge (case meta of Some m \<Rightarrow> Hide m | None \<Rightarrow> []) else Some NewObjMerge)"

lemma fs_list_merged:
  assumes "fs_list S user meta w path refresh = Some (w', Inr objs)"
  shows "\<exists>om base. merger S user meta path = Some om
     \<and> objs = snd (Merge om base (GetStorageVirtualFilesByPath (mounts w) path))"
proof -
  obtain w1 found where l: "locate w path = (w1, found)" by fastforce
  show ?thesis
  proof (cases found)
    case (Inl e)
    with assms l show ?thesis by (auto simp: fs_list_def Let_def split: if_splits)
  next
    case (Inr vp)
    obtain v p where vp: "vp = (v, p)" by (cases vp)
    let ?args = "\<lparr>ReqPath = path, S3ShowPlaceholder = False, Refresh = refresh, NoUpdateIndex = False\<rparr>"
    obtain w2 out where c: "call_read (\<lambda>D st. List (siteEnv S) D st p ?args) v w1 = (w2, out)" by fastforce
    show ?thesis
      using assms by (cases out) (auto simp: fs_list_def Let_def l Inr vp c split: if_splits)
  qed
qed

lemma fs_list_visible:
  assumes "fs_list S user meta w path refresh = Some (w', Inr objs)"
  shows "distinct (map GetName objs)"
    and "\<lbrakk>ob \<in> set objs; h \<in> set (hidden_patterns S user meta path)\<rbrakk> \<Longrightarrow> \<exists>f. regexs S h = Some f \<and> \<not> f (GetName ob)"
proof -
  obtain om base where om: "merger S user meta path = Some om"
    "objs = snd (Merge om base (GetStorageVirtualFilesByPath (mounts w) path))"
    using fs_list_merged [OF assms] by blast
  show "distinct (map GetName objs)" by (simp add: om(2) Merge_firsts firsts_distinct)
  assume ob: "ob \<in> set objs" "h \<in> set (hidden_patterns S user meta path)"
  have "visible om x" if "x \<in> set (firsts (visible om) X obs)" for x X obs
    using that by (induction obs arbitrary: X) (auto split: if_splits)
  then have v: "visible om ob" using ob(1) by (simp add: om(2) Merge_firsts)
  from ob(2) obtain m where m: "meta = Some m" "whetherHide (roles S) user meta path" "h \<in> set (Split CHR 0x0A (Hide m))"
    by (auto simp: hidden_patterns_def split: option.splits if_splits)
  then obtain rs where rs: "compile_all (regexs S) (Split CHR 0x0A (Hide m)) = Some rs" "regs om = rs"
    using om(1) by (auto simp: InitHideReg_def NewObjMerge_def)
  from compile_all_set [OF rs(1) m(3)] obtain f where "regexs S h = Some f" "f \<in> set rs" by blast
  with v rs(2) show "\<exists>f. regexs S h = Some f \<and> \<not> f (GetName ob)" by (auto simp: visible_def)
qed

end
