(* ===== verification/MetaOps.thy ===== *)
theory MetaOps
  imports Perm
begin

text \<open>
  Settings of a path (\<^verbatim>\<open>internal/op/meta.go\<close>): password, hiding and write rules are rows of a table,
  found by path and inherited from the nearest row above a path.  Lookups go through a cache in which
  a path is absent, known to have no row (\<^verbatim>\<open>nil\<close>), or mapped to its row.  The rows are reached
  through \<^verbatim>\<open>gorm\<close>: the functions of \<open>meta_db\<close>, over a database state \<open>'b\<close>.  Entries of the cache
  may expire at any time.
\<close>

record 'b meta_db =
  dbGetMetaByPath :: "'b \<Rightarrow> string \<Rightarrow> err + Meta"
  dbGetMetaById :: "'b \<Rightarrow> nat \<Rightarrow> err + Meta"
  dbCreateMeta :: "'b \<Rightarrow> Meta \<Rightarrow> 'b \<times> err option"
  dbUpdateMeta :: "'b \<Rightarrow> Meta \<Rightarrow> 'b \<times> err option"
  dbDeleteMetaById :: "'b \<Rightarrow> nat \<Rightarrow> 'b \<times> err option"

type_synonym meta_cache = "string \<Rightarrow> Meta option option"

record 'b metas =
  metaTable :: 'b
  metaCache :: meta_cache

text \<open>How long a missing row is remembered, in nanoseconds, from the text of the setting.\<close>

definition defaultMetaNotFoundCacheSec :: int where
  "defaultMetaNotFoundCacheSec = 60"

definition metaNotFoundCacheExpiration :: "err + string option \<Rightarrow> int" where
  "metaNotFoundCacheExpiration item =
     (let default = wrap64 (1000000000 * defaultMetaNotFoundCacheSec)
      in case item of
           Inl e \<Rightarrow> default
         | Inr None \<Rightarrow> default
         | Inr (Some v) \<Rightarrow>
             (case ParseInt v of
                None \<Rightarrow> default
              | Some seconds \<Rightarrow> if seconds \<le> 0 then 0 else wrap64 (1000000000 * seconds)))"

definition getMetaByPath :: "'b meta_db \<Rightarrow> (err + string option) \<Rightarrow> 'b metas \<Rightarrow> string \<Rightarrow> 'b metas \<times> (err + Meta)" where
  "getMetaByPath M setting st path =
     (case metaCache st path of
        Some None \<Rightarrow> (st, Inl MetaNotFound)
      | Some (Some meta) \<Rightarrow> (st, Inr meta)
      | None \<Rightarrow>
          (case dbGetMetaByPath M (metaTable st) path of
             Inl e \<Rightarrow>
               if e = RecordNotFound then
                 (if metaNotFoundCacheExpiration setting > 0
                  then st\<lparr>metaCache := (metaCache st)(path \<mapsto> None)\<rparr> else st, Inl MetaNotFound)
               else (st, Inl e)
           | Inr meta \<Rightarrow> (st\<lparr>metaCache := (metaCache st)(path \<mapsto> Some meta)\<rparr>, Inr meta)))"

definition GetMetaByPath :: "'b meta_db \<Rightarrow> (err + string option) \<Rightarrow> 'b metas \<Rightarrow> string \<Rightarrow> 'b metas \<times> (err + Meta)" where
  "GetMetaByPath M setting st path = getMetaByPath M setting st (FixAndCleanPath path)"

text \<open>
  The recursion goes up one folder at a time and ends at the root.  It is called with clean paths
  only; on others \<^verbatim>\<open>path.Dir\<close> would end at \<^verbatim>\<open>.\<close> and the recursion would not, which the fuel shows.
\<close>

fun getNearestMeta ::
    "nat \<Rightarrow> 'b meta_db \<Rightarrow> (err + string option) \<Rightarrow> 'b metas \<Rightarrow> string \<Rightarrow> ('b metas \<times> (err + Meta)) go" where
  "getNearestMeta 0 M setting st path = panic"
| "getNearestMeta (Suc n) M setting st path =
     (case GetMetaByPath M setting st path of
        (st, Inr meta) \<Rightarrow> Some (st, Inr meta)
      | (st, Inl e) \<Rightarrow>
          if e \<noteq> MetaNotFound then Some (st, Inl e)
          else if path = ''/'' then Some (st, Inl MetaNotFound)
          else getNearestMeta n M setting st (path_Dir path))"

definition GetNearestMeta ::
    "'b meta_db \<Rightarrow> (err + string option) \<Rightarrow> 'b metas \<Rightarrow> string \<Rightarrow> ('b metas \<times> (err + Meta)) go" where
  "GetNearestMeta M setting st path =
     getNearestMeta (Suc (length (FixAndCleanPath path))) M setting st (FixAndCleanPath path)"

section \<open>Changes\<close>

text \<open>Each change has two steps, the first of which forgets what the cache knows.\<close>

definition forget_meta :: "string list \<Rightarrow> 'b metas \<Rightarrow> 'b metas" where
  "forget_meta ps st = st\<lparr>metaCache := (\<lambda>p. if p \<in> set ps then None else metaCache st p)\<rparr>"

definition DeleteMetaById :: "'b meta_db \<Rightarrow> 'b metas \<Rightarrow> nat \<Rightarrow> 'b metas \<times> err option" where
  "DeleteMetaById M st i =
     (case dbGetMetaById M (metaTable st) i of
        Inl e \<Rightarrow> (st, Some e)
      | Inr old \<Rightarrow>
          let st = forget_meta [MetaPath old] st; (db, e) = dbDeleteMetaById M (metaTable st) i
          in (st\<lparr>metaTable := db\<rparr>, e))"

definition UpdateMeta :: "'b meta_db \<Rightarrow> 'b metas \<Rightarrow> Meta \<Rightarrow> 'b metas \<times> err option" where
  "UpdateMeta M st u0 =
     (let u = u0\<lparr>MetaPath := FixAndCleanPath (MetaPath u0)\<rparr>
      in case dbGetMetaById M (metaTable st) (MetaID u) of
           Inl e \<Rightarrow> (st, Some e)
         | Inr old \<Rightarrow>
             let st = forget_meta [MetaPath old, MetaPath u] st; (db, e) = dbUpdateMeta M (metaTable st) u
             in (st\<lparr>metaTable := db\<rparr>, e))"

definition CreateMeta :: "'b meta_db \<Rightarrow> 'b metas \<Rightarrow> Meta \<Rightarrow> 'b metas \<times> err option" where
  "CreateMeta M st u0 =
     (let u = u0\<lparr>MetaPath := FixAndCleanPath (MetaPath u0)\<rparr>;
          st = forget_meta [MetaPath u] st; (db, e) = dbCreateMeta M (metaTable st) u
      in (st\<lparr>metaTable := db\<rparr>, e))"

section \<open>The cache agrees with the table\<close>

definition meta_coherent :: "'b meta_db \<Rightarrow> 'b metas \<Rightarrow> bool" where
  "meta_coherent M st \<longleftrightarrow>
     (\<forall>p v. metaCache st p = Some v
        \<longrightarrow> dbGetMetaByPath M (metaTable st) p = (case v of None \<Rightarrow> Inl RecordNotFound | Some meta \<Rightarrow> Inr meta))"

text \<open>
  What is assumed of the table: a change of one row, successful or not, leaves the rows at other
  paths alone, and the errors of the database are not the ones of the repository.
\<close>

definition meta_db_ok :: "'b meta_db \<Rightarrow> bool" where
  "meta_db_ok M \<longleftrightarrow>
     (\<forall>db p. dbGetMetaByPath M db p \<noteq> Inl MetaNotFound)
   \<and> (\<forall>db u p. p \<noteq> MetaPath u \<longrightarrow> dbGetMetaByPath M (fst (dbCreateMeta M db u)) p = dbGetMetaByPath M db p)
   \<and> (\<forall>db u old p. dbGetMetaById M db (MetaID u) = Inr old \<and> p \<noteq> MetaPath old \<and> p \<noteq> MetaPath u
        \<longrightarrow> dbGetMetaByPath M (fst (dbUpdateMeta M db u)) p = dbGetMetaByPath M db p)
   \<and> (\<forall>db i old p. dbGetMetaById M db i = Inr old \<and> p \<noteq> MetaPath old
        \<longrightarrow> dbGetMetaByPath M (fst (dbDeleteMetaById M db i)) p = dbGetMetaByPath M db p)"

definition row_at :: "'b meta_db \<Rightarrow> 'b \<Rightarrow> string list \<Rightarrow> err + Meta" where
  "row_at M db cs = (case dbGetMetaByPath M db (render cs) of
     Inl e \<Rightarrow> Inl (if e = RecordNotFound then MetaNotFound else e) | Inr meta \<Rightarrow> Inr meta)"

lemma GetMetaByPath_ok:
  assumes "meta_coherent M st"
  shows "\<exists>st'. GetMetaByPath M setting st p = (st', row_at M (metaTable st) (fcomps p))
     \<and> meta_coherent M st' \<and> metaTable st' = metaTable st"
proof -
  let ?p = "FixAndCleanPath p"
  have c: "dbGetMetaByPath M (metaTable st) ?p = (case v of None \<Rightarrow> Inl RecordNotFound | Some meta \<Rightarrow> Inr meta)"
    if "metaCache st ?p = Some v" for v
    using that assms by (simp add: meta_coherent_def)
  have u: "meta_coherent M (st\<lparr>metaCache := (metaCache st)(?p \<mapsto> v)\<rparr>)"
    if "dbGetMetaByPath M (metaTable st) ?p = (case v of None \<Rightarrow> Inl RecordNotFound | Some meta \<Rightarrow> Inr meta)" for v
    using that assms by (simp add: meta_coherent_def)
  show ?thesis
    unfolding GetMetaByPath_def getMetaByPath_def row_at_def FixAndCleanPath_render [symmetric]
    using c assms u by (auto split: option.splits sum.splits)
qed

text \<open>The nearest row, on component lists.\<close>

function nearest_row :: "'b meta_db \<Rightarrow> 'b \<Rightarrow> string list \<Rightarrow> err + Meta" where
  "nearest_row M db cs =
     (if row_at M db cs = Inl MetaNotFound \<and> cs \<noteq> [] then nearest_row M db (butlast cs) else row_at M db cs)"
  by pat_completeness auto
termination by (relation "measure (\<lambda>(M, db, cs). length cs)") auto

declare nearest_row.simps [simp del]

lemma getNearestMeta_ok:
  assumes "meta_coherent M st" "list_all fix_comp cs" "length cs < n"
  shows "\<exists>st'. getNearestMeta n M setting st (render cs) = Some (st', nearest_row M (metaTable st) cs)
     \<and> meta_coherent M st' \<and> metaTable st' = metaTable st"
  using assms
proof (induction n arbitrary: st cs)
  case (Suc n)
  obtain st' where st': "GetMetaByPath M setting st (render cs) = (st', row_at M (metaTable st) cs)"
    "meta_coherent M st'" "metaTable st' = metaTable st"
    using GetMetaByPath_ok [OF Suc.prems(1), of setting "render cs"] fcomps_render [OF Suc.prems(2)] by auto
  show ?case
  proof (cases "row_at M (metaTable st) cs = Inl MetaNotFound \<and> cs \<noteq> []")
    case False
    have "render cs = ''/'' \<longleftrightarrow> cs = []"
      using Suc.prems(2) render_inj [of cs "[]"] fix_valid by auto
    with False st' show ?thesis
      by (subst nearest_row.simps) (auto split: sum.splits)
  next
    case True
    have v: "list_all fix_comp (butlast cs)" using Suc.prems(2) by (auto simp: list_all_iff dest: in_set_butlastD)
    have "path_Dir (render cs) = render (butlast cs)"
      by (rule path_Dir_render_butlast [OF fix_valid [OF Suc.prems(2)]])
    moreover have "render cs \<noteq> ''/''"
      using True Suc.prems(2) render_inj [of cs "[]"] fix_valid by auto
    moreover have "length (butlast cs) < n" using True Suc.prems(3) by (cases cs rule: rev_cases) auto
    ultimately show ?thesis
      using Suc.IH [OF st'(2) v] True st' by (subst nearest_row.simps) auto
  qed
qed simp

lemma length_fcomps_render: "list_all valid_comp cs \<Longrightarrow> length cs < Suc (length (render cs))"
  by (induction cs rule: rev_induct) (auto simp: render_snoc)

lemma GetNearestMeta_ok:
  assumes "meta_coherent M st"
  shows "\<exists>st'. GetNearestMeta M setting st p = Some (st', nearest_row M (metaTable st) (fcomps p))
     \<and> meta_coherent M st' \<and> metaTable st' = metaTable st"
  unfolding GetNearestMeta_def FixAndCleanPath_render
  by (rule getNearestMeta_ok [OF assms fcomps_fix]) (rule length_fcomps_render [OF fcomps_valid])

lemma coherent_forget: "meta_coherent M st \<Longrightarrow> meta_coherent M (forget_meta ps st)"
  by (simp add: meta_coherent_def forget_meta_def)

lemma coherent_change:
  assumes "meta_coherent M st"
    and "\<And>p. p \<notin> set ps \<Longrightarrow> dbGetMetaByPath M db p = dbGetMetaByPath M (metaTable st) p"
  shows "meta_coherent M ((forget_meta ps st)\<lparr>metaTable := db\<rparr>)"
  using assms by (auto simp: meta_coherent_def forget_meta_def)

lemma changes_keep_coherent:
  assumes ok: "meta_db_ok M" and st: "meta_coherent M st"
  shows "meta_coherent M (fst (CreateMeta M st u))"
    and "meta_coherent M (fst (UpdateMeta M st u))"
    and "meta_coherent M (fst (DeleteMetaById M st i))"
proof -
  show "meta_coherent M (fst (CreateMeta M st u))"
    using ok unfolding CreateMeta_def meta_db_ok_def
    by (auto simp: Let_def split_beta forget_meta_def [of _ st, THEN arg_cong [of _ _ metaTable], simplified]
        intro!: coherent_change [OF st])
  show "meta_coherent M (fst (UpdateMeta M st u))"
    using ok st unfolding UpdateMeta_def meta_db_ok_def
    by (auto simp: Let_def split_beta forget_meta_def [of _ st, THEN arg_cong [of _ _ metaTable], simplified]
        split: sum.splits intro!: coherent_change [OF st])
  show "meta_coherent M (fst (DeleteMetaById M st i))"
    using ok st unfolding DeleteMetaById_def meta_db_ok_def
    by (auto simp: Let_def split_beta forget_meta_def [of _ st, THEN arg_cong [of _ _ metaTable], simplified]
        split: sum.splits intro!: coherent_change [OF st])
qed

section \<open>Any history\<close>

datatype meta_event =
    Lookup "err + string option" string
  | LookupNearest "err + string option" string
  | Create Meta
  | Update Meta
  | DeleteRow nat
  | Expire "string list"

fun meta_run :: "'b meta_db \<Rightarrow> 'b metas \<Rightarrow> meta_event \<Rightarrow> 'b metas" where
  "meta_run M st (Lookup setting p) = fst (GetMetaByPath M setting st p)"
| "meta_run M st (LookupNearest setting p) = (case GetNearestMeta M setting st p of None \<Rightarrow> st | Some (st, _) \<Rightarrow> st)"
| "meta_run M st (Create u) = fst (CreateMeta M st u)"
| "meta_run M st (Update u) = fst (UpdateMeta M st u)"
| "meta_run M st (DeleteRow i) = fst (DeleteMetaById M st i)"
| "meta_run M st (Expire ps) = forget_meta ps st"

lemma meta_run_coherent:
  "\<lbrakk>meta_db_ok M; meta_coherent M st\<rbrakk> \<Longrightarrow> meta_coherent M (meta_run M st e)"
proof (induction M st e rule: meta_run.induct)
  case (1 M st setting p)
  then show ?case using GetMetaByPath_ok [of M st setting p] by auto
next
  case (2 M st setting p)
  then show ?case using GetNearestMeta_ok [of M st setting p] by auto
qed (auto intro: changes_keep_coherent coherent_forget)

lemma meta_history_coherent:
  "\<lbrakk>meta_db_ok M; meta_coherent M st\<rbrakk> \<Longrightarrow> meta_coherent M (foldl (meta_run M) st es)"
  by (induction es arbitrary: st) (auto intro: meta_run_coherent)

lemma nearest_row_Inr:
  "nearest_row M db cs = Inr meta \<longleftrightarrow>
     (\<exists>ps. prefix ps cs \<and> row_at M db ps = Inr meta
        \<and> (\<forall>qs. strict_prefix ps qs \<and> prefix qs cs \<longrightarrow> row_at M db qs = Inl MetaNotFound))"
proof (induction "length cs" arbitrary: cs)
  case 0
  then show ?case by (subst nearest_row.simps) auto
next
  case (Suc n)
  then obtain ds d where cs: "cs = ds @ [d]" by (cases cs rule: rev_cases) auto
  have IH: "nearest_row M db ds = Inr meta \<longleftrightarrow>
     (\<exists>ps. prefix ps ds \<and> row_at M db ps = Inr meta
        \<and> (\<forall>qs. strict_prefix ps qs \<and> prefix qs ds \<longrightarrow> row_at M db qs = Inl MetaNotFound))"
    using Suc cs by simp
  show ?case
  proof (cases "row_at M db cs = Inl MetaNotFound")
    case True
    then have "nearest_row M db cs = nearest_row M db ds" by (subst nearest_row.simps) (simp add: cs)
    then have "nearest_row M db cs = Inr meta \<longleftrightarrow>
       (\<exists>ps. prefix ps ds \<and> row_at M db ps = Inr meta
          \<and> (\<forall>qs. strict_prefix ps qs \<and> prefix qs ds \<longrightarrow> row_at M db qs = Inl MetaNotFound))"
      by (simp add: IH)
    with True show ?thesis unfolding cs prefix_snoc by auto
  next
    case False
    then have "nearest_row M db cs = row_at M db cs" by (subst nearest_row.simps) simp
    then show ?thesis using False by (auto simp: strict_prefix_def)
  qed
qed

lemma nearest_row_none:
  "nearest_row M db cs = Inl MetaNotFound \<longleftrightarrow> (\<forall>ps. prefix ps cs \<longrightarrow> row_at M db ps = Inl MetaNotFound)"
proof (induction "length cs" arbitrary: cs)
  case 0
  then show ?case by (subst nearest_row.simps) auto
next
  case (Suc n)
  then obtain ds d where cs: "cs = ds @ [d]" by (cases cs rule: rev_cases) auto
  then show ?case using Suc by (subst nearest_row.simps) (auto simp: cs)
qed

text \<open>C17: The settings found for a path are the nearest ones. Whatever lookups and changes went before,
  failed or not, and whatever entries of the cache expired, \<^const>\<open>GetNearestMeta\<close> returns, leaves the
  table alone, and finds the row of the longest prefix of the path that has one; it answers that
  there is none exactly when no prefix has one.\<close>

theorem GetNearestMeta_after_any_history:
  assumes "meta_db_ok M" "metaCache st0 = (\<lambda>_. None)" "st = foldl (meta_run M) st0 es"
  shows "\<exists>st' r. GetNearestMeta M setting st path = Some (st', r) \<and> metaTable st' = metaTable st
     \<and> (\<forall>meta. r = Inr meta \<longleftrightarrow>
          (\<exists>ps. prefix ps (fcomps path) \<and> row_at M (metaTable st) ps = Inr meta
             \<and> (\<forall>qs. strict_prefix ps qs \<and> prefix qs (fcomps path) \<longrightarrow> row_at M (metaTable st) qs = Inl MetaNotFound)))
     \<and> (r = Inl MetaNotFound \<longleftrightarrow>
          (\<forall>ps. prefix ps (fcomps path) \<longrightarrow> row_at M (metaTable st) ps = Inl MetaNotFound))"
proof -
  have "meta_coherent M st0" using assms(2) by (simp add: meta_coherent_def)
  then have "meta_coherent M st" using meta_history_coherent [OF assms(1)] assms(3) by blast
  from GetNearestMeta_ok [OF this, of setting path] obtain st' where
    "GetNearestMeta M setting st path = Some (st', nearest_row M (metaTable st) (fcomps path))"
    "metaTable st' = metaTable st" by blast
  then show ?thesis
    by (intro exI [of _ st'] exI [of _ "nearest_row M (metaTable st) (fcomps path)"])
      (simp add: nearest_row_Inr nearest_row_none)
qed

text \<open>A table kept as a list of rows, for the witnesses.\<close>

fun save_row :: "Meta \<Rightarrow> Meta list \<Rightarrow> Meta list" where
  "save_row u [] = []"
| "save_row u (m # ms) = (if MetaID m = MetaID u then u # ms else m # save_row u ms)"

fun delete_row :: "nat \<Rightarrow> Meta list \<Rightarrow> Meta list" where
  "delete_row i [] = []"
| "delete_row i (m # ms) = (if MetaID m = i then ms else m # delete_row i ms)"

definition one_of :: "Meta option \<Rightarrow> err + Meta" where
  "one_of r = (case r of None \<Rightarrow> Inl RecordNotFound | Some m \<Rightarrow> Inr m)"

definition row_db :: "Meta list meta_db" where
  "row_db = \<lparr>dbGetMetaByPath = (\<lambda>ms p. one_of (find (\<lambda>m. MetaPath m = p) ms)),
     dbGetMetaById = (\<lambda>ms i. one_of (find (\<lambda>m. MetaID m = i) ms)),
     dbCreateMeta = (\<lambda>ms u. (ms @ [u], None)), dbUpdateMeta = (\<lambda>ms u. (save_row u ms, None)),
     dbDeleteMetaById = (\<lambda>ms i. (delete_row i ms, None))\<rparr>"

lemma row_db_ok: "meta_db_ok row_db"
proof -
  have c: "p \<noteq> MetaPath u \<Longrightarrow> find (\<lambda>m. MetaPath m = p) (ms @ [u]) = find (\<lambda>m. MetaPath m = p) ms" for p u ms
    by (induction ms) auto
  have u: "find (\<lambda>m. MetaID m = MetaID u) ms = Some old \<Longrightarrow> p \<noteq> MetaPath old \<Longrightarrow> p \<noteq> MetaPath u
      \<Longrightarrow> find (\<lambda>m. MetaPath m = p) (save_row u ms) = find (\<lambda>m. MetaPath m = p) ms" for p u ms old
    by (induction ms) (auto split: if_splits)
  have d: "find (\<lambda>m. MetaID m = i) ms = Some old \<Longrightarrow> p \<noteq> MetaPath old
      \<Longrightarrow> find (\<lambda>m. MetaPath m = p) (delete_row i ms) = find (\<lambda>m. MetaPath m = p) ms" for p i ms old
    by (induction ms) (auto split: if_splits)
  show ?thesis
    unfolding meta_db_ok_def row_db_def by (auto simp: one_of_def c split: option.splits dest: u d)
qed

theorem GetNearestMeta_after_any_history_witness:
  "\<exists>st'. GetNearestMeta row_db (Inr None)
      (foldl (meta_run row_db) \<lparr>metaTable = [], metaCache = (\<lambda>_. None)\<rparr>
        [Lookup (Inr None) ''/a'', Create (pw_meta ''a''), Lookup (Inr None) ''/a'']) ''/a/b/../c'' = Some (st', Inr (pw_meta ''/a''))"
proof -
  let ?es = "[Lookup (Inr None) ''/a'', Create (pw_meta ''a''), Lookup (Inr None) ''/a'']"
  let ?st = "foldl (meta_run row_db) \<lparr>metaTable = [], metaCache = (\<lambda>_. None)\<rparr> ?es"
  obtain st' r where r: "GetNearestMeta row_db (Inr None) ?st ''/a/b/../c'' = Some (st', r)"
    "\<forall>meta. r = Inr meta \<longleftrightarrow>
          (\<exists>ps. prefix ps (fcomps ''/a/b/../c'') \<and> row_at row_db (metaTable ?st) ps = Inr meta
             \<and> (\<forall>qs. strict_prefix ps qs \<and> prefix qs (fcomps ''/a/b/../c'') \<longrightarrow> row_at row_db (metaTable ?st) qs = Inl MetaNotFound))"
    using GetNearestMeta_after_any_history [OF row_db_ok _ refl, of "\<lparr>metaTable = [], metaCache = (\<lambda>_. None)\<rparr>" "Inr None" ?es "''/a/b/../c''"]
    by auto
  have c: "fcomps ''/a/b/../c'' = [''a'', ''c'']" by code_simp
  have t: "metaTable ?st = [pw_meta ''/a'']" by code_simp
  have a: "row_at row_db [pw_meta ''/a''] [''a''] = Inr (pw_meta ''/a'')"
    "row_at row_db [pw_meta ''/a''] [''a'', ''c''] = Inl MetaNotFound" by code_simp+
  have "r = Inr (pw_meta ''/a'')"
    unfolding r(2) [rule_format] c t using a
    by (intro exI [of _ "[''a'']"]) (auto simp: prefix_Cons strict_prefix_def)
  with r(1) show ?thesis by blast
qed

text \<open>
  Two steps of a change are not one: a lookup between forgetting and storing brings the old row back
  into the cache, where it stays after the change.
\<close>

lemma lookup_between_steps_keeps_old_row:
  assumes "dbGetMetaByPath M (metaTable st) (FixAndCleanPath p) = Inr old"
    and "st1 = fst (GetMetaByPath M setting (forget_meta [FixAndCleanPath p] st) p)"
    and "st2 = st1\<lparr>metaTable := fst (dbUpdateMeta M (metaTable st1) u)\<rparr>"
  shows "snd (GetMetaByPath M setting st2 p) = Inr old"
  using assms by (simp add: GetMetaByPath_def getMetaByPath_def forget_meta_def)

end
