(* ===== verification/FsManage.thy ===== *)
theory FsManage
  imports Vfs MetaOps
begin

text \<open>
  The requests that change files (\<^verbatim>\<open>server/handles/fsmanage.go\<close>, \<^verbatim>\<open>server/handles/fsbatch.go\<close>): each
  joins the requested path to the base path of the user, checks the limits and the permission of the
  user there, and calls the virtual file system.  A handler returns the code of its response; 200 is
  success.  Binding the request to its fields is done by the web framework.  \<^verbatim>\<open>None\<close> is a panic or a
  loop that does not end.
\<close>

section \<open>State and surroundings\<close>

record ('s, 'b) world =
  tree :: "'s vfs"
  rules :: "'b metas"

record 'b api =
  theSite :: site
  metaDb :: "'b meta_db"
  notFoundSetting :: "err + string option"
  seekable :: "Obj \<Rightarrow> Link \<Rightarrow> err + FileStream"
  compile :: "string \<Rightarrow> ((string \<Rightarrow> bool) \<times> (string \<Rightarrow> string \<Rightarrow> string)) option"

type_synonym ('s, 'b) response = "(('s, 'b) world \<times> int) go"

abbreviation perm_at :: "'b api \<Rightarrow> User \<Rightarrow> string \<Rightarrow> nat \<Rightarrow> bool" where
  "perm_at A u path b \<equiv> HasPermission (MergeRolePermissions (roles (theSite A)) (Some u) path) b"

definition on_tree :: "('s vfs \<Rightarrow> ('s vfs \<times> 'r) go) \<Rightarrow> ('s, 'b) world \<Rightarrow> (('s, 'b) world \<times> 'r) go" where
  "on_tree f w = map_option (\<lambda>(t, r). (w\<lparr>tree := t\<rparr>, r)) (f (tree w))"

text \<open>The settings nearest to a path; no settings is not an error for the handlers.\<close>

definition nearest :: "'b api \<Rightarrow> ('s, 'b) world \<Rightarrow> string \<Rightarrow> (('s, 'b) world \<times> (err + Meta option)) go" where
  "nearest A w path =
     (case GetNearestMeta (metaDb A) (notFoundSetting A) (rules w) path of
        None \<Rightarrow> panic
      | Some (m, Inr meta) \<Rightarrow> Some (w\<lparr>rules := m\<rparr>, Inr (Some meta))
      | Some (m, Inl e) \<Rightarrow> Some (w\<lparr>rules := m\<rparr>, if e = MetaNotFound then Inr None else Inl e))"

text \<open>The first steps of every handler: the path of the user and the limits of its roles.\<close>

definition user_path :: "'b api \<Rightarrow> User \<Rightarrow> string \<Rightarrow> string option" where
  "user_path A u path =
     (case JoinPath (roles (theSite A)) u path of
        Inl e \<Rightarrow> None
      | Inr p \<Rightarrow> if CheckPathLimitWithRoles (roles (theSite A)) (Some u) p then Some p else None)"

definition status :: "err option \<Rightarrow> int" where
  "status e = (case e of None \<Rightarrow> 200 | Some _ \<Rightarrow> 500)"

definition reply :: "(('s, 'b) world \<times> err option) go \<Rightarrow> ('s, 'b) response" where
  "reply r = map_option (\<lambda>(w, e). (w, status e)) r"

section \<open>Single operations\<close>

definition FsMkdir :: "'b api \<Rightarrow> User \<Rightarrow> string \<Rightarrow> ('s, 'b) world \<Rightarrow> ('s, 'b) response" where
  "FsMkdir A user path w =
     (case user_path A user path of
        None \<Rightarrow> Some (w, 403)
      | Some reqPath \<Rightarrow>
          let make = (\<lambda>w. reply (on_tree (\<lambda>t. fs_makeDir (theSite A) False t reqPath) w))
          in if perm_at A user reqPath PermWrite then make w
             else case nearest A w (path_Dir reqPath) of
                    None \<Rightarrow> panic
                  | Some (w, Inl e) \<Rightarrow> Some (w, 500)
                  | Some (w, Inr meta) \<Rightarrow> if CanWrite meta reqPath then make w else Some (w, 403))"

text \<open>No object of the given names exists in a directory yet: the code to answer otherwise.\<close>

fun names_free :: "site \<Rightarrow> string \<Rightarrow> string list \<Rightarrow> 's vfs \<Rightarrow> 's vfs \<times> int option" where
  "names_free S dir [] t = (t, None)"
| "names_free S dir (name # nms) t =
     (case JoinUnderBase dir name of
        Inl e \<Rightarrow> (t, Some 400)
      | Inr path \<Rightarrow>
          (case fs_get S t path of
             (t, Inr _) \<Rightarrow> (t, Some 403)
           | (t, Inl _) \<Rightarrow> names_free S dir nms t))"

fun move_names :: "site \<Rightarrow> string \<Rightarrow> string \<Rightarrow> string list \<Rightarrow> 's vfs \<Rightarrow> ('s vfs \<times> int) go" where
  "move_names S srcDir dstDir [] t = Some (t, 200)"
| "move_names S srcDir dstDir (name # nms) t =
     (case (JoinUnderBase srcDir name, JoinUnderBase dstDir name) of
        (Inr srcPath, Inr _) \<Rightarrow>
          (case fs_move S (nms \<noteq> []) t srcPath dstDir of
             None \<Rightarrow> panic
           | Some (t, Some e) \<Rightarrow> Some (t, 500)
           | Some (t, None) \<Rightarrow> move_names S srcDir dstDir nms t)
      | _ \<Rightarrow> Some (t, 400))"

definition FsMove :: "'b api \<Rightarrow> User \<Rightarrow> string \<Rightarrow> string \<Rightarrow> string list \<Rightarrow> bool \<Rightarrow> ('s, 'b) world \<Rightarrow> ('s, 'b) response" where
  "FsMove A user src dst nms overwrite w =
     (if nms = [] then Some (w, 400)
      else case (user_path A user src, user_path A user dst) of
             (Some srcDir, Some dstDir) \<Rightarrow>
               if \<not> perm_at A user srcDir PermMove then Some (w, 403)
               else on_tree (\<lambda>t. case (if overwrite then (t, None) else names_free (theSite A) dstDir nms t) of
                                    (t, Some code) \<Rightarrow> Some (t, code)
                                  | (t, None) \<Rightarrow> move_names (theSite A) srcDir dstDir nms t) w
           | _ \<Rightarrow> Some (w, 403))"

fun copy_names ::
    "'b api \<Rightarrow> User \<Rightarrow> bool \<Rightarrow> string \<Rightarrow> string \<Rightarrow> string list \<Rightarrow> 's vfs \<Rightarrow> ('s vfs \<times> int) go" where
  "copy_names A user skip srcDir dstDir [] t = Some (t, 200)"
| "copy_names A user skip srcDir dstDir (name # nms) t =
     (case (JoinUnderBase srcDir name, JoinUnderBase dstDir name) of
        (Inr srcPath, Inr _) \<Rightarrow>
          (case fs_copy (theSite A) (seekable A) (Some user) False skip (nms \<noteq> []) t srcPath dstDir of
             None \<Rightarrow> panic
           | Some (t, _, Some e) \<Rightarrow> Some (t, 500)
           | Some (t, _, None) \<Rightarrow> copy_names A user skip srcDir dstDir nms t)
      | _ \<Rightarrow> Some (t, 400))"

definition FsCopy ::
    "'b api \<Rightarrow> User \<Rightarrow> string \<Rightarrow> string \<Rightarrow> string list \<Rightarrow> bool \<Rightarrow> bool \<Rightarrow> ('s, 'b) world \<Rightarrow> ('s, 'b) response" where
  "FsCopy A user src dst nms overwrite skip w =
     (if nms = [] then Some (w, 400)
      else case (user_path A user src, user_path A user dst) of
             (Some srcDir, Some dstDir) \<Rightarrow>
               if \<not> perm_at A user srcDir PermCopy then Some (w, 403)
               else on_tree (\<lambda>t. case (if overwrite \<or> skip then (t, None) else names_free (theSite A) dstDir nms t) of
                                    (t, Some code) \<Rightarrow> Some (t, code)
                                  | (t, None) \<Rightarrow> copy_names A user skip srcDir dstDir nms t) w
           | _ \<Rightarrow> Some (w, 403))"

text \<open>A path that a password protects cannot be renamed: the code to answer then.\<close>

definition canRenamePath :: "'b api \<Rightarrow> string \<Rightarrow> ('s, 'b) world \<Rightarrow> (('s, 'b) world \<times> int option) go" where
  "canRenamePath A reqPath w =
     (case nearest A w reqPath of
        None \<Rightarrow> panic
      | Some (w, Inl e) \<Rightarrow> Some (w, Some 500)
      | Some (w, Inr None) \<Rightarrow> Some (w, None)
      | Some (w, Inr (Some meta)) \<Rightarrow>
          Some (w, if MetaPassword meta \<noteq> [] \<and> IsApply (MetaPath meta) reqPath (PSub meta) then Some 403 else None))"

definition rename_free :: "site \<Rightarrow> string \<Rightarrow> string \<Rightarrow> 's vfs \<Rightarrow> 's vfs \<times> int option" where
  "rename_free S reqPath name t =
     (case JoinUnderBase (path_Dir reqPath) name of
        Inl e \<Rightarrow> (t, Some 400)
      | Inr dstPath \<Rightarrow>
          if dstPath = reqPath then (t, None)
          else case fs_get S t dstPath of (t, Inr _) \<Rightarrow> (t, Some 403) | (t, Inl _) \<Rightarrow> (t, None))"

definition FsRename :: "'b api \<Rightarrow> User \<Rightarrow> string \<Rightarrow> string \<Rightarrow> bool \<Rightarrow> ('s, 'b) world \<Rightarrow> ('s, 'b) response" where
  "FsRename A user path name overwrite w =
     (case user_path A user path of
        None \<Rightarrow> Some (w, 403)
      | Some reqPath \<Rightarrow>
          (case canRenamePath A reqPath w of
             None \<Rightarrow> panic
           | Some (w, Some code) \<Rightarrow> Some (w, code)
           | Some (w, None) \<Rightarrow>
               if \<not> perm_at A user reqPath PermRename then Some (w, 403)
               else if ValidateNameComponent name \<noteq> None then Some (w, 400)
               else on_tree (\<lambda>t. case (if overwrite then (t, None) else rename_free (theSite A) reqPath name t) of
                                    (t, Some code) \<Rightarrow> Some (t, code)
                                  | (t, None) \<Rightarrow> map_option (\<lambda>(t, e). (t, status e)) (fs_rename (theSite A) False t reqPath name)) w))"

fun remove_names :: "site \<Rightarrow> string \<Rightarrow> string list \<Rightarrow> 's vfs \<Rightarrow> ('s vfs \<times> int) go" where
  "remove_names S dir [] t = Some (t, 200)"
| "remove_names S dir (name # nms) t =
     (case JoinUnderBase dir name of
        Inl e \<Rightarrow> Some (t, 400)
      | Inr path \<Rightarrow>
          (case fs_remove S t path of
             None \<Rightarrow> panic
           | Some (t, Some e) \<Rightarrow> Some (t, 500)
           | Some (t, None) \<Rightarrow> remove_names S dir nms t))"

definition FsRemove :: "'b api \<Rightarrow> User \<Rightarrow> string \<Rightarrow> string list \<Rightarrow> ('s, 'b) world \<Rightarrow> ('s, 'b) response" where
  "FsRemove A user dir nms w =
     (if nms = [] then Some (w, 400)
      else case user_path A user dir of
             None \<Rightarrow> Some (w, 403)
           | Some reqDir \<Rightarrow>
               if \<not> perm_at A user reqDir PermRemove then Some (w, 403)
               else on_tree (remove_names (theSite A) reqDir nms) w)"

section \<open>Batches\<close>

fun rename_batch :: "'b api \<Rightarrow> string \<Rightarrow> (string \<times> string) list \<Rightarrow> ('s, 'b) world \<Rightarrow> ('s, 'b) response" where
  "rename_batch A reqPath [] w = Some (w, 200)"
| "rename_batch A reqPath ((srcName, newName) # rs) w =
     (if srcName = [] \<or> newName = [] then rename_batch A reqPath rs w
      else if ValidateNameComponent newName \<noteq> None then Some (w, 400)
      else case JoinUnderBase reqPath srcName of
             Inl e \<Rightarrow> Some (w, 400)
           | Inr filePath \<Rightarrow>
               (case canRenamePath A filePath w of
                  None \<Rightarrow> panic
                | Some (w, Some code) \<Rightarrow> Some (w, code)
                | Some (w, None) \<Rightarrow>
                    (case on_tree (\<lambda>t. fs_rename (theSite A) False t filePath newName) w of
                       None \<Rightarrow> panic
                     | Some (w, Some e) \<Rightarrow> Some (w, 500)
                     | Some (w, None) \<Rightarrow> rename_batch A reqPath rs w)))"

definition FsBatchRename :: "'b api \<Rightarrow> User \<Rightarrow> string \<Rightarrow> (string \<times> string) list \<Rightarrow> ('s, 'b) world \<Rightarrow> ('s, 'b) response" where
  "FsBatchRename A user srcDir renameObjects w =
     (case user_path A user srcDir of
        None \<Rightarrow> Some (w, 403)
      | Some reqPath \<Rightarrow>
          if \<not> perm_at A user reqPath PermRename then Some (w, 403)
          else case nearest A w reqPath of
                 None \<Rightarrow> panic
               | Some (w, Inl e) \<Rightarrow> Some (w, 500)
               | Some (w, Inr meta) \<Rightarrow> rename_batch A reqPath renameObjects w)"

fun rename_matching ::
    "'b api \<Rightarrow> string \<Rightarrow> (string \<Rightarrow> bool) \<Rightarrow> (string \<Rightarrow> string) \<Rightarrow> Obj list \<Rightarrow> ('s, 'b) world \<Rightarrow> ('s, 'b) response" where
  "rename_matching A reqPath matches replacement [] w = Some (w, 200)"
| "rename_matching A reqPath matches replacement (file # files) w =
     (if \<not> matches (GetName file) then rename_matching A reqPath matches replacement files w
      else case JoinUnderBase reqPath (GetName file) of
             Inl e \<Rightarrow> Some (w, 500)
           | Inr filePath \<Rightarrow>
               (case canRenamePath A filePath w of
                  None \<Rightarrow> panic
                | Some (w, Some code) \<Rightarrow> Some (w, code)
                | Some (w, None) \<Rightarrow>
                    let newFileName = replacement (GetName file)
                    in if ValidateNameComponent newFileName \<noteq> None then Some (w, 400)
                       else case on_tree (\<lambda>t. fs_rename (theSite A) False t filePath newFileName) w of
                              None \<Rightarrow> panic
                            | Some (w, Some e) \<Rightarrow> Some (w, 500)
                            | Some (w, None) \<Rightarrow> rename_matching A reqPath matches replacement files w))"

definition FsRegexRename :: "'b api \<Rightarrow> User \<Rightarrow> string \<Rightarrow> string \<Rightarrow> string \<Rightarrow> ('s, 'b) world \<Rightarrow> ('s, 'b) response" where
  "FsRegexRename A user srcDir srcNameRegex newNameRegex w =
     (case user_path A user srcDir of
        None \<Rightarrow> Some (w, 403)
      | Some reqPath \<Rightarrow>
          if \<not> perm_at A user reqPath PermRename then Some (w, 403)
          else case nearest A w reqPath of
                 None \<Rightarrow> panic
               | Some (w, Inl e) \<Rightarrow> Some (w, 500)
               | Some (w, Inr meta) \<Rightarrow>
                   (case compile A srcNameRegex of
                      None \<Rightarrow> Some (w, 500)
                    | Some (matches, replaceAll) \<Rightarrow>
                        (case on_tree (\<lambda>t. fs_list (theSite A) (Some user) meta t reqPath False) w of
                           None \<Rightarrow> panic
                         | Some (w, Inl e) \<Rightarrow> Some (w, 500)
                         | Some (w, Inr files) \<Rightarrow>
                             rename_matching A reqPath matches (\<lambda>n. replaceAll n newNameRegex) files w)))"

text \<open>
  The queue of folders to look at.  The handler keeps the directory and the parent of an object in
  maps keyed by the object; here an entry of the queue carries them.
\<close>

datatype item = Item (itemObj: Obj) (itemDir: string) (itemParent: "item option")

definition item_path :: "item \<Rightarrow> string" where
  "item_path it = itemDir it @ ''/'' @ GetName (itemObj it)"

fun remove_empty ::
    "nat \<Rightarrow> site \<Rightarrow> User \<Rightarrow> Meta option \<Rightarrow> string set \<Rightarrow> item list \<Rightarrow> 's vfs \<Rightarrow> ('s vfs \<times> int) go" where
  "remove_empty 0 S user meta removed q t = panic"
| "remove_empty (Suc n) S user meta removed [] t = Some (t, 200)"
| "remove_empty (Suc n) S user meta removed (it # q) t =
     (let path = item_path it
      in if path \<in> removed then remove_empty n S user meta removed q t
         else case fs_list S (Some user) meta t path True of
                None \<Rightarrow> panic
              | Some (t, Inl e) \<Rightarrow> Some (t, 500)
              | Some (t, Inr subFiles) \<Rightarrow>
                  if subFiles = [] then
                    (case fs_remove S t path of
                       None \<Rightarrow> panic
                     | Some (t, Some e) \<Rightarrow> Some (t, 500)
                     | Some (t, None) \<Rightarrow>
                         remove_empty n S user meta (insert path removed)
                           (q @ (case itemParent it of None \<Rightarrow> [] | Some parent \<Rightarrow> [parent])) t)
                  else remove_empty n S user meta removed
                         (q @ map (\<lambda>f. Item f path (Some it)) (filter IsDir subFiles)) t)"

definition FsRemoveEmptyDirectory :: "nat \<Rightarrow> 'b api \<Rightarrow> User \<Rightarrow> string \<Rightarrow> ('s, 'b) world \<Rightarrow> ('s, 'b) response" where
  "FsRemoveEmptyDirectory fuel A user dir w =
     (case user_path A user dir of
        None \<Rightarrow> Some (w, 403)
      | Some srcDir \<Rightarrow>
          if \<not> perm_at A user srcDir PermRemove then Some (w, 403)
          else case nearest A w srcDir of
                 None \<Rightarrow> panic
               | Some (w, Inl e) \<Rightarrow> Some (w, 500)
               | Some (w, Inr meta) \<Rightarrow>
                   (case on_tree (\<lambda>t. fs_list (theSite A) (Some user) meta t srcDir False) w of
                      None \<Rightarrow> panic
                    | Some (w, Inl e) \<Rightarrow> Some (w, 500)
                    | Some (w, Inr rootFiles) \<Rightarrow>
                        on_tree (remove_empty fuel (theSite A) user meta {}
                          (map (\<lambda>f. Item f srcDir None) (filter IsDir rootFiles))) w))"

text \<open>Which files a recursive move takes: the code to answer, or their paths.\<close>

fun collect_moves ::
    "nat \<Rightarrow> site \<Rightarrow> User \<Rightarrow> Meta option \<Rightarrow> string \<Rightarrow> string \<Rightarrow> string list \<Rightarrow> string list \<Rightarrow> (Obj \<times> string) list \<Rightarrow> 's vfs
      \<Rightarrow> ('s vfs \<times> (int + string list)) go" where
  "collect_moves 0 S user meta policy dstDir existing moving q t = panic"
| "collect_moves (Suc n) S user meta policy dstDir existing moving [] t = Some (t, Inr moving)"
| "collect_moves (Suc n) S user meta policy dstDir existing moving ((file, dir) # q) t =
     (let path = dir @ ''/'' @ GetName file
      in if IsDir file then
           (case fs_list S (Some user) meta t path True of
              None \<Rightarrow> panic
            | Some (t, Inl e) \<Rightarrow> Some (t, Inl 500)
            | Some (t, Inr subFiles) \<Rightarrow>
                collect_moves n S user meta policy dstDir existing moving (q @ map (\<lambda>f. (f, path)) subFiles) t)
         else if dir = dstDir then collect_moves n S user meta policy dstDir existing moving q t
         else if GetName file \<in> set existing then
           (if policy = ''cancel'' then Some (t, Inl 403)
            else if policy = ''skip'' then collect_moves n S user meta policy dstDir existing moving q t
            else collect_moves n S user meta policy dstDir existing (moving @ [path]) q t)
         else collect_moves n S user meta policy dstDir
                (if policy \<noteq> ''overwrite'' then existing @ [GetName file] else existing) (moving @ [path]) q t)"

fun move_paths :: "site \<Rightarrow> string \<Rightarrow> string list \<Rightarrow> 's vfs \<Rightarrow> ('s vfs \<times> int) go" where
  "move_paths S dstDir [] t = Some (t, 200)"
| "move_paths S dstDir (path # ps) t =
     (case fs_move S (ps \<noteq> []) t path dstDir of
        None \<Rightarrow> panic
      | Some (t, Some e) \<Rightarrow> Some (t, 500)
      | Some (t, None) \<Rightarrow> move_paths S dstDir ps t)"

definition FsRecursiveMove :: "nat \<Rightarrow> 'b api \<Rightarrow> User \<Rightarrow> string \<Rightarrow> string \<Rightarrow> string \<Rightarrow> ('s, 'b) world \<Rightarrow> ('s, 'b) response" where
  "FsRecursiveMove fuel A user src dst policy w =
     (case (user_path A user src, user_path A user dst) of
        (Some srcDir, Some dstDir) \<Rightarrow>
          if \<not> perm_at A user srcDir PermMove then Some (w, 403)
          else
            (case nearest A w srcDir of
               None \<Rightarrow> panic
             | Some (w, Inl e) \<Rightarrow> Some (w, 500)
             | Some (w, Inr meta) \<Rightarrow>
                 on_tree (\<lambda>t.
                   case fs_list (theSite A) (Some user) meta t srcDir False of
                     None \<Rightarrow> panic
                   | Some (t, Inl e) \<Rightarrow> Some (t, 500)
                   | Some (t, Inr rootFiles) \<Rightarrow>
                       (case (if policy \<noteq> ''overwrite''
                              then map_option (\<lambda>(t, r). (t, map_sum id (map GetName) r))
                                     (fs_list (theSite A) (Some user) meta t dstDir False)
                              else Some (t, Inr [])) of
                          None \<Rightarrow> panic
                        | Some (t, Inl e) \<Rightarrow> Some (t, 500)
                        | Some (t, Inr existing) \<Rightarrow>
                            (case collect_moves fuel (theSite A) user meta policy dstDir existing []
                                    (map (\<lambda>f. (f, srcDir)) rootFiles) t of
                               None \<Rightarrow> panic
                             | Some (t, Inl code) \<Rightarrow> Some (t, code)
                             | Some (t, Inr moving) \<Rightarrow> move_paths (theSite A) dstDir moving t))) w)
      | _ \<Rightarrow> Some (w, 403))"

section \<open>Requests\<close>

datatype request =
    Mkdir string
  | MoveReq string string "string list" bool
  | CopyReq string string "string list" bool bool
  | RenameReq string string bool
  | RemoveReq string "string list"
  | RemoveEmptyDirectory string
  | BatchRename string "(string \<times> string) list"
  | RegexRename string string string
  | RecursiveMove string string string

fun handle :: "nat \<Rightarrow> 'b api \<Rightarrow> User \<Rightarrow> request \<Rightarrow> ('s, 'b) world \<Rightarrow> ('s, 'b) response" where
  "handle fuel A user (Mkdir path) w = FsMkdir A user path w"
| "handle fuel A user (MoveReq src dst ns overwrite) w = FsMove A user src dst ns overwrite w"
| "handle fuel A user (CopyReq src dst ns overwrite skip) w = FsCopy A user src dst ns overwrite skip w"
| "handle fuel A user (RenameReq path name overwrite) w = FsRename A user path name overwrite w"
| "handle fuel A user (RemoveReq dir ns) w = FsRemove A user dir ns w"
| "handle fuel A user (RemoveEmptyDirectory dir) w = FsRemoveEmptyDirectory fuel A user dir w"
| "handle fuel A user (BatchRename dir rs) w = FsBatchRename A user dir rs w"
| "handle fuel A user (RegexRename dir src new) w = FsRegexRename A user dir src new w"
| "handle fuel A user (RecursiveMove src dst policy) w = FsRecursiveMove fuel A user src dst policy w"

section \<open>Permission\<close>

text \<open>What a user must hold for a request to be carried out.\<close>

definition holds :: "'b api \<Rightarrow> User \<Rightarrow> string \<Rightarrow> nat \<Rightarrow> bool" where
  "holds A user path b \<longleftrightarrow> (case user_path A user path of None \<Rightarrow> False | Some p \<Rightarrow> perm_at A user p b)"

fun allowed :: "'b api \<Rightarrow> User \<Rightarrow> ('s, 'b) world \<Rightarrow> request \<Rightarrow> bool" where
  "allowed A user w (Mkdir path) \<longleftrightarrow>
     (case user_path A user path of
        None \<Rightarrow> False
      | Some p \<Rightarrow> perm_at A user p PermWrite
          \<or> (case nearest A w (path_Dir p) of Some (_, Inr meta) \<Rightarrow> CanWrite meta p | _ \<Rightarrow> False))"
| "allowed A user w (MoveReq src dst ns overwrite) \<longleftrightarrow> holds A user src PermMove \<and> user_path A user dst \<noteq> None"
| "allowed A user w (CopyReq src dst ns overwrite skip) \<longleftrightarrow> holds A user src PermCopy \<and> user_path A user dst \<noteq> None"
| "allowed A user w (RenameReq path name overwrite) \<longleftrightarrow> holds A user path PermRename"
| "allowed A user w (RemoveReq dir ns) \<longleftrightarrow> holds A user dir PermRemove"
| "allowed A user w (RemoveEmptyDirectory dir) \<longleftrightarrow> holds A user dir PermRemove"
| "allowed A user w (BatchRename dir rs) \<longleftrightarrow> holds A user dir PermRename"
| "allowed A user w (RegexRename dir src new) \<longleftrightarrow> holds A user dir PermRename"
| "allowed A user w (RecursiveMove src dst policy) \<longleftrightarrow> holds A user src PermMove \<and> user_path A user dst \<noteq> None"

lemma nearest_ok:
  assumes "meta_coherent (metaDb A) (rules w)"
  shows "\<exists>w' r. nearest A w path = Some (w', r) \<and> tree w' = tree w \<and> meta_coherent (metaDb A) (rules w')"
  using GetNearestMeta_ok [OF assms, of "notFoundSetting A" path] by (auto simp: nearest_def split: sum.splits)

lemma canRenamePath_ok:
  assumes "meta_coherent (metaDb A) (rules w)"
  shows "\<exists>w' r. canRenamePath A path w = Some (w', r) \<and> tree w' = tree w \<and> r \<in> {None, Some 403, Some 500}"
  using nearest_ok [OF assms, of path] by (auto simp: canRenamePath_def split: sum.splits option.splits)

text \<open>C18: A request of a user who lacks the permission for it is answered with an error and changes nothing:
  neither files, nor caches, nor the task queue. The permission is the one of the roles of the user on
  the path below its base path; a directory may also be made where the settings of its parent allow
  writing.\<close>

theorem denied_request_changes_nothing:
  assumes "meta_coherent (metaDb A) (rules w)" "\<not> allowed A user w req"
  shows "\<exists>w' code. handle fuel A user req w = Some (w', code) \<and> tree w' = tree w \<and> code \<in> {400, 403, 500}"
proof (cases req)
  case (Mkdir path)
  show ?thesis
  proof (cases "user_path A user path")
    case (Some p)
    obtain w' r where n: "nearest A w (path_Dir p) = Some (w', r)" "tree w' = tree w"
      using nearest_ok [OF assms(1)] by blast
    with assms(2) Mkdir Some show ?thesis
      by (cases r) (auto simp: FsMkdir_def)
  qed (simp add: Mkdir FsMkdir_def)
next
  case (RenameReq path name overwrite)
  show ?thesis
  proof (cases "user_path A user path")
    case (Some p)
    obtain w' r where c: "canRenamePath A p w = Some (w', r)" "tree w' = tree w" "r \<in> {None, Some 403, Some 500}"
      using canRenamePath_ok [OF assms(1)] by blast
    with assms(2) RenameReq Some show ?thesis by (auto simp: FsRename_def holds_def)
  qed (simp add: RenameReq FsRename_def)
qed (use assms(2) in \<open>auto simp: FsMove_def FsCopy_def FsRemove_def FsRemoveEmptyDirectory_def FsBatchRename_def
  FsRegexRename_def FsRecursiveMove_def holds_def split: option.splits\<close>)

section \<open>Confinement\<close>

definition near :: "string \<Rightarrow> string \<Rightarrow> bool" where
  "near base k \<longleftrightarrow> IsSubPath (GetActualMountPath k) base \<or> IsSubPath base (GetActualMountPath k)"

lemma covers_near: "\<lbrakk>IsSubPath base p; covers_path p k\<rbrakk> \<Longrightarrow> near base k"
  unfolding near_def covers_path_def IsSubPath_comps by (blast dest: prefix_same_cases)

lemma user_path_below: "user_path A u path = Some p \<Longrightarrow> IsSubPath (BasePath u) p"
proof -
  assume "user_path A u path = Some p"
  then have "JoinPath (roles (theSite A)) u path = Inr p" by (auto simp: user_path_def split: sum.splits if_splits)
  from JoinPath_comps [OF this] obtain ds where "list_all fix_comp ds" "p = render (fcomps (BasePath u) @ ds)" by blast
  moreover from this have "list_all fix_comp (fcomps (BasePath u) @ ds)" by simp
  ultimately show ?thesis by (metis IsSubPath_comps fcomps_render prefixI)
qed

lemma JoinUnderBase_below: "\<lbrakk>JoinUnderBase dir name = Inr p; IsSubPath base dir\<rbrakk> \<Longrightarrow> IsSubPath base p"
  by (auto simp: JoinUnderBase_def Let_def split: option.splits if_splits intro: IsSubPath_trans)

lemma on_tree_Some: "on_tree f w = Some (w', r) \<longleftrightarrow> (\<exists>t. f (tree w) = Some (t, r) \<and> w' = w\<lparr>tree := t\<rparr>)"
  by (auto simp: on_tree_def)

lemma nearest_tree: "nearest A w path = Some (w', r) \<Longrightarrow> tree w' = tree w"
  by (auto simp: nearest_def split: option.splits sum.splits prod.splits)

lemma canRenamePath_tree: "canRenamePath A path w = Some (w', r) \<Longrightarrow> tree w' = tree w"
  by (auto simp: canRenamePath_def split: option.splits sum.splits prod.splits dest: nearest_tree)

lemma names_free_same: "\<lbrakk>names_free S dir ns t = (t', r); storages_ok (mounts t)\<rbrakk> \<Longrightarrow> same_but P t t'"
proof (induction S dir ns t rule: names_free.induct)
  case (2 S dir name ns t)
  show ?case
  proof (cases "JoinUnderBase dir name")
    case (Inr path)
    obtain t1 x where g: "fs_get S t path = (t1, x)" by fastforce
    have u: "unchanged t t1" by (rule fs_get_same [OF g "2.prems"(2)])
    have ok: "storages_ok (mounts t1)" by (rule same_but_storages_ok [OF u "2.prems"(2)])
    have "same_but P t1 t'"
      using "2.prems"(1) "2.IH" [OF Inr g [symmetric] _ _ ok] by (auto simp: Inr g split: sum.splits)
    with u show ?thesis by (rule unchanged_trans)
  qed (use 2 in auto)
qed simp

text \<open>One step of a loop followed by the rest.\<close>

lemma step_then:
  assumes "same_but P t t1" "storages_ok (mounts t)" "storages_ok (mounts t1) \<Longrightarrow> same_but P t1 t'"
  shows "same_but P t t'"
  using same_but_trans [OF assms(1) assms(3) [OF same_but_storages_ok [OF assms(1,2)]]] .

lemma fs_move_near:
  "\<lbrakk>fs_move S lazy t src dst = Some (t', r); storages_ok (mounts t); IsSubPath base dst\<rbrakk> \<Longrightarrow> same_but (near base) t t'"
  by (rule same_but_mono [OF fs_move_same]) (auto intro: covers_near)

lemma fs_copy_near:
  "\<lbrakk>fs_copy S sk u nt skip lazy t src dst = Some (t', r); storages_ok (mounts t); IsSubPath base dst\<rbrakk> \<Longrightarrow> same_but (near base) t t'"
  by (cases r, rule same_but_mono [OF fs_copy_same]) (auto intro: covers_near)

lemma fs_makeDir_near:
  "\<lbrakk>fs_makeDir S lazy t p = Some (t', r); storages_ok (mounts t); IsSubPath base p\<rbrakk> \<Longrightarrow> same_but (near base) t t'"
  by (rule same_but_mono [OF fs_makeDir_same]) (auto intro: covers_near)

lemma fs_rename_near:
  "\<lbrakk>fs_rename S lazy t p name = Some (t', r); storages_ok (mounts t); IsSubPath base p\<rbrakk> \<Longrightarrow> same_but (near base) t t'"
  by (rule same_but_mono [OF fs_rename_same]) (auto intro: covers_near)

lemma fs_remove_near:
  "\<lbrakk>fs_remove S t p = Some (t', r); storages_ok (mounts t); IsSubPath base p\<rbrakk> \<Longrightarrow> same_but (near base) t t'"
  by (rule same_but_mono [OF fs_remove_same]) (auto intro: covers_near)

lemma move_names_near:
  "\<lbrakk>move_names S src dst ns t = Some (t', r); storages_ok (mounts t); IsSubPath base dst\<rbrakk> \<Longrightarrow> same_but (near base) t t'"
proof (induction ns arbitrary: t)
  case (Cons name ns)
  show ?case
  proof (cases "\<exists>p q. JoinUnderBase src name = Inr p \<and> JoinUnderBase dst name = Inr q")
    case True
    then obtain p q t1 e where s: "JoinUnderBase src name = Inr p" "JoinUnderBase dst name = Inr q"
      "fs_move S (ns \<noteq> []) t p dst = Some (t1, e)" using Cons.prems(1) by (auto split: option.splits)
    show ?thesis
    proof (rule step_then [OF fs_move_near [OF s(3) Cons.prems(2,3)] Cons.prems(2)])
      assume "storages_ok (mounts t1)"
      then show "same_but (near base) t1 t'" using Cons s by (cases e) auto
    qed
  next
    case False
    then have "t' = t" using Cons.prems(1) by (auto split: sum.splits)
    then show ?thesis by simp
  qed
qed simp

lemma copy_names_near:
  "\<lbrakk>copy_names A u skip src dst ns t = Some (t', r); storages_ok (mounts t); IsSubPath base dst\<rbrakk> \<Longrightarrow> same_but (near base) t t'"
proof (induction ns arbitrary: t)
  case (Cons name ns)
  show ?case
  proof (cases "\<exists>p q. JoinUnderBase src name = Inr p \<and> JoinUnderBase dst name = Inr q")
    case True
    then obtain p q t1 x e where s: "JoinUnderBase src name = Inr p" "JoinUnderBase dst name = Inr q"
      "fs_copy (theSite A) (seekable A) (Some u) False skip (ns \<noteq> []) t p dst = Some (t1, x, e)"
      using Cons.prems(1) by (auto split: option.splits)
    show ?thesis
    proof (rule step_then [OF fs_copy_near [OF s(3) Cons.prems(2,3)] Cons.prems(2)])
      assume "storages_ok (mounts t1)"
      then show "same_but (near base) t1 t'" using Cons s by (cases e) auto
    qed
  next
    case False
    then have "t' = t" using Cons.prems(1) by (auto split: sum.splits)
    then show ?thesis by simp
  qed
qed simp

lemma remove_names_near:
  "\<lbrakk>remove_names S dir ns t = Some (t', r); storages_ok (mounts t); IsSubPath base dir\<rbrakk> \<Longrightarrow> same_but (near base) t t'"
proof (induction ns arbitrary: t)
  case (Cons name ns)
  show ?case
  proof (cases "JoinUnderBase dir name")
    case (Inr p)
    obtain t1 e where s: "fs_remove S t p = Some (t1, e)" using Cons.prems(1) Inr by (auto split: option.splits)
    show ?thesis
    proof (rule step_then [OF fs_remove_near [OF s Cons.prems(2) JoinUnderBase_below [OF Inr Cons.prems(3)]] Cons.prems(2)])
      assume "storages_ok (mounts t1)"
      then show "same_but (near base) t1 t'" using Cons s Inr by (cases e) auto
    qed
  qed (use Cons in simp)
qed simp

lemma move_paths_near:
  "\<lbrakk>move_paths S dst ps t = Some (t', r); storages_ok (mounts t); IsSubPath base dst\<rbrakk> \<Longrightarrow> same_but (near base) t t'"
proof (induction ps arbitrary: t)
  case (Cons p ps)
  then obtain t1 e where s: "fs_move S (ps \<noteq> []) t p dst = Some (t1, e)" by (auto split: option.splits)
  show ?case
  proof (rule step_then [OF fs_move_near [OF s Cons.prems(2,3)] Cons.prems(2)])
    assume "storages_ok (mounts t1)"
    then show "same_but (near base) t1 t'" using Cons s by (cases e) auto
  qed
qed simp

lemma collect_moves_same:
  "\<lbrakk>collect_moves n S u meta policy dst existing moving q t = Some (t', r); storages_ok (mounts t)\<rbrakk> \<Longrightarrow> unchanged t t'"
proof (induction n S u meta policy dst existing moving q t rule: collect_moves.induct)
  case (3 n S user meta policy dstDir existing moving fl dir q t)
  let ?path = "dir @ ''/'' @ GetName fl"
  show ?case
  proof (cases "IsDir fl")
    case True
    then obtain t1 x where l: "fs_list S (Some user) meta t ?path True = Some (t1, x)"
      using "3.prems"(1) by (auto simp: Let_def split: option.splits)
    show ?thesis
    proof (rule step_then [OF fs_list_same [OF l "3.prems"(2)] "3.prems"(2)])
      assume ok: "storages_ok (mounts t1)"
      show "unchanged t1 t'"
        using "3.prems"(1) True l "3.IH"(1) [OF refl True l refl _ _ ok] by (auto simp: Let_def split: sum.splits)
    qed
  next
    case False
    then show ?thesis using 3 by (auto simp: Let_def split: if_splits)
  qed
qed simp_all

lemma rename_batch_near:
  "\<lbrakk>rename_batch A dir rs w = Some (w', r); storages_ok (mounts (tree w)); IsSubPath base dir\<rbrakk>
   \<Longrightarrow> same_but (near base) (tree w) (tree w')"
proof (induction rs arbitrary: w)
  case (Cons sn rs)
  obtain src new where sn: "sn = (src, new)" by (cases sn)
  show ?case
  proof (cases "src = [] \<or> new = [] \<or> ValidateNameComponent new \<noteq> None")
    case False
    show ?thesis
    proof (cases "JoinUnderBase dir src")
      case (Inr p)
      obtain w1 c where c: "canRenamePath A p w = Some (w1, c)"
        using Cons.prems(1) False Inr by (auto simp: sn split: option.splits)
      have t1: "tree w1 = tree w" by (rule canRenamePath_tree [OF c])
      show ?thesis
      proof (cases c)
        case None
        obtain t2 e where s: "fs_rename (theSite A) False (tree w1) p new = Some (t2, e)"
          using Cons.prems(1) False Inr c None by (auto simp: sn on_tree_def split: option.splits)
        show ?thesis
        proof (rule step_then [OF fs_rename_near [OF s [unfolded t1] Cons.prems(2) JoinUnderBase_below [OF Inr Cons.prems(3)]] Cons.prems(2)])
          assume "storages_ok (mounts t2)"
          then show "same_but (near base) t2 (tree w')"
            using Cons.prems Cons.IH [of "w1\<lparr>tree := t2\<rparr>"] False Inr c None s by (cases e) (auto simp: sn on_tree_def)
        qed
      qed (use Cons.prems False Inr c t1 in \<open>auto simp: sn\<close>)
    qed (use Cons False in \<open>auto simp: sn\<close>)
  qed (use Cons in \<open>auto simp: sn split: if_splits\<close>)
qed simp

lemma rename_matching_near:
  "\<lbrakk>rename_matching A dir ms rp fs w = Some (w', r); storages_ok (mounts (tree w)); IsSubPath base dir\<rbrakk>
   \<Longrightarrow> same_but (near base) (tree w) (tree w')"
proof (induction fs arbitrary: w)
  case (Cons fl fs)
  show ?case
  proof (cases "ms (GetName fl)")
    case True
    show ?thesis
    proof (cases "JoinUnderBase dir (GetName fl)")
      case (Inr p)
      obtain w1 c where c: "canRenamePath A p w = Some (w1, c)"
        using Cons.prems(1) True Inr by (auto split: option.splits)
      have t1: "tree w1 = tree w" by (rule canRenamePath_tree [OF c])
      show ?thesis
      proof (cases "c = None \<and> ValidateNameComponent (rp (GetName fl)) = None")
        case ok: True
        then obtain t2 e where s: "fs_rename (theSite A) False (tree w1) p (rp (GetName fl)) = Some (t2, e)"
          using Cons.prems(1) True Inr c by (auto simp: on_tree_def Let_def split: option.splits)
        show ?thesis
        proof (rule step_then [OF fs_rename_near [OF s [unfolded t1] Cons.prems(2) JoinUnderBase_below [OF Inr Cons.prems(3)]] Cons.prems(2)])
          assume "storages_ok (mounts t2)"
          then show "same_but (near base) t2 (tree w')"
            using Cons.prems Cons.IH [of "w1\<lparr>tree := t2\<rparr>"] True Inr c ok s by (cases e) (auto simp: on_tree_def Let_def)
        qed
      qed (use Cons.prems True Inr c t1 in \<open>auto simp: Let_def split: option.splits\<close>)
    qed (use Cons True in auto)
  qed (use Cons in auto)
qed simp

text \<open>The handlers one by one.\<close>

lemma FsMkdir_near:
  assumes "FsMkdir A u path w = Some (w', code)" "storages_ok (mounts (tree w))"
  shows "same_but (near (BasePath u)) (tree w) (tree w')"
proof (cases "user_path A u path")
  case (Some p)
  have m: "same_but (near (BasePath u)) (tree w) (tree w2)"
    if "reply (on_tree (\<lambda>t. fs_makeDir (theSite A) False t p) w1) = Some (w2, c)" "tree w1 = tree w" for w1 w2 c
    using that assms(2) user_path_below [OF Some] by (auto simp: reply_def on_tree_def intro: fs_makeDir_near)
  show ?thesis
    using assms(1) m Some by (auto simp: FsMkdir_def Let_def split: if_splits option.splits sum.splits prod.splits dest: nearest_tree)
qed (use assms in \<open>simp add: FsMkdir_def\<close>)

lemma after_names_free:
  assumes "(if b then (t, None) else names_free S dir ns t) = (t1, c)" "storages_ok (mounts t)"
    "storages_ok (mounts t1) \<Longrightarrow> same_but P t1 t'"
  shows "same_but P t t'"
proof -
  have "same_but P t t1" using assms(1,2) by (auto split: if_splits intro: names_free_same)
  then show ?thesis using assms(2,3) by (rule step_then)
qed

lemma FsMove_near:
  assumes "FsMove A u src dst ns ov w = Some (w', code)" "storages_ok (mounts (tree w))"
  shows "same_but (near (BasePath u)) (tree w) (tree w')"
proof (cases "ns \<noteq> [] \<and> (\<exists>s d. user_path A u src = Some s \<and> user_path A u dst = Some d \<and> perm_at A u s PermMove)")
  case True
  then obtain s d where sd: "ns \<noteq> []" "user_path A u src = Some s" "user_path A u dst = Some d" "perm_at A u s PermMove" by blast
  obtain t1 c where n: "(if ov then (tree w, None) else names_free (theSite A) d ns (tree w)) = (t1, c)" by fastforce
  show ?thesis
  proof (rule after_names_free [OF n assms(2)])
    assume "storages_ok (mounts t1)"
    then show "same_but (near (BasePath u)) t1 (tree w')"
      using assms(1) sd n move_names_near [OF _ _ user_path_below [OF sd(3)]]
      by (cases c) (auto simp: FsMove_def on_tree_Some)
  qed
qed (use assms in \<open>auto simp: FsMove_def split: if_splits option.splits\<close>)

lemma FsCopy_near:
  assumes "FsCopy A u src dst ns ov skip w = Some (w', code)" "storages_ok (mounts (tree w))"
  shows "same_but (near (BasePath u)) (tree w) (tree w')"
proof (cases "ns \<noteq> [] \<and> (\<exists>s d. user_path A u src = Some s \<and> user_path A u dst = Some d \<and> perm_at A u s PermCopy)")
  case True
  then obtain s d where sd: "ns \<noteq> []" "user_path A u src = Some s" "user_path A u dst = Some d" "perm_at A u s PermCopy" by blast
  obtain t1 c where n: "(if ov \<or> skip then (tree w, None) else names_free (theSite A) d ns (tree w)) = (t1, c)" by fastforce
  show ?thesis
  proof (rule after_names_free [OF n assms(2)])
    assume "storages_ok (mounts t1)"
    then show "same_but (near (BasePath u)) t1 (tree w')"
      using assms(1) sd n copy_names_near [OF _ _ user_path_below [OF sd(3)]]
      by (cases c) (auto simp: FsCopy_def on_tree_Some)
  qed
qed (use assms in \<open>auto simp: FsCopy_def split: if_splits option.splits\<close>)

lemma FsRename_near:
  assumes "FsRename A u path name ov w = Some (w', code)" "storages_ok (mounts (tree w))"
  shows "same_but (near (BasePath u)) (tree w) (tree w')"
proof (cases "user_path A u path")
  case (Some p)
  obtain w1 c where c: "canRenamePath A p w = Some (w1, c)"
    using assms(1) Some by (auto simp: FsRename_def split: option.splits)
  have t1: "tree w1 = tree w" by (rule canRenamePath_tree [OF c])
  show ?thesis
  proof (cases "c = None \<and> perm_at A u p PermRename \<and> ValidateNameComponent name = None")
    case True
    obtain t2 x where n: "(if ov then (tree w, None) else rename_free (theSite A) p name (tree w)) = (t2, x)" by fastforce
    have u: "same_but (near (BasePath u)) (tree w) t2"
      using n assms(2) unchanged_trans [OF fs_get_same same_but_refl]
      by (auto simp: rename_free_def split: if_splits sum.splits prod.splits)
    show ?thesis
    proof (rule step_then [OF u assms(2)])
      assume "storages_ok (mounts t2)"
      then show "same_but (near (BasePath u)) t2 (tree w')"
        using assms(1) Some c True n [folded t1] fs_rename_near [OF _ _ user_path_below [OF Some]]
        by (cases x) (auto simp: FsRename_def on_tree_Some)
    qed
  qed (use assms(1) Some c t1 in \<open>auto simp: FsRename_def split: option.splits if_splits\<close>)
qed (use assms in \<open>simp add: FsRename_def\<close>)

lemma FsRemove_near:
  assumes "FsRemove A u dir ns w = Some (w', code)" "storages_ok (mounts (tree w))"
  shows "same_but (near (BasePath u)) (tree w) (tree w')"
  using assms user_path_below [of A u dir]
  by (auto simp: FsRemove_def on_tree_Some split: if_splits option.splits intro: remove_names_near)

lemma FsBatchRename_near:
  assumes "FsBatchRename A u dir rs w = Some (w', code)" "storages_ok (mounts (tree w))"
  shows "same_but (near (BasePath u)) (tree w) (tree w')"
proof (cases "\<exists>p w1 meta. user_path A u dir = Some p \<and> perm_at A u p PermRename \<and> nearest A w p = Some (w1, Inr meta)")
  case True
  then obtain p w1 meta where h: "user_path A u dir = Some p" "perm_at A u p PermRename"
    "nearest A w p = Some (w1, Inr meta)" by blast
  have "rename_batch A p rs w1 = Some (w', code)" using assms(1) h by (simp add: FsBatchRename_def)
  from rename_batch_near [OF this _ user_path_below [OF h(1)]] assms(2) show ?thesis
    by (simp add: nearest_tree [OF h(3)])
qed (use assms(1) in \<open>auto simp: FsBatchRename_def split: option.splits if_splits sum.splits prod.splits dest!: nearest_tree\<close>)

lemma FsRegexRename_near:
  assumes "FsRegexRename A u dir src new w = Some (w', code)" "storages_ok (mounts (tree w))"
  shows "same_but (near (BasePath u)) (tree w) (tree w')"
proof (cases "\<exists>p w1 meta ms rp. user_path A u dir = Some p \<and> perm_at A u p PermRename \<and> nearest A w p = Some (w1, Inr meta)
    \<and> compile A src = Some (ms, rp)")
  case True
  then obtain p w1 meta ms rp where h: "user_path A u dir = Some p" "perm_at A u p PermRename"
    "nearest A w p = Some (w1, Inr meta)" "compile A src = Some (ms, rp)" by blast
  note t1 = nearest_tree [OF h(3)]
  obtain t2 r where l: "fs_list (theSite A) (Some u) meta (tree w1) p False = Some (t2, r)"
    using assms(1) h by (auto simp: FsRegexRename_def on_tree_def split: option.splits)
  show ?thesis
  proof (rule step_then [OF unchanged_trans [OF fs_list_same [OF l [unfolded t1] assms(2)] same_but_refl] assms(2)])
    assume "storages_ok (mounts t2)"
    then show "same_but (near (BasePath u)) t2 (tree w')"
      using assms(1) h l rename_matching_near [OF _ _ user_path_below [OF h(1)], of A ms _ _ "w1\<lparr>tree := t2\<rparr>" w' code]
      by (cases r) (auto simp: FsRegexRename_def on_tree_def)
  qed
qed (use assms(1) in \<open>auto simp: FsRegexRename_def split: option.splits if_splits sum.splits prod.splits dest!: nearest_tree\<close>)

lemma FsRecursiveMove_near:
  assumes "FsRecursiveMove fuel A u src dst policy w = Some (w', code)" "storages_ok (mounts (tree w))"
  shows "same_but (near (BasePath u)) (tree w) (tree w')"
proof (cases "\<exists>s d w1 meta. user_path A u src = Some s \<and> user_path A u dst = Some d \<and> perm_at A u s PermMove
    \<and> nearest A w s = Some (w1, Inr meta)")
  case True
  then obtain s d w1 meta where h: "user_path A u src = Some s" "user_path A u dst = Some d" "perm_at A u s PermMove"
    "nearest A w s = Some (w1, Inr meta)" by blast
  note t1 = nearest_tree [OF h(4)]
  let ?S = "theSite A" and ?near = "near (BasePath u)"
  obtain t2 r where l: "fs_list ?S (Some u) meta (tree w) s False = Some (t2, r)"
    using assms(1) h t1 by (auto simp: FsRecursiveMove_def on_tree_def split: option.splits)
  show ?thesis
  proof (rule step_then [OF unchanged_trans [OF fs_list_same [OF l assms(2)] same_but_refl] assms(2)])
    assume ok2: "storages_ok (mounts t2)"
    show "same_but ?near t2 (tree w')"
    proof (cases r)
      case (Inl e)
      then show ?thesis using assms(1) h t1 l by (auto simp: FsRecursiveMove_def on_tree_def)
    next
      case (Inr rootFiles)
      let ?dst = "\<lambda>t. if policy \<noteq> ''overwrite''
         then map_option (\<lambda>(t, r). (t, map_sum id (map GetName) r)) (fs_list ?S (Some u) meta t d False)
         else Some (t, Inr [])"
      obtain t3 x where x: "?dst t2 = Some (t3, x)"
        using assms(1) h t1 l Inr by (auto simp: FsRecursiveMove_def on_tree_def split: option.splits if_splits)
      have u3: "unchanged t2 t3" using x ok2 by (auto split: if_splits intro: fs_list_same)
      have ok3: "storages_ok (mounts t3)" by (rule same_but_storages_ok [OF u3 ok2])
      show ?thesis
      proof (cases x)
        case (Inl e)
        then show ?thesis using assms(1) h t1 l \<open>r = Inr rootFiles\<close> x u3
          by (auto simp: FsRecursiveMove_def on_tree_def intro: same_but_mono)
      next
        case (Inr existing)
        obtain t4 y where y: "collect_moves fuel ?S u meta policy d existing [] (map (\<lambda>f. (f, s)) rootFiles) t3 = Some (t4, y)"
          using assms(1) h t1 l \<open>r = Inr rootFiles\<close> x Inr by (auto simp: FsRecursiveMove_def on_tree_def split: option.splits)
        have u4: "unchanged t3 t4" by (rule collect_moves_same [OF y ok3])
        have ok4: "storages_ok (mounts t4)" by (rule same_but_storages_ok [OF u4 ok3])
        have "same_but ?near t4 (tree w')"
          using assms(1) h t1 l \<open>r = Inr rootFiles\<close> x Inr y ok4 move_paths_near [OF _ _ user_path_below [OF h(2)]]
          by (cases y) (auto simp: FsRecursiveMove_def on_tree_def)
        then show ?thesis using u3 u4 by (blast intro: unchanged_trans)
      qed
    qed
  qed
qed (use assms(1) in \<open>auto simp: FsRecursiveMove_def split: option.splits if_splits sum.splits prod.splits dest!: nearest_tree\<close>)


text \<open>Two storages that can remove, for the witnesses.\<close>

definition shelf :: "Obj list driver" where
  "shelf = flat_driver\<lparr>drv_Remove := Some (\<lambda>s ob. (filter (\<lambda>x. GetName x \<noteq> GetName ob) s, None))\<rparr>"

definition shelf_at :: "string \<Rightarrow> string \<times> Obj list mount" where
  "shelf_at p = (p, \<lparr>dStorage = a_storage\<lparr>MountPath := p\<rparr>, dState = (shelf, [a_dir ''x''])\<rparr>)"

definition two_shelves :: "(Obj list, Meta list) world" where
  "two_shelves = \<lparr>tree = \<lparr>mounts = [shelf_at ''/a'', shelf_at ''/b''], balance = (\<lambda>_. None), listings = (\<lambda>_. None),
      links = (\<lambda>_. None), copyTasks = []\<rparr>, rules = \<lparr>metaTable = [], metaCache = (\<lambda>_. None)\<rparr>\<rparr>"

definition demo_api :: "int32 \<Rightarrow> Meta list api" where
  "demo_api perm = \<lparr>theSite = \<lparr>siteEnv = plain_env, roles = one_role ''/a'' perm, regexs = (\<lambda>_. Some (\<lambda>_. False))\<rparr>,
     metaDb = row_db, notFoundSetting = Inr None, seekable = (\<lambda>ob l. Inl NotSupport), compile = (\<lambda>_. None)\<rparr>"

theorem denied_request_changes_nothing_witness:
  "\<exists>w' code. handle 0 (demo_api 0) (guest_of ''/a'') (RemoveReq ''/'' [''x'']) two_shelves = Some (w', code)
     \<and> tree w' = tree two_shelves \<and> code \<in> {400, 403, 500}"
proof (rule denied_request_changes_nothing)
  show "meta_coherent (metaDb (demo_api 0)) (rules two_shelves)" by (simp add: meta_coherent_def two_shelves_def)
  show "\<not> allowed (demo_api 0) (guest_of ''/a'') two_shelves (RemoveReq ''/'' [''x''])" by code_simp
qed


end
