(* ===== verification/Sign.thy ===== *)
theory Sign
  imports Perm
begin

text \<open>
  Signed links (\<^verbatim>\<open>pkg/sign\<close>, \<^verbatim>\<open>internal/sign\<close>, \<^verbatim>\<open>internal/share/access.go\<close>): a signature is a code
  over the data and an expiry, followed by the expiry.  \<^verbatim>\<open>HMAC-SHA256\<close> under the secret of the server
  and its \<^verbatim>\<open>base64\<close> text is the argument \<open>mac\<close>: the key and the message give the text.  Times are
  seconds since the epoch where the code uses \<^verbatim>\<open>Unix()\<close>, nanoseconds otherwise.
\<close>

type_synonym mac = "string \<Rightarrow> string \<Rightarrow> string"

datatype sign_err = ErrSignExpired | ErrSignInvalid | ErrExpireInvalid | ErrExpireMissing

section \<open>HMACSign (pkg/sign/hmac.go)\<close>

definition HMAC_Sign :: "mac \<Rightarrow> string \<Rightarrow> string \<Rightarrow> int \<Rightarrow> string" where
  "HMAC_Sign mac key data expire =
     (let expireTimeStamp = FormatInt expire
      in mac key (data @ '':'' @ expireTimeStamp) @ '':'' @ expireTimeStamp)"

definition HMAC_Verify :: "mac \<Rightarrow> string \<Rightarrow> int \<Rightarrow> string \<Rightarrow> string \<Rightarrow> sign_err option" where
  "HMAC_Verify mac key now data sign =
     (let signSlice = Split CHR '':'' sign
      in if last signSlice = [] then Some ErrExpireMissing
         else case ParseInt (last signSlice) of
                None \<Rightarrow> Some ErrExpireInvalid
              | Some expires \<Rightarrow>
                  if expires < now \<and> expires \<noteq> 0 then Some ErrSignExpired
                  else if HMAC_Sign mac key data expires \<noteq> sign then Some ErrSignInvalid
                  else None)"

section \<open>Links (internal/sign)\<close>

text \<open>The settings read: the secret and the hours a link is valid (0: for ever).\<close>

record sign_conf =
  secret :: string
  linkExpiration :: int

definition unix :: "int \<Rightarrow> int" where
  "unix ns = ns div 1000000000"

definition NotExpired :: "mac \<Rightarrow> sign_conf \<Rightarrow> string \<Rightarrow> string" where
  "NotExpired mac c data = HMAC_Sign mac (secret c) data 0"

definition WithDuration :: "mac \<Rightarrow> sign_conf \<Rightarrow> int \<Rightarrow> string \<Rightarrow> int \<Rightarrow> string" where
  "WithDuration mac c now data d = HMAC_Sign mac (secret c) data (unix (now + d))"

definition sign_Sign :: "mac \<Rightarrow> sign_conf \<Rightarrow> int \<Rightarrow> string \<Rightarrow> string" where
  "sign_Sign mac c now data =
     (if linkExpiration c = 0 then NotExpired mac c data
      else WithDuration mac c now data (wrap64 (linkExpiration c * 3600000000000)))"

definition sign_Verify :: "mac \<Rightarrow> sign_conf \<Rightarrow> int \<Rightarrow> string \<Rightarrow> string \<Rightarrow> sign_err option" where
  "sign_Verify mac c now data sign = HMAC_Verify mac (secret c) (unix now) data sign"

definition archive_conf :: "sign_conf \<Rightarrow> sign_conf" where
  "archive_conf c = c\<lparr>secret := secret c @ ''-archive''\<rparr>"

definition SignArchive :: "mac \<Rightarrow> sign_conf \<Rightarrow> int \<Rightarrow> string \<Rightarrow> string" where
  "SignArchive mac c now data = sign_Sign mac (archive_conf c) now data"

definition VerifyArchive :: "mac \<Rightarrow> sign_conf \<Rightarrow> int \<Rightarrow> string \<Rightarrow> string \<Rightarrow> sign_err option" where
  "VerifyArchive mac c now data sign = sign_Verify mac (archive_conf c) now data sign"

section \<open>Facts\<close>

lemma FormatInt_no_colon: "CHR '':'' \<notin> set (FormatInt n)"
  using FormatInt_chars [of _ n] by (auto dest: is_digit_not_sign)

lemma last_field: "last (Split CHR '':'' (s @ '':'' @ FormatInt n)) = FormatInt n"
  by (simp add: Split_append_sep Split_no_sep FormatInt_no_colon)

text \<open>The message that is authenticated determines data and expiry.\<close>

lemma message_inj:
  assumes "data @ '':'' @ FormatInt n = data' @ '':'' @ FormatInt n'" "int64_range n" "int64_range n'"
  shows "data = data' \<and> n = n'"
proof -
  have "FormatInt n = FormatInt n'" using last_field [of data n] last_field [of data' n'] assms(1) by metis
  with assms show ?thesis by (metis ParseInt_FormatInt append_same_eq option.inject)
qed

lemma Verify_iff:
  "HMAC_Verify mac key now data sign = None \<longleftrightarrow>
     (\<exists>n. int64_range n \<and> (n = 0 \<or> now \<le> n) \<and> sign = HMAC_Sign mac key data n)"
proof
  assume v: "HMAC_Verify mac key now data sign = None"
  then obtain n where n: "ParseInt (last (Split CHR '':'' sign)) = Some n" "n = 0 \<or> now \<le> n" "sign = HMAC_Sign mac key data n"
    by (auto simp: HMAC_Verify_def Let_def split: if_splits option.splits)
  with ParseInt_range [OF n(1)] show "\<exists>n. int64_range n \<and> (n = 0 \<or> now \<le> n) \<and> sign = HMAC_Sign mac key data n" by blast
next
  assume "\<exists>n. int64_range n \<and> (n = 0 \<or> now \<le> n) \<and> sign = HMAC_Sign mac key data n"
  then obtain n where n: "int64_range n" "n = 0 \<or> now \<le> n" "sign = HMAC_Sign mac key data n" by blast
  have "last (Split CHR '':'' sign) = FormatInt n" unfolding n(3) HMAC_Sign_def Let_def by (rule last_field)
  with n show "HMAC_Verify mac key now data sign = None"
    by (auto simp: HMAC_Verify_def Let_def ParseInt_FormatInt)
qed

text \<open>What a signature proves. A signature is refused after its expiry, whatever it is shown for; before,
  it is accepted for some data exactly when the code of that data with that expiry is the code it was
  made with, and different data or expiries are different messages. Whatever text is accepted for some
  data is the signature of that data with an expiry that is 0 or not past, so neither the data nor the
  expiry of a signature can be exchanged without a new code.\<close>

theorem signature_authenticates:
  assumes "int64_range n"
  shows "HMAC_Verify mac key now data' (HMAC_Sign mac key data n) =
       (if n \<noteq> 0 \<and> n < now then Some ErrSignExpired
        else if mac key (data' @ '':'' @ FormatInt n) \<noteq> mac key (data @ '':'' @ FormatInt n) then Some ErrSignInvalid
        else None)
    \<and> (\<forall>n'. int64_range n' \<and> data @ '':'' @ FormatInt n = data' @ '':'' @ FormatInt n' \<longrightarrow> data = data' \<and> n = n')
    \<and> (HMAC_Verify mac key now data' sign = None
        \<longleftrightarrow> (\<exists>n'. int64_range n' \<and> (n' = 0 \<or> now \<le> n') \<and> sign = HMAC_Sign mac key data' n'))"
proof (intro conjI allI impI)
  have l: "last (Split CHR '':'' (HMAC_Sign mac key data n)) = FormatInt n"
    unfolding HMAC_Sign_def Let_def by (rule last_field)
  have "HMAC_Sign mac key data' n = HMAC_Sign mac key data n
      \<longleftrightarrow> mac key (data' @ '':'' @ FormatInt n) = mac key (data @ '':'' @ FormatInt n)"
    by (simp add: HMAC_Sign_def Let_def)
  with l assms show "HMAC_Verify mac key now data' (HMAC_Sign mac key data n) =
       (if n \<noteq> 0 \<and> n < now then Some ErrSignExpired
        else if mac key (data' @ '':'' @ FormatInt n) \<noteq> mac key (data @ '':'' @ FormatInt n) then Some ErrSignInvalid
        else None)"
    by (auto simp: HMAC_Verify_def Let_def ParseInt_FormatInt)
  show "data = data'" "n = n'"
    if "int64_range n' \<and> data @ '':'' @ FormatInt n = data' @ '':'' @ FormatInt n'" for n'
    using message_inj [of data n data' n'] that assms by auto
  show "HMAC_Verify mac key now data' sign = None
      \<longleftrightarrow> (\<exists>n'. int64_range n' \<and> (n' = 0 \<or> now \<le> n') \<and> sign = HMAC_Sign mac key data' n')"
    by (rule Verify_iff)
qed

theorem signature_authenticates_witness:
  "HMAC_Verify (\<lambda>k m. k @ m) ''key'' 5 ''/a'' (HMAC_Sign (\<lambda>k m. k @ m) ''key'' ''/a'' 7) = None
   \<and> HMAC_Verify (\<lambda>k m. k @ m) ''key'' 5 ''/b'' (HMAC_Sign (\<lambda>k m. k @ m) ''key'' ''/a'' 7) = Some ErrSignInvalid"
  using signature_authenticates [of 7 "\<lambda>k m. k @ m" "''key''" 5 "''/a''" "''/a''"]
    signature_authenticates [of 7 "\<lambda>k m. k @ m" "''key''" 5 "''/b''" "''/a''"] by (simp add: int64_range_def)

end
