(* ===== verification/UrlPath.thy ===== *)
theory UrlPath
  imports PathUtil
begin

text \<open>
  Paths inside URLs: \<^verbatim>\<open>url.PathEscape\<close> and \<^verbatim>\<open>url.PathUnescape\<close> of the standard library,
  \<^verbatim>\<open>utils.EncodePath\<close> (\<^verbatim>\<open>pkg/utils/path.go\<close>), which the server uses in the links it hands out, and
  \<^verbatim>\<open>parsePath\<close> (\<^verbatim>\<open>server/middlewares/down.go\<close>), which reads them back.  The parameter that \<^verbatim>\<open>gin\<close>
  passes to \<^verbatim>\<open>parsePath\<close> is the path of the request after \<^verbatim>\<open>net/http\<close> has unescaped it once.
\<close>

section \<open>Escaping\<close>

definition hex_digit :: "nat \<Rightarrow> char" where
  "hex_digit n = (if n < 10 then char_of (48 + n) else char_of (55 + n))"

definition unhex :: "char \<Rightarrow> nat option" where
  "unhex c =
     (let n = of_char c :: nat
      in if 48 \<le> n \<and> n \<le> 57 then Some (n - 48)
         else if 97 \<le> n \<and> n \<le> 102 then Some (n - 87)
         else if 65 \<le> n \<and> n \<le> 70 then Some (n - 55) else None)"

definition segment_safe :: "char \<Rightarrow> bool" where
  "segment_safe c \<longleftrightarrow>
     (let n = of_char c :: nat
      in 97 \<le> n \<and> n \<le> 122 \<or> 65 \<le> n \<and> n \<le> 90 \<or> 48 \<le> n \<and> n \<le> 57) \<or> c \<in> set ''-_.~$&+:=@''"

definition escape_byte :: "char \<Rightarrow> string" where
  "escape_byte c = (if segment_safe c then [c]
     else [CHR ''%'', hex_digit (of_char c div 16), hex_digit (of_char c mod 16)])"

definition PathEscape :: "string \<Rightarrow> string" where
  "PathEscape s = concat (map escape_byte s)"

fun PathUnescape :: "string \<Rightarrow> string option" where
  "PathUnescape [] = Some []"
| "PathUnescape (c # s) =
     (if c = CHR ''%'' then
        (case s of
           a # b # t \<Rightarrow>
             (case (unhex a, unhex b) of
                (Some x, Some y) \<Rightarrow> map_option ((#) (char_of (16 * x + y))) (PathUnescape t)
              | _ \<Rightarrow> None)
         | _ \<Rightarrow> None)
      else map_option ((#) c) (PathUnescape s))"

section \<open>Links\<close>

definition encode_segment :: "string \<Rightarrow> string" where
  "encode_segment s =
     ReplaceByte CHR ''#'' ''%23'' (ReplaceByte CHR ''?'' ''%3F''
       (ReplaceByte CHR ''%'' ''%25'' (ReplaceByte CHR ''%'' ''%25'' s)))"

definition EncodePath :: "string \<Rightarrow> bool \<Rightarrow> string" where
  "EncodePath path all = Join ''/'' (map (if all then PathEscape else encode_segment) (Split CHR ''/'' path))"

definition parsePath :: "string \<Rightarrow> string" where
  "parsePath path = FixAndCleanPath (case PathUnescape path of None \<Rightarrow> [] | Some p \<Rightarrow> p)"

definition served_path :: "string \<Rightarrow> string option" where
  "served_path raw = map_option parsePath (PathUnescape raw)"

section \<open>Facts\<close>

lemma ReplaceByte_Nil [simp]: "ReplaceByte c new [] = []"
  by (simp add: ReplaceByte_def)

lemma unhex_hex: "n < 16 \<Longrightarrow> unhex (hex_digit n) = Some n"
  by (auto simp: unhex_def hex_digit_def of_char_of Let_def)

lemma unescape_escape_byte: "PathUnescape (escape_byte c @ t) = map_option ((#) c) (PathUnescape t)"
proof (cases "segment_safe c")
  case True
  then have "c \<noteq> CHR ''%''" by (auto simp: segment_safe_def)
  with True show ?thesis by (simp add: escape_byte_def)
next
  case False
  have b: "(of_char c :: nat) < 256" using range_nat_of_char by force
  then have d: "(of_char c :: nat) div 16 < 16" "(of_char c :: nat) mod 16 < 16" by (simp_all add: less_mult_imp_div_less)
  have "char_of (16 * (of_char c div 16) + of_char c mod 16 :: nat) = c" by (simp add: mult_div_mod_eq)
  with False d show ?thesis by (simp add: escape_byte_def unhex_hex)
qed

lemma unescape_escape: "PathUnescape (PathEscape s @ t) = map_option ((@) s) (PathUnescape t)"
  by (induction s) (auto simp: PathEscape_def unescape_escape_byte option.map_comp comp_def option.map_ident)

lemma unescape_other: "c \<noteq> CHR ''%'' \<Longrightarrow> PathUnescape (c # t) = map_option ((#) c) (PathUnescape t)"
  by simp

lemma unescape_plain: "CHR ''%'' \<notin> set s \<Longrightarrow> PathUnescape s = Some s"
  by (induction s) auto

lemma unescape_Join_escape: "PathUnescape (Join ''/'' (map PathEscape ss)) = Some (Join ''/'' ss)"
proof (induction ss)
  case (Cons s ss)
  show ?case
  proof (cases "ss = []")
    case True
    with unescape_escape [of s "[]"] show ?thesis by simp
  next
    case False
    with Cons unescape_escape [of s "CHR ''/'' # Join ''/'' (map PathEscape ss)"] show ?thesis
      by (simp add: Join_Cons)
  qed
qed simp

lemma unescape_EncodePath_all: "PathUnescape (EncodePath p True) = Some p"
  by (simp add: EncodePath_def unescape_Join_escape Join_Split)

text \<open>The other mode escapes a percent sign twice.\<close>

definition once :: "string \<Rightarrow> string" where
  "once s = ReplaceByte CHR ''%'' ''%25'' s"

lemma hex_values: "unhex CHR ''2'' = Some 2" "unhex CHR ''5'' = Some 5" "unhex CHR ''3'' = Some 3" "unhex CHR ''F'' = Some 15"
  by code_simp+

lemma chars_of_codes: "char_of (37::nat) = CHR ''%''" "char_of (63::nat) = CHR ''?''" "char_of (35::nat) = CHR ''#''"
  by code_simp+

lemma unescape_encode_segment: "PathUnescape (encode_segment s @ t) = map_option ((@) (once s)) (PathUnescape t)"
proof (induction s)
  case (Cons c s)
  have "encode_segment (c # s) = (if c = CHR ''%'' then ''%2525'' else if c = CHR ''?'' then ''%3F''
      else if c = CHR ''#'' then ''%23'' else [c]) @ encode_segment s"
    by (simp add: encode_segment_def)
  with Cons show ?case
    by (auto simp: once_def hex_values chars_of_codes option.map_comp comp_def)
qed (simp add: encode_segment_def once_def option.map_ident)

lemma unescape_once: "PathUnescape (once s @ t) = map_option ((@) s) (PathUnescape t)"
  by (induction s) (auto simp: once_def hex_values chars_of_codes option.map_comp comp_def option.map_ident)

lemma unescape_Join:
  assumes "\<And>s t. PathUnescape (f s @ t) = map_option ((@) (g s)) (PathUnescape t)"
  shows "PathUnescape (Join ''/'' (map f ss)) = Some (Join ''/'' (map g ss))"
proof (induction ss)
  case (Cons s ss)
  then show ?case
    using assms [of s "[]"] assms [of s "CHR ''/'' # Join ''/'' (map f ss)"] by (cases "ss = []") (simp_all add: Join_Cons)
qed simp

text \<open>A link leads back to the path it was made for. The path of a link written with
  \<^const>\<open>EncodePath\<close>, unescaped by the HTTP server and again by \<^const>\<open>parsePath\<close>, is the path that was
  encoded, when the second escaping is done by \<^const>\<open>EncodePath\<close> itself (every path) or when the path has
  no percent sign (all characters escaped).\<close>

theorem link_path_roundtrip:
  assumes "FixAndCleanPath p = p"
  shows "served_path (EncodePath p False) = Some p
    \<and> (CHR ''%'' \<notin> set p \<longrightarrow> served_path (EncodePath p True) = Some p)"
proof (intro conjI impI)
  have "PathUnescape (EncodePath p False) = Some (Join ''/'' (map once (Split CHR ''/'' p)))"
    unfolding EncodePath_def using unescape_Join [of encode_segment once] unescape_encode_segment by simp
  moreover have "PathUnescape (Join ''/'' (map once (Split CHR ''/'' p))) = Some p"
    using unescape_Join [of once id] unescape_once by (simp add: Join_Split)
  ultimately show "served_path (EncodePath p False) = Some p" using assms by (simp add: served_path_def parsePath_def)
  show "served_path (EncodePath p True) = Some p" if "CHR ''%'' \<notin> set p"
    using that assms by (simp add: served_path_def parsePath_def unescape_EncodePath_all unescape_plain)
qed

theorem link_path_roundtrip_witness:
  "served_path (EncodePath ''/50% off/a?b'' False) = Some ''/50% off/a?b'' \<and> served_path (EncodePath ''/a b'' True) = Some ''/a b''"
proof -
  have "FixAndCleanPath ''/50% off/a?b'' = ''/50% off/a?b''" "FixAndCleanPath ''/a b'' = ''/a b''" by code_simp+
  then show ?thesis using link_path_roundtrip [of "''/50% off/a?b''"] link_path_roundtrip [of "''/a b''"] by simp
qed

text \<open>
  With all characters escaped once, a percent sign does not survive being unescaped twice: the link of
  one file names another, or the root.
\<close>

lemma percent_sign_lost:
  "served_path (EncodePath ''/100%'' True) = Some ''/''" "served_path (EncodePath ''/a%41'' True) = Some ''/aA''"
  by code_simp+

end
