(* ===== verification/FsRead.thy ===== *)
theory FsRead
  imports FsManage Sign UrlPath "HOL-Library.Signed_Division"
begin

text \<open>
  The requests that read (\<^verbatim>\<open>server/handles/fsread.go\<close>) and the gate before downloads
  (\<^verbatim>\<open>server/middlewares/down.go\<close>): listing a directory in pages, listing its folders, showing one
  object.  Page numbers are 64-bit integers that wrap around.  Of an object the responses carry its
  name, paths, size, kind, time and signature; thumbnails, labels, types and hashes are left out.
  The settings of the site that the handlers read are fields of \<open>site_conf\<close>.
\<close>

section \<open>Pages\<close>

definition DefaultPerPage :: int where "DefaultPerPage = 200"

definition MaxPerPage :: int where "MaxPerPage = 500"

definition AllPerPage :: int where "AllPerPage = -1"

definition normalizeListPage :: "int \<Rightarrow> int \<Rightarrow> int \<times> int" where
  "normalizeListPage page perPage =
     (let effPage = (if page \<le> 0 then 1 else page)
      in if perPage < 0 then (effPage, AllPerPage)
         else let effPerPage = (if perPage = 0 then DefaultPerPage else perPage)
              in (effPage, if effPerPage > MaxPerPage then MaxPerPage else effPerPage))"

definition calcPagesTotal :: "int \<Rightarrow> int \<Rightarrow> int" where
  "calcPagesTotal tot perPage =
     (if perPage = AllPerPage then (if tot > 0 then 1 else 0)
      else if tot \<le> 0 \<or> perPage \<le> 0 then 0
      else wrap64 (wrap64 (tot + perPage) - 1) sdiv perPage)"

text \<open>Slicing with bounds out of order or below zero panics.\<close>

definition slice :: "'a list \<Rightarrow> int \<Rightarrow> int \<Rightarrow> 'a list go" where
  "slice xs start end =
     (if 0 \<le> start \<and> start \<le> end \<and> end \<le> int (length xs)
      then Some (take (nat (end - start)) (drop (nat start) xs)) else panic)"

definition pagination :: "'a list \<Rightarrow> int \<Rightarrow> int \<Rightarrow> (int \<times> 'a list) go" where
  "pagination objs pageIndex pageSize =
     (let tot = int (length objs)
      in if pageSize = AllPerPage then Some (tot, objs)
         else let start = wrap64 (wrap64 (pageIndex - 1) * pageSize)
              in if start > tot then Some (tot, [])
                 else let end = wrap64 (start + pageSize); end = (if end > tot then tot else end)
                      in map_option (Pair tot) (slice objs start end))"

definition hasMore :: "int \<Rightarrow> int \<Rightarrow> int \<Rightarrow> bool" where
  "hasMore page perPage tot \<longleftrightarrow> perPage \<noteq> AllPerPage \<and> wrap64 (page * perPage) < tot"

section \<open>Responses\<close>

record 'b site_conf =
  apiOf :: "'b api"
  macOf :: mac
  signConf :: sign_conf
  signAll :: bool
  apiUrl :: string
  isVideo :: "string \<Rightarrow> bool"
  objUrl :: "Obj \<Rightarrow> string option"

record ObjResp =
  RespId :: string
  RespPath :: string
  VirtualPath :: string
  RespName :: string
  RespSize :: int
  RespIsDir :: bool
  RespModified :: int
  RespSign :: string

definition common_Sign :: "'b site_conf \<Rightarrow> int \<Rightarrow> Obj \<Rightarrow> string \<Rightarrow> bool \<Rightarrow> string" where
  "common_Sign C now ob parent encrypt =
     (if IsDir ob \<or> (\<not> encrypt \<and> \<not> signAll C) then []
      else sign_Sign (macOf C) (signConf C) now (path_Join parent (GetName ob)))"

definition toObjResp :: "'b site_conf \<Rightarrow> int \<Rightarrow> string \<Rightarrow> bool \<Rightarrow> Obj \<Rightarrow> ObjResp" where
  "toObjResp C now parent encrypt ob =
     \<lparr>RespId = ObjID (raw ob), RespPath = GetPath ob, VirtualPath = FixAndCleanPath (path_Join parent (GetName ob)),
      RespName = GetName ob, RespSize = GetSize ob, RespIsDir = IsDir ob, RespModified = ModTime ob,
      RespSign = common_Sign C now ob parent encrypt\<rparr>"

definition toObjsResp :: "'b site_conf \<Rightarrow> int \<Rightarrow> Obj list \<Rightarrow> string \<Rightarrow> bool \<Rightarrow> ObjResp list" where
  "toObjsResp C now objs parent encrypt = map (toObjResp C now parent encrypt) objs"

definition getReadme :: "Meta option \<Rightarrow> string \<Rightarrow> string" where
  "getReadme meta path =
     (case meta of None \<Rightarrow> [] | Some m \<Rightarrow> if PathEqual (MetaPath m) path \<or> RSub m then Readme m else [])"

definition getHeader :: "Meta option \<Rightarrow> string \<Rightarrow> string" where
  "getHeader meta path =
     (case meta of None \<Rightarrow> [] | Some m \<Rightarrow> if PathEqual (MetaPath m) path \<or> HeaderSub m then MetaHeader m else [])"

text \<open>Asking whether a storage wants signatures moves the balancing counter on.\<close>

definition IsStorageSignEnabled :: "'s vfs \<Rightarrow> string \<Rightarrow> 's vfs \<times> bool" where
  "IsStorageSignEnabled t path =
     (case GetBalancedStorage (mounts t) (balance t) path of
        (b, v) \<Rightarrow> (t\<lparr>balance := b\<rparr>, case v of None \<Rightarrow> False | Some v \<Rightarrow> EnableSign (dStorage v)))"

definition isEncrypt :: "'s vfs \<Rightarrow> Meta option \<Rightarrow> string \<Rightarrow> 's vfs \<times> bool" where
  "isEncrypt t meta path =
     (case IsStorageSignEnabled t path of
        (t, True) \<Rightarrow> (t, True)
      | (t, False) \<Rightarrow>
          (t, case meta of
                None \<Rightarrow> False
              | Some m \<Rightarrow>
                  if MetaPassword m = [] then False
                  else if \<not> PathEqual (MetaPath m) path \<and> \<not> PSub m then False else True))"

section \<open>Listing\<close>

record ListReq =
  lPath :: string
  lPassword :: string
  lRefresh :: bool
  lPage :: int
  lPerPage :: int

record FsListResp =
  Content :: "ObjResp list"
  Total :: int
  Page :: int
  PerPage :: int
  HasMore :: bool
  PagesTotal :: int
  RespReadme :: string
  RespHeader :: string
  Write :: bool
  Provider :: string

text \<open>The steps before every read: path, settings, access.  The code to answer, or the path and the settings.\<close>

definition authorize ::
    "'b api \<Rightarrow> User \<Rightarrow> (err + string) \<Rightarrow> string \<Rightarrow> ('s, 'b) world \<Rightarrow> (('s, 'b) world \<times> (int + string \<times> Meta option)) go" where
  "authorize A user path password w =
     (case path of
        Inl e \<Rightarrow> Some (w, Inl 403)
      | Inr reqPath \<Rightarrow>
          (case nearest A w reqPath of
             None \<Rightarrow> panic
           | Some (w, Inl e) \<Rightarrow> Some (w, Inl 500)
           | Some (w, Inr meta) \<Rightarrow>
               (case CanAccessWithRoles (roles (theSite A)) (regexs (theSite A)) (Some user) meta reqPath password of
                  None \<Rightarrow> panic
                | Some ok \<Rightarrow> Some (w, if ok then Inr (reqPath, meta) else Inl 403))))"

definition readable :: "'b api \<Rightarrow> User \<Rightarrow> string \<Rightarrow> Obj list \<Rightarrow> Obj list" where
  "readable A user reqPath objs =
     filter (\<lambda>ob. CanReadPathByRole (roles (theSite A)) (Some user) (path_Join reqPath (GetName ob))) objs"

definition FsList :: "'b site_conf \<Rightarrow> int \<Rightarrow> User \<Rightarrow> ListReq \<Rightarrow> ('s, 'b) world \<Rightarrow> (('s, 'b) world \<times> (int + FsListResp)) go" where
  "FsList C now user req w =
     (let A = apiOf C; (page, perPage) = normalizeListPage (lPage req) (lPerPage req)
      in case authorize A user (JoinPath (roles (theSite A)) user (lPath req)) (lPassword req) w of
           None \<Rightarrow> panic
         | Some (w, Inl code) \<Rightarrow> Some (w, Inl code)
         | Some (w, Inr (reqPath, meta)) \<Rightarrow>
             let write = perm_at A user reqPath PermWrite \<or> CanWrite meta reqPath
             in if \<not> write \<and> lRefresh req then Some (w, Inl 403)
                else
                  let (t, st) = GetStorage (tree w) reqPath;
                      provider = (case st of Inl e \<Rightarrow> ''unknown'' | Inr v \<Rightarrow> Driver (dStorage v))
                  in case fs_list (theSite A) (Some user) meta t reqPath (lRefresh req) of
                       None \<Rightarrow> panic
                     | Some (t, Inl e) \<Rightarrow> Some (w\<lparr>tree := t\<rparr>, Inl 500)
                     | Some (t, Inr objs) \<Rightarrow>
                         (case pagination (readable A user reqPath objs) page perPage of
                            None \<Rightarrow> panic
                          | Some (tot, pageObjs) \<Rightarrow>
                              let (t, encrypt) = isEncrypt t meta reqPath
                              in Some (w\<lparr>tree := t\<rparr>,
                                   Inr \<lparr>Content = toObjsResp C now pageObjs reqPath encrypt, Total = tot, Page = page,
                                        PerPage = perPage, HasMore = hasMore page perPage tot,
                                        PagesTotal = calcPagesTotal tot perPage, RespReadme = getReadme meta reqPath,
                                        RespHeader = getHeader meta reqPath, Write = write, Provider = provider\<rparr>)))"

definition filterDirs :: "Obj list \<Rightarrow> (string \<times> int) list" where
  "filterDirs objs = map (\<lambda>ob. (GetName ob, ModTime ob)) (filter IsDir objs)"

definition FsDirs ::
    "'b site_conf \<Rightarrow> User \<Rightarrow> string \<Rightarrow> string \<Rightarrow> bool \<Rightarrow> ('s, 'b) world \<Rightarrow> (('s, 'b) world \<times> (int + (string \<times> int) list)) go" where
  "FsDirs C user path password forceRoot w =
     (let A = apiOf C
      in if forceRoot \<and> \<not> IsAdmin user then Some (w, Inl 403)
         else case authorize A user (if forceRoot then Inr path else JoinPath (roles (theSite A)) user path) password w of
                None \<Rightarrow> panic
              | Some (w, Inl code) \<Rightarrow> Some (w, Inl code)
              | Some (w, Inr (reqPath, meta)) \<Rightarrow>
                  (case fs_list (theSite A) (Some user) meta (tree w) reqPath False of
                     None \<Rightarrow> panic
                   | Some (t, Inl e) \<Rightarrow> Some (w\<lparr>tree := t\<rparr>, Inl 500)
                   | Some (t, Inr objs) \<Rightarrow> Some (w\<lparr>tree := t\<rparr>, Inr (filterDirs (readable A user reqPath objs)))))"

section \<open>One object\<close>

definition MustProxy :: "Config \<Rightarrow> bool" where
  "MustProxy c \<longleftrightarrow> OnlyProxy c \<or> OnlyLocal c"

definition BuildDownProxyURL :: "'b site_conf \<Rightarrow> int \<Rightarrow> string \<Rightarrow> string \<Rightarrow> bool \<Rightarrow> string" where
  "BuildDownProxyURL C now downProxyURL path useSign =
     (let base = hd (Split CHR 0x0A downProxyURL)
      in if useSign then base @ EncodePath path True @ ''?sign='' @ sign_Sign (macOf C) (signConf C) now path
         else base @ EncodePath path True)"

definition isLarkCloudDocName :: "string \<Rightarrow> bool" where
  "isLarkCloudDocName name = list_ex (HasSuffix name)
     [''.lark-doc'', ''.lark-docx'', ''.lark-sheet'', ''.lark-bitable'', ''.lark-mindnote'', ''.lark-slides'']"

definition filterRelated :: "Obj list \<Rightarrow> Obj \<Rightarrow> Obj list" where
  "filterRelated objs ob =
     (let nameWithoutExt = TrimSuffix (GetName ob) (path_Ext (GetName ob))
      in filter (\<lambda>x. GetName x \<noteq> GetName ob \<and> HasPrefix (GetName x) nameWithoutExt) objs)"

text \<open>The address under which a file can be fetched: through this server, through another proxy, or directly.\<close>

definition raw_url ::
    "'b site_conf \<Rightarrow> int \<Rightarrow> string \<Rightarrow> Meta option \<Rightarrow> string \<Rightarrow> Obj \<Rightarrow> 's mount \<Rightarrow> 's vfs \<Rightarrow> 's vfs \<times> (err + string)" where
  "raw_url C now ip meta reqPath ob v t =
     (let (t, encrypt) = isEncrypt t meta reqPath;
          query = (if encrypt \<or> signAll C then ''?sign='' @ sign_Sign (macOf C) (signConf C) now reqPath else []);
          drv = Driver (dStorage v);
          forceRedirectRawURL = (drv = ''BaiduYouth'');
          forcePreviewRawURL = (drv = ''Lark'' \<and> isLarkCloudDocName (GetName ob));
          forceProxyRawURL = (drv = ''Quark'' \<and> isVideo C (GetName ob))
      in if forceRedirectRawURL then (t, Inr (apiUrl C @ ''/d'' @ EncodePath reqPath True @ query))
         else if \<not> forcePreviewRawURL \<and> (MustProxy (config (driver_of v)) \<or> WebProxy (dStorage v) \<or> forceProxyRawURL) then
           (t, Inr (if DownProxyUrl (dStorage v) \<noteq> []
                    then BuildDownProxyURL C now (DownProxyUrl (dStorage v)) reqPath (DownProxySign (dStorage v))
                    else apiUrl C @ ''/p'' @ EncodePath reqPath True @ query))
         else case objUrl C ob of
                Some url \<Rightarrow> (t, Inr url)
              | None \<Rightarrow>
                  (case fs_link (theSite (apiOf C)) (Some (apiUrl C)) t reqPath \<lparr>IP = ip, LinkType = []\<rparr> of
                     (t, Inl e) \<Rightarrow> (t, Inl e)
                   | (t, Inr (link, _)) \<Rightarrow> (t, Inr (LinkURL link))))"

record FsGetResp =
  GetObj :: ObjResp
  RawURL :: string
  GetReadme :: string
  GetHeader :: string
  GetProvider :: string
  GetWebProxy :: bool
  Related :: "ObjResp list"

text \<open>The siblings of an object whose names begin like its name, with the settings found for the object.\<close>

definition related_objs ::
    "'b api \<Rightarrow> User \<Rightarrow> Meta option \<Rightarrow> string \<Rightarrow> Obj \<Rightarrow> 's vfs \<Rightarrow> ('s vfs \<times> Obj list) go" where
  "related_objs A user meta parentPath ob t =
     (case fs_list (theSite A) (Some user) meta t parentPath False of
        None \<Rightarrow> panic
      | Some (t, Inl e) \<Rightarrow> Some (t, [])
      | Some (t, Inr sameLevelFiles) \<Rightarrow> Some (t, filterRelated sameLevelFiles ob))"

definition FsGet ::
    "'b site_conf \<Rightarrow> int \<Rightarrow> string \<Rightarrow> User \<Rightarrow> string \<Rightarrow> string \<Rightarrow> ('s, 'b) world \<Rightarrow> (('s, 'b) world \<times> (int + FsGetResp)) go" where
  "FsGet C now ip user path password w =
     (let A = apiOf C
      in case authorize A user (JoinPath (roles (theSite A)) user path) password w of
           None \<Rightarrow> panic
         | Some (w, Inl code) \<Rightarrow> Some (w, Inl code)
         | Some (w, Inr (reqPath, meta)) \<Rightarrow>
             (case fs_get (theSite A) (tree w) reqPath of
                (t, Inl e) \<Rightarrow> Some (w\<lparr>tree := t\<rparr>, Inl 500)
              | (t, Inr ob) \<Rightarrow>
                  let (t, st) = GetStorage t reqPath
                  in case (if IsDir ob then (t, Inr [])
                           else case st of Inl e \<Rightarrow> (t, Inl e) | Inr v \<Rightarrow> raw_url C now ip meta reqPath ob v t) of
                       (t, Inl e) \<Rightarrow> Some (w\<lparr>tree := t\<rparr>, Inl 500)
                     | (t, Inr rawURL) \<Rightarrow>
                         let parentPath = path_Dir reqPath
                         in case related_objs A user meta parentPath ob t of
                              None \<Rightarrow> panic
                            | Some (t, related) \<Rightarrow>
                                (case nearest A (w\<lparr>tree := t\<rparr>) parentPath of
                                   None \<Rightarrow> panic
                                 | Some (w, parentMeta) \<Rightarrow>
                                     let (t, encrypt) = isEncrypt (tree w) meta reqPath;
                                         (t, parentEncrypt) = isEncrypt t (case parentMeta of Inl e \<Rightarrow> None | Inr m \<Rightarrow> m) parentPath
                                     in Some (w\<lparr>tree := t\<rparr>,
                                          Inr \<lparr>GetObj = (toObjResp C now parentPath encrypt ob)\<lparr>VirtualPath := FixAndCleanPath reqPath\<rparr>,
                                               RawURL = rawURL, GetReadme = getReadme meta reqPath, GetHeader = getHeader meta reqPath,
                                               GetProvider = (case st of Inl e \<Rightarrow> ''unknown'' | Inr v \<Rightarrow> ConfigName (config (driver_of v))),
                                               GetWebProxy = (case st of Inl e \<Rightarrow> False | Inr v \<Rightarrow> WebProxy (dStorage v)),
                                               Related = toObjsResp C now related parentPath parentEncrypt\<rparr>))))"

section \<open>The gate before downloads\<close>

definition needSign :: "'b site_conf \<Rightarrow> 's vfs \<Rightarrow> Meta option \<Rightarrow> string \<Rightarrow> 's vfs \<times> bool" where
  "needSign C t meta path =
     (if signAll C then (t, True)
      else case IsStorageSignEnabled t path of
             (t, True) \<Rightarrow> (t, True)
           | (t, False) \<Rightarrow>
               (t, case meta of
                     None \<Rightarrow> False
                   | Some m \<Rightarrow>
                       if MetaPassword m = [] then False
                       else if \<not> PSub m \<and> path \<noteq> MetaPath m then False else True))"

text \<open>\<^verbatim>\<open>Down\<close>: the code to answer, or the path for which the request goes on.\<close>

definition Down :: "'b site_conf \<Rightarrow> int \<Rightarrow> string \<Rightarrow> string \<Rightarrow> ('s, 'b) world \<Rightarrow> (('s, 'b) world \<times> (int + string)) go" where
  "Down C now param s w =
     (let rawPath = parsePath param
      in case nearest (apiOf C) w rawPath of
           None \<Rightarrow> panic
         | Some (w, Inl e) \<Rightarrow> Some (w, Inl 500)
         | Some (w, Inr meta) \<Rightarrow>
             let (t, need) = needSign C (tree w) meta rawPath
             in Some (w\<lparr>tree := t\<rparr>,
                      if need \<and> sign_Verify (macOf C) (signConf C) now rawPath (TrimSuffix s ''/'') \<noteq> None
                      then Inl 401 else Inr rawPath))"

section \<open>Pages partition a listing\<close>

lemma slice_range: "\<lbrakk>i \<le> j; j \<le> length xs\<rbrakk> \<Longrightarrow> slice xs (int i) (int j) = Some (take (j - i) (drop i xs))"
  by (simp add: slice_def nat_diff_distrib')

lemma pagination_page:
  assumes "0 < perPage" "int k * int perPage + int perPage < 2 ^ 63" "int (length xs) < 2 ^ 63"
  shows "pagination xs (int k + 1) (int perPage) = Some (int (length xs), take perPage (drop (k * perPage) xs))"
proof -
  have b: "int k \<le> int k * int perPage" using assms(1) by (simp add: mult_le_cancel_left1)
  have w: "wrap64 (int k) = int k" "wrap64 (int k * int perPage) = int (k * perPage)"
    "wrap64 (int (k * perPage) + int perPage) = int (k * perPage + perPage)"
    using assms b by (simp_all add: wrap64_bounds)
  let ?s = "k * perPage" and ?n = "length xs"
  consider "?n < ?s" | "?s \<le> ?n" "?n < ?s + perPage" | "?s + perPage \<le> ?n" by linarith
  then show ?thesis
  proof cases
    case 2
    then show ?thesis
      using assms(1) slice_range [of ?s ?n xs]
      by (simp add: pagination_def Let_def AllPerPage_def w del: of_nat_mult of_nat_add)
  next
    case 3
    then show ?thesis
      using assms(1) slice_range [of ?s "?s + perPage" xs]
      by (simp add: pagination_def Let_def AllPerPage_def w del: of_nat_mult of_nat_add)
  qed (use assms(1) in \<open>simp add: pagination_def Let_def AllPerPage_def w del: of_nat_mult\<close>)
qed

lemma pages_concat: "concat (map (\<lambda>k. take n (drop (k * n) xs)) [0..<m]) = take (m * n) xs"
proof (induction m)
  case (Suc m)
  have "take (Suc m * n) xs = take (m * n) xs @ take n (drop (m * n) xs)"
    using take_add [of "m * n" n xs] by (simp add: add.commute)
  with Suc show ?case by simp
qed simp

lemma calcPagesTotal_ceiling:
  assumes "0 < perPage" "int n + int perPage < 2 ^ 63"
  shows "calcPagesTotal (int n) (int perPage) = int ((n + perPage - 1) div perPage)"
proof (cases "n = 0")
  case True
  then show ?thesis using assms(1) by (simp add: calcPagesTotal_def AllPerPage_def)
next
  case False
  have "wrap64 (int n + int perPage) = int (n + perPage)" "wrap64 (int (n + perPage) - 1) = int (n + perPage - 1)"
    using assms by (auto simp: wrap64_bounds of_nat_diff)
  with assms(1) False show ?thesis
    by (simp add: calcPagesTotal_def AllPerPage_def signed_divide_int_def zdiv_int del: of_nat_add)
qed

lemma less_ceiling: "0 < p \<Longrightarrow> k < (n + p - 1) div p \<longleftrightarrow> k * p < (n::nat)"
proof -
  assume p: "0 < p"
  have "k < (n + p - 1) div p \<longleftrightarrow> Suc k * p \<le> n + p - 1"
    using less_eq_div_iff_mult_less_eq [OF p, of "Suc k" "n + p - 1"] by (simp add: Suc_le_eq)
  also have "\<dots> \<longleftrightarrow> k * p < n" using p by (simp add: algebra_simps) linarith
  finally show ?thesis .
qed

text \<open>Pages show everything once. For a page size from 1 to 500, the pages from the first to the last, in
  order, are the listing; every page but the last says that there is more and the last says there is
  not; a page past the end is empty.\<close>

theorem pages_partition_listing:
  assumes "1 \<le> perPage" "perPage \<le> 500" "int (length xs) < 2 ^ 40"
    and "pages = nat (calcPagesTotal (int (length xs)) (int perPage))"
  shows "concat (map (\<lambda>k. snd (the (pagination xs (int k + 1) (int perPage)))) [0..<pages]) = xs
    \<and> (\<forall>k < 2 ^ 40. pagination xs (int k + 1) (int perPage) \<noteq> None
         \<and> (hasMore (int k + 1) (int perPage) (int (length xs)) \<longleftrightarrow> Suc k < pages)
         \<and> (pages \<le> k \<longrightarrow> snd (the (pagination xs (int k + 1) (int perPage))) = []))"
proof -
  let ?n = "length xs"
  have small: "int k * int perPage + int perPage < 2 ^ 63" if "k < 2 ^ 40" for k
  proof -
    have "int k * int perPage \<le> 2 ^ 40 * 500" using that assms(2) by (intro mult_mono) auto
    then show ?thesis using assms(2) by simp
  qed
  have pages: "pages = (?n + perPage - 1) div perPage"
    using assms(1-3) by (simp add: assms(4) calcPagesTotal_ceiling)
  have less: "k < pages \<longleftrightarrow> k * perPage < ?n" for k unfolding pages using assms(1) by (intro less_ceiling) simp
  have page: "pagination xs (int k + 1) (int perPage) = Some (int ?n, take perPage (drop (k * perPage) xs))" if "k < 2 ^ 40" for k
    using assms(1,3) small [OF that] by (intro pagination_page) simp_all
  have "k < 2 ^ 40" if "k < pages" for k
  proof -
    have "k \<le> k * perPage" using assms(1) by simp
    also have "\<dots> < ?n" using that less [of k] by blast
    finally show ?thesis using assms(3) by simp
  qed
  then have "map (\<lambda>k. snd (the (pagination xs (int k + 1) (int perPage)))) [0..<pages]
      = map (\<lambda>k. take perPage (drop (k * perPage) xs)) [0..<pages]" by (simp add: page)
  moreover have "?n \<le> pages * perPage" using less [of pages] by simp
  ultimately have "concat (map (\<lambda>k. snd (the (pagination xs (int k + 1) (int perPage)))) [0..<pages]) = xs"
    by (simp only: pages_concat) simp
  moreover have "hasMore (int k + 1) (int perPage) (int ?n) \<longleftrightarrow> Suc k < pages" if "k < 2 ^ 40" for k
  proof -
    have "wrap64 ((int k + 1) * int perPage) = int (Suc k * perPage)"
      using small [OF that] by (simp add: wrap64_bounds algebra_simps)
    with assms(1) show ?thesis
      unfolding less hasMore_def AllPerPage_def by (simp only: of_nat_less_iff) simp
  qed
  moreover have "drop (k * perPage) xs = []" if "pages \<le> k" for k using less [of k] that by simp
  ultimately show ?thesis by (simp add: page)
qed

theorem pages_partition_listing_witness:
  "concat (map (\<lambda>k. snd (the (pagination [1, 2, 3 :: nat] (int k + 1) 2))) [0..<2]) = [1, 2, 3]"
proof -
  have "(2::nat) = nat (calcPagesTotal (int (length [1, 2, 3 :: nat])) (int 2))" by code_simp
  from pages_partition_listing [OF _ _ _ this] show ?thesis by simp
qed

text \<open>
  The page number is not bounded: the product with the page size wraps around and the request panics.
\<close>

lemma huge_page_panics: "pagination [x] 4611686018427387905 2 = None"
  by (simp add: pagination_def slice_def AllPerPage_def wrap64_def Let_def)

section \<open>Listings show what may be seen\<close>

lemma authorize_ok:
  assumes "authorize A user path password w = Some (w1, Inr (reqPath, meta))"
  shows "path = Inr reqPath" "nearest A w reqPath = Some (w1, Inr meta)" "tree w1 = tree w"
    "CanAccessWithRoles (roles (theSite A)) (regexs (theSite A)) (Some user) meta reqPath password = Some True"
  using assms by (auto simp: authorize_def split: sum.splits option.splits prod.splits if_splits dest: nearest_tree)

lemma slice_part:
  assumes "slice xs i j = Some ys"
  shows "\<exists>as bs. xs = as @ ys @ bs"
proof -
  have "ys = take (nat (j - i)) (drop (nat i) xs)" using assms by (auto simp: slice_def split: if_splits)
  then have "drop (nat i) xs = ys @ drop (nat (j - i)) (drop (nat i) xs)" by (metis append_take_drop_id)
  then show ?thesis by (metis append_take_drop_id)
qed

lemma pagination_part:
  assumes "pagination xs page perPage = Some (n, ys)"
  shows "\<exists>as bs. xs = as @ ys @ bs"
proof -
  have "ys = xs \<or> ys = [] \<or> (\<exists>i j. slice xs i j = Some ys)"
    using assms by (auto simp: pagination_def Let_def split: if_splits)
  then show ?thesis
    using slice_part append_Nil append_Nil2 by metis
qed

lemma IsStorageSignEnabled_same: "IsStorageSignEnabled t path = (t', b) \<Longrightarrow> same_but P t t'"
  by (auto simp: IsStorageSignEnabled_def split: prod.splits intro!: same_but_mounts)

lemma isEncrypt_same: "isEncrypt t meta path = (t', b) \<Longrightarrow> same_but P t t'"
  by (auto simp: isEncrypt_def split: prod.splits bool.splits dest: IsStorageSignEnabled_same)

text \<open>C20: What a listing shows. When \<^const>\<open>FsList\<close> answers with a page, the path asked for lies below the base
  path of the user, the user may access it with the password given and the settings nearest to it, and
  every object on the page may be read by a role of the user and is not hidden by these settings; no
  name appears twice, and nothing is changed behind any storage.\<close>

theorem FsList_shows_only_visible:
  assumes "FsList C now user req w = Some (w', Inr resp)" "storages_ok (mounts (tree w))"
    and "S = theSite (apiOf C)"
  shows "\<exists>reqPath w1 meta. JoinPath (roles S) user (lPath req) = Inr reqPath \<and> IsSubPath (BasePath user) reqPath
    \<and> nearest (apiOf C) w reqPath = Some (w1, Inr meta)
    \<and> CanAccessWithRoles (roles S) (regexs S) (Some user) meta reqPath (lPassword req) = Some True
    \<and> (\<forall>it \<in> set (Content resp).
         CanReadPathByRole (roles S) (Some user) (path_Join reqPath (RespName it))
         \<and> (\<forall>h \<in> set (hidden_patterns S (Some user) meta reqPath). \<exists>f. regexs S h = Some f \<and> \<not> f (RespName it)))
    \<and> distinct (map RespName (Content resp)) \<and> unchanged (tree w) (tree w')"
proof -
  let ?A = "apiOf C"
  obtain page perPage where pp: "normalizeListPage (lPage req) (lPerPage req) = (page, perPage)" by fastforce
  from assms(1) obtain w1 reqPath meta where a:
    "authorize ?A user (JoinPath (roles (theSite ?A)) user (lPath req)) (lPassword req) w = Some (w1, Inr (reqPath, meta))"
    by (auto simp: FsList_def Let_def pp split: option.splits sum.splits prod.splits)
  note au = authorize_ok [OF a]
  obtain t1 st where g: "GetStorage (tree w) reqPath = (t1, st)" by fastforce
  have u1: "unchanged (tree w) t1" by (rule GetStorage_same [OF g])
  from assms(1) a g au(3) obtain t2 objs where l: "fs_list (theSite ?A) (Some user) meta t1 reqPath (lRefresh req) = Some (t2, Inr objs)"
    by (auto simp: FsList_def Let_def pp split: option.splits sum.splits if_splits)
  have u2: "unchanged t1 t2" by (rule fs_list_same [OF l same_but_storages_ok [OF u1 assms(2)]])
  from assms(1) a g au(3) l obtain n objs' where p: "pagination (readable ?A user reqPath objs) page perPage = Some (n, objs')"
    by (auto simp: FsList_def Let_def pp split: option.splits if_splits)
  obtain t3 enc where e: "isEncrypt t2 meta reqPath = (t3, enc)" by fastforce
  have w': "w' = w1\<lparr>tree := t3\<rparr>" "Content resp = toObjsResp C now objs' reqPath enc"
    using assms(1) a g au(3) l p e by (auto simp: FsList_def Let_def pp split: if_splits)
  obtain as bs where ab: "readable ?A user reqPath objs = as @ objs' @ bs" using pagination_part [OF p] by blast
  then have sub: "set objs' \<subseteq> set (readable ?A user reqPath objs)" by auto
  have r: "CanReadPathByRole (roles S) (Some user) (path_Join reqPath (GetName ob))" if "ob \<in> set objs'" for ob
    using sub that assms(3) by (auto simp: readable_def)
  have "distinct (map GetName (readable ?A user reqPath objs))"
    using fs_list_visible(1) [OF l] by (simp add: readable_def distinct_map_filter)
  then have "distinct (map GetName objs')" by (simp add: ab)
  moreover have "map RespName (Content resp) = map GetName objs'" by (simp add: w' toObjsResp_def toObjResp_def)
  moreover have "\<exists>f. regexs S h = Some f \<and> \<not> f (GetName ob)"
    if "ob \<in> set objs'" "h \<in> set (hidden_patterns S (Some user) meta reqPath)" for ob h
    using fs_list_visible(2) [OF l] that sub assms(3) by (auto simp: readable_def)
  moreover have "unchanged (tree w) (tree w')"
    using u1 u2 isEncrypt_same [OF e] w' by (auto intro: same_but_trans)
  moreover have "JoinPath (roles S) user (lPath req) = Inr reqPath" using au(1) assms(3) by simp
  moreover from JoinPath_comps [OF this] have "IsSubPath (BasePath user) reqPath"
    by (metis IsSubPath_comps fcomps_fix fcomps_render list_all_append prefixI)
  ultimately show ?thesis
    using r au assms(3) by (intro exI [of _ reqPath] exI [of _ w1] exI [of _ meta]) (auto simp: w' toObjsResp_def toObjResp_def comp_def)
qed

definition demo_conf :: "int32 \<Rightarrow> Meta list site_conf" where
  "demo_conf perm = \<lparr>apiOf = demo_api perm, macOf = (\<lambda>k m. k @ m), signConf = \<lparr>secret = ''s'', linkExpiration = 0\<rparr>,
     signAll = True, apiUrl = ''http://h'', isVideo = (\<lambda>_. False), objUrl = (\<lambda>_. None)\<rparr>"

definition list_root :: ListReq where
  "list_root = \<lparr>lPath = ''/'', lPassword = [], lRefresh = False, lPage = 1, lPerPage = 0\<rparr>"

text \<open>A request was answered, with a result of which something holds.\<close>

definition answered :: "('w \<times> (int + 'r)) go \<Rightarrow> ('r \<Rightarrow> bool) \<Rightarrow> bool" where
  "answered x P = (case x of Some (w, Inr r) \<Rightarrow> P r | _ \<Rightarrow> False)"

lemma answeredE: "\<lbrakk>answered x P; \<And>w r. \<lbrakk>x = Some (w, Inr r); P r\<rbrakk> \<Longrightarrow> R\<rbrakk> \<Longrightarrow> R"
  by (cases x; cases "snd (the x)") (auto simp: answered_def)

theorem FsList_shows_only_visible_witness:
  "\<exists>w' resp. FsList (demo_conf 0) 0 (guest_of ''/a'') list_root two_shelves = Some (w', Inr resp)
     \<and> distinct (map RespName (Content resp)) \<and> unchanged (tree two_shelves) (tree w')"
proof -
  have "answered (FsList (demo_conf 0) 0 (guest_of ''/a'') list_root two_shelves) (\<lambda>r. True)" by code_simp
  then obtain w' resp where h: "FsList (demo_conf 0) 0 (guest_of ''/a'') list_root two_shelves = Some (w', Inr resp)"
    by (rule answeredE)
  have "storages_ok (mounts (tree two_shelves))" by code_simp
  from FsList_shows_only_visible [OF h this refl] h show ?thesis by blast
qed

section \<open>Downloads\<close>

text \<open>C21: The gate before downloads. A request for a path that is protected, because every link must be signed,
  because its storage asks for signatures or because the settings nearest to it have a password, passes
  only with the signature of that very path under the secret of the server, unexpired.\<close>

theorem protected_download_needs_signature:
  assumes "Down C now param s w = Some (w', Inr p)"
    and "signAll C \<or> snd (IsStorageSignEnabled (tree w) p)
      \<or> (\<exists>w1 m. nearest (apiOf C) w p = Some (w1, Inr (Some m)) \<and> MetaPassword m \<noteq> [] \<and> (PSub m \<or> MetaPath m = p))"
  shows "p = parsePath param
    \<and> (\<exists>n. int64_range n \<and> (n = 0 \<or> unix now \<le> n) \<and> TrimSuffix s ''/'' = HMAC_Sign (macOf C) (secret (signConf C)) p n)"
proof -
  from assms(1) obtain w1 meta where n: "nearest (apiOf C) w (parsePath param) = Some (w1, Inr meta)"
    by (auto simp: Down_def Let_def split: option.splits sum.splits prod.splits)
  have t: "tree w1 = tree w" by (rule nearest_tree [OF n])
  obtain t2 need where ns: "needSign C (tree w) meta (parsePath param) = (t2, need)" by fastforce
  have p: "p = parsePath param" "need \<longrightarrow> sign_Verify (macOf C) (signConf C) now p (TrimSuffix s ''/'') = None"
    using assms(1) n ns t by (auto simp: Down_def Let_def split: if_splits)
  have "snd (needSign C (tree w) meta p)"
    using assms(2) n p(1) by (auto simp: needSign_def split: prod.splits bool.splits)
  then have need using ns p(1) by simp
  with p show ?thesis by (simp add: sign_Verify_def Verify_iff)
qed

theorem protected_download_needs_signature_witness:
  "\<exists>w'. Down (demo_conf 0) 7 ''/a/x'' (HMAC_Sign (\<lambda>k m. k @ m) ''s'' ''/a/x'' 0) two_shelves = Some (w', Inr ''/a/x'')
     \<and> ''/a/x'' = parsePath ''/a/x''"
proof -
  let ?s = "HMAC_Sign (\<lambda>k m. k @ m) ''s'' ''/a/x'' 0"
  have "answered (Down (demo_conf 0) 7 ''/a/x'' ?s two_shelves) (\<lambda>p. p = ''/a/x'')" by code_simp
  then obtain w' where h: "Down (demo_conf 0) 7 ''/a/x'' ?s two_shelves = Some (w', Inr ''/a/x'')"
    by (rule answeredE) simp
  have "signAll (demo_conf 0)" by (simp add: demo_conf_def)
  with protected_download_needs_signature [OF h] h show ?thesis by blast
qed

lemma TrimSuffix_signature: "TrimSuffix (HMAC_Sign mac key data n) ''/'' = HMAC_Sign mac key data n"
proof -
  have "last (FormatInt n) \<in> set (FormatInt n)" by simp
  then have "last (FormatInt n) \<noteq> CHR ''/''" using FormatInt_chars [of _ n] is_digit_not_sign by fastforce
  then have "last (HMAC_Sign mac key data n) \<noteq> CHR ''/''" by (simp add: HMAC_Sign_def Let_def)
  then show ?thesis by (auto simp: TrimSuffix_def HasSuffix_def suffix_def)
qed

text \<open>The links handed out work. When links do not expire, the signature that a listing gives for a file
  opens the gate for the path the listing gives: a later download request for that path is not refused.\<close>

theorem listed_link_opens:
  assumes "FsList C now user req w = Some (w', Inr resp)" "it \<in> set (Content resp)" "RespSign it \<noteq> []" "fix_comp (RespName it)"
    and "linkExpiration (signConf C) = 0" "meta_coherent (metaDb (apiOf C)) (rules w2)" "parsePath param = VirtualPath it"
  shows "\<exists>w3 r. Down C now2 param (RespSign it) w2 = Some (w3, r) \<and> r \<noteq> Inl 401"
proof -
  obtain page perPage where pp: "normalizeListPage (lPage req) (lPerPage req) = (page, perPage)" by fastforce
  from assms(1) obtain w1 reqPath meta where a:
    "authorize (apiOf C) user (JoinPath (roles (theSite (apiOf C))) user (lPath req)) (lPassword req) w = Some (w1, Inr (reqPath, meta))"
    by (auto simp: FsList_def Let_def pp split: option.splits sum.splits prod.splits)
  from JoinPath_comps [OF authorize_ok(1) [OF a]] obtain cs where cs: "list_all fix_comp cs" "reqPath = render cs"
    by (metis fcomps_fix list_all_append)
  from assms(1,2) a obtain ob enc where ob: "it = toObjResp C now reqPath enc ob"
    by (auto simp: FsList_def Let_def pp toObjsResp_def split: option.splits sum.splits prod.splits if_splits)
  let ?p = "path_Join reqPath (GetName ob)"
  have v: "fix_comp (GetName ob)" using assms(4) ob by (simp add: toObjResp_def)
  then have "?p = render (cs @ [GetName ob])" using cs path_Join_one [of cs "GetName ob"] fix_valid by (simp add: fix_comp_def)
  then have vp: "VirtualPath it = ?p" using v cs(1) ob FixAndCleanPath_id [of "cs @ [GetName ob]"] by (simp add: toObjResp_def)
  have s: "RespSign it = HMAC_Sign (macOf C) (secret (signConf C)) ?p 0"
    using assms(3,5) ob by (auto simp: toObjResp_def common_Sign_def sign_Sign_def NotExpired_def split: if_splits)
  have "sign_Verify (macOf C) (signConf C) now2 (parsePath param) (TrimSuffix (RespSign it) ''/'') = None"
    unfolding sign_Verify_def assms(7) vp s TrimSuffix_signature Verify_iff
    by (intro exI [of _ 0]) (simp add: int64_range_def)
  moreover obtain w3 r where "nearest (apiOf C) w2 (parsePath param) = Some (w3, r)" using nearest_ok [OF assms(6)] by blast
  ultimately show ?thesis by (cases r) (auto simp: Down_def Let_def split: prod.splits)
qed

definition holding :: "Obj list \<Rightarrow> (Obj list, Meta list) world" where
  "holding objs = two_shelves\<lparr>tree := (tree two_shelves)\<lparr>mounts :=
     [(''/a'', \<lparr>dStorage = a_storage\<lparr>MountPath := ''/a''\<rparr>, dState = (shelf, objs)\<rparr>)]\<rparr>\<rparr>"

definition a_file :: "string \<Rightarrow> Obj" where
  "a_file n = Obj \<lparr>ObjID = [], ObjPath = [], ObjName = n, ObjSize = 3, ObjModified = 0, IsFolder = False\<rparr>"

theorem listed_link_opens_witness:
  "\<exists>w' resp it w3 r. FsList (demo_conf 0) 0 (guest_of ''/a'') list_root (holding [a_file ''x'']) = Some (w', Inr resp)
     \<and> it \<in> set (Content resp) \<and> Down (demo_conf 0) 9 ''/a/x'' (RespSign it) two_shelves = Some (w3, r) \<and> r \<noteq> Inl 401"
proof -
  let ?P = "\<lambda>r. map RespName (Content r) = [''x''] \<and> map VirtualPath (Content r) = [''/a/x''] \<and> map RespSign (Content r) \<noteq> [[]]"
  have "answered (FsList (demo_conf 0) 0 (guest_of ''/a'') list_root (holding [a_file ''x''])) ?P" by code_simp
  then obtain w' resp where h: "FsList (demo_conf 0) 0 (guest_of ''/a'') list_root (holding [a_file ''x'']) = Some (w', Inr resp)"
    "?P resp" by (rule answeredE)
  then obtain it where it: "Content resp = [it]" "RespName it = ''x''" "VirtualPath it = ''/a/x''" "RespSign it \<noteq> []"
    by (auto simp: map_eq_Cons_conv)
  have "fix_comp ''x''" "parsePath ''/a/x'' = ''/a/x''" by code_simp+
  moreover have "meta_coherent (metaDb (apiOf (demo_conf 0))) (rules two_shelves)"
    by (simp add: meta_coherent_def two_shelves_def)
  moreover have "linkExpiration (signConf (demo_conf 0)) = 0" by (simp add: demo_conf_def)
  ultimately have "\<exists>w3 r. Down (demo_conf 0) 9 ''/a/x'' (RespSign it) two_shelves = Some (w3, r) \<and> r \<noteq> Inl 401"
    using listed_link_opens [OF h(1), of it two_shelves "''/a/x''" 9] it by simp
  with h(1) it(1) show ?thesis by fastforce
qed

definition b_conf :: "Meta list site_conf" where
  "b_conf = (demo_conf 0)\<lparr>apiOf := (demo_api 0)\<lparr>theSite := (theSite (demo_api 0))\<lparr>roles := one_role ''/a/b'' 0\<rparr>\<rparr>\<rparr>"

text \<open>\<^const>\<open>FsGet\<close> lists beside an object its siblings whose names begin alike, without asking whether the user
  may read them: for the base folder of a user these lie outside the base path.\<close>

theorem FsGet_shows_siblings_of_base:
  "\<exists>w' resp it. FsGet b_conf 0 [] (guest_of ''/a/b'') ''/'' [] (holding [a_dir ''b'', a_dir ''b2'']) = Some (w', Inr resp)
     \<and> it \<in> set (Related resp) \<and> VirtualPath it = ''/a/b2'' \<and> \<not> IsSubPath (BasePath (guest_of ''/a/b'')) (VirtualPath it)
     \<and> \<not> CanReadPathByRole (roles (theSite (apiOf b_conf))) (Some (guest_of ''/a/b'')) (VirtualPath it)"
proof -
  have "answered (FsGet b_conf 0 [] (guest_of ''/a/b'') ''/'' [] (holding [a_dir ''b'', a_dir ''b2'']))
      (\<lambda>r. map VirtualPath (Related r) = [''/a/b2''])" by code_simp
  then obtain w' resp where h: "FsGet b_conf 0 [] (guest_of ''/a/b'') ''/'' [] (holding [a_dir ''b'', a_dir ''b2'']) = Some (w', Inr resp)"
    "map VirtualPath (Related resp) = [''/a/b2'']" by (rule answeredE)
  then obtain it where it: "Related resp = [it]" "VirtualPath it = ''/a/b2''" by (auto simp: map_eq_Cons_conv)
  have "\<not> IsSubPath (BasePath (guest_of ''/a/b'')) ''/a/b2''"
    "\<not> CanReadPathByRole (roles (theSite (apiOf b_conf))) (Some (guest_of ''/a/b'')) ''/a/b2''" by code_simp+
  with h(1) it show ?thesis by (intro exI [of _ w'] exI [of _ resp] exI [of _ it]) simp
qed

end
