(* ===== verification/Shares.thy ===== *)
theory Shares
  imports FsRead
begin

text \<open>
  Public shares (\<^verbatim>\<open>internal/model/share.go\<close>, \<^verbatim>\<open>internal/db/share.go\<close>, \<^verbatim>\<open>internal/share/access.go\<close>,
  \<^verbatim>\<open>server/handles/share.go\<close>, \<^verbatim>\<open>share_public.go\<close>): a link to a path that anybody may open, with an
  optional password, an expiry, and a limit on the number of downloads.  The rows are reached through
  \<^verbatim>\<open>gorm\<close>: the queries are the functions of \<open>share_db\<close>.  Times are nanoseconds; the signature of a
  password session covers \<^verbatim>\<open>UpdatedAt\<close> in seconds.
\<close>

section \<open>Shares\<close>

record Share =
  ShID :: nat
  ShareID :: string
  CreatorID :: nat
  ShName :: string
  RootPath :: string
  ShIsDir :: bool
  PasswordHash :: string
  PasswordSalt :: string
  BurnAfterRead :: bool
  AccessLimit :: int
  AccessCount :: int
  AllowPreview :: bool
  AllowDownload :: bool
  Enabled :: bool
  ViewCount :: int
  DownloadCount :: int
  ConsumedAt :: "int option"
  ExpiresAt :: "int option"
  UpdatedAt :: "int option"

definition HasPassword :: "Share \<Rightarrow> bool" where
  "HasPassword s \<longleftrightarrow> PasswordHash s \<noteq> []"

definition EffectiveAccessLimit :: "Share \<Rightarrow> int" where
  "EffectiveAccessLimit s = (if AccessLimit s > 0 then AccessLimit s else if BurnAfterRead s then 1 else 0)"

definition RemainingAccesses :: "Share \<Rightarrow> int" where
  "RemainingAccesses s =
     (let limit = EffectiveAccessLimit s
      in if limit \<le> 0 then 0 else let remaining = wrap64 (limit - AccessCount s) in if remaining < 0 then 0 else remaining)"

definition IsConsumed :: "Share \<Rightarrow> bool" where
  "IsConsumed s \<longleftrightarrow> (let limit = EffectiveAccessLimit s in ConsumedAt s \<noteq> None \<or> (limit > 0 \<and> AccessCount s \<ge> limit))"

definition IsExpired :: "int \<Rightarrow> Share \<Rightarrow> bool" where
  "IsExpired now s \<longleftrightarrow> (case ExpiresAt s of None \<Rightarrow> False | Some e \<Rightarrow> \<not> e > now)"

section \<open>Sessions (internal/share/access.go)\<close>

definition tokenPayload :: "Share \<Rightarrow> string" where
  "tokenPayload s =
     ShareID s @ '':'' @ PasswordHash s @ '':'' @ FormatInt (case UpdatedAt s of None \<Rightarrow> 0 | Some t \<Rightarrow> unix t)"

definition share_key :: "sign_conf \<Rightarrow> string" where
  "share_key c = secret c @ ''-share-access''"

definition SignAccess :: "mac \<Rightarrow> sign_conf \<Rightarrow> int \<Rightarrow> Share \<Rightarrow> int \<Rightarrow> string" where
  "SignAccess mac c now s d = HMAC_Sign mac (share_key c) (tokenPayload s) (unix (now + d))"

definition VerifyAccess :: "mac \<Rightarrow> sign_conf \<Rightarrow> int \<Rightarrow> Share \<Rightarrow> string \<Rightarrow> sign_err option" where
  "VerifyAccess mac c now s tok = HMAC_Verify mac (share_key c) (unix now) (tokenPayload s) tok"

section \<open>Access (server/handles/share.go)\<close>

definition sharePasswordHash :: "(string \<Rightarrow> string) \<Rightarrow> string \<Rightarrow> string \<Rightarrow> string" where
  "sharePasswordHash sha password salt = HashPwd sha (StaticHash sha password) salt"

definition sharePasswordMatched :: "(string \<Rightarrow> string) \<Rightarrow> Share \<Rightarrow> string \<Rightarrow> bool" where
  "sharePasswordMatched sha s password \<longleftrightarrow>
     (if \<not> HasPassword s then True else sharePasswordHash sha password (PasswordSalt s) = PasswordHash s)"

text \<open>The code to answer, or none when the share may be used.\<close>

definition ensureShareAvailable :: "int \<Rightarrow> Share \<Rightarrow> int option" where
  "ensureShareAvailable now s =
     (if IsConsumed s then Some 410 else if \<not> Enabled s then Some 404 else if IsExpired now s then Some 410 else None)"

definition ensureShareAccess :: "mac \<Rightarrow> sign_conf \<Rightarrow> int \<Rightarrow> Share \<Rightarrow> string \<Rightarrow> int option" where
  "ensureShareAccess mac c now s tok =
     (if \<not> HasPassword s then None
      else if tok = [] then Some 401
      else if VerifyAccess mac c now s tok \<noteq> None then Some 401 else None)"

definition resolveShareTarget :: "Share \<Rightarrow> string \<Rightarrow> err + string \<times> string" where
  "resolveShareTarget s rawRelPath =
     (let cleanRelPath = FixAndCleanPath rawRelPath
      in if \<not> ShIsDir s \<and> cleanRelPath \<noteq> ''/'' then Inl (ErrMsg ''file share does not support nested path'')
         else if cleanRelPath = ''/'' then Inr (RootPath s, ''/'')
         else let target = FixAndCleanPath (path_Join (RootPath s) cleanRelPath)
              in if \<not> IsSubPath (RootPath s) target then Inl (ErrMsg ''share path out of range'')
                 else Inr (target, cleanRelPath))"

definition resolveShareWildcardTarget :: "Share \<Rightarrow> string \<Rightarrow> err + string \<times> string" where
  "resolveShareWildcardTarget s rawPath =
     (case PathUnescape rawPath of
        None \<Rightarrow> Inl (ErrExt ''invalid URL escape'')
      | Some path \<Rightarrow> resolveShareTarget s (TrimPrefix path ''/''))"

definition normalizeShareAccessLimit :: "int \<Rightarrow> bool option \<Rightarrow> err + int \<times> bool" where
  "normalizeShareAccessLimit accessLimit burn =
     (if accessLimit < 0 then Inl (ErrMsg ''access_limit must be 0 or greater'')
      else let accessLimit = (if accessLimit = 0 \<and> burn = Some True then 1 else accessLimit)
           in Inr (accessLimit, accessLimit = 1))"

section \<open>Rows (internal/db/share.go)\<close>

record 'b share_db =
  shTake :: "'b \<Rightarrow> string \<Rightarrow> err + Share"
  shTouchDownload :: "'b \<Rightarrow> string \<Rightarrow> 'b \<times> err option"
  shTouchView :: "'b \<Rightarrow> string \<Rightarrow> 'b \<times> err option"
  shUpdates :: "'b \<Rightarrow> Share \<Rightarrow> int \<Rightarrow> bool \<Rightarrow> int \<Rightarrow> 'b \<times> err option"

text \<open>
  \<^verbatim>\<open>RecordShareAccess\<close>: in one transaction the row is locked and read, and its counter is written back;
  \<open>shUpdates db row count consumed now\<close> is the update of the columns of that row.
\<close>

definition RecordShareAccess :: "'b share_db \<Rightarrow> int \<Rightarrow> 'b \<Rightarrow> string \<Rightarrow> 'b \<times> (err + Share)" where
  "RecordShareAccess B now db shareID =
     (case shTake B db shareID of
        Inl e \<Rightarrow> (db, Inl e)
      | Inr row \<Rightarrow>
          let updated = row\<lparr>AccessCount := wrap64 (AccessCount row + 1)\<rparr>;
              limit = EffectiveAccessLimit updated;
              consumed = (limit > 0 \<and> AccessCount updated \<ge> limit);
              updated = (if consumed then updated\<lparr>Enabled := False, ConsumedAt := Some now\<rparr> else updated)
          in case shUpdates B db row (AccessCount updated) consumed now of
               (db', Some e) \<Rightarrow> (db', Inl e)
             | (db', None) \<Rightarrow> (db', Inr updated))"

section \<open>Downloads (server/handles/share_public.go)\<close>

record share_req =
  rqShareID :: string
  rqToken :: string
  rqPath :: string
  rqIsHead :: bool

text \<open>
  The checks of \<^verbatim>\<open>ShareDown\<close> (\<open>preview = False\<close>) and \<^verbatim>\<open>ShareProxy\<close> (\<open>preview = True\<close>) up to the first
  write, then the count.  The result is the path that is served, or the code to answer.
\<close>

definition share_admit ::
    "bool \<Rightarrow> 'b share_db \<Rightarrow> mac \<Rightarrow> sign_conf \<Rightarrow> site \<Rightarrow> int \<Rightarrow> share_req \<Rightarrow> 'b \<Rightarrow> 's vfs \<Rightarrow> 's vfs \<times> (int + Share \<times> string)" where
  "share_admit preview B mac c S now rq db t =
     (case shTake B db (rqShareID rq) of
        Inl e \<Rightarrow> (t, Inl 404)
      | Inr s \<Rightarrow>
          (case ensureShareAvailable now s of
             Some code \<Rightarrow> (t, Inl code)
           | None \<Rightarrow>
               if \<not> (if preview then AllowPreview s else AllowDownload s) then (t, Inl 403)
               else case ensureShareAccess mac c now s (rqToken rq) of
                      Some code \<Rightarrow> (t, Inl code)
                    | None \<Rightarrow>
                        (case resolveShareWildcardTarget s (rqPath rq) of
                           Inl e \<Rightarrow> (t, Inl 400)
                         | Inr (target, _) \<Rightarrow>
                             (case fs_get S t target of
                                (t, Inl e) \<Rightarrow> (t, Inl 404)
                              | (t, Inr ob) \<Rightarrow> (t, if IsDir ob then Inl 400 else Inr (s, target))))))"

definition share_count :: "bool \<Rightarrow> 'b share_db \<Rightarrow> int \<Rightarrow> share_req \<Rightarrow> Share \<Rightarrow> 'b \<Rightarrow> 'b \<times> bool" where
  "share_count preview B now rq s db =
     (if rqIsHead rq then (db, True)
      else let db = (if preview then db else fst (shTouchDownload B db (ShareID s)))
           in case RecordShareAccess B now db (ShareID s) of (db, Inl e) \<Rightarrow> (db, False) | (db, Inr _) \<Rightarrow> (db, True))"

definition serve_share ::
    "bool \<Rightarrow> 'b share_db \<Rightarrow> mac \<Rightarrow> sign_conf \<Rightarrow> site \<Rightarrow> int \<Rightarrow> share_req \<Rightarrow> 'b \<Rightarrow> 's vfs \<Rightarrow> 'b \<times> 's vfs \<times> (int + string)" where
  "serve_share preview B mac c S now rq db t =
     (case share_admit preview B mac c S now rq db t of
        (t, Inl code) \<Rightarrow> (db, t, Inl code)
      | (t, Inr (s, target)) \<Rightarrow>
          (case share_count preview B now rq s db of
             (db, True) \<Rightarrow> (db, t, Inr target)
           | (db, False) \<Rightarrow> (db, t, Inl 500)))"

definition ShareDown where "ShareDown = serve_share False"

definition ShareProxy where "ShareProxy = serve_share True"

section \<open>What is served\<close>

lemma resolveShareTarget_below:
  assumes "resolveShareTarget s p = Inr (target, rel)"
  shows "IsSubPath (RootPath s) target \<and> (\<not> ShIsDir s \<longrightarrow> target = RootPath s)"
  using assms by (auto simp: resolveShareTarget_def Let_def split: if_splits)

text \<open>What the checks before a download have established.\<close>

lemma share_admit_ok:
  assumes a: "share_admit preview B mac c S now rq db t = (t1, Inr (s, target))"
  shows "shTake B db (rqShareID rq) = Inr s" "ensureShareAvailable now s = None"
    "if preview then AllowPreview s else AllowDownload s" "ensureShareAccess mac c now s (rqToken rq) = None"
    "IsSubPath (RootPath s) target \<and> (\<not> ShIsDir s \<longrightarrow> target = RootPath s)"
proof -
  show tk: "shTake B db (rqShareID rq) = Inr s"
    using a by (auto simp: share_admit_def split: sum.splits option.splits if_splits prod.splits)
  show "ensureShareAvailable now s = None" "if preview then AllowPreview s else AllowDownload s"
    "ensureShareAccess mac c now s (rqToken rq) = None"
    using a by (auto simp: share_admit_def tk split: sum.splits option.splits if_splits prod.splits)
  have "\<exists>rel. resolveShareWildcardTarget s (rqPath rq) = Inr (target, rel)"
    using a by (auto simp: share_admit_def tk split: sum.splits option.splits if_splits prod.splits)
  then show "IsSubPath (RootPath s) target \<and> (\<not> ShIsDir s \<longrightarrow> target = RootPath s)"
    using resolveShareTarget_below by (auto simp: resolveShareWildcardTarget_def split: option.splits)
qed

lemma serve_share_admitted:
  assumes "serve_share preview B mac c S now rq db t = (db', t', Inr target)"
  obtains t1 s where "share_admit preview B mac c S now rq db t = (t1, Inr (s, target))"
  using assms by (auto simp: serve_share_def split: prod.splits sum.splits bool.splits)

text \<open>C22: What a share gives out. A download or preview through a share serves a path below the root of the share
  (a shared file: that file only), and only while the share is enabled, not expired, not used up and the
  kind of access is allowed; when the share has a password, only to a holder of an unexpired session
  signed for its present state.\<close>

theorem share_serves_only_what_is_shared:
  assumes "serve_share preview B mac c S now rq db t = (db', t', Inr target)"
  shows "\<exists>s. shTake B db (rqShareID rq) = Inr s \<and> IsSubPath (RootPath s) target \<and> (\<not> ShIsDir s \<longrightarrow> target = RootPath s)
    \<and> Enabled s \<and> \<not> IsConsumed s \<and> \<not> IsExpired now s \<and> (if preview then AllowPreview s else AllowDownload s)
    \<and> (HasPassword s \<longrightarrow> (\<exists>n. int64_range n \<and> (n = 0 \<or> unix now \<le> n)
          \<and> rqToken rq = HMAC_Sign mac (share_key c) (tokenPayload s) n))"
proof -
  from assms obtain t1 s where a: "share_admit preview B mac c S now rq db t = (t1, Inr (s, target))"
    by (rule serve_share_admitted)
  note tk = share_admit_ok(1) [OF a] and av = share_admit_ok(2-5) [OF a]
  note av(4)
  moreover have "HasPassword s \<longrightarrow> (\<exists>n. int64_range n \<and> (n = 0 \<or> unix now \<le> n)
      \<and> rqToken rq = HMAC_Sign mac (share_key c) (tokenPayload s) n)"
    using av(3) by (auto simp: ensureShareAccess_def VerifyAccess_def Verify_iff [symmetric] split: if_splits)
  ultimately show ?thesis
    using tk av(1,2) by (auto simp: ensureShareAvailable_def split: if_splits)
qed

text \<open>A table with one row, for the witnesses.\<close>

definition one_share :: Share where
  "one_share = \<lparr>ShID = 1, ShareID = ''k'', CreatorID = 1, ShName = ''x'', RootPath = ''/a/x'', ShIsDir = False, PasswordHash = [],
     PasswordSalt = [], BurnAfterRead = True, AccessLimit = 1, AccessCount = 0, AllowPreview = True, AllowDownload = True,
     Enabled = True, ViewCount = 0, DownloadCount = 0, ConsumedAt = None, ExpiresAt = None, UpdatedAt = None\<rparr>"

definition one_row :: "Share share_db" where
  "one_row = \<lparr>shTake = (\<lambda>row k. if ShareID row = k then Inr row else Inl RecordNotFound),
     shTouchDownload = (\<lambda>row k. (if ShareID row = k then row\<lparr>DownloadCount := DownloadCount row + 1\<rparr> else row, None)),
     shTouchView = (\<lambda>row k. (if ShareID row = k then row\<lparr>ViewCount := ViewCount row + 1\<rparr> else row, None)),
     shUpdates = (\<lambda>row _ n used now. (row\<lparr>AccessCount := n, Enabled := (Enabled row \<and> \<not> used),
        ConsumedAt := (if used then Some now else ConsumedAt row), UpdatedAt := Some now\<rparr>, None))\<rparr>"

abbreviation get_k :: share_req where
  "get_k \<equiv> \<lparr>rqShareID = ''k'', rqToken = [], rqPath = ''/'', rqIsHead = False\<rparr>"

theorem share_serves_only_what_is_shared_witness:
  "\<exists>db' t'. serve_share False one_row (\<lambda>k m. k @ m) \<lparr>secret = ''s'', linkExpiration = 0\<rparr> (theSite (demo_api 0)) 5 get_k
      one_share (tree (holding [a_file ''x''])) = (db', t', Inr ''/a/x'') \<and> IsSubPath (RootPath one_share) ''/a/x''"
proof -
  let ?r = "serve_share False one_row (\<lambda>k m. k @ m) \<lparr>secret = ''s'', linkExpiration = 0\<rparr> (theSite (demo_api 0)) 5 get_k
      one_share (tree (holding [a_file ''x'']))"
  have "snd (snd ?r) = Inr ''/a/x''" by code_simp
  then obtain db' t' where h: "?r = (db', t', Inr ''/a/x'')" by (metis prod.collapse)
  from share_serves_only_what_is_shared [OF h] have "IsSubPath (RootPath one_share) ''/a/x''"
    by (auto simp: one_row_def one_share_def split: if_splits)
  with h show ?thesis by blast
qed

section \<open>The limit on downloads\<close>

text \<open>
  What is assumed of the table: the row of a share is found under its identifier, the update of a
  transaction sets the columns it names and the time of the update or, when it fails, nothing, and
  counting downloads changes no other column.
\<close>

definition share_db_ok :: "'b share_db \<Rightarrow> string \<Rightarrow> bool" where
  "share_db_ok B k \<longleftrightarrow>
     (\<forall>db row. shTake B db k = Inr row \<longrightarrow> ShareID row = k)
   \<and> (\<forall>db row n used now db'. shTake B db k = Inr row \<and> shUpdates B db row n used now = (db', None)
        \<longrightarrow> (\<exists>upd. shTake B db' k = Inr (row\<lparr>AccessCount := n, Enabled := (Enabled row \<and> \<not> used),
              ConsumedAt := (if used then Some now else ConsumedAt row), UpdatedAt := Some upd\<rparr>)))
   \<and> (\<forall>db row n used now db' e. shUpdates B db row n used now = (db', Some e) \<longrightarrow> shTake B db' k = shTake B db k)
   \<and> (\<forall>db row. shTake B db k = Inr row
        \<longrightarrow> (\<exists>n. shTake B (fst (shTouchDownload B db k)) k = Inr (row\<lparr>DownloadCount := n\<rparr>)))"

text \<open>
  Requests for one share that overlap: each is admitted, then counted and served (or fails).  At most
  \<open>K\<close> are between the two at any time.  The state is the table, the number of requests in between, and
  the number served.
\<close>

inductive share_step ::
    "nat \<Rightarrow> 'b share_db \<Rightarrow> mac \<Rightarrow> sign_conf \<Rightarrow> site \<Rightarrow> string \<Rightarrow> 's itself \<Rightarrow> 'b \<times> nat \<times> nat \<Rightarrow> 'b \<times> nat \<times> nat \<Rightarrow> bool"
  for K B mac c S k T where
  admit: "\<lbrakk>share_admit preview B mac c S now rq db (t :: 's vfs) = (t', Inr (s, target)); rqShareID rq = k;
           \<not> rqIsHead rq; p < K\<rbrakk>
    \<Longrightarrow> share_step K B mac c S k T (db, p, n) (db, Suc p, n)"
| serve: "\<lbrakk>share_count preview B now rq s db = (db', True); ShareID s = k; \<not> rqIsHead rq\<rbrakk>
    \<Longrightarrow> share_step K B mac c S k T (db, Suc p, n) (db', p, Suc n)"
| fail: "\<lbrakk>share_count preview B now rq s db = (db', False); ShareID s = k; \<not> rqIsHead rq\<rbrakk>
    \<Longrightarrow> share_step K B mac c S k T (db, Suc p, n) (db', p, n)"

inductive_cases share_stepE: "share_step K B mac c S k T (db, p, n) (db', p', n')"

definition limit_inv :: "nat \<Rightarrow> 'b share_db \<Rightarrow> string \<Rightarrow> int \<Rightarrow> 'b \<times> nat \<times> nat \<Rightarrow> bool" where
  "limit_inv K B k L = (\<lambda>(db, p, n). \<exists>row. shTake B db k = Inr row \<and> EffectiveAccessLimit row = L
     \<and> AccessCount row = int n \<and> int n + int p \<le> L - 1 + int K)"

lemma limit_fields [simp]:
  "EffectiveAccessLimit (row\<lparr>DownloadCount := d\<rparr>) = EffectiveAccessLimit row"
  "EffectiveAccessLimit (row\<lparr>AccessCount := a, Enabled := e, ConsumedAt := cc, UpdatedAt := u\<rparr>) = EffectiveAccessLimit row"
  "EffectiveAccessLimit (row\<lparr>AccessCount := a\<rparr>) = EffectiveAccessLimit row"
  by (simp_all add: EffectiveAccessLimit_def)

lemma RecordShareAccess_counts:
  assumes ok: "share_db_ok B k" and row: "shTake B db k = Inr row" and n: "AccessCount row = int n" "int n + 1 < 2 ^ 63"
    and r: "RecordShareAccess B now db k = (db', res)"
  shows "\<exists>row'. shTake B db' k = Inr row' \<and> EffectiveAccessLimit row' = EffectiveAccessLimit row
     \<and> AccessCount row' = (case res of Inl e \<Rightarrow> int n | Inr _ \<Rightarrow> int (Suc n))"
proof -
  let ?used = "EffectiveAccessLimit row > 0 \<and> int n + 1 \<ge> EffectiveAccessLimit row"
  have w: "wrap64 (int n + 1) = int n + 1" using n(2) by (simp add: wrap64_bounds)
  obtain db1 e where u: "shUpdates B db row (int n + 1) ?used now = (db1, e)" by fastforce
  show ?thesis
  proof (cases e)
    case None
    with u ok row obtain upd where "shTake B db1 k = Inr (row\<lparr>AccessCount := int n + 1, Enabled := (Enabled row \<and> \<not> ?used),
        ConsumedAt := (if ?used then Some now else ConsumedAt row), UpdatedAt := Some upd\<rparr>)"
      unfolding share_db_ok_def by blast
    moreover have "db' = db1" "\<exists>x. res = Inr x"
      using r u None by (auto simp: RecordShareAccess_def row n(1) w Let_def split: if_splits)
    ultimately show ?thesis by auto
  next
    case (Some x)
    with u ok have "shTake B db1 k = shTake B db k" unfolding share_db_ok_def by blast
    moreover have "db' = db1" "res = Inl x"
      using r u Some by (auto simp: RecordShareAccess_def row n(1) w Let_def split: if_splits)
    ultimately show ?thesis using row n(1) by simp
  qed
qed

lemma share_count_counts:
  assumes ok: "share_db_ok B k" and row: "shTake B db k = Inr row" and n: "AccessCount row = int n" "int n + 1 < 2 ^ 63"
    and r: "share_count preview B now rq s db = (db', done)" "ShareID s = k" "\<not> rqIsHead rq"
  shows "\<exists>row'. shTake B db' k = Inr row' \<and> EffectiveAccessLimit row' = EffectiveAccessLimit row
     \<and> AccessCount row' = (if done then int (Suc n) else int n)"
proof -
  let ?db = "if preview then db else fst (shTouchDownload B db k)"
  obtain row1 where r1: "shTake B ?db k = Inr row1" "EffectiveAccessLimit row1 = EffectiveAccessLimit row" "AccessCount row1 = int n"
  proof (cases preview)
    case False
    from ok row obtain d where "shTake B (fst (shTouchDownload B db k)) k = Inr (row\<lparr>DownloadCount := d\<rparr>)"
      unfolding share_db_ok_def by blast
    with n(1) False that show ?thesis by simp
  qed (use row n(1) that in simp)
  obtain db2 res where rec: "RecordShareAccess B now ?db k = (db2, res)" by fastforce
  have "db' = db2 \<and> done = (case res of Inl e \<Rightarrow> False | Inr _ \<Rightarrow> True)"
    using r rec by (auto simp: share_count_def Let_def split: sum.splits prod.splits)
  with RecordShareAccess_counts [OF ok r1(1,3) n(2) rec] r1(2) show ?thesis by (auto split: sum.splits)
qed

lemma limit_inv_step:
  assumes ok: "share_db_ok B k" and L: "0 < L" "L + int K < 2 ^ 62"
    and s: "share_step K B mac c S k T x y" "limit_inv K B k L x"
  shows "limit_inv K B k L y"
  using s
proof (induction rule: share_step.induct)
  case (admit preview now rq db t t' s target p n)
  then obtain row where row: "shTake B db k = Inr row" "EffectiveAccessLimit row = L" "AccessCount row = int n"
    "int n + int p \<le> L - 1 + int K" by (auto simp: limit_inv_def)
  have "\<not> IsConsumed row"
    using admit(1,2) row(1) by (auto simp: share_admit_def ensureShareAvailable_def split: if_splits)
  then have "int n < L" using row L(1) by (auto simp: IsConsumed_def Let_def)
  with row admit(4) show ?case by (auto simp: limit_inv_def)
next
  case (serve preview now rq s db db' p n)
  then obtain row where row: "shTake B db k = Inr row" "EffectiveAccessLimit row = L" "AccessCount row = int n"
    "int n + int (Suc p) \<le> L - 1 + int K" by (auto simp: limit_inv_def)
  with L share_count_counts [OF ok row(1,3) _ serve(1-3)] show ?case by (auto simp: limit_inv_def)
next
  case (fail preview now rq s db db' p n)
  then obtain row where row: "shTake B db k = Inr row" "EffectiveAccessLimit row = L" "AccessCount row = int n"
    "int n + int (Suc p) \<le> L - 1 + int K" by (auto simp: limit_inv_def)
  with L share_count_counts [OF ok row(1,3) _ fail(1-3)] show ?case by (auto simp: limit_inv_def)
qed

text \<open>C23: The limit on downloads. A share with a limit serves at most that many downloads when requests for it
  come one at a time. Requests that overlap are each checked before any of them is counted: with up to
  \<open>K\<close> of them at a time, up to \<open>K - 1\<close> more are served.\<close>

theorem share_limit_up_to_overlap:
  assumes "share_db_ok B k" "shTake B db0 k = Inr s0" "AccessCount s0 = 0" "0 < EffectiveAccessLimit s0"
    and "EffectiveAccessLimit s0 + int K < 2 ^ 62" "0 < K"
    and "(share_step K B mac c S k T)\<^sup>*\<^sup>* (db0, 0, 0) (db, p, n)"
  shows "int n \<le> EffectiveAccessLimit s0 + int K - 1"
proof -
  have "limit_inv K B k (EffectiveAccessLimit s0) (db0, 0, 0)" using assms(2-4,6) by (auto simp: limit_inv_def)
  from assms(7) this have "limit_inv K B k (EffectiveAccessLimit s0) (db, p, n)"
    by (induction rule: rtranclp_induct) (auto intro: limit_inv_step [OF assms(1,4,5)])
  then show ?thesis by (auto simp: limit_inv_def)
qed

text \<open>Two overlapping requests for a file that may be read once, both served.\<close>

lemma one_row_ok: "share_db_ok one_row k"
  by (auto simp: share_db_ok_def one_row_def split: if_splits)

definition demo_step :: "Share \<times> nat \<times> nat \<Rightarrow> Share \<times> nat \<times> nat \<Rightarrow> bool" where
  "demo_step = share_step 2 one_row (\<lambda>k m. k @ m) \<lparr>secret = ''s'', linkExpiration = 0\<rparr> (theSite (demo_api 0)) ''k'' TYPE(Obj list)"

lemma two_served: "\<exists>db. demo_step\<^sup>*\<^sup>* (one_share, 0, 0) (db, 0, 2)"
proof -
  let ?a = "share_admit False one_row (\<lambda>k m. k @ m) \<lparr>secret = ''s'', linkExpiration = 0\<rparr> (theSite (demo_api 0)) 5 get_k
      one_share (tree (holding [a_file ''x'']))"
  have "(case snd ?a of Inr (s, p) \<Rightarrow> True | Inl _ \<Rightarrow> False)" by code_simp
  then obtain s target where "snd ?a = Inr (s, target)" by (auto split: sum.split_asm)
  then obtain t' where a: "?a = (t', Inr (s, target))" by (metis prod.collapse)
  have ad: "demo_step (one_share, p, n) (one_share, Suc p, n)" if "p < 2" for p n
    unfolding demo_step_def by (rule share_step.admit [OF a]) (use that in simp_all)
  have c: "snd (share_count False one_row 5 get_k one_share one_share)"
    "snd (share_count False one_row 6 get_k one_share (fst (share_count False one_row 5 get_k one_share one_share)))" by code_simp+
  have se: "demo_step (db, Suc p, n) (fst (share_count False one_row now get_k one_share db), p, Suc n)"
    if "snd (share_count False one_row now get_k one_share db)" for db now p n
    unfolding demo_step_def by (rule share_step.serve [of False _ now get_k one_share]) (use that in \<open>auto simp: one_share_def prod_eq_iff\<close>)
  have r1: "demo_step\<^sup>*\<^sup>* (one_share, 0, 0) (one_share, Suc (Suc 0), 0)"
    using ad [of 0 0] ad [of "Suc 0" 0] by (simp add: rtranclp.rtrancl_into_rtrancl)
  have s1: "demo_step (one_share, Suc (Suc 0), 0) (fst (share_count False one_row 5 get_k one_share one_share), Suc 0, Suc 0)"
    by (rule se) (rule c(1))
  have s2: "demo_step (fst (share_count False one_row 5 get_k one_share one_share), Suc 0, Suc 0)
      (fst (share_count False one_row 6 get_k one_share (fst (share_count False one_row 5 get_k one_share one_share))), 0, Suc (Suc 0))"
    by (rule se) (rule c(2))
  from r1 s1 have "demo_step\<^sup>*\<^sup>* (one_share, 0, 0) (fst (share_count False one_row 5 get_k one_share one_share), Suc 0, Suc 0)"
    by (rule rtranclp.rtrancl_into_rtrancl)
  from this s2 show ?thesis unfolding numeral_2_eq_2 by (blast intro: rtranclp.rtrancl_into_rtrancl)
qed

theorem share_limit_up_to_overlap_witness: "int 2 \<le> EffectiveAccessLimit one_share + int 2 - 1"
proof -
  obtain db where "demo_step\<^sup>*\<^sup>* (one_share, 0, 0) (db, 0, 2)" using two_served by blast
  note this [unfolded demo_step_def]
  moreover have "shTake one_row one_share ''k'' = Inr one_share" "AccessCount one_share = 0" "EffectiveAccessLimit one_share = 1"
    by (simp_all add: one_row_def one_share_def EffectiveAccessLimit_def)
  ultimately show ?thesis
    using share_limit_up_to_overlap [OF one_row_ok, of one_share "''k''" one_share 2] by fastforce
qed

end
