(* ===== verification/ShareAdmin.thy ===== *)
theory ShareAdmin
  imports Shares
begin

text \<open>
  The owner's side of shares (\<^verbatim>\<open>server/handles/share.go\<close>): creating, changing, disabling and deleting
  them, and the password sessions of visitors (\<^verbatim>\<open>AuthPublicShare\<close>, \<^verbatim>\<open>GetPublicShareInfo\<close>,
  \<^verbatim>\<open>ListPublicShare\<close>, \<^verbatim>\<open>GetPublicShare\<close> in \<^verbatim>\<open>share_public.go\<close>).  Random strings, the parsing of times and the
  queries of \<^verbatim>\<open>gorm\<close> are arguments.
\<close>

section \<open>What is taken from outside\<close>

text \<open>
  \<open>rnd i\<close> is the \<open>i\<close>-th random string of a request, \<open>timeIn layout value\<close> the time that \<^verbatim>\<open>time.Parse\<close> (for
  the first layout) or \<^verbatim>\<open>time.ParseInLocation\<close> reads.
\<close>

record share_env =
  rnd :: "nat \<Rightarrow> string"
  timeIn :: "string \<Rightarrow> string \<Rightarrow> int option"
  sha :: "string \<Rightarrow> string"

record 'b share_rows =
  rows :: "'b share_db"
  shTakeOf :: "'b \<Rightarrow> nat \<Rightarrow> string \<Rightarrow> err + Share"
  shCount :: "'b \<Rightarrow> string \<Rightarrow> err + int"
  shCountExcept :: "'b \<Rightarrow> string \<Rightarrow> nat \<Rightarrow> err + int"
  shCreate :: "'b \<Rightarrow> Share \<Rightarrow> 'b \<times> err option"
  shSave :: "'b \<Rightarrow> Share \<Rightarrow> 'b \<times> err option"
  shDelete :: "'b \<Rightarrow> nat \<Rightarrow> string \<Rightarrow> 'b \<times> err option"
  shDisable :: "'b \<Rightarrow> nat \<Rightarrow> string \<Rightarrow> 'b \<times> err option"

definition ShareIDExists :: "'b share_rows \<Rightarrow> 'b \<Rightarrow> string \<Rightarrow> err + bool" where
  "ShareIDExists R db k = map_sum id (\<lambda>count. count > 0) (shCount R db k)"

definition ShareIDExistsExceptID :: "'b share_rows \<Rightarrow> 'b \<Rightarrow> string \<Rightarrow> nat \<Rightarrow> err + bool" where
  "ShareIDExistsExceptID R db k i = map_sum id (\<lambda>count. count > 0) (shCountExcept R db k i)"

section \<open>Identifiers\<close>

text \<open>\<open>ShareIDInvalid\<close> and \<open>ShareIDTaken\<close> are \<^verbatim>\<open>errShareIDInvalid\<close> and \<^verbatim>\<open>errShareIDExists\<close>, which callers answer with 400.\<close>

datatype share_err = ShareIDInvalid | ShareIDTaken | ShareFail err

definition id_char :: "char \<Rightarrow> bool" where
  "id_char c \<longleftrightarrow> CHR ''A'' \<le> c \<and> c \<le> CHR ''Z'' \<or> CHR ''a'' \<le> c \<and> c \<le> CHR ''z'' \<or> is_digit c \<or> c = CHR ''_'' \<or> c = CHR ''-''"

definition shareIDPattern :: "string \<Rightarrow> bool" where
  "shareIDPattern s \<longleftrightarrow> 1 \<le> length s \<and> length s \<le> 32 \<and> list_all id_char s"

definition validateCustomShareID :: "string \<Rightarrow> share_err option" where
  "validateCustomShareID shareID =
     (if shareID = [] then None else if \<not> shareIDPattern shareID then Some ShareIDInvalid else None)"

text \<open>\<open>generate_from n i\<close>: \<open>n\<close> attempts are left, the next uses the \<open>i\<close>-th random string.\<close>

fun generate_from :: "nat \<Rightarrow> nat \<Rightarrow> share_env \<Rightarrow> 'b share_rows \<Rightarrow> 'b \<Rightarrow> share_err + string" where
  "generate_from 0 i E R db = Inl (ShareFail (ErrMsg ''failed to generate unique share id''))"
| "generate_from (Suc n) i E R db =
     (case ShareIDExists R db (rnd E i) of
        Inl e \<Rightarrow> Inl (ShareFail e)
      | Inr False \<Rightarrow> Inr (rnd E i)
      | Inr True \<Rightarrow> generate_from n (Suc i) E R db)"

definition generateShareID :: "share_env \<Rightarrow> 'b share_rows \<Rightarrow> 'b \<Rightarrow> share_err + string" where
  "generateShareID E R db = generate_from 10 0 E R db"

definition resolveRequestedShareID :: "share_env \<Rightarrow> 'b share_rows \<Rightarrow> 'b \<Rightarrow> string \<Rightarrow> string \<Rightarrow> nat \<Rightarrow> share_err + string" where
  "resolveRequestedShareID E R db rawShareID fallback excludeID =
     (let shareID = TrimSpace rawShareID
      in if shareID = [] then (if fallback \<noteq> [] then Inr fallback else generateShareID E R db)
         else case validateCustomShareID shareID of
                Some e \<Rightarrow> Inl e
              | None \<Rightarrow>
                  (case (if excludeID = 0 then ShareIDExists R db shareID else ShareIDExistsExceptID R db shareID excludeID) of
                     Inl e \<Rightarrow> Inl (ShareFail e)
                   | Inr True \<Rightarrow> Inl ShareIDTaken
                   | Inr False \<Rightarrow> Inr shareID))"

definition id_status :: "share_err \<Rightarrow> int" where
  "id_status e = (case e of ShareFail _ \<Rightarrow> 500 | _ \<Rightarrow> 400)"

section \<open>Expiry\<close>

definition expire_layouts :: "string list" where
  "expire_layouts = [''2006-01-02T15:04:05Z07:00'', ''2006-01-02T15:04:05'', ''2006-01-02T15:04'', ''2006-01-02 15:04:05'']"

definition parseShareExpireAt :: "share_env \<Rightarrow> string \<Rightarrow> err + int option" where
  "parseShareExpireAt E text =
     (let value = TrimSpace text
      in if value = [] then Inr None
         else case List.find (\<lambda>layout. timeIn E layout value \<noteq> None) expire_layouts of
                None \<Rightarrow> Inl (ErrMsg ''invalid expire_at'')
              | Some layout \<Rightarrow> Inr (timeIn E layout value))"

definition resolveShareExpireAt :: "share_env \<Rightarrow> int \<Rightarrow> string \<Rightarrow> int \<Rightarrow> err + int option" where
  "resolveShareExpireAt E now expireAt expireHours =
     (if TrimSpace expireAt \<noteq> [] then parseShareExpireAt E expireAt
      else if expireHours < 0 then Inl (ErrMsg ''expire_hours must be 0 or greater'')
      else if expireHours = 0 then Inr None
      else Inr (Some (now + wrap64 (expireHours * 3600000000000))))"

definition normalizeOptionalShareName :: "string \<Rightarrow> string \<Rightarrow> string" where
  "normalizeOptionalShareName name fallback = (if TrimSpace name \<noteq> [] then TrimSpace name else fallback)"

section \<open>Requests of the owner\<close>

record CreateShareReq =
  crPath :: string
  crShareID :: string
  crName :: string
  crPassword :: string
  crExpireAt :: string
  crExpireHours :: int
  crAccessLimit :: int
  crBurnAfterRead :: "bool option"
  crAllowPreview :: "bool option"
  crAllowDownload :: "bool option"

definition with_password :: "share_env \<Rightarrow> nat \<Rightarrow> string \<Rightarrow> Share \<Rightarrow> Share" where
  "with_password E i password s =
     (if password = [] then s
      else s\<lparr>PasswordSalt := rnd E i, PasswordHash := sharePasswordHash (sha E) password (rnd E i)\<rparr>)"

definition or_else :: "'a option \<Rightarrow> 'a \<Rightarrow> 'a" where
  "or_else x d = (case x of None \<Rightarrow> d | Some v \<Rightarrow> v)"

definition new_share ::
    "share_env \<Rightarrow> User \<Rightarrow> CreateShareReq \<Rightarrow> string \<Rightarrow> Obj \<Rightarrow> string \<Rightarrow> int \<Rightarrow> bool \<Rightarrow> int option \<Rightarrow> Share" where
  "new_share E user req reqPath ob shareID accessLimit burnAfterRead expiresAt =
     with_password E 10 (crPassword req)
       \<lparr>ShID = 0, ShareID = shareID, CreatorID = UserID user,
        ShName = normalizeOptionalShareName (crName req) (GetName ob), RootPath = reqPath,
        ShIsDir = IsDir ob, PasswordHash = [], PasswordSalt = [], BurnAfterRead = burnAfterRead,
        AccessLimit = accessLimit, AccessCount = 0, AllowPreview = or_else (crAllowPreview req) True,
        AllowDownload = or_else (crAllowDownload req) True, Enabled = True, ViewCount = 0,
        DownloadCount = 0, ConsumedAt = None, ExpiresAt = expiresAt, UpdatedAt = None\<rparr>"

text \<open>The code to answer, or the share as it was handed to the database.\<close>

definition CreateShare ::
    "share_env \<Rightarrow> 'b share_rows \<Rightarrow> site \<Rightarrow> int \<Rightarrow> User \<Rightarrow> CreateShareReq \<Rightarrow> 'b \<Rightarrow> 's vfs \<Rightarrow> 'b \<times> 's vfs \<times> (int + Share)" where
  "CreateShare E R S now user req db t =
     (if crPath req = [] then (db, t, Inl 400)
      else case JoinPath (roles S) user (crPath req) of
        Inl e \<Rightarrow> (db, t, Inl 403)
      | Inr reqPath \<Rightarrow>
          if \<not> CanReadPathByRole (roles S) (Some user) reqPath then (db, t, Inl 403)
          else case fs_get S t reqPath of
            (t, Inl e) \<Rightarrow> (db, t, Inl 500)
          | (t, Inr ob) \<Rightarrow>
              (case resolveRequestedShareID E R db (crShareID req) [] 0 of
                 Inl e \<Rightarrow> (db, t, Inl (id_status e))
               | Inr shareID \<Rightarrow>
                   (case normalizeShareAccessLimit (crAccessLimit req) (crBurnAfterRead req) of
                      Inl e \<Rightarrow> (db, t, Inl 400)
                    | Inr (accessLimit, burnAfterRead) \<Rightarrow>
                        (case resolveShareExpireAt E now (crExpireAt req) (crExpireHours req) of
                           Inl e \<Rightarrow> (db, t, Inl 400)
                         | Inr expiresAt \<Rightarrow>
                             let s = new_share E user req reqPath ob shareID accessLimit burnAfterRead expiresAt
                             in case shCreate R db s of
                                  (db, Some e) \<Rightarrow> (db, t, Inl 500)
                                | (db, None) \<Rightarrow> (db, t, Inr s)))))"

record UpdateShareReq =
  upShareID :: string
  upNewShareID :: string
  upName :: string
  upPassword :: string
  upExpireAt :: "string option"
  upAccessLimit :: "int option"
  upAllowPreview :: "bool option"
  upAllowDownload :: "bool option"

definition consume_if_used_up :: "int \<Rightarrow> Share \<Rightarrow> Share" where
  "consume_if_used_up now s =
     (if Enabled s \<and> AccessLimit s > 0 \<and> AccessCount s \<ge> AccessLimit s
      then s\<lparr>Enabled := False, ConsumedAt := Some (or_else (ConsumedAt s) now)\<rparr> else s)"

definition UpdateShare :: "share_env \<Rightarrow> 'b share_rows \<Rightarrow> int \<Rightarrow> User \<Rightarrow> UpdateShareReq \<Rightarrow> 'b \<Rightarrow> 'b \<times> (int + Share)" where
  "UpdateShare E R now user req db =
     (if upShareID req = [] then (db, Inl 400)
      else case shTakeOf R db (UserID user) (upShareID req) of
        Inl e \<Rightarrow> (db, Inl 404)
      | Inr s \<Rightarrow>
          (case resolveRequestedShareID E R db (upNewShareID req) (ShareID s) (ShID s) of
             Inl e \<Rightarrow> (db, Inl (id_status e))
           | Inr shareID \<Rightarrow>
               (case (case upAccessLimit req of
                        None \<Rightarrow> Inr (EffectiveAccessLimit s, EffectiveAccessLimit s = 1)
                      | Some l \<Rightarrow> normalizeShareAccessLimit l None) of
                  Inl e \<Rightarrow> (db, Inl 400)
                | Inr (accessLimit, burnAfterRead) \<Rightarrow>
                    (case (case upExpireAt req of None \<Rightarrow> Inr (ExpiresAt s) | Some x \<Rightarrow> parseShareExpireAt E x) of
                       Inl e \<Rightarrow> (db, Inl 400)
                     | Inr expiresAt \<Rightarrow>
                         let s' = consume_if_used_up now (with_password E 0 (upPassword req)
                               (s\<lparr>ShareID := shareID, ShName := normalizeOptionalShareName (upName req) (ShName s),
                                  BurnAfterRead := burnAfterRead, AccessLimit := accessLimit,
                                  AllowPreview := or_else (upAllowPreview req) (AllowPreview s),
                                  AllowDownload := or_else (upAllowDownload req) (AllowDownload s), ExpiresAt := expiresAt\<rparr>))
                         in case shSave R db s' of
                              (db, Some e) \<Rightarrow> (db, Inl 500)
                            | (db, None) \<Rightarrow> (db, Inr s')))))"

definition DisableShare :: "'b share_rows \<Rightarrow> User \<Rightarrow> string \<Rightarrow> 'b \<Rightarrow> 'b \<times> int" where
  "DisableShare R user shareID db =
     (if shareID = [] then (db, 400)
      else case shTakeOf R db (UserID user) shareID of
        Inl e \<Rightarrow> (db, 404)
      | Inr _ \<Rightarrow> (case shDisable R db (UserID user) shareID of (db, Some e) \<Rightarrow> (db, 500) | (db, None) \<Rightarrow> (db, 200)))"

definition DeleteShare :: "'b share_rows \<Rightarrow> User \<Rightarrow> string \<Rightarrow> 'b \<Rightarrow> 'b \<times> int" where
  "DeleteShare R user shareID db =
     (if shareID = [] then (db, 400)
      else case shDelete R db (UserID user) shareID of (db, Some e) \<Rightarrow> (db, 500) | (db, None) \<Rightarrow> (db, 200))"

section \<open>Visitors\<close>

definition shareAccessTokenLifetime :: int where
  "shareAccessTokenLifetime = 86400000000000"

text \<open>The life of a session: a day, or until the share expires.  \<^const>\<open>None\<close>: it has expired.\<close>

definition session_ttl :: "int \<Rightarrow> Share \<Rightarrow> int option" where
  "session_ttl now s =
     (case ExpiresAt s of
        None \<Rightarrow> Some shareAccessTokenLifetime
      | Some e \<Rightarrow>
          let remaining = e - now
          in if remaining \<le> 0 then None
             else Some (if remaining < shareAccessTokenLifetime then remaining else shareAccessTokenLifetime))"

definition AuthPublicShare ::
    "share_env \<Rightarrow> 'b share_db \<Rightarrow> mac \<Rightarrow> sign_conf \<Rightarrow> int \<Rightarrow> string \<Rightarrow> string \<Rightarrow> 'b \<Rightarrow> 'b \<times> (int + string)" where
  "AuthPublicShare E B mac c now shareID password db =
     (if shareID = [] then (db, Inl 400)
      else case shTake B db shareID of
        Inl e \<Rightarrow> (db, Inl 404)
      | Inr s \<Rightarrow>
          (case ensureShareAvailable now s of
             Some code \<Rightarrow> (db, Inl code)
           | None \<Rightarrow>
               if \<not> sharePasswordMatched (sha E) s password then (db, Inl 403)
               else case (if HasPassword s then map_option (SignAccess mac c now s) (session_ttl now s) else Some []) of
                      None \<Rightarrow> (db, Inl 410)
                    | Some tok \<Rightarrow> (fst (shTouchView B db (ShareID s)), Inr tok)))"

text \<open>The checks before a visitor reads a path of a share: the code to answer, or the share and the path.\<close>

definition public_target :: "'b share_db \<Rightarrow> mac \<Rightarrow> sign_conf \<Rightarrow> int \<Rightarrow> string \<Rightarrow> string \<Rightarrow> string \<Rightarrow> 'b \<Rightarrow> int + Share \<times> string \<times> string" where
  "public_target B mac c now shareID tok path db =
     (if shareID = [] then Inl 400
      else case shTake B db shareID of
        Inl e \<Rightarrow> Inl 404
      | Inr s \<Rightarrow>
          (case ensureShareAvailable now s of
             Some code \<Rightarrow> Inl code
           | None \<Rightarrow>
               (case ensureShareAccess mac c now s tok of
                  Some code \<Rightarrow> Inl code
                | None \<Rightarrow>
                    (case resolveShareTarget s path of
                       Inl e \<Rightarrow> Inl 400
                     | Inr (targetPath, relPath) \<Rightarrow> Inr (s, targetPath, relPath)))))"

text \<open>Of an object a visitor sees its name, size, kind and path in the share, and whether it may be fetched and previewed.\<close>

record PublicShareObjResp =
  poName :: string
  poSize :: int
  poIsDir :: bool
  poPath :: string
  poDownload :: bool
  poPreview :: bool

definition toPublicShareObjResp :: "Share \<Rightarrow> Obj \<Rightarrow> string \<Rightarrow> PublicShareObjResp" where
  "toPublicShareObjResp s ob relPath =
     \<lparr>poName = GetName ob, poSize = GetSize ob, poIsDir = IsDir ob, poPath = relPath,
      poDownload = (\<not> IsDir ob \<and> AllowDownload s), poPreview = (\<not> IsDir ob \<and> AllowPreview s)\<rparr>"

definition public_items :: "Share \<Rightarrow> string \<Rightarrow> Obj list \<Rightarrow> PublicShareObjResp list" where
  "public_items s relPath objs =
     concat (map (\<lambda>ob. let itemRelPath = (if relPath = ''/'' then path_Join ''/'' (GetName ob) else path_Join relPath (GetName ob))
                       in case resolveShareTarget s itemRelPath of
                            Inl e \<Rightarrow> []
                          | Inr _ \<Rightarrow> [toPublicShareObjResp s ob itemRelPath]) objs)"

definition ListPublicShare ::
    "'b share_db \<Rightarrow> mac \<Rightarrow> sign_conf \<Rightarrow> site \<Rightarrow> int \<Rightarrow> string \<Rightarrow> string \<Rightarrow> string \<Rightarrow> int \<Rightarrow> int \<Rightarrow> 'b \<Rightarrow> 's vfs
      \<Rightarrow> ('s vfs \<times> (int + PublicShareObjResp list \<times> int)) go" where
  "ListPublicShare B mac c S now shareID tok path page0 perPage0 db t =
     (let (page, perPage) = normalizeListPage page0 perPage0
      in case public_target B mac c now shareID tok path db of
           Inl code \<Rightarrow> Some (t, Inl code)
         | Inr (s, targetPath, relPath) \<Rightarrow>
             (case fs_get S t targetPath of
                (t, Inl e) \<Rightarrow> Some (t, Inl 404)
              | (t, Inr ob) \<Rightarrow>
                  if \<not> IsDir ob then Some (t, Inl 400)
                  else case fs_list S None None t targetPath False of
                         None \<Rightarrow> panic
                       | Some (t, Inl e) \<Rightarrow> Some (t, Inl 500)
                       | Some (t, Inr objs) \<Rightarrow>
                           (case pagination objs page perPage of
                              None \<Rightarrow> panic
                            | Some (tot, pageObjs) \<Rightarrow> Some (t, Inr (public_items s relPath pageObjs, tot)))))"

definition GetPublicShare ::
    "'b share_db \<Rightarrow> mac \<Rightarrow> sign_conf \<Rightarrow> site \<Rightarrow> int \<Rightarrow> string \<Rightarrow> string \<Rightarrow> string \<Rightarrow> 'b \<Rightarrow> 's vfs
      \<Rightarrow> 's vfs \<times> (int + PublicShareObjResp \<times> string)" where
  "GetPublicShare B mac c S now shareID tok path db t =
     (case public_target B mac c now shareID tok path db of
        Inl code \<Rightarrow> (t, Inl code)
      | Inr (s, targetPath, relPath) \<Rightarrow>
          (case fs_get S t targetPath of
             (t, Inl e) \<Rightarrow> (t, Inl 404)
           | (t, Inr ob) \<Rightarrow>
               (case GetStorage t targetPath of
                  (t, st) \<Rightarrow>
                    (t, Inr (toPublicShareObjResp s ob relPath,
                             case st of Inl e \<Rightarrow> ''unknown'' | Inr v \<Rightarrow> Driver (dStorage v))))))"

text \<open>Whether a visitor has a session, what is left of the share; views of visitors with access are counted.\<close>

definition GetPublicShareInfo ::
    "'b share_db \<Rightarrow> mac \<Rightarrow> sign_conf \<Rightarrow> int \<Rightarrow> string \<Rightarrow> string \<Rightarrow> 'b \<Rightarrow> 'b \<times> (int + Share \<times> int \<times> bool)" where
  "GetPublicShareInfo B mac c now shareID tok db =
     (if shareID = [] then (db, Inl 400)
      else case shTake B db shareID of
        Inl e \<Rightarrow> (db, Inl 404)
      | Inr s \<Rightarrow>
          (case ensureShareAvailable now s of
             Some code \<Rightarrow> (db, Inl code)
           | None \<Rightarrow>
               let authed = (\<not> HasPassword s \<or> (tok \<noteq> [] \<and> VerifyAccess mac c now s tok = None))
               in (if authed then fst (shTouchView B db (ShareID s)) else db, Inr (s, RemainingAccesses s, authed))))"

section \<open>Shares stay below the base path of their owner\<close>

text \<open>
  What is assumed of the table, with \<open>stored\<close> for its rows: queries find stored rows; a row that is there
  after a change was there before, or is the row that was created or saved; updates of columns do not
  touch the owner, the path or the kind of a share.
\<close>

definition same_root :: "Share \<Rightarrow> Share \<Rightarrow> bool" where
  "same_root r s \<longleftrightarrow> RootPath r = RootPath s \<and> CreatorID r = CreatorID s \<and> ShIsDir r = ShIsDir s"

definition keeps_roots :: "('b \<Rightarrow> Share set) \<Rightarrow> 'b \<Rightarrow> 'b \<Rightarrow> bool" where
  "keeps_roots stored db db' \<longleftrightarrow> (\<forall>r\<in>stored db'. \<exists>r0\<in>stored db. same_root r r0)"

definition share_rows_ok :: "'b share_rows \<Rightarrow> ('b \<Rightarrow> Share set) \<Rightarrow> bool" where
  "share_rows_ok R stored \<longleftrightarrow>
     (\<forall>db k s. shTake (rows R) db k = Inr s \<longrightarrow> s \<in> stored db)
   \<and> (\<forall>db u k s. shTakeOf R db u k = Inr s \<longrightarrow> s \<in> stored db)
   \<and> (\<forall>db s. \<forall>r\<in>stored (fst (shCreate R db s)). same_root r s \<or> (\<exists>r0\<in>stored db. same_root r r0))
   \<and> (\<forall>db s. \<forall>r\<in>stored (fst (shSave R db s)). same_root r s \<or> (\<exists>r0\<in>stored db. same_root r r0))
   \<and> (\<forall>db u k. keeps_roots stored db (fst (shDelete R db u k)) \<and> keeps_roots stored db (fst (shDisable R db u k)))
   \<and> (\<forall>db k. keeps_roots stored db (fst (shTouchView (rows R) db k)) \<and> keeps_roots stored db (fst (shTouchDownload (rows R) db k)))
   \<and> (\<forall>db s n used now. keeps_roots stored db (fst (shUpdates (rows R) db s n used now)))"

datatype 's share_event =
    Create share_env int User CreateShareReq "'s vfs"
  | Update share_env int User UpdateShareReq
  | Disable User string
  | Drop User string
  | Auth share_env int string string
  | Info int string string
  | Serve bool int share_req "'s vfs"

fun share_run :: "'b share_rows \<Rightarrow> mac \<Rightarrow> sign_conf \<Rightarrow> site \<Rightarrow> 's share_event \<Rightarrow> 'b \<Rightarrow> 'b" where
  "share_run R mac c S (Create E now u req t) db = fst (CreateShare E R S now u req db t)"
| "share_run R mac c S (Update E now u req) db = fst (UpdateShare E R now u req db)"
| "share_run R mac c S (Disable u k) db = fst (DisableShare R u k db)"
| "share_run R mac c S (Drop u k) db = fst (DeleteShare R u k db)"
| "share_run R mac c S (Auth E now k password) db = fst (AuthPublicShare E (rows R) mac c now k password db)"
| "share_run R mac c S (Info now k tok) db = fst (GetPublicShareInfo (rows R) mac c now k tok db)"
| "share_run R mac c S (Serve preview now rq t) db = fst (serve_share preview (rows R) mac c S now rq db t)"

definition below_owner :: "(nat \<Rightarrow> string) \<Rightarrow> Share \<Rightarrow> bool" where
  "below_owner base s \<longleftrightarrow> IsSubPath (base (CreatorID s)) (RootPath s)"

definition owned :: "('b \<Rightarrow> Share set) \<Rightarrow> (nat \<Rightarrow> string) \<Rightarrow> 'b \<Rightarrow> bool" where
  "owned stored base db \<longleftrightarrow> (\<forall>r\<in>stored db. below_owner base r)"

lemma below_owner_same: "\<lbrakk>same_root r s; below_owner base s\<rbrakk> \<Longrightarrow> below_owner base r"
  by (simp add: same_root_def below_owner_def)

lemma same_root_refl [simp]: "same_root s s"
  by (simp add: same_root_def)

lemma root_in [intro]: "r \<in> A \<Longrightarrow> \<exists>r0\<in>A. same_root r r0"
  using same_root_refl by blast

lemma keeps_roots_refl [simp]: "keeps_roots stored db db"
  by (auto simp: keeps_roots_def)

lemma keeps_owned: "\<lbrakk>keeps_roots stored db db'; owned stored base db\<rbrakk> \<Longrightarrow> owned stored base db'"
  unfolding keeps_roots_def owned_def using below_owner_same by blast

lemma keeps_roots_trans: "\<lbrakk>keeps_roots stored a b; keeps_roots stored b d\<rbrakk> \<Longrightarrow> keeps_roots stored a d"
  unfolding keeps_roots_def same_root_def by metis

lemma fst_of: "x = (a, b) \<Longrightarrow> fst x = a"
  by simp

lemma RecordShareAccess_roots:
  assumes "share_rows_ok R stored" "RecordShareAccess (rows R) now db k = (db', r)"
  shows "keeps_roots stored db db'"
proof (cases "shTake (rows R) db k")
  case (Inr row)
  then obtain n used where "db' = fst (shUpdates (rows R) db row n used now)"
    using assms(2) by (auto simp: RecordShareAccess_def Let_def dest!: fst_of split: prod.splits option.splits if_splits)
  then show ?thesis using assms(1) by (simp add: share_rows_ok_def)
qed (use assms(2) in \<open>simp add: RecordShareAccess_def\<close>)

lemma share_count_roots:
  assumes "share_rows_ok R stored" "share_count preview (rows R) now rq s db = (db', ok)"
  shows "keeps_roots stored db db'"
proof (cases "rqIsHead rq")
  case False
  let ?db = "if preview then db else fst (shTouchDownload (rows R) db (ShareID s))"
  have "keeps_roots stored db ?db" using assms(1) by (simp add: share_rows_ok_def)
  moreover obtain d r where rec: "RecordShareAccess (rows R) now ?db (ShareID s) = (d, r)" by fastforce
  moreover have "db' = d" using False assms(2) rec by (auto simp: share_count_def Let_def split: sum.splits)
  ultimately show ?thesis by (auto intro: keeps_roots_trans RecordShareAccess_roots [OF assms(1) rec])
qed (use assms(2) in \<open>simp add: share_count_def\<close>)

lemma CreateShare_row:
  assumes "CreateShare E R S now u req db t = (db', t', r)"
  shows "db' = db \<or> (\<exists>s. db' = fst (shCreate R db s) \<and> CreatorID s = UserID u \<and> IsSubPath (BasePath u) (RootPath s))"
proof (cases "JoinPath (roles S) u (crPath req)")
  case (Inr p)
  from JoinPath_comps [OF Inr] have "IsSubPath (BasePath u) p"
    by (metis IsSubPath_comps fcomps_fix fcomps_render list_all_append prefixI)
  then have n: "CreatorID (new_share E u req p ob k l b e) = UserID u \<and> IsSubPath (BasePath u) (RootPath (new_share E u req p ob k l b e))"
    for ob k l b e by (simp add: new_share_def with_password_def)
  show ?thesis
  proof (rule ccontr)
    assume "\<not> ?thesis"
    with n have "db' \<noteq> db" "\<forall>ob k l b e. db' \<noteq> fst (shCreate R db (new_share E u req p ob k l b e))" by blast+
    with Inr assms show False
      by (fastforce simp: CreateShare_def Let_def dest!: fst_of split: prod.splits option.splits if_splits sum.splits)
  qed
qed (use assms in \<open>auto simp: CreateShare_def split: if_splits\<close>)

lemma UpdateShare_row:
  assumes "UpdateShare E R now u req db = (db', r)"
  shows "db' = db \<or> (\<exists>s s'. db' = fst (shSave R db s') \<and> shTakeOf R db (UserID u) (upShareID req) = Inr s \<and> same_root s' s)"
proof (cases "shTakeOf R db (UserID u) (upShareID req)")
  case (Inr s)
  have k: "same_root (consume_if_used_up now (with_password E 0 pw x)) x" for pw x
    by (simp add: consume_if_used_up_def with_password_def same_root_def)
  show ?thesis using assms Inr k
    by (auto simp: UpdateShare_def Let_def same_root_def dest!: fst_of split: prod.splits option.splits if_splits sum.splits)
qed (use assms in \<open>auto simp: UpdateShare_def split: if_splits\<close>)

lemma share_run_owned:
  assumes ok: "share_rows_ok R stored" and o: "owned stored base db"
    and ev: "\<And>E now u req t. ev = Create E now u req t \<Longrightarrow> BasePath u = base (UserID u)"
  shows "owned stored base (share_run R mac c S ev db)"
proof (cases ev)
  case (Create E now u req t)
  obtain db' t' r where "CreateShare E R S now u req db t = (db', t', r)" by (metis prod.collapse)
  from CreateShare_row [OF this] this show ?thesis
    using ok o ev [OF Create] below_owner_same unfolding Create share_run.simps
    by (auto simp: share_rows_ok_def owned_def) (metis below_owner_def below_owner_same)
next
  case (Update E now u req)
  obtain db' r where "UpdateShare E R now u req db = (db', r)" by fastforce
  from UpdateShare_row [OF this] this show ?thesis
    using ok o below_owner_same unfolding Update share_run.simps
    by (auto simp: share_rows_ok_def owned_def) (metis below_owner_same)
next
  case (Disable u k)
  then have "keeps_roots stored db (share_run R mac c S ev db)"
    using ok by (auto simp: DisableShare_def share_rows_ok_def dest!: fst_of split: prod.splits option.splits sum.splits)
  then show ?thesis using o by (rule keeps_owned)
next
  case (Drop u k)
  then have "keeps_roots stored db (share_run R mac c S ev db)"
    using ok by (auto simp: DeleteShare_def share_rows_ok_def dest!: fst_of split: prod.splits option.splits)
  then show ?thesis using o by (rule keeps_owned)
next
  case (Auth E now k password)
  then have "keeps_roots stored db (share_run R mac c S ev db)"
    using ok by (auto simp: AuthPublicShare_def share_rows_ok_def split: option.splits sum.splits)
  then show ?thesis using o by (rule keeps_owned)
next
  case (Info now k tok)
  then have "keeps_roots stored db (share_run R mac c S ev db)"
    using ok by (auto simp: GetPublicShareInfo_def Let_def share_rows_ok_def split: option.splits sum.splits)
  then show ?thesis using o by (rule keeps_owned)
next
  case (Serve preview now rq t)
  then have "keeps_roots stored db (share_run R mac c S ev db)"
    using share_count_roots [OF ok] by (auto simp: serve_share_def split: prod.splits sum.splits bool.splits)
  then show ?thesis using o by (rule keeps_owned)
qed

lemma share_history_owned:
  assumes "share_rows_ok R stored" "owned stored base db"
    and "\<And>E now u req t. Create E now u req t \<in> set evs \<Longrightarrow> BasePath u = base (UserID u)"
  shows "owned stored base (fold (share_run R mac c S) evs db)"
  using assms(2,3)
proof (induction evs arbitrary: db)
  case (Cons ev evs)
  have "owned stored base (share_run R mac c S ev db)"
    by (rule share_run_owned [OF assms(1) Cons.prems(1)]) (metis Cons.prems(2) list.set_intros(1))
  then show ?case unfolding fold.simps o_apply by (rule Cons.IH) (metis Cons.prems(2) list.set_intros(2))
qed simp

text \<open>C24: What shares can expose. Start with an empty table and let owners create, change, disable and delete
  shares and visitors open, list and download them, in any order: whatever is served through a share lies
  below the base path of the user who owns the share.\<close>

theorem shares_expose_owner_files_only:
  assumes "share_rows_ok R stored" "stored db0 = {}"
    and "\<forall>E now u req t. Create E now u req t \<in> set evs \<longrightarrow> BasePath u = base (UserID u)"
    and "serve_share preview (rows R) mac c S now rq (fold (share_run R mac c S) evs db0) t = (db', t', Inr target)"
  shows "\<exists>s. shTake (rows R) (fold (share_run R mac c S) evs db0) (rqShareID rq) = Inr s \<and> IsSubPath (base (CreatorID s)) target"
proof -
  have "owned stored base db0" using assms(2) by (simp add: owned_def)
  then have o: "owned stored base (fold (share_run R mac c S) evs db0)"
    by (rule share_history_owned [OF assms(1)]) (use assms(3) in blast)
  from assms(4) obtain t1 s where a: "share_admit preview (rows R) mac c S now rq (fold (share_run R mac c S) evs db0) t = (t1, Inr (s, target))"
    by (rule serve_share_admitted)
  from o share_admit_ok(1) [OF a] assms(1) have "below_owner base s" by (auto simp: owned_def share_rows_ok_def)
  with share_admit_ok(1,5) [OF a] show ?thesis by (auto simp: below_owner_def intro: IsSubPath_trans)
qed

text \<open>
  A table as a list of rows.  Like \<^verbatim>\<open>gorm\<close> it fills a column that has a default when a row is created with
  the zero value there, and sets the time of the last change on updates and saves.
\<close>

definition on_rows :: "(Share \<Rightarrow> bool) \<Rightarrow> (Share \<Rightarrow> Share) \<Rightarrow> Share list \<Rightarrow> Share list" where
  "on_rows P f = map (\<lambda>r. if P r then f r else r)"

definition find_row :: "(Share \<Rightarrow> bool) \<Rightarrow> Share list \<Rightarrow> err + Share" where
  "find_row P db = (case List.find P db of None \<Rightarrow> Inl RecordNotFound | Some r \<Rightarrow> Inr r)"

definition list_rows :: "Share list share_rows" where
  "list_rows = \<lparr>rows = \<lparr>shTake = (\<lambda>db k. find_row (\<lambda>r. ShareID r = k) db),
       shTouchDownload = (\<lambda>db k. (on_rows (\<lambda>r. ShareID r = k) (\<lambda>r. r\<lparr>DownloadCount := DownloadCount r + 1\<rparr>) db, None)),
       shTouchView = (\<lambda>db k. (on_rows (\<lambda>r. ShareID r = k) (\<lambda>r. r\<lparr>ViewCount := ViewCount r + 1\<rparr>) db, None)),
       shUpdates = (\<lambda>db row n used now. (on_rows (\<lambda>r. ShID r = ShID row) (\<lambda>r. r\<lparr>AccessCount := n, Enabled := (Enabled r \<and> \<not> used),
          ConsumedAt := (if used then Some now else ConsumedAt r), UpdatedAt := Some now\<rparr>) db, None))\<rparr>,
     shTakeOf = (\<lambda>db u k. find_row (\<lambda>r. CreatorID r = u \<and> ShareID r = k) db),
     shCount = (\<lambda>db k. Inr (int (length (filter (\<lambda>r. ShareID r = k) db)))),
     shCountExcept = (\<lambda>db k i. Inr (int (length (filter (\<lambda>r. ShareID r = k \<and> ShID r \<noteq> i) db)))),
     shCreate = (\<lambda>db s. (db @ [s\<lparr>ShID := Suc (length db), AllowPreview := True, AllowDownload := True, Enabled := True\<rparr>], None)),
     shSave = (\<lambda>db s. (on_rows (\<lambda>r. ShID r = ShID s) (\<lambda>_. s) db, None)),
     shDelete = (\<lambda>db u k. (filter (\<lambda>r. \<not> (CreatorID r = u \<and> ShareID r = k)) db, None)),
     shDisable = (\<lambda>db u k. (on_rows (\<lambda>r. CreatorID r = u \<and> ShareID r = k) (\<lambda>r. r\<lparr>Enabled := False\<rparr>) db, None))\<rparr>"

lemma find_row_set: "find_row P db = Inr r \<Longrightarrow> r \<in> set db"
  by (auto simp: find_row_def find_Some_iff split: option.splits)

lemma on_rows_roots: "(\<And>r. same_root (f r) r) \<Longrightarrow> keeps_roots set db (on_rows P f db)"
  by (auto simp: keeps_roots_def on_rows_def)

lemma list_rows_ok: "share_rows_ok list_rows set"
  unfolding share_rows_ok_def
proof (intro conjI allI ballI)
  show "keeps_roots set db (fst (shDelete list_rows db u k))" for db u k
    by (auto simp: list_rows_def keeps_roots_def)
  show "same_root r s \<or> (\<exists>r0\<in>set db. same_root r r0)" if "r \<in> set (fst (shSave list_rows db s))" for r db s
    using that by (auto simp: list_rows_def on_rows_def split: if_splits)
qed (auto simp: list_rows_def same_root_def dest: find_row_set intro!: on_rows_roots)

definition an_env :: share_env where
  "an_env = \<lparr>rnd = (\<lambda>i. [CHR ''r'']), timeIn = (\<lambda>_ _. None), sha = (\<lambda>s. s)\<rparr>"

definition create_k :: CreateShareReq where
  "create_k = \<lparr>crPath = ''/x'', crShareID = ''k'', crName = [], crPassword = [], crExpireAt = [], crExpireHours = 0, crAccessLimit = 0,
     crBurnAfterRead = None, crAllowPreview = None, crAllowDownload = None\<rparr>"

abbreviation a_conf :: sign_conf where
  "a_conf \<equiv> \<lparr>secret = ''s'', linkExpiration = 0\<rparr>"

theorem shares_expose_owner_files_only_witness:
  "\<exists>s. shTake (rows list_rows) (share_run list_rows (\<lambda>k m. k @ m) a_conf (theSite (demo_api 0))
      (Create an_env 1 (guest_of ''/a'') create_k (tree (holding [a_file ''x'']))) []) ''k'' = Inr s \<and> IsSubPath ''/a'' ''/a/x''"
proof -
  let ?ev = "Create an_env 1 (guest_of ''/a'') create_k (tree (holding [a_file ''x'']))"
  let ?db = "fold (share_run list_rows (\<lambda>k m. k @ m) a_conf (theSite (demo_api 0))) [?ev] []"
  let ?r = "serve_share False (rows list_rows) (\<lambda>k m. k @ m) a_conf (theSite (demo_api 0)) 5 get_k ?db (tree (holding [a_file ''x'']))"
  have "snd (snd ?r) = Inr ''/a/x''" by code_simp
  then obtain db' t' where h: "?r = (db', t', Inr ''/a/x'')" by (metis prod.collapse)
  have "set [] = ({} :: Share set)" by simp
  from shares_expose_owner_files_only [OF list_rows_ok this _ h, of "\<lambda>_. ''/a''"]
  show ?thesis by (simp add: guest_of_def)
qed

section \<open>Password sessions\<close>

lemma unix_mono: "a \<le> b \<Longrightarrow> unix a \<le> unix b"
  by (simp add: unix_def zdiv_mono1)

lemma SignAccess_accepted:
  assumes "HasPassword s" "unix later \<le> unix (now + d)" "int64_range (unix (now + d))"
  shows "ensureShareAccess mac c later s (SignAccess mac c now s d) = None"
proof -
  have "VerifyAccess mac c later s (SignAccess mac c now s d) = None"
    unfolding VerifyAccess_def SignAccess_def Verify_iff using assms by blast
  then show ?thesis by (simp add: ensureShareAccess_def SignAccess_def HMAC_Sign_def Let_def)
qed

text \<open>Password sessions. For a share that is available, \<^const>\<open>AuthPublicShare\<close> refuses a wrong password and changes
  nothing; with the right one it returns a session that is accepted for this share as it is, for a day or
  until the share expires.\<close>

theorem password_session_opens_share:
  assumes "shTake B db k = Inr s" "k \<noteq> []" "HasPassword s" "ensureShareAvailable now s = None"
    and "0 \<le> now" "unix (now + shareAccessTokenLifetime) < 2 ^ 63"
  shows "if sharePasswordHash (sha E) password (PasswordSalt s) \<noteq> PasswordHash s
    then AuthPublicShare E B mac c now k password db = (db, Inl 403)
    else \<exists>tok. AuthPublicShare E B mac c now k password db = (fst (shTouchView B db (ShareID s)), Inr tok)
      \<and> (\<forall>later. later \<le> now + shareAccessTokenLifetime \<and> \<not> IsExpired later s \<longrightarrow> ensureShareAccess mac c later s tok = None)"
proof (cases "sharePasswordHash (sha E) password (PasswordSalt s) = PasswordHash s")
  case True
  have "\<not> IsExpired now s" using assms(4) by (auto simp: ensureShareAvailable_def split: if_splits)
  then obtain d where d: "session_ttl now s = Some d" "0 < d" "d \<le> shareAccessTokenLifetime"
      "\<And>later. \<lbrakk>later \<le> now + shareAccessTokenLifetime; \<not> IsExpired later s\<rbrakk> \<Longrightarrow> later \<le> now + d"
    by (cases "ExpiresAt s") (auto simp: session_ttl_def IsExpired_def Let_def shareAccessTokenLifetime_def split: if_splits)
  have "0 \<le> unix (now + d)" "unix (now + d) \<le> unix (now + shareAccessTokenLifetime)"
    using assms(5) d(2,3) by (auto simp: unix_def intro: unix_mono [unfolded unix_def])
  then have "int64_range (unix (now + d))" using assms(6) by (simp add: int64_range_def)
  then have "ensureShareAccess mac c later s (SignAccess mac c now s d) = None"
    if "later \<le> now + shareAccessTokenLifetime" "\<not> IsExpired later s" for later
    using SignAccess_accepted [OF assms(3)] unix_mono [OF d(4) [OF that]] by blast
  moreover have "AuthPublicShare E B mac c now k password db = (fst (shTouchView B db (ShareID s)), Inr (SignAccess mac c now s d))"
    using True assms(1-4) d(1) by (simp add: AuthPublicShare_def sharePasswordMatched_def)
  ultimately show ?thesis using True by auto
qed (use assms in \<open>simp add: AuthPublicShare_def sharePasswordMatched_def\<close>)

definition locked_share :: Share where
  "locked_share = one_share\<lparr>PasswordHash := sharePasswordHash (\<lambda>s. s) ''pw'' ''salt'', PasswordSalt := ''salt'',
     BurnAfterRead := False, AccessLimit := 0, ExpiresAt := Some 9000000000, UpdatedAt := Some 0\<rparr>"

theorem password_session_opens_share_witness:
  "\<exists>tok db'. AuthPublicShare an_env one_row (\<lambda>k m. k @ m) a_conf 7 ''k'' ''pw'' locked_share = (db', Inr tok)
     \<and> ensureShareAccess (\<lambda>k m. k @ m) a_conf 9 locked_share tok = None"
proof -
  have "shTake one_row locked_share ''k'' = Inr locked_share" "HasPassword locked_share" "ensureShareAvailable 7 locked_share = None"
    "unix (7 + shareAccessTokenLifetime) < 2 ^ 63" "9 \<le> 7 + shareAccessTokenLifetime \<and> \<not> IsExpired 9 locked_share"
    "sharePasswordHash (sha an_env) ''pw'' (PasswordSalt locked_share) = PasswordHash locked_share" by code_simp+
  note h = this
  from password_session_opens_share [OF h(1) _ h(2,3) _ h(4), of an_env "''pw''" "\<lambda>k m. k @ m" a_conf] h(6)
  obtain tok where "AuthPublicShare an_env one_row (\<lambda>k m. k @ m) a_conf 7 ''k'' ''pw'' locked_share
      = (fst (shTouchView one_row locked_share (ShareID locked_share)), Inr tok)"
    "\<forall>later. later \<le> 7 + shareAccessTokenLifetime \<and> \<not> IsExpired later locked_share
      \<longrightarrow> ensureShareAccess (\<lambda>k m. k @ m) a_conf later locked_share tok = None" by auto
  with h(5) show ?thesis by blast
qed

lemma triple_of: "snd (snd x) = r \<Longrightarrow> x = (fst x, fst (snd x), r)"
  by auto

lemma result_of: "\<not> isl (snd x) \<Longrightarrow> x = (fst x, Inr (projr (snd x)))"
  by (auto simp: isl_def)

text \<open>
  A session is signed for the share as it was, the second of its last change included, and counting a
  download is such a change: with a code that is different for different messages, the session is refused
  as soon as a download was counted in another second.
\<close>

lemma session_ends_with_change:
  assumes "HasPassword s'" "\<And>m m'. mac (share_key c) m = mac (share_key c) m' \<Longrightarrow> m = m'"
    and "UpdatedAt s = Some a" "UpdatedAt s' = Some b" "unix a \<noteq> unix b"
    and "int64_range (unix a)" "int64_range (unix b)" "int64_range (unix (now + d))"
  shows "ensureShareAccess mac c later s' (SignAccess mac c now s d) = Some 401"
proof -
  have "VerifyAccess mac c later s' (SignAccess mac c now s d) \<noteq> None"
  proof
    assume "VerifyAccess mac c later s' (SignAccess mac c now s d) = None"
    then obtain n where n: "int64_range n" "SignAccess mac c now s d = HMAC_Sign mac (share_key c) (tokenPayload s') n"
      by (auto simp: VerifyAccess_def Verify_iff)
    let ?e = "unix (now + d)"
    have "FormatInt ?e = FormatInt n"
      using n(2) last_field unfolding SignAccess_def HMAC_Sign_def Let_def by metis
    with n assms(8) have "n = ?e" by (metis ParseInt_FormatInt option.inject)
    with n(2) assms(2) have "tokenPayload s = tokenPayload s'" by (simp add: SignAccess_def HMAC_Sign_def Let_def) blast
    with assms(3,4) have "(ShareID s @ '':'' @ PasswordHash s) @ '':'' @ FormatInt (unix a)
        = (ShareID s' @ '':'' @ PasswordHash s') @ '':'' @ FormatInt (unix b)" by (simp add: tokenPayload_def)
    from message_inj [OF this assms(6,7)] assms(5) show False by simp
  qed
  then show ?thesis using assms(1) by (simp add: ensureShareAccess_def SignAccess_def HMAC_Sign_def Let_def)
qed

text \<open>A session does not outlive a counted download. A visitor opens a share with its password and downloads a
  file; the next download in the same session, a second later, is refused with 401 although the session
  was issued for a day.\<close>

theorem second_download_refused:
  "\<exists>tok db1 db2 t1 t2 t3 p. AuthPublicShare an_env one_row (\<lambda>k m. k @ m) a_conf 7 ''k'' ''pw'' locked_share = (db1, Inr tok)
     \<and> ShareDown one_row (\<lambda>k m. k @ m) a_conf (theSite (demo_api 0)) 5000000000 (get_k\<lparr>rqToken := tok\<rparr>) db1 (tree (holding [a_file ''x'']))
         = (db2, t1, Inr p)
     \<and> ShareDown one_row (\<lambda>k m. k @ m) a_conf (theSite (demo_api 0)) 6000000000 (get_k\<lparr>rqToken := tok\<rparr>) db2 (tree (holding [a_file ''x'']))
         = (db2, t2, Inl 401)"
proof -
  let ?mac = "\<lambda>k m. k @ m" and ?S = "theSite (demo_api 0)" and ?t = "tree (holding [a_file ''x''])"
  let ?a = "AuthPublicShare an_env one_row ?mac a_conf 7 ''k'' ''pw'' locked_share"
  let ?tok = "projr (snd ?a)" and ?db1 = "fst ?a"
  let ?d = "ShareDown one_row ?mac a_conf ?S 5000000000 (get_k\<lparr>rqToken := ?tok\<rparr>) ?db1 ?t"
  let ?e = "ShareDown one_row ?mac a_conf ?S 6000000000 (get_k\<lparr>rqToken := ?tok\<rparr>) (fst ?d) ?t"
  have "\<not> isl (snd ?a)" by code_simp
  then have a: "?a = (?db1, Inr ?tok)" by (rule result_of)
  have "snd (snd ?d) = Inr ''/a/x''" by code_simp
  then have d: "?d = (fst ?d, fst (snd ?d), Inr ''/a/x'')" by (rule triple_of)
  have "snd (snd ?e) = Inl 401" by code_simp
  then have e: "?e = (fst ?e, fst (snd ?e), Inl 401)" by (rule triple_of)
  have "fst ?e = fst ?d" by code_simp
  from a d e [unfolded this] show ?thesis by (intro exI conjI)
qed

section \<open>What creating a share does not ask\<close>

text \<open>A folder with a password, and a user who has the right to read its path but not the password.\<close>

definition guarded_world :: "(Obj list, Meta list) world" where
  "guarded_world = (holding [a_file ''x''])\<lparr>rules := \<lparr>metaTable = [pw_meta ''/a''], metaCache = (\<lambda>_. None)\<rparr>\<rparr>"

definition create_root :: CreateShareReq where
  "create_root = create_k\<lparr>crPath := ''/'', crAllowDownload := Some False\<rparr>"

text \<open>Shares and folder passwords. \<^const>\<open>CreateShare\<close> asks whether the roles of the user may read the path, not for the
  password of the folder: a user whom \<^const>\<open>FsList\<close> refuses a folder for want of its password can share that folder,
  and every visitor of the share sees what is in it.\<close>

theorem share_opens_protected_folder:
  "\<exists>w' db' t1 t2 s items tot.
     FsList (demo_conf 0) 0 (guest_of ''/a'') list_root guarded_world = Some (w', Inl 403)
   \<and> CreateShare an_env list_rows (theSite (demo_api 0)) 1 (guest_of ''/a'') create_root [] (tree guarded_world) = (db', t1, Inr s)
   \<and> ListPublicShare (rows list_rows) (\<lambda>k m. k @ m) a_conf (theSite (demo_api 0)) 2 ''k'' [] [] 1 0 db' (tree guarded_world)
       = Some (t2, Inr (items, tot))
   \<and> map poName items = [''x'']"
proof -
  let ?S = "theSite (demo_api 0)"
  let ?l = "FsList (demo_conf 0) 0 (guest_of ''/a'') list_root guarded_world"
  let ?c = "CreateShare an_env list_rows ?S 1 (guest_of ''/a'') create_root [] (tree guarded_world)"
  let ?p = "ListPublicShare (rows list_rows) (\<lambda>k m. k @ m) a_conf ?S 2 ''k'' [] [] 1 0 (fst ?c) (tree guarded_world)"
  have "map_option snd ?l = Some (Inl 403)" by code_simp
  then obtain w' where l: "?l = Some (w', Inl 403)" by auto
  have "(case snd (snd ?c) of Inr s \<Rightarrow> True | Inl _ \<Rightarrow> False)" by code_simp
  then obtain s where "snd (snd ?c) = Inr s" by (auto split: sum.split_asm)
  then have c: "?c = (fst ?c, fst (snd ?c), Inr s)" by (rule triple_of)
  have "answered ?p (\<lambda>r. map poName (fst r) = [''x''])" by code_simp
  then obtain t2 items tot where p: "?p = Some (t2, Inr (items, tot))" "map poName items = [''x'']"
    by (rule answeredE) auto
  from l c p show ?thesis by (intro exI conjI)
qed

text \<open>
  The columns for preview and download have the default \<^verbatim>\<open>true\<close>, which \<^verbatim>\<open>gorm\<close> stores for a new row whose
  field is \<^verbatim>\<open>false\<close>: a share created without the right to download has it all the same.
\<close>

lemma created_share_ignores_denial:
  "(case shTake (rows list_rows) (fst (CreateShare an_env list_rows (theSite (demo_api 0)) 1 (guest_of ''/a'') create_root []
       (tree guarded_world))) ''k'' of Inr s \<Rightarrow> AllowDownload s | Inl _ \<Rightarrow> False)"
  by code_simp

text \<open>Hours are multiplied as 64-bit nanoseconds: about 293 years from now is in the past.\<close>

lemma expire_hours_wrap:
  "resolveShareExpireAt E now [] 2562048 = Inr (Some (now - 9223371273709551616))"
  by (simp add: resolveShareExpireAt_def TrimSpace_def trim_by_def wrap64_def)

end
