(* ===== verification/DeviceSession.thy ===== *)
theory DeviceSession
  imports Perm
begin

text \<open>
  Device sessions (\<^verbatim>\<open>internal/device/session.go\<close>, \<^verbatim>\<open>internal/db/session.go\<close>, \<^verbatim>\<open>server/handles/session.go\<close>): a user may
  use a limited number of devices at a time.  Every request of a user renews the session of its device; a
  new device is refused or takes the place of the one that was active longest ago.  The rows are reached
  through \<^verbatim>\<open>gorm\<close>: the queries are the functions of \<open>session_db\<close>.  Times are seconds.
\<close>

section \<open>Settings (internal/setting)\<close>

text \<open>\<open>item key\<close> is what \<^verbatim>\<open>op.GetSettingItemByKey\<close> finds; its errors give \<^verbatim>\<open>nil\<close>.\<close>

type_synonym settings = "string \<Rightarrow> string option"

definition GetStr :: "settings \<Rightarrow> string \<Rightarrow> string \<Rightarrow> string" where
  "GetStr item key dflt = (case item key of None \<Rightarrow> dflt | Some v \<Rightarrow> v)"

definition GetInt :: "settings \<Rightarrow> string \<Rightarrow> int \<Rightarrow> int" where
  "GetInt item key dflt = (case ParseInt (GetStr item key []) of None \<Rightarrow> dflt | Some i \<Rightarrow> i)"

definition GetBool :: "settings \<Rightarrow> string \<Rightarrow> bool" where
  "GetBool item key \<longleftrightarrow> GetStr item key [] = ''true'' \<or> GetStr item key [] = ''1''"

section \<open>Rows\<close>

record Session =
  SessUser :: nat
  DeviceKey :: string
  UserAgent :: string
  SessIP :: string
  LastActive :: int
  SessStatus :: int

definition SessionActive :: int where "SessionActive = 0"

definition SessionInactive :: int where "SessionInactive = 1"

record 'b session_db =
  sGet :: "'b \<Rightarrow> nat \<Rightarrow> string \<Rightarrow> err + Session"
  sCreate :: "'b \<Rightarrow> Session \<Rightarrow> 'b \<times> err option"
  sUpsert :: "'b \<Rightarrow> Session \<Rightarrow> 'b \<times> err option"
  sCount :: "'b \<Rightarrow> nat \<Rightarrow> err + int"
  sDeleteBefore :: "'b \<Rightarrow> int \<Rightarrow> 'b \<times> err option"
  sOldest :: "'b \<Rightarrow> nat \<Rightarrow> err + Session"
  sTouch :: "'b \<Rightarrow> nat \<Rightarrow> string \<Rightarrow> int \<Rightarrow> 'b \<times> err option"
  sMark :: "'b \<Rightarrow> string \<Rightarrow> 'b \<times> err option"

definition star_inner :: "(string \<Rightarrow> bool) \<Rightarrow> string list \<Rightarrow> string list" where
  "star_inner P parts = hd parts # map (\<lambda>p. if P p then ''*'' else p) (butlast (tl parts)) @ [last parts]"

definition MaskIP :: "string \<Rightarrow> string" where
  "MaskIP ip =
     (if ip = [] then []
      else if Contains ip '':'' then
        (let parts = Split CHR '':'' ip
         in if length parts > 2 then Join '':'' (star_inner (\<lambda>p. p \<noteq> []) parts) else ip)
      else let parts = Split CHR ''.'' ip
           in if length parts = 4 then Join ''.'' (star_inner (\<lambda>_. True) parts) else ip)"

section \<open>Devices\<close>

text \<open>
  Room for one more device: nothing to do, or the device active longest ago is taken out, or the policy
  denies.  A failing query for the oldest device is ignored by the code.
\<close>

definition make_room :: "'b session_db \<Rightarrow> settings \<Rightarrow> nat \<Rightarrow> 'b \<Rightarrow> 'b \<times> err option" where
  "make_room B item userID db =
     (let max = GetInt item ''max_devices'' 0
      in if max > 0 then
           (case sCount B db userID of
              Inl e \<Rightarrow> (db, Some e)
            | Inr count \<Rightarrow>
                if count \<ge> max then
                  (if GetStr item ''device_evict_policy'' ''deny'' = ''evict_oldest'' then
                     (case sOldest B db userID of
                        Inl _ \<Rightarrow> (db, None)
                      | Inr oldest \<Rightarrow> sMark B db (DeviceKey oldest))
                   else (db, Some TooManyDevices))
                else (db, None))
         else (db, None))"

definition new_session :: "nat \<Rightarrow> string \<Rightarrow> string \<Rightarrow> string \<Rightarrow> int \<Rightarrow> Session" where
  "new_session userID deviceKey ua ip now =
     \<lparr>SessUser = userID, DeviceKey = deviceKey, UserAgent = ua, SessIP = MaskIP ip, LastActive = now, SessStatus = SessionActive\<rparr>"

definition renewed :: "string \<Rightarrow> string \<Rightarrow> int \<Rightarrow> Session \<Rightarrow> Session" where
  "renewed ua ip now s = s\<lparr>SessStatus := SessionActive, LastActive := now, UserAgent := ua, SessIP := MaskIP ip\<rparr>"

definition then_create :: "'b session_db \<Rightarrow> Session \<Rightarrow> 'b \<times> err option \<Rightarrow> 'b \<times> err option" where
  "then_create B s r = (case r of (db, Some e) \<Rightarrow> (db, Some e) | (db, None) \<Rightarrow> sCreate B db s)"

definition Handle ::
    "'b session_db \<Rightarrow> settings \<Rightarrow> int \<Rightarrow> nat \<Rightarrow> string \<Rightarrow> string \<Rightarrow> string \<Rightarrow> 'b \<Rightarrow> 'b \<times> err option" where
  "Handle B item now userID deviceKey ua ip db0 =
     (let ttl = GetInt item ''device_session_ttl'' 86400;
          db = (if ttl > 0 then fst (sDeleteBefore B db0 (wrap64 (now - ttl))) else db0)
      in case sGet B db userID deviceKey of
           Inr sess \<Rightarrow>
             if SessStatus sess = SessionInactive then (db, Some err.SessionInactive)
             else sUpsert B db (renewed ua ip now sess)
         | Inl e \<Rightarrow>
             if e \<noteq> RecordNotFound then (db, Some e)
             else then_create B (new_session userID deviceKey ua ip now) (make_room B item userID db))"

definition EnsureActiveOnLogin ::
    "'b session_db \<Rightarrow> settings \<Rightarrow> int \<Rightarrow> nat \<Rightarrow> string \<Rightarrow> string \<Rightarrow> string \<Rightarrow> 'b \<Rightarrow> 'b \<times> err option" where
  "EnsureActiveOnLogin B item now userID deviceKey ua ip db =
     (case sGet B db userID deviceKey of
        Inr sess \<Rightarrow>
          (case (if SessStatus sess = SessionInactive then make_room B item userID db else (db, None)) of
             (db, Some e) \<Rightarrow> (db, Some e)
           | (db, None) \<Rightarrow> sUpsert B db (renewed ua ip now sess))
      | Inl e \<Rightarrow>
          if e \<noteq> RecordNotFound then (db, Some e)
          else then_create B (new_session userID deviceKey ua ip now) (make_room B item userID db))"

definition Refresh :: "'b session_db \<Rightarrow> int \<Rightarrow> nat \<Rightarrow> string \<Rightarrow> 'b \<Rightarrow> 'b" where
  "Refresh B now userID deviceKey db = fst (sTouch B db userID deviceKey now)"

definition MarkInactive :: "'b session_db \<Rightarrow> string \<Rightarrow> 'b \<Rightarrow> 'b \<times> err option" where
  "MarkInactive B sessionID db = sMark B db sessionID"

definition EvictMySession :: "'b session_db \<Rightarrow> User \<Rightarrow> string \<Rightarrow> 'b \<Rightarrow> 'b \<times> int" where
  "EvictMySession B user sessionID db =
     (case sGet B db (UserID user) sessionID of
        Inl e \<Rightarrow> (db, 400)
      | Inr _ \<Rightarrow> (case sMark B db sessionID of (db, Some e) \<Rightarrow> (db, 500) | (db, None) \<Rightarrow> (db, 200)))"

definition EvictSession :: "'b session_db \<Rightarrow> string \<Rightarrow> 'b \<Rightarrow> 'b \<times> int" where
  "EvictSession B sessionID db = (case sMark B db sessionID of (db, Some e) \<Rightarrow> (db, 500) | (db, None) \<Rightarrow> (db, 200))"

section \<open>What is assumed of the table\<close>

text \<open>
  \<open>tab db\<close> are the rows by their primary key, the device key.  A statement that fails changes nothing; one
  that succeeds does what it says.  Queries may fail; the one for the oldest session finds one if there is any.
\<close>

definition active_keys :: "(string \<Rightarrow> Session option) \<Rightarrow> nat \<Rightarrow> string set" where
  "active_keys t u = {k. \<exists>s. t k = Some s \<and> SessUser s = u \<and> SessStatus s = SessionActive}"

definition writes_row :: "('b \<Rightarrow> string \<Rightarrow> Session option) \<Rightarrow> 'b \<Rightarrow> 'b \<times> err option \<Rightarrow> (string \<Rightarrow> Session option) \<Rightarrow> bool" where
  "writes_row tab db r t \<longleftrightarrow> (case r of (db', None) \<Rightarrow> tab db' = t | (db', Some e) \<Rightarrow> tab db' = tab db)"

definition session_db_ok :: "'b session_db \<Rightarrow> ('b \<Rightarrow> string \<Rightarrow> Session option) \<Rightarrow> bool" where
  "session_db_ok B tab \<longleftrightarrow>
     (\<forall>db k s. tab db k = Some s \<longrightarrow> DeviceKey s = k)
   \<and> (\<forall>db. finite (dom (tab db)))
   \<and> (\<forall>db u k s. sGet B db u k = Inr s \<longrightarrow> tab db (DeviceKey s) = Some s \<and> SessUser s = u \<and> (k \<noteq> [] \<longrightarrow> DeviceKey s = k))
   \<and> (\<forall>db u k s. sGet B db u k = Inl RecordNotFound \<and> tab db k = Some s \<longrightarrow> SessUser s \<noteq> u)
   \<and> (\<forall>db s. writes_row tab db (sCreate B db s) ((tab db)(DeviceKey s \<mapsto> s)) \<and> (tab db (DeviceKey s) \<noteq> None \<longrightarrow> snd (sCreate B db s) \<noteq> None))
   \<and> (\<forall>db s. writes_row tab db (sUpsert B db s) ((tab db)(DeviceKey s \<mapsto> s)))
   \<and> (\<forall>db u n. sCount B db u = Inr n \<longrightarrow> n = int (card (active_keys (tab db) u)))
   \<and> (\<forall>db ts. writes_row tab db (sDeleteBefore B db ts) (\<lambda>k. case tab db k of Some s \<Rightarrow> if LastActive s < ts then None else Some s | None \<Rightarrow> None))
   \<and> (\<forall>db u s. sOldest B db u = Inr s \<longrightarrow> tab db (DeviceKey s) = Some s \<and> SessUser s = u \<and> SessStatus s = SessionActive
        \<and> (\<forall>k s'. tab db k = Some s' \<and> SessUser s' = u \<and> SessStatus s' = SessionActive \<longrightarrow> LastActive s \<le> LastActive s'))
   \<and> (\<forall>db u e. sOldest B db u = Inl e \<longrightarrow> active_keys (tab db) u = {})
   \<and> (\<forall>db u k t. writes_row tab db (sTouch B db u k t)
        (\<lambda>k'. case tab db k' of Some s \<Rightarrow> Some (if k' = k \<and> SessUser s = u then s\<lparr>LastActive := t\<rparr> else s) | None \<Rightarrow> None))
   \<and> (\<forall>db k. writes_row tab db (sMark B db k) (\<lambda>k'. case tab db k' of Some s \<Rightarrow> Some (if k' = k then s\<lparr>SessStatus := SessionInactive\<rparr> else s) | None \<Rightarrow> None))"

section \<open>The limit on devices\<close>

definition known_states :: "(string \<Rightarrow> Session option) \<Rightarrow> bool" where
  "known_states t \<longleftrightarrow> (\<forall>k s. t k = Some s \<longrightarrow> SessStatus s = SessionActive \<or> SessStatus s = SessionInactive)"

text \<open>No user has more than \<open>n\<close> active sessions.\<close>

definition within :: "nat \<Rightarrow> (string \<Rightarrow> Session option) \<Rightarrow> bool" where
  "within n t \<longleftrightarrow> known_states t \<and> (\<forall>u. card (active_keys t u) \<le> n)"

lemma finite_active: "\<lbrakk>session_db_ok B tab\<rbrakk> \<Longrightarrow> finite (active_keys (tab db) u)"
  by (rule finite_subset [of _ "dom (tab db)"]) (auto simp: active_keys_def session_db_ok_def)

text \<open>A change that activates nobody keeps the limit.\<close>

lemma within_mono:
  assumes "\<And>u. active_keys t' u \<subseteq> active_keys t u" "\<And>u. finite (active_keys t u)" "within n t" "known_states t'"
  shows "within n t'"
  using assms unfolding within_def by (meson card_mono le_trans)

text \<open>One that activates one session of a user with room keeps it too.\<close>

lemma within_activate:
  assumes "within n t" "\<And>u'. finite (active_keys t u')" "card (active_keys t u - {k}) < n" "SessUser s = u"
    and "SessStatus s = SessionActive"
  shows "within n (t(k \<mapsto> s))"
proof -
  have "active_keys (t(k \<mapsto> s)) u \<subseteq> insert k (active_keys t u - {k})" by (auto simp: active_keys_def split: if_splits)
  then have "card (active_keys (t(k \<mapsto> s)) u) \<le> card (insert k (active_keys t u - {k}))"
    by (rule card_mono [rotated]) (use assms(2) in simp)
  also have "\<dots> = Suc (card (active_keys t u - {k}))" by (rule card_insert_disjoint) (use assms(2) in auto)
  finally have "card (active_keys (t(k \<mapsto> s)) u) \<le> n" using assms(3) by simp
  moreover have "card (active_keys (t(k \<mapsto> s)) v) \<le> n" if "v \<noteq> u" for v
  proof -
    have "active_keys (t(k \<mapsto> s)) v \<subseteq> active_keys t v" using that assms(4) by (auto simp: active_keys_def split: if_splits)
    then show ?thesis using assms(1,2) unfolding within_def by (meson card_mono le_trans)
  qed
  moreover have "known_states (t(k \<mapsto> s))" using assms(1,5) by (auto simp: within_def known_states_def)
  ultimately show ?thesis unfolding within_def by metis
qed

lemma writes_rowD:
  assumes "writes_row tab db r t" "r = (db', e)"
  shows "if e = None then tab db' = t else tab db' = tab db"
  using assms by (auto simp: writes_row_def split: option.splits)

lemma mark_within:
  assumes ok: "session_db_ok B tab" and w: "within n (tab db)" and r: "sMark B db k = (db', e)"
  shows "within n (tab db')" "e = None \<Longrightarrow> active_keys (tab db') u = active_keys (tab db) u - {k}"
proof -
  have wr: "writes_row tab db (sMark B db k)
      (\<lambda>k'. case tab db k' of Some s \<Rightarrow> Some (if k' = k then s\<lparr>SessStatus := SessionInactive\<rparr> else s) | None \<Rightarrow> None)"
    using ok by (simp add: session_db_ok_def)
  note d = writes_rowD [OF this r]
  have "active_keys (tab db') v \<subseteq> active_keys (tab db) v" for v
    using d by (auto simp: active_keys_def SessionActive_def SessionInactive_def split: if_splits option.splits)
  moreover have "known_states (tab db')"
    using d w by (auto simp: within_def known_states_def split: if_splits option.splits)
  ultimately show "within n (tab db')" by (rule within_mono [OF _ finite_active [OF ok] w])
  show "active_keys (tab db') u = active_keys (tab db) u - {k}" if "e = None"
    using d that by (auto simp: active_keys_def SessionActive_def SessionInactive_def split: if_splits option.splits)
qed

lemma make_room_ok:
  assumes ok: "session_db_ok B tab" and n: "GetInt item ''max_devices'' 0 = int n" "0 < n"
    and w: "within n (tab db)" and r: "make_room B item u db = (db', e)"
  shows "within n (tab db')" "e = None \<Longrightarrow> card (active_keys (tab db') u) < n"
proof -
  have "within n (tab db') \<and> (e = None \<longrightarrow> card (active_keys (tab db') u) < n)"
  proof (cases "sCount B db u")
    case (Inr c)
    then have c: "c = int (card (active_keys (tab db) u))" using ok by (simp add: session_db_ok_def)
    show ?thesis
    proof (cases "int n \<le> c \<and> GetStr item ''device_evict_policy'' ''deny'' = ''evict_oldest''")
      case True
      with c n(2) have ne: "active_keys (tab db) u \<noteq> {}" by auto
      then obtain old where old: "sOldest B db u = Inr old" using ok by (cases "sOldest B db u") (auto simp: session_db_ok_def)
      then have k: "DeviceKey old \<in> active_keys (tab db) u" using ok by (auto simp: session_db_ok_def active_keys_def)
      have m: "sMark B db (DeviceKey old) = (db', e)" using r Inr True old n by (simp add: make_room_def Let_def)
      have "card (active_keys (tab db) u - {DeviceKey old}) < card (active_keys (tab db) u)"
        by (rule card_Diff1_less) (use k finite_active [OF ok] in auto)
      with w have "card (active_keys (tab db) u - {DeviceKey old}) < n" by (auto simp: within_def intro: less_le_trans)
      then show ?thesis using mark_within [OF ok w m] by metis
    next
      case False
      with r Inr n c w show ?thesis by (auto simp: make_room_def Let_def split: if_splits)
    qed
  qed (use r n w in \<open>auto simp: make_room_def Let_def\<close>)
  then show "within n (tab db')" "e = None \<Longrightarrow> card (active_keys (tab db') u) < n" by auto
qed

lemma room_mono: "\<lbrakk>finite A; card A < n\<rbrakk> \<Longrightarrow> card (A - {k}) < n"
  by (meson card_Diff1_le le_less_trans)

lemma create_within:
  assumes ok: "session_db_ok B tab" and n: "GetInt item ''max_devices'' 0 = int n" "0 < n" and w: "within n (tab db)"
    and s: "SessStatus s = SessionActive" and r: "then_create B s (make_room B item (SessUser s) db) = (db', e)"
  shows "within n (tab db')"
proof -
  obtain db1 e1 where m: "make_room B item (SessUser s) db = (db1, e1)" by fastforce
  note mk = make_room_ok [OF ok n w m]
  show ?thesis
  proof (cases e1)
    case None
    have "writes_row tab db1 (sCreate B db1 s) ((tab db1)(DeviceKey s \<mapsto> s))" using ok by (simp add: session_db_ok_def)
    moreover have "sCreate B db1 s = (db', e)" using r m None by (simp add: then_create_def)
    ultimately have "if e = None then tab db' = (tab db1)(DeviceKey s \<mapsto> s) else tab db' = tab db1" by (rule writes_rowD)
    moreover have "within n ((tab db1)(DeviceKey s \<mapsto> s))"
      by (rule within_activate [OF mk(1) finite_active [OF ok] _ refl s]) (rule room_mono [OF finite_active [OF ok] mk(2) [OF None]])
    ultimately show ?thesis using mk(1) by (metis (full_types))
  qed (use r m mk(1) in \<open>simp add: then_create_def\<close>)
qed

lemma upsert_writes: "session_db_ok B tab \<Longrightarrow> writes_row tab db (sUpsert B db s) ((tab db)(DeviceKey s \<mapsto> s))"
  by (simp add: session_db_ok_def)

lemma renew_within:
  assumes ok: "session_db_ok B tab" and w: "within n (tab db)" and r: "sUpsert B db (renewed ua ip now s) = (db', e)"
    and c: "card (active_keys (tab db) (SessUser s) - {DeviceKey s}) < n"
  shows "within n (tab db')"
proof -
  from writes_rowD [OF upsert_writes [OF ok] r]
  have d: "if e = None then tab db' = (tab db)(DeviceKey s \<mapsto> renewed ua ip now s) else tab db' = tab db" by (simp add: renewed_def)
  have "within n ((tab db)(DeviceKey s \<mapsto> renewed ua ip now s))"
    by (rule within_activate [OF w finite_active [OF ok] c]) (simp_all add: renewed_def)
  with d w show ?thesis by (metis (full_types))
qed

lemma active_room:
  assumes "session_db_ok B tab" "within n (tab db)" "tab db (DeviceKey s) = Some s" "SessStatus s = SessionActive"
  shows "card (active_keys (tab db) (SessUser s) - {DeviceKey s}) < n"
proof -
  have "DeviceKey s \<in> active_keys (tab db) (SessUser s)" using assms(3,4) by (auto simp: active_keys_def)
  then have "card (active_keys (tab db) (SessUser s) - {DeviceKey s}) < card (active_keys (tab db) (SessUser s))"
    by (rule card_Diff1_less [OF finite_active [OF assms(1)]])
  with assms(2) show ?thesis by (auto simp: within_def intro: less_le_trans)
qed

lemma sGet_row: "\<lbrakk>session_db_ok B tab; sGet B db u k = Inr s\<rbrakk> \<Longrightarrow> tab db (DeviceKey s) = Some s \<and> SessUser s = u"
  by (auto simp: session_db_ok_def)

lemma not_inactive: "\<lbrakk>within n t; t k = Some s; SessStatus s \<noteq> SessionInactive\<rbrakk> \<Longrightarrow> SessStatus s = SessionActive"
  by (auto simp: within_def known_states_def)

lemma delete_within:
  assumes ok: "session_db_ok B tab" and w: "within n (tab db)"
  shows "within n (tab (fst (sDeleteBefore B db ts)))"
proof -
  obtain db' e where r: "sDeleteBefore B db ts = (db', e)" by fastforce
  have "writes_row tab db (sDeleteBefore B db ts)
      (\<lambda>k. case tab db k of Some s \<Rightarrow> if LastActive s < ts then None else Some s | None \<Rightarrow> None)"
    using ok by (simp add: session_db_ok_def)
  note d = writes_rowD [OF this r]
  have "active_keys (tab db') u \<subseteq> active_keys (tab db) u" for u
    using d by (auto simp: active_keys_def split: if_splits option.splits)
  moreover have "known_states (tab db')" using d w by (auto simp: within_def known_states_def split: if_splits option.splits)
  ultimately have "within n (tab db')" by (rule within_mono [OF _ finite_active [OF ok] w])
  then show ?thesis by (simp add: r)
qed

lemma touch_within:
  assumes ok: "session_db_ok B tab" and w: "within n (tab db)"
  shows "within n (tab (fst (sTouch B db u k ts)))"
proof -
  obtain db' e where r: "sTouch B db u k ts = (db', e)" by fastforce
  have "writes_row tab db (sTouch B db u k ts)
      (\<lambda>k'. case tab db k' of Some s \<Rightarrow> Some (if k' = k \<and> SessUser s = u then s\<lparr>LastActive := ts\<rparr> else s) | None \<Rightarrow> None)"
    using ok by (simp add: session_db_ok_def)
  note d = writes_rowD [OF this r]
  have row: "\<exists>s0. tab db k' = Some s0 \<and> SessUser s0 = SessUser s \<and> SessStatus s0 = SessStatus s" if "tab db' k' = Some s" for k' s
    using d that by (cases "e = None"; cases "tab db k'") (auto split: if_splits)
  have "active_keys (tab db') u \<subseteq> active_keys (tab db) u" for u using row by (fastforce simp: active_keys_def)
  moreover have "known_states (tab db')" using row w by (fastforce simp: within_def known_states_def)
  ultimately have "within n (tab db')" by (rule within_mono [OF _ finite_active [OF ok] w])
  then show ?thesis by (simp add: r)
qed

lemma Handle_within:
  assumes ok: "session_db_ok B tab" and n: "GetInt item ''max_devices'' 0 = int n" "0 < n" and w: "within n (tab db)"
  shows "within n (tab (fst (Handle B item now u k ua ip db)))"
proof -
  let ?ttl = "GetInt item ''device_session_ttl'' 86400"
  define d where "d = (if ?ttl > 0 then fst (sDeleteBefore B db (wrap64 (now - ?ttl))) else db)"
  have w': "within n (tab d)" using delete_within [OF ok w] w by (simp add: d_def)
  obtain db' e where r: "Handle B item now u k ua ip db = (db', e)" by fastforce
  note h = r [unfolded Handle_def Let_def, folded d_def]
  show ?thesis
  proof (cases "sGet B d u k")
    case (Inl x)
    show ?thesis
    proof (cases "x = RecordNotFound")
      case True
      then have "then_create B (new_session u k ua ip now) (make_room B item (SessUser (new_session u k ua ip now)) d) = (db', e)"
        using h Inl by (simp add: new_session_def)
      from create_within [OF ok n w' _ this] r show ?thesis by (simp add: new_session_def)
    next
      case False
      then have "db' = d" using h Inl by simp
      with w' r show ?thesis by simp
    qed
  next
    case (Inr s)
    note row = sGet_row [OF ok Inr]
    show ?thesis
    proof (cases "SessStatus s = SessionInactive")
      case False
      have "SessStatus s = SessionActive" by (rule not_inactive [OF w' conjunct1 [OF row] False])
      then have c: "card (active_keys (tab d) (SessUser s) - {DeviceKey s}) < n" by (rule active_room [OF ok w' conjunct1 [OF row]])
      have "sUpsert B d (renewed ua ip now s) = (db', e)" using h Inr False by simp
      from renew_within [OF ok w' this c] r show ?thesis by simp
    next
      case True
      then have "db' = d" using h Inr by simp
      with w' r show ?thesis by simp
    qed
  qed
qed

lemma EnsureActive_within:
  assumes ok: "session_db_ok B tab" and n: "GetInt item ''max_devices'' 0 = int n" "0 < n" and w: "within n (tab db)"
  shows "within n (tab (fst (EnsureActiveOnLogin B item now u k ua ip db)))"
proof -
  obtain db' e where r: "EnsureActiveOnLogin B item now u k ua ip db = (db', e)" by fastforce
  show ?thesis
  proof (cases "sGet B db u k")
    case (Inl x)
    show ?thesis
    proof (cases "x = RecordNotFound")
      case True
      then have "then_create B (new_session u k ua ip now) (make_room B item (SessUser (new_session u k ua ip now)) db) = (db', e)"
        using r Inl by (simp add: EnsureActiveOnLogin_def new_session_def)
      from create_within [OF ok n w _ this] r show ?thesis by (simp add: new_session_def)
    qed (use r Inl w in \<open>auto simp: EnsureActiveOnLogin_def\<close>)
  next
    case (Inr s)
    note row = sGet_row [OF ok Inr]
    obtain db1 e1 where m: "(if SessStatus s = SessionInactive then make_room B item u db else (db, None)) = (db1, e1)" by fastforce
    have w1: "within n (tab db1)" using m make_room_ok(1) [OF ok n w] w by (auto split: if_splits)
    have c: "card (active_keys (tab db1) (SessUser s) - {DeviceKey s}) < n" if "e1 = None"
    proof (cases "SessStatus s = SessionInactive")
      case True
      with m that have "make_room B item u db = (db1, None)" by simp
      from make_room_ok(2) [OF ok n w this] row show ?thesis by (simp add: room_mono finite_active [OF ok])
    next
      case False
      have "SessStatus s = SessionActive" by (rule not_inactive [OF w conjunct1 [OF row] False])
      then have "card (active_keys (tab db) (SessUser s) - {DeviceKey s}) < n" by (rule active_room [OF ok w conjunct1 [OF row]])
      moreover have "db1 = db" using m False by simp
      ultimately show ?thesis by simp
    qed
    have "(case e1 of None \<Rightarrow> sUpsert B db1 (renewed ua ip now s) | Some x \<Rightarrow> (db1, Some x)) = (db', e)"
      using r Inr m by (simp add: EnsureActiveOnLogin_def)
    then show ?thesis
      using renew_within [OF ok w1 _ c] w1 by (auto simp: r split: option.split_asm)
  qed
qed

section \<open>Histories\<close>

datatype device_event =
    Request int nat string string string
  | Login int nat string string string
  | Touched int nat string
  | EvictedMine User string
  | Evicted string
  | LoggedOut string

fun device_run :: "'b session_db \<Rightarrow> settings \<Rightarrow> device_event \<Rightarrow> 'b \<Rightarrow> 'b" where
  "device_run B item (Request now u k ua ip) db = fst (Handle B item now u k ua ip db)"
| "device_run B item (Login now u k ua ip) db = fst (EnsureActiveOnLogin B item now u k ua ip db)"
| "device_run B item (Touched now u k) db = Refresh B now u k db"
| "device_run B item (EvictedMine u k) db = fst (EvictMySession B u k db)"
| "device_run B item (Evicted k) db = fst (EvictSession B k db)"
| "device_run B item (LoggedOut k) db = fst (MarkInactive B k db)"

lemma marks_within:
  assumes "session_db_ok B tab" "within n (tab db)"
  shows "within n (tab (fst (sMark B db k)))"
  by (rule mark_within(1) [OF assms, of k _ "snd (sMark B db k)"]) simp

lemma device_run_within:
  assumes ok: "session_db_ok B tab" and n: "GetInt item ''max_devices'' 0 = int n" "0 < n" and w: "within n (tab db)"
  shows "within n (tab (device_run B item ev db))"
proof (cases ev)
  case (EvictedMine u k)
  then have "device_run B item ev db = (case sGet B db (UserID u) k of Inl e \<Rightarrow> db | Inr _ \<Rightarrow> fst (sMark B db k))"
    by (simp add: EvictMySession_def split: sum.split prod.split option.split)
  then show ?thesis using w marks_within [OF ok w] by (simp split: sum.split)
next
  case (Evicted k)
  then have "device_run B item ev db = fst (sMark B db k)" by (simp add: EvictSession_def split: prod.split option.split)
  then show ?thesis using marks_within [OF ok w] by simp
qed (simp_all add: Handle_within [OF ok n w] EnsureActive_within [OF ok n w] Refresh_def touch_within [OF ok w]
    MarkInactive_def marks_within [OF ok w])


text \<open>A table in memory, for the witnesses: keys that may be there, and their rows.\<close>

type_synonym session_mem = "string list \<times> (string \<Rightarrow> Session option)"

definition mem_tab :: "session_mem \<Rightarrow> string \<Rightarrow> Session option" where
  "mem_tab db k = (if k \<in> set (fst db) then map_option (\<lambda>s. s\<lparr>DeviceKey := k\<rparr>) (snd db k) else None)"

definition put_row :: "Session \<Rightarrow> session_mem \<Rightarrow> session_mem" where
  "put_row s db = (DeviceKey s # fst db, (mem_tab db)(DeviceKey s \<mapsto> s))"

definition map_rows :: "(string \<Rightarrow> Session \<Rightarrow> Session option) \<Rightarrow> session_mem \<Rightarrow> session_mem" where
  "map_rows g db = (fst db, \<lambda>k. case mem_tab db k of Some s \<Rightarrow> g k s | None \<Rightarrow> None)"

definition actives :: "session_mem \<Rightarrow> nat \<Rightarrow> string list" where
  "actives db u = filter (\<lambda>k. case mem_tab db k of Some s \<Rightarrow> SessUser s = u \<and> SessStatus s = SessionActive | None \<Rightarrow> False) (remdups (fst db))"

definition older :: "session_mem \<Rightarrow> string \<Rightarrow> string \<Rightarrow> string" where
  "older db k m = (if LastActive (the (mem_tab db k)) < LastActive (the (mem_tab db m)) then k else m)"

definition mem_sessions :: "session_mem session_db" where
  "mem_sessions = \<lparr>
     sGet = (\<lambda>db u k. case mem_tab db k of Some s \<Rightarrow> if SessUser s = u then Inr s else Inl RecordNotFound | None \<Rightarrow> Inl RecordNotFound),
     sCreate = (\<lambda>db s. case mem_tab db (DeviceKey s) of Some _ \<Rightarrow> (db, Some (ErrExt ''UNIQUE constraint'')) | None \<Rightarrow> (put_row s db, None)),
     sUpsert = (\<lambda>db s. (put_row s db, None)),
     sCount = (\<lambda>db u. Inr (int (length (actives db u)))),
     sDeleteBefore = (\<lambda>db ts. (map_rows (\<lambda>k s. if LastActive s < ts then None else Some s) db, None)),
     sOldest = (\<lambda>db u. case actives db u of [] \<Rightarrow> Inl RecordNotFound | k # ks \<Rightarrow> Inr (the (mem_tab db (fold (older db) ks k)))),
     sTouch = (\<lambda>db u k t. (map_rows (\<lambda>k' s. Some (if k' = k \<and> SessUser s = u then s\<lparr>LastActive := t\<rparr> else s)) db, None)),
     sMark = (\<lambda>db k. (map_rows (\<lambda>k' s. Some (if k' = k then s\<lparr>SessStatus := SessionInactive\<rparr> else s)) db, None))\<rparr>"

lemma mem_tab_key: "mem_tab db k = Some s \<Longrightarrow> DeviceKey s = k \<and> k \<in> set (fst db)"
  by (auto simp: mem_tab_def split: if_splits)

lemma mem_tab_put: "mem_tab (put_row s db) = (mem_tab db)(DeviceKey s \<mapsto> s)"
proof (rule ext)
  fix k
  show "mem_tab (put_row s db) k = ((mem_tab db)(DeviceKey s \<mapsto> s)) k"
    by (cases "mem_tab db k") (auto simp: mem_tab_def put_row_def dest: mem_tab_key split: if_splits)
qed

lemma mem_tab_pair: "mem_tab (ks, f) k = (if k \<in> set ks then map_option (\<lambda>s. s\<lparr>DeviceKey := k\<rparr>) (f k) else None)"
  by (simp add: mem_tab_def)

lemma mem_tab_map:
  assumes "\<And>k s s'. \<lbrakk>DeviceKey s = k; g k s = Some s'\<rbrakk> \<Longrightarrow> DeviceKey s' = k"
  shows "mem_tab (map_rows g db) = (\<lambda>k. case mem_tab db k of Some s \<Rightarrow> g k s | None \<Rightarrow> None)"
proof (rule ext)
  fix k
  show "mem_tab (map_rows g db) k = (case mem_tab db k of Some s \<Rightarrow> g k s | None \<Rightarrow> None)"
  proof (cases "mem_tab db k")
    case (Some s)
    note k = mem_tab_key [OF Some]
    have "mem_tab (map_rows g db) k = map_option (\<lambda>s. s\<lparr>DeviceKey := k\<rparr>) (g k s)"
      using Some k by (simp add: map_rows_def mem_tab_pair)
    moreover have "s'\<lparr>DeviceKey := k\<rparr> = s'" if "g k s = Some s'" for s' using assms [of s k s'] k that by auto
    ultimately show ?thesis using Some by (cases "g k s") auto
  qed (simp add: map_rows_def mem_tab_pair)
qed

lemma set_actives: "set (actives db u) = active_keys (mem_tab db) u"
  by (auto simp: actives_def active_keys_def split: option.splits dest: mem_tab_key)

lemma fold_older:
  "fold (older db) ks k \<in> insert k (set ks)
   \<and> (\<forall>x\<in>insert k (set ks). LastActive (the (mem_tab db (fold (older db) ks k))) \<le> LastActive (the (mem_tab db x)))"
proof (induction ks arbitrary: k)
  case (Cons a ks)
  from Cons.IH [of "older db a k"] show ?case by (fastforce simp: older_def split: if_splits)
qed simp

lemma mem_sessions_ok: "session_db_ok mem_sessions mem_tab"
  unfolding session_db_ok_def
proof (intro conjI allI impI)
  show "finite (dom (mem_tab db))" for db
    by (rule finite_subset [of _ "set (fst db)"]) (auto dest: mem_tab_key)
  show "n = int (card (active_keys (mem_tab db) u))" if "sCount mem_sessions db u = Inr n" for db u n
  proof -
    have "distinct (actives db u)" by (simp add: actives_def)
    then show ?thesis using that distinct_card [of "actives db u"] by (simp add: mem_sessions_def set_actives)
  qed
  have old: "\<exists>k. s = the (mem_tab db k) \<and> k \<in> active_keys (mem_tab db) u
      \<and> (\<forall>k'\<in>active_keys (mem_tab db) u. LastActive s \<le> LastActive (the (mem_tab db k')))"
    if "sOldest mem_sessions db u = Inr s" for db u s
  proof -
    from that obtain k ks where a: "actives db u = k # ks" "s = the (mem_tab db (fold (older db) ks k))"
      by (auto simp: mem_sessions_def split: list.splits)
    with fold_older [of db ks k] show ?thesis unfolding set_actives [symmetric] by auto
  qed
  show "mem_tab db (DeviceKey s) = Some s" "SessUser s = u" "SessStatus s = SessionActive"
    if "sOldest mem_sessions db u = Inr s" for db u s
    using old [OF that] mem_tab_key [of db] by (fastforce simp: active_keys_def)+
  show "LastActive s \<le> LastActive s'"
    if "sOldest mem_sessions db u = Inr s" "mem_tab db k = Some s' \<and> SessUser s' = u \<and> SessStatus s' = SessionActive" for db u s k s'
    using old [OF that(1)] that(2) by (force simp: active_keys_def)
  show "active_keys (mem_tab db) u = {}" if "sOldest mem_sessions db u = Inl e" for db u e
    using that unfolding set_actives [symmetric] by (simp add: mem_sessions_def split: list.splits)
  have maps: "writes_row mem_tab db (map_rows g db, None) (\<lambda>k. case mem_tab db k of Some s \<Rightarrow> g k s | None \<Rightarrow> None)"
    if "\<And>k s s'. \<lbrakk>DeviceKey s = k; g k s = Some s'\<rbrakk> \<Longrightarrow> DeviceKey s' = k" for g db
    using mem_tab_map [of g, OF that] by (simp add: writes_row_def)
  show "writes_row mem_tab db (sDeleteBefore mem_sessions db ts)
      (\<lambda>k. case mem_tab db k of Some s \<Rightarrow> if LastActive s < ts then None else Some s | None \<Rightarrow> None)" for db ts
    by (simp add: mem_sessions_def) (rule maps, auto split: if_splits)
  show "writes_row mem_tab db (sTouch mem_sessions db u k t)
      (\<lambda>k'. case mem_tab db k' of Some s \<Rightarrow> Some (if k' = k \<and> SessUser s = u then s\<lparr>LastActive := t\<rparr> else s) | None \<Rightarrow> None)" for db u k t
    by (simp add: mem_sessions_def) (rule maps, auto split: if_splits)
  show "writes_row mem_tab db (sMark mem_sessions db k)
      (\<lambda>k'. case mem_tab db k' of Some s \<Rightarrow> Some (if k' = k then s\<lparr>SessStatus := SessionInactive\<rparr> else s) | None \<Rightarrow> None)" for db k
    by (simp add: mem_sessions_def) (rule maps, auto split: if_splits)
qed (auto simp: mem_sessions_def writes_row_def mem_tab_put dest: mem_tab_key split: option.splits if_splits)

definition three_devices :: "device_event list" where
  "three_devices = [Login 1 7 ''a'' [] [], Request 2 7 ''b'' [] [], Login 3 7 ''c'' [] []]"


text \<open>Three devices, two allowed: the one that was active longest ago is out.\<close>

lemma oldest_device_evicted:
  "map (\<lambda>k. map_option SessStatus (mem_tab (fold (device_run mem_sessions [''max_devices'' \<mapsto> ''2'', ''device_evict_policy'' \<mapsto> ''evict_oldest'']) three_devices ([], \<lambda>_. None)) k))
     [''a'', ''b'', ''c''] = [Some SessionInactive, Some SessionActive, Some SessionActive]"
  by code_simp

end
