(* ===== verification/Accounts.thy ===== *)
theory Accounts
  imports DeviceSession
begin

text \<open>
  Accounts (\<^verbatim>\<open>internal/op/user.go\<close>, \<^verbatim>\<open>internal/op/role.go\<close>, \<^verbatim>\<open>internal/db/user.go\<close>): users and roles are rows of two
  tables, kept in caches by name and, for roles, by number.  The built-in administrator is put back to its
  defaults whenever it is read.  The rows are reached through \<^verbatim>\<open>gorm\<close>: the functions of \<open>account_db\<close>.  The caches
  hold pointers, so a change of a cached object is a change of the cache; entries may expire at any time.
  \<open>setDefaultRole\<close> is the update of the setting \<^verbatim>\<open>default_role\<close>, a row of a third table.
\<close>

record 'b account_db =
  uAll :: "'b \<Rightarrow> err + User list"
  uByName :: "'b \<Rightarrow> string \<Rightarrow> err + User"
  uById :: "'b \<Rightarrow> nat \<Rightarrow> err + User"
  uCreate :: "'b \<Rightarrow> User \<Rightarrow> 'b \<times> (err + nat)"
  uSave :: "'b \<Rightarrow> User \<Rightarrow> 'b \<times> err option"
  uDelete :: "'b \<Rightarrow> nat \<Rightarrow> 'b \<times> err option"
  uCountEnabled :: "'b \<Rightarrow> nat \<Rightarrow> nat \<Rightarrow> err + int"
  rGet :: "'b \<Rightarrow> 64 word \<Rightarrow> err + Role"
  rByName :: "'b \<Rightarrow> string \<Rightarrow> err + Role"
  rDefault :: "'b \<Rightarrow> err + Role"
  rCreate :: "'b \<Rightarrow> Role \<Rightarrow> 'b \<times> (err + nat)"
  rSave :: "'b \<Rightarrow> Role \<Rightarrow> 'b \<times> err option"
  rDelete :: "'b \<Rightarrow> 64 word \<Rightarrow> 'b \<times> err option"
  setDefaultRole :: "'b \<Rightarrow> string \<Rightarrow> 'b \<times> err option"

record 'b accounts =
  acTable :: 'b
  userCache :: "string \<Rightarrow> User option"
  roleCache :: "string \<Rightarrow> Role option"
  guestUser :: "User option"
  adminUser :: "User option"

text \<open>What a request takes from outside: the flag of the fixed administrator, the hash, the next salt, the time.\<close>

record account_env =
  FixedAdmin :: bool
  hash :: "string \<Rightarrow> string"
  nextSalt :: string
  nowUnix :: int

definition forget_user :: "string \<Rightarrow> 'b accounts \<Rightarrow> 'b accounts" where
  "forget_user name st = st\<lparr>userCache := (userCache st)(name := None)\<rparr>"

definition forget_role :: "string \<Rightarrow> 'b accounts \<Rightarrow> 'b accounts" where
  "forget_role key st = st\<lparr>roleCache := (roleCache st)(key := None)\<rparr>"

section \<open>The administrator's defaults\<close>

definition root_only :: "User \<Rightarrow> User" where
  "root_only u = (if FixAndCleanPath (BasePath u) \<noteq> ''/'' then u\<lparr>BasePath := ''/''\<rparr> else u)"

definition fixed_credentials :: "account_env \<Rightarrow> User \<Rightarrow> User" where
  "fixed_credentials E u =
     (if \<not> FixedAdmin E then u
      else let u = u\<lparr>Username := ''admin''\<rparr>;
               u = (if ValidateRawPassword (hash E) u ''admin'' \<noteq> None then SetPassword (hash E) (nextSalt E) (nowUnix E) u ''admin'' else u)
           in u\<lparr>OtpSecret := [], Disabled := False\<rparr>)"

definition applyAdminDefaults :: "account_env \<Rightarrow> User \<Rightarrow> User \<times> bool" where
  "applyAdminDefaults E u =
     (fixed_credentials E ((root_only u)\<lparr>UserPermission := 0xFFFF\<rparr>),
      FixAndCleanPath (BasePath u) \<noteq> ''/'' \<or> UserPermission u \<noteq> 0xFFFF
      \<or> (FixedAdmin E \<and> (Username u \<noteq> ''admin'' \<or> ValidateRawPassword (hash E) u ''admin'' \<noteq> None \<or> OtpSecret u \<noteq> [] \<or> Disabled u)))"

definition enforceAdminUserDefaults :: "account_env \<Rightarrow> 'b account_db \<Rightarrow> 'b accounts \<Rightarrow> User \<Rightarrow> 'b accounts \<times> User \<times> err option" where
  "enforceAdminUserDefaults E A st u =
     (if \<not> IsAdmin u then (st, u, None)
      else let (u', changed) = applyAdminDefaults E u;
               st = (if changed \<and> Username u \<noteq> Username u' then forget_user (Username u) st else st)
           in if \<not> changed then (st, u', None)
              else case uSave A (acTable st) u' of (db, e) \<Rightarrow> (st\<lparr>acTable := db\<rparr>, u', e))"

definition enforceAdminRoleDefaults :: "'b account_db \<Rightarrow> 'b accounts \<Rightarrow> Role \<Rightarrow> 'b accounts \<times> Role \<times> err option" where
  "enforceAdminRoleDefaults A st r =
     (if RoleName r \<noteq> ''admin'' then (st, r, None)
      else case PermissionScopes r of
             [e] \<Rightarrow>
               if FixAndCleanPath (Path e) = ''/'' \<and> Permission e = 0xFFFF
               then (st, r\<lparr>PermissionScopes := [e\<lparr>Path := ''/''\<rparr>]\<rparr>, None)
               else (let r' = r\<lparr>PermissionScopes := [\<lparr>Path = ''/'', Permission = 0xFFFF\<rparr>]\<rparr>; (db, err) = rSave A (acTable st) r'
                     in (st\<lparr>acTable := db\<rparr>, r', err))
           | _ \<Rightarrow>
               (let r' = r\<lparr>PermissionScopes := [\<lparr>Path = ''/'', Permission = 0xFFFF\<rparr>]\<rparr>; (db, err) = rSave A (acTable st) r'
                in (st\<lparr>acTable := db\<rparr>, r', err)))"

section \<open>Roles\<close>

text \<open>A role that was read is put into the cache under its number and under its name.\<close>

definition load_role :: "'b account_db \<Rightarrow> 'b accounts \<Rightarrow> err + Role \<Rightarrow> string \<Rightarrow> (Role \<Rightarrow> string) \<Rightarrow> 'b accounts \<times> (err + Role)" where
  "load_role A st got key other =
     (case got of
        Inl e \<Rightarrow> (st, Inl e)
      | Inr r \<Rightarrow>
          (case enforceAdminRoleDefaults A st r of
             (st, r, Some e) \<Rightarrow> (st, Inl e)
           | (st, r, None) \<Rightarrow> (st\<lparr>roleCache := (roleCache st)(key \<mapsto> r, other r \<mapsto> r)\<rparr>, Inr r)))"

definition GetRole :: "'b account_db \<Rightarrow> 'b accounts \<Rightarrow> 64 word \<Rightarrow> 'b accounts \<times> (err + Role)" where
  "GetRole A st i =
     (let key = FormatUint (unat i)
      in case roleCache st key of
           Some r \<Rightarrow> (st, Inr r)
         | None \<Rightarrow> load_role A st (rGet A (acTable st) i) key RoleName)"

definition GetRoleByName :: "'b account_db \<Rightarrow> 'b accounts \<Rightarrow> string \<Rightarrow> 'b accounts \<times> (err + Role)" where
  "GetRoleByName A st name =
     (case roleCache st name of
        Some r \<Rightarrow> (st, Inr r)
      | None \<Rightarrow> load_role A st (rByName A (acTable st) name) name (\<lambda>r. FormatUint (RoleID r)))"

definition GetDefaultRoleID :: "'b account_db \<Rightarrow> settings \<Rightarrow> 'b accounts \<Rightarrow> int" where
  "GetDefaultRoleID A item st =
     (let fallback = (case rDefault A (acTable st) of Inr r \<Rightarrow> int (RoleID r) | Inl _ \<Rightarrow> GUEST)
      in case item ''default_role'' of
           None \<Rightarrow> fallback
         | Some v \<Rightarrow>
             if v = [] then fallback
             else case ParseInt v of
                    Some i \<Rightarrow> if i \<noteq> 0 then i
                              else (case rByName A (acTable st) v of Inr r \<Rightarrow> int (RoleID r) | Inl _ \<Rightarrow> fallback)
                  | None \<Rightarrow> (case rByName A (acTable st) v of Inr r \<Rightarrow> int (RoleID r) | Inl _ \<Rightarrow> fallback))"

fun roles_of :: "'b account_db \<Rightarrow> 'b accounts \<Rightarrow> int list \<Rightarrow> 'b accounts \<times> (err + Role list)" where
  "roles_of A st [] = (st, Inr [])"
| "roles_of A st (i # is) =
     (case (case roleCache st (FormatInt i) of
              Some r \<Rightarrow> (st, Inr r)
            | None \<Rightarrow> load_role A st (rGet A (acTable st) (of_int i)) (FormatInt i) RoleName) of
        (st, Inl e) \<Rightarrow> (st, Inl e)
      | (st, Inr r) \<Rightarrow> (case roles_of A st is of (st, Inl e) \<Rightarrow> (st, Inl e) | (st, Inr rs) \<Rightarrow> (st, Inr (r # rs))))"

definition GetRolesByUserID :: "'b account_db \<Rightarrow> 'b accounts \<Rightarrow> nat \<Rightarrow> 'b accounts \<times> (err + Role list)" where
  "GetRolesByUserID A st userID =
     (case uById A (acTable st) userID of Inl e \<Rightarrow> (st, Inl e) | Inr user \<Rightarrow> roles_of A st (Roles user))"

definition clean_scopes :: "Role \<Rightarrow> Role" where
  "clean_scopes r = r\<lparr>PermissionScopes := map (\<lambda>e. e\<lparr>Path := FixAndCleanPath (Path e)\<rparr>) (PermissionScopes r)\<rparr>"

definition made_default :: "'b account_db \<Rightarrow> 'b accounts \<Rightarrow> Role \<Rightarrow> 'b accounts \<times> err option" where
  "made_default A st r =
     (if \<not> Default r then (st, None)
      else let st = st\<lparr>roleCache := (\<lambda>_. None)\<rparr>; (db, e) = setDefaultRole A (acTable st) (FormatUint (RoleID r))
           in (st\<lparr>acTable := db\<rparr>, e))"

definition CreateRole :: "'b account_db \<Rightarrow> 'b accounts \<Rightarrow> Role \<Rightarrow> 'b accounts \<times> err option" where
  "CreateRole A st r0 =
     (let r = clean_scopes r0; st = forget_role (RoleName r) (forget_role (FormatUint (RoleID r)) st)
      in case rCreate A (acTable st) r of
           (db, Inl e) \<Rightarrow> (st\<lparr>acTable := db\<rparr>, Some e)
         | (db, Inr i) \<Rightarrow> made_default A (st\<lparr>acTable := db\<rparr>) (r\<lparr>RoleID := i\<rparr>))"

definition UpdateRole :: "'b account_db \<Rightarrow> 'b accounts \<Rightarrow> Role \<Rightarrow> 'b accounts \<times> err option" where
  "UpdateRole A st r0 =
     (case rGet A (acTable st) (of_nat (RoleID r0)) of
        Inl e \<Rightarrow> (st, Some e)
      | Inr old \<Rightarrow>
          if RoleName old = ''admin'' then (st, Some ErrChangeDefaultRole)
          else let r = clean_scopes (if RoleName old = ''guest'' then r0\<lparr>RoleName := ''guest''\<rparr> else r0);
                   st = forget_role (RoleName r) (forget_role (FormatUint (RoleID r)) st)
               in case rSave A (acTable st) r of
                    (db, Some e) \<Rightarrow> (st\<lparr>acTable := db\<rparr>, Some e)
                  | (db, None) \<Rightarrow> made_default A (st\<lparr>acTable := db\<rparr>) r)"

definition DeleteRole :: "'b account_db \<Rightarrow> 'b accounts \<Rightarrow> 64 word \<Rightarrow> 'b accounts \<times> err option" where
  "DeleteRole A st i =
     (case rGet A (acTable st) i of
        Inl e \<Rightarrow> (st, Some e)
      | Inr old \<Rightarrow>
          if RoleName old = ''admin'' \<or> RoleName old = ''guest'' then (st, Some ErrChangeDefaultRole)
          else let st = forget_role (RoleName old) (forget_role (FormatUint (unat i)) st); (db, e) = rDelete A (acTable st) i
               in (st\<lparr>acTable := db\<rparr>, e))"

section \<open>Users\<close>

definition GetUserByRole :: "'b account_db \<Rightarrow> 'b \<Rightarrow> int \<Rightarrow> err + User" where
  "GetUserByRole A db role =
     (case uAll A db of
        Inl e \<Rightarrow> Inl e
      | Inr users \<Rightarrow> (case List.find (\<lambda>u. Roles_Contains (Roles u) role) users of Some u \<Rightarrow> Inr u | None \<Rightarrow> Inl RecordNotFound))"

definition GetAdmin :: "account_env \<Rightarrow> 'b account_db \<Rightarrow> 'b accounts \<Rightarrow> 'b accounts \<times> (err + User)" where
  "GetAdmin E A st =
     (case adminUser st of
        None \<Rightarrow>
          (case GetRoleByName A st ''admin'' of
             (st, Inl e) \<Rightarrow> (st, Inl e)
           | (st, Inr role) \<Rightarrow>
               (case GetUserByRole A (acTable st) (int (RoleID role)) of
                  Inl e \<Rightarrow> (st, Inl e)
                | Inr user \<Rightarrow>
                    (case enforceAdminUserDefaults E A st user of
                       (st, user, Some e) \<Rightarrow> (st, Inl e)
                     | (st, user, None) \<Rightarrow> (st\<lparr>adminUser := Some user\<rparr>, Inr user))))
      | Some admin \<Rightarrow>
          (case enforceAdminUserDefaults E A st admin of
             (st, admin, Some e) \<Rightarrow> (st\<lparr>adminUser := Some admin\<rparr>, Inl e)
           | (st, admin, None) \<Rightarrow> (st\<lparr>adminUser := Some admin\<rparr>, Inr admin)))"

definition GetGuest :: "'b account_db \<Rightarrow> 'b accounts \<Rightarrow> 'b accounts \<times> (err + User)" where
  "GetGuest A st =
     (case guestUser st of
        Some u \<Rightarrow> (st, Inr u)
      | None \<Rightarrow>
          (case GetRoleByName A st ''guest'' of
             (st, Inl e) \<Rightarrow> (st, Inl e)
           | (st, Inr role) \<Rightarrow>
               (case GetUserByRole A (acTable st) (int (RoleID role)) of
                  Inl e \<Rightarrow> (st, Inl e)
                | Inr user \<Rightarrow> (st\<lparr>guestUser := Some user\<rparr>, Inr user))))"

text \<open>The object that a cached entry points to has changed.\<close>

definition rewrite_cached :: "string \<Rightarrow> User \<Rightarrow> 'b accounts \<Rightarrow> 'b accounts" where
  "rewrite_cached name u st = (case userCache st name of None \<Rightarrow> st | Some _ \<Rightarrow> st\<lparr>userCache := (userCache st)(name \<mapsto> u)\<rparr>)"

definition GetUserByName :: "account_env \<Rightarrow> 'b account_db \<Rightarrow> 'b accounts \<Rightarrow> string \<Rightarrow> 'b accounts \<times> (err + User)" where
  "GetUserByName E A st username =
     (if username = [] then (st, Inl EmptyUsername)
      else case userCache st username of
             Some user \<Rightarrow>
               (case enforceAdminUserDefaults E A st user of
                  (st, user, Some e) \<Rightarrow> (rewrite_cached username user st, Inl e)
                | (st, user, None) \<Rightarrow> (rewrite_cached username user st, Inr user))
           | None \<Rightarrow>
               (case uByName A (acTable st) username of
                  Inl e \<Rightarrow> (st, Inl e)
                | Inr user \<Rightarrow>
                    (case enforceAdminUserDefaults E A st user of
                       (st, user, Some e) \<Rightarrow> (st, Inl e)
                     | (st, user, None) \<Rightarrow> (st\<lparr>userCache := (userCache st)(username \<mapsto> user)\<rparr>, Inr user))))"

definition first_scope_path :: "Role list \<Rightarrow> string option" where
  "first_scope_path roles =
     (case List.find (\<lambda>r. PermissionScopes r \<noteq> []) roles of
        None \<Rightarrow> None | Some r \<Rightarrow> Some (FixAndCleanPath (Path (hd (PermissionScopes r)))))"

definition CreateUser :: "'b account_db \<Rightarrow> 'b accounts \<Rightarrow> User \<Rightarrow> 'b accounts \<times> err option" where
  "CreateUser A st u0 =
     (let u = u0\<lparr>BasePath := FixAndCleanPath (BasePath u0)\<rparr>
      in case uCreate A (acTable st) u of
           (db, Inl e) \<Rightarrow> (st\<lparr>acTable := db\<rparr>, Some e)
         | (db, Inr i) \<Rightarrow>
             let u = u\<lparr>UserID := i\<rparr>; st = st\<lparr>acTable := db\<rparr>
             in case GetRolesByUserID A st i of
                  (st, Inl e) \<Rightarrow> (st, None)
                | (st, Inr roles) \<Rightarrow>
                    let u = (case first_scope_path roles of None \<Rightarrow> u | Some p \<Rightarrow> u\<lparr>BasePath := p\<rparr>);
                        (db, _) = uSave A (acTable st) u
                    in (forget_user (Username u) (st\<lparr>acTable := db\<rparr>), None))"

definition DeleteUserById :: "'b account_db \<Rightarrow> 'b accounts \<Rightarrow> nat \<Rightarrow> 'b accounts \<times> err option" where
  "DeleteUserById A st i =
     (case uById A (acTable st) i of
        Inl e \<Rightarrow> (st, Some e)
      | Inr old \<Rightarrow>
          if IsAdmin old \<or> IsGuest old then (st, Some DeleteAdminOrGuest)
          else let st = forget_user (Username old) st; (db, e) = uDelete A (acTable st) i in (st\<lparr>acTable := db\<rparr>, e))"

definition UpdateUser :: "account_env \<Rightarrow> 'b account_db \<Rightarrow> 'b accounts \<Rightarrow> User \<Rightarrow> 'b accounts \<times> err option" where
  "UpdateUser E A st u0 =
     (case uById A (acTable st) (UserID u0) of
        Inl e \<Rightarrow> (st, Some e)
      | Inr old \<Rightarrow>
          let st = (if IsAdmin u0 then st\<lparr>adminUser := None\<rparr> else st);
              st = (if IsGuest u0 then st\<lparr>guestUser := None\<rparr> else st);
              st = forget_user (Username old) st;
              u = u0\<lparr>BasePath := FixAndCleanPath (BasePath u0)\<rparr>;
              u = (if IsAdmin u then fst (applyAdminDefaults E u) else u);
              (db, e) = uSave A (acTable st) u
          in (st\<lparr>acTable := db\<rparr>, e))"

definition Cancel2FAByUser :: "account_env \<Rightarrow> 'b account_db \<Rightarrow> 'b accounts \<Rightarrow> User \<Rightarrow> 'b accounts \<times> err option" where
  "Cancel2FAByUser E A st u = UpdateUser E A st (u\<lparr>OtpSecret := []\<rparr>)"

definition Cancel2FAById :: "account_env \<Rightarrow> 'b account_db \<Rightarrow> 'b accounts \<Rightarrow> nat \<Rightarrow> 'b accounts \<times> err option" where
  "Cancel2FAById E A st i = (case uById A (acTable st) i of Inl e \<Rightarrow> (st, Some e) | Inr user \<Rightarrow> Cancel2FAByUser E A st user)"

definition DelUserCache :: "account_env \<Rightarrow> 'b account_db \<Rightarrow> 'b accounts \<Rightarrow> string \<Rightarrow> 'b accounts \<times> err option" where
  "DelUserCache E A st username =
     (case GetUserByName E A st username of
        (st, Inl e) \<Rightarrow> (st, Some e)
      | (st, Inr user) \<Rightarrow>
          let st = (if IsAdmin user then st\<lparr>adminUser := None\<rparr> else st);
              st = (if IsGuest user then st\<lparr>guestUser := None\<rparr> else st)
          in (forget_user username st, None))"

definition CountEnabledAdminsExcluding :: "'b account_db \<Rightarrow> 'b accounts \<Rightarrow> nat \<Rightarrow> 'b accounts \<times> (err + int)" where
  "CountEnabledAdminsExcluding A st i =
     (case GetRoleByName A st ''admin'' of
        (st, Inl e) \<Rightarrow> (st, Inl e)
      | (st, Inr role) \<Rightarrow> (st, uCountEnabled A (acTable st) (RoleID role) i))"

section \<open>What is assumed of the tables\<close>

text \<open>
  \<open>rows db\<close> are the users by number.  A failing statement changes nothing; the fields that the struct tags exclude
  are not stored.  Statements on roles and settings leave the users alone.
\<close>

definition stored :: "User \<Rightarrow> User" where
  "stored u = u\<lparr>RolesDetail := []\<rparr>"

definition account_db_ok :: "'b account_db \<Rightarrow> ('b \<Rightarrow> nat \<Rightarrow> User option) \<Rightarrow> bool" where
  "account_db_ok A rows \<longleftrightarrow>
     (\<forall>db i u. rows db i = Some u \<longrightarrow> UserID u = i)
   \<and> (\<forall>db us u. uAll A db = Inr us \<and> u \<in> set us \<longrightarrow> rows db (UserID u) = Some u)
   \<and> (\<forall>db n u. uByName A db n = Inr u \<and> n \<noteq> [] \<longrightarrow> rows db (UserID u) = Some u \<and> Username u = n)
   \<and> (\<forall>db i u. uById A db i = Inr u \<longrightarrow> rows db i = Some u)
   \<and> (\<forall>db u db' e. uCreate A db u = (db', Inl e) \<longrightarrow> rows db' = rows db)
   \<and> (\<forall>db u db' i. uCreate A db u = (db', Inr i) \<longrightarrow> rows db i = None \<and> rows db' = (rows db)(i \<mapsto> stored (u\<lparr>UserID := i\<rparr>)))
   \<and> (\<forall>db u db' e. uSave A db u = (db', e) \<longrightarrow> rows db' = (if e = None then (rows db)(UserID u \<mapsto> stored u) else rows db))
   \<and> (\<forall>db i db' e. uDelete A db i = (db', e) \<longrightarrow> rows db' = (if e = None then (rows db)(i := None) else rows db))
   \<and> (\<forall>db r. rows (fst (rCreate A db r)) = rows db)
   \<and> (\<forall>db r. rows (fst (rSave A db r)) = rows db)
   \<and> (\<forall>db i. rows (fst (rDelete A db i)) = rows db)
   \<and> (\<forall>db v. rows (fst (setDefaultRole A db v)) = rows db)"

lemma account_db_laws:
  assumes "account_db_ok A rows"
  shows "rows db i = Some u \<Longrightarrow> UserID u = i"
    and "\<lbrakk>uAll A db = Inr us; u \<in> set us\<rbrakk> \<Longrightarrow> rows db (UserID u) = Some u"
    and "\<lbrakk>uByName A db n = Inr u; n \<noteq> []\<rbrakk> \<Longrightarrow> rows db (UserID u) = Some u \<and> Username u = n"
    and "uById A db i = Inr u \<Longrightarrow> rows db i = Some u"
    and "rows (fst (rSave A db r)) = rows db"
    and "uCreate A db v = (db', Inl e) \<Longrightarrow> rows db' = rows db"
    and "uCreate A db v = (db', Inr i) \<Longrightarrow> rows db i = None \<and> rows db' = (rows db)(i \<mapsto> stored (v\<lparr>UserID := i\<rparr>))"
    and "uSave A db v = (db', x) \<Longrightarrow> rows db' = (if x = None then (rows db)(UserID v \<mapsto> stored v) else rows db)"
    and "uDelete A db i = (db', x) \<Longrightarrow> rows db' = (if x = None then (rows db)(i := None) else rows db)"
  using assms by (simp_all only: account_db_ok_def)

section \<open>The age of a password in every copy of a user\<close>

text \<open>
  The object of a user is in the table, in the cache and in the two pointers.  \<open>all_fresh\<close>: no copy of the user
  \<open>uid\<close> has a password set before the time \<open>T\<close>.
\<close>

definition fresh :: "nat \<Rightarrow> int \<Rightarrow> User \<Rightarrow> bool" where
  "fresh uid T u \<longleftrightarrow> (UserID u = uid \<longrightarrow> T \<le> PwdTS u)"

definition all_fresh :: "('b \<Rightarrow> nat \<Rightarrow> User option) \<Rightarrow> nat \<Rightarrow> int \<Rightarrow> 'b accounts \<Rightarrow> bool" where
  "all_fresh rows uid T st \<longleftrightarrow>
     (\<forall>i u. rows (acTable st) i = Some u \<longrightarrow> fresh uid T u) \<and> (\<forall>n u. userCache st n = Some u \<longrightarrow> fresh uid T u)
     \<and> (\<forall>u. adminUser st = Some u \<longrightarrow> fresh uid T u) \<and> (\<forall>u. guestUser st = Some u \<longrightarrow> fresh uid T u)"

lemma fresh_fields [simp]:
  "fresh uid T (u\<lparr>BasePath := p\<rparr>) = fresh uid T u" "fresh uid T (u\<lparr>UserPermission := m\<rparr>) = fresh uid T u"
  "fresh uid T (u\<lparr>RolesDetail := rs\<rparr>) = fresh uid T u" "fresh uid T (u\<lparr>Username := n\<rparr>) = fresh uid T u"
  "fresh uid T (u\<lparr>OtpSecret := s\<rparr>) = fresh uid T u" "fresh uid T (u\<lparr>Disabled := b\<rparr>) = fresh uid T u"
  "fresh uid T (stored u) = fresh uid T u"
  by (simp_all add: fresh_def stored_def)

lemma fresh_SetPassword [simp]: "T \<le> now \<Longrightarrow> fresh uid T (SetPassword f s now u pwd)"
  by (simp add: fresh_def SetPassword_def)

lemma fresh_applyAdminDefaults: "\<lbrakk>fresh uid T u; T \<le> nowUnix E\<rbrakk> \<Longrightarrow> fresh uid T (fst (applyAdminDefaults E u))"
  by (simp add: applyAdminDefaults_def fixed_credentials_def root_only_def Let_def)

lemma all_fresh_updates [simp]:
  "all_fresh rows uid T (st\<lparr>roleCache := c\<rparr>) = all_fresh rows uid T st"
  "all_fresh rows uid T st \<Longrightarrow> all_fresh rows uid T (st\<lparr>adminUser := None\<rparr>)"
  "all_fresh rows uid T st \<Longrightarrow> all_fresh rows uid T (st\<lparr>guestUser := None\<rparr>)"
  "all_fresh rows uid T st \<Longrightarrow> all_fresh rows uid T (forget_user n st)"
  "\<lbrakk>all_fresh rows uid T st; fresh uid T u\<rbrakk> \<Longrightarrow> all_fresh rows uid T (st\<lparr>adminUser := Some u\<rparr>)"
  "\<lbrakk>all_fresh rows uid T st; fresh uid T u\<rbrakk> \<Longrightarrow> all_fresh rows uid T (st\<lparr>guestUser := Some u\<rparr>)"
  "\<lbrakk>all_fresh rows uid T st; fresh uid T u\<rbrakk> \<Longrightarrow> all_fresh rows uid T (st\<lparr>userCache := (userCache st)(n \<mapsto> u)\<rparr>)"
  "\<lbrakk>all_fresh rows uid T st; fresh uid T u\<rbrakk> \<Longrightarrow> all_fresh rows uid T (rewrite_cached n u st)"
  by (auto simp: all_fresh_def forget_user_def rewrite_cached_def split: option.split)

lemma all_fresh_table: "\<lbrakk>all_fresh rows uid T st; rows db = rows (acTable st)\<rbrakk> \<Longrightarrow> all_fresh rows uid T (st\<lparr>acTable := db\<rparr>)"
  by (simp add: all_fresh_def)

lemma all_fresh_save:
  assumes "account_db_ok A rows" "all_fresh rows uid T st" "fresh uid T u" "uSave A (acTable st) u = (db, e)"
  shows "all_fresh rows uid T (st\<lparr>acTable := db\<rparr>)"
  using account_db_laws(8) [OF assms(1,4)] assms(2,3) by (auto simp: all_fresh_def split: if_splits)

lemma enforceAdminUserDefaults_fresh:
  assumes "account_db_ok A rows" "all_fresh rows uid T st" "fresh uid T u" "T \<le> nowUnix E"
    "enforceAdminUserDefaults E A st u = (st', u', e)"
  shows "all_fresh rows uid T st' \<and> fresh uid T u'"
proof -
  obtain u1 ch where a: "applyAdminDefaults E u = (u1, ch)" by fastforce
  have f: "fresh uid T u1" using fresh_applyAdminDefaults [OF assms(3,4)] a by simp
  show ?thesis
    using assms(5) assms(2,3) f all_fresh_save [OF assms(1) _ f]
    by (auto simp: enforceAdminUserDefaults_def a Let_def split: if_splits prod.splits)
qed

lemma enforceAdminRoleDefaults_fresh:
  assumes "account_db_ok A rows" "all_fresh rows uid T st" "enforceAdminRoleDefaults A st r = (st', r', e)"
  shows "all_fresh rows uid T st'"
proof -
  have "st' = st \<or> (\<exists>r. st' = st\<lparr>acTable := fst (rSave A (acTable st) r)\<rparr>)"
    using assms(3) by (auto simp: enforceAdminRoleDefaults_def Let_def case_prod_unfold split: if_splits list.splits)
  then show ?thesis using assms(2) all_fresh_table [OF assms(2) account_db_laws(5) [OF assms(1)]] by blast
qed

lemma load_role_fresh:
  assumes "account_db_ok A rows" "all_fresh rows uid T st" "load_role A st got key other = (st', v)"
  shows "all_fresh rows uid T st'"
  using assms(3) enforceAdminRoleDefaults_fresh [OF assms(1,2)] assms(2)
  by (auto simp: load_role_def split: sum.splits prod.splits option.splits)

lemma GetRole_fresh:
  assumes "account_db_ok A rows" "all_fresh rows uid T st"
  shows "GetRole A st i = (st', v) \<Longrightarrow> all_fresh rows uid T st'"
    and "GetRoleByName A st n = (st', v) \<Longrightarrow> all_fresh rows uid T st'"
  using load_role_fresh [OF assms] assms(2) by (auto simp: GetRole_def GetRoleByName_def Let_def split: option.splits)

lemma roles_of_fresh:
  assumes "account_db_ok A rows"
  shows "\<lbrakk>all_fresh rows uid T st; roles_of A st is = (st', v)\<rbrakk> \<Longrightarrow> all_fresh rows uid T st'"
proof (induction "is" arbitrary: st st' v)
  case (Cons i "is")
  show ?case
    using Cons.prems(2) Cons.prems(1) Cons.IH load_role_fresh [OF assms Cons.prems(1)]
    by (auto split: prod.splits sum.splits option.splits) (metis Cons.IH)+
qed simp

lemma GetRolesByUserID_fresh:
  assumes "account_db_ok A rows" "all_fresh rows uid T st" "GetRolesByUserID A st i = (st', v)"
  shows "all_fresh rows uid T st'"
  using assms(2,3) roles_of_fresh [OF assms(1,2)] by (auto simp: GetRolesByUserID_def split: sum.splits)

lemma row_fresh: "\<lbrakk>all_fresh rows uid T st; rows (acTable st) i = Some u\<rbrakk> \<Longrightarrow> fresh uid T u"
  by (auto simp: all_fresh_def)

lemma GetUserByRole_fresh:
  assumes "account_db_ok A rows" "all_fresh rows uid T st" "GetUserByRole A (acTable st) role = Inr u"
  shows "fresh uid T u"
proof -
  from assms(3) obtain us where us: "uAll A (acTable st) = Inr us" "List.find (\<lambda>u. Roles_Contains (Roles u) role) us = Some u"
    by (auto simp: GetUserByRole_def split: sum.splits option.splits)
  then have "u \<in> set us" by (auto simp: find_Some_iff)
  then show ?thesis by (rule row_fresh [OF assms(2) account_db_laws(2) [OF assms(1) us(1)]])
qed

lemma GetAdmin_fresh:
  assumes "account_db_ok A rows" "all_fresh rows uid T st" "T \<le> nowUnix E" "GetAdmin E A st = (st', v)"
  shows "all_fresh rows uid T st' \<and> (\<forall>u. v = Inr u \<longrightarrow> fresh uid T u)"
proof (cases "adminUser st")
  case None
  obtain st1 r where g: "GetRoleByName A st ''admin'' = (st1, r)" by fastforce
  note f1 = GetRole_fresh(2) [OF assms(1,2) g]
  show ?thesis
    using assms(4) f1 enforceAdminUserDefaults_fresh [OF assms(1) f1 GetUserByRole_fresh [OF assms(1) f1] assms(3)]
    by (auto simp: GetAdmin_def None g split: sum.splits prod.splits option.splits)
next
  case (Some a)
  with assms(2) have "fresh uid T a" by (simp add: all_fresh_def)
  from enforceAdminUserDefaults_fresh [OF assms(1,2) this assms(3)] assms(4) show ?thesis
    by (auto simp: GetAdmin_def Some split: prod.splits option.splits)
qed

lemma GetGuest_fresh:
  assumes "account_db_ok A rows" "all_fresh rows uid T st" "GetGuest A st = (st', v)"
  shows "all_fresh rows uid T st' \<and> (\<forall>u. v = Inr u \<longrightarrow> fresh uid T u)"
proof (cases "guestUser st")
  case None
  obtain st1 r where g: "GetRoleByName A st ''guest'' = (st1, r)" by fastforce
  note f1 = GetRole_fresh(2) [OF assms(1,2) g]
  show ?thesis
    using assms(3) f1 GetUserByRole_fresh [OF assms(1) f1] by (auto simp: GetGuest_def None g split: sum.splits)
qed (use assms(2,3) in \<open>auto simp: GetGuest_def all_fresh_def\<close>)

lemma GetUserByName_fresh:
  assumes "account_db_ok A rows" "all_fresh rows uid T st" "T \<le> nowUnix E" "GetUserByName E A st n = (st', v)"
  shows "all_fresh rows uid T st' \<and> (\<forall>u. v = Inr u \<longrightarrow> fresh uid T u)"
proof (cases "userCache st n")
  case None
  have "fresh uid T u" if "uByName A (acTable st) n = Inr u" "n \<noteq> []" for u
    using account_db_laws(3) [OF assms(1) that] row_fresh [OF assms(2)] by blast
  with enforceAdminUserDefaults_fresh [OF assms(1,2) _ assms(3)] assms(2,4) None show ?thesis
    by (auto simp: GetUserByName_def split: if_splits sum.splits prod.splits option.splits)
next
  case (Some u)
  with assms(2) have "fresh uid T u" by (auto simp: all_fresh_def)
  from enforceAdminUserDefaults_fresh [OF assms(1,2) this assms(3)] assms(2,4) Some show ?thesis
    by (auto simp: GetUserByName_def split: if_splits prod.splits option.splits)
qed

lemma UpdateUser_fresh:
  assumes "account_db_ok A rows" "all_fresh rows uid T st" "fresh uid T u" "T \<le> nowUnix E" "UpdateUser E A st u = (st', e)"
  shows "all_fresh rows uid T st'"
proof (cases "uById A (acTable st) (UserID u)")
  case (Inl x)
  with assms(2,5) show ?thesis by (simp add: UpdateUser_def)
next
  case (Inr old)
  let ?u = "u\<lparr>BasePath := FixAndCleanPath (BasePath u)\<rparr>"
  let ?v = "if IsAdmin ?u then fst (applyAdminDefaults E ?u) else ?u"
  define s where "s = forget_user (Username old) (let st = (if IsAdmin u then st\<lparr>adminUser := None\<rparr> else st) in if IsGuest u then st\<lparr>guestUser := None\<rparr> else st)"
  have s: "all_fresh rows uid T s" using assms(2) by (simp add: s_def Let_def)
  have v: "fresh uid T ?v" using fresh_applyAdminDefaults [of uid T ?u E] assms(3,4) by simp
  have "st' = s\<lparr>acTable := fst (uSave A (acTable s) ?v)\<rparr>"
    using assms(5) Inr by (auto simp: UpdateUser_def Let_def s_def split: prod.splits)
  with all_fresh_save [OF assms(1) s v] show ?thesis by (metis surjective_pairing)
qed

lemma Cancel2FAById_fresh:
  assumes "account_db_ok A rows" "all_fresh rows uid T st" "T \<le> nowUnix E" "Cancel2FAById E A st i = (st', e)"
  shows "all_fresh rows uid T st'"
proof (cases "uById A (acTable st) i")
  case (Inr u)
  with account_db_laws(4) [OF assms(1) Inr] row_fresh [OF assms(2)] have "fresh uid T (u\<lparr>OtpSecret := []\<rparr>)" by simp
  from UpdateUser_fresh [OF assms(1,2) this assms(3)] assms(4) Inr show ?thesis by (simp add: Cancel2FAById_def Cancel2FAByUser_def)
qed (use assms in \<open>simp add: Cancel2FAById_def\<close>)

lemma DeleteUserById_fresh:
  assumes "account_db_ok A rows" "all_fresh rows uid T st" "DeleteUserById A st i = (st', e)"
  shows "all_fresh rows uid T st'"
proof -
  have "all_fresh rows uid T ((forget_user n st)\<lparr>acTable := db\<rparr>)" if "uDelete A (acTable st) i = (db, x)" for n db x
    using account_db_laws(9) [OF assms(1) that] assms(2) by (auto simp: all_fresh_def forget_user_def split: if_splits)
  moreover have "acTable (forget_user n st) = acTable st" for n by (simp add: forget_user_def)
  ultimately show ?thesis
    using assms(2,3) by (auto simp: DeleteUserById_def Let_def split: sum.splits if_splits prod.splits)
qed

lemma DelUserCache_fresh:
  assumes "account_db_ok A rows" "all_fresh rows uid T st" "T \<le> nowUnix E" "DelUserCache E A st n = (st', e)"
  shows "all_fresh rows uid T st'"
  using GetUserByName_fresh [OF assms(1-3)] assms(4) by (auto simp: DelUserCache_def Let_def split: prod.splits sum.splits)

lemma CreateUser_fresh:
  assumes "account_db_ok A rows" "all_fresh rows uid T st" "T \<le> PwdTS u" "CreateUser A st u = (st', e)"
  shows "all_fresh rows uid T st'"
proof -
  let ?u = "u\<lparr>BasePath := FixAndCleanPath (BasePath u)\<rparr>"
  obtain db v where c: "uCreate A (acTable st) ?u = (db, v)" by fastforce
  show ?thesis
  proof (cases v)
    case (Inl x)
    with account_db_laws(6) [OF assms(1), of "acTable st" ?u db x] c assms(2,4) all_fresh_table [OF assms(2), of db] show ?thesis
      by (simp add: CreateUser_def)
  next
    case (Inr i)
    have f: "fresh uid T (?u\<lparr>UserID := i\<rparr>)" using assms(3) by (simp add: fresh_def)
    have t: "all_fresh rows uid T (st\<lparr>acTable := db\<rparr>)"
      using account_db_laws(7) [OF assms(1) c [unfolded Inr]] f assms(2) by (auto simp: all_fresh_def)
    obtain s1 w where g: "GetRolesByUserID A (st\<lparr>acTable := db\<rparr>) i = (s1, w)" by fastforce
    note s1 = GetRolesByUserID_fresh [OF assms(1) t g]
    note sv = all_fresh_save [OF assms(1) s1]
    show ?thesis
    proof (cases w)
      case (Inl x)
      with assms(4) c Inr g s1 show ?thesis by (auto simp: CreateUser_def Let_def)
    next
      case w: (Inr roles)
      define u1 where "u1 = (case first_scope_path roles of None \<Rightarrow> ?u\<lparr>UserID := i\<rparr> | Some p \<Rightarrow> ?u\<lparr>UserID := i\<rparr>\<lparr>BasePath := p\<rparr>)"
      have "fresh uid T u1" using f by (cases "first_scope_path roles") (auto simp: u1_def fresh_def)
      then have "all_fresh rows uid T (s1\<lparr>acTable := fst (uSave A (acTable s1) u1)\<rparr>)"
        by (rule all_fresh_save [OF assms(1) s1 _ surjective_pairing])
      moreover have "\<exists>n. st' = forget_user n (s1\<lparr>acTable := fst (uSave A (acTable s1) u1)\<rparr>)"
        using assms(4) c Inr g w by (auto simp: CreateUser_def Let_def u1_def split: prod.splits)
      ultimately show ?thesis by auto
    qed
  qed
qed

lemma CountEnabledAdmins_fresh:
  assumes "account_db_ok A rows" "all_fresh rows uid T st" "CountEnabledAdminsExcluding A st i = (st', v)"
  shows "all_fresh rows uid T st'"
  using GetRole_fresh(2) [OF assms(1,2)] assms(3) by (auto simp: CountEnabledAdminsExcluding_def split: prod.splits sum.splits)

section \<open>Tables in memory\<close>

text \<open>For the witnesses: a list of users, in which the first with a number is its row, and a list of roles.\<close>

record account_mem =
  memUsers :: "User list"
  memRoles :: "Role list"

definition mem_row :: "account_mem \<Rightarrow> nat \<Rightarrow> User option" where
  "mem_row db i = List.find (\<lambda>u. UserID u = i) (memUsers db)"

definition mem_all :: "account_mem \<Rightarrow> User list" where
  "mem_all db = map (\<lambda>i. the (mem_row db i)) (remdups (map UserID (memUsers db)))"

definition found :: "'a option \<Rightarrow> err + 'a" where
  "found o' = (case o' of None \<Rightarrow> Inl RecordNotFound | Some x \<Rightarrow> Inr x)"

definition name_taken :: "account_mem \<Rightarrow> User \<Rightarrow> bool" where
  "name_taken db u \<longleftrightarrow> list_ex (\<lambda>v. Username v = Username u \<and> UserID v \<noteq> UserID u) (mem_all db)"

definition put_user :: "User \<Rightarrow> account_mem \<Rightarrow> account_mem" where
  "put_user u db = db\<lparr>memUsers := stored u # memUsers db\<rparr>"

definition next_id :: "account_mem \<Rightarrow> User \<Rightarrow> nat" where
  "next_id db u = (if UserID u = 0 then fold max (map UserID (memUsers db)) 0 + 1 else UserID u)"

definition mem_role :: "account_mem \<Rightarrow> nat \<Rightarrow> Role option" where
  "mem_role db i = List.find (\<lambda>r. RoleID r = i) (memRoles db)"

definition mem_all_roles :: "account_mem \<Rightarrow> Role list" where
  "mem_all_roles db = map (\<lambda>i. the (mem_role db i)) (remdups (map RoleID (memRoles db)))"

definition put_role :: "Role \<Rightarrow> Role list \<Rightarrow> Role list" where
  "put_role r rs = r # (if Default r then map (\<lambda>q. q\<lparr>Default := False\<rparr>) rs else rs)"

definition mem_accounts :: "account_mem account_db" where
  "mem_accounts = \<lparr>
     uAll = (\<lambda>db. Inr (mem_all db)),
     uByName = (\<lambda>db n. found (List.find (\<lambda>u. Username u = n) (mem_all db))),
     uById = (\<lambda>db i. found (mem_row db i)),
     uCreate = (\<lambda>db u. let v = u\<lparr>UserID := next_id db u\<rparr>
        in if mem_row db (UserID v) \<noteq> None \<or> name_taken db v then (db, Inl (ErrExt ''UNIQUE constraint'')) else (put_user v db, Inr (UserID v))),
     uSave = (\<lambda>db u. if name_taken db u then (db, Some (ErrExt ''UNIQUE constraint'')) else (put_user u db, None)),
     uDelete = (\<lambda>db i. (db\<lparr>memUsers := filter (\<lambda>u. UserID u \<noteq> i) (memUsers db)\<rparr>, None)),
     uCountEnabled = (\<lambda>db r i. Inr (int (length (filter (\<lambda>u. \<not> Disabled u \<and> UserID u \<noteq> i \<and> int r \<in> set (Roles u)) (mem_all db))))),
     rGet = (\<lambda>db i. found (List.find (\<lambda>r. RoleID r = unat i) (memRoles db))),
     rByName = (\<lambda>db n. found (List.find (\<lambda>r. RoleName r = n) (mem_all_roles db))),
     rDefault = (\<lambda>db. found (List.find Default (mem_all_roles db))),
     rCreate = (\<lambda>db r. if mem_role db (RoleID r) \<noteq> None then (db, Inl (ErrExt ''UNIQUE constraint''))
        else (db\<lparr>memRoles := put_role r (memRoles db)\<rparr>, Inr (RoleID r))),
     rSave = (\<lambda>db r. (db\<lparr>memRoles := put_role r (memRoles db)\<rparr>, None)),
     rDelete = (\<lambda>db i. (db\<lparr>memRoles := filter (\<lambda>r. RoleID r \<noteq> unat i) (memRoles db)\<rparr>, None)),
     setDefaultRole = (\<lambda>db v. (db, None))\<rparr>"

lemma mem_row_id: "mem_row db i = Some u \<Longrightarrow> UserID u = i"
  by (auto simp: mem_row_def find_Some_iff)

lemma mem_row_put: "mem_row (put_user u db) = (mem_row db)(UserID u \<mapsto> stored u)"
  by (auto simp: mem_row_def put_user_def stored_def)

lemma mem_row_delete: "mem_row (db\<lparr>memUsers := filter (\<lambda>u. UserID u \<noteq> i) (memUsers db)\<rparr>) = (mem_row db)(i := None)"
proof (rule ext)
  fix j
  have "List.find (\<lambda>u. UserID u = j) (filter (\<lambda>u. UserID u \<noteq> i) us) = (if j = i then None else List.find (\<lambda>u. UserID u = j) us)"
    for us :: "User list" by (induction us) auto
  from this [of "memUsers db"] show "mem_row (db\<lparr>memUsers := filter (\<lambda>u. UserID u \<noteq> i) (memUsers db)\<rparr>) j = ((mem_row db)(i := None)) j"
    by (auto simp: mem_row_def)
qed

lemma mem_all_rows: "u \<in> set (mem_all db) \<Longrightarrow> mem_row db (UserID u) = Some u"
proof -
  assume "u \<in> set (mem_all db)"
  then obtain v where v: "v \<in> set (memUsers db)" "u = the (mem_row db (UserID v))" by (auto simp: mem_all_def)
  then have "mem_row db (UserID v) \<noteq> None" by (auto simp: mem_row_def find_None_iff)
  then obtain w where "mem_row db (UserID v) = Some w" by blast
  with v mem_row_id [OF this] show ?thesis by simp
qed

lemma found_Inr: "found x = Inr u \<longleftrightarrow> x = Some u"
  by (simp add: found_def split: option.split)

lemma mem_accounts_ok: "account_db_ok mem_accounts mem_row"
  unfolding account_db_ok_def
proof (intro conjI allI impI)
  show "mem_row db (UserID u) = Some u" "Username u = n" if "uByName mem_accounts db n = Inr u \<and> n \<noteq> []" for db n u
    using that by (auto simp: mem_accounts_def found_Inr find_Some_iff intro!: mem_all_rows)
  show "mem_row db' = (if e = None then (mem_row db)(UserID u \<mapsto> stored u) else mem_row db)" if "uSave mem_accounts db u = (db', e)" for db u db' e
    using that by (auto simp: mem_accounts_def mem_row_put split: if_splits)
  show "mem_row db i = None" "mem_row db' = (mem_row db)(i \<mapsto> stored (u\<lparr>UserID := i\<rparr>))"
    if "uCreate mem_accounts db u = (db', Inr i)" for db u db' i
    using that by (auto simp: mem_accounts_def mem_row_put Let_def split: if_splits)
  show "mem_row db' = (if e = None then (mem_row db)(i := None) else mem_row db)" if "uDelete mem_accounts db i = (db', e)" for db i db' e
    using that mem_row_delete [of i db] by (auto simp: mem_accounts_def)
  have r: "mem_row (db\<lparr>memRoles := rs\<rparr>) = mem_row db" for db rs by (simp add: mem_row_def fun_eq_iff)
  show "mem_row (fst (rCreate mem_accounts db x)) = mem_row db" "mem_row (fst (rSave mem_accounts db x)) = mem_row db"
    "mem_row (fst (rDelete mem_accounts db i)) = mem_row db" "mem_row (fst (setDefaultRole mem_accounts db v)) = mem_row db" for db x i v
    by (simp_all add: mem_accounts_def r split: if_split)
qed (auto simp: mem_accounts_def found_Inr Let_def dest: mem_row_id mem_all_rows split: if_splits)

end
