(* ===== verification/RoleCache.thy ===== *)
theory RoleCache
  imports Accounts
begin

text \<open>
  The cache of roles (\<^verbatim>\<open>internal/op/role.go\<close>) keeps a role under its number and under its name in one map.  As long as
  no role is named by a number, what is read by number agrees with the table after every operation, so that a
  change of a role counts from the next request on.
\<close>

section \<open>What is assumed of the table\<close>

text \<open>
  \<open>rr db\<close> are the roles by number.  Saving a default role takes the mark from the others; a statement that fails
  may have done the first part.  Statements on users leave the roles alone.
\<close>

definition unmark :: "Role \<Rightarrow> Role option \<Rightarrow> Role option" where
  "unmark r q = (if Default r then map_option (\<lambda>q. q\<lparr>Default := False\<rparr>) q else q)"

definition role_db_ok :: "'b account_db \<Rightarrow> ('b \<Rightarrow> nat \<Rightarrow> Role option) \<Rightarrow> bool" where
  "role_db_ok A rr \<longleftrightarrow>
     (\<forall>db i r. rr db i = Some r \<longrightarrow> RoleID r = i)
   \<and> (\<forall>db w r. rGet A db w = Inr r \<longrightarrow> rr db (unat w) = Some r)
   \<and> (\<forall>db n r. rByName A db n = Inr r \<and> n \<noteq> [] \<longrightarrow> rr db (RoleID r) = Some r \<and> RoleName r = n)
   \<and> (\<forall>db r db'. rSave A db r = (db', None) \<longrightarrow> (\<forall>i. rr db' i = (if i = RoleID r then Some r else unmark r (rr db i))))
   \<and> (\<forall>db r db' e. rSave A db r = (db', Some e) \<longrightarrow> (\<forall>i. rr db' i = rr db i \<or> i = RoleID r \<and> rr db' i = Some r))
   \<and> (\<forall>db r db' i. rCreate A db r = (db', Inr i) \<longrightarrow>
        rr db i = None \<and> (\<forall>j. rr db' j = (if j = i then Some (r\<lparr>RoleID := i\<rparr>) else unmark r (rr db j))))
   \<and> (\<forall>db r db' e i. rCreate A db r = (db', Inl e) \<longrightarrow>
        rr db' i = rr db i \<or> rr db i = None \<and> rr db' i = Some (r\<lparr>RoleID := i\<rparr>))
   \<and> (\<forall>db w db' e. rDelete A db w = (db', e) \<longrightarrow> rr db' = (if e = None then (rr db)(unat w := None) else rr db))
   \<and> (\<forall>db v. rr (fst (setDefaultRole A db v)) = rr db)"

lemma role_db_laws:
  assumes "role_db_ok A rr"
  shows "rr db i = Some r \<Longrightarrow> RoleID r = i"
    and "rGet A db w = Inr r \<Longrightarrow> rr db (unat w) = Some r"
    and "\<lbrakk>rByName A db n = Inr r; n \<noteq> []\<rbrakk> \<Longrightarrow> rr db (RoleID r) = Some r \<and> RoleName r = n"
    and "rSave A db r = (db', None) \<Longrightarrow> rr db' i = (if i = RoleID r then Some r else unmark r (rr db i))"
    and "rSave A db r = (db', Some e) \<Longrightarrow> rr db' i = rr db i \<or> i = RoleID r \<and> rr db' i = Some r"
    and "rCreate A db r = (db', Inr i) \<Longrightarrow> rr db i = None \<and> rr db' j = (if j = i then Some (r\<lparr>RoleID := i\<rparr>) else unmark r (rr db j))"
    and "rCreate A db r = (db', Inl e) \<Longrightarrow> rr db' i = rr db i \<or> rr db i = None \<and> rr db' i = Some (r\<lparr>RoleID := i\<rparr>)"
    and "rDelete A db w = (db', x) \<Longrightarrow> rr db' = (if x = None then (rr db)(unat w := None) else rr db)"
    and "rr (fst (setDefaultRole A db v)) = rr db"
  using assms by (simp_all only: role_db_ok_def)

section \<open>Agreement\<close>

text \<open>The rights that the row of a role gives: those of the administrator are fixed.\<close>

definition rights :: "Role \<Rightarrow> nat \<times> string \<times> PermissionEntry list" where
  "rights r = (RoleID r, RoleName r, if RoleName r = ''admin'' then [\<lparr>Path = ''/'', Permission = 0xFFFF\<rparr>] else PermissionScopes r)"

text \<open>A role as the program hands it out.\<close>

definition plain :: "Role \<Rightarrow> bool" where
  "plain r \<longleftrightarrow> rights r = (RoleID r, RoleName r, PermissionScopes r)"

definition row_rights :: "('b \<Rightarrow> nat \<Rightarrow> Role option) \<Rightarrow> 'b \<Rightarrow> nat \<Rightarrow> (nat \<times> string \<times> PermissionEntry list) option" where
  "row_rights rr db i = map_option rights (rr db i)"

definition word_name :: "string \<Rightarrow> bool" where
  "word_name n \<longleftrightarrow> \<not> list_all is_digit n"

definition role_cache_ok :: "('b \<Rightarrow> nat \<Rightarrow> Role option) \<Rightarrow> 'b accounts \<Rightarrow> bool" where
  "role_cache_ok rr st \<longleftrightarrow>
     (\<forall>i r. roleCache st (FormatUint i) = Some r \<longrightarrow> plain r \<and> row_rights rr (acTable st) i = Some (rights r))
     \<and> (\<forall>i r. rr (acTable st) i = Some r \<longrightarrow> word_name (RoleName r))"

lemma word_name_key: "word_name n \<Longrightarrow> n \<noteq> FormatUint i"
  using FormatUint_digits [of i] by (auto simp: word_name_def)

lemma rights_unmark [simp]: "map_option rights (unmark r q) = map_option rights q"
  by (cases q) (auto simp: unmark_def rights_def)

lemma unmark_None [simp]: "unmark r q = None \<longleftrightarrow> q = None"
  by (simp add: unmark_def)

lemma unmark_name: "unmark r q = Some p \<Longrightarrow> \<exists>p'. q = Some p' \<and> RoleName p = RoleName p'"
  by (auto simp: unmark_def split: if_splits)

section \<open>Reading\<close>

definition same_rights :: "('b \<Rightarrow> nat \<Rightarrow> Role option) \<Rightarrow> 'b \<Rightarrow> 'b \<Rightarrow> bool" where
  "same_rights rr db db' \<longleftrightarrow> row_rights rr db' = row_rights rr db"

lemma same_rights_refl [simp]: "same_rights rr db db"
  by (simp add: same_rights_def)

lemma row_rights_name: "\<lbrakk>row_rights rr db i = row_rights rr db' i; rr db i = Some r\<rbrakk> \<Longrightarrow> \<exists>r0. rr db' i = Some r0 \<and> RoleName r0 = RoleName r"
  by (cases "rr db' i") (auto simp: row_rights_def rights_def)

lemma role_cache_ok_table:
  assumes "role_cache_ok rr st" "same_rights rr (acTable st) db"
  shows "role_cache_ok rr (st\<lparr>acTable := db\<rparr>)"
proof -
  have "word_name (RoleName r)" if "rr db i = Some r" for i r
    using row_rights_name [of rr db i "acTable st" r] that assms unfolding role_cache_ok_def same_rights_def by metis
  with assms show ?thesis by (simp add: role_cache_ok_def same_rights_def)
qed

lemma save_same_rights:
  assumes ok: "role_db_ok A rr" and row: "rr db i = Some r" and eq: "rights q = rights r" and sv: "rSave A db q = (db', x)"
  shows "same_rights rr db db'"
proof -
  have i: "RoleID q = i" using role_db_laws(1) [OF ok row] eq by (simp add: rights_def)
  have "row_rights rr db' j = row_rights rr db j" for j
  proof (cases x)
    case None
    from role_db_laws(4) [OF ok sv [unfolded None], of j] row eq i show ?thesis by (simp add: row_rights_def)
  next
    case (Some e)
    from role_db_laws(5) [OF ok sv [unfolded Some], of j] row eq i show ?thesis by (auto simp: row_rights_def)
  qed
  then show ?thesis by (auto simp: same_rights_def)
qed

lemma enforceAdminRoleDefaults_ok:
  assumes ok: "role_db_ok A rr" and c: "role_cache_ok rr st" and row: "rr (acTable st) i = Some r"
    and e: "enforceAdminRoleDefaults A st r = (st', r', e)"
  shows "role_cache_ok rr st' \<and> same_rights rr (acTable st) (acTable st') \<and> rights r' = rights r \<and> plain r'"
proof (cases "RoleName r = ''admin''")
  case False
  with e c show ?thesis by (simp add: enforceAdminRoleDefaults_def rights_def plain_def)
next
  case True
  define fixed where "fixed = r\<lparr>PermissionScopes := [\<lparr>Path = ''/'', Permission = 0xFFFF\<rparr>]\<rparr>"
  obtain db x where sv: "rSave A (acTable st) fixed = (db, x)" by fastforce
  have fx: "rights fixed = rights r" "plain fixed" using True by (simp_all add: fixed_def rights_def plain_def)
  note same = save_same_rights [OF ok row fx(1) sv]
  from e True sv have "st' = st\<lparr>acTable := db\<rparr> \<and> r' = fixed
      \<or> st' = st \<and> (\<exists>p. PermissionScopes r = [p] \<and> Permission p = 0xFFFF \<and> r' = r\<lparr>PermissionScopes := [p\<lparr>Path := ''/''\<rparr>]\<rparr>)"
    by (auto simp: enforceAdminRoleDefaults_def fixed_def [symmetric] Let_def split: list.splits if_splits)
  then show ?thesis
  proof (elim disjE conjE exE)
    assume "st' = st\<lparr>acTable := db\<rparr>" "r' = fixed"
    with fx role_cache_ok_table [OF c same] same show ?thesis by simp
  next
    fix p
    assume "st' = st" "PermissionScopes r = [p]" "Permission p = 0xFFFF" "r' = r\<lparr>PermissionScopes := [p\<lparr>Path := ''/''\<rparr>]\<rparr>"
    with c True show ?thesis by (cases p) (simp add: rights_def plain_def)
  qed
qed

lemma role_cache_ok_put:
  assumes "role_cache_ok rr st" "plain r" "row_rights rr (acTable st) (RoleID r) = Some (rights r)" "\<And>i. k = FormatUint i \<Longrightarrow> i = RoleID r"
  shows "role_cache_ok rr (st\<lparr>roleCache := (roleCache st)(k \<mapsto> r)\<rparr>)"
proof -
  have "plain q \<and> row_rights rr (acTable st) i = Some (rights q)" if "((roleCache st)(k \<mapsto> r)) (FormatUint i) = Some q" for i q
    using that assms by (cases "k = FormatUint i") (auto simp: role_cache_ok_def)
  with assms(1) show ?thesis by (simp add: role_cache_ok_def)
qed

text \<open>A role that was loaded by its number or by its name is the row, with the administrator's rights put right.\<close>

lemma load_role_ok:
  assumes ok: "role_db_ok A rr" and c: "role_cache_ok rr st"
    and row: "\<And>r. got = Inr r \<Longrightarrow> rr (acTable st) (RoleID r) = Some r"
    and key: "\<And>r i. \<lbrakk>got = Inr r; key = FormatUint i\<rbrakk> \<Longrightarrow> i = RoleID r"
    and other: "\<And>q i. \<lbrakk>other q = FormatUint i; word_name (RoleName q)\<rbrakk> \<Longrightarrow> i = RoleID q"
    and l: "load_role A st got key other = (st', v)"
  shows "role_cache_ok rr st' \<and> same_rights rr (acTable st) (acTable st')
    \<and> (\<forall>r. v = Inr r \<longrightarrow> plain r \<and> (\<exists>r0. got = Inr r0 \<and> rights r = rights r0))"
proof (cases got)
  case (Inl e)
  with l c show ?thesis by (auto simp: load_role_def)
next
  case (Inr r)
  obtain st1 r1 e where en: "enforceAdminRoleDefaults A st r = (st1, r1, e)" by (metis prod_cases3)
  note row = row [OF Inr]
  note f = enforceAdminRoleDefaults_ok [OF ok c row en]
  have id: "RoleID r1 = RoleID r" "RoleName r1 = RoleName r" using f by (simp_all add: rights_def)
  have m: "row_rights rr (acTable st1) (RoleID r1) = Some (rights r1)"
    using f row id by (simp add: same_rights_def) (simp add: row_rights_def)
  have w: "word_name (RoleName r1)" using c row id unfolding role_cache_ok_def by metis
  have p1: "role_cache_ok rr (st1\<lparr>roleCache := (roleCache st1)(key \<mapsto> r1)\<rparr>)"
    using f m key [OF Inr] id by (intro role_cache_ok_put) auto
  have "role_cache_ok rr (st1\<lparr>roleCache := (roleCache st1)(key \<mapsto> r1, other r1 \<mapsto> r1)\<rparr>)"
    using role_cache_ok_put [OF p1, of r1 "other r1"] f m other [OF _ w] by simp
  with l Inr en f show ?thesis by (auto simp: load_role_def split: option.splits)
qed

lemma GetRole_ok:
  assumes ok: "role_db_ok A rr" and c: "role_cache_ok rr st" and g: "GetRole A st i = (st', v)"
  shows "role_cache_ok rr st' \<and> same_rights rr (acTable st) (acTable st')
    \<and> (\<forall>r. v = Inr r \<longrightarrow> plain r \<and> row_rights rr (acTable st) (unat i) = Some (rights r))"
proof (cases "roleCache st (FormatUint (unat i))")
  case (Some r)
  with g c show ?thesis by (auto simp: GetRole_def role_cache_ok_def)
next
  case None
  have row: "rr (acTable st) (unat i) = Some r \<and> RoleID r = unat i" if "rGet A (acTable st) i = Inr r" for r
    using role_db_laws(1,2) [OF ok] that by blast
  from None g have "load_role A st (rGet A (acTable st) i) (FormatUint (unat i)) RoleName = (st', v)" by (simp add: GetRole_def)
  from load_role_ok [OF ok c _ _ _ this] row FormatUint_inj word_name_key show ?thesis by (fastforce simp: row_rights_def)
qed

lemma GetRoleByName_ok:
  assumes ok: "role_db_ok A rr" and c: "role_cache_ok rr st" and n: "n \<noteq> []" and g: "GetRoleByName A st n = (st', v)"
  shows "role_cache_ok rr st'"
proof (cases "roleCache st n")
  case (Some r)
  with g c show ?thesis by (simp add: GetRoleByName_def)
next
  case None
  have row: "rr (acTable st) (RoleID r) = Some r \<and> RoleName r = n" if "rByName A (acTable st) n = Inr r" for r
    using role_db_laws(3) [OF ok that n] .
  then have w: "word_name n" if "rByName A (acTable st) n = Inr r" for r
    using c that unfolding role_cache_ok_def by metis
  from None g have l: "load_role A st (rByName A (acTable st) n) n (\<lambda>r. FormatUint (RoleID r)) = (st', v)" by (simp add: GetRoleByName_def)
  show ?thesis
    by (rule conjunct1 [OF load_role_ok [OF ok c _ _ _ l]]) (use row w word_name_key FormatUint_inj in metis)+
qed

lemma FormatInt_key:
  assumes "int64_range i" "FormatInt i = FormatUint j"
  shows "j = unat (of_int i :: 64 word)"
proof -
  have "\<not> i < 0"
  proof
    assume "i < 0"
    with assms(2) have "FormatUint j = CHR ''-'' # FormatUint (nat (- i))" by (simp add: FormatInt_def)
    with FormatUint_digits [of j] show False by (simp add: is_digit_def)
  qed
  with assms have "j = nat i" by (simp add: FormatInt_def) (metis FormatUint_inj)
  with \<open>\<not> i < 0\<close> assms(1) show ?thesis by (simp add: int64_range_def unsigned_of_int take_bit_int_eq_self)
qed

lemma roles_of_ok:
  assumes ok: "role_db_ok A rr"
  shows "\<lbrakk>role_cache_ok rr st; \<forall>i\<in>set is. int64_range i; roles_of A st is = (st', v)\<rbrakk> \<Longrightarrow> role_cache_ok rr st'"
proof (induction "is" arbitrary: st st' v)
  case (Cons i "is")
  let ?got = "rGet A (acTable st) (of_int i)"
  obtain st1 w where s: "(case roleCache st (FormatInt i) of Some r \<Rightarrow> (st, Inr r) | None \<Rightarrow> load_role A st ?got (FormatInt i) RoleName) = (st1, w)"
    by fastforce
  have row: "rr (acTable st) (RoleID r) = Some r \<and> RoleID r = unat (of_int i :: 64 word)" if "?got = Inr r" for r
    using role_db_laws(1,2) [OF ok] that by metis
  have key: "FormatInt i = FormatUint j \<Longrightarrow> j = unat (of_int i :: 64 word)" for j using FormatInt_key Cons.prems(2) by simp
  have c1: "role_cache_ok rr st1"
  proof (cases "roleCache st (FormatInt i)")
    case None
    with s have l: "load_role A st ?got (FormatInt i) RoleName = (st1, w)" by simp
    show ?thesis
      by (rule conjunct1 [OF load_role_ok [OF ok Cons.prems(1) _ _ _ l]]) (use row key word_name_key in metis)+
  qed (use s Cons.prems(1) in auto)
  show ?case
  proof (cases w)
    case (Inl e)
    with Cons.prems(3) s c1 show ?thesis by simp
  next
    case (Inr r)
    obtain st2 u where rest: "roles_of A st1 is = (st2, u)" by fastforce
    from Cons.IH [OF c1 _ rest] Cons.prems(2,3) s Inr rest show ?thesis by (auto split: sum.splits)
  qed
qed simp

section \<open>Changing\<close>

lemma role_cache_ok_change:
  assumes "role_cache_ok rr st" "roleCache st' \<subseteq>\<^sub>m roleCache st"
    and "\<And>i. roleCache st' (FormatUint i) \<noteq> None \<Longrightarrow> row_rights rr (acTable st') i = row_rights rr (acTable st) i"
    and "\<And>i r. rr (acTable st') i = Some r \<Longrightarrow> word_name (RoleName r)"
  shows "role_cache_ok rr st'"
proof -
  have "plain r \<and> row_rights rr (acTable st') i = Some (rights r)" if r: "roleCache st' (FormatUint i) = Some r" for i r
  proof -
    from r assms(2) have "roleCache st (FormatUint i) = Some r" by (auto simp: map_le_def dom_def)
    with assms(1) assms(3) [of i] r show ?thesis by (simp add: role_cache_ok_def)
  qed
  with assms(4) show ?thesis by (simp add: role_cache_ok_def)
qed

lemma made_default_ok:
  assumes ok: "role_db_ok A rr" and c: "role_cache_ok rr st" and m: "made_default A st r = (st', e)"
  shows "role_cache_ok rr st'"
proof -
  have "st' = st \<or> roleCache st' = (\<lambda>_. None) \<and> rr (acTable st') = rr (acTable st)"
    using m role_db_laws(9) [OF ok, of "acTable st"] by (auto simp: made_default_def Let_def case_prod_unfold split: if_splits)
  with c show ?thesis by (auto simp: role_cache_ok_def)
qed

lemma row_rights_unmark: "rr db' i = unmark r (rr db i) \<Longrightarrow> row_rights rr db' i = row_rights rr db i"
  by (simp add: row_rights_def)

lemma CreateRole_ok:
  assumes ok: "role_db_ok A rr" and c: "role_cache_ok rr st" and w: "word_name (RoleName r0)" and cr: "CreateRole A st r0 = (st', e)"
  shows "role_cache_ok rr st'"
proof -
  define r where "r = clean_scopes r0"
  define s where "s = forget_role (RoleName r) (forget_role (FormatUint (RoleID r)) st)"
  have wr: "word_name (RoleName r)" using w by (simp add: r_def clean_scopes_def)
  have names: "word_name (RoleName q)" if "rr (acTable st) i = Some q" for i q using c that unfolding role_cache_ok_def by blast
  have s: "roleCache s \<subseteq>\<^sub>m roleCache st" "acTable s = acTable st" by (auto simp: s_def forget_role_def map_le_def)
  obtain db v where u: "rCreate A (acTable st) r = (db, v)" by fastforce
  have "role_cache_ok rr (s\<lparr>acTable := db\<rparr>)"
  proof (rule role_cache_ok_change [OF c])
    show "roleCache (s\<lparr>acTable := db\<rparr>) \<subseteq>\<^sub>m roleCache st" using s by simp
    have new: "row_rights rr db i = row_rights rr (acTable st) i \<or> rr (acTable st) i = None" for i
    proof (cases v)
      case (Inl x)
      from role_db_laws(7) [OF ok u [unfolded Inl], of i] show ?thesis by (auto simp: row_rights_def)
    next
      case (Inr j)
      from role_db_laws(6) [OF ok u [unfolded Inr], of i] row_rights_unmark [of rr db i r "acTable st"] show ?thesis by (auto split: if_splits)
    qed
    show "row_rights rr (acTable (s\<lparr>acTable := db\<rparr>)) i = row_rights rr (acTable st) i"
      if "roleCache (s\<lparr>acTable := db\<rparr>) (FormatUint i) \<noteq> None" for i
    proof -
      from that s(1) have "roleCache st (FormatUint i) \<noteq> None" by (auto simp: map_le_def dom_def)
      then have "rr (acTable st) i \<noteq> None" using c by (fastforce simp: role_cache_ok_def row_rights_def)
      with new [of i] show ?thesis by simp
    qed
    show "word_name (RoleName q)" if "rr (acTable (s\<lparr>acTable := db\<rparr>)) i = Some q" for i q
    proof (cases v)
      case (Inl x)
      from role_db_laws(7) [OF ok u [unfolded Inl], of i] that names wr show ?thesis by auto
    next
      case (Inr j)
      from role_db_laws(6) [OF ok u [unfolded Inr], of i] that names wr unmark_name [of r "rr (acTable st) i" q] show ?thesis
        by (auto split: if_splits)
    qed
  qed
  then show ?thesis
    using cr u s(2) made_default_ok [OF ok]
    by (auto simp: CreateRole_def Let_def r_def [symmetric] s_def [symmetric] split: sum.splits)
qed

lemma saved_role_ok:
  assumes ok: "role_db_ok A rr" and c: "role_cache_ok rr st" and w: "word_name (RoleName r)"
    and sv: "rSave A (acTable st) r = (db, x)"
  shows "role_cache_ok rr ((forget_role n (forget_role (FormatUint (RoleID r)) st))\<lparr>acTable := db\<rparr>)"
proof (rule role_cache_ok_change [OF c])
  let ?s = "(forget_role n (forget_role (FormatUint (RoleID r)) st))\<lparr>acTable := db\<rparr>"
  show "roleCache ?s \<subseteq>\<^sub>m roleCache st" by (auto simp: forget_role_def map_le_def)
  have row: "rr db i = (if i = RoleID r then Some r else unmark r (rr (acTable st) i)) \<or> rr db i = rr (acTable st) i \<or> i = RoleID r \<and> rr db i = Some r" for i
    using role_db_laws(4,5) [OF ok, of "acTable st" r db] sv by (cases x) auto
  show "row_rights rr (acTable ?s) i = row_rights rr (acTable st) i" if "roleCache ?s (FormatUint i) \<noteq> None" for i
  proof -
    from that have "i \<noteq> RoleID r" by (auto simp: forget_role_def split: if_splits)
    with row [of i] row_rights_unmark [of rr db i r "acTable st"] show ?thesis by (auto simp: row_rights_def)
  qed
  show "word_name (RoleName q)" if "rr (acTable ?s) i = Some q" for i q
  proof -
    have names: "word_name (RoleName p)" if "rr (acTable st) i = Some p" for p using c that unfolding role_cache_ok_def by blast
    from that row [of i] w names unmark_name [of r "rr (acTable st) i" q] show ?thesis by (auto split: if_splits)
  qed
qed

lemma UpdateRole_ok:
  assumes ok: "role_db_ok A rr" and c: "role_cache_ok rr st" and w: "word_name (RoleName r0)" and up: "UpdateRole A st r0 = (st', e)"
  shows "role_cache_ok rr st'"
proof (cases "rGet A (acTable st) (of_nat (RoleID r0))")
  case (Inr old)
  define r where "r = clean_scopes (if RoleName old = ''guest'' then r0\<lparr>RoleName := ''guest''\<rparr> else r0)"
  let ?s = "forget_role (RoleName r) (forget_role (FormatUint (RoleID r)) st)"
  have wr: "word_name (RoleName r)" using w by (simp add: r_def clean_scopes_def word_name_def is_digit_def)
  have t: "acTable ?s = acTable st" by (simp add: forget_role_def)
  obtain db x where sv: "rSave A (acTable st) r = (db, x)" by fastforce
  from saved_role_ok [OF ok c wr sv] have s: "role_cache_ok rr (?s\<lparr>acTable := db\<rparr>)" .
  then show ?thesis
    using up Inr sv t c made_default_ok [OF ok s]
    by (auto simp: UpdateRole_def Let_def r_def [symmetric] split: if_splits option.splits)
qed (use up c in \<open>simp add: UpdateRole_def\<close>)

lemma DeleteRole_ok:
  assumes ok: "role_db_ok A rr" and c: "role_cache_ok rr st" and d: "DeleteRole A st i = (st', e)"
  shows "role_cache_ok rr st'"
proof (cases "acTable st' = acTable st \<and> roleCache st' = roleCache st")
  case True
  with c show ?thesis by (simp add: role_cache_ok_def)
next
  case False
  with d obtain n db where s: "st' = (forget_role n (forget_role (FormatUint (unat i)) st))\<lparr>acTable := db\<rparr>" "rDelete A (acTable st) i = (db, e)"
    by (auto simp: DeleteRole_def Let_def forget_role_def split: sum.splits if_splits prod.splits)
  have names: "word_name (RoleName p)" if "rr (acTable st) j = Some p" for p j using c that unfolding role_cache_ok_def by blast
  show ?thesis
    by (rule role_cache_ok_change [OF c])
      (use role_db_laws(8) [OF ok s(2)] s(1) names in \<open>auto simp: forget_role_def map_le_def row_rights_def split: if_splits\<close>)
qed

section \<open>Histories\<close>

datatype role_op =
    ReadRole "64 word"
  | ReadName string
  | ReadRoles "int list"
  | NewRole Role
  | ChangeRole Role
  | DropRole "64 word"

fun role_run :: "'b account_db \<Rightarrow> role_op \<Rightarrow> 'b accounts \<Rightarrow> 'b accounts" where
  "role_run A (ReadRole i) st = fst (GetRole A st i)"
| "role_run A (ReadName n) st = fst (GetRoleByName A st n)"
| "role_run A (ReadRoles is) st = fst (roles_of A st is)"
| "role_run A (NewRole r) st = fst (CreateRole A st r)"
| "role_run A (ChangeRole r) st = fst (UpdateRole A st r)"
| "role_run A (DropRole i) st = fst (DeleteRole A st i)"

fun usual :: "role_op \<Rightarrow> bool" where
  "usual (ReadName n) \<longleftrightarrow> n \<noteq> []"
| "usual (ReadRoles is) \<longleftrightarrow> list_all int64_range is"
| "usual (NewRole r) \<longleftrightarrow> word_name (RoleName r)"
| "usual (ChangeRole r) \<longleftrightarrow> word_name (RoleName r)"
| "usual _ \<longleftrightarrow> True"

lemma role_run_ok:
  assumes ok: "role_db_ok A rr" and c: "role_cache_ok rr st" and u: "usual x"
  shows "role_cache_ok rr (role_run A x st)"
proof (cases x)
  case (ReadRole i)
  with GetRole_ok [OF ok c, of i] show ?thesis by (metis prod.collapse role_run.simps(1))
next
  case (ReadName n)
  with GetRoleByName_ok [OF ok c, of n] u show ?thesis by (metis prod.collapse role_run.simps(2) usual.simps(1))
next
  case (ReadRoles "is")
  with roles_of_ok [OF ok c, of "is"] u show ?thesis by (metis list_all_iff prod.collapse role_run.simps(3) usual.simps(2))
next
  case (NewRole r)
  with CreateRole_ok [OF ok c, of r] u show ?thesis by (metis prod.collapse role_run.simps(4) usual.simps(3))
next
  case (ChangeRole r)
  with UpdateRole_ok [OF ok c, of r] u show ?thesis by (metis prod.collapse role_run.simps(5) usual.simps(4))
next
  case (DropRole i)
  with DeleteRole_ok [OF ok c, of i] show ?thesis by (metis prod.collapse role_run.simps(6))
qed

text \<open>A change of a role counts at once. After any sequence of reads and changes of roles, none of them named by a number, a role
  read by its number has the rights of the row that is in the table at that moment; those of the administrator are
  all rights everywhere.\<close>

theorem GetRole_reads_current_row:
  assumes "role_db_ok A rr" "\<forall>k. roleCache st k = None" "\<forall>i r. rr (acTable st) i = Some r \<longrightarrow> word_name (RoleName r)"
    and "\<forall>x \<in> set xs. usual x" "GetRole A (fold (role_run A) xs st) i = (st', Inr r)"
  shows "\<exists>row. rr (acTable (fold (role_run A) xs st)) (unat i) = Some row \<and> RoleID r = unat i \<and> RoleName r = RoleName row
    \<and> PermissionScopes r = (if RoleName row = ''admin'' then [\<lparr>Path = ''/'', Permission = 0xFFFF\<rparr>] else PermissionScopes row)"
proof -
  have "role_cache_ok rr st" using assms(2,3) by (simp add: role_cache_ok_def)
  then have c: "role_cache_ok rr (fold (role_run A) xs st)"
    using assms(4) by (induction xs arbitrary: st) (auto intro: role_run_ok [OF assms(1)])
  from GetRole_ok [OF assms(1) c assms(5)] have p: "plain r" and "row_rights rr (acTable (fold (role_run A) xs st)) (unat i) = Some (rights r)"
    by simp_all
  then obtain row where row: "rr (acTable (fold (role_run A) xs st)) (unat i) = Some row" "rights row = rights r"
    by (auto simp: row_rights_def)
  with p role_db_laws(1) [OF assms(1) row(1)] show ?thesis by (auto simp: plain_def rights_def)
qed

section \<open>On tables in memory\<close>

lemma find_filter_map:
  "List.find (\<lambda>r. RoleID r = i) (map (\<lambda>q. q\<lparr>Default := False\<rparr>) rs) = map_option (\<lambda>q. q\<lparr>Default := False\<rparr>) (List.find (\<lambda>r. RoleID r = i) rs)"
  by (induction rs) auto

lemma find_filter_id: "List.find (\<lambda>r. RoleID r = j) (filter (\<lambda>r. RoleID r \<noteq> i) rs) = (if j = i then None else List.find (\<lambda>r. RoleID r = j) rs)"
  by (induction rs) auto

lemma find_put_role:
  "List.find (\<lambda>q. RoleID q = i) (put_role r rs) = (if i = RoleID r then Some r else unmark r (List.find (\<lambda>q. RoleID q = i) rs))"
  by (auto simp: put_role_def unmark_def find_filter_map)

lemma mem_all_roles_rows:
  assumes "r \<in> set (mem_all_roles db)"
  shows "mem_role db (RoleID r) = Some r"
proof -
  from assms obtain q where q: "q \<in> set (memRoles db)" "r = the (mem_role db (RoleID q))" by (auto simp: mem_all_roles_def)
  then have "mem_role db (RoleID q) \<noteq> None" by (auto simp: mem_role_def find_None_iff)
  then obtain p where p: "mem_role db (RoleID q) = Some p" by blast
  then have "RoleID p = RoleID q" by (auto simp: mem_role_def find_Some_iff)
  with p q show ?thesis by simp
qed

lemma mem_roles_ok: "role_db_ok mem_accounts mem_role"
  unfolding role_db_ok_def
proof (intro conjI allI impI)
  show "mem_role db (RoleID r) = Some r" "RoleName r = n" if "rByName mem_accounts db n = Inr r \<and> n \<noteq> []" for db n r
    using that by (auto simp: mem_accounts_def found_Inr find_Some_iff intro!: mem_all_roles_rows)
  show "mem_role db' = (if e = None then (mem_role db)(unat w := None) else mem_role db)" if "rDelete mem_accounts db w = (db', e)" for db w db' e
    using that find_filter_id [of _ "unat w" "memRoles db"] by (auto simp: mem_accounts_def mem_role_def)
  show "RoleID r = i" if "mem_role db i = Some r" for db i r
    using that by (auto simp: mem_role_def find_Some_iff)
qed (auto simp: mem_accounts_def found_Inr mem_role_def find_put_role split: if_splits)

text \<open>A role loses its rights while it is cached; the next read sees it.\<close>

definition editors :: "PermissionEntry list \<Rightarrow> Role" where
  "editors ps = \<lparr>RoleID = 5, RoleName = ''editors'', Default = False, PermissionScopes = ps\<rparr>"

definition role_store :: "account_mem accounts" where
  "role_store = \<lparr>acTable = \<lparr>memUsers = [], memRoles = [editors [\<lparr>Path = ''/'', Permission = 8\<rparr>]]\<rparr>, userCache = (\<lambda>_. None),
     roleCache = (\<lambda>_. None), guestUser = None, adminUser = None\<rparr>"

theorem GetRole_reads_current_row_witness:
  "\<exists>st' r. GetRole mem_accounts (fold (role_run mem_accounts) [ReadRole 5, ChangeRole (editors [])] role_store) 5 = (st', Inr r) \<and> PermissionScopes r = []"
proof -
  let ?st = "fold (role_run mem_accounts) [ReadRole 5, ChangeRole (editors [])] role_store"
  have "case snd (GetRole mem_accounts ?st 5) of Inl _ \<Rightarrow> False | Inr _ \<Rightarrow> True" by code_simp
  then obtain st' r where g: "GetRole mem_accounts ?st 5 = (st', Inr r)"
    by (cases "GetRole mem_accounts ?st 5") (auto split: sum.splits)
  have "mem_role (acTable ?st) 5 = Some (editors [])" by code_simp
  with GetRole_reads_current_row [OF mem_roles_ok _ _ _ g] have "PermissionScopes r = []"
    by (auto simp: role_store_def editors_def mem_role_def word_name_def is_digit_def split: if_splits)
  with g show ?thesis by blast
qed

text \<open>A role named by a number takes the place of the role with that number: here the administrators'.\<close>

lemma role_name_shadows_id:
  "let db = \<lparr>memUsers = [], memRoles = [\<lparr>RoleID = 2, RoleName = ''admin'', Default = False, PermissionScopes = [\<lparr>Path = ''/'', Permission = 0xFFFF\<rparr>]\<rparr>,
             \<lparr>RoleID = 5, RoleName = ''2'', Default = False, PermissionScopes = []\<rparr>]\<rparr>;
       st = role_store\<lparr>acTable := db\<rparr>
   in map_sum (\<lambda>_. ()) RoleID (snd (GetRole mem_accounts (role_run mem_accounts (ReadRole 5) st) 2)) = Inr 5"
  by code_simp

end
