(* ===== verification/Login.thy ===== *)
theory Login
  imports Accounts
begin

text \<open>
  Logging in (\<^verbatim>\<open>server/common/auth.go\<close>, \<^verbatim>\<open>server/middlewares/auth.go\<close>, \<^verbatim>\<open>server/middlewares/session_refresh.go\<close>,
  \<^verbatim>\<open>server/handles/auth.go\<close>, \<^verbatim>\<open>server/handles/user.go\<close>): a login checks the password and the second factor, throttled
  by client address, and issues a signed token; every request is authenticated by the administrator's fixed
  token, as the guest, or by a token that this server issued.  Outside code are fields of \<open>services\<close>: the \<^verbatim>\<open>jwt\<close>
  package, \<^verbatim>\<open>totp\<close>, MD5 and the two tables.  Times are whole seconds.  Middlewares and handlers answer with a code,
  or with their result.
\<close>

section \<open>Tokens (server/common/auth.go)\<close>

record UserClaims =
  ClaimName :: string
  ClaimPwdTS :: int
  ExpiresAt :: int
  IssuedAt :: int
  NotBefore :: int

datatype jwt_error = Malformed | Expired | NotValidYet | OtherError

record ('b, 's) services =
  signedString :: "UserClaims \<Rightarrow> err + string"
  parseWithClaims :: "int \<Rightarrow> string \<Rightarrow> jwt_error + UserClaims"
  totpValidate :: "int \<Rightarrow> string \<Rightarrow> string \<Rightarrow> bool"
  md5 :: "string \<Rightarrow> string"
  TokenExpiresIn :: int
  adb :: "'b account_db"
  sdb :: "'s session_db"

text \<open>The caches of tokens and of failed logins; an entry of the latter may have a time at which it expires.\<close>

record ('b, 's) server =
  acc :: "'b accounts"
  sess :: 's
  validTokenCache :: "string \<Rightarrow> bool"
  loginCache :: "string \<Rightarrow> (int \<times> int option) option"

definition claims_for :: "int \<Rightarrow> int \<Rightarrow> User \<Rightarrow> UserClaims" where
  "claims_for hours now user =
     \<lparr>ClaimName = Username user, ClaimPwdTS = PwdTS user,
      ExpiresAt = (now * 1000000000 + wrap64 (hours * 3600000000000)) div 1000000000, IssuedAt = now, NotBefore = now\<rparr>"

definition GenerateToken :: "('b, 's) services \<Rightarrow> int \<Rightarrow> User \<Rightarrow> ('b, 's) server \<Rightarrow> ('b, 's) server \<times> (err + string)" where
  "GenerateToken X now user S =
     (case signedString X (claims_for (TokenExpiresIn X) now user) of
        Inl e \<Rightarrow> (S, Inl e)
      | Inr t \<Rightarrow> (S\<lparr>validTokenCache := (validTokenCache S)(t := True)\<rparr>, Inr t))"

definition IsTokenInvalidated :: "('b, 's) server \<Rightarrow> string \<Rightarrow> bool" where
  "IsTokenInvalidated S t \<longleftrightarrow> \<not> validTokenCache S t"

definition ParseToken :: "('b, 's) services \<Rightarrow> int \<Rightarrow> string \<Rightarrow> ('b, 's) server \<Rightarrow> err + UserClaims" where
  "ParseToken X now t S =
     (let parsed = parseWithClaims X now t
      in if IsTokenInvalidated S t then Inl (ErrMsg ''token is invalidated'')
         else case parsed of
                Inl Malformed \<Rightarrow> Inl (ErrMsg ''that's not even a token'')
              | Inl Expired \<Rightarrow> Inl (ErrMsg ''token is expired'')
              | Inl NotValidYet \<Rightarrow> Inl (ErrMsg ''token not active yet'')
              | Inl OtherError \<Rightarrow> Inl (ErrMsg ''couldn't handle this token'')
              | Inr c \<Rightarrow> Inr c)"

definition InvalidateToken :: "string \<Rightarrow> ('b, 's) server \<Rightarrow> ('b, 's) server" where
  "InvalidateToken t S = (if t = [] then S else S\<lparr>validTokenCache := (validTokenCache S)(t := False)\<rparr>)"

section \<open>The middlewares\<close>

record http_request =
  Authorization :: string
  ClientId :: string
  QueryClientId :: string
  RequestUA :: string
  ClientIP :: string

definition in_accounts :: "('b accounts \<Rightarrow> 'b accounts \<times> 'r) \<Rightarrow> ('b, 's) server \<Rightarrow> ('b, 's) server \<times> 'r" where
  "in_accounts f S = (case f (acc S) of (a, v) \<Rightarrow> (S\<lparr>acc := a\<rparr>, v))"

definition device_key :: "('b, 's) services \<Rightarrow> User \<Rightarrow> http_request \<Rightarrow> string" where
  "device_key X user r =
     md5 X (FormatUint (UserID user) @ ''-'' @ (if ClientId r = [] then QueryClientId r else ClientId r))"

definition HandleSession ::
    "('b, 's) services \<Rightarrow> account_env \<Rightarrow> settings \<Rightarrow> http_request \<Rightarrow> User \<Rightarrow> ('b, 's) server \<Rightarrow> ('b, 's) server \<times> (int + string)" where
  "HandleSession X E item r user S =
     (let key = device_key X user r
      in case Handle (sdb X) item (nowUnix E) (UserID user) key (RequestUA r) (ClientIP r) (sess S) of
           (db, None) \<Rightarrow> (S\<lparr>sess := db\<rparr>, Inr key)
         | (db, Some e) \<Rightarrow>
             if e = err.SessionInactive then (InvalidateToken (Authorization r) (S\<lparr>sess := db\<rparr>), Inl 401)
             else (S\<lparr>sess := db\<rparr>, Inl 403))"

text \<open>
  Where the object of the current user lives: the caches hold pointers, so what a handler changes in it, the
  cache shows.
\<close>

datatype holder = AdminPointer | GuestPointer | CachedAs string

definition hold :: "holder \<Rightarrow> User \<Rightarrow> 'b accounts \<Rightarrow> 'b accounts" where
  "hold h u st =
     (case h of
        AdminPointer \<Rightarrow> (if adminUser st = None then st else st\<lparr>adminUser := Some u\<rparr>)
      | GuestPointer \<Rightarrow> (if guestUser st = None then st else st\<lparr>guestUser := Some u\<rparr>)
      | CachedAs name \<Rightarrow> rewrite_cached name u st)"

definition with_roles :: "('b, 's) services \<Rightarrow> holder \<Rightarrow> User \<Rightarrow> ('b, 's) server \<Rightarrow> ('b, 's) server \<times> (int + User \<times> holder)" where
  "with_roles X h user S =
     (if Roles user = [] then (S, Inr (user, h))
      else case in_accounts (\<lambda>a. GetRolesByUserID (adb X) a (UserID user)) S of
             (S, Inl e) \<Rightarrow> (S, Inl 500)
           | (S, Inr roles) \<Rightarrow>
               let user = user\<lparr>RolesDetail := roles\<rparr>
               in (S\<lparr>acc := hold h user (acc S)\<rparr>, Inr (user, h)))"

definition token_user :: "('b, 's) services \<Rightarrow> account_env \<Rightarrow> string \<Rightarrow> ('b, 's) server \<Rightarrow> ('b, 's) server \<times> (int + User \<times> holder)" where
  "token_user X E t S =
     (case ParseToken X (nowUnix E) t S of
        Inl e \<Rightarrow> (S, Inl 401)
      | Inr c \<Rightarrow>
          (case in_accounts (\<lambda>a. GetUserByName E (adb X) a (ClaimName c)) S of
             (S, Inl e) \<Rightarrow> (S, Inl 401)
           | (S, Inr user) \<Rightarrow>
               if ClaimPwdTS c \<noteq> PwdTS user then (S, Inl 401)
               else if Disabled user then (S, Inl 401)
               else (S, Inr (user, CachedAs (ClaimName c)))))"

definition identify :: "('b, 's) services \<Rightarrow> account_env \<Rightarrow> settings \<Rightarrow> http_request \<Rightarrow> ('b, 's) server \<Rightarrow> ('b, 's) server \<times> (int + User \<times> holder)" where
  "identify X E item r S =
     (let t = Authorization r
      in if t = GetStr item ''token'' [] then
           (case in_accounts (GetAdmin E (adb X)) S of
              (S, Inl e) \<Rightarrow> (S, Inl 500) | (S, Inr admin) \<Rightarrow> (S, Inr (admin, AdminPointer)))
         else if t = [] then
           (case in_accounts (GetGuest (adb X)) S of
              (S, Inl e) \<Rightarrow> (S, Inl 500)
            | (S, Inr guest) \<Rightarrow> if Disabled guest then (S, Inl 401) else with_roles X GuestPointer guest S)
         else (case token_user X E t S of
                 (S, Inl n) \<Rightarrow> (S, Inl n)
               | (S, Inr (user, h)) \<Rightarrow> with_roles X h user S))"

definition Auth ::
    "('b, 's) services \<Rightarrow> account_env \<Rightarrow> settings \<Rightarrow> http_request \<Rightarrow> ('b, 's) server
     \<Rightarrow> ('b, 's) server \<times> (int + User \<times> string \<times> holder)" where
  "Auth X E item r S =
     (case identify X E item r S of
        (S, Inl n) \<Rightarrow> (S, Inl n)
      | (S, Inr (user, h)) \<Rightarrow>
          (case HandleSession X E item r user S of
             (S, Inl n) \<Rightarrow> (S, Inl n)
           | (S, Inr key) \<Rightarrow> (S, Inr (user, key, h))))"

fun roles_one_by_one :: "'b account_db \<Rightarrow> 'b accounts \<Rightarrow> int list \<Rightarrow> 'b accounts \<times> (err + Role list)" where
  "roles_one_by_one A st [] = (st, Inr [])"
| "roles_one_by_one A st (i # is) =
     (case GetRole A st (of_int i) of
        (st, Inl e) \<Rightarrow> (st, Inl e)
      | (st, Inr r) \<Rightarrow>
          (case roles_one_by_one A st is of (st, Inl e) \<Rightarrow> (st, Inl e) | (st, Inr rs) \<Rightarrow> (st, Inr (r # rs))))"

definition Authn ::
    "('b, 's) services \<Rightarrow> account_env \<Rightarrow> settings \<Rightarrow> http_request \<Rightarrow> ('b, 's) server \<Rightarrow> ('b, 's) server \<times> (int + User \<times> holder)" where
  "Authn X E item r S =
     (let t = Authorization r
      in if t = GetStr item ''token'' [] then
           (case in_accounts (GetAdmin E (adb X)) S of
              (S, Inl e) \<Rightarrow> (S, Inl 500) | (S, Inr admin) \<Rightarrow> (S, Inr (admin, AdminPointer)))
         else if t = [] then
           (case in_accounts (GetGuest (adb X)) S of
              (S, Inl e) \<Rightarrow> (S, Inl 500) | (S, Inr guest) \<Rightarrow> (S, Inr (guest, GuestPointer)))
         else (case token_user X E t S of
                 (S, Inl n) \<Rightarrow> (S, Inl n)
               | (S, Inr (user, h)) \<Rightarrow>
                   if Roles user = [] then (S, Inr (user, h))
                   else case in_accounts (\<lambda>a. roles_one_by_one (adb X) a (Roles user)) S of
                          (S, Inl e) \<Rightarrow> (S, Inl 500)
                        | (S, Inr roles) \<Rightarrow>
                            let user = user\<lparr>RolesDetail := roles\<rparr>
                            in (S\<lparr>acc := hold h user (acc S)\<rparr>, Inr (user, h))))"

definition AuthNotGuest :: "User \<Rightarrow> int option" where
  "AuthNotGuest user = (if IsGuest user then Some 403 else None)"

definition AuthAdmin :: "User \<Rightarrow> int option" where
  "AuthAdmin user = (if \<not> IsAdmin user then Some 403 else None)"

text \<open>
  Errors are answered with the status 200 and a code in the body, so the condition on the status holds for
  every answer of these handlers.
\<close>

definition SessionRefresh :: "('b, 's) services \<Rightarrow> int \<Rightarrow> bool \<Rightarrow> User \<Rightarrow> string \<Rightarrow> ('b, 's) server \<Rightarrow> ('b, 's) server" where
  "SessionRefresh X now inactive user key S = (if inactive then S else S\<lparr>sess := Refresh (sdb X) now (UserID user) key (sess S)\<rparr>)"

section \<open>Logging in (server/handles/auth.go)\<close>

record LoginReq =
  LoginName :: string
  LoginPassword :: string
  OtpCode :: string

definition defaultDuration :: int where "defaultDuration = 300"

definition defaultTimes :: int where "defaultTimes = 5"

definition login_count :: "int \<Rightarrow> string \<Rightarrow> ('b, 's) server \<Rightarrow> int option" where
  "login_count now ip S =
     (case loginCache S ip of
        None \<Rightarrow> None
      | Some (n, None) \<Rightarrow> Some n
      | Some (n, Some t) \<Rightarrow> if t < now then None else Some n)"

definition count_failure :: "int \<Rightarrow> string \<Rightarrow> ('b, 's) server \<Rightarrow> ('b, 's) server \<Rightarrow> ('b, 's) server" where
  "count_failure now ip S0 S =
     S\<lparr>loginCache := (loginCache S)(ip \<mapsto> ((case login_count now ip S0 of None \<Rightarrow> 0 | Some n \<Rightarrow> n) + 1, None))\<rparr>"

definition lock_out :: "int \<Rightarrow> string \<Rightarrow> ('b, 's) server \<Rightarrow> ('b, 's) server" where
  "lock_out now ip S =
     (case loginCache S ip of
        None \<Rightarrow> S
      | Some (n, _) \<Rightarrow> S\<lparr>loginCache := (loginCache S)(ip \<mapsto> (n, Some (now + defaultDuration)))\<rparr>)"

definition throttled :: "int \<Rightarrow> string \<Rightarrow> ('b, 's) server \<Rightarrow> bool" where
  "throttled now ip S \<longleftrightarrow> (case login_count now ip S of None \<Rightarrow> False | Some n \<Rightarrow> defaultTimes \<le> n)"

definition finish_login ::
    "('b, 's) services \<Rightarrow> account_env \<Rightarrow> settings \<Rightarrow> http_request \<Rightarrow> User \<Rightarrow> ('b, 's) server \<Rightarrow> ('b, 's) server \<times> (int + string \<times> string)" where
  "finish_login X E item r user S =
     (let key = device_key X user r
      in case EnsureActiveOnLogin (sdb X) item (nowUnix E) (UserID user) key (RequestUA r) (ClientIP r) (sess S) of
           (db, Some e) \<Rightarrow> (S\<lparr>sess := db\<rparr>, Inl (if e = TooManyDevices then 403 else 400))
         | (db, None) \<Rightarrow>
             (case GenerateToken X (nowUnix E) user (S\<lparr>sess := db\<rparr>) of
                (S, Inl e) \<Rightarrow> (S, Inl 400)
              | (S, Inr t) \<Rightarrow> (S\<lparr>loginCache := (loginCache S)(ClientIP r := None)\<rparr>, Inr (t, key))))"

definition loginHash ::
    "('b, 's) services \<Rightarrow> account_env \<Rightarrow> settings \<Rightarrow> http_request \<Rightarrow> LoginReq \<Rightarrow> ('b, 's) server \<Rightarrow> ('b, 's) server \<times> (int + string \<times> string)" where
  "loginHash X E item r req S0 =
     (let now = nowUnix E; ip = ClientIP r
      in if throttled now ip S0 then (lock_out now ip S0, Inl 429)
         else case in_accounts (\<lambda>a. GetUserByName E (adb X) a (LoginName req)) S0 of
                (S, Inl e) \<Rightarrow> (count_failure now ip S0 S, Inl 400)
              | (S, Inr user) \<Rightarrow>
                  if FixedAdmin E \<and> IsAdmin user \<and> LoginName req \<noteq> ''admin'' then (S, Inl 400)
                  else if ValidatePwdStaticHash (hash E) user (LoginPassword req) \<noteq> None then (count_failure now ip S0 S, Inl 400)
                  else if OtpSecret user \<noteq> [] \<and> \<not> totpValidate X now (OtpCode req) (OtpSecret user)
                  then (count_failure now ip S0 S, Inl 402)
                  else finish_login X E item r user S)"

definition Login ::
    "('b, 's) services \<Rightarrow> account_env \<Rightarrow> settings \<Rightarrow> http_request \<Rightarrow> LoginReq \<Rightarrow> ('b, 's) server \<Rightarrow> ('b, 's) server \<times> (int + string \<times> string)" where
  "Login X E item r req S = loginHash X E item r (req\<lparr>LoginPassword := StaticHash (hash E) (LoginPassword req)\<rparr>) S"

definition LoginHash ::
    "('b, 's) services \<Rightarrow> account_env \<Rightarrow> settings \<Rightarrow> http_request \<Rightarrow> LoginReq \<Rightarrow> ('b, 's) server \<Rightarrow> ('b, 's) server \<times> (int + string \<times> string)" where
  "LoginHash X E item r req S = loginHash X E item r req S"

section \<open>The current user and the administrator's requests (server/handles/auth.go, user.go)\<close>

definition result_code :: "int \<Rightarrow> ('b, 's) server \<times> err option \<Rightarrow> ('b, 's) server \<times> int" where
  "result_code n res = (case res of (S, None) \<Rightarrow> (S, 200) | (S, Some e) \<Rightarrow> (S, n))"

text \<open>
  A request carries the fields of a user that JSON can set: not the hash, the time of the password, the salt
  or the secret of the second factor, which are empty in it.  The password comes beside it.
\<close>

definition blank_user :: User where
  "blank_user = \<lparr>UserID = 0, Username = [], PwdHash = [], PwdTS = 0, Salt = [], BasePath = [], Roles = [], RolesDetail = [],
     Disabled = False, UserPermission = 0, OtpSecret = []\<rparr>"

definition Register ::
    "('b, 's) services \<Rightarrow> account_env \<Rightarrow> settings \<Rightarrow> string \<Rightarrow> string \<Rightarrow> ('b, 's) server \<Rightarrow> ('b, 's) server \<times> int" where
  "Register X E item name pwd S =
     (if \<not> GetBool item ''allow_register'' then (S, 403)
      else if name = [] \<or> pwd = [] then (S, 400)
      else let user = blank_user\<lparr>Username := name, Roles := [GetDefaultRoleID (adb X) item (acc S)]\<rparr>;
               user = SetPassword (hash E) (nextSalt E) (nowUnix E) user pwd
           in result_code 500 (in_accounts (\<lambda>a. CreateUser (adb X) a user) S))"

text \<open>\<^verbatim>\<open>op.UpdateUser\<close> changes the object it is given as well.\<close>

definition as_saved :: "account_env \<Rightarrow> User \<Rightarrow> User" where
  "as_saved E u0 =
     (let u = u0\<lparr>BasePath := FixAndCleanPath (BasePath u0)\<rparr> in if IsAdmin u then fst (applyAdminDefaults E u) else u)"

definition save_current :: "('b, 's) services \<Rightarrow> account_env \<Rightarrow> holder \<Rightarrow> User \<Rightarrow> ('b, 's) server \<Rightarrow> ('b, 's) server \<times> int" where
  "save_current X E h user S =
     (let found = uById (adb X) (acTable (acc S)) (UserID user);
          S = S\<lparr>acc := hold h user (acc S)\<rparr>;
          (S, n) = result_code 500 (in_accounts (\<lambda>a. UpdateUser E (adb X) a user) S)
      in (S\<lparr>acc := hold h (case found of Inl _ \<Rightarrow> user | Inr _ \<Rightarrow> as_saved E user) (acc S)\<rparr>, n))"

definition UpdateCurrent ::
    "('b, 's) services \<Rightarrow> account_env \<Rightarrow> User \<Rightarrow> holder \<Rightarrow> string \<Rightarrow> string \<Rightarrow> ('b, 's) server \<Rightarrow> ('b, 's) server \<times> int" where
  "UpdateCurrent X E user h name pwd S =
     (if name = [] then (S, 400)
      else if IsGuest user then (S, 403)
      else if FixedAdmin E \<and> IsAdmin user \<and> ((name \<noteq> [] \<and> name \<noteq> ''admin'') \<or> (pwd \<noteq> [] \<and> pwd \<noteq> ''admin'')) then (S, 403)
      else let user = user\<lparr>Username := name\<rparr>;
               user = (if pwd \<noteq> [] then SetPassword (hash E) (nextSalt E) (nowUnix E) user pwd else user)
           in save_current X E h user S)"

definition Verify2FA ::
    "('b, 's) services \<Rightarrow> account_env \<Rightarrow> User \<Rightarrow> holder \<Rightarrow> string \<Rightarrow> string \<Rightarrow> ('b, 's) server \<Rightarrow> ('b, 's) server \<times> int" where
  "Verify2FA X E user h code secret S =
     (if code = [] \<or> secret = [] then (S, 400)
      else if IsGuest user then (S, 403)
      else if \<not> totpValidate X (nowUnix E) code secret then (S, 400)
      else save_current X E h (user\<lparr>OtpSecret := secret\<rparr>) S)"

text \<open>The flag tells the middleware that the session is no longer active.\<close>

definition LogOut :: "('b, 's) services \<Rightarrow> http_request \<Rightarrow> string \<Rightarrow> ('b, 's) server \<Rightarrow> ('b, 's) server \<times> int \<times> bool" where
  "LogOut X r key S =
     (case MarkInactive (sdb X) key (sess S) of
        (db, Some e) \<Rightarrow> (S\<lparr>sess := db\<rparr>, 500, False)
      | (db, None) \<Rightarrow> (InvalidateToken (Authorization r) (S\<lparr>sess := db\<rparr>), 200, True))"

fun permission_map :: "PermissionEntry list \<Rightarrow> (string \<times> int32) list \<Rightarrow> (string \<times> int32) list" where
  "permission_map [] pm = pm"
| "permission_map (e # es) pm =
     (let p = path_Clean (''/'' @ TrimPrefix (Path e) ''/'')
      in permission_map es
           (case map_of pm p of
              None \<Rightarrow> pm @ [(p, Permission e)]
            | Some v \<Rightarrow> map (\<lambda>(q, w). (q, if q = p then or w (Permission e) else w)) pm))"

record UserResp =
  RespUser :: User
  Otp :: bool
  RoleNames :: "string list"
  Permissions :: "PermissionEntry list"

definition CurrentUser :: "User \<Rightarrow> UserResp" where
  "CurrentUser user =
     \<lparr>RespUser = user, Otp = (OtpSecret user \<noteq> []), RoleNames = map RoleName (RolesDetail user),
      Permissions = map (\<lambda>(p, v). \<lparr>Path = p, Permission = v\<rparr>) (permission_map (concat (map PermissionScopes (RolesDetail user))) [])\<rparr>"

definition CreateUser_handler ::
    "('b, 's) services \<Rightarrow> account_env \<Rightarrow> settings \<Rightarrow> User \<Rightarrow> string \<Rightarrow> ('b, 's) server \<Rightarrow> ('b, 's) server \<times> int" where
  "CreateUser_handler X E item req pwd S =
     (if Username req = [] then (S, 400)
      else let req = (if Roles req = [] then req\<lparr>Roles := [GetDefaultRoleID (adb X) item (acc S)]\<rparr> else req)
           in if IsAdmin req \<or> IsGuest req then (S, 400)
              else let req = SetPassword (hash E) (nextSalt E) (nowUnix E) req pwd
                   in result_code 500 (in_accounts (\<lambda>a. CreateUser (adb X) a req) S))"

definition with_password_of :: "account_env \<Rightarrow> User \<Rightarrow> string \<Rightarrow> User \<Rightarrow> User" where
  "with_password_of E user pwd req =
     (let req = (if pwd = [] then req\<lparr>PwdHash := PwdHash user, Salt := Salt user\<rparr>
                 else SetPassword (hash E) (nextSalt E) (nowUnix E) req pwd)
      in if OtpSecret req = [] then req\<lparr>OtpSecret := OtpSecret user\<rparr> else req)"

definition UpdateUser_handler ::
    "('b, 's) services \<Rightarrow> account_env \<Rightarrow> User \<Rightarrow> string \<Rightarrow> ('b, 's) server \<Rightarrow> ('b, 's) server \<times> int" where
  "UpdateUser_handler X E req pwd S =
     (if Username req = [] then (S, 400)
      else case uById (adb X) (acTable (acc S)) (UserID req) of
        Inl e \<Rightarrow> (S, 500)
      | Inr user \<Rightarrow>
          if Username user = ''admin'' \<and> FixedAdmin E \<and> (Username req \<noteq> ''admin'' \<or> (pwd \<noteq> [] \<and> pwd \<noteq> ''admin'')) then (S, 403)
          else if Username user = ''admin'' \<and> Roles user \<noteq> Roles req then (S, 403)
          else
            let req = with_password_of E user pwd req;
                (S, kept) = (if Disabled req \<and> IsAdmin user
                             then (case in_accounts (\<lambda>a. CountEnabledAdminsExcluding (adb X) a (UserID user)) S of
                                     (S, Inl e) \<Rightarrow> (S, Some 500)
                                   | (S, Inr n) \<Rightarrow> (S, if n = 0 then Some 400 else None))
                             else (S, None))
            in case kept of
                 Some n \<Rightarrow> (S, n)
               | None \<Rightarrow>
                   if Roles user \<noteq> Roles req \<and> (IsAdmin req \<or> IsGuest req) then (S, 400)
                   else result_code 500 (in_accounts (\<lambda>a. UpdateUser E (adb X) a req) S))"

text \<open>\<^verbatim>\<open>strconv.Atoi\<close> and the conversion to \<^verbatim>\<open>uint\<close>.\<close>

definition with_id :: "string \<Rightarrow> (64 word \<Rightarrow> ('b, 's) server \<Rightarrow> ('b, 's) server \<times> int) \<Rightarrow> ('b, 's) server \<Rightarrow> ('b, 's) server \<times> int" where
  "with_id idStr f S = (case ParseInt idStr of None \<Rightarrow> (S, 400) | Some i \<Rightarrow> f (of_int i) S)"

definition DeleteUser :: "('b, 's) services \<Rightarrow> string \<Rightarrow> ('b, 's) server \<Rightarrow> ('b, 's) server \<times> int" where
  "DeleteUser X idStr = with_id idStr (\<lambda>i S. result_code 500 (in_accounts (\<lambda>a. DeleteUserById (adb X) a (unat i)) S))"

definition Cancel2FA_handler :: "('b, 's) services \<Rightarrow> account_env \<Rightarrow> string \<Rightarrow> ('b, 's) server \<Rightarrow> ('b, 's) server \<times> int" where
  "Cancel2FA_handler X E idStr = with_id idStr (\<lambda>i S. result_code 500 (in_accounts (\<lambda>a. Cancel2FAById E (adb X) a (unat i)) S))"

definition DelUserCache_handler :: "('b, 's) services \<Rightarrow> account_env \<Rightarrow> string \<Rightarrow> ('b, 's) server \<Rightarrow> ('b, 's) server \<times> int" where
  "DelUserCache_handler X E username S = result_code 500 (in_accounts (\<lambda>a. DelUserCache E (adb X) a username) S)"

section \<open>The server\<close>

text \<open>A request to the API, the routes of \<^verbatim>\<open>server/router.go\<close>; \<open>Other\<close> is any request that needs a login only.\<close>

datatype action =
    Other
  | ChangeMe string string
  | Enable2FA string string
  | Leave
  | EvictMine string
  | AdminCreate User string
  | AdminUpdate User string
  | AdminDelete string
  | AdminCancel2FA string
  | AdminDelCache string
  | AdminEvict string

datatype api =
    LoginRaw LoginReq
  | LoginHashed LoginReq
  | SignUp string string
  | Do action

datatype reply = Code int | Token string

definition in_sessions :: "('s \<Rightarrow> 's \<times> int) \<Rightarrow> ('b, 's) server \<Rightarrow> ('b, 's) server \<times> int" where
  "in_sessions f S = (case f (sess S) of (db, n) \<Rightarrow> (S\<lparr>sess := db\<rparr>, n))"

definition admin_only :: "User \<Rightarrow> (('b, 's) server \<Rightarrow> ('b, 's) server \<times> int) \<Rightarrow> ('b, 's) server \<Rightarrow> ('b, 's) server \<times> int" where
  "admin_only user f S = (case AuthAdmin user of Some n \<Rightarrow> (S, n) | None \<Rightarrow> f S)"

fun perform ::
    "('b, 's) services \<Rightarrow> account_env \<Rightarrow> settings \<Rightarrow> http_request \<Rightarrow> User \<Rightarrow> string \<Rightarrow> holder \<Rightarrow> action \<Rightarrow> ('b, 's) server
     \<Rightarrow> ('b, 's) server \<times> int" where
  "perform X E item r user key h Other S = (S, 200)"
| "perform X E item r user key h (ChangeMe name pwd) S = UpdateCurrent X E user h name pwd S"
| "perform X E item r user key h (Enable2FA code secret) S = Verify2FA X E user h code secret S"
| "perform X E item r user key h Leave S = (case LogOut X r key S of (S, n, _) \<Rightarrow> (S, n))"
| "perform X E item r user key h (EvictMine k) S = in_sessions (EvictMySession (sdb X) user k) S"
| "perform X E item r user key h (AdminCreate req pwd) S = admin_only user (CreateUser_handler X E item req pwd) S"
| "perform X E item r user key h (AdminUpdate req pwd) S = admin_only user (UpdateUser_handler X E req pwd) S"
| "perform X E item r user key h (AdminDelete i) S = admin_only user (DeleteUser X i) S"
| "perform X E item r user key h (AdminCancel2FA i) S = admin_only user (Cancel2FA_handler X E i) S"
| "perform X E item r user key h (AdminDelCache n) S = admin_only user (DelUserCache_handler X E n) S"
| "perform X E item r user key h (AdminEvict k) S = admin_only user (in_sessions (EvictSession (sdb X) k)) S"

definition left :: "action \<Rightarrow> int \<Rightarrow> bool" where
  "left a n \<longleftrightarrow> a = Leave \<and> n = 200"

definition answer_login :: "('b, 's) server \<times> (int + string \<times> string) \<Rightarrow> ('b, 's) server \<times> reply" where
  "answer_login res = (case res of (S, Inl n) \<Rightarrow> (S, Code n) | (S, Inr (t, key)) \<Rightarrow> (S, Token t))"

definition serve ::
    "('b, 's) services \<Rightarrow> account_env \<times> settings \<times> http_request \<times> api \<Rightarrow> ('b, 's) server \<Rightarrow> ('b, 's) server \<times> reply" where
  "serve X ev S =
     (case ev of (E, item, r, what) \<Rightarrow>
        (case what of
           LoginRaw req \<Rightarrow> answer_login (Login X E item r req S)
         | LoginHashed req \<Rightarrow> answer_login (LoginHash X E item r req S)
         | SignUp name pwd \<Rightarrow> (case Register X E item name pwd S of (S, n) \<Rightarrow> (S, Code n))
         | Do a \<Rightarrow>
             (case Auth X E item r S of
                (S, Inl n) \<Rightarrow> (S, Code n)
              | (S, Inr (user, key, h)) \<Rightarrow>
                  (case perform X E item r user key h a S of
                     (S, n) \<Rightarrow> (SessionRefresh X (nowUnix E) (left a n) user key S, Code n)))))"

definition serve_all ::
    "('b, 's) services \<Rightarrow> (account_env \<times> settings \<times> http_request \<times> api) list \<Rightarrow> ('b, 's) server \<Rightarrow> ('b, 's) server" where
  "serve_all X evs S = fold (\<lambda>ev S. fst (serve X ev S)) evs S"

section \<open>What the operations leave alone\<close>

lemma in_accounts_frame [simp]:
  "validTokenCache (fst (in_accounts f S)) = validTokenCache S"
  "sess (fst (in_accounts f S)) = sess S"
  "loginCache (fst (in_accounts f S)) = loginCache S"
  by (simp_all add: in_accounts_def split: prod.split)

lemma in_accounts_frame': "in_accounts f S = (S', v) \<Longrightarrow> validTokenCache S' = validTokenCache S \<and> sess S' = sess S \<and> loginCache S' = loginCache S"
  using in_accounts_frame [of f S] by simp

lemma result_code_frame [simp]:
  "validTokenCache (fst (result_code n res)) = validTokenCache (fst res)" "loginCache (fst (result_code n res)) = loginCache (fst res)"
  by (simp_all add: result_code_def split: prod.split option.split)

lemma in_sessions_frame [simp]:
  "validTokenCache (fst (in_sessions f S)) = validTokenCache S" "loginCache (fst (in_sessions f S)) = loginCache S"
  by (simp_all add: in_sessions_def split: prod.split)

lemma InvalidateToken_frame:
  "validTokenCache (InvalidateToken t S) = (if t = [] then validTokenCache S else (validTokenCache S)(t := False))"
  "loginCache (InvalidateToken t S) = loginCache S"
  by (simp_all add: InvalidateToken_def)

lemma with_roles_frame: "with_roles X h user S = (S', v) \<Longrightarrow> validTokenCache S' = validTokenCache S \<and> loginCache S' = loginCache S"
  by (auto simp: with_roles_def Let_def split: if_splits prod.splits sum.splits dest!: in_accounts_frame')

lemma token_user_frame: "token_user X E t S = (S', v) \<Longrightarrow> validTokenCache S' = validTokenCache S \<and> loginCache S' = loginCache S"
  by (auto simp: token_user_def split: if_splits prod.splits sum.splits dest!: in_accounts_frame')

lemma identify_frame: "identify X E item r S = (S', v) \<Longrightarrow> validTokenCache S' = validTokenCache S \<and> loginCache S' = loginCache S"
  by (auto simp: identify_def Let_def split: if_splits prod.splits sum.splits dest!: in_accounts_frame' with_roles_frame token_user_frame)

lemma HandleSession_frame:
  "HandleSession X E item r user S = (S', v) \<Longrightarrow>
   (validTokenCache S' = validTokenCache S \<or> validTokenCache S' = validTokenCache (InvalidateToken (Authorization r) S))
   \<and> loginCache S' = loginCache S"
  by (auto simp: HandleSession_def Let_def InvalidateToken_frame split: if_splits prod.splits option.splits)

lemma Auth_frame: "Auth X E item r S = (S', v) \<Longrightarrow> (validTokenCache S' t \<longrightarrow> validTokenCache S t) \<and> loginCache S' = loginCache S"
  by (auto simp: Auth_def InvalidateToken_frame split: if_splits prod.splits sum.splits dest!: identify_frame HandleSession_frame)

lemma Auth_code: "Auth X E item r S = (S', Inl n) \<Longrightarrow> n \<noteq> 200"
  by (auto simp: Auth_def identify_def token_user_def with_roles_def HandleSession_def Let_def
      split: if_splits prod.splits sum.splits option.splits)

lemma save_current_frame [simp]:
  "validTokenCache (fst (save_current X E h user S)) = validTokenCache S" "loginCache (fst (save_current X E h user S)) = loginCache S"
  unfolding save_current_def Let_def by (simp_all add: case_prod_unfold)

lemma UpdateUser_handler_frame [simp]:
  "validTokenCache (fst (UpdateUser_handler X E req pwd S)) = validTokenCache S"
  "loginCache (fst (UpdateUser_handler X E req pwd S)) = loginCache S"
  by (auto simp: UpdateUser_handler_def Let_def split: prod.split sum.split option.split dest!: in_accounts_frame')

lemma with_id_frame [simp]:
  "(\<And>i. validTokenCache (fst (f i S)) = validTokenCache S) \<Longrightarrow> validTokenCache (fst (with_id x f S)) = validTokenCache S"
  "(\<And>i. loginCache (fst (f i S)) = loginCache S) \<Longrightarrow> loginCache (fst (with_id x f S)) = loginCache S"
  by (simp_all add: with_id_def split: option.split)

lemma admin_only_frame [simp]:
  "validTokenCache (fst (f S)) = validTokenCache S \<Longrightarrow> validTokenCache (fst (admin_only user f S)) = validTokenCache S"
  "loginCache (fst (f S)) = loginCache S \<Longrightarrow> loginCache (fst (admin_only user f S)) = loginCache S"
  by (simp_all add: admin_only_def split: option.split)

lemmas handler_defs = UpdateCurrent_def Verify2FA_def CreateUser_handler_def DeleteUser_def Cancel2FA_handler_def DelUserCache_handler_def

lemma perform_cache: "loginCache (fst (perform X E item r user key h a S)) = loginCache S"
proof (cases a)
  case Leave
  then show ?thesis by (auto simp: LogOut_def InvalidateToken_frame split: prod.split option.split)
qed (auto simp: handler_defs Let_def)

lemma perform_tokens:
  "validTokenCache (fst (perform X E item r user key h a S)) =
     (if left a (snd (perform X E item r user key h a S)) \<and> Authorization r \<noteq> [] then (validTokenCache S)(Authorization r := False)
      else validTokenCache S)"
proof (cases a)
  case Leave
  then show ?thesis
    by (auto simp: left_def LogOut_def InvalidateToken_frame split: prod.split option.split)
qed (auto simp: left_def handler_defs Let_def)

section \<open>Whom a token speaks for\<close>

text \<open>What a login that gave the token \<open>t\<close> has checked.\<close>

definition proved_by_password ::
    "('b, 's) services \<Rightarrow> account_env \<Rightarrow> LoginReq \<Rightarrow> string \<Rightarrow> ('b, 's) server \<Rightarrow> User \<Rightarrow> bool" where
  "proved_by_password X E req t S user \<longleftrightarrow>
     snd (GetUserByName E (adb X) (acc S) (LoginName req)) = Inr user
     \<and> ValidatePwdStaticHash (hash E) user (LoginPassword req) = None
     \<and> (OtpSecret user \<noteq> [] \<longrightarrow> totpValidate X (nowUnix E) (OtpCode req) (OtpSecret user))
     \<and> signedString X (claims_for (TokenExpiresIn X) (nowUnix E) user) = Inr t"

lemma in_accounts_snd: "in_accounts f S = (S', v) \<Longrightarrow> snd (f (acc S)) = v"
  by (auto simp: in_accounts_def split: prod.splits)

lemma finish_login_token:
  assumes "finish_login X E item r user S = (S', Inr (t, key))"
  shows "signedString X (claims_for (TokenExpiresIn X) (nowUnix E) user) = Inr t \<and> validTokenCache S' = (validTokenCache S)(t := True)"
  using assms by (auto simp: finish_login_def GenerateToken_def Let_def split: prod.splits option.splits sum.splits if_splits)

lemma finish_login_refused:
  assumes "finish_login X E item r user S = (S', Inl n)"
  shows "validTokenCache S' = validTokenCache S \<and> loginCache S' = loginCache S"
  using assms by (auto simp: finish_login_def GenerateToken_def Let_def split: prod.splits option.splits sum.splits if_splits)

lemma loginHash_token:
  assumes "loginHash X E item r req S = (S', Inr (t, key))"
  shows "(\<exists>user. proved_by_password X E req t S user) \<and> validTokenCache S' = (validTokenCache S)(t := True)"
  using assms
  by (auto simp: loginHash_def Let_def proved_by_password_def split: prod.splits sum.splits if_splits
      dest!: finish_login_token dest: in_accounts_snd in_accounts_frame')

lemma loginHash_refused:
  assumes "loginHash X E item r req S = (S', Inl n)"
  shows "validTokenCache S' = validTokenCache S"
  using assms
  by (auto simp: loginHash_def Let_def count_failure_def lock_out_def split: prod.splits sum.splits if_splits option.splits
      dest!: finish_login_refused dest: in_accounts_frame')

text \<open>The two login requests differ in who hashes the password first.\<close>

fun login_of :: "account_env \<Rightarrow> api \<Rightarrow> LoginReq option" where
  "login_of E (LoginRaw req) = Some (req\<lparr>LoginPassword := StaticHash (hash E) (LoginPassword req)\<rparr>)"
| "login_of E (LoginHashed req) = Some req"
| "login_of E _ = None"

lemma serve_login: "login_of E what = Some req \<Longrightarrow> serve X (E, item, r, what) S = answer_login (loginHash X E item r req S)"
  by (cases what) (auto simp: serve_def Login_def LoginHash_def)

lemma SessionRefresh_frame [simp]:
  "validTokenCache (SessionRefresh X now b user key S) = validTokenCache S" "loginCache (SessionRefresh X now b user key S) = loginCache S"
  by (simp_all add: SessionRefresh_def)

lemma serve_tokens:
  assumes "validTokenCache (fst (serve X (E, item, r, what) S)) t"
  shows "(\<exists>req user. login_of E what = Some req \<and> snd (serve X (E, item, r, what) S) = Token t \<and> proved_by_password X E req t S user)
       \<or> validTokenCache S t \<and> \<not> (what = Do Leave \<and> Authorization r = t \<and> t \<noteq> [] \<and> snd (serve X (E, item, r, what) S) = Code 200)"
proof (cases "login_of E what")
  case (Some req)
  obtain S' v where l: "loginHash X E item r req S = (S', v)" by fastforce
  note s = serve_login [OF Some, of X item r S, unfolded l]
  show ?thesis
  proof (cases v)
    case (Inl n)
    with loginHash_refused [of X E item r req S S' n] l assms s Some show ?thesis by (cases what) (auto simp: answer_login_def)
  next
    case (Inr p)
    obtain t' key where p: "p = (t', key)" by fastforce
    with loginHash_token [of X E item r req S S' t' key] l Inr assms s Some show ?thesis
      by (cases what) (auto simp: answer_login_def split: if_splits)
  qed
next
  case None
  show ?thesis
  proof (cases what)
    case (SignUp name pwd)
    with assms show ?thesis by (simp add: serve_def Register_def Let_def split: prod.splits if_splits)
        (metis fst_conv in_accounts_frame(1) result_code_frame(1))
  next
    case (Do a)
    obtain S1 v where au: "Auth X E item r S = (S1, v)" by fastforce
    note keep = conjunct1 [OF Auth_frame [OF au], rule_format]
    show ?thesis
    proof (cases v)
      case (Inl n)
      with Do au assms keep Auth_code [OF au [unfolded Inl]] show ?thesis by (auto simp: serve_def)
    next
      case (Inr p)
      obtain user key h where p: "p = (user, key, h)" by (cases p) auto
      obtain S2 n where pf: "perform X E item r user key h a S1 = (S2, n)" by fastforce
      with perform_tokens [of X E item r user key h a S1] Do au Inr p assms keep show ?thesis
        by (auto simp: serve_def left_def split: if_splits)
    qed
  qed (use None in auto)
qed

text \<open>
  Among the requests \<open>evs\<close>, served from the state \<open>S0\<close> on, is a login of \<open>user\<close> that gave the token \<open>t\<close>, and no later
  one has logged the token out.
\<close>

definition logs_out :: "string \<Rightarrow> account_env \<times> settings \<times> http_request \<times> api \<Rightarrow> bool" where
  "logs_out t ev \<longleftrightarrow> (case ev of (E, item, r, what) \<Rightarrow> what = Do Leave \<and> Authorization r = t)"

definition live_login ::
    "('b, 's) services \<Rightarrow> ('b, 's) server \<Rightarrow> (account_env \<times> settings \<times> http_request \<times> api) list \<Rightarrow> string \<Rightarrow> account_env \<Rightarrow> User \<Rightarrow> bool" where
  "live_login X S0 evs t E0 user \<longleftrightarrow>
     (\<exists>pre item r what req post.
        evs = pre @ (E0, item, r, what) # post \<and> login_of E0 what = Some req
        \<and> proved_by_password X E0 req t (serve_all X pre S0) user
        \<and> (\<forall>mid ev rest. post = mid @ ev # rest \<and> logs_out t ev \<longrightarrow>
             snd (serve X ev (serve_all X (pre @ (E0, item, r, what) # mid) S0)) \<noteq> Code 200))"

lemma serve_all_snoc: "serve_all X (evs @ [ev]) S = fst (serve X ev (serve_all X evs S))"
  by (simp add: serve_all_def)

lemma live_login_new:
  assumes "login_of E what = Some req" "proved_by_password X E req t (serve_all X evs S0) user"
  shows "live_login X S0 (evs @ [(E, item, r, what)]) t E user"
  unfolding live_login_def using assms by blast

lemma live_login_snoc:
  assumes "live_login X S0 evs t E0 user" "\<not> (logs_out t ev \<and> snd (serve X ev (serve_all X evs S0)) = Code 200)"
  shows "live_login X S0 (evs @ [ev]) t E0 user"
proof -
  from assms(1) obtain pre item r what req post where
    e: "evs = pre @ (E0, item, r, what) # post" "login_of E0 what = Some req" "proved_by_password X E0 req t (serve_all X pre S0) user"
    and q: "\<And>mid ev rest. \<lbrakk>post = mid @ ev # rest; logs_out t ev\<rbrakk> \<Longrightarrow>
       snd (serve X ev (serve_all X (pre @ (E0, item, r, what) # mid) S0)) \<noteq> Code 200"
    unfolding live_login_def by blast
  have "snd (serve X v (serve_all X (pre @ (E0, item, r, what) # mid) S0)) \<noteq> Code 200"
    if "post @ [ev] = mid @ v # rest" "logs_out t v" for mid v rest
  proof (cases rest rule: rev_cases)
    case Nil
    with that e(1) assms(2) show ?thesis by auto
  next
    case (snoc rest' x)
    with that q [of mid v rest'] show ?thesis by auto
  qed
  with e show ?thesis unfolding live_login_def
    by (intro exI [of _ pre] exI [of _ item] exI [of _ r] exI [of _ what] exI [of _ req] exI [of _ "post @ [ev]"]) auto
qed

lemma valid_token_live_login:
  assumes "validTokenCache (serve_all X evs S0) t" "\<not> validTokenCache S0 t" "t \<noteq> []"
  shows "\<exists>E0 user. live_login X S0 evs t E0 user"
  using assms(1)
proof (induction evs rule: rev_induct)
  case Nil
  with assms(2) show ?case by (simp add: serve_all_def)
next
  case (snoc ev evs)
  obtain E item r what where ev: "ev = (E, item, r, what)" by (cases ev) auto
  from serve_tokens [OF snoc.prems [unfolded serve_all_snoc ev]]
  consider (new) req user where "login_of E what = Some req" "proved_by_password X E req t (serve_all X evs S0) user"
    | (old) "validTokenCache (serve_all X evs S0) t" "\<not> (logs_out t ev \<and> snd (serve X ev (serve_all X evs S0)) = Code 200)"
    using assms(3) by (auto simp: logs_out_def ev)
  then show ?case
  proof cases
    case new
    then show ?thesis unfolding ev by (blast intro: live_login_new)
  next
    case old
    with snoc.IH show ?thesis by (blast intro: live_login_snoc)
  qed
qed

text \<open>A request with a token of its own is accepted as the user that the claims name, enabled, with the same password time.\<close>

lemma Auth_accepts_token:
  assumes "Auth X E item r S = (S', Inr (user, key, h))" "Authorization r \<noteq> []" "Authorization r \<noteq> GetStr item ''token'' []"
  obtains c where "validTokenCache S (Authorization r)" "parseWithClaims X (nowUnix E) (Authorization r) = Inr c"
    "ClaimPwdTS c = PwdTS user" "\<not> Disabled user" "h = CachedAs (ClaimName c)"
proof -
  from assms obtain S1 where i: "identify X E item r S = (S1, Inr (user, h))"
    by (auto simp: Auth_def split: prod.splits sum.splits)
  with assms(2,3) obtain S2 u0 h0 where tu: "token_user X E (Authorization r) S = (S2, Inr (u0, h0))"
    and wr: "with_roles X h0 u0 S2 = (S1, Inr (user, h))"
    by (auto simp: identify_def Let_def split: prod.splits sum.splits)
  from wr have u: "PwdTS user = PwdTS u0" "Disabled user = Disabled u0" "h = h0"
    by (auto simp: with_roles_def Let_def split: if_splits prod.splits sum.splits)
  from tu obtain c where "ParseToken X (nowUnix E) (Authorization r) S = Inr c" "ClaimPwdTS c = PwdTS u0" "\<not> Disabled u0" "h0 = CachedAs (ClaimName c)"
    by (auto simp: token_user_def split: if_splits prod.splits sum.splits)
  with u that show ?thesis
    by (auto simp: ParseToken_def IsTokenInvalidated_def Let_def split: if_splits sum.splits jwt_error.splits)
qed

text \<open>What the code relies on of \<^verbatim>\<open>jwt\<close>: a token signed here reads back as its claims, between its two times.\<close>

definition jwt_ok :: "('b, 's) services \<Rightarrow> bool" where
  "jwt_ok X \<longleftrightarrow>
     (\<forall>c t now c'. signedString X c = Inr t \<and> parseWithClaims X now t = Inr c' \<longrightarrow> c' = c \<and> NotBefore c \<le> now \<and> now < ExpiresAt c)"


end
