(* ===== verification/LoginProps.thy ===== *)
theory LoginProps
  imports Login
begin

text \<open>
  What a changed password is worth, how often a password can be guessed, and cases in which a login behaves
  otherwise than meant.
\<close>

section \<open>A changed password\<close>

text \<open>The requests after which no copy of the user's object has an older password: all, but the one by which an
  administrator edits the user without setting a password.\<close>

fun keeps_password_time :: "nat \<Rightarrow> int \<Rightarrow> account_env \<times> settings \<times> http_request \<times> api \<Rightarrow> bool" where
  "keeps_password_time uid T (E, item, r, what) \<longleftrightarrow>
     T \<le> nowUnix E \<and> (case what of Do (AdminUpdate req pwd) \<Rightarrow> UserID req = uid \<longrightarrow> pwd \<noteq> [] | _ \<Rightarrow> True)"

lemma in_accounts_run: "in_accounts f S = (S', v) \<Longrightarrow> f (acc S) = (acc S', v)"
  by (auto simp: in_accounts_def split: prod.splits)

lemma result_code_acc [simp]: "acc (fst (result_code n res)) = acc (fst res)"
  by (simp add: result_code_def split: prod.split option.split)

lemma InvalidateToken_acc [simp]: "acc (InvalidateToken t S) = acc S"
  by (simp add: InvalidateToken_def)

lemma HandleSession_acc: "HandleSession X E item r user S = (S', v) \<Longrightarrow> acc S' = acc S"
  by (auto simp: HandleSession_def Let_def split: if_splits prod.splits option.splits)

lemma finish_login_acc: "finish_login X E item r user S = (S', v) \<Longrightarrow> acc S' = acc S"
  by (auto simp: finish_login_def GenerateToken_def Let_def split: prod.splits option.splits sum.splits if_splits)

lemma counting_acc [simp]: "acc (count_failure now ip S0 S) = acc S" "acc (lock_out now ip S) = acc S"
  by (simp_all add: count_failure_def lock_out_def split: option.split prod.split)

lemma SessionRefresh_acc [simp]: "acc (SessionRefresh X now b user key S) = acc S"
  by (simp add: SessionRefresh_def)

lemma in_sessions_acc [simp]: "acc (fst (in_sessions f S)) = acc S"
  by (simp add: in_sessions_def split: prod.split)

lemma LogOut_acc: "acc (fst (LogOut X r key S)) = acc S"
  by (simp add: LogOut_def split: prod.split option.split)

lemma hold_fresh: "\<lbrakk>all_fresh rows uid T st; fresh uid T u\<rbrakk> \<Longrightarrow> all_fresh rows uid T (hold h u st)"
  by (simp add: hold_def split: holder.split)

lemma in_accounts_fresh:
  assumes "\<And>st' v. f (acc S) = (st', v) \<Longrightarrow> all_fresh rows uid T st'"
  shows "all_fresh rows uid T (acc (fst (in_accounts f S)))"
  using assms by (auto simp: in_accounts_def split: prod.split)

lemma with_roles_fresh:
  assumes "account_db_ok (adb X) rows" "all_fresh rows uid T (acc S)" "fresh uid T user" "with_roles X h user S = (S', v)"
  shows "all_fresh rows uid T (acc S') \<and> (\<forall>u h. v = Inr (u, h) \<longrightarrow> fresh uid T u)"
  using assms(2-4) GetRolesByUserID_fresh [OF assms(1,2)]
  by (auto simp: with_roles_def Let_def split: if_splits prod.splits sum.splits dest!: in_accounts_run intro!: hold_fresh)

lemma token_user_fresh:
  assumes "account_db_ok (adb X) rows" "all_fresh rows uid T (acc S)" "T \<le> nowUnix E" "token_user X E t S = (S', v)"
  shows "all_fresh rows uid T (acc S') \<and> (\<forall>u h. v = Inr (u, h) \<longrightarrow> fresh uid T u)"
  using assms(2,4) GetUserByName_fresh [OF assms(1-3)]
  by (auto simp: token_user_def split: if_splits prod.splits sum.splits dest!: in_accounts_run)

lemma identify_fresh:
  assumes "account_db_ok (adb X) rows" "all_fresh rows uid T (acc S)" "T \<le> nowUnix E" "identify X E item r S = (S', v)"
  shows "all_fresh rows uid T (acc S') \<and> (\<forall>u h. v = Inr (u, h) \<longrightarrow> fresh uid T u)"
proof -
  note wr = with_roles_fresh [OF assms(1)]
  consider (admin) "Authorization r = GetStr item ''token'' []"
    | (guest) "Authorization r \<noteq> GetStr item ''token'' []" "Authorization r = []"
    | (user) "Authorization r \<noteq> GetStr item ''token'' []" "Authorization r \<noteq> []" by blast
  then show ?thesis
  proof cases
    case admin
    with assms(4) GetAdmin_fresh [OF assms(1-3)] show ?thesis
      by (auto simp: identify_def Let_def split: prod.splits sum.splits dest!: in_accounts_run)
  next
    case guest
    obtain S1 w where g: "in_accounts (GetGuest (adb X)) S = (S1, w)" by fastforce
    from GetGuest_fresh [OF assms(1,2) in_accounts_run [OF g]] assms(4) g guest wr [of uid T S1] show ?thesis
      by (auto simp: identify_def Let_def split: if_splits sum.splits)
  next
    case user
    obtain S1 w where t: "token_user X E (Authorization r) S = (S1, w)" by fastforce
    from token_user_fresh [OF assms(1-3) t] assms(4) t user wr [of uid T S1] show ?thesis
      by (auto simp: identify_def Let_def split: sum.splits)
  qed
qed

lemma Auth_fresh:
  assumes "account_db_ok (adb X) rows" "all_fresh rows uid T (acc S)" "T \<le> nowUnix E" "Auth X E item r S = (S', v)"
  shows "all_fresh rows uid T (acc S') \<and> (\<forall>u k h. v = Inr (u, k, h) \<longrightarrow> fresh uid T u)"
  using assms(4) identify_fresh [OF assms(1-3)]
  by (auto simp: Auth_def split: prod.splits sum.splits dest!: HandleSession_acc)

lemma loginHash_acc:
  assumes "loginHash X E item r req S = (S', v)" "\<not> throttled (nowUnix E) (ClientIP r) S"
  shows "acc S' = fst (GetUserByName E (adb X) (acc S) (LoginName req))"
  using assms by (auto simp: loginHash_def Let_def split: if_splits prod.splits sum.splits dest!: in_accounts_run finish_login_acc)

lemma loginHash_fresh:
  assumes "account_db_ok (adb X) rows" "all_fresh rows uid T (acc S)" "T \<le> nowUnix E" "loginHash X E item r req S = (S', v)"
  shows "all_fresh rows uid T (acc S')"
  using assms(2,4) GetUserByName_fresh [OF assms(1-3)]
  by (auto simp: loginHash_def Let_def split: if_splits prod.splits sum.splits dest!: in_accounts_run finish_login_acc)

lemma save_current_fresh:
  assumes "account_db_ok (adb X) rows" "all_fresh rows uid T (acc S)" "T \<le> nowUnix E" "fresh uid T user"
  shows "all_fresh rows uid T (acc (fst (save_current X E h user S)))"
proof -
  have h: "all_fresh rows uid T (hold h user (acc S))" by (rule hold_fresh [OF assms(2,4)])
  have "fresh uid T (as_saved E user)"
    using fresh_applyAdminDefaults [of uid T "user\<lparr>BasePath := FixAndCleanPath (BasePath user)\<rparr>" E] assms(3,4) by (simp add: as_saved_def Let_def)
  moreover have "all_fresh rows uid T (acc (fst (in_accounts (\<lambda>a. UpdateUser E (adb X) a user) (S\<lparr>acc := hold h user (acc S)\<rparr>))))"
    using UpdateUser_fresh [OF assms(1) h assms(4,3)] by (intro in_accounts_fresh) simp
  ultimately show ?thesis
    using assms(4) by (auto simp: save_current_def Let_def case_prod_unfold split: sum.split intro!: hold_fresh)
qed

lemma UpdateUser_handler_fresh:
  assumes "account_db_ok (adb X) rows" "all_fresh rows uid T (acc S)" "T \<le> nowUnix E" "UserID req = uid \<longrightarrow> pwd \<noteq> []"
  shows "all_fresh rows uid T (acc (fst (UpdateUser_handler X E req pwd S)))"
proof -
  have f: "fresh uid T (with_password_of E user pwd req)" for user
    using assms(3,4) by (auto simp: with_password_of_def Let_def fresh_def SetPassword_def)
  have u: "all_fresh rows uid T (acc (fst (in_accounts (\<lambda>a. UpdateUser E (adb X) a (with_password_of E user pwd req)) S1)))"
    if "all_fresh rows uid T (acc S1)" for S1 user
    using UpdateUser_fresh [OF assms(1) that f assms(3)] by (intro in_accounts_fresh)
  show ?thesis
    using assms(2) u CountEnabledAdmins_fresh [OF assms(1,2)]
    by (auto simp: UpdateUser_handler_def Let_def split: sum.splits prod.splits option.splits dest!: in_accounts_run)
qed

lemma registered_fresh:
  assumes "account_db_ok (adb X) rows" "all_fresh rows uid T (acc S)" "T \<le> now"
  shows "all_fresh rows uid T (acc (fst (in_accounts (\<lambda>a. CreateUser (adb X) a (SetPassword f salt now u pwd)) S)))"
  using CreateUser_fresh [OF assms(1,2), of "SetPassword f salt now u pwd"] assms(3)
  by (intro in_accounts_fresh) (simp add: SetPassword_def)

lemma Register_fresh:
  assumes "account_db_ok (adb X) rows" "all_fresh rows uid T (acc S)" "T \<le> nowUnix E"
  shows "all_fresh rows uid T (acc (fst (Register X E item name pwd S)))"
    and "all_fresh rows uid T (acc (fst (CreateUser_handler X E item req pwd S)))"
  using assms(2) registered_fresh [OF assms] by (simp_all add: Register_def CreateUser_handler_def Let_def)

lemma by_id_fresh:
  assumes "account_db_ok (adb X) rows" "all_fresh rows uid T (acc S)" "T \<le> nowUnix E"
  shows "all_fresh rows uid T (acc (fst (DeleteUser X i S)))"
    and "all_fresh rows uid T (acc (fst (Cancel2FA_handler X E i S)))"
    and "all_fresh rows uid T (acc (fst (DelUserCache_handler X E n S)))"
  using assms(2) DeleteUserById_fresh [OF assms(1,2)] Cancel2FAById_fresh [OF assms] DelUserCache_fresh [OF assms]
  by (auto simp: DeleteUser_def Cancel2FA_handler_def DelUserCache_handler_def with_id_def split: option.split intro!: in_accounts_fresh)

lemma admin_only_fresh:
  "\<lbrakk>all_fresh rows uid T (acc S); all_fresh rows uid T (acc (fst (f S)))\<rbrakk> \<Longrightarrow> all_fresh rows uid T (acc (fst (admin_only user f S)))"
  by (simp add: admin_only_def split: option.split)

lemma perform_fresh:
  assumes "account_db_ok (adb X) rows" "all_fresh rows uid T (acc S)" "fresh uid T user" "keeps_password_time uid T (E, item, r, Do a)"
  shows "all_fresh rows uid T (acc (fst (perform X E item r user key h a S)))"
proof -
  from assms(4) have T: "T \<le> nowUnix E" by simp
  note keep = save_current_fresh [OF assms(1,2) T] Register_fresh [OF assms(1,2) T] by_id_fresh [OF assms(1,2) T]
    UpdateUser_handler_fresh [OF assms(1,2) T]
  show ?thesis
  proof (cases a)
    case Leave
    then show ?thesis using assms(2) LogOut_acc [of X r key S] by (auto split: prod.split)
  qed (use assms keep in \<open>auto simp: UpdateCurrent_def Verify2FA_def Let_def intro!: admin_only_fresh\<close>)
qed

lemma serve_fresh:
  assumes "account_db_ok (adb X) rows" "all_fresh rows uid T (acc S)" "keeps_password_time uid T ev"
  shows "all_fresh rows uid T (acc (fst (serve X ev S)))"
proof -
  obtain E item r what where ev: "ev = (E, item, r, what)" by (cases ev) auto
  with assms(3) have T: "T \<le> nowUnix E" by simp
  note login = loginHash_fresh [OF assms(1,2) T]
  show ?thesis
  proof (cases what)
    case (Do a)
    obtain S1 v where au: "Auth X E item r S = (S1, v)" by fastforce
    note f = Auth_fresh [OF assms(1,2) T au]
    show ?thesis
      using f perform_fresh [OF assms(1), of uid T S1 _ E item r a] assms(3)
      by (auto simp: serve_def ev Do au split: sum.split prod.split) (metis fst_conv)
  qed (use login Register_fresh(1) [OF assms(1,2) T] in
      \<open>auto simp: serve_def ev Login_def LoginHash_def answer_login_def split: prod.split sum.split, (metis fst_conv)?\<close>)
qed

lemma serve_all_fresh:
  assumes "account_db_ok (adb X) rows" "all_fresh rows uid T (acc S)" "\<forall>ev \<in> set evs. keeps_password_time uid T ev"
  shows "all_fresh rows uid T (acc (serve_all X evs S))"
  using assms(2,3) unfolding serve_all_def
proof (induction evs arbitrary: S)
  case (Cons ev evs)
  from Cons.prems have "all_fresh rows uid T (acc (fst (serve X ev S)))" by (intro serve_fresh [OF assms(1)]) auto
  from Cons.IH [OF this] Cons.prems(2) show ?case by simp
qed simp

text \<open>Of the user's object there is the row and, at most, the entry of the cache under the name in the row.\<close>

definition only_copy :: "nat \<Rightarrow> string \<Rightarrow> 'b accounts \<Rightarrow> bool" where
  "only_copy uid name st \<longleftrightarrow>
     (\<forall>n u. userCache st n = Some u \<and> UserID u = uid \<longrightarrow> n = name)
     \<and> (\<forall>u. adminUser st = Some u \<or> guestUser st = Some u \<longrightarrow> UserID u \<noteq> uid)"

lemma UpdateUser_saved_fresh:
  assumes "account_db_ok A rows" "uById A (acTable st) (UserID u) = Inr old"
    and copies: "\<And>n w. \<lbrakk>userCache st n = Some w; n \<noteq> Username old\<rbrakk> \<Longrightarrow> fresh (UserID u) T w"
      "\<And>w. adminUser st = Some w \<or> guestUser st = Some w \<Longrightarrow> fresh (UserID u) T w"
    and "fresh (UserID u) T u" "T \<le> nowUnix E" "UpdateUser E A st u = (st', None)"
  shows "all_fresh rows (UserID u) T st'"
proof -
  let ?u = "u\<lparr>BasePath := FixAndCleanPath (BasePath u)\<rparr>"
  define v where "v = (if IsAdmin ?u then fst (applyAdminDefaults E ?u) else ?u)"
  have v: "fresh (UserID u) T v" using fresh_applyAdminDefaults [of "UserID u" T ?u E] assms(5,6) by (simp add: v_def)
  have id: "UserID v = UserID u"
    by (simp add: v_def applyAdminDefaults_def fixed_credentials_def root_only_def Let_def SetPassword_def)
  obtain db where sv: "uSave A (acTable st) v = (db, None)"
    and st': "acTable st' = db" "userCache st' = (userCache st)(Username old := None)"
      "adminUser st' \<in> {None, adminUser st}" "guestUser st' \<in> {None, guestUser st}"
    using assms(2,7) by (auto simp: UpdateUser_def Let_def v_def forget_user_def split: prod.splits if_splits)
  have "fresh (UserID u) T w" if "rows db i = Some w" for i w
    using account_db_laws(8) [OF assms(1) sv] v id that account_db_laws(1) [OF assms(1), of "acTable st" i w]
    by (auto simp: fresh_def stored_def split: if_splits)
  then show ?thesis using copies st' by (auto simp: all_fresh_def split: if_splits)
qed

lemma save_current_saved_fresh:
  assumes "account_db_ok (adb X) rows" "uById (adb X) (acTable (acc S)) (UserID u) = Inr old" "only_copy (UserID u) (Username old) (acc S)"
    "T \<le> PwdTS u" "T \<le> nowUnix E" "save_current X E (CachedAs n) u S = (S', 200)"
  shows "all_fresh rows (UserID u) T (acc S')"
proof -
  let ?st = "hold (CachedAs n) u (acc S)"
  have h: "acTable ?st = acTable (acc S)" by (simp add: hold_def rewrite_cached_def split: option.split)
  obtain st1 e where up: "UpdateUser E (adb X) ?st u = (st1, e)" by fastforce
  from assms(6) have e: "e = None" and S': "acc S' = hold (CachedAs n) (as_saved E u) st1"
    by (auto simp: save_current_def Let_def in_accounts_def up assms(2) result_code_def split: option.splits)
  have fr: "fresh (UserID u) T u" "fresh (UserID u) T (as_saved E u)"
    using assms(4,5) fresh_applyAdminDefaults [of "UserID u" T "u\<lparr>BasePath := FixAndCleanPath (BasePath u)\<rparr>" E]
    by (auto simp: fresh_def as_saved_def Let_def)
  have "all_fresh rows (UserID u) T st1"
  proof (rule UpdateUser_saved_fresh [OF assms(1) _ _ _ fr(1) assms(5) up [unfolded e]])
    show "uById (adb X) (acTable ?st) (UserID u) = Inr old" using assms(2) h by simp
    show "fresh (UserID u) T w" if "userCache ?st k = Some w" "k \<noteq> Username old" for k w
      using that fr(1) assms(3) by (auto simp: hold_def rewrite_cached_def only_copy_def fresh_def split: option.splits if_splits)
    show "fresh (UserID u) T w" if "adminUser ?st = Some w \<or> guestUser ?st = Some w" for w
      using that assms(3) by (auto simp: hold_def rewrite_cached_def only_copy_def fresh_def split: option.splits)
  qed
  then show ?thesis unfolding S' by (rule hold_fresh [OF _ fr(2)])
qed



section \<open>Guessing passwords\<close>

fun login_from :: "string \<Rightarrow> account_env \<times> settings \<times> http_request \<times> api \<Rightarrow> bool" where
  "login_from ip (E, item, r, what) \<longleftrightarrow> ClientIP r = ip \<and> login_of E what \<noteq> None"

text \<open>A login whose name, password or second factor is looked at and is wrong.\<close>

fun wrong_guess :: "('b, 's) services \<Rightarrow> string \<Rightarrow> account_env \<times> settings \<times> http_request \<times> api \<Rightarrow> ('b, 's) server \<Rightarrow> bool" where
  "wrong_guess X ip (E, item, r, what) S \<longleftrightarrow>
     ClientIP r = ip \<and> \<not> throttled (nowUnix E) ip S
     \<and> (case login_of E what of
          None \<Rightarrow> False
        | Some req \<Rightarrow>
            (case snd (GetUserByName E (adb X) (acc S) (LoginName req)) of
               Inl _ \<Rightarrow> True
             | Inr user \<Rightarrow>
                 \<not> (FixedAdmin E \<and> IsAdmin user \<and> LoginName req \<noteq> ''admin'')
                 \<and> (ValidatePwdStaticHash (hash E) user (LoginPassword req) \<noteq> None
                    \<or> OtpSecret user \<noteq> [] \<and> \<not> totpValidate X (nowUnix E) (OtpCode req) (OtpSecret user))))"

fun guesses :: "('b, 's) services \<Rightarrow> string \<Rightarrow> (account_env \<times> settings \<times> http_request \<times> api) list \<Rightarrow> ('b, 's) server \<Rightarrow> nat" where
  "guesses X ip [] S = 0"
| "guesses X ip (ev # evs) S = (if wrong_guess X ip ev S then 1 else 0) + guesses X ip evs (fst (serve X ev S))"

text \<open>No login from the address succeeds.\<close>

fun unsuccessful :: "('b, 's) services \<Rightarrow> string \<Rightarrow> (account_env \<times> settings \<times> http_request \<times> api) list \<Rightarrow> ('b, 's) server \<Rightarrow> bool" where
  "unsuccessful X ip [] S \<longleftrightarrow> True"
| "unsuccessful X ip (ev # evs) S \<longleftrightarrow>
     \<not> (login_from ip ev \<and> (case snd (serve X ev S) of Token _ \<Rightarrow> True | Code _ \<Rightarrow> False)) \<and> unsuccessful X ip evs (fst (serve X ev S))"

text \<open>Between one login from the address and the next there are at most five minutes.\<close>

fun steady :: "string \<Rightarrow> int \<Rightarrow> (account_env \<times> settings \<times> http_request \<times> api) list \<Rightarrow> bool" where
  "steady ip t [] \<longleftrightarrow> True"
| "steady ip t (ev # evs) \<longleftrightarrow>
     (if login_from ip ev then t \<le> nowUnix (fst ev) \<and> nowUnix (fst ev) \<le> t + defaultDuration \<and> steady ip (nowUnix (fst ev)) evs
      else steady ip t evs)"

lemma serve_other_cache:
  assumes "login_of E what = None"
  shows "loginCache (fst (serve X (E, item, r, what) S)) = loginCache S"
proof (cases what)
  case (SignUp name pwd)
  then show ?thesis
    by (simp add: serve_def Register_def Let_def case_prod_unfold)
next
  case (Do a)
  obtain S1 v where au: "Auth X E item r S = (S1, v)" by fastforce
  then show ?thesis
    using Auth_frame [OF au] perform_cache [of X E item r _ _ _ a S1]
    by (auto simp: serve_def Do split: sum.split prod.split) (metis fst_conv)
qed (use assms in auto)

lemma loginHash_cache:
  assumes "loginHash X E item r req S = (S', v)"
  shows loginHash_cache_other: "ip \<noteq> ClientIP r \<Longrightarrow> loginCache S' ip = loginCache S ip"
    and loginHash_cache_throttled: "throttled (nowUnix E) (ClientIP r) S \<Longrightarrow> S' = lock_out (nowUnix E) (ClientIP r) S"
  using assms
  by (auto simp: loginHash_def finish_login_def GenerateToken_def Let_def count_failure_def lock_out_def
      split: if_splits prod.splits sum.splits option.splits dest: in_accounts_frame')

lemma loginHash_cache_wrong:
  assumes "loginHash X E item r req S = (S', v)" "login_of E what = Some req" "wrong_guess X (ClientIP r) (E, item, r, what) S"
  shows "loginCache S' (ClientIP r) = Some ((case login_count (nowUnix E) (ClientIP r) S of None \<Rightarrow> 0 | Some n \<Rightarrow> n) + 1, None)"
proof -
  obtain S1 w where g: "in_accounts (\<lambda>a. GetUserByName E (adb X) a (LoginName req)) S = (S1, w)" by fastforce
  from in_accounts_snd [OF g] assms show ?thesis
    by (auto simp: loginHash_def Let_def g count_failure_def split: sum.splits if_splits)
qed

lemma loginHash_cache_right:
  assumes "loginHash X E item r req S = (S', Inl n)" "login_of E what = Some req" "\<not> wrong_guess X (ClientIP r) (E, item, r, what) S"
    "\<not> throttled (nowUnix E) (ClientIP r) S"
  shows "loginCache S' (ClientIP r) = loginCache S (ClientIP r)"
proof -
  obtain S1 w where g: "in_accounts (\<lambda>a. GetUserByName E (adb X) a (LoginName req)) S = (S1, w)" by fastforce
  from in_accounts_snd [OF g] in_accounts_frame' [OF g] assms show ?thesis
    by (auto simp: loginHash_def Let_def g split: sum.splits if_splits dest!: finish_login_refused)
qed

text \<open>The failures counted for an address, and the time up to which it is locked out.\<close>

definition counted :: "string \<Rightarrow> ('b, 's) server \<Rightarrow> int" where
  "counted ip S = (case loginCache S ip of None \<Rightarrow> 0 | Some (n, _) \<Rightarrow> n)"

definition locked_until :: "string \<Rightarrow> int \<Rightarrow> ('b, 's) server \<Rightarrow> bool" where
  "locked_until ip t S \<longleftrightarrow> (\<forall>n x. loginCache S ip = Some (n, Some x) \<longrightarrow> defaultTimes \<le> n \<and> t \<le> x)"

lemma login_step:
  assumes "locked_until ip (t + defaultDuration) S" "login_from ip (E, item, r, what)" "snd (serve X (E, item, r, what) S) = Code n"
    "t \<le> nowUnix E" "nowUnix E \<le> t + defaultDuration" "0 \<le> counted ip S"
  defines "S' \<equiv> fst (serve X (E, item, r, what) S)"
  shows "locked_until ip (nowUnix E + defaultDuration) S' \<and> counted ip S \<le> counted ip S'
    \<and> (wrong_guess X ip (E, item, r, what) S \<longrightarrow> counted ip S < defaultTimes \<and> counted ip S' = counted ip S + 1)"
proof -
  from assms(2) obtain req where req: "login_of E what = Some req" and ip: "ClientIP r = ip" by auto
  obtain S1 v where l: "loginHash X E item r req S = (S1, v)" by fastforce
  from serve_login [OF req, of X item r S] l assms(3) obtain m where v: "v = Inl m" and S': "S' = S1"
    by (cases v) (auto simp: answer_login_def S'_def)
  show ?thesis
  proof (cases "throttled (nowUnix E) ip S")
    case True
    then have "S' = lock_out (nowUnix E) ip S" using loginHash_cache_throttled [OF l] ip S' by simp
    with True show ?thesis
      by (auto simp: lock_out_def locked_until_def counted_def throttled_def login_count_def split: option.splits prod.splits if_splits)
  next
    case free: False
    then have plain: "loginCache S ip = None \<or> (\<exists>n. loginCache S ip = Some (n, None) \<and> n < defaultTimes)"
      using assms(1,5) by (fastforce simp: locked_until_def throttled_def login_count_def split: option.splits if_splits)
    show ?thesis
    proof (cases "wrong_guess X ip (E, item, r, what) S")
      case True
      with loginHash_cache_wrong [OF l req] ip have "loginCache S' ip = Some ((case login_count (nowUnix E) ip S of None \<Rightarrow> 0 | Some n \<Rightarrow> n) + 1, None)"
        by (simp add: S')
      with plain True show ?thesis
        by (auto simp: locked_until_def counted_def login_count_def defaultTimes_def)
    next
      case False
      with loginHash_cache_right [OF l [unfolded v] req] ip free have "loginCache S' ip = loginCache S ip" by (simp add: S')
      with plain False show ?thesis by (auto simp: locked_until_def counted_def)
    qed
  qed
qed

lemma other_step:
  assumes "\<not> login_from ip (E, item, r, what)"
  shows "loginCache (fst (serve X (E, item, r, what) S)) ip = loginCache S ip"
proof (cases "login_of E what")
  case None
  then show ?thesis by (simp add: serve_other_cache)
next
  case (Some req)
  obtain S1 v where l: "loginHash X E item r req S = (S1, v)" by fastforce
  from loginHash_cache_other [OF l, of ip] serve_login [OF Some, of X item r S] l assms Some show ?thesis
    by (cases v) (auto simp: answer_login_def)
qed

lemma guesses_bound:
  assumes "locked_until ip (t + defaultDuration) S" "0 \<le> counted ip S" "steady ip t evs" "unsuccessful X ip evs S"
  shows "int (guesses X ip evs S) \<le> max 0 (defaultTimes - counted ip S)"
  using assms
proof (induction evs arbitrary: t S)
  case (Cons ev evs)
  obtain E item r what where ev: "ev = (E, item, r, what)" by (cases ev) auto
  let ?S = "fst (serve X ev S)"
  show ?case
  proof (cases "login_from ip ev")
    case True
    with Cons.prems(4) obtain n where n: "snd (serve X ev S) = Code n" by (auto split: reply.splits)
    from login_step [OF Cons.prems(1) True [unfolded ev] n [unfolded ev] _ _ Cons.prems(2)] Cons.prems(3) True
    have s: "locked_until ip (nowUnix E + defaultDuration) ?S" "counted ip S \<le> counted ip ?S"
      "wrong_guess X ip ev S \<Longrightarrow> counted ip S < defaultTimes \<and> counted ip ?S = counted ip S + 1"
      by (auto simp: ev)
    have "int (guesses X ip evs ?S) \<le> max 0 (defaultTimes - counted ip ?S)"
      using Cons.IH [OF s(1)] Cons.prems s(2) True ev by (auto simp: ev)
    with s show ?thesis by (cases "wrong_guess X ip ev S") auto
  next
    case False
    then have "loginCache ?S ip = loginCache S ip" using other_step [of ip E item r what X S] ev by simp
    moreover have "\<not> wrong_guess X ip ev S" using False ev by (auto split: option.splits)
    ultimately show ?thesis
      using Cons.IH [of t ?S] Cons.prems False by (simp add: locked_until_def counted_def)
  qed
qed simp

text \<open>C28: Guessing a password. From one address, with no pause of more than five minutes between the attempts and as long as none
  succeeds, at most five wrong guesses are looked at, however many logins are tried and whatever other requests
  are served in between.\<close>

theorem guesses_limited:
  assumes "loginCache S ip = None" "steady ip t evs" "unsuccessful X ip evs S"
  shows "guesses X ip evs S \<le> 5"
proof -
  from assms(1) have "locked_until ip (t + defaultDuration) S" "counted ip S = 0" by (simp_all add: locked_until_def counted_def)
  from guesses_bound [OF this(1) _ assms(2,3)] this(2) show ?thesis by (simp add: defaultTimes_def)
qed

end
