(* ===== verification/LoginCases.thy ===== *)
theory LoginCases
  imports LoginProps
begin

text \<open>
  The theorems on logins at work on tables in memory, and cases in which the server behaves otherwise than meant.
\<close>

section \<open>A small server\<close>

text \<open>Three users as the first start of the program makes them, and one more, \<^verbatim>\<open>bob\<close>.\<close>

definition toy_hash :: "string \<Rightarrow> string" where
  "toy_hash s = CHR ''h'' # s"

definition at :: "int \<Rightarrow> account_env" where
  "at t = \<lparr>FixedAdmin = False, hash = toy_hash, nextSalt = ''s'', nowUnix = t\<rparr>"

definition toy_user :: "nat \<Rightarrow> string \<Rightarrow> int list \<Rightarrow> User" where
  "toy_user i name roles =
     \<lparr>UserID = i, Username = name, PwdHash = TwoHashPwd toy_hash name ''s'', PwdTS = 0, Salt = ''s'', BasePath = ''/'', Roles = roles,
      RolesDetail = [], Disabled = False, UserPermission = (if ADMIN \<in> set roles then 0xFFFF else 0), OtpSecret = []\<rparr>"

definition toy_table :: account_mem where
  "toy_table =
     \<lparr>memUsers = [toy_user 1 ''guest'' [GUEST], toy_user 2 ''admin'' [ADMIN], toy_user 3 ''bob'' []],
      memRoles = [\<lparr>RoleID = 1, RoleName = ''guest'', Default = False, PermissionScopes = [\<lparr>Path = ''/'', Permission = 0\<rparr>]\<rparr>,
                  \<lparr>RoleID = 2, RoleName = ''admin'', Default = False, PermissionScopes = [\<lparr>Path = ''/'', Permission = 0xFFFF\<rparr>]\<rparr>]\<rparr>"

text \<open>The tokens of this server name the time of the password and the time of the login.\<close>

definition toy_claims :: "UserClaims list" where
  "toy_claims = map (\<lambda>(p, t). \<lparr>ClaimName = ''bob'', ClaimPwdTS = p, ExpiresAt = t + 172800, IssuedAt = t, NotBefore = t\<rparr>) [(0, 1), (0, 2), (3, 4)]"

definition toy_token :: "UserClaims \<Rightarrow> string" where
  "toy_token c = ''t'' @ FormatInt (ClaimPwdTS c) @ FormatInt (NotBefore c)"

definition toy_services :: "(account_mem, session_mem) services" where
  "toy_services =
     \<lparr>signedString = (\<lambda>c. if c \<in> set toy_claims then Inr (toy_token c) else Inl (ErrMsg ''no key'')),
      parseWithClaims = (\<lambda>now t. case List.find (\<lambda>c. toy_token c = t) toy_claims of
         None \<Rightarrow> Inl Malformed
       | Some c \<Rightarrow> if ExpiresAt c \<le> now then Inl Expired else if now < NotBefore c then Inl NotValidYet else Inr c),
      totpValidate = (\<lambda>now code secret. code = secret), md5 = (\<lambda>s. s), TokenExpiresIn = 48, adb = mem_accounts, sdb = mem_sessions\<rparr>"

definition toy_server :: "(account_mem, session_mem) server" where
  "toy_server =
     \<lparr>acc = \<lparr>acTable = toy_table, userCache = (\<lambda>_. None), roleCache = (\<lambda>_. None), guestUser = None, adminUser = None\<rparr>,
      sess = ([], \<lambda>_. None), validTokenCache = (\<lambda>_. False), loginCache = (\<lambda>_. None)\<rparr>"

definition toy_settings :: settings where
  "toy_settings = [''token'' \<mapsto> ''T'']"

definition from_device :: "string \<Rightarrow> string \<Rightarrow> http_request" where
  "from_device t device = \<lparr>Authorization = t, ClientId = device, QueryClientId = [], RequestUA = [], ClientIP = ''1.2.3.4''\<rparr>"

definition login_bob :: "string \<Rightarrow> api" where
  "login_bob pwd = LoginRaw \<lparr>LoginName = ''bob'', LoginPassword = pwd, OtpCode = []\<rparr>"

fun replies :: "('b, 's) services \<Rightarrow> (account_env \<times> settings \<times> http_request \<times> api) list \<Rightarrow> ('b, 's) server \<Rightarrow> reply list" where
  "replies X [] S = []"
| "replies X (ev # evs) S = (case serve X ev S of (S, x) \<Rightarrow> x # replies X evs S)"

text \<open>The profile of \<^verbatim>\<open>bob\<close> as the administrator's form sends it: what JSON cannot set is empty.\<close>

definition bob_form :: User where
  "bob_form = blank_user\<lparr>UserID := 3, Username := ''bob'', BasePath := ''/''\<rparr>"

section \<open>Cases\<close>


text \<open>One guest ends the session of all. The requests of guests that name no client share one device session; when one of them logs
  out, the others are refused.\<close>

lemma guest_logout_locks_out_guests:
  "replies toy_services
     [(at 1, toy_settings, from_device [] [], Do Other),
      (at 2, toy_settings, from_device [] [], Do Leave),
      (at 3, toy_settings, (from_device [] [])\<lparr>ClientIP := ''5.6.7.8''\<rparr>, Do Other)] toy_server
   = [Code 200, Code 200, Code 401]"
  by code_simp

text \<open>An evicted device that is quiet until its session is deleted is accepted again with its old token, and evicts the other.\<close>

definition one_device :: settings where
  "one_device = [''token'' \<mapsto> ''T'', ''max_devices'' \<mapsto> ''1'', ''device_evict_policy'' \<mapsto> ''evict_oldest'', ''device_session_ttl'' \<mapsto> ''10'']"

lemma evicted_device_returns:
  "replies toy_services
     [(at 1, one_device, from_device [] ''a'', login_bob ''bob''),
      (at 2, one_device, from_device [] ''b'', login_bob ''bob''),
      (at 15, one_device, from_device ''t02'' ''b'', Do Other),
      (at 20, one_device, from_device ''t01'' ''a'', Do Other),
      (at 21, one_device, from_device ''t02'' ''b'', Do Other)] toy_server
   = [Token ''t01'', Token ''t02'', Code 200, Code 200, Code 401]"
  by code_simp

text \<open>The last administrator can be lost. The form that edits a user keeps one enabled administrator only when it disables one: renamed
  first and then given no role, the only administrator is none any more.\<close>

lemma last_admin_can_be_demoted:
  "let evs = [(at 1, toy_settings, from_device ''T'' [], Do (AdminUpdate (blank_user\<lparr>UserID := 2, Username := ''boss'', Roles := [ADMIN]\<rparr>) [])),
              (at 2, toy_settings, from_device ''T'' [], Do (AdminUpdate (blank_user\<lparr>UserID := 2, Username := ''boss''\<rparr>) []))];
       S = serve_all toy_services evs toy_server
   in replies toy_services evs toy_server = [Code 200, Code 200] \<and> \<not> list_ex IsAdmin (mem_all (acTable (acc S)))"
  by code_simp

text \<open>The administrator's token fails open. When the setting \<^verbatim>\<open>token\<close> is empty or cannot be read, a request without a token is served as the
  administrator, or not at all.\<close>

theorem unreadable_token_admits_admin:
  assumes "GetStr item ''token'' [] = []" "Authorization r = []" "Auth X E item r S = (S', Inr (user, key, h))"
  shows "h = AdminPointer \<and> snd (GetAdmin E (adb X) (acc S)) = Inr user"
  using assms by (auto simp: Auth_def identify_def Let_def split: prod.splits sum.splits dest: in_accounts_snd)

theorem unreadable_token_admits_admin_witness:
  "\<exists>S' user key. Auth toy_services (at 1) (\<lambda>_. None) (from_device [] []) toy_server = (S', Inr (user, key, AdminPointer)) \<and> IsAdmin user"
proof -
  have ok: "case snd (Auth toy_services (at 1) (\<lambda>_. None) (from_device [] []) toy_server) of Inl _ \<Rightarrow> False | Inr (user, key, h) \<Rightarrow> IsAdmin user"
    by code_simp
  then obtain S' user key h where a: "Auth toy_services (at 1) (\<lambda>_. None) (from_device [] []) toy_server = (S', Inr (user, key, h))" "IsAdmin user"
    by (cases "Auth toy_services (at 1) (\<lambda>_. None) (from_device [] []) toy_server") (auto split: sum.splits)
  from unreadable_token_admits_admin [OF _ _ a(1)] a show ?thesis by (auto simp: GetStr_def from_device_def)
qed

section \<open>Witnesses\<close>

lemma toy_jwt_ok: "jwt_ok toy_services"
proof -
  have inj: "c' = c" if "c \<in> set toy_claims" "c' \<in> set toy_claims" "toy_token c' = toy_token c" for c c'
  proof -
    have "list_all (\<lambda>c. list_all (\<lambda>c'. toy_token c' = toy_token c \<longrightarrow> c' = c) toy_claims) toy_claims" by code_simp
    with that show ?thesis by (auto simp: list_all_iff)
  qed
  have found: "c \<in> set toy_claims \<and> toy_token c = t" if "List.find (\<lambda>c. toy_token c = t) toy_claims = Some c" for c t
    using that by (auto simp: find_Some_iff)
  show ?thesis
    unfolding jwt_ok_def
  proof (intro allI impI, elim conjE)
    fix c t now c'
    assume "signedString toy_services c = Inr t" and p: "parseWithClaims toy_services now t = Inr c'"
    then have c: "c \<in> set toy_claims" "toy_token c = t" by (simp_all add: toy_services_def split: if_splits)
    from p have c': "List.find (\<lambda>c. toy_token c = t) toy_claims = Some c'" "NotBefore c' \<le> now" "now < ExpiresAt c'"
      by (simp_all add: toy_services_def split: option.splits if_splits)
    from inj [OF c(1)] found [OF c'(1)] c(2) have "c' = c" by simp
    with c' show "c' = c \<and> NotBefore c \<le> now \<and> now < ExpiresAt c" by simp
  qed
qed

definition bob_logs_in :: "(account_env \<times> settings \<times> http_request \<times> api) list" where
  "bob_logs_in = [(at 1, toy_settings, from_device [] ''a'', login_bob ''bob'')]"


text \<open>\<^verbatim>\<open>bob\<close> logs in, sets a new password and logs in again.\<close>

definition bob_in :: "(account_mem, session_mem) server" where
  "bob_in = serve_all toy_services [(at 1, toy_settings, from_device [] ''a'', login_bob ''bob'')] toy_server"

definition bob_changed :: "(account_mem, session_mem) server \<times> int" where
  "bob_changed = UpdateCurrent toy_services (at 3) (toy_user 3 ''bob'' []) (CachedAs ''bob'') ''bob'' ''new'' bob_in"

lemma bob_in_caches: "userCache (acc bob_in) = [''bob'' \<mapsto> toy_user 3 ''bob'' []]" "adminUser (acc bob_in) = None" "guestUser (acc bob_in) = None"
proof -
  let ?req = "\<lparr>LoginName = ''bob'', LoginPassword = StaticHash toy_hash ''bob'', OtpCode = []\<rparr>"
  obtain S v where l: "loginHash toy_services (at 1) toy_settings (from_device [] ''a'') ?req toy_server = (S, v)" by fastforce
  have "login_of (at 1) (login_bob ''bob'') = Some ?req" by (simp add: login_bob_def at_def)
  from serve_login [OF this, of toy_services toy_settings "from_device [] ''a''" toy_server] l have "acc bob_in = acc S"
    by (cases v) (auto simp: bob_in_def serve_all_def answer_login_def)
  also have "acc S = fst (GetUserByName (at 1) mem_accounts (acc toy_server) ''bob'')"
    using loginHash_acc [OF l] by (simp add: toy_services_def toy_server_def throttled_def login_count_def)
  also have "\<dots> = (acc toy_server)\<lparr>userCache := [''bob'' \<mapsto> toy_user 3 ''bob'' []]\<rparr>"
  proof -
    have "uByName mem_accounts (acTable (acc toy_server)) ''bob'' = Inr (toy_user 3 ''bob'' [])" by code_simp
    moreover have "\<not> IsAdmin (toy_user 3 ''bob'' [])" by code_simp
    ultimately show ?thesis by (simp add: GetUserByName_def enforceAdminUserDefaults_def toy_server_def)
  qed
  finally show "userCache (acc bob_in) = [''bob'' \<mapsto> toy_user 3 ''bob'' []]" "adminUser (acc bob_in) = None" "guestUser (acc bob_in) = None"
    by (simp_all add: toy_server_def)
qed


definition five_tries :: "(account_env \<times> settings \<times> http_request \<times> api) list" where
  "five_tries = map (\<lambda>t. (at t, toy_settings, from_device [] ''a'', login_bob ''wrong'')) [1, 2, 3, 4, 5, 6, 200, 500]"

theorem guesses_limited_witness:
  "guesses toy_services ''1.2.3.4'' five_tries toy_server \<le> 5"
proof (rule guesses_limited)
  show "loginCache toy_server ''1.2.3.4'' = None" by (simp add: toy_server_def)
  show "steady ''1.2.3.4'' 1 five_tries" by code_simp
  show "unsuccessful toy_services ''1.2.3.4'' five_tries toy_server" by code_simp
qed

lemma five_tries_replies: "replies toy_services five_tries toy_server = replicate 5 (Code 400) @ replicate 3 (Code 429)"
  by code_simp

end
