(* ===== verification/Downloader.thy ===== *)
theory Downloader
  imports HttpRange
begin

text \<open>
  The downloader in chunks, \<^verbatim>\<open>internal/net/request.go\<close>: a range of a remote file is cut into chunks that several
  goroutines fetch into a ring of buffers, from which one reader takes the bytes in order.  The mutex makes
  \<^verbatim>\<open>sendChunkTask\<close> and the change of the concurrency one step; every other step of a goroutine is one of its own,
  and the steps of all goroutines and of the reader may come in any order.  What the remote server answers is
  chosen from outside (the events below).  Positions stay within the size of the file, an \<^verbatim>\<open>int64\<close>, and are integers.
\<close>

section \<open>Data\<close>

record Downloader =
  PartSize :: int
  PartBodyMaxRetries :: int
  Concurrency :: int

record HttpRequestParams =
  ReqRange :: Range
  ReqSize :: int

definition DefaultDownloadPartSize :: int where "DefaultDownloadPartSize = 10 * 1024 * 1024"

definition DefaultDownloadConcurrency :: int where "DefaultDownloadConcurrency = 2"

definition DefaultPartBodyMaxRetries :: int where "DefaultPartBodyMaxRetries = 3"

text \<open>A buffer: the bytes that are written and not yet read, the expected size, the bytes read; closed when nil.\<close>

record Buf =
  buffer :: string
  bufSize :: int
  bufOff :: int
  bufOpen :: bool

text \<open>The pointer to the buffer of a chunk is its place in the list of buffers, which only grows.\<close>

record chunk =
  chStart :: int
  chSize :: int
  chId :: nat
  chBuf :: nat
  newConcurrency :: bool

text \<open>
  Where a goroutine of \<^verbatim>\<open>downloadPart\<close> is: waiting for a chunk; about to send the request, with the two counters of
  retries; with an answer; copying the body, with the number of bytes copied; returned.
\<close>

datatype worker = Idle | Trying chunk int int | Connected chunk int int | Copying chunk int int int | Gone

record downloader =
  limit :: "int option"
  chunkChannel :: "chunk list"
  chanClosed :: bool
  nextChunk :: nat
  bufs :: "Buf list"
  written :: int
  dlFailed :: bool
  canceled :: bool
  concurrency :: int
  maxPart :: int
  pos :: int
  maxPos :: int
  readingID :: nat
  workers :: "worker list"
  rPos :: nat
  curBuf :: nat
  atEnd :: bool
  closing :: bool
  readBytes :: string

section \<open>The limit on concurrency\<close>

definition limit_sub :: "int option \<Rightarrow> int option option" where
  "limit_sub l = (case l of None \<Rightarrow> Some None | Some n \<Rightarrow> if n - 1 < 0 then None else Some (Some (n - 1)))"

definition limit_add :: "int option \<Rightarrow> int option" where
  "limit_add l = map_option (\<lambda>n. n + 1) l"

section \<open>Buffers\<close>

definition NewBuf :: "int \<Rightarrow> Buf" where
  "NewBuf maxSize = \<lparr>buffer = [], bufSize = maxSize, bufOff = 0, bufOpen = True\<rparr>"

definition Buf_Reset :: "int \<Rightarrow> Buf \<Rightarrow> Buf" where
  "Buf_Reset sz b = b\<lparr>buffer := [], bufSize := sz, bufOff := 0\<rparr>"

datatype read_result = GotBytes string | ReadEOF | ReadClosed | ReadCanceled

definition Buf_Read :: "bool \<Rightarrow> nat \<Rightarrow> Buf \<Rightarrow> Buf \<times> read_result" where
  "Buf_Read isCanceled n b =
     (if isCanceled then (b, ReadCanceled)
      else if n = 0 then (b, GotBytes [])
      else if bufOff b \<ge> bufSize b then (b, ReadEOF)
      else if \<not> bufOpen b then (b, ReadClosed)
      else let got = take n (buffer b)
           in (b\<lparr>buffer := drop n (buffer b), bufOff := bufOff b + int (length got)\<rparr>, GotBytes got))"

definition Buf_Write :: "bool \<Rightarrow> string \<Rightarrow> Buf \<Rightarrow> Buf option" where
  "Buf_Write isCanceled p b =
     (if isCanceled \<or> \<not> bufOpen b then None else Some (b\<lparr>buffer := buffer b @ p\<rparr>))"

definition Buf_Close :: "Buf \<Rightarrow> Buf" where
  "Buf_Close b = b\<lparr>bufOpen := False\<rparr>"

section \<open>Cutting the range\<close>

definition count_parts :: "int \<Rightarrow> int \<Rightarrow> int" where
  "count_parts len psize = len div psize + (if len mod psize > 0 then 1 else 0)"

definition chunk_size :: "int \<Rightarrow> int \<Rightarrow> nat \<Rightarrow> int" where
  "chunk_size len psize i =
     (let firstSize = len mod psize; minSize = psize div 2
      in if i = 0 then (if firstSize > 0 then (if firstSize < minSize then minSize else firstSize) else psize)
         else if i = 1 then (if firstSize > 0 \<and> firstSize < minSize then psize + (firstSize - minSize) else psize)
         else psize)"

definition getBuf :: "nat \<Rightarrow> downloader \<Rightarrow> nat" where
  "getBuf i D = i mod length (bufs D)"

text \<open>
  \<^verbatim>\<open>sendChunkTask\<close>; \<^const>\<open>None\<close> is the panic of a send on a closed channel.  Its error is ignored by all callers.
\<close>

definition sendChunkTask :: "Downloader \<Rightarrow> HttpRequestParams \<Rightarrow> bool \<Rightarrow> downloader \<Rightarrow> downloader go" where
  "sendChunkTask cfg p isNew D0 =
     (let isNewBuf = concurrency D0 > 0
      in if isNew \<and> concurrency D0 \<le> 0 then Some D0
         else case (if isNew \<and> nextChunk D0 > 0 then limit_sub (limit D0) else Some (limit D0)) of
                None \<Rightarrow> Some D0
              | Some l \<Rightarrow>
                  let D = (if isNew then D0\<lparr>limit := l, concurrency := concurrency D0 - 1, workers := workers D0 @ [Idle]\<rparr> else D0);
                      i = (if isNewBuf then length (bufs D) else getBuf (nextChunk D) D);
                      D = (if isNewBuf then D\<lparr>bufs := bufs D @ [NewBuf (PartSize cfg)]\<rparr> else D)
                  in if pos D < maxPos D then
                       (let finalSize = chunk_size (Length (ReqRange p)) (PartSize cfg) (nextChunk D);
                            ch = \<lparr>chStart = pos D, chSize = finalSize, chId = nextChunk D, chBuf = i, newConcurrency = isNew\<rparr>
                        in if chanClosed D then panic
                           else Some (D\<lparr>bufs := (bufs D)[i := Buf_Reset finalSize (bufs D ! i)], pos := pos D + finalSize,
                                       nextChunk := nextChunk D + 1, chunkChannel := chunkChannel D @ [ch]\<rparr>))
                     else Some D)"

section \<open>Starting\<close>

definition Download :: "Downloader \<Rightarrow> HttpRequestParams \<Rightarrow> Downloader \<times> HttpRequestParams" where
  "Download cfg p =
     (let r = ReqRange p;
          p = (if Length r = -1 then p\<lparr>ReqRange := r\<lparr>Length := ReqSize p - Start r\<rparr>\<rparr> else p);
          cfg = (if Concurrency cfg = 0 then cfg\<lparr>Concurrency := DefaultDownloadConcurrency\<rparr> else cfg);
          cfg = (if PartSize cfg = 0 then cfg\<lparr>PartSize := DefaultDownloadPartSize\<rparr> else cfg)
      in (cfg, p))"

datatype started = ExceedMaxConcurrency | OneRequest | Started Downloader downloader

text \<open>The limit that is left, and the outcome; \<^const>\<open>None\<close> is the panic of reading the first of no buffers.\<close>

definition download :: "Downloader \<Rightarrow> HttpRequestParams \<Rightarrow> int option \<Rightarrow> int option \<times> started go" where
  "download cfg0 p l0 =
     (case limit_sub l0 of
        None \<Rightarrow> (l0, Some ExceedMaxConcurrency)
      | Some l \<Rightarrow>
          let parts = count_parts (Length (ReqRange p)) (PartSize cfg0);
              cfg = (if parts < Concurrency cfg0 then cfg0\<lparr>Concurrency := parts\<rparr> else cfg0)
          in if Concurrency cfg = 1 then (l, Some OneRequest)
             else (l, case sendChunkTask cfg p True
                          \<lparr>limit = l, chunkChannel = [], chanClosed = False, nextChunk = 0, bufs = [], written = 0, dlFailed = False,
                           canceled = False, concurrency = Concurrency cfg, maxPart = parts, pos = Start (ReqRange p),
                           maxPos = Start (ReqRange p) + Length (ReqRange p), readingID = 0, workers = [], rPos = 0, curBuf = 0,
                           atEnd = False, closing = False, readBytes = []\<rparr> of
                        None \<Rightarrow> panic
                      | Some D \<Rightarrow> if bufs D = [] then panic else Some (Started cfg D)))"

section \<open>The goroutines\<close>

definition set_worker :: "nat \<Rightarrow> worker \<Rightarrow> downloader \<Rightarrow> downloader" where
  "set_worker i w D = D\<lparr>workers := (workers D)[i := w]\<rparr>"

definition leave :: "nat \<Rightarrow> downloader \<Rightarrow> downloader" where
  "leave i D = (set_worker i Gone D)\<lparr>limit := limit_add (limit D)\<rparr>"

text \<open>An error that ends the download: set it, and cancel the context.\<close>

definition fail :: "nat \<Rightarrow> downloader \<Rightarrow> downloader" where
  "fail i D = (set_worker i Idle D)\<lparr>dlFailed := True, canceled := True\<rparr>"

definition take_chunk :: "nat \<Rightarrow> downloader \<Rightarrow> downloader" where
  "take_chunk i D =
     (case chunkChannel D of
        [] \<Rightarrow> if chanClosed D then leave i D else D
      | c # cs \<Rightarrow>
          let D = D\<lparr>chunkChannel := cs\<rparr> in if dlFailed D then leave i D else set_worker i (Trying c 0 0) D)"

text \<open>The answer of the server to a request, as far as the code looks at it.\<close>

datatype answer = Overloaded | Refused | Success

definition overload :: "Downloader \<Rightarrow> nat \<Rightarrow> chunk \<Rightarrow> int \<Rightarrow> int \<Rightarrow> downloader \<Rightarrow> downloader go" where
  "overload cfg i c retry over D =
     (if chId c = 0 then
        (if dlFailed D then Some (set_worker i Idle D)
         else if canceled D \<or> retry + 1 > PartBodyMaxRetries cfg then Some (fail i D)
         else Some (set_worker i (Trying c (retry + 1) over) D))
      else
        let isCancel = newConcurrency c \<or> concurrency D > 0;
            left = (if concurrency D > 0 then - concurrency D else concurrency D)
        in if isCancel then
             (if chanClosed D then panic
              else let D = D\<lparr>concurrency := left - 1, chunkChannel := chunkChannel D @ [c]\<rparr>
                   in Some (if dlFailed D then set_worker i Idle D else if canceled D then fail i D else leave i D))
           else if dlFailed D then Some (set_worker i Idle D)
           else if canceled D \<or> over + 1 > PartBodyMaxRetries cfg * 10 then Some (fail i D)
           else Some (set_worker i (Trying c retry (over + 1)) D))"

definition try_chunk :: "Downloader \<Rightarrow> answer \<Rightarrow> nat \<Rightarrow> chunk \<Rightarrow> int \<Rightarrow> int \<Rightarrow> downloader \<Rightarrow> downloader go" where
  "try_chunk cfg a i c retry over D =
     (case a of
        Success \<Rightarrow> Some (set_worker i (Connected c retry over) D)
      | Refused \<Rightarrow> Some (if dlFailed D then set_worker i Idle D else fail i D)
      | Overloaded \<Rightarrow> overload cfg i c retry over D)"

text \<open>
  The header \<^verbatim>\<open>Content-Range\<close> of the first answer, or its length, must tell the expected size of the file.
\<close>

definition checkTotalBytes :: "HttpRequestParams \<Rightarrow> string \<Rightarrow> int \<Rightarrow> bool" where
  "checkTotalBytes p contentRange contentLength =
     (if contentRange = [] then (if contentLength > 0 then contentLength else -1) = ReqSize p
      else let totalStr = last (Split CHR ''/'' contentRange)
           in totalStr \<noteq> ''*'' \<and> (case ParseInt totalStr of None \<Rightarrow> False | Some m \<Rightarrow> m = ReqSize p))"

definition check_and_spread :: "Downloader \<Rightarrow> HttpRequestParams \<Rightarrow> string \<Rightarrow> int \<Rightarrow> nat \<Rightarrow> chunk \<Rightarrow> int \<Rightarrow> int \<Rightarrow> downloader \<Rightarrow> downloader go" where
  "check_and_spread cfg p contentRange contentLength i c retry over D =
     (if chId c = 0 \<and> \<not> checkTotalBytes p contentRange contentLength then Some (fail i D)
      else map_option (set_worker i (Copying c retry over 0)) (sendChunkTask cfg p True D))"

text \<open>The next bytes of the body arrive and are written into the buffer.\<close>

definition copy_bytes :: "string \<Rightarrow> nat \<Rightarrow> chunk \<Rightarrow> int \<Rightarrow> int \<Rightarrow> int \<Rightarrow> downloader \<Rightarrow> downloader" where
  "copy_bytes bs i c retry over n D =
     (case Buf_Write (canceled D) bs (bufs D ! chBuf c) of
        None \<Rightarrow> D
      | Some b \<Rightarrow> set_worker i (Copying c retry over (n + int (length bs))) (D\<lparr>bufs := (bufs D)[chBuf c := b]\<rparr>))"

text \<open>The body ends, or breaks off, after \<open>n\<close> bytes.\<close>

definition end_copy :: "Downloader \<Rightarrow> nat \<Rightarrow> chunk \<Rightarrow> int \<Rightarrow> int \<Rightarrow> int \<Rightarrow> downloader \<Rightarrow> downloader" where
  "end_copy cfg i c retry over n D =
     (if n = chSize c then (set_worker i Idle D)\<lparr>written := written D + n\<rparr>
      else if dlFailed D then set_worker i Idle D
      else if canceled D then fail i D
      else let D = D\<lparr>written := written D + n\<rparr>
           in if retry + 1 > PartBodyMaxRetries cfg then fail i D
              else set_worker i (Trying (c\<lparr>chStart := chStart c + n, chSize := chSize c - n\<rparr>) (retry + 1) over) D)"

section \<open>The reader\<close>

definition finishBuf :: "Downloader \<Rightarrow> HttpRequestParams \<Rightarrow> downloader \<Rightarrow> downloader go" where
  "finishBuf cfg p D =
     (let i = rPos D + 1
      in if int i \<ge> maxPart D then Some (D\<lparr>atEnd := True\<rparr>)
         else map_option (\<lambda>D. D\<lparr>readingID := i, curBuf := getBuf i D, rPos := i\<rparr>) (sendChunkTask cfg p False D))"

definition MultiReadCloser_Read :: "Downloader \<Rightarrow> HttpRequestParams \<Rightarrow> nat \<Rightarrow> downloader \<Rightarrow> downloader go" where
  "MultiReadCloser_Read cfg p n D =
     (case Buf_Read (canceled D) n (bufs D ! curBuf D) of
        (b, GotBytes got) \<Rightarrow> Some (D\<lparr>bufs := (bufs D)[curBuf D := b], readBytes := readBytes D @ got\<rparr>)
      | (b, ReadEOF) \<Rightarrow> finishBuf cfg p D
      | (b, _) \<Rightarrow> Some D)"

text \<open>\<^verbatim>\<open>interrupt\<close> cancels first, and then, not under the mutex, closes the channel and the buffers.\<close>

definition interrupt_cancel :: "HttpRequestParams \<Rightarrow> downloader \<Rightarrow> downloader" where
  "interrupt_cancel p D = D\<lparr>dlFailed := dlFailed D \<or> written D \<noteq> Length (ReqRange p), canceled := True, closing := True\<rparr>"

definition interrupt_close :: "downloader \<Rightarrow> downloader" where
  "interrupt_close D =
     D\<lparr>chanClosed := True, bufs := map Buf_Close (bufs D),
       concurrency := (if concurrency D > 0 then - concurrency D else concurrency D)\<rparr>"

section \<open>Steps\<close>

text \<open>
  A goroutine with its number moves on; the reader reads or closes; the context of the request ends, or other downloads
  change the limit.  The bytes of a body are those of the file that the request asked for, as many as arrive; a body
  that has all of them ends without an error.
\<close>

datatype dl_event =
    Work nat
  | Answer nat answer
  | Header nat string int
  | Body nat nat
  | BodyEnds nat
  | ReadInto nat
  | CancelReader
  | CloseReader
  | ContextEnds
  | LimitBecomes int

definition file_slice :: "string \<Rightarrow> int \<Rightarrow> int \<Rightarrow> string" where
  "file_slice F a n = take (nat n) (drop (nat a) F)"

definition worker_at :: "nat \<Rightarrow> downloader \<Rightarrow> worker" where
  "worker_at i D = (if i < length (workers D) then workers D ! i else Gone)"

fun dl_exec :: "Downloader \<Rightarrow> HttpRequestParams \<Rightarrow> string \<Rightarrow> dl_event \<Rightarrow> downloader \<Rightarrow> downloader go" where
  "dl_exec cfg p F (Work i) D =
     (case worker_at i D of
        Idle \<Rightarrow> Some (take_chunk i D)
      | Trying c retry over \<Rightarrow> Some (if dlFailed D then set_worker i Idle D else D)
      | _ \<Rightarrow> Some D)"
| "dl_exec cfg p F (Answer i a) D =
     (case worker_at i D of Trying c retry over \<Rightarrow> try_chunk cfg a i c retry over D | _ \<Rightarrow> Some D)"
| "dl_exec cfg p F (Header i cr len) D =
     (case worker_at i D of Connected c retry over \<Rightarrow> check_and_spread cfg p cr len i c retry over D | _ \<Rightarrow> Some D)"
| "dl_exec cfg p F (Body i k) D =
     (case worker_at i D of
        Copying c retry over n \<Rightarrow> Some (copy_bytes (file_slice F (chStart c + n) (min (int k) (chSize c - n))) i c retry over n D)
      | _ \<Rightarrow> Some D)"
| "dl_exec cfg p F (BodyEnds i) D =
     (case worker_at i D of Copying c retry over n \<Rightarrow> Some (end_copy cfg i c retry over n D) | _ \<Rightarrow> Some D)"
| "dl_exec cfg p F (ReadInto n) D = (if atEnd D \<or> closing D then Some D else MultiReadCloser_Read cfg p n D)"
| "dl_exec cfg p F CancelReader D = Some (if closing D then D else interrupt_cancel p D)"
| "dl_exec cfg p F CloseReader D = Some (if closing D \<and> \<not> chanClosed D then interrupt_close D else D)"
| "dl_exec cfg p F ContextEnds D = Some (D\<lparr>canceled := True\<rparr>)"
| "dl_exec cfg p F (LimitBecomes n) D = Some (D\<lparr>limit := map_option (\<lambda>_. n) (limit D)\<rparr>)"

inductive dl_reached :: "Downloader \<Rightarrow> HttpRequestParams \<Rightarrow> string \<Rightarrow> downloader \<Rightarrow> downloader \<Rightarrow> bool"
  for cfg p F D0 where
  dl_start: "dl_reached cfg p F D0 D0"
| dl_next: "\<lbrakk>dl_reached cfg p F D0 D; dl_exec cfg p F ev D = Some D'\<rbrakk> \<Longrightarrow> dl_reached cfg p F D0 D'"

end
