(* ===== verification/NetServe.thy ===== *)
theory NetServe
  imports Downloader PathUtil
begin

text \<open>
  Serving the content of a file over HTTP, \<^verbatim>\<open>internal/net/util.go\<close> and \<^verbatim>\<open>serve.go\<close>: entity tags, the preconditions of a
  request, single and multiple ranges, and the tag of a file (\<^verbatim>\<open>server/common/proxy.go\<close>).  Times are nanoseconds since
  1970; the parser and printer of HTTP dates, the table of media types and the random boundaries of multipart bodies
  are arguments, as is the reader of a range of the content.
\<close>

section \<open>Headers and answers\<close>

definition Header_Get :: "header \<Rightarrow> string \<Rightarrow> string" where
  "Header_Get h k = (case h k of Some (v # vs) \<Rightarrow> v | _ \<Rightarrow> [])"

definition Header_Set :: "string \<Rightarrow> string \<Rightarrow> header \<Rightarrow> header" where
  "Header_Set k v h = h(k \<mapsto> [v])"

definition Header_Del :: "string \<Rightarrow> header \<Rightarrow> header" where
  "Header_Del k h = h(k := None)"

record http_request =
  httpMethod :: string
  reqHeader :: header

text \<open>The answer: its headers, the status once it is written, and the body.\<close>

record response =
  respHeader :: header
  respCode :: "int option"
  respBody :: string

definition set_header :: "string \<Rightarrow> string \<Rightarrow> response \<Rightarrow> response" where
  "set_header k v w = w\<lparr>respHeader := Header_Set k v (respHeader w)\<rparr>"

definition del_header :: "string \<Rightarrow> response \<Rightarrow> response" where
  "del_header k w = w\<lparr>respHeader := Header_Del k (respHeader w)\<rparr>"

definition WriteHeader :: "int \<Rightarrow> response \<Rightarrow> response" where
  "WriteHeader code w = (if respCode w = None then w\<lparr>respCode := Some code\<rparr> else w)"

definition http_Error :: "string \<Rightarrow> int \<Rightarrow> response \<Rightarrow> response" where
  "http_Error msg code w =
     (let w = del_header ''Content-Length'' w;
          w = set_header ''Content-Type'' ''text/plain; charset=utf-8'' w;
          w = set_header ''X-Content-Type-Options'' ''nosniff'' w;
          w = WriteHeader code w
      in w\<lparr>respBody := respBody w @ msg @ [CHR 10]\<rparr>)"

text \<open>What is taken from the standard library.\<close>

record http_lib =
  ParseTime :: "string \<Rightarrow> int option"
  FormatTime :: "int \<Rightarrow> string"
  TypeByExtension :: "string \<Rightarrow> string"

section \<open>Entity tags\<close>

definition dquote :: char where
  "dquote = CHR 34"

definition etag_char :: "char \<Rightarrow> bool" where
  "etag_char c = (let n = (of_char c :: nat) in n = 33 \<or> (35 \<le> n \<and> n \<le> 126) \<or> 128 \<le> n)"

text \<open>The position of the closing quote.\<close>

fun etag_end :: "string \<Rightarrow> nat option" where
  "etag_end [] = None"
| "etag_end (c # s) = (if etag_char c then map_option Suc (etag_end s) else if c = dquote then Some 0 else None)"

definition scanETag :: "string \<Rightarrow> string \<times> string" where
  "scanETag s0 =
     (let s = TrimString s0;
          start = (if HasPrefix s ''W/'' then 2 else 0)
      in if length (drop start s) < 2 \<or> s ! start \<noteq> dquote then ([], [])
         else case etag_end (drop (start + 1) s) of
                None \<Rightarrow> ([], [])
              | Some i \<Rightarrow> (take (start + i + 2) s, drop (start + i + 2) s))"

definition etagStrongMatch :: "string \<Rightarrow> string \<Rightarrow> bool" where
  "etagStrongMatch a b \<longleftrightarrow> a = b \<and> a \<noteq> [] \<and> hd a = dquote"

definition etagWeakMatch :: "string \<Rightarrow> string \<Rightarrow> bool" where
  "etagWeakMatch a b \<longleftrightarrow> TrimPrefix a ''W/'' = TrimPrefix b ''W/''"

section \<open>Preconditions\<close>

datatype condResult = condNone | condTrue | condFalse

text \<open>
  The loop over a list of tags in \<^verbatim>\<open>checkIfMatch\<close> and \<^verbatim>\<open>checkIfNoneMatch\<close>: is there a star or a tag that matches?
\<close>

lemma scanETag_shorter: "fst (scanETag s) \<noteq> [] \<Longrightarrow> length (snd (scanETag s)) < length s"
proof -
  have "length (trim_by P x) \<le> length x" for P x
    unfolding trim_by_def by (metis length_dropWhile_le length_rev order_trans)
  then have "length (TrimString s) \<le> length s" by (simp add: TrimString_def)
  then show "fst (scanETag s) \<noteq> [] \<Longrightarrow> length (snd (scanETag s)) < length s"
    by (auto simp: scanETag_def Let_def split: if_splits option.splits)
qed

lemma trim_shorter: "length (TrimString s) \<le> length s"
  unfolding TrimString_def trim_by_def by (metis length_dropWhile_le length_rev order_trans)

function etags_match :: "(string \<Rightarrow> bool) \<Rightarrow> string \<Rightarrow> bool" where
  "etags_match matches s0 =
     (case TrimString s0 of
        [] \<Rightarrow> False
      | c # s \<Rightarrow>
          if c = CHR '','' then etags_match matches s
          else if c = CHR ''*'' then True
          else let (etag, remain) = scanETag (c # s)
               in if etag = [] then False else if matches etag then True else etags_match matches remain)"
  by pat_completeness auto
termination
proof (relation "measure (\<lambda>(_, s). length s)")
  fix matches and s0 s :: string and c :: char
  assume t: "TrimString s0 = c # s"
  have le: "length (TrimString s0) \<le> length s0" by (rule trim_shorter)
  with t show "((matches, s), (matches, s0)) \<in> measure (\<lambda>(_, s). length s)" by simp
  fix p etag remain
  assume "p = scanETag (c # s)" "(etag, remain) = p" "etag \<noteq> []"
  then have "length remain < length (c # s)" using scanETag_shorter [of "c # s"] by (metis fst_conv snd_conv)
  with t le show "((matches, remain), (matches, s0)) \<in> measure (\<lambda>(_, s). length s)" by simp
qed simp

definition checkIfMatch :: "response \<Rightarrow> http_request \<Rightarrow> http_request \<times> condResult" where
  "checkIfMatch w r =
     (let im = Header_Get (reqHeader r) ''If-Match''
      in if im = [] then (r, condNone)
         else (r\<lparr>reqHeader := Header_Del ''If-Match'' (reqHeader r)\<rparr>,
               if etags_match (\<lambda>etag. etagStrongMatch etag (Header_Get (respHeader w) ''Etag'')) im then condTrue else condFalse))"

text \<open>The zero time of Go is the start of year 1.\<close>

definition zeroTime :: int where
  "zeroTime = -62135596800 * 10 ^ 9"

definition isZeroTime :: "int \<Rightarrow> bool" where
  "isZeroTime t \<longleftrightarrow> t = zeroTime \<or> t = 0"

definition Unix :: "int \<Rightarrow> int" where
  "Unix t = t div 10 ^ 9"

definition truncate_second :: "int \<Rightarrow> int" where
  "truncate_second t = t div 10 ^ 9 * 10 ^ 9"

definition checkIfUnmodifiedSince :: "http_lib \<Rightarrow> http_request \<Rightarrow> int \<Rightarrow> http_request \<times> condResult" where
  "checkIfUnmodifiedSince L r modtime =
     (let ius = Header_Get (reqHeader r) ''If-Unmodified-Since''
      in if ius = [] then (r, condNone)
         else let r = r\<lparr>reqHeader := Header_Del ''If-Unmodified-Since'' (reqHeader r)\<rparr>
              in if isZeroTime modtime then (r, condNone)
                 else case ParseTime L ius of
                        None \<Rightarrow> (r, condNone)
                      | Some t \<Rightarrow> (r, if truncate_second modtime \<le> t then condTrue else condFalse))"

definition checkIfNoneMatch :: "response \<Rightarrow> http_request \<Rightarrow> http_request \<times> condResult" where
  "checkIfNoneMatch w r =
     (let inm = Header_Get (reqHeader r) ''If-None-Match''
      in if inm = [] then (r, condNone)
         else (r\<lparr>reqHeader := Header_Del ''If-None-Match'' (reqHeader r)\<rparr>,
               if etags_match (\<lambda>etag. etagWeakMatch etag (Header_Get (respHeader w) ''Etag'')) inm then condFalse else condTrue))"

definition is_read_method :: "http_request \<Rightarrow> bool" where
  "is_read_method r \<longleftrightarrow> httpMethod r = ''GET'' \<or> httpMethod r = ''HEAD''"

definition checkIfModifiedSince :: "http_lib \<Rightarrow> http_request \<Rightarrow> int \<Rightarrow> http_request \<times> condResult" where
  "checkIfModifiedSince L r modtime =
     (if \<not> is_read_method r then (r, condNone)
      else let ims = Header_Get (reqHeader r) ''If-Modified-Since''
      in if ims = [] then (r, condNone)
         else let r = r\<lparr>reqHeader := Header_Del ''If-Modified-Since'' (reqHeader r)\<rparr>
              in if isZeroTime modtime then (r, condNone)
                 else case ParseTime L ims of
                        None \<Rightarrow> (r, condNone)
                      | Some t \<Rightarrow> (r, if truncate_second modtime \<le> t then condFalse else condTrue))"

definition checkIfRange :: "http_lib \<Rightarrow> response \<Rightarrow> http_request \<Rightarrow> int \<Rightarrow> http_request \<times> condResult" where
  "checkIfRange L w r modtime =
     (if \<not> is_read_method r then (r, condNone)
      else let ir = Header_Get (reqHeader r) ''If-Range''
      in if ir = [] then (r, condNone)
         else let r = r\<lparr>reqHeader := Header_Del ''If-Range'' (reqHeader r)\<rparr>;
                  etag = fst (scanETag ir)
              in if etag \<noteq> [] then (r, if etagStrongMatch etag (Header_Get (respHeader w) ''Etag'') then condTrue else condFalse)
                 else if modtime = zeroTime then (r, condFalse)
                 else case ParseTime L ir of
                        None \<Rightarrow> (r, condFalse)
                      | Some t \<Rightarrow> (r, if Unix t = Unix modtime then condTrue else condFalse))"

definition setLastModified :: "http_lib \<Rightarrow> int \<Rightarrow> response \<Rightarrow> response" where
  "setLastModified L modtime w = (if isZeroTime modtime then w else set_header ''Last-Modified'' (FormatTime L modtime) w)"

definition writeNotModified :: "response \<Rightarrow> response" where
  "writeNotModified w =
     (let w = del_header ''Content-Type'' w;
          w = del_header ''Content-Length'' w;
          w = del_header ''Content-Encoding'' w;
          w = (if Header_Get (respHeader w) ''Etag'' \<noteq> [] then del_header ''Last-Modified'' w else w)
      in WriteHeader 304 w)"

text \<open>Is the answer done, and else the \<^verbatim>\<open>Range\<close> header to obey; the request loses the headers that were looked at.\<close>

definition checkPreconditions :: "http_lib \<Rightarrow> response \<Rightarrow> http_request \<Rightarrow> int \<Rightarrow> response \<times> http_request \<times> bool \<times> string" where
  "checkPreconditions L w r modtime =
     (let (r, ch) = checkIfMatch w r;
          (r, ch) = (if ch = condNone then checkIfUnmodifiedSince L r modtime else (r, ch))
      in if ch = condFalse then (WriteHeader 412 w, r, True, [])
         else let (r, nm) = checkIfNoneMatch w r
              in if nm = condFalse then
                   (if is_read_method r then (writeNotModified w, r, True, []) else (WriteHeader 412 w, r, True, []))
                 else let (r, ms) = (if nm = condNone then checkIfModifiedSince L r modtime else (r, condNone))
                      in if ms = condFalse then (writeNotModified w, r, True, [])
                         else let rangeHeader = Header_Get (reqHeader r) ''Range'';
                                  (r, ir) = (if rangeHeader \<noteq> [] then checkIfRange L w r modtime else (r, condNone))
                              in (w, r, False, if ir = condFalse then [] else rangeHeader))"

section \<open>Ranges\<close>

definition sumRangesSize :: "Range list \<Rightarrow> int" where
  "sumRangesSize ranges = foldl (\<lambda>n ra. wrap64 (n + Length ra)) 0 ranges"

definition CRLF :: string where
  "CRLF = [CHR 13, CHR 10]"

text \<open>\<^verbatim>\<open>multipart.Writer\<close>: \<^verbatim>\<open>CreatePart\<close> with the header of a range, whose two keys are sorted; \<^verbatim>\<open>Close\<close>.\<close>

definition header_lines :: "header \<Rightarrow> string list \<Rightarrow> string" where
  "header_lines h ks = concat (map (\<lambda>k. concat (map (\<lambda>v. k @ '': '' @ v @ CRLF) (case h k of None \<Rightarrow> [] | Some vs \<Rightarrow> vs))) ks)"

definition CreatePart :: "string \<Rightarrow> bool \<Rightarrow> header \<Rightarrow> string" where
  "CreatePart boundary isFirst h =
     (if isFirst then [] else CRLF) @ ''--'' @ boundary @ CRLF @ header_lines h [''Content-Range'', ''Content-Type''] @ CRLF"

definition multipart_Close :: "string \<Rightarrow> string" where
  "multipart_Close boundary = CRLF @ ''--'' @ boundary @ ''--'' @ CRLF"

fun ranges_overhead :: "string \<Rightarrow> string \<Rightarrow> int \<Rightarrow> bool \<Rightarrow> Range list \<Rightarrow> string" where
  "ranges_overhead boundary ct sz isFirst [] = multipart_Close boundary"
| "ranges_overhead boundary ct sz isFirst (ra # ras) =
     CreatePart boundary isFirst (MimeHeader ra ct sz) @ ranges_overhead boundary ct sz False ras"

definition rangesMIMESize :: "string \<Rightarrow> Range list \<Rightarrow> string \<Rightarrow> int \<Rightarrow> int" where
  "rangesMIMESize boundary ranges ct sz =
     wrap64 (foldl (\<lambda>n ra. wrap64 (n + Length ra)) 0 ranges + int (length (ranges_overhead boundary ct sz True ranges)))"

datatype read_err = ReadExceedMaxConcurrency | ReadFailed string

text \<open>A reader of a range: the content it gives, an error, or \<^const>\<open>None\<close> for a panic.\<close>

type_synonym range_reader = "Range \<Rightarrow> (read_err + string) go"

text \<open>The goroutine that writes the parts; it stops at the first error.  The flag tells whether all was written.\<close>

fun send_parts :: "range_reader \<Rightarrow> string \<Rightarrow> string \<Rightarrow> int \<Rightarrow> bool \<Rightarrow> Range list \<Rightarrow> (string \<times> bool) go" where
  "send_parts rr boundary ct sz isFirst [] = Some (multipart_Close boundary, True)"
| "send_parts rr boundary ct sz isFirst (ra # ras) =
     (let h = CreatePart boundary isFirst (MimeHeader ra ct sz)
      in case rr ra of
           None \<Rightarrow> panic
         | Some (Inl e) \<Rightarrow> Some (h, False)
         | Some (Inr content) \<Rightarrow>
             let got = take (nat (Length ra)) content
             in if int (length got) < Length ra then Some (h @ got, False)
                else case send_parts rr boundary ct sz False ras of
                       None \<Rightarrow> panic
                     | Some (rest, ok) \<Rightarrow> Some (h @ got @ rest, ok))"

section \<open>Serving\<close>

definition read_err_code :: "read_err \<Rightarrow> int" where
  "read_err_code e = (case e of ReadExceedMaxConcurrency \<Rightarrow> 429 | ReadFailed _ \<Rightarrow> 416)"

definition read_err_msg :: "read_err \<Rightarrow> string" where
  "read_err_msg e = (case e of ReadExceedMaxConcurrency \<Rightarrow> ''ExceedMaxConcurrency'' | ReadFailed m \<Rightarrow> m)"

text \<open>The content that is sent, its size, the status and whether it is whole; or the answer when it fails.\<close>

datatype sending = Answered response | Sending response string int int

definition open_content :: "string \<Rightarrow> string \<Rightarrow> range_reader \<Rightarrow> string \<Rightarrow> int \<Rightarrow> Range list \<Rightarrow> response \<Rightarrow> sending go" where
  "open_content boundary1 boundary2 rr ct sz ranges w =
     (case ranges of
        [] \<Rightarrow> (case rr \<lparr>Start = 0, Length = -1\<rparr> of
                 None \<Rightarrow> panic
               | Some (Inl e) \<Rightarrow> Some (Answered (http_Error (read_err_msg e) (read_err_code e) w))
               | Some (Inr content) \<Rightarrow> Some (Sending w content sz 200))
      | [ra] \<Rightarrow> (case rr ra of
                   None \<Rightarrow> panic
                 | Some (Inl e) \<Rightarrow> Some (Answered (http_Error (read_err_msg e) (read_err_code e) w))
                 | Some (Inr content) \<Rightarrow> Some (Sending (set_header ''Content-Range'' (ContentRange ra sz) w) content (Length ra) 206))
      | _ \<Rightarrow> (case send_parts rr boundary2 ct sz True ranges of
                None \<Rightarrow> panic
              | Some (content, ok) \<Rightarrow>
                  Some (Sending (set_header ''Content-Type'' (''multipart/byteranges; boundary='' @ boundary2) w) content
                         (rangesMIMESize boundary1 ranges ct sz) 206)))"

definition content_type :: "http_lib \<Rightarrow> string \<Rightarrow> response \<Rightarrow> response \<times> string" where
  "content_type L name w =
     (case respHeader w ''Content-Type'' of
        None \<Rightarrow> let ct = TypeByExtension L (path_Ext name); ct = (if ct = [] then ''application/octet-stream'' else ct)
                in (set_header ''Content-Type'' ct w, ct)
      | Some cts \<Rightarrow> (w, case cts of [] \<Rightarrow> [] | ct # _ \<Rightarrow> ct))"

definition range_err_msg :: "range_err \<Rightarrow> string" where
  "range_err_msg e = (case e of ErrNoOverlap \<Rightarrow> ''invalid range: failed to overlap'' | ErrInvalid \<Rightarrow> ''invalid range'')"

text \<open>The answer, and whether an error is returned.\<close>

definition finish_answer :: "http_request \<Rightarrow> string \<Rightarrow> int \<Rightarrow> int \<Rightarrow> response \<Rightarrow> response \<times> bool" where
  "finish_answer r content sendSize code w =
     (let w = set_header ''Accept-Ranges'' ''bytes'' w;
          w = (if Header_Get (respHeader w) ''Content-Encoding'' = [] then set_header ''Content-Length'' (FormatInt sendSize) w else w);
          w = WriteHeader code w
      in if httpMethod r = ''HEAD'' then (w, False)
         else let got = take (nat sendSize) content;
                  w = w\<lparr>respBody := respBody w @ got\<rparr>
              in if int (length got) \<noteq> sendSize then (WriteHeader 500 w, True) else (w, False))"

definition ServeHTTP :: "http_lib \<Rightarrow> string \<Rightarrow> string \<Rightarrow> response \<Rightarrow> http_request \<Rightarrow> string \<Rightarrow> int \<Rightarrow> int \<Rightarrow> range_reader \<Rightarrow> (response \<times> bool) go" where
  "ServeHTTP L boundary1 boundary2 w r name modTime sz rr =
     (let w = setLastModified L modTime w;
          (w, r, finished, rangeReq) = checkPreconditions L w r modTime
      in if finished then Some (w, False)
         else if sz < 0 then Some (http_Error ''negative content size not supported'' 500 w, False)
         else let (w, ct) = content_type L name w;
                  serve = (\<lambda>ranges.
                    let ranges = (if sumRangesSize ranges > sz then [] else ranges)
                    in case open_content boundary1 boundary2 rr ct sz ranges w of
                         None \<Rightarrow> panic
                       | Some (Answered w) \<Rightarrow> Some (w, False)
                       | Some (Sending w content sendSize code) \<Rightarrow> Some (finish_answer r content sendSize code w))
              in case ParseRange rangeReq sz of
                   Inr ranges \<Rightarrow> serve ranges
                 | Inl ErrNoOverlap \<Rightarrow>
                     if sz = 0 then serve []
                     else Some (http_Error (range_err_msg ErrNoOverlap) 416 (set_header ''Content-Range'' (''bytes */'' @ FormatInt sz) w), False)
                 | Inl ErrInvalid \<Rightarrow> Some (http_Error (range_err_msg ErrInvalid) 416 w, False))"

section \<open>Headers for the remote server\<close>

definition ProcessHeader :: "string list \<Rightarrow> header \<Rightarrow> header \<Rightarrow> header" where
  "ProcessHeader ignored origin override =
     (\<lambda>h. if ToLower h \<in> set ignored then None else origin h) ++ override"

section \<open>The tag of a file\<close>

fun bytes_greater :: "string \<Rightarrow> string \<Rightarrow> bool" where
  "bytes_greater [] _ = False"
| "bytes_greater (x # xs) [] = True"
| "bytes_greater (x # xs) (y # ys) = (if x = y then bytes_greater xs ys else (of_char y :: nat) < of_char x)"

definition hex_char :: "nat \<Rightarrow> char" where
  "hex_char d = (if d < 10 then char_of (48 + d) else char_of (87 + d))"

fun hex_nat :: "nat \<Rightarrow> string" where
  "hex_nat n = (if n < 16 then [hex_char n] else hex_nat (n div 16) @ [hex_char (n mod 16)])"

definition hex_int :: "int \<Rightarrow> string" where
  "hex_int n = (if n < 0 then CHR ''-'' # hex_nat (nat (- n)) else hex_nat (nat n))"

text \<open>The hashes come in the order of a map; the greatest is taken.\<close>

definition GetEtag :: "string list \<Rightarrow> int \<Rightarrow> int \<Rightarrow> string" where
  "GetEtag hashes modTime sz =
     (let hash = foldl (\<lambda>h v. if bytes_greater v h then v else h) [] hashes
      in if length hash > 0 then [dquote] @ hash @ [dquote]
         else [dquote] @ hex_int (Unix modTime) @ ''-'' @ hex_int sz @ [dquote])"

section \<open>Cutting a content that does not know ranges\<close>

record LimitedReadCloser =
  lrcRest :: string
  lrcRemaining :: int

text \<open>One read: the reader below gives \<open>k\<close> bytes at most; \<^const>\<open>None\<close> is the end.\<close>

definition LimitedReadCloser_Read :: "nat \<Rightarrow> nat \<Rightarrow> LimitedReadCloser \<Rightarrow> LimitedReadCloser \<times> string option" where
  "LimitedReadCloser_Read buf k l =
     (if lrcRemaining l \<le> 0 then (l, None)
      else let n = (if int buf > lrcRemaining l then nat (lrcRemaining l) else buf)
           in if lrcRest l = [] \<and> n > 0 then (l, None)
              else let got = take (min n k) (lrcRest l)
                   in (\<lparr>lrcRest = drop (length got) (lrcRest l), lrcRemaining = lrcRemaining l - int (length got)\<rparr>, Some got))"

definition GetRangedHttpReader :: "string \<Rightarrow> int \<Rightarrow> int \<Rightarrow> LimitedReadCloser option" where
  "GetRangedHttpReader content offset len =
     (if len > 2 ^ 63 - 1 then None else Some \<lparr>lrcRest = drop (nat offset) content, lrcRemaining = len\<rparr>)"

section \<open>The proxy over the downloader\<close>

text \<open>
  The reader that \<^verbatim>\<open>Proxy\<close> makes for a link with a concurrency or a size of parts: it starts the downloader in chunks.  What comes out
  of a single request, and of a download that was started, is given from outside.
\<close>

definition proxy_reader ::
  "Downloader \<Rightarrow> int \<Rightarrow> int option \<Rightarrow> (HttpRequestParams \<Rightarrow> read_err + string) \<Rightarrow> (Downloader \<Rightarrow> HttpRequestParams \<Rightarrow> downloader \<Rightarrow> read_err + string) \<Rightarrow> range_reader" where
  "proxy_reader cfg sz l single chunked ra =
     (let (cfg, p) = Download cfg \<lparr>ReqRange = ra, ReqSize = sz\<rparr>
      in case snd (download cfg p l) of
           None \<Rightarrow> panic
         | Some ExceedMaxConcurrency \<Rightarrow> Some (Inl ReadExceedMaxConcurrency)
         | Some OneRequest \<Rightarrow> Some (single p)
         | Some (Started cfg D) \<Rightarrow> Some (chunked cfg p D))"

section \<open>The reader of a link\<close>

text \<open>\<^verbatim>\<open>internal/stream/util.go\<close>: what a remote server answers to a request with given headers is an argument.\<close>

record remote_response =
  rmStatus :: int
  rmHeader :: header
  rmBody :: string

text \<open>The number that \<^verbatim>\<open>strconv.ParseInt\<close> returns beside its error: zero, or the nearest 64-bit number.\<close>

definition ParseInt_value :: "string \<Rightarrow> int" where
  "ParseInt_value s =
     (case ParseInt s of
        Some n \<Rightarrow> n
      | None \<Rightarrow>
          let neg = (s \<noteq> [] \<and> hd s = CHR ''-''); digits = (if s \<noteq> [] \<and> (hd s = CHR ''-'' \<or> hd s = CHR ''+'') then tl s else s)
          in case parse_digits digits of None \<Rightarrow> 0 | Some _ \<Rightarrow> if neg then - (2 ^ 63) else 2 ^ 63 - 1)"

text \<open>The first result of \<^verbatim>\<open>ParseContentRange\<close>, which \<^verbatim>\<open>checkContentRange\<close> uses even when there is an error.\<close>

definition ContentRange_start :: "string \<Rightarrow> int go" where
  "ContentRange_start s =
     (if s = [] \<or> \<not> HasPrefix s ''bytes '' then Some 0
      else case (Index s ''-'', Index s ''/'') of
             (Some p1, Some p2) \<Rightarrow>
               do {
                 startStr \<leftarrow> go_slice s 6 p1;
                 endStr \<leftarrow> go_slice s (Suc p1) p2;
                 Some (ParseInt_value (TrimString startStr))
               }
           | _ \<Rightarrow> Some 0)"

definition checkContentRange :: "header \<Rightarrow> int \<Rightarrow> bool go" where
  "checkContentRange h offset = map_option (\<lambda>start. start = offset) (ContentRange_start (Header_Get h ''Content-Range''))"

definition RequestHttp :: "(header \<Rightarrow> string + remote_response) \<Rightarrow> header \<Rightarrow> string + remote_response" where
  "RequestHttp remote h =
     (case remote h of
        Inl e \<Rightarrow> Inl e
      | Inr res \<Rightarrow> if rmStatus res \<ge> 400 then Inl ''http request failure'' else Inr (res\<lparr>rmHeader := Header_Del ''Set-Cookie'' (rmHeader res)\<rparr>))"

definition RequestRangedHttp :: "(header \<Rightarrow> string + remote_response) \<Rightarrow> string list \<Rightarrow> header \<Rightarrow> int \<Rightarrow> int \<Rightarrow> string + remote_response" where
  "RequestRangedHttp remote ignored linkHeader offset len =
     RequestHttp remote (ApplyRangeToHttpHeader \<lparr>Start = offset, Length = len\<rparr> (Some (ProcessHeader ignored Map.empty linkHeader)))"

text \<open>All that can be read.\<close>

definition limited_content :: "LimitedReadCloser \<Rightarrow> string" where
  "limited_content l = (if lrcRemaining l \<le> 0 then [] else take (nat (lrcRemaining l)) (lrcRest l))"

definition link_reader :: "(header \<Rightarrow> string + remote_response) \<Rightarrow> string list \<Rightarrow> header \<Rightarrow> int \<Rightarrow> range_reader" where
  "link_reader remote ignored linkHeader sz r =
     (case RequestRangedHttp remote ignored linkHeader (Start r) (Length r) of
        Inl e \<Rightarrow> Some (Inl (ReadFailed e))
      | Inr res \<Rightarrow>
          if (Start r = 0 \<and> (Length r = -1 \<or> Length r = sz)) \<or> rmStatus res = 206 then Some (Inr (rmBody res))
          else case checkContentRange (rmHeader res) (Start r) of
                 None \<Rightarrow> panic
               | Some True \<Rightarrow> Some (Inr (rmBody res))
               | Some False \<Rightarrow>
                   if rmStatus res = 200 then
                     (case GetRangedHttpReader (rmBody res) (Start r) (Length r) of
                        None \<Rightarrow> Some (Inl (ReadFailed ''doesnot support length bigger than int32 max ''))
                      | Some l \<Rightarrow> Some (Inr (limited_content l)))
                   else Some (Inr (rmBody res)))"

definition GetRangeReadCloserFromLink ::
  "string \<Rightarrow> Downloader \<Rightarrow> int option \<Rightarrow> (HttpRequestParams \<Rightarrow> read_err + string) \<Rightarrow> (Downloader \<Rightarrow> HttpRequestParams \<Rightarrow> downloader \<Rightarrow> read_err + string)
    \<Rightarrow> (header \<Rightarrow> string + remote_response) \<Rightarrow> string list \<Rightarrow> header \<Rightarrow> int \<Rightarrow> string + range_reader" where
  "GetRangeReadCloserFromLink url cfg l single chunked remote ignored linkHeader sz =
     (if url = [] then Inl ''can't create RangeReadCloser since URL is empty in link''
      else Inr (if Concurrency cfg \<noteq> 0 \<or> PartSize cfg \<noteq> 0 then proxy_reader cfg sz l single chunked else link_reader remote ignored linkHeader sz))"

end
