(* ===== verification/DownloadInv.thy ===== *)
theory DownloadInv
  imports Downloader "HOL-Library.Multiset"
begin

text \<open>
  The invariant of the downloader in chunks: the chunks cut the range without gaps, every chunk that is not yet
  read has a buffer of its own in the ring, a buffer holds the bytes of its chunk in order, and every unfinished chunk is
  in the hands of one goroutine or in the channel.
\<close>

section \<open>The chunks cut the range\<close>

definition csize :: "Downloader \<Rightarrow> HttpRequestParams \<Rightarrow> nat \<Rightarrow> int" where
  "csize cfg p i = chunk_size (Length (ReqRange p)) (PartSize cfg) i"

definition cstart :: "Downloader \<Rightarrow> HttpRequestParams \<Rightarrow> nat \<Rightarrow> int" where
  "cstart cfg p i = Start (ReqRange p) + (\<Sum>j<i. csize cfg p j)"

definition nparts :: "Downloader \<Rightarrow> HttpRequestParams \<Rightarrow> nat" where
  "nparts cfg p = nat (count_parts (Length (ReqRange p)) (PartSize cfg))"

text \<open>A request for a range of the file that is cut into two parts or more.\<close>

definition dl_ok :: "Downloader \<Rightarrow> HttpRequestParams \<Rightarrow> string \<Rightarrow> bool" where
  "dl_ok cfg p F \<longleftrightarrow> 0 < PartSize cfg \<and> 0 < Length (ReqRange p) \<and> 0 \<le> Start (ReqRange p)
     \<and> Start (ReqRange p) + Length (ReqRange p) \<le> int (length F) \<and> 2 \<le> Concurrency cfg \<and> Concurrency cfg \<le> int (nparts cfg p)"

lemma csize_bounds:
  assumes "0 < PartSize cfg"
  shows "0 < csize cfg p i" "csize cfg p i \<le> PartSize cfg"
proof -
  have "PartSize cfg div 2 < PartSize cfg" "0 \<le> PartSize cfg div 2" using assms by auto
  moreover have "Length (ReqRange p) mod PartSize cfg < PartSize cfg" "Length (ReqRange p) mod PartSize cfg \<le> PartSize cfg"
    using assms by (simp_all add: order.strict_implies_order)
  ultimately show "0 < csize cfg p i" "csize cfg p i \<le> PartSize cfg"
    using assms by (auto simp: csize_def chunk_size_def Let_def)
qed

lemma cstart_0 [simp]: "cstart cfg p 0 = Start (ReqRange p)"
  by (simp add: cstart_def)

lemma cstart_Suc: "cstart cfg p (Suc i) = cstart cfg p i + csize cfg p i"
  by (simp add: cstart_def)

lemma cstart_mono: "0 < PartSize cfg \<Longrightarrow> i < j \<Longrightarrow> cstart cfg p i < cstart cfg p j"
proof (induction j)
  case (Suc j)
  then show ?case using csize_bounds(1) [of cfg p j] by (cases "i = j") (auto simp: cstart_Suc less_Suc_eq)
qed simp

lemma cstart_mono_le: "0 < PartSize cfg \<Longrightarrow> i \<le> j \<Longrightarrow> cstart cfg p i \<le> cstart cfg p j"
  using cstart_mono [of cfg i j p] by (cases "i = j") auto

lemma chunks_sum:
  assumes "0 < PartSize cfg"
  shows "(\<Sum>j<i + 2. csize cfg p j)
    = PartSize cfg * (int i + 1) + (if Length (ReqRange p) mod PartSize cfg > 0 then Length (ReqRange p) mod PartSize cfg else PartSize cfg)"
proof (induction i)
  case 0
  have "(\<Sum>j<2. csize cfg p j) = csize cfg p 0 + csize cfg p 1" by (simp add: numeral_2_eq_2)
  then show ?case by (simp add: csize_def chunk_size_def Let_def)
next
  case (Suc i)
  have "(\<Sum>j<Suc i + 2. csize cfg p j) = (\<Sum>j<i + 2. csize cfg p j) + csize cfg p (i + 2)" by simp
  also have "csize cfg p (i + 2) = PartSize cfg" by (simp add: csize_def chunk_size_def Let_def)
  finally show ?case using Suc by (simp add: algebra_simps)
qed

lemma cstart_end:
  assumes "0 < PartSize cfg" "2 \<le> nparts cfg p"
  shows "cstart cfg p (nparts cfg p) = Start (ReqRange p) + Length (ReqRange p)"
proof -
  let ?L = "Length (ReqRange p)" and ?P = "PartSize cfg"
  obtain i where i: "nparts cfg p = i + 2" using assms(2) by (metis add.commute le_Suc_ex)
  then have n: "count_parts ?L ?P = int i + 2" by (simp add: nparts_def)
  have "?P * (?L div ?P) + ?L mod ?P = ?L" by simp
  moreover have "?L div ?P = (if ?L mod ?P > 0 then int i + 1 else int i + 2)" using n by (simp add: count_parts_def split: if_splits)
  moreover have "0 \<le> ?L mod ?P" using assms(1) by simp
  ultimately have "?P * (int i + 1) + (if ?L mod ?P > 0 then ?L mod ?P else ?P) = ?L"
    by (auto simp: algebra_simps split: if_splits)
  then show ?thesis using chunks_sum [OF assms(1), where i = i and p = p] by (simp add: cstart_def i)
qed

section \<open>Slices\<close>

lemma file_slice_append:
  assumes "0 \<le> a" "0 \<le> m" "0 \<le> n"
  shows "file_slice F a m @ file_slice F (a + m) n = file_slice F a (m + n)"
  using assms by (simp add: file_slice_def nat_add_distrib take_add add.commute)

lemma length_file_slice: "\<lbrakk>0 \<le> a; 0 \<le> n; a + n \<le> int (length F)\<rbrakk> \<Longrightarrow> length (file_slice F a n) = nat n"
  by (simp add: file_slice_def)

lemma take_file_slice: "\<lbrakk>0 \<le> n\<rbrakk> \<Longrightarrow> take k (file_slice F a n) = file_slice F a (min (int k) n)"
  by (simp add: file_slice_def min_def le_nat_iff)

lemma drop_file_slice: "\<lbrakk>0 \<le> a; int k \<le> n\<rbrakk> \<Longrightarrow> drop k (file_slice F a n) = file_slice F (a + int k) (n - int k)"
  by (simp add: file_slice_def drop_take nat_add_distrib nat_diff_distrib add.commute)

section \<open>The invariant\<close>

definition have_bytes :: "Buf \<Rightarrow> int" where
  "have_bytes b = bufOff b + int (length (buffer b))"

text \<open>The buffer of a chunk has the first bytes of the chunk, of which the reader has taken some.\<close>

definition buf_ok :: "Downloader \<Rightarrow> HttpRequestParams \<Rightarrow> string \<Rightarrow> nat \<Rightarrow> Buf \<Rightarrow> bool" where
  "buf_ok cfg p F i b \<longleftrightarrow> bufSize b = csize cfg p i \<and> 0 \<le> bufOff b \<and> have_bytes b \<le> csize cfg p i
     \<and> buffer b = file_slice F (cstart cfg p i + bufOff b) (int (length (buffer b)))"

text \<open>A task is a chunk and the number of its bytes that are copied.  The ring is the function from chunks to buffers.\<close>

definition task_ok :: "Downloader \<Rightarrow> HttpRequestParams \<Rightarrow> nat \<Rightarrow> nat \<Rightarrow> (nat \<Rightarrow> Buf) \<Rightarrow> (nat \<Rightarrow> nat) \<Rightarrow> chunk \<times> int \<Rightarrow> bool" where
  "task_ok cfg p rp nc f g x \<longleftrightarrow>
     (case x of (c, n) \<Rightarrow>
        0 \<le> n \<and> n < chSize c \<and> rp \<le> chId c \<and> chId c < nc \<and> chBuf c = g (chId c)
        \<and> chStart c + n = cstart cfg p (chId c) + have_bytes (f (chId c))
        \<and> chSize c - n = csize cfg p (chId c) - have_bytes (f (chId c)))"

fun pend :: "worker \<Rightarrow> (chunk \<times> int) multiset" where
  "pend (Trying c _ _) = {#(c, 0)#}"
| "pend (Connected c _ _) = {#(c, 0)#}"
| "pend (Copying c _ _ n) = (if n < chSize c then {#(c, n)#} else {#})"
| "pend _ = {#}"

definition pends :: "worker list \<Rightarrow> (chunk \<times> int) multiset" where
  "pends ws = sum_list (map pend ws)"

definition tasks :: "downloader \<Rightarrow> (chunk \<times> int) multiset" where
  "tasks D = mset (map (\<lambda>c. (c, 0)) (chunkChannel D)) + pends (workers D)"

definition task_ids :: "(chunk \<times> int) multiset \<Rightarrow> nat multiset" where
  "task_ids M = image_mset (\<lambda>x. chId (fst x)) M"

definition unique :: "nat multiset \<Rightarrow> bool" where
  "unique M \<longleftrightarrow> (\<forall>k. count M k \<le> 1)"

fun copying_ok :: "worker \<Rightarrow> bool" where
  "copying_ok (Copying c _ _ n) \<longleftrightarrow> n \<le> chSize c"
| "copying_ok _ \<longleftrightarrow> True"

definition place :: "downloader \<Rightarrow> nat \<Rightarrow> nat" where
  "place D i = i mod length (bufs D)"

definition ring :: "downloader \<Rightarrow> nat \<Rightarrow> Buf" where
  "ring D i = bufs D ! place D i"

text \<open>Positions and counts; the bytes; the tasks.\<close>

definition counts_inv :: "Downloader \<Rightarrow> HttpRequestParams \<Rightarrow> downloader \<Rightarrow> bool" where
  "counts_inv cfg p D \<longleftrightarrow>
     nextChunk D \<le> nparts cfg p \<and> rPos D < nextChunk D \<and> maxPart D = int (nparts cfg p)
     \<and> pos D = cstart cfg p (nextChunk D) \<and> maxPos D = cstart cfg p (nparts cfg p)
     \<and> nextChunk D \<le> rPos D + length (bufs D)
     \<and> (0 < concurrency D \<longrightarrow> nextChunk D \<le> length (bufs D) \<and> (nextChunk D < nparts cfg p \<longrightarrow> length (bufs D) = nextChunk D))
     \<and> int (length (workers D)) \<le> Concurrency cfg
     \<and> (0 < concurrency D \<longrightarrow> int (length (workers D)) + concurrency D = Concurrency cfg)
     \<and> nextChunk D \<le> rPos D + length (workers D)
     \<and> curBuf D = place D (rPos D)"

definition bytes_inv :: "Downloader \<Rightarrow> HttpRequestParams \<Rightarrow> string \<Rightarrow> downloader \<Rightarrow> bool" where
  "bytes_inv cfg p F D \<longleftrightarrow>
     (\<forall>i. rPos D \<le> i \<and> i < nextChunk D \<longrightarrow> buf_ok cfg p F i (ring D i) \<and> (i \<noteq> rPos D \<longrightarrow> bufOff (ring D i) = 0))
     \<and> readBytes D = file_slice F (Start (ReqRange p)) (cstart cfg p (rPos D) + bufOff (ring D (rPos D)) - Start (ReqRange p))
     \<and> (atEnd D \<longrightarrow> rPos D + 1 = nparts cfg p \<and> bufOff (ring D (rPos D)) = csize cfg p (rPos D))"

definition tasks_inv :: "Downloader \<Rightarrow> HttpRequestParams \<Rightarrow> downloader \<Rightarrow> bool" where
  "tasks_inv cfg p D \<longleftrightarrow>
     (\<forall>x\<in>#tasks D. task_ok cfg p (rPos D) (nextChunk D) (ring D) (place D) x) \<and> unique (task_ids (tasks D))
     \<and> (\<forall>w\<in>set (workers D). copying_ok w)"

definition dl_inv :: "Downloader \<Rightarrow> HttpRequestParams \<Rightarrow> string \<Rightarrow> downloader \<Rightarrow> bool" where
  "dl_inv cfg p F D \<longleftrightarrow> counts_inv cfg p D \<and> bytes_inv cfg p F D \<and> tasks_inv cfg p D"

section \<open>Steps that leave the buffers alone\<close>

lemma pends_update: "i < length ws \<Longrightarrow> pends (ws[i := w]) + pend (ws ! i) = pends ws + pend w"
proof (induction ws arbitrary: i)
  case (Cons v ws)
  then show ?case by (cases i) (auto simp: pends_def add.commute add.left_commute)
qed simp

lemma pend_pends: "w \<in> set ws \<Longrightarrow> pend w \<subseteq># pends ws"
  by (induction ws) (auto simp: pends_def intro: subset_mset.add_increasing)

lemma worker_atD: "worker_at i D = w \<Longrightarrow> w \<noteq> Gone \<Longrightarrow> i < length (workers D) \<and> workers D ! i = w"
  by (auto simp: worker_at_def split: if_splits)

lemma tasks_set_worker:
  assumes "worker_at i D = w0" "w0 \<noteq> Gone"
  shows "tasks (set_worker i w D) + pend w0 = tasks D + pend w"
  using pends_update [of i "workers D" w] worker_atD [OF assms] by (simp add: tasks_def set_worker_def add.assoc)

definition same_core :: "downloader \<Rightarrow> downloader \<Rightarrow> bool" where
  "same_core D D' \<longleftrightarrow>
     nextChunk D' = nextChunk D \<and> rPos D' = rPos D \<and> bufs D' = bufs D \<and> pos D' = pos D \<and> maxPos D' = maxPos D \<and> maxPart D' = maxPart D
     \<and> curBuf D' = curBuf D \<and> readBytes D' = readBytes D \<and> atEnd D' = atEnd D \<and> length (workers D') = length (workers D)
     \<and> (concurrency D' = concurrency D \<or> concurrency D' \<le> 0)"

lemma core_inv:
  assumes "dl_inv cfg p F D" "same_core D D'"
    and "\<And>x. x \<in># tasks D' \<Longrightarrow> task_ok cfg p (rPos D) (nextChunk D) (ring D) (place D) x"
    and "unique (task_ids (tasks D'))" "\<And>w. w \<in> set (workers D') \<Longrightarrow> copying_ok w"
  shows "dl_inv cfg p F D'"
proof -
  have pl: "place D' = place D" "ring D' = ring D" using assms(2) by (auto simp: same_core_def place_def ring_def fun_eq_iff)
  have "counts_inv cfg p D'" using assms(1,2) pl by (auto simp: dl_inv_def counts_inv_def same_core_def)
  moreover have "bytes_inv cfg p F D'" using assms(1,2) pl by (simp add: dl_inv_def bytes_inv_def same_core_def)
  moreover have "tasks_inv cfg p D'" using assms(2-5) pl by (simp add: tasks_inv_def same_core_def)
  ultimately show ?thesis by (simp add: dl_inv_def)
qed

lemma unique_mono: "\<lbrakk>unique M; N \<subseteq># M\<rbrakk> \<Longrightarrow> unique N"
  unfolding unique_def by (meson le_trans mset_subset_eq_count)

lemma fewer_tasks_inv:
  assumes "dl_inv cfg p F D" "same_core D D'" "tasks D' \<subseteq># tasks D" "\<And>w. w \<in> set (workers D') \<Longrightarrow> copying_ok w"
  shows "dl_inv cfg p F D'"
proof (rule core_inv [OF assms(1,2)])
  have t: "tasks_inv cfg p D" using assms(1) by (simp add: dl_inv_def)
  show "task_ok cfg p (rPos D) (nextChunk D) (ring D) (place D) x" if "x \<in># tasks D'" for x
    using t mset_subset_eqD [OF assms(3) that] by (simp add: tasks_inv_def)
  show "unique (task_ids (tasks D'))"
    using t unique_mono image_mset_subseteq_mono [OF assms(3)] unfolding tasks_inv_def task_ids_def by blast
qed (rule assms(4))

lemma copying_set_worker:
  assumes "dl_inv cfg p F D" "copying_ok w" "v \<in> set (workers (set_worker i w D))"
  shows "copying_ok v"
proof -
  have "\<forall>u\<in>set (workers D). copying_ok u" using assms(1) by (simp add: dl_inv_def tasks_inv_def)
  moreover have "v \<in> insert w (set (workers D))"
    using assms(3) set_update_subset_insert [of "workers D" i w] by (auto simp: set_worker_def)
  ultimately show ?thesis using assms(2) by blast
qed

lemma same_core_set_worker [simp]: "same_core D (set_worker i w D)"
  by (simp add: same_core_def set_worker_def)

lemma set_worker_inv:
  assumes "dl_inv cfg p F D" "worker_at i D = w0" "w0 \<noteq> Gone" "pend w \<subseteq># pend w0" "copying_ok w"
  shows "dl_inv cfg p F (set_worker i w D)"
proof (rule fewer_tasks_inv [OF assms(1)])
  have "tasks (set_worker i w D) + pend w0 \<subseteq># tasks D + pend w0"
    unfolding tasks_set_worker [OF assms(2,3)] using assms(4) by simp
  then show "tasks (set_worker i w D) \<subseteq># tasks D" by simp
qed (use assms copying_set_worker in auto)

lemma flags_inv:
  assumes "dl_inv cfg p F D"
  shows "dl_inv cfg p F (D\<lparr>limit := l\<rparr>)" "dl_inv cfg p F (D\<lparr>dlFailed := a\<rparr>)" "dl_inv cfg p F (D\<lparr>canceled := b\<rparr>)"
    "dl_inv cfg p F (D\<lparr>closing := c\<rparr>)" "dl_inv cfg p F (D\<lparr>written := n\<rparr>)"
  by (rule fewer_tasks_inv [OF assms]; use assms in \<open>simp add: same_core_def tasks_def dl_inv_def tasks_inv_def\<close>)+

lemma idle_inv: "\<lbrakk>dl_inv cfg p F D; worker_at i D = w0; w0 \<noteq> Gone\<rbrakk> \<Longrightarrow> dl_inv cfg p F (set_worker i Idle D)"
  by (erule set_worker_inv) auto

lemma fail_inv: "\<lbrakk>dl_inv cfg p F D; worker_at i D = w0; w0 \<noteq> Gone\<rbrakk> \<Longrightarrow> dl_inv cfg p F (fail i D)"
  unfolding fail_def by (intro flags_inv idle_inv)

lemma leave_inv: "\<lbrakk>dl_inv cfg p F D; worker_at i D = w0; w0 \<noteq> Gone\<rbrakk> \<Longrightarrow> dl_inv cfg p F (leave i D)"
  unfolding leave_def by (rule flags_inv, erule set_worker_inv) auto

lemma take_chunk_inv:
  assumes "dl_inv cfg p F D" "worker_at i D = Idle"
  shows "dl_inv cfg p F (take_chunk i D)"
proof (cases "chunkChannel D")
  case Nil
  then show ?thesis using assms leave_inv [OF assms] by (simp add: take_chunk_def)
next
  case (Cons c cs)
  have less: "dl_inv cfg p F (D\<lparr>chunkChannel := cs\<rparr>)"
    by (rule fewer_tasks_inv [OF assms(1)])
      (use Cons assms(1) in \<open>simp_all add: same_core_def tasks_def dl_inv_def tasks_inv_def\<close>)
  have idle: "worker_at i (D\<lparr>chunkChannel := cs\<rparr>) = Idle" using assms(2) by (simp add: worker_at_def split: if_splits)
  have moved: "dl_inv cfg p F (set_worker i (Trying c 0 0) (D\<lparr>chunkChannel := cs\<rparr>))"
  proof (rule fewer_tasks_inv [OF assms(1)])
    show "same_core D (set_worker i (Trying c 0 0) (D\<lparr>chunkChannel := cs\<rparr>))" by (simp add: same_core_def set_worker_def)
    have "tasks (set_worker i (Trying c 0 0) (D\<lparr>chunkChannel := cs\<rparr>)) = tasks (D\<lparr>chunkChannel := cs\<rparr>) + {#(c, 0)#}"
      using tasks_set_worker [OF idle, of "Trying c 0 0"] by simp
    then show "tasks (set_worker i (Trying c 0 0) (D\<lparr>chunkChannel := cs\<rparr>)) \<subseteq># tasks D" using Cons by (simp add: tasks_def)
  qed (use copying_set_worker [OF less, of "Trying c 0 0"] in simp)
  show ?thesis using Cons moved leave_inv [OF less idle] by (simp add: take_chunk_def Let_def)
qed

lemma resend_inv:
  assumes "dl_inv cfg p F D" "worker_at i D = Trying c r v" "k \<le> 0"
  defines "D' \<equiv> D\<lparr>concurrency := k, chunkChannel := chunkChannel D @ [c]\<rparr>"
  shows "dl_inv cfg p F (set_worker i Idle D')" "dl_inv cfg p F (set_worker i Gone D')"
proof -
  have w: "worker_at i D' = Trying c r v" using assms(2) by (simp add: worker_at_def D'_def split: if_splits)
  have t: "tasks (set_worker i u D') = tasks D" if "pend u = {#}" for u
  proof -
    have "tasks D' = tasks D + {#(c, 0)#}" by (simp add: D'_def tasks_def)
    with tasks_set_worker [OF w, of u] that show ?thesis by simp
  qed
  have "dl_inv cfg p F (set_worker i u D')" if "pend u = {#}" "copying_ok u" for u
  proof (rule fewer_tasks_inv [OF assms(1)])
    show "same_core D (set_worker i u D')" using assms(3) by (simp add: same_core_def set_worker_def D'_def)
    show "copying_ok x" if "x \<in> set (workers (set_worker i u D'))" for x
      using copying_set_worker [OF assms(1) \<open>copying_ok u\<close>, of x i] that by (simp add: set_worker_def D'_def)
  qed (simp add: t that(1))
  then show "dl_inv cfg p F (set_worker i Idle D')" "dl_inv cfg p F (set_worker i Gone D')" by simp_all
qed

lemma overload_inv:
  assumes "dl_inv cfg p F D" "worker_at i D = Trying c r v" "overload cfg i c r v D = Some D'"
  shows "dl_inv cfg p F D'"
proof -
  have retry: "dl_inv cfg p F (set_worker i (Trying c r' v') D)" for r' v' using set_worker_inv [OF assms(1,2)] by simp
  have halt: "dl_inv cfg p F (set_worker i Idle D)" "dl_inv cfg p F (fail i D)"
    using idle_inv [OF assms(1,2)] fail_inv [OF assms(1,2)] by simp_all
  have k: "(if concurrency D > 0 then - concurrency D else concurrency D) - 1 \<le> 0" by simp
  note rs = resend_inv [OF assms(1,2) k]
  show ?thesis
    using assms(3) retry halt rs flags_inv [OF rs(1)] flags_inv [OF rs(2)] flags_inv(3) [OF flags_inv(2) [OF rs(1), of True], of True]
    by (auto simp: overload_def Let_def leave_def fail_def split: if_splits)
qed

lemma try_chunk_inv:
  assumes "dl_inv cfg p F D" "worker_at i D = Trying c r v" "try_chunk cfg a i c r v D = Some D'"
  shows "dl_inv cfg p F D'"
proof (cases a)
  case Overloaded
  with assms overload_inv show ?thesis by (simp add: try_chunk_def)
next
  case Refused
  with assms(3) idle_inv [OF assms(1,2)] fail_inv [OF assms(1,2)] show ?thesis by (auto simp: try_chunk_def split: if_splits)
next
  case Success
  with assms(3) set_worker_inv [OF assms(1,2), of "Connected c r v"] show ?thesis by (simp add: try_chunk_def)
qed

lemma copying_task:
  assumes "dl_inv cfg p F D" "worker_at i D = Copying c r v n" "n < chSize c"
  shows "(c, n) \<in># tasks D" "task_ok cfg p (rPos D) (nextChunk D) (ring D) (place D) (c, n)"
proof -
  have "workers D ! i \<in> set (workers D)" "workers D ! i = Copying c r v n" using worker_atD [OF assms(2)] nth_mem by force+
  then have "pend (Copying c r v n) \<subseteq># pends (workers D)" using pend_pends by metis
  then show "(c, n) \<in># tasks D" using assms(3) by (simp add: tasks_def)
  with assms(1) show "task_ok cfg p (rPos D) (nextChunk D) (ring D) (place D) (c, n)" by (simp add: dl_inv_def tasks_inv_def)
qed

lemma tasks_written [simp]: "tasks (D\<lparr>written := m\<rparr>) = tasks D"
  by (simp add: tasks_def)

lemma other_task_id:
  assumes "dl_inv cfg p F D" "tasks D = M + {#x#}" "y \<in># M"
  shows "chId (fst y) \<noteq> chId (fst x)"
proof
  assume eq: "chId (fst y) = chId (fst x)"
  have "chId (fst y) \<in># task_ids M" using assms(3) by (simp add: task_ids_def)
  then have "1 \<le> count (task_ids M) (chId (fst y))" by (simp add: Suc_le_eq)
  with eq have "2 \<le> count (task_ids (tasks D)) (chId (fst x))" by (simp add: assms(2) task_ids_def)
  moreover have "count (task_ids (tasks D)) (chId (fst x)) \<le> 1" using assms(1) by (simp add: dl_inv_def tasks_inv_def unique_def)
  ultimately show False by simp
qed

lemma worker_task:
  assumes "worker_at i D = w0" "w0 \<noteq> Gone" "pend w0 = {#x#}"
  obtains M where "tasks D = M + {#x#}" "\<And>w. tasks (set_worker i w D) = M + pend w"
proof -
  have "tasks D = tasks (set_worker i Gone D) + {#x#}" using tasks_set_worker [OF assms(1,2), of Gone] assms(3) by simp
  moreover have "tasks (set_worker i w D) = tasks (set_worker i Gone D) + pend w" for w
  proof -
    have "add_mset x (tasks (set_worker i w D)) = tasks D + pend w" "tasks D = add_mset x (tasks (set_worker i Gone D))"
      using tasks_set_worker [OF assms(1,2), of w] tasks_set_worker [OF assms(1,2), of Gone] assms(3) by simp_all
    then have "add_mset x (tasks (set_worker i w D)) = add_mset x (tasks (set_worker i Gone D) + pend w)" by (metis union_mset_add_mset_left)
    then show ?thesis by simp
  qed
  ultimately show ?thesis using that by blast
qed

lemma end_copy_inv:
  assumes "dl_inv cfg p F D" "worker_at i D = Copying c r v n"
  shows "dl_inv cfg p F (end_copy cfg i c r v n D)"
proof -
  have ok: "n \<le> chSize c"
    using worker_atD [OF assms(2)] assms(1) by (metis copying_ok.simps(1) dl_inv_def nth_mem tasks_inv_def worker.distinct(19))
  have w: "dl_inv cfg p F (D\<lparr>written := m\<rparr>)" "worker_at i (D\<lparr>written := m\<rparr>) = Copying c r v n" for m
    using flags_inv [OF assms(1)] assms(2) by (auto simp: worker_at_def split: if_splits)
  let ?c = "c\<lparr>chStart := chStart c + n, chSize := chSize c - n\<rparr>"
  have retry: "dl_inv cfg p F (set_worker i (Trying ?c (r + 1) v) (D\<lparr>written := m\<rparr>))" if "n \<noteq> chSize c" for m
  proof -
    let ?D = "D\<lparr>written := m\<rparr>"
    from ok that have lt: "n < chSize c" by simp
    obtain M where M: "tasks ?D = M + {#(c, n)#}" "\<And>w. tasks (set_worker i w ?D) = M + pend w"
      using worker_task [OF w(2)] lt by (metis pend.simps(3) worker.distinct(19))
    show ?thesis
    proof (rule core_inv [OF w(1)])
      have t: "task_ok cfg p (rPos ?D) (nextChunk ?D) (ring ?D) (place ?D) x" if "x \<in># M + {#(c, n)#}" for x
        using w(1) [of m] that unfolding M(1) [symmetric] by (simp only: dl_inv_def tasks_inv_def)
      from t [of "(c, n)"] have "task_ok cfg p (rPos ?D) (nextChunk ?D) (ring ?D) (place ?D) (?c, 0)" by (simp add: task_ok_def)
      moreover have "x \<in># M \<or> x = (?c, 0)" if "x \<in># tasks (set_worker i (Trying ?c (r + 1) v) ?D)" for x using that M(2) by auto
      ultimately show "task_ok cfg p (rPos ?D) (nextChunk ?D) (ring ?D) (place ?D) x"
        if "x \<in># tasks (set_worker i (Trying ?c (r + 1) v) ?D)" for x
        using that t [of x] by (metis union_iff)
      have "task_ids (tasks (set_worker i (Trying ?c (r + 1) v) ?D)) = task_ids (tasks ?D)" using M by (simp add: task_ids_def)
      with w(1) [of m] show "unique (task_ids (tasks (set_worker i (Trying ?c (r + 1) v) ?D)))" by (simp add: dl_inv_def tasks_inv_def)
    qed (use copying_set_worker [OF w(1) [of m], of "Trying ?c (r + 1) v"] in simp_all)
  qed
  have idle: "dl_inv cfg p F (set_worker i Idle D)" "dl_inv cfg p F (fail i D)" "dl_inv cfg p F (fail i (D\<lparr>written := m\<rparr>))" for m
    using idle_inv [OF assms] fail_inv [OF assms] fail_inv [OF w] by simp_all
  show ?thesis using retry idle flags_inv(5) [OF idle(1)] by (auto simp: end_copy_def Let_def)
qed

section \<open>Steps on one buffer\<close>

lemma mod_window:
  fixes i j n :: nat
  assumes "i mod n = j mod n" "a \<le> i" "i < a + n" "a \<le> j" "j < a + n"
  shows "i = j"
proof -
  have "i = j" if "i \<le> j" "i mod n = j mod n" "j < i + n" for i j :: nat
  proof -
    from that have "n dvd j - i" by (metis mod_eq_dvd_iff_nat)
    moreover have "j - i < n" using that by simp
    ultimately show ?thesis using that(1) by (metis diff_is_0_eq dvd_imp_le le_antisym not_le zero_less_diff)
  qed
  from this [of i j] this [of j i] assms show ?thesis by (cases "i \<le> j") auto
qed

lemma counts_bufs: "counts_inv cfg p D \<Longrightarrow> 0 < length (bufs D)"
  by (cases "bufs D") (auto simp: counts_inv_def)

lemma place_less: "counts_inv cfg p D \<Longrightarrow> place D i < length (bufs D)"
  using counts_bufs by (simp add: place_def)

lemma live_place:
  assumes "counts_inv cfg p D" "rPos D \<le> i" "i < nextChunk D" "rPos D \<le> j" "j < nextChunk D" "place D i = place D j"
  shows "i = j"
  using assms by (intro mod_window [of i "length (bufs D)" j "rPos D"]) (auto simp: counts_inv_def place_def)

definition with_buf :: "nat \<Rightarrow> Buf \<Rightarrow> downloader \<Rightarrow> downloader" where
  "with_buf j b D = D\<lparr>bufs := (bufs D)[place D j := b]\<rparr>"

lemma with_buf_fields [simp]:
  "place (with_buf j b D) = place D" "length (bufs (with_buf j b D)) = length (bufs D)" "nextChunk (with_buf j b D) = nextChunk D"
  "rPos (with_buf j b D) = rPos D" "tasks (with_buf j b D) = tasks D" "workers (with_buf j b D) = workers D"
  "concurrency (with_buf j b D) = concurrency D" "pos (with_buf j b D) = pos D" "maxPos (with_buf j b D) = maxPos D"
  "maxPart (with_buf j b D) = maxPart D" "curBuf (with_buf j b D) = curBuf D" "readBytes (with_buf j b D) = readBytes D"
  "atEnd (with_buf j b D) = atEnd D"
  by (simp_all add: with_buf_def place_def tasks_def fun_eq_iff)

lemma with_buf_counts [simp]: "counts_inv cfg p (with_buf j b D) = counts_inv cfg p D"
  by (simp add: counts_inv_def)

lemma with_buf_ring:
  assumes "counts_inv cfg p D"
  shows "ring (with_buf j b D) j = b"
    and "\<lbrakk>rPos D \<le> i; i < nextChunk D; rPos D \<le> j; j < nextChunk D; i \<noteq> j\<rbrakk> \<Longrightarrow> ring (with_buf j b D) i = ring D i"
proof -
  show "ring (with_buf j b D) j = b" using place_less [OF assms] by (simp add: ring_def) (simp add: with_buf_def)
  show "ring (with_buf j b D) i = ring D i" if "rPos D \<le> i" "i < nextChunk D" "rPos D \<le> j" "j < nextChunk D" "i \<noteq> j"
  proof -
    have "place D j \<noteq> place D i" using live_place [OF assms] that by metis
    then show ?thesis by (simp add: ring_def) (simp add: with_buf_def)
  qed
qed

text \<open>The bytes of a chunk lie in the file.\<close>

lemma chunk_in_file:
  assumes "dl_ok cfg p F" "i < nparts cfg p"
  shows "0 \<le> cstart cfg p i" "cstart cfg p i + csize cfg p i \<le> int (length F)"
proof -
  have P: "0 < PartSize cfg" and n: "2 \<le> nparts cfg p" using assms(1) by (auto simp: dl_ok_def)
  show "0 \<le> cstart cfg p i" using cstart_mono_le [OF P, of 0 i p] assms(1) by (simp add: dl_ok_def)
  have "cstart cfg p (Suc i) \<le> cstart cfg p (nparts cfg p)" using assms(2) by (intro cstart_mono_le [OF P]) simp
  with cstart_end [OF P n] assms(1) show "cstart cfg p i + csize cfg p i \<le> int (length F)" by (simp add: cstart_Suc dl_ok_def)
qed

lemma buf_ok_write:
  assumes "dl_ok cfg p F" "i < nparts cfg p" "buf_ok cfg p F i b" "0 \<le> k" "have_bytes b + k \<le> csize cfg p i"
  defines "b' \<equiv> b\<lparr>buffer := buffer b @ file_slice F (cstart cfg p i + have_bytes b) k\<rparr>"
  shows "buf_ok cfg p F i b'" "have_bytes b' = have_bytes b + k" "bufOff b' = bufOff b"
proof -
  note f = chunk_in_file [OF assms(1,2)]
  have o: "0 \<le> bufOff b" and buf: "buffer b = file_slice F (cstart cfg p i + bufOff b) (int (length (buffer b)))"
    using assms(3) by (auto simp: buf_ok_def)
  then have h: "0 \<le> have_bytes b" by (simp add: have_bytes_def)
  have len: "length (file_slice F (cstart cfg p i + have_bytes b) k) = nat k" using f h assms(4,5) by (intro length_file_slice) auto
  then show hb: "have_bytes b' = have_bytes b + k" "bufOff b' = bufOff b" using assms(4) by (simp_all add: b'_def have_bytes_def)
  have "buffer b' = file_slice F (cstart cfg p i + bufOff b) (int (length (buffer b))) @ file_slice F (cstart cfg p i + bufOff b + int (length (buffer b))) k"
    using buf by (simp add: b'_def have_bytes_def add.assoc)
  also have "\<dots> = file_slice F (cstart cfg p i + bufOff b) (int (length (buffer b)) + k)"
    using f o assms(4) by (intro file_slice_append) auto
  finally have eq: "buffer b' = file_slice F (cstart cfg p i + bufOff b) (int (length (buffer b)) + k)" .
  have l: "int (length (buffer b')) = int (length (buffer b)) + k" using hb by (simp add: have_bytes_def)
  have "bufSize b' = bufSize b" by (simp add: b'_def)
  with eq hb assms(3,5) show "buf_ok cfg p F i b'" unfolding buf_ok_def l by simp
qed

text \<open>A new content for the buffer of one live chunk, at the same offset.\<close>

lemma with_buf_bytes:
  assumes inv: "dl_inv cfg p F D" and live: "rPos D \<le> j" "j < nextChunk D"
    and b: "buf_ok cfg p F j b" "bufOff b = bufOff (ring D j)"
  shows "bytes_inv cfg p F (with_buf j b D)"
proof -
  let ?D = "with_buf j b D"
  have cn: "counts_inv cfg p D" and by_: "bytes_inv cfg p F D" using inv by (simp_all add: dl_inv_def)
  note r = with_buf_ring [OF cn, where j = j and b = b]
  have off: "bufOff (ring ?D l) = bufOff (ring D l)" if "rPos D \<le> l" "l < nextChunk D" for l
    using r live b(2) that by (cases "l = j") simp_all
  have "buf_ok cfg p F l (ring ?D l)" if "rPos D \<le> l" "l < nextChunk D" for l
    using by_ that r live b(1) by (cases "l = j") (simp_all add: bytes_inv_def)
  moreover have "rPos D < nextChunk D" using cn by (simp add: counts_inv_def)
  ultimately show ?thesis using by_ off by (simp add: bytes_inv_def)
qed

lemma with_buf_task:
  assumes "counts_inv cfg p D" "rPos D \<le> j" "j < nextChunk D" "chId (fst x) \<noteq> j \<or> have_bytes b = have_bytes (ring D j)"
    and "task_ok cfg p (rPos D) (nextChunk D) (ring D) (place D) x"
  shows "task_ok cfg p (rPos D) (nextChunk D) (ring (with_buf j b D)) (place D) x"
proof -
  have "have_bytes (ring (with_buf j b D) (chId (fst x))) = have_bytes (ring D (chId (fst x)))"
    if "rPos D \<le> chId (fst x)" "chId (fst x) < nextChunk D"
    using with_buf_ring [OF assms(1), where j = j and b = b] that assms(2-4) by (cases "chId (fst x) = j") auto
  with assms(5) show ?thesis by (simp add: task_ok_def split: prod.splits)
qed

lemma set_worker_fields [simp]:
  "rPos (set_worker i u D) = rPos D" "nextChunk (set_worker i u D) = nextChunk D" "ring (set_worker i u D) = ring D"
  "place (set_worker i u D) = place D" "chunkChannel (set_worker i u D) = chunkChannel D" "bufs (set_worker i u D) = bufs D"
  by (auto simp: set_worker_def ring_def place_def fun_eq_iff)

lemma set_worker_counts [simp]: "counts_inv cfg p (set_worker i u D) = counts_inv cfg p D"
  by (simp add: counts_inv_def place_def) (simp add: set_worker_def)

lemma set_worker_bytes [simp]: "bytes_inv cfg p F (set_worker i u D) = bytes_inv cfg p F D"
  by (simp add: bytes_inv_def) (simp add: set_worker_def)

lemma write_inv:
  assumes ok: "dl_ok cfg p F" and inv: "dl_inv cfg p F D" and w: "worker_at i D = Copying c r v n" and lt: "n < chSize c"
    and k: "0 \<le> k" "n + k \<le> chSize c"
  defines "b \<equiv> (ring D (chId c))\<lparr>buffer := buffer (ring D (chId c)) @ file_slice F (chStart c + n) k\<rparr>"
  shows "dl_inv cfg p F (set_worker i (Copying c r v (n + k)) (with_buf (chId c) b D))" "int (length (file_slice F (chStart c + n) k)) = k"
proof -
  let ?j = "chId c" and ?D = "with_buf (chId c) b D" and ?w = "Copying c r v (n + k)"
  have cn: "counts_inv cfg p D" and by_: "bytes_inv cfg p F D" using inv by (simp_all add: dl_inv_def)
  from copying_task(2) [OF inv w lt] have live: "rPos D \<le> ?j" "?j < nextChunk D" and pl: "chBuf c = place D ?j"
    and st: "chStart c + n = cstart cfg p ?j + have_bytes (ring D ?j)" and sz: "chSize c - n = csize cfg p ?j - have_bytes (ring D ?j)" and n0: "0 \<le> n"
    by (auto simp: task_ok_def)
  have b: "buf_ok cfg p F ?j (ring D ?j)" using by_ live by (simp add: bytes_inv_def)
  have jn: "?j < nparts cfg p" using live cn by (simp add: counts_inv_def)
  have k2: "have_bytes (ring D ?j) + k \<le> csize cfg p ?j" using k(2) sz by linarith
  note bw = buf_ok_write [OF ok jn b k(1) k2, folded st, folded b_def]
  show "int (length (file_slice F (chStart c + n) k)) = k" using bw(2) by (simp add: b_def have_bytes_def)
  have "worker_at i ?D = Copying c r v n" using w by (simp add: worker_at_def split: if_splits)
  then obtain M where "tasks ?D = M + {#(c, n)#}" and tw: "\<And>u. tasks (set_worker i u ?D) = M + pend u"
    using worker_task lt by (metis pend.simps(3) worker.distinct(19))
  then have M: "tasks D = M + {#(c, n)#}" by simp
  have other: "task_ok cfg p (rPos D) (nextChunk D) (ring ?D) (place D) x" if x: "x \<in># M" for x
    using other_task_id [OF inv M x] inv x M by (intro with_buf_task [OF cn live]) (simp_all add: dl_inv_def tasks_inv_def)
  have mine: "task_ok cfg p (rPos D) (nextChunk D) (ring ?D) (place D) (c, n + k)" if "n + k < chSize c"
    using that live pl st sz n0 k(1) bw(2) by (simp add: task_ok_def with_buf_ring(1) [OF cn])
  have "tasks_inv cfg p (set_worker i ?w ?D)"
    unfolding tasks_inv_def
  proof (intro conjI ballI)
    fix x assume "x \<in># tasks (set_worker i ?w ?D)"
    then have "x \<in># M \<or> x = (c, n + k) \<and> n + k < chSize c" by (simp add: tw split: if_splits)
    with other [of x] mine show "task_ok cfg p (rPos (set_worker i ?w ?D)) (nextChunk (set_worker i ?w ?D)) (ring (set_worker i ?w ?D)) (place (set_worker i ?w ?D)) x"
      by auto
  next
    have "unique (task_ids (M + {#(c, n)#}))" using inv M by (simp add: dl_inv_def tasks_inv_def)
    then show "unique (task_ids (tasks (set_worker i ?w ?D)))" by (rule unique_mono) (simp add: tw task_ids_def)
  next
    fix x assume "x \<in> set (workers (set_worker i ?w ?D))"
    with copying_set_worker [OF inv, of ?w x i] k(2) show "copying_ok x" by (simp add: set_worker_def)
  qed
  with with_buf_bytes [OF inv live bw(1,3)] cn show "dl_inv cfg p F (set_worker i ?w ?D)" by (simp add: dl_inv_def)
qed

lemma copy_bytes_inv:
  fixes m :: nat
  assumes ok: "dl_ok cfg p F" and inv: "dl_inv cfg p F D" and w: "worker_at i D = Copying c r v n"
  defines "k \<equiv> min (int m) (chSize c - n)"
  shows "dl_inv cfg p F (copy_bytes (file_slice F (chStart c + n) k) i c r v n D)"
proof (cases "canceled D \<or> \<not> bufOpen (bufs D ! chBuf c)")
  case True
  then show ?thesis using inv by (auto simp: copy_bytes_def Buf_Write_def)
next
  case open_: False
  have le: "n \<le> chSize c"
    using worker_atD [OF w] inv by (metis copying_ok.simps(1) dl_inv_def nth_mem tasks_inv_def worker.distinct(19))
  let ?bs = "file_slice F (chStart c + n) k"
  have eq: "copy_bytes ?bs i c r v n D = set_worker i (Copying c r v (n + int (length ?bs)))
      (D\<lparr>bufs := (bufs D)[chBuf c := (bufs D ! chBuf c)\<lparr>buffer := buffer (bufs D ! chBuf c) @ ?bs\<rparr>]\<rparr>)"
    using open_ by (simp add: copy_bytes_def Buf_Write_def)
  show ?thesis
  proof (cases "n < chSize c")
    case False
    with le have "?bs = []" by (simp add: k_def file_slice_def)
    then have "copy_bytes ?bs i c r v n D = set_worker i (Copying c r v n) D" unfolding eq by simp
    with set_worker_inv [OF inv w, of "Copying c r v n"] le show ?thesis by simp
  next
    case lt: True
    then have k: "0 \<le> k" "n + k \<le> chSize c" by (auto simp: k_def)
    have "chBuf c = place D (chId c)" using copying_task(2) [OF inv w lt] by (auto simp: task_ok_def)
    then show ?thesis using write_inv [OF ok inv w lt k] unfolding eq by (simp add: with_buf_def ring_def)
  qed
qed

end
