(* ===== verification/DownloadSteps.thy ===== *)
theory DownloadSteps
  imports DownloadInv
begin

text \<open>
  The other steps of the downloader keep its invariant: the reader takes bytes and moves to the next chunk, a new chunk is
  sent, the reader closes.  It holds after \<^verbatim>\<open>download\<close>, and so in every state that the goroutines and the reader
  reach together, in any order.
\<close>

section \<open>Reading\<close>

lemma buf_ok_read:
  fixes m :: nat
  assumes "dl_ok cfg p F" "i < nparts cfg p" "buf_ok cfg p F i b"
  defines "b' \<equiv> b\<lparr>buffer := drop m (buffer b), bufOff := bufOff b + int (length (take m (buffer b)))\<rparr>"
  shows "buf_ok cfg p F i b'" "have_bytes b' = have_bytes b" "bufOff b' = bufOff b + int (length (take m (buffer b)))"
    "take m (buffer b) = file_slice F (cstart cfg p i + bufOff b) (int (length (take m (buffer b))))"
proof -
  let ?g = "take m (buffer b)"
  have o: "0 \<le> bufOff b" and buf: "buffer b = file_slice F (cstart cfg p i + bufOff b) (int (length (buffer b)))"
    using assms(3) by (auto simp: buf_ok_def)
  have st: "0 \<le> cstart cfg p i + bufOff b" using chunk_in_file(1) [OF assms(1,2)] o by simp
  show hb: "have_bytes b' = have_bytes b" and bo: "bufOff b' = bufOff b + int (length ?g)" by (simp_all add: b'_def have_bytes_def)
  have g: "take (length ?g) (buffer b) = ?g" "drop (length ?g) (buffer b) = drop m (buffer b)" by (simp_all add: min_def)
  have "take (length ?g) (buffer b) = file_slice F (cstart cfg p i + bufOff b) (min (int (length ?g)) (int (length (buffer b))))"
    by (subst (2) buf) (rule take_file_slice, simp)
  moreover have "min (int (length ?g)) (int (length (buffer b))) = int (length ?g)" by simp
  ultimately show "?g = file_slice F (cstart cfg p i + bufOff b) (int (length ?g))" unfolding g by (simp only:)
  have "drop (length ?g) (buffer b) = file_slice F (cstart cfg p i + bufOff b + int (length ?g)) (int (length (buffer b)) - int (length ?g))"
    by (subst (2) buf) (rule drop_file_slice [OF st], simp)
  then have d: "drop m (buffer b) = file_slice F (cstart cfg p i + bufOff b + int (length ?g)) (int (length (buffer b)) - int (length ?g))"
    unfolding g .
  have l: "int (length (buffer b')) = int (length (buffer b)) - int (length ?g)" by (simp add: b'_def)
  have "buffer b' = file_slice F (cstart cfg p i + bufOff b') (int (length (buffer b')))" unfolding bo l using d by (simp add: b'_def add.assoc)
  moreover have "bufSize b' = bufSize b" by (simp add: b'_def)
  ultimately show "buf_ok cfg p F i b'" using assms(3) hb bo by (simp add: buf_ok_def)
qed

lemma read_bytes_inv:
  assumes ok: "dl_ok cfg p F" and inv: "dl_inv cfg p F D" and open_: "\<not> atEnd D"
  defines "b \<equiv> bufs D ! curBuf D"
  shows "dl_inv cfg p F (D\<lparr>bufs := (bufs D)[curBuf D := b\<lparr>buffer := drop m (buffer b), bufOff := bufOff b + int (length (take m (buffer b)))\<rparr>],
           readBytes := readBytes D @ take m (buffer b)\<rparr>)" (is "dl_inv _ _ _ ?D")
proof -
  let ?r = "rPos D" and ?g = "take m (buffer b)"
  define b' where "b' = b\<lparr>buffer := drop m (buffer b), bufOff := bufOff b + int (length ?g)\<rparr>"
  let ?W = "with_buf ?r b' D"
  have cn: "counts_inv cfg p D" and by_: "bytes_inv cfg p F D" and ta: "tasks_inv cfg p D" using inv by (simp_all add: dl_inv_def)
  have r: "?r < nextChunk D" "?r < nparts cfg p" and cur: "curBuf D = place D ?r" using cn by (auto simp: counts_inv_def)
  have b: "b = ring D ?r" by (simp add: b_def cur ring_def)
  have bo: "buf_ok cfg p F ?r b" using by_ r by (simp add: bytes_inv_def b)
  note br = buf_ok_read [OF ok r(2) bo, of m, folded b'_def]
  note ring = with_buf_ring [OF cn, where j = ?r and b = b']
  have D: "?D = ?W\<lparr>readBytes := readBytes D @ ?g\<rparr>" by (simp add: with_buf_def cur b'_def)
  have f: "ring ?D = ring ?W" "place ?D = place D" "tasks ?D = tasks D" "workers ?D = workers D" "rPos ?D = ?r" "nextChunk ?D = nextChunk D"
    unfolding D by (auto simp: ring_def place_def tasks_def fun_eq_iff with_buf_def)
  have "counts_inv cfg p ?D" using cn by (simp add: counts_inv_def place_def)
  moreover have "tasks_inv cfg p ?D"
  proof -
    have "task_ok cfg p ?r (nextChunk D) (ring ?W) (place D) x" if "x \<in># tasks D" for x
      using ta that br(2) r(1) by (intro with_buf_task [OF cn]) (simp_all add: tasks_inv_def b)
    with ta show ?thesis unfolding tasks_inv_def f by simp
  qed
  moreover have "bytes_inv cfg p F ?D"
  proof -
    let ?a = "Start (ReqRange p)" and ?n = "cstart cfg p ?r + bufOff b - Start (ReqRange p)"
    have st: "0 \<le> ?a" "?a \<le> cstart cfg p ?r" "0 \<le> bufOff b"
      using ok bo cstart_mono_le [of cfg 0 ?r p] by (auto simp: dl_ok_def buf_ok_def)
    have "readBytes D = file_slice F ?a ?n" using by_ by (simp add: bytes_inv_def b)
    moreover have "?g = file_slice F (?a + ?n) (int (length ?g))" using br(4) by (simp only: add_diff_cancel_left' add_diff_eq)
    ultimately have "readBytes D @ ?g = file_slice F ?a ?n @ file_slice F (?a + ?n) (int (length ?g))" by (simp only:)
    moreover have "readBytes ?D = readBytes D @ ?g" by simp
    ultimately have "readBytes ?D = file_slice F ?a ?n @ file_slice F (?a + ?n) (int (length ?g))" by (rule trans [rotated])
    also have "\<dots> = file_slice F ?a (?n + int (length ?g))" using st by (intro file_slice_append) auto
    finally have rd: "readBytes ?D = file_slice F ?a (cstart cfg p ?r + bufOff (ring ?W ?r) - ?a)"
      using br(3) by (simp add: ring(1) algebra_simps)
    have "buf_ok cfg p F l (ring ?W l) \<and> (l \<noteq> ?r \<longrightarrow> bufOff (ring ?W l) = 0)" if "?r \<le> l" "l < nextChunk D" for l
      using by_ that r ring br(1) by (cases "l = ?r") (simp_all add: bytes_inv_def)
    with rd open_ show ?thesis unfolding bytes_inv_def f by (simp add: f)
  qed
  ultimately show ?thesis by (simp add: dl_inv_def)
qed

section \<open>Closing\<close>

lemma interrupt_close_inv:
  assumes "dl_inv cfg p F D"
  shows "dl_inv cfg p F (interrupt_close D)"
proof -
  let ?D = "interrupt_close D"
  have cn: "counts_inv cfg p D" and by_: "bytes_inv cfg p F D" and ta: "tasks_inv cfg p D" using assms by (simp_all add: dl_inv_def)
  have f: "place ?D = place D" "tasks ?D = tasks D" "workers ?D = workers D" "rPos ?D = rPos D" "nextChunk ?D = nextChunk D"
    "readBytes ?D = readBytes D" "atEnd ?D = atEnd D"
    by (auto simp: interrupt_close_def place_def tasks_def fun_eq_iff)
  have r: "ring ?D l = Buf_Close (ring D l)" for l
    using place_less [OF cn, of l] by (simp add: ring_def f) (simp add: interrupt_close_def)
  have b: "have_bytes (Buf_Close b) = have_bytes b" "bufOff (Buf_Close b) = bufOff b" "buf_ok cfg p F i (Buf_Close b) = buf_ok cfg p F i b" for b i
    by (simp_all add: Buf_Close_def have_bytes_def buf_ok_def)
  have "counts_inv cfg p ?D" using cn by (simp add: counts_inv_def interrupt_close_def place_def)
  moreover have "bytes_inv cfg p F ?D" using by_ unfolding bytes_inv_def f r b .
  moreover have "tasks_inv cfg p ?D" using ta unfolding tasks_inv_def f task_ok_def r b .
  ultimately show ?thesis by (simp add: dl_inv_def)
qed

section \<open>A chunk more, or a chunk less\<close>

text \<open>
  The general step: the reader may have left its chunk, read to its end, and one chunk more may have been sent, with a
  fresh buffer.
\<close>

definition fresh_task :: "Downloader \<Rightarrow> HttpRequestParams \<Rightarrow> downloader \<Rightarrow> downloader \<Rightarrow> chunk \<Rightarrow> bool" where
  "fresh_task cfg p D D' c \<longleftrightarrow>
     chStart c = cstart cfg p (nextChunk D) \<and> chSize c = csize cfg p (nextChunk D) \<and> chId c = nextChunk D \<and> chBuf c = place D' (nextChunk D)
     \<and> buffer (ring D' (nextChunk D)) = [] \<and> bufSize (ring D' (nextChunk D)) = csize cfg p (nextChunk D) \<and> bufOff (ring D' (nextChunk D)) = 0"

definition sent :: "Downloader \<Rightarrow> HttpRequestParams \<Rightarrow> downloader \<Rightarrow> downloader \<Rightarrow> bool" where
  "sent cfg p D D' \<longleftrightarrow>
     (nextChunk D' = nextChunk D \<and> chunkChannel D' = chunkChannel D)
     \<or> (\<exists>c. nextChunk D' = Suc (nextChunk D) \<and> chunkChannel D' = chunkChannel D @ [c] \<and> fresh_task cfg p D D' c)"

definition moved :: "Downloader \<Rightarrow> HttpRequestParams \<Rightarrow> downloader \<Rightarrow> downloader \<Rightarrow> bool" where
  "moved cfg p D D' \<longleftrightarrow>
     rPos D' = rPos D \<or> (rPos D' = Suc (rPos D) \<and> bufOff (ring D (rPos D)) = csize cfg p (rPos D) \<and> \<not> atEnd D)"

definition kept :: "downloader \<Rightarrow> downloader \<Rightarrow> bool" where
  "kept D D' \<longleftrightarrow>
     (\<forall>l. rPos D' \<le> l \<and> l < nextChunk D \<longrightarrow> ring D' l = ring D l \<and> place D' l = place D l)
     \<and> readBytes D' = readBytes D \<and> atEnd D' = atEnd D \<and> pends (workers D') = pends (workers D)
     \<and> (\<forall>w\<in>set (workers D'). w \<in> set (workers D) \<or> w = Idle)"

lemma fresh_bytes: "\<lbrakk>fresh_task cfg p D D' c; 0 < PartSize cfg\<rbrakk> \<Longrightarrow> buf_ok cfg p F (nextChunk D) (ring D' (nextChunk D))"
  using csize_bounds(1) [of cfg p "nextChunk D"] by (simp add: fresh_task_def buf_ok_def have_bytes_def file_slice_def)

lemma send_bytes_inv:
  assumes P: "0 < PartSize cfg" and inv: "dl_inv cfg p F D" and s: "sent cfg p D D'" and m: "moved cfg p D D'" and k: "kept D D'"
    and cn': "counts_inv cfg p D'"
  shows "bytes_inv cfg p F D'"
proof -
  have cn: "counts_inv cfg p D" and by_: "bytes_inv cfg p F D" using inv by (simp_all add: dl_inv_def)
  have live: "buf_ok cfg p F l (ring D' l) \<and> (l \<noteq> rPos D \<longrightarrow> bufOff (ring D' l) = 0)" if "rPos D' \<le> l" "l < nextChunk D'" for l
  proof (cases "l < nextChunk D")
    case True
    have "rPos D \<le> l" using that m by (auto simp: moved_def)
    with True that k by_ show ?thesis by (simp add: kept_def bytes_inv_def)
  next
    case False
    with s that obtain c where "fresh_task cfg p D D' c" "l = nextChunk D" by (auto simp: sent_def)
    then show ?thesis using fresh_bytes P by (auto simp: fresh_task_def)
  qed
  have r: "rPos D < nextChunk D" "rPos D' < nextChunk D'" using cn cn' by (simp_all add: counts_inv_def)
  have pos: "cstart cfg p (rPos D') + bufOff (ring D' (rPos D')) = cstart cfg p (rPos D) + bufOff (ring D (rPos D))"
    and e: "atEnd D' \<longrightarrow> rPos D' = rPos D"
    using m k live [of "rPos D'"] r by (auto simp: moved_def kept_def cstart_Suc)
  have "bufOff (ring D' l) = 0" if "rPos D' \<le> l" "l < nextChunk D'" "l \<noteq> rPos D'" for l
    using live [OF that(1,2)] that m by (auto simp: moved_def)
  moreover have "readBytes D' = readBytes D" "atEnd D' = atEnd D" using k by (simp_all add: kept_def)
  ultimately show ?thesis using live by_ pos e unfolding bytes_inv_def by auto
qed

lemma send_tasks_inv:
  assumes P: "0 < PartSize cfg" and inv: "dl_inv cfg p F D" and s: "sent cfg p D D'" and m: "moved cfg p D D'" and k: "kept D D'"
    and cn': "counts_inv cfg p D'"
  shows "tasks_inv cfg p D'"
proof -
  have by_: "bytes_inv cfg p F D" and ta: "tasks_inv cfg p D" and cn: "counts_inv cfg p D" using inv by (simp_all add: dl_inv_def)
  have r: "rPos D < nextChunk D" "rPos D' < nextChunk D'" using cn cn' by (simp_all add: counts_inv_def)
  have nc: "nextChunk D \<le> nextChunk D'" using s by (auto simp: sent_def)
  have pn: "pends (workers D') = pends (workers D)" using k by (simp add: kept_def)
  have old: "task_ok cfg p (rPos D') (nextChunk D') (ring D') (place D') x" if x: "x \<in># tasks D" for x
  proof -
    have t: "task_ok cfg p (rPos D) (nextChunk D) (ring D) (place D) x" using ta x by (simp add: tasks_inv_def)
    have "chId (fst x) \<noteq> rPos D" if "bufOff (ring D (rPos D)) = csize cfg p (rPos D)"
      using t that by (auto simp: task_ok_def have_bytes_def)
    with t m have "rPos D' \<le> chId (fst x)" by (auto simp: moved_def task_ok_def)
    with t nc k show ?thesis by (auto simp: kept_def task_ok_def)
  qed
  have cp: "\<forall>w\<in>set (workers D'). copying_ok w" using ta k unfolding tasks_inv_def kept_def by auto
  from s consider "tasks D' = tasks D" | c where "tasks D' = add_mset (c, 0) (tasks D)" "nextChunk D' = Suc (nextChunk D)" "fresh_task cfg p D D' c"
    by (auto simp: sent_def tasks_def pn)
  then show ?thesis
  proof cases
    case 1
    with old ta cp show ?thesis by (simp add: tasks_inv_def)
  next
    case 2
    then have "task_ok cfg p (rPos D') (nextChunk D') (ring D') (place D') (c, 0)"
      using csize_bounds(1) [OF P, of p "nextChunk D"] r by (simp add: task_ok_def fresh_task_def have_bytes_def)
    moreover have "nextChunk D \<notin># task_ids (tasks D)" using ta by (fastforce simp: tasks_inv_def task_ids_def task_ok_def)
    then have "count (task_ids (tasks D)) (nextChunk D) = 0" by (simp add: not_in_iff)
    then have "unique (task_ids (tasks D'))" using 2 ta by (auto simp: unique_def tasks_inv_def task_ids_def fresh_task_def)
    ultimately show ?thesis using old cp 2(1) by (auto simp: tasks_inv_def)
  qed
qed

lemma send_inv:
  assumes "0 < PartSize cfg" "dl_inv cfg p F D" "sent cfg p D D'" "moved cfg p D D'" "kept D D'" "counts_inv cfg p D'"
  shows "dl_inv cfg p F D'"
  using send_bytes_inv [OF assms] send_tasks_inv [OF assms] assms(6) by (simp add: dl_inv_def)

section \<open>Sending\<close>

text \<open>While goroutines may still be added, every chunk has a buffer of its own at the end of the list.\<close>

lemma pends_Idle [simp]: "pends (ws @ [Idle]) = pends ws"
  by (simp add: pends_def)

lemma pos_less:
  assumes "dl_ok cfg p F" "counts_inv cfg p D"
  shows "pos D < maxPos D \<longleftrightarrow> nextChunk D < nparts cfg p"
proof -
  have P: "0 < PartSize cfg" using assms(1) by (simp add: dl_ok_def)
  have "nextChunk D = nparts cfg p \<or> nextChunk D < nparts cfg p" using assms(2) by (auto simp: counts_inv_def)
  then show ?thesis using cstart_mono [OF P, of "nextChunk D" "nparts cfg p" p] assms(2) by (auto simp: counts_inv_def)
qed

lemma ring_appended:
  assumes "bufs D' = bufs D @ [b]" "l < length (bufs D)"
  shows "place D' l = l" "place D l = l" "ring D' l = ring D l"
  using assms by (simp_all add: place_def ring_def nth_append)

lemma ring_last:
  assumes "bufs D' = bufs D @ [b]"
  shows "place D' (length (bufs D)) = length (bufs D)" "ring D' (length (bufs D)) = b"
  using assms by (simp_all add: place_def ring_def)

text \<open>The state after a chunk is sent with a new buffer, and perhaps a new goroutine; or when all chunks are sent.\<close>

definition grown :: "Downloader \<Rightarrow> HttpRequestParams \<Rightarrow> bool \<Rightarrow> int option \<Rightarrow> downloader \<Rightarrow> downloader" where
  "grown cfg p isNew l D =
     (let n = nextChunk D; s = csize cfg p n; more = (n < nparts cfg p)
      in D\<lparr>limit := (if isNew then l else limit D), concurrency := (if isNew then concurrency D - 1 else concurrency D),
           workers := workers D @ (if isNew then [Idle] else []),
           bufs := bufs D @ [if more then Buf_Reset s (NewBuf (PartSize cfg)) else NewBuf (PartSize cfg)],
           pos := pos D + (if more then s else 0), nextChunk := n + (if more then 1 else 0),
           chunkChannel := chunkChannel D @
             (if more then [\<lparr>chStart = pos D, chSize = s, chId = n, chBuf = length (bufs D), newConcurrency = isNew\<rparr>] else [])\<rparr>)"

definition reused :: "Downloader \<Rightarrow> HttpRequestParams \<Rightarrow> downloader \<Rightarrow> downloader" where
  "reused cfg p D =
     (let n = nextChunk D; s = csize cfg p n; i = place D n
      in if n < nparts cfg p
         then D\<lparr>bufs := (bufs D)[i := Buf_Reset s (bufs D ! i)], pos := pos D + s, nextChunk := n + 1,
                chunkChannel := chunkChannel D @ [\<lparr>chStart = pos D, chSize = s, chId = n, chBuf = i, newConcurrency = False\<rparr>]\<rparr>
         else D)"

lemma sendChunkTask_cases:
  assumes ok: "dl_ok cfg p F" and cn: "counts_inv cfg p D" and s: "sendChunkTask cfg p isNew D = Some D'"
  shows "D' = D \<and> isNew \<or> (0 < concurrency D \<and> (\<exists>l. D' = grown cfg p isNew l D)) \<or> (\<not> isNew \<and> concurrency D \<le> 0 \<and> D' = reused cfg p D)"
proof -
  have g: "D'' = grown cfg p isNew l D" if "0 < concurrency D"
    "sendChunkTask cfg p isNew D = Some D''" "(if isNew \<and> nextChunk D > 0 then limit_sub (limit D) else Some (limit D)) = Some l" for l D''
    using that pos_less [OF ok cn]
    by (cases isNew) (auto simp: sendChunkTask_def grown_def Let_def csize_def intro!: downloader.equality split: if_splits)
  have r: "D'' = reused cfg p D" if "concurrency D \<le> 0" "\<not> isNew" "sendChunkTask cfg p isNew D = Some D''" for D''
    using that pos_less [OF ok cn] by (auto simp: sendChunkTask_def reused_def Let_def csize_def getBuf_def place_def split: if_splits)
  show ?thesis
  proof (cases "0 < concurrency D")
    case True
    show ?thesis
    proof (cases "if isNew \<and> nextChunk D > 0 then limit_sub (limit D) else Some (limit D)")
      case None
      with s True show ?thesis by (auto simp: sendChunkTask_def Let_def split: if_splits)
    next
      case (Some l)
      from g [OF True s Some] True show ?thesis by blast
    qed
  next
    case False
    show ?thesis
    proof (cases isNew)
      case True
      with s False show ?thesis by (simp add: sendChunkTask_def)
    next
      case False
      with \<open>\<not> 0 < concurrency D\<close> r s show ?thesis by simp
    qed
  qed
qed

lemma grown_kept:
  assumes "counts_inv cfg p D" "0 < concurrency D"
  shows "kept D (grown cfg p isNew l D)" "sent cfg p D (grown cfg p isNew l D)"
proof -
  let ?D = "grown cfg p isNew l D"
  obtain b where b: "bufs ?D = bufs D @ [b]" by (simp add: grown_def Let_def)
  have n: "nextChunk D \<le> length (bufs D)" "nextChunk D < nparts cfg p \<Longrightarrow> length (bufs D) = nextChunk D" "pos D = cstart cfg p (nextChunk D)"
    using assms by (auto simp: counts_inv_def)
  have "readBytes ?D = readBytes D \<and> atEnd ?D = atEnd D \<and> pends (workers ?D) = pends (workers D) \<and> (\<forall>w\<in>set (workers ?D). w \<in> set (workers D) \<or> w = Idle)"
    by (auto simp: grown_def Let_def)
  moreover have "ring ?D i = ring D i \<and> place ?D i = place D i" if "i < nextChunk D" for i
    using ring_appended [OF b, of i] n(1) that by simp
  ultimately show "kept D ?D" by (simp add: kept_def)
  show "sent cfg p D ?D"
  proof (cases "nextChunk D < nparts cfg p")
    case True
    then have "bufs ?D = bufs D @ [Buf_Reset (csize cfg p (nextChunk D)) (NewBuf (PartSize cfg))]" by (simp add: grown_def Let_def)
    from ring_last [OF this] n(2) [OF True] n(3) True show ?thesis
      by (auto simp: sent_def fresh_task_def Buf_Reset_def) (auto simp: grown_def Let_def)
  next
    case False
    then show ?thesis by (simp add: sent_def grown_def Let_def)
  qed
qed

lemma reused_kept:
  assumes "counts_inv cfg p D"
  shows "kept D ((reused cfg p D)\<lparr>readingID := k, curBuf := j, rPos := Suc (rPos D)\<rparr>)" (is "kept D ?D")
    "sent cfg p D ((reused cfg p D)\<lparr>readingID := k, curBuf := j, rPos := Suc (rPos D)\<rparr>)"
proof -
  let ?n = "nextChunk D"
  have pl: "place ?D = place D" by (simp add: place_def reused_def Let_def fun_eq_iff)
  have c: "?n \<le> rPos D + length (bufs D)" "pos D = cstart cfg p ?n" using assms by (simp_all add: counts_inv_def)
  have "place D ?n \<noteq> place D i" if "Suc (rPos D) \<le> i" "i < ?n" for i
    using mod_window [of ?n "length (bufs D)" i "Suc (rPos D)"] that c(1) by (auto simp: place_def)
  then have "ring ?D i = ring D i" if "Suc (rPos D) \<le> i" "i < ?n" for i
    using that unfolding ring_def pl by (simp add: reused_def Let_def)
  then show "kept D ?D" using pl unfolding kept_def by (auto simp: reused_def Let_def)
  have "ring ?D ?n = Buf_Reset (csize cfg p ?n) (ring D ?n)" if "?n < nparts cfg p"
    using that place_less [OF assms, of ?n] unfolding ring_def pl by (simp add: reused_def Let_def)
  then show "sent cfg p D ?D"
    using c(2) unfolding sent_def fresh_task_def pl by (cases "?n < nparts cfg p") (auto simp: Buf_Reset_def reused_def Let_def)
qed

lemma grown_fields [simp]:
  "rPos (grown cfg p isNew l D) = rPos D" "curBuf (grown cfg p isNew l D) = curBuf D" "atEnd (grown cfg p isNew l D) = atEnd D"
  "maxPart (grown cfg p isNew l D) = maxPart D" "maxPos (grown cfg p isNew l D) = maxPos D"
  "length (bufs (grown cfg p isNew l D)) = Suc (length (bufs D))"
  "nextChunk (grown cfg p isNew l D) = nextChunk D + (if nextChunk D < nparts cfg p then 1 else 0)"
  "concurrency (grown cfg p isNew l D) = (if isNew then concurrency D - 1 else concurrency D)"
  "length (workers (grown cfg p isNew l D)) = length (workers D) + (if isNew then 1 else 0)"
  "pos (grown cfg p isNew l D) = pos D + (if nextChunk D < nparts cfg p then csize cfg p (nextChunk D) else 0)"
  by (simp_all add: grown_def Let_def)

lemma grown_place:
  assumes "counts_inv cfg p D" "0 < concurrency D" "i < nextChunk D + (if nextChunk D < nparts cfg p then 1 else 0)"
  shows "place (grown cfg p isNew l D) i = i"
proof -
  have "nextChunk D \<le> length (bufs D)" using assms by (simp add: counts_inv_def)
  then show ?thesis using assms(3) by (simp add: place_def split: if_splits)
qed

lemma grown_inv:
  assumes ok: "dl_ok cfg p F" and inv: "dl_inv cfg p F D" and c: "0 < concurrency D"
  shows "dl_inv cfg p F (grown cfg p True l D)"
proof (rule send_inv [OF _ inv])
  have cn: "counts_inv cfg p D" using inv by (simp add: dl_inv_def)
  show "0 < PartSize cfg" using ok by (simp add: dl_ok_def)
  show "sent cfg p D (grown cfg p True l D)" "kept D (grown cfg p True l D)" using grown_kept [OF cn c] by auto
  show "moved cfg p D (grown cfg p True l D)" by (simp add: moved_def)
  have "rPos D < nextChunk D" "rPos D < length (bufs D)" "curBuf D = place D (rPos D)" using cn c by (auto simp: counts_inv_def)
  then have "curBuf D = place (grown cfg p True l D) (rPos D)" using grown_place [OF cn c, of "rPos D" True l] by (simp add: place_def)
  then show "counts_inv cfg p (grown cfg p True l D)" using cn c unfolding counts_inv_def by (auto simp: cstart_Suc)
qed

lemma sendChunkTask_inv:
  assumes "dl_ok cfg p F" "dl_inv cfg p F D" "sendChunkTask cfg p True D = Some D'"
  shows "dl_inv cfg p F D'"
proof -
  have "counts_inv cfg p D" using assms(2) by (simp add: dl_inv_def)
  from sendChunkTask_cases [OF assms(1) this assms(3)] grown_inv [OF assms(1,2)] assms(2) show ?thesis by auto
qed

text \<open>The reader moves on.\<close>

lemma sent_dlFailed [simp]: "dlFailed (grown cfg p isNew l D) = dlFailed D" "dlFailed (reused cfg p D) = dlFailed D"
  by (simp_all add: grown_def reused_def Let_def)

lemma next_buf_step:
  assumes ok: "dl_ok cfg p F" and cn: "counts_inv cfg p D" and s: "sendChunkTask cfg p False D = Some D1" and more: "Suc (rPos D) < nparts cfg p"
  defines "D' \<equiv> D1\<lparr>readingID := Suc (rPos D), curBuf := getBuf (Suc (rPos D)) D1, rPos := Suc (rPos D)\<rparr>"
  shows "sent cfg p D D'" "kept D D'" "counts_inv cfg p D'" "dlFailed D' = dlFailed D"
proof -
  let ?D = "D1\<lparr>readingID := Suc (rPos D), curBuf := getBuf (Suc (rPos D)) D1, rPos := Suc (rPos D)\<rparr>"
  have g: "curBuf ?D = place ?D (rPos ?D)" by (simp add: getBuf_def place_def)
  have r: "nextChunk D \<le> Suc (rPos D) \<Longrightarrow> nextChunk D = Suc (rPos D)" using cn by (auto simp: counts_inv_def)
  from sendChunkTask_cases [OF ok cn s]
  consider l where "0 < concurrency D" "D1 = grown cfg p False l D" | "concurrency D \<le> 0" "D1 = reused cfg p D" by auto
  then have "sent cfg p D ?D \<and> kept D ?D \<and> counts_inv cfg p ?D"
  proof cases
    case 1
    have k: "kept D D1" "sent cfg p D D1" using grown_kept [OF cn 1(1), of False l] 1(2) by auto
    have f: "ring ?D = ring D1" "place ?D = place D1" by (auto simp: ring_def place_def fun_eq_iff)
    have "rPos D \<le> rPos ?D" by simp
    then have "kept D ?D" using k(1) 1(2) unfolding kept_def f by auto
    moreover have "sent cfg p D ?D" using k(2) unfolding sent_def fresh_task_def f by simp
    moreover have "counts_inv cfg p ?D" using cn 1 more r unfolding counts_inv_def by (intro conjI g) (auto simp: cstart_Suc)
    ultimately show ?thesis by blast
  next
    case 2
    have "counts_inv cfg p ?D" using cn 2 more r unfolding counts_inv_def by (intro conjI g) (auto simp: cstart_Suc reused_def Let_def)
    with reused_kept [OF cn] 2(2) show ?thesis by blast
  qed
  then show "sent cfg p D D'" "kept D D'" "counts_inv cfg p D'" unfolding D'_def by blast+
  show "dlFailed D' = dlFailed D" using sendChunkTask_cases [OF ok cn s] by (auto simp: D'_def)
qed

lemma next_buf_inv:
  assumes ok: "dl_ok cfg p F" and inv: "dl_inv cfg p F D" and s: "sendChunkTask cfg p False D = Some D1"
    and more: "Suc (rPos D) < nparts cfg p" and full: "bufOff (ring D (rPos D)) = csize cfg p (rPos D)" "\<not> atEnd D"
  shows "dl_inv cfg p F (D1\<lparr>readingID := Suc (rPos D), curBuf := getBuf (Suc (rPos D)) D1, rPos := Suc (rPos D)\<rparr>)"
proof -
  have cn: "counts_inv cfg p D" using inv by (simp add: dl_inv_def)
  show ?thesis by (rule send_inv [OF _ inv _ _ _ next_buf_step(3) [OF ok cn s more]])
    (use ok full next_buf_step [OF ok cn s more] in \<open>simp_all add: dl_ok_def moved_def\<close>)
qed

lemma full_buf:
  assumes "dl_inv cfg p F D" "bufSize (ring D (rPos D)) \<le> bufOff (ring D (rPos D))"
  shows "bufOff (ring D (rPos D)) = csize cfg p (rPos D)"
proof -
  have "buf_ok cfg p F (rPos D) (ring D (rPos D))" using assms(1) by (simp add: dl_inv_def counts_inv_def bytes_inv_def)
  with assms(2) show ?thesis by (auto simp: buf_ok_def have_bytes_def)
qed

lemma finishBuf_inv:
  assumes ok: "dl_ok cfg p F" and inv: "dl_inv cfg p F D" and full: "bufSize (ring D (rPos D)) \<le> bufOff (ring D (rPos D))" and e: "\<not> atEnd D"
    and f: "finishBuf cfg p D = Some D'"
  shows "dl_inv cfg p F D'"
proof -
  have cn: "counts_inv cfg p D" and by_: "bytes_inv cfg p F D" and ta: "tasks_inv cfg p D" using inv by (simp_all add: dl_inv_def)
  have r: "rPos D < nextChunk D" "nextChunk D \<le> nparts cfg p" "maxPart D = int (nparts cfg p)" using cn by (auto simp: counts_inv_def)
  note off = full_buf [OF inv full]
  show ?thesis
  proof (cases "Suc (rPos D) < nparts cfg p")
    case True
    with f r obtain D1 where "sendChunkTask cfg p False D = Some D1"
      and "D' = D1\<lparr>readingID := Suc (rPos D), curBuf := getBuf (Suc (rPos D)) D1, rPos := Suc (rPos D)\<rparr>"
      by (auto simp: finishBuf_def Let_def split: if_splits)
    with next_buf_inv [OF ok inv _ True off e] show ?thesis by simp
  next
    case False
    with f r have D': "D' = D\<lparr>atEnd := True\<rparr>" "Suc (rPos D) = nparts cfg p" by (auto simp: finishBuf_def Let_def split: if_splits)
    have "counts_inv cfg p D'" using cn by (simp add: D' counts_inv_def place_def)
    moreover have "bytes_inv cfg p F D'" using by_ D'(2) off by (simp add: D' bytes_inv_def ring_def place_def)
    moreover have "tasks_inv cfg p D'"
    proof -
      have "ring D' = ring D" "place D' = place D" "tasks D' = tasks D" by (auto simp: D' ring_def place_def tasks_def fun_eq_iff)
      with ta show ?thesis by (simp add: tasks_inv_def D')
    qed
    ultimately show ?thesis by (simp add: dl_inv_def)
  qed
qed

lemma read_inv:
  assumes ok: "dl_ok cfg p F" and inv: "dl_inv cfg p F D" and e: "\<not> atEnd D" and r: "MultiReadCloser_Read cfg p m D = Some D'"
  shows "dl_inv cfg p F D'"
proof -
  have cur: "bufs D ! curBuf D = ring D (rPos D)" using inv by (simp add: dl_inv_def counts_inv_def ring_def)
  show ?thesis
    using r read_bytes_inv [OF ok inv e, of m] finishBuf_inv [OF ok inv _ e] inv cur
    by (auto simp: MultiReadCloser_Read_def Buf_Read_def Let_def split: if_splits)
qed

end
