(* ===== verification/DownloadCover.thy ===== *)
theory DownloadCover
  imports DownloadSteps
begin

text \<open>
  No chunk is lost: as long as the download has no error, every chunk whose buffer is not full is in the channel or in the
  hands of a goroutine.
\<close>

section \<open>Chunks that lack bytes\<close>

definition lacking :: "Downloader \<Rightarrow> HttpRequestParams \<Rightarrow> downloader \<Rightarrow> nat \<Rightarrow> bool" where
  "lacking cfg p D i \<longleftrightarrow> rPos D \<le> i \<and> i < nextChunk D \<and> have_bytes (ring D i) < csize cfg p i"

definition cover_inv :: "Downloader \<Rightarrow> HttpRequestParams \<Rightarrow> downloader \<Rightarrow> bool" where
  "cover_inv cfg p D \<longleftrightarrow> dlFailed D \<or> (\<forall>i. lacking cfg p D i \<longrightarrow> i \<in># task_ids (tasks D))"

lemma cover_by:
  assumes "cover_inv cfg p D" "dlFailed D \<Longrightarrow> dlFailed D'"
    and "\<And>i. \<lbrakk>\<not> dlFailed D'; lacking cfg p D' i\<rbrakk> \<Longrightarrow>
      i \<in># task_ids (tasks D') \<or> (lacking cfg p D i \<and> (i \<in># task_ids (tasks D) \<longrightarrow> i \<in># task_ids (tasks D')))"
  shows "cover_inv cfg p D'"
  using assms unfolding cover_inv_def by blast

lemma cover_core:
  assumes "cover_inv cfg p D" "dlFailed D \<Longrightarrow> dlFailed D'" "rPos D' = rPos D" "nextChunk D' = nextChunk D" "bufs D' = bufs D"
    and "\<not> dlFailed D' \<Longrightarrow> task_ids (tasks D) \<subseteq># task_ids (tasks D')"
  shows "cover_inv cfg p D'"
proof (rule cover_by [OF assms(1,2)])
  show "i \<in># task_ids (tasks D') \<or> (lacking cfg p D i \<and> (i \<in># task_ids (tasks D) \<longrightarrow> i \<in># task_ids (tasks D')))"
    if "\<not> dlFailed D'" "lacking cfg p D' i" for i
    using that(2) assms(3-5) mset_subset_eqD [OF assms(6) [OF that(1)]] by (simp add: lacking_def ring_def place_def)
qed

lemma task_ids_union [simp]: "task_ids (M + N) = task_ids M + task_ids N" "task_ids (add_mset x M) = add_mset (chId (fst x)) (task_ids M)" "task_ids {#} = {#}"
  by (simp_all add: task_ids_def)

lemma ids_set_worker:
  assumes "worker_at i D = w0" "w0 \<noteq> Gone" "task_ids (pend w0) \<subseteq># task_ids (pend w)"
  shows "task_ids (tasks D) \<subseteq># task_ids (tasks (set_worker i w D))"
proof -
  have "task_ids (tasks (set_worker i w D)) + task_ids (pend w0) = task_ids (tasks D) + task_ids (pend w)"
    using arg_cong [OF tasks_set_worker [OF assms(1,2)], of task_ids] by simp
  with assms(3) show ?thesis by (metis mset_subset_eq_mono_add_right_cancel subset_mset.add_left_mono)
qed

lemma dlFailed_set_worker [simp]: "dlFailed (set_worker i w D) = dlFailed D"
  by (simp add: set_worker_def)

lemma set_worker_cover:
  assumes "cover_inv cfg p D" "worker_at i D = w0" "w0 \<noteq> Gone" "dlFailed D \<or> task_ids (pend w0) \<subseteq># task_ids (pend w)"
  shows "cover_inv cfg p (set_worker i w D)"
  by (rule cover_core [OF assms(1)]) (use assms(4) ids_set_worker [OF assms(2,3)] in auto)

lemma flags_cover:
  assumes "cover_inv cfg p D"
  shows "cover_inv cfg p (D\<lparr>limit := l\<rparr>)" "cover_inv cfg p (D\<lparr>canceled := b\<rparr>)" "cover_inv cfg p (D\<lparr>closing := c\<rparr>)" "cover_inv cfg p (D\<lparr>written := n\<rparr>)"
    "dlFailed D \<longrightarrow> a \<Longrightarrow> cover_inv cfg p (D\<lparr>dlFailed := a\<rparr>)"
  by (rule cover_core [OF assms]; simp add: tasks_def)+

lemma fail_cover [simp]: "cover_inv cfg p (fail i D)"
  by (simp add: fail_def cover_inv_def)

section \<open>The steps\<close>

lemma take_chunk_cover:
  assumes "cover_inv cfg p D" "worker_at i D = Idle"
  shows "cover_inv cfg p (take_chunk i D)"
proof (cases "chunkChannel D")
  case Nil
  have "cover_inv cfg p (leave i D)" unfolding leave_def by (intro flags_cover set_worker_cover [OF assms]) simp_all
  with Nil assms(1) show ?thesis by (simp add: take_chunk_def)
next
  case (Cons c cs)
  let ?D = "D\<lparr>chunkChannel := cs\<rparr>"
  have idle: "worker_at i ?D = Idle" using assms(2) by (simp add: worker_at_def split: if_splits)
  have "tasks (set_worker i (Trying c 0 0) ?D) = tasks D" using tasks_set_worker [OF idle, of "Trying c 0 0"] Cons by (simp add: tasks_def)
  then have "cover_inv cfg p (set_worker i (Trying c 0 0) ?D)" by (intro cover_core [OF assms(1)]) simp_all
  moreover have "cover_inv cfg p (leave i ?D)" if "dlFailed D" using that by (simp add: cover_inv_def leave_def)
  ultimately show ?thesis using Cons by (simp add: take_chunk_def Let_def)
qed

lemma overload_cover:
  assumes cv: "cover_inv cfg p D" and w: "worker_at i D = Trying c r v" and o: "overload cfg i c r v D = Some D'"
  shows "cover_inv cfg p D'"
proof -
  have retry: "cover_inv cfg p (set_worker i (Trying c r' v') D)" for r' v' by (rule set_worker_cover [OF cv w]) simp_all
  have idle: "cover_inv cfg p (set_worker i Idle D)" if "dlFailed D" using that by (simp add: cover_inv_def)
  have re: "cover_inv cfg p (set_worker i u (D\<lparr>concurrency := k, chunkChannel := chunkChannel D @ [c]\<rparr>))" if "pend u = {#}" for u k
  proof (rule cover_core [OF cv])
    let ?D = "D\<lparr>concurrency := k, chunkChannel := chunkChannel D @ [c]\<rparr>"
    have "worker_at i ?D = Trying c r v" using w by (simp add: worker_at_def split: if_splits)
    then have "tasks (set_worker i u ?D) = tasks D" using tasks_set_worker [of i ?D "Trying c r v" u] that by (simp add: tasks_def)
    then show "task_ids (tasks D) \<subseteq># task_ids (tasks (set_worker i u ?D))" by simp
  qed simp_all
  show ?thesis
    using o retry idle re [of Idle] flags_cover(1) [OF re [of Gone]]
    by (auto simp: overload_def Let_def leave_def split: if_splits)
qed

lemma try_chunk_cover:
  assumes "cover_inv cfg p D" "worker_at i D = Trying c r v" "try_chunk cfg a i c r v D = Some D'"
  shows "cover_inv cfg p D'"
proof -
  have "cover_inv cfg p (set_worker i (Connected c r v) D)" by (rule set_worker_cover [OF assms(1,2)]) simp_all
  moreover have "cover_inv cfg p (set_worker i Idle D)" if "dlFailed D" using that by (simp add: cover_inv_def)
  ultimately show ?thesis using assms(3) overload_cover [OF assms(1,2)] by (auto simp: try_chunk_def split: answer.splits if_splits)
qed

text \<open>A chunk that is sent is in the channel; the reader leaves only full chunks.\<close>

lemma send_cover:
  assumes "cover_inv cfg p D" "sent cfg p D D'" "moved cfg p D D'" "kept D D'" "dlFailed D' = dlFailed D"
  shows "cover_inv cfg p D'"
proof (rule cover_by [OF assms(1)])
  fix i assume l: "lacking cfg p D' i"
  have pn: "pends (workers D') = pends (workers D)" using assms(4) by (simp add: kept_def)
  from assms(2) consider "nextChunk D' = nextChunk D" "tasks D' = tasks D"
    | c where "nextChunk D' = Suc (nextChunk D)" "tasks D' = add_mset (c, 0) (tasks D)" "chId c = nextChunk D"
    by (auto simp: sent_def tasks_def pn fresh_task_def)
  then have "(i \<in># task_ids (tasks D') \<or> i < nextChunk D) \<and> (i \<in># task_ids (tasks D) \<longrightarrow> i \<in># task_ids (tasks D'))"
    using l by cases (auto simp: lacking_def)
  moreover have "lacking cfg p D i" if "i < nextChunk D" using l that assms(3,4) by (auto simp: lacking_def moved_def kept_def)
  ultimately show "i \<in># task_ids (tasks D') \<or> (lacking cfg p D i \<and> (i \<in># task_ids (tasks D) \<longrightarrow> i \<in># task_ids (tasks D')))"
    by blast
qed (simp add: assms(5))

lemma sendChunkTask_cover:
  assumes "dl_ok cfg p F" "dl_inv cfg p F D" "cover_inv cfg p D" "sendChunkTask cfg p True D = Some D'"
  shows "cover_inv cfg p D'"
proof -
  have cn: "counts_inv cfg p D" using assms(2) by (simp add: dl_inv_def)
  have "cover_inv cfg p (grown cfg p True l D)" if "0 < concurrency D" for l
    by (rule send_cover [OF assms(3)]) (use grown_kept [OF cn that, of True l] in \<open>simp_all add: moved_def\<close>)
  with sendChunkTask_cases [OF assms(1) cn assms(4)] assms(3) show ?thesis by auto
qed

lemma copy_bytes_cover:
  fixes m :: nat
  assumes ok: "dl_ok cfg p F" and inv: "dl_inv cfg p F D" and cv: "cover_inv cfg p D" and w: "worker_at i D = Copying c r v n"
  defines "k \<equiv> min (int m) (chSize c - n)"
  shows "cover_inv cfg p (copy_bytes (file_slice F (chStart c + n) k) i c r v n D)"
proof (cases "canceled D \<or> \<not> bufOpen (bufs D ! chBuf c) \<or> \<not> n < chSize c")
  case True
  have "n \<le> chSize c"
    using worker_atD [OF w] inv by (metis copying_ok.simps(1) dl_inv_def nth_mem tasks_inv_def worker.distinct(19))
  then have "file_slice F (chStart c + n) k = []" if "\<not> n < chSize c" using that by (simp add: k_def file_slice_def)
  moreover have "cover_inv cfg p (set_worker i (Copying c r v n) D)" by (rule set_worker_cover [OF cv w]) simp_all
  ultimately show ?thesis using True cv by (auto simp: copy_bytes_def Buf_Write_def)
next
  case False
  then have lt: "n < chSize c" and k: "0 \<le> k" "n + k \<le> chSize c" by (auto simp: k_def)
  let ?bs = "file_slice F (chStart c + n) k" and ?j = "chId c"
  define b where "b = (ring D ?j)\<lparr>buffer := buffer (ring D ?j) @ ?bs\<rparr>"
  let ?W = "with_buf ?j b D"
  let ?D = "set_worker i (Copying c r v (n + k)) ?W"
  have cn: "counts_inv cfg p D" using inv by (simp add: dl_inv_def)
  have len: "int (length ?bs) = k" by (rule write_inv(2) [OF ok inv w lt k])
  have t: "rPos D \<le> ?j" "?j < nextChunk D" "chBuf c = place D ?j" "chSize c - n = csize cfg p ?j - have_bytes (ring D ?j)"
    using copying_task(2) [OF inv w lt] by (auto simp: task_ok_def)
  have "copy_bytes ?bs i c r v n D = ?D"
    using False t(3) len by (simp add: copy_bytes_def Buf_Write_def b_def with_buf_def ring_def)
  moreover have "cover_inv cfg p ?D"
  proof (rule cover_by [OF cv])
    fix l assume l: "lacking cfg p ?D l"
    note ring = with_buf_ring [OF cn, where j = ?j and b = b]
    have hb: "have_bytes b = have_bytes (ring D ?j) + k" using len by (simp add: b_def have_bytes_def)
    have "worker_at i ?W = Copying c r v n" using w by (simp add: worker_at_def split: if_splits)
    then obtain M where "tasks ?W = M + {#(c, n)#}" and tw: "\<And>u. tasks (set_worker i u ?W) = M + pend u"
      using worker_task lt by (metis pend.simps(3) worker.distinct(19))
    then have M: "task_ids (tasks D) = add_mset ?j (task_ids M)" by simp
    show "l \<in># task_ids (tasks ?D) \<or> (lacking cfg p D l \<and> (l \<in># task_ids (tasks D) \<longrightarrow> l \<in># task_ids (tasks ?D)))"
    proof (cases "l = ?j")
      case True
      with l ring(1) hb t(4) have "n + k < chSize c" by (simp add: lacking_def)
      with True show ?thesis by (simp add: tw)
    next
      case False
      with l ring(2) [of l] t(1,2) have "lacking cfg p D l" by (simp add: lacking_def)
      with False M show ?thesis by (simp add: tw)
    qed
  qed (simp add: with_buf_def)
  ultimately show ?thesis by simp
qed

lemma end_copy_cover:
  assumes inv: "dl_inv cfg p F D" and cv: "cover_inv cfg p D" and w: "worker_at i D = Copying c r v n"
  shows "cover_inv cfg p (end_copy cfg i c r v n D)"
proof -
  have w': "worker_at i (D\<lparr>written := m\<rparr>) = Copying c r v n" for m using w by (auto simp: worker_at_def split: if_splits)
  have retry: "cover_inv cfg p (set_worker i (Trying c' r' v) (D\<lparr>written := m\<rparr>))" if "chId c' = chId c" for c' r' m
    by (rule set_worker_cover [OF flags_cover(4) [OF cv] w']) (simp_all add: that)
  have idle: "cover_inv cfg p (set_worker i Idle D)" if "n = chSize c \<or> dlFailed D" by (rule set_worker_cover [OF cv w]) (use that in auto)
  show ?thesis using retry idle flags_cover(4) [OF idle] by (auto simp: end_copy_def Let_def)
qed

lemma finishBuf_cover:
  assumes ok: "dl_ok cfg p F" and inv: "dl_inv cfg p F D" and cv: "cover_inv cfg p D"
    and full: "bufSize (ring D (rPos D)) \<le> bufOff (ring D (rPos D))" and e: "\<not> atEnd D" and f: "finishBuf cfg p D = Some D'"
  shows "cover_inv cfg p D'"
proof (cases "Suc (rPos D) < nparts cfg p")
  case True
  have cn: "counts_inv cfg p D" and "maxPart D = int (nparts cfg p)" using inv by (simp_all add: dl_inv_def counts_inv_def)
  with f True obtain D1 where s: "sendChunkTask cfg p False D = Some D1"
    and D': "D' = D1\<lparr>readingID := Suc (rPos D), curBuf := getBuf (Suc (rPos D)) D1, rPos := Suc (rPos D)\<rparr>"
    by (auto simp: finishBuf_def Let_def split: if_splits)
  note st = next_buf_step [OF ok cn s True, folded D']
  have "moved cfg p D D'" using full_buf [OF inv full] e by (simp add: D' moved_def)
  from send_cover [OF cv st(1) this st(2,4)] show ?thesis .
next
  case False
  moreover have "maxPart D = int (nparts cfg p)" using inv by (simp add: dl_inv_def counts_inv_def)
  ultimately have "D' = D\<lparr>atEnd := True\<rparr>" using f by (auto simp: finishBuf_def Let_def split: if_splits)
  then show ?thesis by (intro cover_core [OF cv]) (simp_all add: tasks_def)
qed

text \<open>Buffers that hold as many bytes of their chunks as before.\<close>

lemma same_bytes_cover:
  assumes "cover_inv cfg p D" "dlFailed D' = dlFailed D" "rPos D' = rPos D" "nextChunk D' = nextChunk D" "tasks D' = tasks D"
    and "\<And>i. rPos D \<le> i \<Longrightarrow> i < nextChunk D \<Longrightarrow> have_bytes (ring D' i) = have_bytes (ring D i)"
  shows "cover_inv cfg p D'"
  using assms by (auto simp: cover_inv_def lacking_def)

lemma read_cover:
  assumes ok: "dl_ok cfg p F" and inv: "dl_inv cfg p F D" and cv: "cover_inv cfg p D" and e: "\<not> atEnd D"
    and r: "MultiReadCloser_Read cfg p m D = Some D'"
  shows "cover_inv cfg p D'"
proof -
  let ?b = "ring D (rPos D)"
  let ?b' = "?b\<lparr>buffer := drop m (buffer ?b), bufOff := bufOff ?b + int (length (take m (buffer ?b)))\<rparr>"
  have cn: "counts_inv cfg p D" using inv by (simp add: dl_inv_def)
  have rp: "rPos D < nextChunk D" and pl: "curBuf D = place D (rPos D)" using cn by (simp_all add: counts_inv_def)
  have cur: "bufs D ! curBuf D = ?b" by (simp add: ring_def pl)
  then have id: "(bufs D)[curBuf D := ?b] = bufs D" by (metis list_update_id)
  have "cover_inv cfg p (D\<lparr>bufs := (bufs D)[curBuf D := ?b'], readBytes := x\<rparr>)" for x
  proof (rule same_bytes_cover [OF cv])
    let ?D = "D\<lparr>bufs := (bufs D)[curBuf D := ?b'], readBytes := x\<rparr>"
    have "ring ?D = ring (with_buf (rPos D) ?b' D)" by (auto simp: ring_def place_def with_buf_def fun_eq_iff pl)
    moreover have "have_bytes ?b' = have_bytes ?b" by (simp add: have_bytes_def)
    ultimately show "have_bytes (ring ?D i) = have_bytes (ring D i)" if "rPos D \<le> i" "i < nextChunk D" for i
      using with_buf_ring [OF cn, where j = "rPos D" and b = ?b'] that rp by (cases "i = rPos D") simp_all
  qed (simp_all add: tasks_def)
  then show ?thesis
    using r finishBuf_cover [OF ok inv cv _ e] cv cur id by (auto simp: MultiReadCloser_Read_def Buf_Read_def Let_def split: if_splits)
qed

lemma interrupt_close_cover:
  assumes "counts_inv cfg p D" "cover_inv cfg p D"
  shows "cover_inv cfg p (interrupt_close D)"
proof (rule same_bytes_cover [OF assms(2)])
  have "place (interrupt_close D) i = place D i" for i by (simp add: interrupt_close_def place_def)
  then have "ring (interrupt_close D) i = Buf_Close (ring D i)" for i
    using place_less [OF assms(1), of i] by (simp add: ring_def) (simp add: interrupt_close_def)
  then show "have_bytes (ring (interrupt_close D) i) = have_bytes (ring D i)" for i by (simp add: Buf_Close_def have_bytes_def)
qed (simp_all add: interrupt_close_def tasks_def)

end
