(* ===== verification/DownloadProps.thy ===== *)
theory DownloadProps
  imports DownloadCover
begin

text \<open>
  What the downloader in chunks promises to its reader, in every state that the goroutines and the reader reach: the bytes
  read are the bytes of the range in order, a send never waits for room in the channel, and no chunk is lost as long as
  nothing fails.  Four runs at the end show what the code does not promise.
\<close>

section \<open>Every step\<close>

text \<open>An answer in good order starts one goroutine more, if there may be one, and the copying of the body.\<close>

lemma spread_step:
  assumes ok: "dl_ok cfg p F" and inv: "dl_inv cfg p F D" and w: "worker_at i D = Connected c r v"
    and s: "check_and_spread cfg p cr len i c r v D = Some D'"
  obtains "D' = fail i D" | D1 where "sendChunkTask cfg p True D = Some D1" "D' = set_worker i (Copying c r v 0) D1"
    "worker_at i D1 = Connected c r v" "dl_inv cfg p F D1" "0 < chSize c"
proof (cases "chId c = 0 \<and> \<not> checkTotalBytes p cr len")
  case True
  with s that(1) show thesis by (auto simp: check_and_spread_def)
next
  case False
  with s obtain D1 where D1: "sendChunkTask cfg p True D = Some D1" "D' = set_worker i (Copying c r v 0) D1"
    by (auto simp: check_and_spread_def split: if_splits)
  have cn: "counts_inv cfg p D" using inv by (simp add: dl_inv_def)
  have "i < length (workers D)" "workers D ! i = Connected c r v" using worker_atD [OF w] by auto
  with sendChunkTask_cases [OF ok cn D1(1)] w have w1: "worker_at i D1 = Connected c r v"
    by (auto simp: worker_at_def grown_def Let_def nth_append)
  have inv1: "dl_inv cfg p F D1" by (rule sendChunkTask_inv [OF ok inv D1(1)])
  have "(c, 0) \<in># tasks D1"
    using pend_pends [of "workers D1 ! i" "workers D1"] worker_atD [OF w1] nth_mem [of i "workers D1"] by (simp add: tasks_def)
  then have "0 < chSize c" using inv1 by (auto simp: dl_inv_def tasks_inv_def task_ok_def)
  with that(2) D1 w1 inv1 show thesis by blast
qed

lemma check_and_spread_inv:
  assumes "dl_ok cfg p F" "dl_inv cfg p F D" "cover_inv cfg p D" "worker_at i D = Connected c r v"
    and "check_and_spread cfg p cr len i c r v D = Some D'"
  shows "dl_inv cfg p F D' \<and> cover_inv cfg p D'"
  using assms(1,2,4,5)
proof (cases rule: spread_step)
  case 1
  then show ?thesis using fail_inv [OF assms(2,4)] by simp
next
  case (2 D1)
  have "cover_inv cfg p D1" by (rule sendChunkTask_cover [OF assms(1-3) 2(1)])
  then show ?thesis using 2 set_worker_inv [OF 2(4,3), of "Copying c r v 0"] set_worker_cover [OF _ 2(3), of cfg p "Copying c r v 0"] by simp
qed

lemma dl_exec_inv:
  assumes ok: "dl_ok cfg p F" and inv: "dl_inv cfg p F D" and cv: "cover_inv cfg p D" and e: "dl_exec cfg p F ev D = Some D'"
  shows "dl_inv cfg p F D' \<and> cover_inv cfg p D'"
proof (cases ev)
  case (Work i)
  have "cover_inv cfg p (set_worker i Idle D)" if "dlFailed D" using that by (simp add: cover_inv_def)
  with Work e inv cv take_chunk_inv [OF inv, of i] idle_inv [OF inv, of i] take_chunk_cover [OF cv, of i] show ?thesis
    by (auto split: worker.splits if_splits)
next
  case (Answer i a)
  with e inv cv try_chunk_inv [OF inv] try_chunk_cover [OF cv] show ?thesis by (auto split: worker.splits)
next
  case (Header i cr len)
  with e inv cv check_and_spread_inv [OF ok inv cv] show ?thesis by (auto split: worker.splits)
next
  case (Body i k)
  with e inv cv copy_bytes_inv [OF ok inv] copy_bytes_cover [OF ok inv cv] show ?thesis by (auto split: worker.splits)
next
  case (BodyEnds i)
  with e inv cv end_copy_inv [OF inv] end_copy_cover [OF inv cv] show ?thesis by (auto split: worker.splits)
next
  case (ReadInto m)
  with e inv cv read_inv [OF ok inv] read_cover [OF ok inv cv] show ?thesis by (auto split: if_splits)
next
  case CloseReader
  have "counts_inv cfg p D" using inv by (simp add: dl_inv_def)
  with CloseReader e inv cv interrupt_close_inv [OF inv] interrupt_close_cover [OF _ cv] show ?thesis by (auto split: if_splits)
qed (use e inv cv flags_inv flags_cover in \<open>auto simp: interrupt_cancel_def split: if_splits\<close>)

section \<open>The start\<close>

lemma nparts_int: "0 < PartSize cfg \<Longrightarrow> 0 \<le> Length (ReqRange p) \<Longrightarrow> int (nparts cfg p) = count_parts (Length (ReqRange p)) (PartSize cfg)"
  by (simp add: nparts_def count_parts_def pos_imp_zdiv_nonneg_iff)

text \<open>The number of goroutines is at most the number of parts, and two at least, or else there is one request.\<close>

lemma download_cfg:
  assumes "download cfg0 p l0 = (l, Some (Started cfg D))" "0 < PartSize cfg0" "0 < Length (ReqRange p)" "0 < Concurrency cfg0"
  shows "PartSize cfg = PartSize cfg0" "2 \<le> Concurrency cfg" "Concurrency cfg \<le> int (nparts cfg p)"
proof -
  let ?n = "count_parts (Length (ReqRange p)) (PartSize cfg0)"
  have n: "0 < ?n"
    using assms(2,3) pos_imp_zdiv_pos_iff [of "PartSize cfg0" "Length (ReqRange p)"] by (auto simp: count_parts_def pos_imp_zdiv_nonneg_iff add_nonneg_pos)
  have c: "cfg = (if ?n < Concurrency cfg0 then cfg0\<lparr>Concurrency := ?n\<rparr> else cfg0)" "Concurrency cfg \<noteq> 1"
    using assms(1) by (auto simp: download_def Let_def split: option.splits if_splits)
  then show P: "PartSize cfg = PartSize cfg0" by simp
  show "2 \<le> Concurrency cfg" using c n assms(4) by (auto split: if_splits)
  show "Concurrency cfg \<le> int (nparts cfg p)" using c nparts_int [of cfg p] P assms(2,3) by auto
qed

lemma chunk0_less: "\<lbrakk>0 < PartSize cfg; 2 \<le> nparts cfg p\<rbrakk> \<Longrightarrow> csize cfg p 0 < Length (ReqRange p)"
  using cstart_end [of cfg p] cstart_mono [of cfg 1 "nparts cfg p" p] by (simp add: cstart_Suc)

definition dl_init :: "Downloader \<Rightarrow> HttpRequestParams \<Rightarrow> int option \<Rightarrow> downloader" where
  "dl_init cfg p l =
     \<lparr>limit = l, chunkChannel = [\<lparr>chStart = Start (ReqRange p), chSize = csize cfg p 0, chId = 0, chBuf = 0, newConcurrency = True\<rparr>],
      chanClosed = False, nextChunk = 1, bufs = [Buf_Reset (csize cfg p 0) (NewBuf (PartSize cfg))], written = 0, dlFailed = False, canceled = False,
      concurrency = Concurrency cfg - 1, maxPart = count_parts (Length (ReqRange p)) (PartSize cfg), pos = Start (ReqRange p) + csize cfg p 0,
      maxPos = Start (ReqRange p) + Length (ReqRange p), readingID = 0, workers = [Idle], rPos = 0, curBuf = 0,
      atEnd = False, closing = False, readBytes = []\<rparr>"

lemma first_send:
  assumes "0 < Concurrency cfg" "0 < Length (ReqRange p)"
  shows "sendChunkTask cfg p True
      \<lparr>limit = l, chunkChannel = [], chanClosed = False, nextChunk = 0, bufs = [], written = 0, dlFailed = False,
       canceled = False, concurrency = Concurrency cfg, maxPart = count_parts (Length (ReqRange p)) (PartSize cfg), pos = Start (ReqRange p),
       maxPos = Start (ReqRange p) + Length (ReqRange p), readingID = 0, workers = [], rPos = 0, curBuf = 0,
       atEnd = False, closing = False, readBytes = []\<rparr> = Some (dl_init cfg p l)"
  using assms by (simp add: sendChunkTask_def Let_def csize_def dl_init_def)

lemma download_start:
  assumes "download cfg0 p l0 = (l, Some (Started cfg D))" "0 < Concurrency cfg" "0 < Length (ReqRange p)"
  shows "D = dl_init cfg p l"
proof -
  let ?n = "count_parts (Length (ReqRange p)) (PartSize cfg0)"
  define cfg' where "cfg' = (if ?n < Concurrency cfg0 then cfg0\<lparr>Concurrency := ?n\<rparr> else cfg0)"
  have P: "PartSize cfg' = PartSize cfg0" by (simp add: cfg'_def)
  have c: "cfg = cfg'" using assms(1) unfolding download_def Let_def cfg'_def [symmetric] by (simp split: option.splits if_splits)
  show ?thesis
    using assms(1) first_send [of cfg' p l, unfolded P] assms(2,3) unfolding download_def Let_def cfg'_def [symmetric] c
    by (auto split: option.splits if_split_asm simp del: if_split)
qed

lemma download_inv:
  assumes d: "download cfg0 p l0 = (l, Some (Started cfg D))" and ok: "dl_ok cfg p F"
  shows "dl_inv cfg p F D"
proof -
  have len: "0 < Length (ReqRange p)" "0 < PartSize cfg" "2 \<le> nparts cfg p" "0 < Concurrency cfg" using ok by (auto simp: dl_ok_def)
  have n: "count_parts (Length (ReqRange p)) (PartSize cfg) = int (nparts cfg p)" using nparts_int [OF len(2), of p] len(1) by simp
  note D = download_start [OF d len(4,1), unfolded dl_init_def n]
  have s: "0 < csize cfg p 0" using csize_bounds(1) len by simp
  have "counts_inv cfg p D" using cstart_end [OF len(2,3)] len ok by (simp add: D counts_inv_def place_def cstart_Suc dl_ok_def)
  moreover have "bytes_inv cfg p F D"
    using s by (simp add: D bytes_inv_def ring_def place_def buf_ok_def have_bytes_def Buf_Reset_def NewBuf_def file_slice_def)
  moreover have "tasks_inv cfg p D"
    using s by (simp add: D tasks_inv_def tasks_def pends_def task_ok_def ring_def place_def Buf_Reset_def have_bytes_def NewBuf_def task_ids_def unique_def)
  ultimately show ?thesis by (simp add: dl_inv_def)
qed

lemma dl_init_cover: "cover_inv cfg p (dl_init cfg p l)"
  by (simp add: cover_inv_def lacking_def dl_init_def tasks_def pends_def)

section \<open>Reached states\<close>

text \<open>A range with bytes, inside of the file.\<close>

definition range_in :: "HttpRequestParams \<Rightarrow> string \<Rightarrow> bool" where
  "range_in p F \<longleftrightarrow> 0 < Length (ReqRange p) \<and> 0 \<le> Start (ReqRange p) \<and> Start (ReqRange p) + Length (ReqRange p) \<le> int (length F)"

lemma reached_inv:
  assumes d: "download cfg0 p l0 = (l, Some (Started cfg D0))" and "0 < PartSize cfg0" "0 < Concurrency cfg0" and r: "range_in p F"
    and "dl_reached cfg p F D0 D"
  shows "dl_ok cfg p F \<and> dl_inv cfg p F D \<and> cover_inv cfg p D"
proof -
  have L: "0 < Length (ReqRange p)" using r by (simp add: range_in_def)
  note c = download_cfg [OF d assms(2) L assms(3)]
  have ok: "dl_ok cfg p F" using c assms(2) r by (simp add: dl_ok_def range_in_def)
  from assms(5) have "dl_inv cfg p F D \<and> cover_inv cfg p D"
  proof induction
    case dl_start
    have "cover_inv cfg p D0" using download_start [OF d _ L] c(2) dl_init_cover by simp
    with download_inv [OF d ok] show ?case by simp
  next
    case (dl_next D ev D')
    then show ?case using dl_exec_inv [OF ok] by blast
  qed
  with ok show ?thesis by simp
qed

lemma prefix_file_slice:
  assumes "0 \<le> n" "n \<le> m"
  shows "prefix (file_slice F a n) (file_slice F a m)"
  using assms take_is_prefix [of "nat n" "take (nat m) (drop (nat a) F)"] by (simp add: file_slice_def min_def nat_le_eq_zle)

text \<open>Each live chunk has at most one task, so there are no more tasks than live chunks.\<close>

lemma unique_size:
  assumes "unique M" "set_mset M \<subseteq> {a..<b}"
  shows "size M \<le> b - a"
proof -
  have "size M = (\<Sum>k\<in>set_mset M. count M k)" by (rule size_multiset_overloaded_eq)
  also have "\<dots> \<le> (\<Sum>k\<in>set_mset M. 1)" using assms(1) unfolding unique_def by (intro sum_mono) simp
  also have "\<dots> = card (set_mset M)" by simp
  also have "\<dots> \<le> card {a..<b}" using assms(2) by (intro card_mono) simp_all
  finally show ?thesis by simp
qed

lemma channel_bound:
  assumes "dl_inv cfg p F D"
  shows "length (chunkChannel D) \<le> nat (Concurrency cfg)"
proof -
  have c: "nextChunk D \<le> rPos D + length (workers D)" "int (length (workers D)) \<le> Concurrency cfg" and t: "tasks_inv cfg p D"
    using assms by (simp_all add: dl_inv_def counts_inv_def)
  have "set_mset (task_ids (tasks D)) \<subseteq> {rPos D..<nextChunk D}" using t by (fastforce simp: tasks_inv_def task_ids_def task_ok_def)
  then have "size (task_ids (tasks D)) \<le> nextChunk D - rPos D" using t unique_size by (simp add: tasks_inv_def)
  moreover have "length (chunkChannel D) \<le> size (task_ids (tasks D))" by (simp add: task_ids_def tasks_def)
  ultimately show ?thesis using c by linarith
qed

lemma exec_panic: "dl_exec cfg p F ev D = None \<Longrightarrow> chanClosed D"
  by (cases ev) (auto simp: try_chunk_def overload_def check_and_spread_def MultiReadCloser_Read_def finishBuf_def sendChunkTask_def Let_def
      split: worker.splits answer.splits if_splits prod.splits read_result.splits option.splits)

section \<open>The promises\<close>


text \<open>A send on the channel never waits: there are never more chunks in it than its capacity, the number of goroutines that may
  run; the buffer of the reader exists; and a goroutine or the reader panics only after the reader was closed.\<close>

theorem download_no_block:
  assumes "download cfg0 p l0 = (l, Some (Started cfg D0))" "0 < PartSize cfg0" "0 < Concurrency cfg0" "range_in p F"
    and "dl_reached cfg p F D0 D"
  shows "length (chunkChannel D) \<le> nat (Concurrency cfg) \<and> curBuf D < length (bufs D) \<and> (dl_exec cfg p F ev D = None \<longrightarrow> chanClosed D)"
proof -
  from reached_inv [OF assms] have inv: "dl_inv cfg p F D" and cn: "counts_inv cfg p D" by (simp_all add: dl_inv_def)
  have "curBuf D = place D (rPos D)" using cn by (simp add: counts_inv_def)
  with channel_bound [OF inv] place_less [OF cn] exec_panic show ?thesis by simp
qed

text \<open>C31: No chunk is lost: while the download has no error, each chunk that is sent and not yet read, and whose buffer lacks bytes,
  is waiting in the channel or in the hands of a goroutine that still has bytes of it to copy.\<close>

theorem download_no_loss:
  assumes "download cfg0 p l0 = (l, Some (Started cfg D0))" "0 < PartSize cfg0" "0 < Concurrency cfg0" "range_in p F"
    and "dl_reached cfg p F D0 D" and "\<not> dlFailed D" "rPos D \<le> i" "i < nextChunk D"
    and "bufOff (bufs D ! getBuf i D) + int (length (buffer (bufs D ! getBuf i D))) < bufSize (bufs D ! getBuf i D)"
  shows "(\<exists>c\<in>set (chunkChannel D). chId c = i) \<or> (\<exists>w\<in>set (workers D). \<exists>x\<in>#pend w. chId (fst x) = i)"
proof -
  from reached_inv [OF assms(1-5)] have by_: "bytes_inv cfg p F D" and cv: "cover_inv cfg p D" by (simp_all add: dl_inv_def)
  have "buf_ok cfg p F i (ring D i)" using by_ assms(7,8) by (simp add: bytes_inv_def)
  then have "lacking cfg p D i"
    using assms(7-9) by (simp add: lacking_def have_bytes_def buf_ok_def ring_def place_def getBuf_def)
  with cv assms(6) have "i \<in># task_ids (tasks D)" by (simp add: cover_inv_def)
  then obtain x where x: "x \<in># tasks D" "chId (fst x) = i" by (auto simp: task_ids_def)
  then have "x \<in> (\<lambda>c. (c, 0)) ` set (chunkChannel D) \<or> (\<exists>w\<in>set (workers D). x \<in># pend w)"
    by (auto simp: tasks_def pends_def set_mset_sum_list)
  with x(2) show ?thesis by auto
qed

section \<open>Runs\<close>

fun dl_run :: "Downloader \<Rightarrow> HttpRequestParams \<Rightarrow> string \<Rightarrow> dl_event list \<Rightarrow> downloader \<Rightarrow> downloader go" where
  "dl_run cfg p F [] D = Some D"
| "dl_run cfg p F (ev # evs) D = (case dl_exec cfg p F ev D of None \<Rightarrow> panic | Some D' \<Rightarrow> dl_run cfg p F evs D')"

lemma dl_reached_trans: "\<lbrakk>dl_reached cfg p F D1 D2; dl_reached cfg p F D0 D1\<rbrakk> \<Longrightarrow> dl_reached cfg p F D0 D2"
  by (induction rule: dl_reached.induct) (auto intro: dl_next)

lemma dl_run_reached: "dl_run cfg p F evs D = Some D' \<Longrightarrow> dl_reached cfg p F D D'"
proof (induction evs arbitrary: D)
  case Nil
  then show ?case by (simp add: dl_start)
next
  case (Cons ev evs)
  then obtain D1 where "dl_exec cfg p F ev D = Some D1" "dl_run cfg p F evs D1 = Some D'" by (auto split: option.splits)
  with Cons.IH dl_next [OF dl_start] show ?case using dl_reached_trans by blast
qed

text \<open>Nine bytes of a file of ten, in parts of four, by two goroutines.\<close>

definition ex_cfg :: Downloader where
  "ex_cfg = \<lparr>PartSize = 4, PartBodyMaxRetries = 3, Concurrency = 2\<rparr>"

definition ex_req :: HttpRequestParams where
  "ex_req = \<lparr>ReqRange = \<lparr>Start = 1, Length = 9\<rparr>, ReqSize = 10\<rparr>"

definition ex_file :: string where
  "ex_file = ''abcdefghij''"

definition ex_chunk :: "nat \<Rightarrow> string \<Rightarrow> dl_event list" where
  "ex_chunk i header = [Work i, Answer i Success, Header i header 0, Body i 9, BodyEnds i]"

definition ex_whole :: "dl_event list" where
  "ex_whole = ex_chunk 0 ''bytes 1-2/10'' @ ex_chunk 1 '''' @ [ReadInto 9, ReadInto 9, ReadInto 9, ReadInto 9] @ ex_chunk 0 '''' @ [ReadInto 9, ReadInto 9]"

definition ex_half :: "dl_event list" where
  "ex_half = ex_chunk 0 ''bytes 1-2/10'' @ [Work 1, Answer 1 Success, Header 1 '''' 0, Body 1 2, ReadInto 1]"

definition ex_state :: "dl_event list \<Rightarrow> downloader" where
  "ex_state evs = the (dl_run ex_cfg ex_req ex_file evs (dl_init ex_cfg ex_req None))"

lemma ex_download: "download ex_cfg ex_req None = (None, Some (Started ex_cfg (dl_init ex_cfg ex_req None)))"
  by code_simp

lemma ex_range: "range_in ex_req ex_file" "0 < PartSize ex_cfg" "0 < Concurrency ex_cfg"
  by code_simp+

lemma ex_reached: "dl_run ex_cfg ex_req ex_file evs (dl_init ex_cfg ex_req None) \<noteq> None \<Longrightarrow> dl_reached ex_cfg ex_req ex_file (dl_init ex_cfg ex_req None) (ex_state evs)"
  using dl_run_reached by (auto simp: ex_state_def)

lemma ex_whole_state: "atEnd (ex_state ex_whole)" "dl_run ex_cfg ex_req ex_file ex_whole (dl_init ex_cfg ex_req None) \<noteq> None"
  by code_simp+

lemma ex_half_state:
  "dl_run ex_cfg ex_req ex_file ex_half (dl_init ex_cfg ex_req None) \<noteq> None"
  "\<not> dlFailed (ex_state ex_half)" "rPos (ex_state ex_half) \<le> 1" "1 < nextChunk (ex_state ex_half)"
  "bufOff (bufs (ex_state ex_half) ! getBuf 1 (ex_state ex_half)) + int (length (buffer (bufs (ex_state ex_half) ! getBuf 1 (ex_state ex_half))))
     < bufSize (bufs (ex_state ex_half) ! getBuf 1 (ex_state ex_half))"
  by code_simp+


theorem download_no_block_witness: "length (chunkChannel (ex_state ex_half)) \<le> nat (Concurrency ex_cfg)"
  using download_no_block [OF ex_download ex_range(2,3,1) ex_reached [OF ex_half_state(1)]] by blast

theorem download_no_loss_witness:
  "(\<exists>c\<in>set (chunkChannel (ex_state ex_half)). chId c = 1) \<or> (\<exists>w\<in>set (workers (ex_state ex_half)). \<exists>x\<in>#pend w. chId (fst x) = 1)"
  by (rule download_no_loss [OF ex_download ex_range(2,3,1) ex_reached [OF ex_half_state(1)] ex_half_state(2-5)])

section \<open>What is not promised\<close>

text \<open>An empty range makes \<^verbatim>\<open>download\<close> panic: no part means no goroutine and no buffer, and the first buffer is taken all the same.
  The slot of the limit that was taken before is not given back.\<close>

theorem download_empty_panics:
  assumes "Length (ReqRange p) = 0" "0 < Concurrency cfg" "limit_sub l0 = Some l"
  shows "download cfg p l0 = (l, panic)"
  using assms by (simp add: download_def count_parts_def sendChunkTask_def Let_def)

theorem download_empty_panics_witness:
  "download ex_cfg \<lparr>ReqRange = \<lparr>Start = 10, Length = 0\<rparr>, ReqSize = 10\<rparr> (Some 1) = (Some 0, panic)"
  by (rule download_empty_panics) code_simp+

definition ex_stuck :: "dl_event list" where
  "ex_stuck = ex_chunk 0 ''bytes 1-2/10'' @ [Work 1, Answer 1 Overloaded, Work 0, Answer 0 Overloaded, ReadInto 9, ReadInto 9]"

lemma ex_stuck_state:
  "dl_run ex_cfg ex_req ex_file ex_stuck (dl_init ex_cfg ex_req None) \<noteq> None"
  "workers (ex_state ex_stuck) = [Gone, Gone]" "limit (ex_state ex_stuck) = None" "closing (ex_state ex_stuck) = False"
  "canceled (ex_state ex_stuck) = False" "dlFailed (ex_state ex_stuck) = False" "atEnd (ex_state ex_stuck) = False"
  "bufs (ex_state ex_stuck) ! curBuf (ex_state ex_stuck) = \<lparr>buffer = [], bufSize = 3, bufOff = 0, bufOpen = True\<rparr>"
  by code_simp+

lemma read_waits:
  assumes "bufs D ! curBuf D = \<lparr>buffer = [], bufSize = s, bufOff = 0, bufOpen = True\<rparr>" "0 < s" "\<not> canceled D"
  shows "MultiReadCloser_Read cfg p n D = Some D"
proof -
  have "(bufs D)[curBuf D := \<lparr>buffer = [], bufSize = s, bufOff = 0, bufOpen = True\<rparr>] = bufs D" by (metis assms(1) list_update_id)
  then show ?thesis using assms by (simp add: MultiReadCloser_Read_def Buf_Read_def)
qed


definition ex_closed :: "dl_event list" where
  "ex_closed = [Work 0, Answer 0 Success, Header 0 ''bytes 1-2/10'' 0, Work 1, CancelReader, CloseReader]"

text \<open>Closing the reader while an answer arrives can crash the program: \<^verbatim>\<open>interrupt\<close> closes the channel, not under the mutex, and a
  goroutine that is told that the server is overloaded sends its chunk back on the closed channel.\<close>

theorem download_close_race:
  "dl_reached ex_cfg ex_req ex_file (dl_init ex_cfg ex_req None) (ex_state ex_closed) \<and> dl_exec ex_cfg ex_req ex_file (Answer 1 Overloaded) (ex_state ex_closed) = panic"
proof
  have "dl_run ex_cfg ex_req ex_file ex_closed (dl_init ex_cfg ex_req None) \<noteq> None" by code_simp
  then show "dl_reached ex_cfg ex_req ex_file (dl_init ex_cfg ex_req None) (ex_state ex_closed)" by (rule ex_reached)
qed code_simp

definition ex_slow :: "dl_event list" where
  "ex_slow = concat (replicate 4 (ex_chunk 0 ''bytes 1-2/10'' @ [ReadInto 9, ReadInto 9]))"

text \<open>When the limit leaves a download one goroutine only, each chunk gets a new buffer, and none is used again: at the last of five
  chunks there are five buffers, though the configuration asks for two goroutines.\<close>

theorem download_buffers_grow:
  "map_option (\<lambda>D. (length (bufs D), length (workers D), rPos D))
     (dl_run (ex_cfg\<lparr>PartSize := 2\<rparr>) ex_req ex_file ex_slow (dl_init (ex_cfg\<lparr>PartSize := 2\<rparr>) ex_req (Some 0))) = Some (5, 1, 4)
   \<and> download (ex_cfg\<lparr>PartSize := 2\<rparr>) ex_req (Some 1) = (Some 0, Some (Started (ex_cfg\<lparr>PartSize := 2\<rparr>) (dl_init (ex_cfg\<lparr>PartSize := 2\<rparr>) ex_req (Some 0))))"
  by (rule conjI) code_simp+

end
