(* ===== verification/NetServeProps.thy ===== *)
theory NetServeProps
  imports NetServe DownloadProps
begin

text \<open>
  What a client can rely on when the content of a file is served: conditional requests compare the tags they list, the body and
  its announced length are those of the ranges asked for, a file has one tag whatever the order of its hashes, and a
  content cut by hand is the range.
\<close>

section \<open>Lists of tags\<close>

definition valid_etag :: "string \<Rightarrow> bool" where
  "valid_etag t \<longleftrightarrow> (\<exists>s. list_all etag_char s \<and> (t = dquote # s @ [dquote] \<or> t = ''W/'' @ dquote # s @ [dquote]))"

lemma etag_end_quote: "list_all etag_char s \<Longrightarrow> etag_end (s @ dquote # rest) = Some (length s)"
  by (induction s) (auto simp: etag_char_def dquote_def)

lemma TrimString_ends: "\<lbrakk>s \<noteq> []; \<not> is_ascii_space (hd s); \<not> is_ascii_space (last s)\<rbrakk> \<Longrightarrow> TrimString s = s"
  by (simp add: TrimString_def trim_by_ends)

lemma TrimString_space [simp]: "TrimString (CHR '' '' # s) = TrimString s"
  by (simp add: TrimString_def trim_by_def is_ascii_space_def)

lemma not_space [simp]: "\<not> is_ascii_space dquote" "\<not> is_ascii_space CHR ''W''" "\<not> is_ascii_space CHR '',''"
  by (simp_all add: is_ascii_space_def dquote_def)

lemma scanETag_valid:
  assumes "valid_etag t" "rest = [] \<or> last rest = dquote"
  shows "scanETag (t @ rest) = (t, rest)" "TrimString (t @ rest) = t @ rest"
proof -
  obtain s where s: "list_all etag_char s" "t = dquote # s @ [dquote] \<or> t = ''W/'' @ dquote # s @ [dquote]"
    using assms(1) by (auto simp: valid_etag_def)
  show tr: "TrimString (t @ rest) = t @ rest" using s assms(2) by (intro TrimString_ends) (auto split: if_splits)
  have q: "dquote \<noteq> CHR ''W''" by (simp add: dquote_def)
  from s(2) show "scanETag (t @ rest) = (t, rest)"
  proof
    assume t: "t = dquote # s @ [dquote]"
    then have "\<not> HasPrefix (t @ rest) ''W/''" using q by (simp add: HasPrefix_def)
    with etag_end_quote [OF s(1), of rest] show ?thesis unfolding scanETag_def tr by (simp add: t)
  next
    assume t: "t = ''W/'' @ dquote # s @ [dquote]"
    then have "HasPrefix (t @ rest) ''W/''" by (simp add: HasPrefix_def)
    with etag_end_quote [OF s(1), of rest] show ?thesis unfolding scanETag_def tr by (simp add: t numeral_2_eq_2)
  qed
qed

lemma valid_etag_hd: "valid_etag t \<Longrightarrow> t \<noteq> [] \<and> hd t \<noteq> CHR '','' \<and> hd t \<noteq> CHR ''*'' \<and> last t = dquote"
  by (auto simp: valid_etag_def dquote_def)

declare etags_match.simps [simp del]

lemma etags_match_trim: "TrimString s = TrimString s' \<Longrightarrow> etags_match M s = etags_match M s'"
  by (simp add: etags_match.simps)

lemma etags_match_tag:
  assumes "valid_etag t" "rest = [] \<or> last rest = dquote"
  shows "etags_match M (t @ rest) \<longleftrightarrow> M t \<or> etags_match M rest"
proof -
  obtain c s where cs: "t @ rest = c # s" "c \<noteq> CHR '',''" "c \<noteq> CHR ''*''" using valid_etag_hd [OF assms(1)] by (cases t) auto
  have "TrimString (t @ rest) = c # s" "scanETag (c # s) = (t, rest)" using scanETag_valid [OF assms] cs by auto
  then show ?thesis using cs valid_etag_hd [OF assms(1)] by (subst etags_match.simps) simp
qed

lemma Join_last: "ts \<noteq> [] \<Longrightarrow> \<forall>t\<in>set ts. t \<noteq> [] \<and> last t = q \<Longrightarrow> Join sep ts \<noteq> [] \<and> last (Join sep ts) = q"
  by (induction sep ts rule: Join.induct) auto

text \<open>A list of valid tags matches when one of them does.\<close>

lemma etags_match_Join:
  assumes "\<forall>t\<in>set ts. valid_etag t"
  shows "etags_match M (Join '', '' ts) \<longleftrightarrow> (\<exists>t\<in>set ts. M t)"
  using assms
proof (induction ts)
  case Nil
  then show ?case by (subst etags_match.simps) simp
next
  case (Cons t ts)
  show ?case
  proof (cases "ts = []")
    case True
    then show ?thesis using Cons.prems etags_match_tag [of t "[]" M] by (simp add: etags_match.simps [of M "[]"])
  next
    case False
    let ?r = "Join '', '' ts"
    have l: "?r \<noteq> []" "last ?r = dquote" using Join_last [OF False, of dquote "'', ''"] Cons.prems valid_etag_hd by auto
    have tr: "TrimString ('', '' @ ?r) = '', '' @ ?r" using l by (intro TrimString_ends) simp_all
    have "etags_match M ('', '' @ ?r) = etags_match M ('' '' @ ?r)" by (subst etags_match.simps, subst tr) simp
    also have "\<dots> = etags_match M ?r" by (rule etags_match_trim) simp
    finally show ?thesis using Cons False etags_match_tag [of t "'', '' @ ?r" M] l by (simp add: Join_Cons)
  qed
qed
section \<open>Conditional requests\<close>

text \<open>Which statuses an answer can have once the preconditions have passed.\<close>

lemma WriteHeader_code [simp]: "respCode (WriteHeader c w) = (case respCode w of None \<Rightarrow> Some c | Some d \<Rightarrow> Some d)"
  by (auto simp: WriteHeader_def split: option.splits)

lemma header_fields [simp]:
  "respCode (set_header k v w) = respCode w" "respBody (set_header k v w) = respBody w"
  "respCode (del_header k w) = respCode w" "respBody (del_header k w) = respBody w"
  "respBody (WriteHeader c w) = respBody w" "respHeader (WriteHeader c w) = respHeader w"
  "respHeader (set_header k v w) = (respHeader w)(k \<mapsto> [v])" "respHeader (del_header k w) = (respHeader w)(k := None)"
  by (simp_all add: set_header_def del_header_def Header_Set_def Header_Del_def WriteHeader_def)

lemma http_Error_fields [simp]:
  "respCode (http_Error m c w) = (case respCode w of None \<Rightarrow> Some c | Some d \<Rightarrow> Some d)"
  by (simp add: http_Error_def Let_def)

lemma setLastModified_fields [simp]:
  "respCode (setLastModified L t w) = respCode w" "respBody (setLastModified L t w) = respBody w"
  "k \<noteq> ''Last-Modified'' \<Longrightarrow> respHeader (setLastModified L t w) k = respHeader w k"
  by (simp_all add: setLastModified_def)

lemma writeNotModified_fields [simp]:
  "respCode (writeNotModified w) = (case respCode w of None \<Rightarrow> Some 304 | Some d \<Rightarrow> Some d)" "respBody (writeNotModified w) = respBody w"
  by (simp_all add: writeNotModified_def Let_def)

lemma content_type_fields [simp]:
  "respCode (fst (content_type L name w)) = respCode w" "respBody (fst (content_type L name w)) = respBody w"
  by (simp_all add: content_type_def Let_def split: option.splits)

lemma finish_answer_code: "respCode w = None \<Longrightarrow> respCode (fst (finish_answer r content n c w)) = Some c"
  by (simp add: finish_answer_def Let_def)

lemma open_content_codes:
  assumes "open_content b1 b2 rr ct sz ranges w = Some x" "respCode w = None"
  shows "(\<forall>w'. x = Answered w' \<longrightarrow> respCode w' \<in> {Some 416, Some 429})"
    and "(\<forall>w' content n c. x = Sending w' content n c \<longrightarrow> respCode w' = None \<and> c \<in> {200, 206})"
  using assms
  by (auto simp: open_content_def read_err_code_def split: list.splits option.splits sum.splits prod.splits read_err.splits)

lemma serve_codes:
  assumes "checkPreconditions L (setLastModified L t w) r t = (w1, r1, False, rq)" "respCode w1 = None"
    and "ServeHTTP L b1 b2 w r name t sz rr = Some (w', e)"
  shows "respCode w' \<in> {Some 200, Some 206, Some 416, Some 429, Some 500}"
proof -
  define w2 ct where "w2 = fst (content_type L name w1)" and "ct = snd (content_type L name w1)"
  have ctp: "content_type L name w1 = (w2, ct)" and w2: "respCode w2 = None" using assms(2) by (simp_all add: w2_def ct_def)
  have "respCode w' \<in> {Some 200, Some 206, Some 416, Some 429}"
    if s: "(case open_content b1 b2 rr ct sz rs w2 of None \<Rightarrow> None | Some (Answered w) \<Rightarrow> Some (w, False)
           | Some (Sending w content n c) \<Rightarrow> Some (finish_answer r1 content n c w)) = Some (w', e)" for rs
  proof -
    from s obtain x where x: "open_content b1 b2 rr ct sz rs w2 = Some x" by (auto split: option.splits)
    show ?thesis
    proof (cases x)
      case (Answered w3)
      with s x open_content_codes(1) [OF x w2] show ?thesis by auto
    next
      case (Sending w3 content n c)
      have "respCode w3 = None" "c \<in> {200, 206}" using open_content_codes(2) [OF x w2] Sending by auto
      with s x Sending finish_answer_code [of w3 r1 content n c] show ?thesis by (auto simp: prod_eq_iff)
    qed
  qed
  with assms(3) w2 assms(2) show ?thesis
    unfolding ServeHTTP_def Let_def assms(1) by (auto simp: ctp split: if_splits sum.splits range_err.splits)
qed

text \<open>The outcome of the preconditions when only a list of tags is given.\<close>

lemma preconditions_none_match:
  fixes w :: response
  assumes "Header_Get (reqHeader r) ''If-Match'' = []" "Header_Get (reqHeader r) ''If-Unmodified-Since'' = []"
    and "Header_Get (reqHeader r) ''If-None-Match'' = Join '', '' ts" "\<forall>t\<in>set ts. valid_etag t" "ts \<noteq> []" "is_read_method r"
  defines "hit \<equiv> \<exists>t\<in>set ts. etagWeakMatch t (Header_Get (respHeader w) ''Etag'')"
  shows "hit \<Longrightarrow> \<exists>r'. checkPreconditions L w r m = (writeNotModified w, r', True, [])"
    and "\<not> hit \<Longrightarrow> \<exists>r' rq. checkPreconditions L w r m = (w, r', False, rq)"
proof -
  have ne: "Join '', '' ts \<noteq> []" using Join_last [OF assms(5), of dquote "'', ''"] assms(4) valid_etag_hd by auto
  let ?r = "r\<lparr>reqHeader := Header_Del ''If-None-Match'' (reqHeader r)\<rparr>"
  have m: "checkIfMatch w r = (r, condNone)" "checkIfUnmodifiedSince L r m = (r, condNone)"
    using assms(1,2) by (simp_all add: checkIfMatch_def checkIfUnmodifiedSince_def)
  have nm: "checkIfNoneMatch w r = (?r, if hit then condFalse else condTrue)"
    using assms(3) ne etags_match_Join [OF assms(4)] by (simp add: checkIfNoneMatch_def hit_def)
  have rm: "is_read_method ?r" using assms(6) by (simp add: is_read_method_def)
  show "\<exists>r'. checkPreconditions L w r m = (writeNotModified w, r', True, [])" if hit
    using that m nm rm by (simp add: checkPreconditions_def)
  show "\<exists>r' rq. checkPreconditions L w r m = (w, r', False, rq)" if "\<not> hit"
    using that m nm by (auto simp: checkPreconditions_def Let_def split: prod.splits)
qed

text \<open>A client that lists the tags of the versions it has, in a GET or HEAD without other conditions, is told \<^verbatim>\<open>304\<close> exactly
  when one of them is, weakly compared, the tag of the file.\<close>

theorem not_modified_iff_tag_listed:
  assumes "Header_Get (reqHeader r) ''If-Match'' = []" "Header_Get (reqHeader r) ''If-Unmodified-Since'' = []"
    and "Header_Get (reqHeader r) ''If-None-Match'' = Join '', '' ts" "\<forall>t\<in>set ts. valid_etag t" "ts \<noteq> []" "is_read_method r"
    and "respCode w = None" and "ServeHTTP L b1 b2 w r name modTime sz rr = Some (w', e)"
  shows "respCode w' = Some 304 \<longleftrightarrow> (\<exists>t\<in>set ts. etagWeakMatch t (Header_Get (respHeader w) ''Etag''))"
proof -
  let ?w = "setLastModified L modTime w"
  have tag: "Header_Get (respHeader ?w) ''Etag'' = Header_Get (respHeader w) ''Etag''" by (simp add: Header_Get_def)
  note p = preconditions_none_match [OF assms(1-6), of ?w L modTime, unfolded tag]
  show ?thesis
  proof (cases "\<exists>t\<in>set ts. etagWeakMatch t (Header_Get (respHeader w) ''Etag'')")
    case True
    from p(1) [OF this] obtain r' where "checkPreconditions L ?w r modTime = (writeNotModified ?w, r', True, [])" by blast
    then have "w' = writeNotModified ?w" using assms(8) by (simp add: ServeHTTP_def)
    with True assms(7) show ?thesis by simp
  next
    case False
    from p(2) [OF this] obtain r' rq where "checkPreconditions L ?w r modTime = (?w, r', False, rq)" by blast
    from serve_codes [OF this _ assms(8)] assms(7) False show ?thesis by auto
  qed
qed

section \<open>Bodies\<close>

text \<open>A reader that gives the bytes of the file, and the body of an answer with several ranges.\<close>

definition reader_ok :: "range_reader \<Rightarrow> string \<Rightarrow> bool" where
  "reader_ok rr F \<longleftrightarrow> rr \<lparr>Start = 0, Length = -1\<rparr> = Some (Inr F)
     \<and> (\<forall>ra. range_within (int (length F)) ra \<longrightarrow> rr ra = Some (Inr (file_slice F (Start ra) (Length ra))))"

fun parts_body :: "string \<Rightarrow> string \<Rightarrow> string \<Rightarrow> bool \<Rightarrow> Range list \<Rightarrow> string" where
  "parts_body F boundary ct isFirst [] = multipart_Close boundary"
| "parts_body F boundary ct isFirst (ra # ras) =
     CreatePart boundary isFirst (MimeHeader ra ct (int (length F))) @ file_slice F (Start ra) (Length ra) @ parts_body F boundary ct False ras"

lemma length_range_slice: "range_within (int (length F)) ra \<Longrightarrow> int (length (file_slice F (Start ra) (Length ra))) = Length ra"
  by (simp add: range_within_def length_file_slice)

lemma send_parts_body:
  assumes "reader_ok rr F" "\<forall>ra\<in>set ras. range_within (int (length F)) ra"
  shows "send_parts rr b ct (int (length F)) isFirst ras = Some (parts_body F b ct isFirst ras, True)"
  using assms(2)
proof (induction ras arbitrary: isFirst)
  case (Cons ra ras)
  have w: "range_within (int (length F)) ra" using Cons.prems by simp
  have "rr ra = Some (Inr (file_slice F (Start ra) (Length ra)))" using assms(1) w by (simp add: reader_ok_def)
  moreover have "length (file_slice F (Start ra) (Length ra)) = nat (Length ra)" using length_range_slice [OF w] by linarith
  ultimately show ?case using Cons length_range_slice [OF w] by (simp add: Let_def)
qed simp

lemma overhead_length: "length b1 = length b2 \<Longrightarrow> length (ranges_overhead b1 ct sz f ras) = length (ranges_overhead b2 ct sz f ras)"
  by (induction ras arbitrary: f) (simp_all add: multipart_Close_def CreatePart_def)

lemma parts_body_length:
  assumes "\<forall>ra\<in>set ras. range_within (int (length F)) ra"
  shows "int (length (parts_body F b ct f ras)) = sum_list (map Length ras) + int (length (ranges_overhead b ct (int (length F)) f ras))"
  using assms by (induction ras arbitrary: f) (simp_all add: length_range_slice)

text \<open>Sums of lengths do not wrap around when they fit.\<close>

lemma foldl_wrap:
  assumes "0 \<le> a" "\<forall>ra\<in>set ras. 0 \<le> Length ra" "a + sum_list (map Length ras) < 2 ^ 63"
  shows "foldl (\<lambda>n ra. wrap64 (n + Length ra)) a ras = a + sum_list (map Length ras)"
  using assms
proof (induction ras arbitrary: a)
  case (Cons ra ras)
  have nn: "0 \<le> sum_list (map Length ras)" using Cons.prems(2) by (intro sum_list_nonneg) auto
  then have "wrap64 (a + Length ra) = a + Length ra" using Cons.prems by (intro wrap64_bounds) auto
  with Cons.IH [of "a + Length ra"] Cons.prems show ?case by (simp add: add.assoc)
qed simp

lemma sum_ranges_le:
  assumes "\<forall>ra\<in>set ras. range_within sz ra"
  shows "sum_list (map Length ras) \<le> int (length ras) * sz"
  using assms by (induction ras) (auto simp: range_within_def algebra_simps)

text \<open>The whole of the ranges and what is written around them fits into 64 bits.\<close>

definition ranges_fit :: "string \<Rightarrow> string \<Rightarrow> int \<Rightarrow> Range list \<Rightarrow> bool" where
  "ranges_fit b ct sz ras \<longleftrightarrow> int (length ras) * sz + int (length (ranges_overhead b ct sz True ras)) < 2 ^ 63"

lemma ranges_fit_Nil:
  assumes "ranges_fit b ct sz ras" "0 \<le> sz"
  shows "ranges_fit b ct sz []"
proof -
  have "length (ranges_overhead b ct sz f []) \<le> length (ranges_overhead b ct sz f' ras)" for f f'
    by (induction ras arbitrary: f') (simp_all add: trans_le_add2)
  from this [of True True] have "int (length (ranges_overhead b ct sz True [])) \<le> int (length (ranges_overhead b ct sz True ras))" by simp
  moreover have "0 \<le> int (length ras) * sz" using assms(2) by simp
  ultimately show ?thesis using assms(1) unfolding ranges_fit_def by simp
qed

lemma rangesMIMESize_exact:
  assumes "length b1 = length b2" "\<forall>ra\<in>set ras. range_within (int (length F)) ra" "ranges_fit b2 ct (int (length F)) ras"
  shows "rangesMIMESize b1 ras ct (int (length F)) = int (length (parts_body F b2 ct True ras))"
proof -
  let ?s = "sum_list (map Length ras)" and ?o = "int (length (ranges_overhead b2 ct (int (length F)) True ras))"
  have nn: "\<forall>ra\<in>set ras. 0 \<le> Length ra" using assms(2) by (simp add: range_within_def)
  then have s0: "0 \<le> ?s" by (intro sum_list_nonneg) auto
  have le: "?s + ?o < 2 ^ 63" using sum_ranges_le [OF assms(2)] assms(3) by (simp add: ranges_fit_def)
  then have "foldl (\<lambda>n ra. wrap64 (n + Length ra)) 0 ras = ?s" using foldl_wrap [of 0 ras] nn by simp
  moreover have "wrap64 (?s + ?o) = ?s + ?o" using s0 le by (intro wrap64_bounds) auto
  ultimately show ?thesis
    using parts_body_length [OF assms(2), of b2 ct True] overhead_length [OF assms(1), of ct "int (length F)" True ras] by (simp add: rangesMIMESize_def)
qed

definition expected_body :: "string \<Rightarrow> string \<Rightarrow> string \<Rightarrow> Range list \<Rightarrow> string" where
  "expected_body F b ct ranges =
     (case ranges of [] \<Rightarrow> F | [ra] \<Rightarrow> file_slice F (Start ra) (Length ra) | _ \<Rightarrow> parts_body F b ct True ranges)"

lemma open_content_ok:
  assumes "reader_ok rr F" "length b1 = length b2" "\<forall>ra\<in>set ranges. range_within (int (length F)) ra" "ranges_fit b2 ct (int (length F)) ranges"
  shows "\<exists>w'. open_content b1 b2 rr ct (int (length F)) ranges w
      = Some (Sending w' (expected_body F b2 ct ranges) (int (length (expected_body F b2 ct ranges))) (if ranges = [] then 200 else 206))
    \<and> respCode w' = respCode w \<and> respBody w' = respBody w
    \<and> (\<forall>k. k \<noteq> ''Content-Range'' \<and> k \<noteq> ''Content-Type'' \<longrightarrow> respHeader w' k = respHeader w k)
    \<and> (\<forall>ra. ranges = [ra] \<longrightarrow> respHeader w' ''Content-Range'' = Some [ContentRange ra (int (length F))])"
proof (cases ranges)
  case Nil
  then show ?thesis using assms(1) by (simp add: open_content_def reader_ok_def expected_body_def)
next
  case (Cons ra ras)
  show ?thesis
  proof (cases ras)
    case Nil
    then show ?thesis using assms(1,3) Cons length_range_slice [of F ra] by (simp add: open_content_def reader_ok_def expected_body_def)
  next
    case (Cons ra' ras')
    with \<open>ranges = ra # ras\<close> have r: "ranges = ra # ra' # ras'" by simp
    show ?thesis
      using send_parts_body [OF assms(1,3), of b2 ct True] rangesMIMESize_exact [OF assms(2-4)] unfolding r
      by (simp add: open_content_def expected_body_def)
  qed
qed

lemma checkPreconditions_passed:
  assumes "checkPreconditions L w r m = (w', r', False, rq)"
  shows "w' = w" "httpMethod r' = httpMethod r"
proof -
  have m: "httpMethod (fst (checkIfMatch w r)) = httpMethod r" "httpMethod (fst (checkIfUnmodifiedSince L r m)) = httpMethod r"
    "httpMethod (fst (checkIfNoneMatch w r)) = httpMethod r" "httpMethod (fst (checkIfModifiedSince L r m)) = httpMethod r"
    "httpMethod (fst (checkIfRange L w r m)) = httpMethod r" for r
    by (simp_all add: checkIfMatch_def checkIfUnmodifiedSince_def checkIfNoneMatch_def checkIfModifiedSince_def checkIfRange_def Let_def split: option.splits)
  show "w' = w" using assms by (auto simp: checkPreconditions_def Let_def split: prod.splits if_splits)
  show "httpMethod r' = httpMethod r"
    using assms m(1) [of r] m(2) m(3) m(4) m(5) by (auto simp: checkPreconditions_def Let_def split: prod.splits if_splits) (metis fst_conv)+
qed

lemma finish_GET:
  assumes "httpMethod r = ''GET''" "respCode w = None" "respBody w = []" "respHeader w ''Content-Encoding'' = None"
  shows "\<exists>w'. finish_answer r content (int (length content)) c w = (w', False) \<and> respCode w' = Some c \<and> respBody w' = content
    \<and> Header_Get (respHeader w') ''Content-Length'' = FormatInt (int (length content)) \<and> respHeader w' ''Content-Range'' = respHeader w ''Content-Range''"
  using assms by (simp add: finish_answer_def Let_def Header_Get_def)

text \<open>C33: A GET that passes its preconditions is answered with the bytes it asks for: the whole file with \<^verbatim>\<open>200\<close> when it names no
  range, or ranges that add up to more than the file; else \<^verbatim>\<open>206\<close> with the bytes of the one range, described by
  \<^verbatim>\<open>Content-Range\<close>, or with all ranges as parts.  The announced length is the length of the body, also for parts, for
  which it is computed before anything is read.\<close>

theorem serve_sends_ranges:
  assumes "reader_ok rr F" "int (length F) < 2 ^ 63" "length b1 = length b2"
    and "httpMethod r = ''GET''" "respCode w = None" "respBody w = []" "respHeader w ''Content-Encoding'' = None"
    and "checkPreconditions L (setLastModified L t w) r t = (w1, r1, False, rq)" "ParseRange rq (int (length F)) = Inr ranges"
    and "ranges_fit b2 (snd (content_type L name w1)) (int (length F)) ranges"
  shows "\<exists>w'. ServeHTTP L b1 b2 w r name t (int (length F)) rr = Some (w', False)
    \<and> (let served = (if sum_list (map Length ranges) > int (length F) then [] else ranges)
       in respCode w' = Some (if served = [] then 200 else 206) \<and> respBody w' = expected_body F b2 (snd (content_type L name w1)) served
         \<and> Header_Get (respHeader w') ''Content-Length'' = FormatInt (int (length (respBody w')))
         \<and> (\<forall>ra. served = [ra] \<longrightarrow> Header_Get (respHeader w') ''Content-Range'' = ContentRange ra (int (length F))))"
proof -
  let ?n = "int (length F)" and ?ct = "snd (content_type L name w1)" and ?w = "fst (content_type L name w1)"
  note pre = checkPreconditions_passed [OF assms(8)]
  have in_: "\<forall>ra\<in>set ranges. range_within ?n ra" using ParseRange_ranges_within [OF _ _ assms(9)] assms(2) by (simp add: int64_range_def)
  have "sum_list (map Length ranges) < 2 ^ 63"
    using sum_ranges_le [OF in_] assms(10) by (auto simp: ranges_fit_def)
  then have sum: "sumRangesSize ranges = sum_list (map Length ranges)"
    unfolding sumRangesSize_def using foldl_wrap [of 0 ranges] in_ by (simp add: range_within_def)
  define served where "served = (if sum_list (map Length ranges) > ?n then [] else ranges)"
  have fit0: "ranges_fit b2 ?ct ?n []" by (rule ranges_fit_Nil [OF assms(10)]) simp
  with in_ assms(10) have s: "\<forall>ra\<in>set served. range_within ?n ra" "ranges_fit b2 ?ct ?n served" by (auto simp: served_def)
  obtain w2 where w2: "open_content b1 b2 rr ?ct ?n served ?w
      = Some (Sending w2 (expected_body F b2 ?ct served) (int (length (expected_body F b2 ?ct served))) (if served = [] then 200 else 206))"
    and f: "respCode w2 = respCode ?w" "respBody w2 = respBody ?w" "\<forall>k. k \<noteq> ''Content-Range'' \<and> k \<noteq> ''Content-Type'' \<longrightarrow> respHeader w2 k = respHeader ?w k"
      "\<forall>ra. served = [ra] \<longrightarrow> respHeader w2 ''Content-Range'' = Some [ContentRange ra ?n]"
    using open_content_ok [OF assms(1,3) s, of ?w] by blast
  have "respHeader w1 ''Content-Encoding'' = None" using assms(7) pre(1) by simp
  then have "respHeader ?w ''Content-Encoding'' = None" by (simp add: content_type_def Let_def split: option.splits)
  then have g: "respCode w2 = None" "respBody w2 = []" "respHeader w2 ''Content-Encoding'' = None" using f assms(5,6) pre(1) by simp_all
  have m1: "httpMethod r1 = ''GET''" using pre(2) assms(4) by simp
  obtain w3 where w3: "finish_answer r1 (expected_body F b2 ?ct served) (int (length (expected_body F b2 ?ct served))) (if served = [] then 200 else 206) w2 = (w3, False)"
    and h: "respCode w3 = Some (if served = [] then 200 else 206)" "respBody w3 = expected_body F b2 ?ct served"
      "Header_Get (respHeader w3) ''Content-Length'' = FormatInt (int (length (expected_body F b2 ?ct served)))"
      "respHeader w3 ''Content-Range'' = respHeader w2 ''Content-Range''"
    using finish_GET [OF m1 g] by blast
  have "ServeHTTP L b1 b2 w r name t ?n rr = Some (w3, False)"
    unfolding ServeHTTP_def Let_def assms(8) using w2 w3 assms(9) by (simp add: sum served_def [symmetric] case_prod_beta)
  then show ?thesis using h f(4) unfolding Let_def served_def [symmetric] by (auto simp: Header_Get_def)
qed

section \<open>The tag of a file\<close>

lemma bytes_greater_irrefl [simp]: "\<not> bytes_greater x x"
  by (induction x) simp_all

lemma bytes_greater_total: "bytes_greater x y \<or> x = y \<or> bytes_greater y x"
proof (induction x y rule: bytes_greater.induct)
  case (1 y)
  then show ?case by (cases y) simp_all
next
  case (3 x xs y ys)
  have "x \<noteq> y \<Longrightarrow> (of_char x :: nat) \<noteq> of_char y" by simp
  with 3 show ?case by (cases "x = y") (auto simp del: of_char_eq_iff)
qed simp

lemma bytes_greater_trans: "bytes_greater x y \<Longrightarrow> bytes_greater y z \<Longrightarrow> bytes_greater x z"
proof (induction x y arbitrary: z rule: bytes_greater.induct)
  case (3 a xs b ys)
  then show ?case by (cases z) (auto split: if_splits)
qed simp_all

definition larger :: "string \<Rightarrow> string \<Rightarrow> string" where
  "larger h v = (if bytes_greater v h then v else h)"

lemma larger_comm: "larger (larger h x) y = larger (larger h y) x"
  using bytes_greater_total [of x y] bytes_greater_total [of h x] bytes_greater_total [of h y]
    bytes_greater_trans [of x y h] bytes_greater_trans [of y x h] bytes_greater_trans [of h x y] bytes_greater_trans [of h y x]
    bytes_greater_trans [of x h y] bytes_greater_trans [of y h x] bytes_greater_trans [of x y x]
  by (auto simp: larger_def)

text \<open>The tag of a file does not depend on the order in which Go walks the map of its hashes.\<close>

theorem GetEtag_order_irrelevant:
  assumes "mset hashes = mset hashes'"
  shows "GetEtag hashes modTime sz = GetEtag hashes' modTime sz"
proof -
  have "fold (\<lambda>v h. larger h v) hashes = fold (\<lambda>v h. larger h v) hashes'"
    by (rule fold_multiset_equiv) (use assms larger_comm in \<open>auto simp: fun_eq_iff\<close>)
  then have "foldl larger [] hashes = foldl larger [] hashes'" by (simp add: foldl_conv_fold)
  then show ?thesis unfolding GetEtag_def Let_def larger_def [symmetric] by (simp add: larger_def [abs_def, symmetric])
qed

declare hex_nat.simps [simp del]

lemma hex_nat_chars: "list_all etag_char (hex_nat n)"
proof (induction n rule: hex_nat.induct)
  case (1 n)
  have "etag_char (hex_char d)" if "d < 16" for d :: nat using that by (auto simp: etag_char_def hex_char_def Let_def)
  with 1 show ?case by (subst hex_nat.simps) simp
qed

lemma hex_int_chars: "list_all etag_char (hex_int n)"
  using hex_nat_chars by (simp add: hex_int_def) (simp add: etag_char_def)

lemma GetEtag_valid:
  assumes "\<forall>h\<in>set hashes. list_all etag_char h"
  shows "valid_etag (GetEtag hashes modTime sz)"
proof -
  have "list_all etag_char (foldl larger a hashes)" if "list_all etag_char a" for a
    using assms that by (induction hashes arbitrary: a) (simp_all add: larger_def)
  then have "list_all etag_char (foldl larger [] hashes)" by simp
  moreover have "list_all etag_char (hex_int (Unix modTime) @ ''-'' @ hex_int sz)" using hex_int_chars by (simp add: etag_char_def)
  ultimately show ?thesis
    unfolding GetEtag_def Let_def larger_def [abs_def] valid_etag_def
    by (auto intro: exI [of _ "hex_int (Unix modTime) @ ''-'' @ hex_int sz"])
qed

section \<open>Empty ranges\<close>

lemma ParseRange_zero_suffixes:
  assumes "0 \<le> sz" "int64_range sz"
  shows "ParseRange ''bytes=-0,-0'' sz = Inr [\<lparr>Start = sz, Length = 0\<rparr>, \<lparr>Start = sz, Length = 0\<rparr>]"
proof -
  have "ParseInt ''0'' = Some 0" "TrimString ''-0'' = ''-0''" "TrimString ''0'' = ''0''" "TrimString [] = []" "Index ''-0'' ''-'' = Some 0"
    by code_simp+
  then have "ParseRange_part sz ''-0'' = Inr (Piece \<lparr>Start = sz, Length = 0\<rparr>)"
    using assms wrap64_id [OF assms(2)] wrap64_bounds [of 0] by (simp add: ParseRange_part_def ParseRange_suffix_def Let_def)
  moreover have "Split CHR '','' (drop 6 ''bytes=-0,-0'') = [''-0'', ''-0'']" "HasPrefix ''bytes=-0,-0'' ''bytes=''" by code_simp+
  ultimately show ?thesis by (simp add: ParseRange_def)
qed

lemma proxy_empty_panics:
  assumes "Length ra = 0" "0 \<le> Concurrency cfg" "limit_sub l \<noteq> None"
  shows "proxy_reader cfg sz l single chunked ra = panic"
proof -
  obtain l' where "limit_sub l = Some l'" using assms(3) by blast
  then have "snd (download (fst (Download cfg \<lparr>ReqRange = ra, ReqSize = sz\<rparr>)) (snd (Download cfg \<lparr>ReqRange = ra, ReqSize = sz\<rparr>)) l) = panic"
    using assms(1,2)
    by (auto simp: Download_def Let_def download_def count_parts_def sendChunkTask_def DefaultDownloadConcurrency_def DefaultDownloadPartSize_def)
  then show ?thesis by (simp add: proxy_reader_def case_prod_beta)
qed


section \<open>Contents cut by hand\<close>

text \<open>A run of reads, each with the size of its buffer and what the reader below is ready to give.\<close>

fun read_all :: "(nat \<times> nat) list \<Rightarrow> LimitedReadCloser \<Rightarrow> string \<times> LimitedReadCloser" where
  "read_all [] l = ([], l)"
| "read_all ((buf, k) # rs) l =
     (case LimitedReadCloser_Read buf k l of
        (l', None) \<Rightarrow> ([], l')
      | (l', Some got) \<Rightarrow> let (rest, l'') = read_all rs l' in (got @ rest, l''))"

lemma LimitedReadCloser_Read_content:
  "LimitedReadCloser_Read buf k l = (l', Some got) \<Longrightarrow> limited_content l = got @ limited_content l'"
proof -
  assume r: "LimitedReadCloser_Read buf k l = (l', Some got)"
  then have pos: "0 < lrcRemaining l" by (auto simp: LimitedReadCloser_Read_def split: if_splits)
  define n where "n = (if int buf > lrcRemaining l then nat (lrcRemaining l) else buf)"
  have got: "got = take (min n k) (lrcRest l)" and l': "l' = \<lparr>lrcRest = drop (length got) (lrcRest l), lrcRemaining = lrcRemaining l - int (length got)\<rparr>"
    using r pos by (auto simp: LimitedReadCloser_Read_def Let_def n_def split: if_splits)
  have g: "length got \<le> nat (lrcRemaining l)" "got = take (length got) (lrcRest l)" using pos by (auto simp: got n_def min_def)
  have "take (nat (lrcRemaining l)) (lrcRest l) = take (length got) (lrcRest l) @ take (nat (lrcRemaining l) - length got) (drop (length got) (lrcRest l))"
    using g(1) by (metis le_add_diff_inverse take_add)
  also have "nat (lrcRemaining l) - length got = nat (lrcRemaining l') " using g(1) by (simp add: l')
  finally show ?thesis using g pos by (auto simp: limited_content_def l')
qed

lemma read_all_prefix: "limited_content l = fst (read_all rs l) @ limited_content (snd (read_all rs l))"
proof (induction rs l rule: read_all.induct)
  case (2 buf k rs l)
  obtain l' g where r: "LimitedReadCloser_Read buf k l = (l', g)" by fastforce
  show ?case
  proof (cases g)
    case None
    then have "l' = l" using r by (auto simp: LimitedReadCloser_Read_def Let_def split: if_splits)
    with None r show ?thesis by simp
  next
    case (Some got)
    with 2 r LimitedReadCloser_Read_content [of buf k l l' got] show ?thesis by (simp add: case_prod_beta)
  qed
qed simp

lemma LimitedReadCloser_end: "\<lbrakk>LimitedReadCloser_Read buf k l = (l', None); 0 < buf\<rbrakk> \<Longrightarrow> limited_content l = []"
  by (auto simp: LimitedReadCloser_Read_def limited_content_def Let_def split: if_splits)

section \<open>Links to servers with and without ranges\<close>

text \<open>
  A server that knows the file: it answers either the whole file, as if there were no \<^verbatim>\<open>Range\<close> header, or the one range that the header
  asks for, with \<^verbatim>\<open>206\<close>.
\<close>

definition honest_server :: "(header \<Rightarrow> string + remote_response) \<Rightarrow> string \<Rightarrow> bool" where
  "honest_server remote F \<longleftrightarrow>
     (\<forall>h. \<exists>res. remote h = Inr res
        \<and> ((rmStatus res = 200 \<and> rmHeader res ''Content-Range'' = None \<and> rmBody res = F)
          \<or> (\<exists>ra. ParseRange (Header_Get h ''Range'') (int (length F)) = Inr [ra] \<and> rmStatus res = 206 \<and> rmBody res = file_slice F (Start ra) (Length ra))))"

lemma ranged_request:
  assumes "honest_server remote F" "int (length F) < 2 ^ 63" "0 \<le> Start r" "0 < Length r" "Start r + Length r \<le> int (length F)"
  obtains res where "RequestRangedHttp remote ignored lh (Start r) (Length r) = Inr res"
    "(rmStatus res = 200 \<and> rmHeader res ''Content-Range'' = None \<and> rmBody res = F) \<or> (rmStatus res = 206 \<and> rmBody res = file_slice F (Start r) (Length r))"
proof -
  let ?r = "\<lparr>Start = Start r, Length = Length r\<rparr>"
  let ?h = "ApplyRangeToHttpHeader ?r (Some (ProcessHeader ignored Map.empty lh))"
  have p: "ParseRange (Header_Get ?h ''Range'') (int (length F)) = Inr [?r]"
    using ApplyRange_ParseRange_roundtrip [of ?r "int (length F)" "Some (ProcessHeader ignored Map.empty lh)"] assms(2-5)
    by (auto simp: Header_Get_def int64_range_def split: option.splits)
  obtain res where res: "remote ?h = Inr res" "(rmStatus res = 200 \<and> rmHeader res ''Content-Range'' = None \<and> rmBody res = F)
      \<or> (\<exists>ra. ParseRange (Header_Get ?h ''Range'') (int (length F)) = Inr [ra] \<and> rmStatus res = 206 \<and> rmBody res = file_slice F (Start ra) (Length ra))"
    using assms(1) unfolding honest_server_def by blast
  have "RequestRangedHttp remote ignored lh (Start r) (Length r) = Inr (res\<lparr>rmHeader := Header_Del ''Set-Cookie'' (rmHeader res)\<rparr>)"
    using res by (auto simp: RequestRangedHttp_def RequestHttp_def)
  moreover have "(rmStatus res = 200 \<and> rmHeader res ''Content-Range'' = None \<and> rmBody res = F) \<or> (rmStatus res = 206 \<and> rmBody res = file_slice F (Start r) (Length r))"
    using res(2) p by auto
  ultimately show ?thesis using that [of "res\<lparr>rmHeader := Header_Del ''Set-Cookie'' (rmHeader res)\<rparr>"] by (auto simp: Header_Del_def)
qed

text \<open>A range of a file is read rightly from a remote server that supports ranges and from one that does not, and even from one that does
  so from time to time: the first bytes that the reader gives, as many as the range has, are those of the range.\<close>

theorem link_reader_gives_range:
  assumes "honest_server remote F" "int (length F) < 2 ^ 63" "0 \<le> Start r" "0 < Length r" "Start r + Length r \<le> int (length F)"
  shows "\<exists>content. link_reader remote ignored lh (int (length F)) r = Some (Inr content)
    \<and> take (nat (Length r)) content = file_slice F (Start r) (Length r)"
proof -
  obtain res where res: "RequestRangedHttp remote ignored lh (Start r) (Length r) = Inr res"
    and a: "(rmStatus res = 200 \<and> rmHeader res ''Content-Range'' = None \<and> rmBody res = F) \<or> (rmStatus res = 206 \<and> rmBody res = file_slice F (Start r) (Length r))"
    using ranged_request [OF assms] by blast
  have len: "length (file_slice F (Start r) (Length r)) = nat (Length r)" using assms by (intro length_file_slice) auto
  from a show ?thesis
  proof
    assume "rmStatus res = 206 \<and> rmBody res = file_slice F (Start r) (Length r)"
    then show ?thesis using res len by (simp add: link_reader_def)
  next
    assume w: "rmStatus res = 200 \<and> rmHeader res ''Content-Range'' = None \<and> rmBody res = F"
    then have c: "checkContentRange (rmHeader res) (Start r) = Some (Start r = 0)"
      by (auto simp: checkContentRange_def ContentRange_start_def Header_Get_def)
    show ?thesis
    proof (cases "Start r = 0")
      case True
      then show ?thesis using res w c by (auto simp: link_reader_def file_slice_def)
    next
      case False
      have "\<not> Length r > 2 ^ 63 - 1" using assms by linarith
      then show ?thesis using res w c False assms(4) len
        by (auto simp: link_reader_def GetRangedHttpReader_def limited_content_def file_slice_def)
    qed
  qed
qed

text \<open>An open range that does not start at zero comes out empty when the server answers the whole file: the limit is \<open>-1\<close> bytes.\<close>

lemma open_range_lost:
  assumes "RequestRangedHttp remote ignored lh (Start r) (-1) = Inr res" "rmStatus res = 200" "rmHeader res ''Content-Range'' = None"
    and "0 < Start r" "Length r = -1"
  shows "link_reader remote ignored lh sz r = Some (Inr [])"
proof -
  have "checkContentRange (rmHeader res) (Start r) = Some False"
    using assms(3,4) by (simp add: checkContentRange_def ContentRange_start_def Header_Get_def)
  then show ?thesis using assms by (simp add: link_reader_def GetRangedHttpReader_def limited_content_def)
qed

section \<open>Concrete requests\<close>

definition ex_lib :: http_lib where
  "ex_lib = \<lparr>ParseTime = \<lambda>_. None, FormatTime = \<lambda>_. ''Thu, 01 Jan 1970 00:00:05 GMT'', TypeByExtension = \<lambda>_. []\<rparr>"

definition ex_tag :: "string \<Rightarrow> string" where
  "ex_tag s = dquote # s @ [dquote]"

definition ex_answer :: response where
  "ex_answer = \<lparr>respHeader = [''Etag'' \<mapsto> [GetEtag [''abc''] 5000000000 10]], respCode = None, respBody = []\<rparr>"

definition ex_get :: "string \<Rightarrow> string \<Rightarrow> http_request" where
  "ex_get k v = \<lparr>httpMethod = ''GET'', reqHeader = [k \<mapsto> [v]]\<rparr>"

definition ex_reader :: range_reader where
  "ex_reader ra = Some (Inr (if Length ra = -1 then ex_file else file_slice ex_file (Start ra) (Length ra)))"

lemma ex_reader_ok: "reader_ok ex_reader ex_file"
  by (auto simp: reader_ok_def ex_reader_def range_within_def)

lemma ex_tag_valid: "list_all etag_char s \<Longrightarrow> valid_etag (ex_tag s)"
  by (auto simp: valid_etag_def ex_tag_def)

theorem not_modified_iff_tag_listed_witness:
  "respCode (fst (the (ServeHTTP ex_lib [] [] ex_answer (ex_get ''If-None-Match'' (Join '', '' [ex_tag ''x'', ex_tag ''abc''])) ''a.txt'' 5000000000 10 ex_reader)))
    = Some 304"
proof -
  let ?ts = "[ex_tag ''x'', ex_tag ''abc'']" and ?r = "ex_get ''If-None-Match'' (Join '', '' [ex_tag ''x'', ex_tag ''abc''])"
  let ?s = "ServeHTTP ex_lib [] [] ex_answer ?r ''a.txt'' 5000000000 10 ex_reader"
  have "\<not> Option.is_none ?s" by code_simp
  then have s: "?s = Some (fst (the ?s), snd (the ?s))" by (cases ?s) simp_all
  have v: "\<forall>t\<in>set ?ts. valid_etag t" by (auto intro!: ex_tag_valid simp: etag_char_def)
  have h: "Header_Get (reqHeader ?r) ''If-Match'' = []" "Header_Get (reqHeader ?r) ''If-Unmodified-Since'' = []"
    "Header_Get (reqHeader ?r) ''If-None-Match'' = Join '', '' ?ts" "?ts \<noteq> []" "is_read_method ?r" "respCode ex_answer = None"
    by (simp_all add: Header_Get_def ex_get_def is_read_method_def ex_answer_def)
  have "etagWeakMatch (ex_tag ''abc'') (Header_Get (respHeader ex_answer) ''Etag'')" by code_simp
  then show ?thesis using not_modified_iff_tag_listed [OF h(1-3) v h(4-6) s] by simp
qed

theorem serve_sends_ranges_witness:
  "\<exists>w'. ServeHTTP ex_lib ''B'' ''C'' ex_answer (ex_get ''Range'' ''bytes=2-4'') ''a.txt'' 5000000000 10 ex_reader = Some (w', False)
    \<and> respCode w' = Some 206 \<and> respBody w' = ''cde''"
proof -
  let ?cp = "checkPreconditions ex_lib (setLastModified ex_lib 5000000000 ex_answer) (ex_get ''Range'' ''bytes=2-4'') 5000000000"
  have "fst (snd (snd ?cp)) = False" "snd (snd (snd ?cp)) = ''bytes=2-4''" by code_simp+
  then have cp: "?cp = (fst ?cp, fst (snd ?cp), False, ''bytes=2-4'')" by (simp add: prod_eq_iff)
  have len: "int (length ex_file) = 10" by code_simp
  have pr: "ParseRange ''bytes=2-4'' (int (length ex_file)) = Inr [\<lparr>Start = 2, Length = 3\<rparr>]" by code_simp
  have fit: "ranges_fit ''C'' (snd (content_type ex_lib ''a.txt'' (fst ?cp))) (int (length ex_file)) [\<lparr>Start = 2, Length = 3\<rparr>]" by code_simp
  have w: "httpMethod (ex_get ''Range'' ''bytes=2-4'') = ''GET''" "respCode ex_answer = None" "respBody ex_answer = []" "respHeader ex_answer ''Content-Encoding'' = None"
    by (simp_all add: ex_get_def ex_answer_def)
  have e: "expected_body ex_file ''C'' ct [\<lparr>Start = 2, Length = 3\<rparr>] = ''cde''" for ct by (simp add: expected_body_def ex_file_def file_slice_def)
  show ?thesis
    using serve_sends_ranges [OF ex_reader_ok _ _ w cp pr fit, of "''B''"] by (auto simp: len e)
qed

theorem GetEtag_order_irrelevant_witness: "GetEtag [''ab'', ''cd''] 5 10 = GetEtag [''cd'', ''ab''] 5 10"
  by (rule GetEtag_order_irrelevant) (simp add: add_mset_commute)


theorem link_reader_gives_range_witness:
  "\<exists>content. link_reader (\<lambda>_. Inr \<lparr>rmStatus = 200, rmHeader = Map.empty, rmBody = ex_file\<rparr>) [] Map.empty 10 \<lparr>Start = 4, Length = 3\<rparr> = Some (Inr content)
    \<and> take 3 content = ''efg''"
proof -
  have s: "honest_server (\<lambda>_. Inr \<lparr>rmStatus = 200, rmHeader = Map.empty, rmBody = ex_file\<rparr>) ex_file" by (simp add: honest_server_def)
  have len: "int (length ex_file) = 10" by code_simp
  have "file_slice ex_file 4 3 = ''efg''" by code_simp
  then show ?thesis using link_reader_gives_range [OF s, of "\<lparr>Start = 4, Length = 3\<rparr>" "[]" Map.empty] by (simp add: len)
qed

end
