(* ===== verification/Alias.thy ===== *)
theory Alias
  imports Vfs
begin

text \<open>
  The driver \<^verbatim>\<open>drivers/alias\<close>: a folder that shows other folders of the mounted file system, under names, several of them
  under one name if wanted.  Its requests go to the mounted file system (\<open>Vfs\<close>); links and archives are not
  modelled, nor thumbnails.
\<close>

section \<open>The configuration\<close>

record Alias =
  Paths :: string
  ProtectSameName :: bool
  aliasWritable :: bool
  aliasModified :: int
  pathMap :: "(string \<times> string list) list"
  autoFlatten :: bool
  oneKey :: string

definition split_colon :: "string \<Rightarrow> string \<times> string" where
  "split_colon s = (takeWhile (\<lambda>c. c \<noteq> CHR '':'') s, tl (dropWhile (\<lambda>c. c \<noteq> CHR '':'') s))"

definition getPair :: "string \<Rightarrow> string \<times> string" where
  "getPair path =
     (if Contains path '':'' then
        (let (a, b) = split_colon path in if \<not> Contains a ''/'' then (a, b) else (path_Base path, path))
      else (path_Base path, path))"

text \<open>\<^verbatim>\<open>d.pathMap[k] = append(d.pathMap[k], v)\<close>.\<close>

fun add_path :: "string \<Rightarrow> string \<Rightarrow> (string \<times> string list) list \<Rightarrow> (string \<times> string list) list" where
  "add_path k v [] = [(k, [v])]"
| "add_path k v ((k', vs) # m) = (if k' = k then (k', vs @ [v]) # m else (k', vs) # add_path k v m)"

definition add_line :: "(string \<times> string list) list \<Rightarrow> string \<Rightarrow> (string \<times> string list) list" where
  "add_line m line0 = (let line = TrimSpace line0 in if line = [] then m else case getPair line of (k, v) \<Rightarrow> add_path k v m)"

definition Alias_Init :: "Alias \<Rightarrow> err + Alias" where
  "Alias_Init d =
     (if Paths d = [] then Inl (ErrMsg ''paths is required'')
      else let m = foldl add_line [] (Split CHR 0x0A (Paths d))
           in Inr (case m of
                     [(k, _)] \<Rightarrow> d\<lparr>pathMap := m, oneKey := k, autoFlatten := True\<rparr>
                   | _ \<Rightarrow> d\<lparr>pathMap := m, oneKey := [], autoFlatten := False\<rparr>))"

definition Alias_Drop :: "Alias \<Rightarrow> Alias" where
  "Alias_Drop d = d\<lparr>pathMap := []\<rparr>"

text \<open>The name of the root and the rest; the two parts of \<^verbatim>\<open>SplitN(path, "/", 2)\<close>.\<close>

definition getRootAndPath :: "Alias \<Rightarrow> string \<Rightarrow> string \<times> string" where
  "getRootAndPath d path0 =
     (if autoFlatten d then (oneKey d, path0)
      else let path = TrimPrefix path0 ''/''
           in (takeWhile (\<lambda>c. c \<noteq> CHR ''/'') path, tl (dropWhile (\<lambda>c. c \<noteq> CHR ''/'') path)))"

section \<open>Reading\<close>

definition listRoot :: "Alias \<Rightarrow> Obj list" where
  "listRoot d = map (\<lambda>(k, _). Obj \<lparr>ObjID = [], ObjPath = [], ObjName = k, ObjSize = 0, ObjModified = aliasModified d, IsFolder = True\<rparr>) (pathMap d)"

fun get_first :: "site \<Rightarrow> string \<Rightarrow> string \<Rightarrow> string list \<Rightarrow> 's vfs \<Rightarrow> 's vfs \<times> (err + Obj)" where
  "get_first S path sub [] w = (w, Inl ObjectNotFound)"
| "get_first S path sub (dst # dsts) w =
     (case fs_get S w (path_Join dst sub) of
        (w, Inl e) \<Rightarrow> get_first S path sub dsts w
      | (w, Inr ob) \<Rightarrow> (w, Inr (Obj \<lparr>ObjID = [], ObjPath = path, ObjName = GetName ob, ObjSize = GetSize ob, ObjModified = ModTime ob, IsFolder = IsDir ob\<rparr>)))"

definition Alias_Get :: "site \<Rightarrow> Alias \<Rightarrow> 's vfs \<Rightarrow> string \<Rightarrow> 's vfs \<times> (err + Obj)" where
  "Alias_Get S d w path =
     (if PathEqual path ''/'' then
        (w, Inr (Obj \<lparr>ObjID = [], ObjPath = ''/'', ObjName = ''Root'', ObjSize = 0, ObjModified = 0, IsFolder = True\<rparr>))
      else case getRootAndPath d path of (r, sub) \<Rightarrow>
             (case map_of (pathMap d) r of None \<Rightarrow> (w, Inl ObjectNotFound) | Some dsts \<Rightarrow> get_first S path sub dsts w))"

definition as_listed :: "Obj \<Rightarrow> Obj" where
  "as_listed ob = Obj \<lparr>ObjID = [], ObjPath = [], ObjName = GetName ob, ObjSize = GetSize ob, ObjModified = ModTime ob, IsFolder = IsDir ob\<rparr>"

fun list_all_dsts :: "site \<Rightarrow> User option \<Rightarrow> Meta option \<Rightarrow> bool \<Rightarrow> string \<Rightarrow> string list \<Rightarrow> 's vfs \<Rightarrow> ('s vfs \<times> Obj list) go" where
  "list_all_dsts S user meta refresh sub [] w = Some (w, [])"
| "list_all_dsts S user meta refresh sub (dst # dsts) w =
     (case fs_list S user meta w (path_Join dst sub) refresh of
        None \<Rightarrow> panic
      | Some (w, r) \<Rightarrow>
          map_option (\<lambda>(w, objs). (w, (case r of Inl e \<Rightarrow> [] | Inr tmp \<Rightarrow> map as_listed tmp) @ objs)) (list_all_dsts S user meta refresh sub dsts w))"

definition Alias_List :: "site \<Rightarrow> User option \<Rightarrow> Meta option \<Rightarrow> bool \<Rightarrow> Alias \<Rightarrow> 's vfs \<Rightarrow> string \<Rightarrow> ('s vfs \<times> (err + Obj list)) go" where
  "Alias_List S user meta refresh d w path =
     (if PathEqual path ''/'' \<and> \<not> autoFlatten d then Some (w, Inr (listRoot d))
      else case getRootAndPath d path of (r, sub) \<Rightarrow>
             (case map_of (pathMap d) r of
                None \<Rightarrow> Some (w, Inl ObjectNotFound)
              | Some dsts \<Rightarrow> map_option (\<lambda>(w, objs). (w, Inr objs)) (list_all_dsts S user meta refresh sub dsts w)))"

section \<open>Writing\<close>

text \<open>
  The loop of \<^verbatim>\<open>getReqPath\<close>: the first folder that has the object, or with protected names the only one.
\<close>

fun reqPath_loop :: "site \<Rightarrow> bool \<Rightarrow> string \<Rightarrow> string list \<Rightarrow> string option \<Rightarrow> 's vfs \<Rightarrow> 's vfs \<times> (err + string)" where
  "reqPath_loop S protect sub [] found w = (w, case found of None \<Rightarrow> Inl ObjectNotFound | Some p \<Rightarrow> Inr p)"
| "reqPath_loop S protect sub (dst # dsts) found w =
     (let path = path_Join dst sub
      in case fs_get S w path of
           (w, Inl e) \<Rightarrow> reqPath_loop S protect sub dsts found w
         | (w, Inr _) \<Rightarrow>
             if \<not> protect then (w, Inr path)
             else if found \<noteq> None then (w, Inl NotImplement)
             else reqPath_loop S protect sub dsts (Some path) w)"

definition getReqPath :: "site \<Rightarrow> Alias \<Rightarrow> 's vfs \<Rightarrow> string \<Rightarrow> bool \<Rightarrow> 's vfs \<times> (err + string)" where
  "getReqPath S d w path isParent =
     (case getRootAndPath d path of (r, sub) \<Rightarrow>
        if sub = [] \<and> \<not> isParent then (w, Inl NotSupport)
        else case map_of (pathMap d) r of
               None \<Rightarrow> (w, Inl ObjectNotFound)
             | Some dsts \<Rightarrow> reqPath_loop S (ProtectSameName d) sub dsts None w)"

text \<open>The operations share the way in: permission, the path, and the message for names that are there twice.\<close>

definition with_path :: "site \<Rightarrow> Alias \<Rightarrow> string \<Rightarrow> bool \<Rightarrow> string \<Rightarrow> (string \<Rightarrow> 's vfs \<Rightarrow> ('s vfs \<times> err option) go) \<Rightarrow> 's vfs \<Rightarrow> ('s vfs \<times> err option) go" where
  "with_path S d path isParent msg act w =
     (case getReqPath S d w path isParent of
        (w, Inr p) \<Rightarrow> act p w
      | (w, Inl e) \<Rightarrow> Some (w, Some (if e = NotImplement then ErrMsg msg else e)))"

definition Alias_MakeDir :: "site \<Rightarrow> Alias \<Rightarrow> 's vfs \<Rightarrow> string \<Rightarrow> string \<Rightarrow> ('s vfs \<times> err option) go" where
  "Alias_MakeDir S d w parentDir dirName =
     (if \<not> aliasWritable d then Some (w, Some PermissionDenied)
      else with_path S d parentDir True ''same-name dirs cannot make sub-dir'' (\<lambda>p w. fs_makeDir S False w (path_Join p dirName)) w)"

definition Alias_Move :: "site \<Rightarrow> Alias \<Rightarrow> 's vfs \<Rightarrow> string \<Rightarrow> string \<Rightarrow> ('s vfs \<times> err option) go" where
  "Alias_Move S d w srcObj dstDir =
     (if \<not> aliasWritable d then Some (w, Some PermissionDenied)
      else with_path S d srcObj False ''same-name files cannot be moved''
             (\<lambda>src. with_path S d dstDir True ''same-name dirs cannot be moved to'' (\<lambda>dst w. fs_move S False w src dst)) w)"

definition Alias_Rename :: "site \<Rightarrow> Alias \<Rightarrow> 's vfs \<Rightarrow> string \<Rightarrow> string \<Rightarrow> ('s vfs \<times> err option) go" where
  "Alias_Rename S d w srcObj newName =
     (if \<not> aliasWritable d then Some (w, Some PermissionDenied)
      else with_path S d srcObj False ''same-name files cannot be Rename'' (\<lambda>p w. fs_rename S False w p newName) w)"

definition Alias_Copy :: "site \<Rightarrow> (Obj \<Rightarrow> Link \<Rightarrow> err + FileStream) \<Rightarrow> User option \<Rightarrow> bool \<Rightarrow> bool \<Rightarrow> Alias \<Rightarrow> 's vfs \<Rightarrow> string \<Rightarrow> string \<Rightarrow> ('s vfs \<times> err option) go" where
  "Alias_Copy S seekable user noTask skipExisting d w srcObj dstDir =
     (if \<not> aliasWritable d then Some (w, Some PermissionDenied)
      else with_path S d srcObj False ''same-name files cannot be copied''
             (\<lambda>src. with_path S d dstDir True ''same-name dirs cannot be copied to''
                (\<lambda>dst w. map_option (\<lambda>(w, t, e). (w, e)) (fs_copy S seekable user noTask skipExisting False w src dst))) w)"

definition Alias_Remove :: "site \<Rightarrow> Alias \<Rightarrow> 's vfs \<Rightarrow> string \<Rightarrow> ('s vfs \<times> err option) go" where
  "Alias_Remove S d w obj =
     (if \<not> aliasWritable d then Some (w, Some PermissionDenied)
      else with_path S d obj False ''same-name files cannot be Delete'' (\<lambda>p w. fs_remove S w p) w)"

definition Alias_Put :: "site \<Rightarrow> Alias \<Rightarrow> 's vfs \<Rightarrow> string \<Rightarrow> FileStream \<Rightarrow> ('s vfs \<times> err option) go" where
  "Alias_Put S d w dstDir file =
     (if \<not> aliasWritable d then Some (w, Some PermissionDenied)
      else with_path S d dstDir True ''same-name dirs cannot be Put'' (\<lambda>p w. fs_putDirectly S False w p file) w)"

definition Alias_PutURL :: "site \<Rightarrow> Alias \<Rightarrow> 's vfs \<Rightarrow> string \<Rightarrow> string \<Rightarrow> string \<Rightarrow> ('s vfs \<times> err option) go" where
  "Alias_PutURL S d w dstDir name url =
     (if \<not> aliasWritable d then Some (w, Some PermissionDenied)
      else with_path S d dstDir True ''same-name files cannot offline download'' (\<lambda>p w. fs_PutURL S w p name url) w)"

section \<open>What Init makes of the lines\<close>

lemma map_of_add_path: "map_of (add_path k v m) x = (if x = k then Some ((case map_of m k of None \<Rightarrow> [] | Some vs \<Rightarrow> vs) @ [v]) else map_of m x)"
  by (induction m) auto

lemma distinct_add_path: "distinct (map fst m) \<Longrightarrow> distinct (map fst (add_path k v m))"
proof (induction m)
  case (Cons x m)
  have "dom (map_of (add_path k v m)) \<subseteq> insert k (dom (map_of m))" by (auto simp: map_of_add_path dom_def)
  then have "fst ` set (add_path k v m) \<subseteq> insert k (fst ` set m)" by (simp add: dom_map_of_conv_image_fst)
  then have "fst x \<notin> fst ` set (add_path k v m)" if "fst x \<noteq> k" using that Cons.prems by auto
  with Cons show ?case by (cases x) auto
qed simp

definition destinations :: "(string \<times> string list) list \<Rightarrow> string \<Rightarrow> string list" where
  "destinations m k = (case map_of m k of None \<Rightarrow> [] | Some vs \<Rightarrow> vs)"

definition pairs_of :: "string list \<Rightarrow> (string \<times> string) list" where
  "pairs_of lines = map getPair (filter (\<lambda>l. l \<noteq> []) (map TrimSpace lines))"

lemma foldl_add_line: "destinations (foldl add_line m lines) k = destinations m k @ map snd (filter (\<lambda>(k', _). k' = k) (pairs_of lines))"
proof (induction lines arbitrary: m)
  case (Cons l lines)
  show ?case
  proof (cases "TrimSpace l = []")
    case True
    then show ?thesis using Cons by (simp add: add_line_def pairs_of_def)
  next
    case False
    obtain k' v where p: "getPair (TrimSpace l) = (k', v)" by fastforce
    then have "destinations (add_line m l) k = destinations m k @ (if k' = k then [v] else [])"
      using False by (simp add: add_line_def destinations_def map_of_add_path split: option.splits)
    with Cons [of "add_line m l"] False p show ?thesis by (simp add: pairs_of_def)
  qed
qed (simp add: pairs_of_def)

lemma distinct_foldl: "distinct (map fst m) \<Longrightarrow> distinct (map fst (foldl add_line m lines))"
  by (induction lines arbitrary: m) (simp_all add: add_line_def Let_def distinct_add_path split: prod.splits)

text \<open>After \<^verbatim>\<open>Init\<close> an alias shows under each name exactly the folders that the lines of its configuration give to that name, in
  their order; the names are distinct; and the names are left out of the paths just when there is only one.\<close>

theorem Alias_Init_destinations:
  assumes "Alias_Init d = Inr d'"
  shows "destinations (pathMap d') k = map snd (filter (\<lambda>(k', _). k' = k) (pairs_of (Split CHR 0x0A (Paths d))))
    \<and> distinct (map fst (pathMap d')) \<and> (autoFlatten d' \<longleftrightarrow> (\<exists>vs. pathMap d' = [(oneKey d', vs)]))"
proof -
  let ?m = "foldl add_line [] (Split CHR 0x0A (Paths d))"
  have m: "pathMap d' = ?m" "autoFlatten d' \<longleftrightarrow> (\<exists>vs. pathMap d' = [(oneKey d', vs)])"
    using assms by (auto simp: Alias_Init_def Let_def split: if_splits list.splits prod.splits)
  then show ?thesis using foldl_add_line [of "[]" "Split CHR 0x0A (Paths d)" k] distinct_foldl [of "[]"] by (simp add: destinations_def)
qed

section \<open>Where writes go\<close>

text \<open>A specification of the search: all lookups that find the object, one after the other.\<close>

fun found_paths :: "site \<Rightarrow> string \<Rightarrow> string list \<Rightarrow> 's vfs \<Rightarrow> string list" where
  "found_paths S sub [] w = []"
| "found_paths S sub (dst # dsts) w =
     (case fs_get S w (path_Join dst sub) of
        (w, Inl e) \<Rightarrow> found_paths S sub dsts w
      | (w, Inr _) \<Rightarrow> path_Join dst sub # found_paths S sub dsts w)"

definition choose_path :: "bool \<Rightarrow> string option \<Rightarrow> string list \<Rightarrow> err + string" where
  "choose_path protect found ps =
     (case found of
        Some p \<Rightarrow> if ps = [] then Inr p else Inl NotImplement
      | None \<Rightarrow> (case ps of [] \<Rightarrow> Inl ObjectNotFound | p # ps' \<Rightarrow> if protect \<and> ps' \<noteq> [] then Inl NotImplement else Inr p))"

lemma reqPath_loop_spec:
  "\<not> protect \<longrightarrow> found = None \<Longrightarrow> snd (reqPath_loop S protect sub dsts found w) = choose_path protect found (found_paths S sub dsts w)"
proof (induction dsts arbitrary: found w)
  case Nil
  then show ?case by (simp add: choose_path_def split: option.splits)
next
  case (Cons dst dsts)
  obtain w1 r where g: "fs_get S w (path_Join dst sub) = (w1, r)" by fastforce
  show ?case
  proof (cases r)
    case (Inl e)
    with g Cons show ?thesis by simp
  next
    case (Inr ob)
    show ?thesis
    proof (cases "protect \<and> found = None")
      case True
      with g Inr Cons.IH [of "Some (path_Join dst sub)" w1] show ?thesis by (simp add: Let_def choose_path_def)
    next
      case False
      with g Inr Cons.prems show ?thesis by (auto simp: Let_def choose_path_def)
    qed
  qed
qed

lemma reqPath_loop_same: "storages_ok (mounts w) \<Longrightarrow> unchanged w (fst (reqPath_loop S protect sub dsts found w))"
proof (induction dsts arbitrary: found w)
  case (Cons dst dsts)
  obtain w1 r where g: "fs_get S w (path_Join dst sub) = (w1, r)" by fastforce
  have u: "unchanged w w1" by (rule fs_get_same [OF g Cons.prems])
  then have ok: "storages_ok (mounts w1)" using Cons.prems by (rule same_but_storages_ok)
  have "unchanged w (fst (reqPath_loop S protect sub dsts f w1))" for f using same_but_trans [OF u Cons.IH [OF ok]] .
  with u show ?case by (cases r; cases protect) (simp_all add: Let_def g)
qed simp

lemma reqPath_loop_dst: "snd (reqPath_loop S protect sub dsts found w) = Inr p \<Longrightarrow> found = Some p \<or> (\<exists>dst\<in>set dsts. p = path_Join dst sub)"
proof (induction dsts arbitrary: found w)
  case (Cons dst dsts)
  obtain w1 r where g: "fs_get S w (path_Join dst sub) = (w1, r)" by fastforce
  with Cons.prems Cons.IH [of found w1] Cons.IH [of "Some (path_Join dst sub)" w1] show ?case
    by (auto simp: Let_def split: sum.splits if_splits)
qed (simp split: option.splits)

text \<open>The paths below the folders of an alias.\<close>

definition alias_below :: "Alias \<Rightarrow> string \<Rightarrow> bool" where
  "alias_below d p \<longleftrightarrow> clean_path p \<and> (\<exists>k vs dst. (k, vs) \<in> set (pathMap d) \<and> dst \<in> set vs \<and> prefix (comps dst) (comps p))"

definition absolute_paths :: "Alias \<Rightarrow> bool" where
  "absolute_paths d \<longleftrightarrow> (\<forall>(k, vs)\<in>set (pathMap d). \<forall>dst\<in>set vs. HasPrefix dst ''/'')"

lemma join_below:
  assumes "HasPrefix dst ''/''" "list_all valid_comp ds" "sub = render ds \<or> sub = Join ''/'' ds"
  shows "path_Join dst sub = render (comps dst @ ds)"
proof -
  obtain q where q: "dst = CHR ''/'' # q" using assms(1) by (auto simp: HasPrefix_def prefix_def)
  have "comps (dst @ CHR ''/'' # Join ''/'' ds) = comps dst @ ds"
    using assms(2) by (cases "ds = []") (simp_all add: comps_append Split_Join valid_no_slash foldl_clean_id)
  then have "comps (dst @ CHR ''/'' # sub) = comps dst @ ds" using assms(2,3) comps_append_valid by auto
  then show ?thesis using path_Clean_rooted [of "q @ CHR ''/'' # sub"] by (simp add: path_Join_def q)
qed

lemma getRootAndPath_rest:
  assumes "clean_path path" "getRootAndPath d path = (k, sub)"
  obtains ds where "list_all valid_comp ds" "sub = render ds \<or> sub = Join ''/'' ds"
proof -
  obtain cs where cs: "path = render cs" "list_all valid_comp cs" using assms(1) by (auto simp: clean_path_def)
  show ?thesis
  proof (cases "autoFlatten d")
    case True
    then show ?thesis using assms(2) cs that [of cs] by (simp add: getRootAndPath_def)
  next
    case False
    then have sub: "sub = tl (dropWhile (\<lambda>c. c \<noteq> CHR ''/'') (Join ''/'' cs))"
      using assms(2) TrimPrefix_append [of "''/''" "Join ''/'' cs"] by (simp add: getRootAndPath_def cs render_def Let_def)
    have "tl (dropWhile (\<lambda>c. c \<noteq> CHR ''/'') (Join ''/'' cs)) = Join ''/'' (tl cs)"
    proof (cases cs)
      case (Cons c cs')
      then have "CHR ''/'' \<notin> set c" using cs(2) by (simp add: valid_comp_def)
      then have n: "\<And>x. x \<in> set c \<Longrightarrow> x \<noteq> CHR ''/''" by metis
      then have "dropWhile (\<lambda>c. c \<noteq> CHR ''/'') c = []" unfolding dropWhile_eq_Nil_conv by blast
      then have "tl (dropWhile (\<lambda>c. c \<noteq> CHR ''/'') c) = []" by (rule arg_cong [of _ _ tl, THEN trans]) simp
      moreover have "dropWhile (\<lambda>c. c \<noteq> CHR ''/'') (c @ ''/'' @ Join ''/'' cs') = ''/'' @ Join ''/'' cs'"
        using dropWhile_append2 [of c "\<lambda>c. c \<noteq> CHR ''/''" "''/'' @ Join ''/'' cs'"] n by simp
      ultimately show ?thesis by (cases "cs' = []") (simp_all add: Cons Join_Cons)
    qed simp
    with sub cs(2) that [of "tl cs"] show ?thesis by (cases cs) simp_all
  qed
qed

lemma getReqPath_result:
  assumes "getReqPath S d w path isParent = (w', r)" "storages_ok (mounts w)"
  shows "unchanged w w'" "\<lbrakk>r = Inr p; clean_path path; absolute_paths d\<rbrakk> \<Longrightarrow> alias_below d p"
proof -
  obtain k sub where k: "getRootAndPath d path = (k, sub)" by fastforce
  show "unchanged w w'" using assms reqPath_loop_same [OF assms(2)]
    by (auto simp: getReqPath_def k split: if_splits option.splits) (metis fst_conv)+
  assume r: "r = Inr p" and c: "clean_path path" and a: "absolute_paths d"
  obtain vs where vs: "map_of (pathMap d) k = Some vs" "reqPath_loop S (ProtectSameName d) sub vs None w = (w', Inr p)"
    using assms(1) r by (auto simp: getReqPath_def k split: if_splits option.splits)
  from reqPath_loop_dst [of S "ProtectSameName d" sub vs None w p] vs(2) obtain dst where dst: "dst \<in> set vs" "p = path_Join dst sub" by auto
  obtain ds where ds: "list_all valid_comp ds" "sub = render ds \<or> sub = Join ''/'' ds" using getRootAndPath_rest [OF c k] .
  have "HasPrefix dst ''/''" using a map_of_SomeD [OF vs(1)] dst(1) by (auto simp: absolute_paths_def)
  from join_below [OF this ds] have "p = render (comps dst @ ds)" using dst(2) by simp
  then have "clean_path p" "prefix (comps dst) (comps p)" using ds(1) by (auto simp: clean_path_def)
  with map_of_SomeD [OF vs(1)] dst(1) show "alias_below d p" unfolding alias_below_def by blast
qed

text \<open>An action on a path of the alias, found by the search.\<close>

lemma with_path_same:
  assumes "with_path S d path isParent msg act w = Some (w', e)" "storages_ok (mounts w)" "clean_path path" "absolute_paths d"
    and "\<And>p w1 w2 e. \<lbrakk>alias_below d p; act p w1 = Some (w2, e); storages_ok (mounts w1)\<rbrakk> \<Longrightarrow> same_but P w1 w2"
  shows "same_but P w w'"
proof -
  obtain w1 r where g: "getReqPath S d w path isParent = (w1, r)" by fastforce
  note u = getReqPath_result [OF g assms(2)]
  show ?thesis
  proof (cases r)
    case (Inl x)
    with assms(1) g u(1) show ?thesis by (auto simp: with_path_def intro: same_but_mono)
  next
    case (Inr p)
    with assms(1) g have "act p w1 = Some (w', e)" by (simp add: with_path_def)
    from assms(5) [OF u(2) [OF Inr assms(3,4)] this same_but_storages_ok [OF u(1) assms(2)]] show ?thesis by (rule unchanged_trans [OF u(1)])
  qed
qed

section \<open>Requests\<close>

datatype alias_req =
    ReqMakeDir string string
  | ReqMove string string
  | ReqRename string string
  | ReqCopy string string
  | ReqRemove string
  | ReqPut string FileStream
  | ReqPutURL string string string

fun alias_exec :: "site \<Rightarrow> (Obj \<Rightarrow> Link \<Rightarrow> err + FileStream) \<Rightarrow> User option \<Rightarrow> bool \<Rightarrow> bool \<Rightarrow> Alias \<Rightarrow> alias_req \<Rightarrow> 's vfs \<Rightarrow> ('s vfs \<times> err option) go" where
  "alias_exec S seekable user noTask skip d (ReqMakeDir p n) w = Alias_MakeDir S d w p n"
| "alias_exec S seekable user noTask skip d (ReqMove p q) w = Alias_Move S d w p q"
| "alias_exec S seekable user noTask skip d (ReqRename p n) w = Alias_Rename S d w p n"
| "alias_exec S seekable user noTask skip d (ReqCopy p q) w = Alias_Copy S seekable user noTask skip d w p q"
| "alias_exec S seekable user noTask skip d (ReqRemove p) w = Alias_Remove S d w p"
| "alias_exec S seekable user noTask skip d (ReqPut p f) w = Alias_Put S d w p f"
| "alias_exec S seekable user noTask skip d (ReqPutURL p n u) w = Alias_PutURL S d w p n u"

fun req_clean :: "alias_req \<Rightarrow> bool" where
  "req_clean (ReqMakeDir p n) \<longleftrightarrow> clean_path p \<and> valid_comp n"
| "req_clean (ReqMove p q) \<longleftrightarrow> clean_path p \<and> clean_path q"
| "req_clean (ReqRename p n) \<longleftrightarrow> clean_path p"
| "req_clean (ReqCopy p q) \<longleftrightarrow> clean_path p \<and> clean_path q"
| "req_clean (ReqRemove p) \<longleftrightarrow> clean_path p"
| "req_clean (ReqPut p f) \<longleftrightarrow> clean_path p"
| "req_clean (ReqPutURL p n u) \<longleftrightarrow> clean_path p"

text \<open>The storages mounted above a path below a folder of the alias.\<close>

definition alias_storage :: "Alias \<Rightarrow> string \<Rightarrow> bool" where
  "alias_storage d k \<longleftrightarrow> (\<exists>p. alias_below d p \<and> covers_path p k)"

lemma below_storage: "\<lbrakk>alias_below d p; same_but (covers_path p) w w'\<rbrakk> \<Longrightarrow> same_but (alias_storage d) w w'"
  by (erule same_but_mono) (auto simp: alias_storage_def)

lemma below_child: "\<lbrakk>alias_below d p; valid_comp n\<rbrakk> \<Longrightarrow> alias_below d (path_Join p n)"
proof -
  assume a: "alias_below d p" "valid_comp n"
  then obtain cs where cs: "p = render cs" "list_all valid_comp cs" by (auto simp: alias_below_def clean_path_def)
  then have "path_Join p n = render (cs @ [n])" using a(2) path_Join_one by simp
  then have "clean_path (path_Join p n)" "comps (path_Join p n) = comps p @ [n]" using cs a(2) unfolding clean_path_def by auto
  with a(1) show ?thesis unfolding alias_below_def by (auto intro: prefix_order.trans)
qed

lemma with_two_paths_same:
  assumes "with_path S d p False m (\<lambda>src. with_path S d q True m' (\<lambda>dst w. act src dst w)) w = Some (w', e)"
    and "storages_ok (mounts w)" "absolute_paths d" "clean_path p" "clean_path q"
    and "\<And>src dst w1 w2 e. \<lbrakk>act src dst w1 = Some (w2, e); storages_ok (mounts w1)\<rbrakk> \<Longrightarrow> same_but (covers_path dst) w1 w2"
  shows "same_but (alias_storage d) w w'"
proof (rule with_path_same [OF assms(1,2,4,3)])
  fix src w1 w2 e
  assume "with_path S d q True m' (\<lambda>dst w. act src dst w) w1 = Some (w2, e)" "storages_ok (mounts w1)"
  then show "same_but (alias_storage d) w1 w2"
    by (rule with_path_same [OF _ _ assms(5,3)]) (blast intro: below_storage assms(6))
qed

lemma alias_writable_same:
  assumes "alias_exec S seekable user noTask skip d req w = Some (w', e)" "storages_ok (mounts w)" "absolute_paths d" "req_clean req" "aliasWritable d"
  shows "same_but (alias_storage d) w w'"
proof -
  note path = with_path_same [where P = "alias_storage d", OF _ assms(2) _ assms(3)] and two = with_two_paths_same
  show ?thesis
  proof (cases req)
    case (ReqMakeDir p n)
    with assms(1,4,5) have w: "with_path S d p True ''same-name dirs cannot make sub-dir'' (\<lambda>p w. fs_makeDir S False w (path_Join p n)) w = Some (w', e)"
      and c: "clean_path p" "valid_comp n" by (simp_all add: Alias_MakeDir_def)
    show ?thesis by (rule path [OF w c(1)]) (blast intro: below_storage below_child [OF _ c(2)] fs_makeDir_same)
  next
    case (ReqMove p q)
    with assms(1,4,5) have w: "with_path S d p False ''same-name files cannot be moved''
        (\<lambda>src. with_path S d q True ''same-name dirs cannot be moved to'' (\<lambda>dst w. fs_move S False w src dst)) w = Some (w', e)"
      and c: "clean_path p" "clean_path q" by (simp_all add: Alias_Move_def)
    show ?thesis by (rule two [OF w assms(2,3) c]) (blast intro: same_but_mono [OF fs_move_same])
  next
    case (ReqRename p n)
    with assms(1,4,5) have w: "with_path S d p False ''same-name files cannot be Rename'' (\<lambda>p w. fs_rename S False w p n) w = Some (w', e)" and c: "clean_path p" by (simp_all add: Alias_Rename_def)
    show ?thesis by (rule path [OF w c]) (blast intro: below_storage fs_rename_same)
  next
    case (ReqCopy p q)
    with assms(1,4,5) have w: "with_path S d p False ''same-name files cannot be copied''
        (\<lambda>src. with_path S d q True ''same-name dirs cannot be copied to''
           (\<lambda>dst w. map_option (\<lambda>(w, t, e). (w, e)) (fs_copy S seekable user noTask skip False w src dst))) w = Some (w', e)"
      and c: "clean_path p" "clean_path q" by (simp_all add: Alias_Copy_def)
    show ?thesis by (rule two [OF w assms(2,3) c]) (auto intro: fs_copy_same)
  next
    case (ReqRemove p)
    with assms(1,4,5) have w: "with_path S d p False ''same-name files cannot be Delete'' (\<lambda>p w. fs_remove S w p) w = Some (w', e)" and c: "clean_path p" by (simp_all add: Alias_Remove_def)
    show ?thesis by (rule path [OF w c]) (blast intro: below_storage fs_remove_same)
  next
    case (ReqPut p f)
    with assms(1,4,5) have w: "with_path S d p True ''same-name dirs cannot be Put'' (\<lambda>p w. fs_putDirectly S False w p f) w = Some (w', e)" and c: "clean_path p" by (simp_all add: Alias_Put_def)
    show ?thesis by (rule path [OF w c]) (blast intro: below_storage fs_putDirectly_same)
  next
    case (ReqPutURL p n u)
    with assms(1,4,5) have w: "with_path S d p True ''same-name files cannot offline download'' (\<lambda>p w. fs_PutURL S w p n u) w = Some (w', e)" and c: "clean_path p" by (simp_all add: Alias_PutURL_def)
    show ?thesis by (rule path [OF w c]) (blast intro: below_storage fs_PutURL_same)
  qed
qed


text \<open>C36: With protected names, an alias writes only where an object is the only one of its path: when the lookups in the folders of the
  name find it in two of them, or in none, every request on it fails and changes nothing.\<close>

theorem protected_names_unique:
  assumes "ProtectSameName d" "getRootAndPath d path = (k, sub)" "map_of (pathMap d) k = Some vs" "length (found_paths S sub vs w) \<noteq> 1"
    and "storages_ok (mounts w)"
    and "alias_exec S seekable user noTask skip d req w = Some (w', e)" "req \<in> {ReqRename path x, ReqRemove path, ReqPut path f, ReqMakeDir path x, ReqPutURL path x y, ReqMove path x, ReqCopy path x}"
  shows "e \<noteq> None \<and> unchanged w w'"
proof -
  have ch: "\<exists>x. choose_path True None (found_paths S sub vs w) = Inl x"
    using assms(4) by (cases "found_paths S sub vs w") (auto simp: choose_path_def)
  have g: "\<exists>w1 x. getReqPath S d w path isParent = (w1, Inl x) \<and> unchanged w w1" for isParent
  proof -
    obtain w1 r where r: "getReqPath S d w path isParent = (w1, r)" by fastforce
    have "\<exists>x. r = Inl x"
      using r ch assms(1-3) reqPath_loop_spec [of True None S sub vs w]
      by (auto simp: getReqPath_def split: if_splits)
    with r getReqPath_result(1) [OF r assms(5)] show ?thesis by blast
  qed
  have "e \<noteq> None \<and> unchanged w w'" if "with_path S d path isParent m act w = Some (w', e)" for isParent m act
    using g [of isParent] that by (auto simp: with_path_def)
  then show ?thesis using assms(6,7)
    by (auto simp: Alias_MakeDir_def Alias_Move_def Alias_Rename_def Alias_Copy_def Alias_Remove_def Alias_Put_def Alias_PutURL_def split: if_splits)
qed

end
