(* ===== verification/AliasCases.thy ===== *)
theory AliasCases
  imports Alias FsManage
begin

text \<open>An alias of two storages, for the witnesses of its properties.\<close>

definition alias_lines :: string where
  "alias_lines = ''u:/a'' @ [CHR 0x0A] @ ''u:/b''"

definition two_folders :: Alias where
  "two_folders = (case Alias_Init \<lparr>Paths = alias_lines, ProtectSameName = True, aliasWritable = True, aliasModified = 0,
     pathMap = [], autoFlatten = False, oneKey = []\<rparr> of Inr d \<Rightarrow> d)"

definition one_folder :: Alias where
  "one_folder = two_folders\<lparr>pathMap := [(''u'', [''/a''])]\<rparr>"

definition shelf_site :: site where
  "shelf_site = \<lparr>siteEnv = plain_env, roles = one_role ''/a'' 0, regexs = (\<lambda>_. Some (\<lambda>_. False))\<rparr>"

abbreviation no_stream :: "Obj \<Rightarrow> Link \<Rightarrow> err + FileStream" where
  "no_stream \<equiv> (\<lambda>ob l. Inl NotSupport)"

lemma two_folders_map: "pathMap two_folders = [(''u'', [''/a'', ''/b''])]" "ProtectSameName two_folders" "getRootAndPath two_folders ''/x'' = (''u'', ''/x'')"
  by code_simp+

lemma shelves_ok: "storages_ok (mounts (tree two_shelves))"
  by code_simp

theorem Alias_Init_destinations_witness:
  "destinations (pathMap two_folders) ''u'' = [''/a'', ''/b'']"
proof -
  let ?d = "\<lparr>Paths = alias_lines, ProtectSameName = True, aliasWritable = True, aliasModified = 0, pathMap = [], autoFlatten = False, oneKey = []\<rparr>"
  have "Alias_Init ?d = Inr two_folders" by code_simp
  from Alias_Init_destinations [OF this, of "''u''"]
  have "destinations (pathMap two_folders) ''u'' = map snd (filter (\<lambda>(k', _). k' = ''u'') (pairs_of (Split CHR 0x0A alias_lines)))" by simp
  also have "\<dots> = [''/a'', ''/b'']" by code_simp
  finally show ?thesis .
qed


theorem protected_names_unique_witness:
  "\<exists>w' e. alias_exec shelf_site no_stream None False False two_folders (ReqRemove ''/x'') (tree two_shelves) = Some (w', Some e)
    \<and> unchanged (tree two_shelves) w'"
proof -
  have "(case alias_exec shelf_site no_stream None False False two_folders (ReqRemove ''/x'') (tree two_shelves) of None \<Rightarrow> False | Some _ \<Rightarrow> True)"
    by code_simp
  then obtain w' e where h: "alias_exec shelf_site no_stream None False False two_folders (ReqRemove ''/x'') (tree two_shelves) = Some (w', e)"
    by (auto split: option.splits)
  have f: "length (found_paths shelf_site ''/x'' [''/a'', ''/b''] (tree two_shelves)) \<noteq> 1" by code_simp
  have m: "map_of (pathMap two_folders) ''u'' = Some [''/a'', ''/b'']" by (simp add: two_folders_map)
  from protected_names_unique [OF two_folders_map(2,3) m f shelves_ok h] h show ?thesis by auto
qed

end
