(* ===== verification/Settings.thy ===== *)
theory Settings
  imports Accounts Sign
begin

text \<open>
  Settings (\<^verbatim>\<open>internal/op/setting.go\<close>, \<^verbatim>\<open>internal/op/hook.go\<close>, \<^verbatim>\<open>internal/db/settingitem.go\<close>,
  \<^verbatim>\<open>server/handles/setting.go\<close>, \<^verbatim>\<open>internal/bootstrap/data/setting.go\<close>): rows of a table, cached one by one under
  their keys and in lists under a text that names the query.  Hooks run before a row is saved and keep parts of
  the configuration in memory; callbacks run when the caches are cleared.  The rows are reached through
  \<^verbatim>\<open>gorm\<close>: the functions of \<open>setting_db\<close>, on the database that also holds the roles.  The caches hold pointers and
  slices, so a handler that writes into what it read writes into the cache.
\<close>

section \<open>Rows (internal/model/setting.go)\<close>

definition PUBLIC :: int where "PUBLIC = 0"
definition PRIVATE :: int where "PRIVATE = 1"
definition READONLY :: int where "READONLY = 2"
definition DEPRECATED :: int where "DEPRECATED = 3"
definition SINGLE :: int where "SINGLE = 0"

record SettingItem =
  ItemKey :: string
  ItemValue :: string
  PreDefault :: string
  ItemHelp :: string
  ItemType :: string
  ItemOptions :: string
  ItemGroup :: int
  ItemFlag :: int
  ItemIndex :: nat

definition IsDeprecated :: "SettingItem \<Rightarrow> bool" where
  "IsDeprecated s \<longleftrightarrow> ItemFlag s = DEPRECATED"

text \<open>The statements: all rows, one row, rows by flags, by group and by groups in the order of \<^verbatim>\<open>index\<close>, the changes.\<close>

record 'b setting_db =
  sAll :: "'b \<Rightarrow> err + SettingItem list"
  sByKey :: "'b \<Rightarrow> string \<Rightarrow> err + SettingItem"
  sByFlags :: "'b \<Rightarrow> int list \<Rightarrow> err + SettingItem list"
  sByGroup :: "'b \<Rightarrow> int \<Rightarrow> err + SettingItem list"
  sByGroups :: "'b \<Rightarrow> int list \<Rightarrow> err + SettingItem list"
  sSave :: "'b \<Rightarrow> SettingItem \<Rightarrow> 'b \<times> err option"
  sSaveAll :: "'b \<Rightarrow> SettingItem list \<Rightarrow> 'b \<times> err option"
  sDelete :: "'b \<Rightarrow> string \<Rightarrow> 'b \<times> err option"
  rPage :: "'b \<Rightarrow> int \<Rightarrow> int \<Rightarrow> err + Role list"

type_synonym char_map = "string \<Rightarrow> string option"

text \<open>
  What the code calls that is not under \<^verbatim>\<open>src\<close>, or belongs to other parts: regular expressions, the decoder of
  \<^verbatim>\<open>JSON\<close> (into a map that exists, with what it has done when it fails), the hooks that other packages register,
  the callbacks, the page and the tunnel.  These act on the rest of the server, \<open>'w\<close>.
\<close>

record ('b, 'w) setting_env =
  sdb :: "'b setting_db"
  sacc :: "'b account_db"
  errText :: "err \<Rightarrow> string"
  compile :: "string \<Rightarrow> err option"
  unmarshal :: "string \<Rightarrow> char_map \<Rightarrow> char_map \<times> err option"
  otherHooks :: "string \<Rightarrow> (SettingItem \<Rightarrow> 'w \<Rightarrow> 'w \<times> err option) option"
  settingChangingCallbacks :: "('w \<Rightarrow> 'w) list"
  UpdateIndex :: "'w \<Rightarrow> 'w"
  restartFRP :: "'w \<Rightarrow> 'w"

record ('b, 'w) config =
  accs :: "'b accounts"
  settingCache :: "string \<Rightarrow> SettingItem option"
  settingGroupCache :: "string \<Rightarrow> SettingItem list option"
  SlicesMap :: "string \<Rightarrow> string list option"
  PrivacyReg :: "string list"
  FilenameCharMap :: char_map
  signKey :: "string option"
  archiveKey :: "string option"
  others :: 'w

abbreviation table :: "('b, 'w) config \<Rightarrow> 'b" where
  "table st \<equiv> acTable (accs st)"

definition set_table :: "'b \<Rightarrow> ('b, 'w) config \<Rightarrow> ('b, 'w) config" where
  "set_table db st = st\<lparr>accs := (accs st)\<lparr>acTable := db\<rparr>\<rparr>"

definition in_roles :: "('b accounts \<Rightarrow> 'b accounts \<times> 'r) \<Rightarrow> ('b, 'w) config \<Rightarrow> ('b, 'w) config \<times> 'r" where
  "in_roles f st = (case f (accs st) of (a, r) \<Rightarrow> (st\<lparr>accs := a\<rparr>, r))"

section \<open>Reading\<close>

definition SettingCacheUpdate :: "('b, 'w) setting_env \<Rightarrow> ('b, 'w) config \<Rightarrow> ('b, 'w) config" where
  "SettingCacheUpdate E st =
     st\<lparr>settingCache := (\<lambda>_. None), settingGroupCache := (\<lambda>_. None),
        others := fold (\<lambda>cb w. cb w) (settingChangingCallbacks E) (others st)\<rparr>"

definition GetSettingItemByKey :: "('b, 'w) setting_env \<Rightarrow> ('b, 'w) config \<Rightarrow> string \<Rightarrow> ('b, 'w) config \<times> (err + SettingItem)" where
  "GetSettingItemByKey E st key =
     (case settingCache st key of
        Some item \<Rightarrow> (st, Inr item)
      | None \<Rightarrow>
          (case sByKey (sdb E) (table st) key of
             Inl e \<Rightarrow> (st, Inl e)
           | Inr item \<Rightarrow> (st\<lparr>settingCache := (settingCache st)(ItemKey item \<mapsto> item)\<rparr>, Inr item)))"

definition cached_list ::
    "string \<Rightarrow> ('b \<Rightarrow> err + SettingItem list) \<Rightarrow> ('b, 'w) config \<Rightarrow> ('b, 'w) config \<times> (err + SettingItem list)" where
  "cached_list key query st =
     (case settingGroupCache st key of
        Some items \<Rightarrow> (st, Inr items)
      | None \<Rightarrow>
          (case query (table st) of
             Inl e \<Rightarrow> (st, Inl e)
           | Inr items \<Rightarrow> (st\<lparr>settingGroupCache := (settingGroupCache st)(key \<mapsto> items)\<rparr>, Inr items)))"

definition GetSettingItems :: "('b, 'w) setting_env \<Rightarrow> ('b, 'w) config \<Rightarrow> ('b, 'w) config \<times> (err + SettingItem list)" where
  "GetSettingItems E = cached_list ''ALL_SETTING_ITEMS'' (sAll (sdb E))"

definition GetPublicSettingItems :: "('b, 'w) setting_env \<Rightarrow> ('b, 'w) config \<Rightarrow> ('b, 'w) config \<times> (err + SettingItem list)" where
  "GetPublicSettingItems E = cached_list ''ALL_PUBLIC_SETTING_ITEMS'' (\<lambda>db. sByFlags (sdb E) db [PUBLIC, READONLY])"

definition GetSettingItemsByGroup :: "('b, 'w) setting_env \<Rightarrow> int \<Rightarrow> ('b, 'w) config \<Rightarrow> ('b, 'w) config \<times> (err + SettingItem list)" where
  "GetSettingItemsByGroup E g = cached_list (FormatInt g) (\<lambda>db. sByGroup (sdb E) db g)"

definition groups_key :: "int list \<Rightarrow> string" where
  "groups_key groups = Join '','' (map FormatInt (sort groups))"

definition GetSettingItemsInGroups :: "('b, 'w) setting_env \<Rightarrow> int list \<Rightarrow> ('b, 'w) config \<Rightarrow> ('b, 'w) config \<times> (err + SettingItem list)" where
  "GetSettingItemsInGroups E groups = cached_list (groups_key groups) (\<lambda>db. sByGroups (sdb E) db (sort groups))"

definition values_map :: "err + SettingItem list \<Rightarrow> string \<Rightarrow> string option" where
  "values_map items = (case items of Inl e \<Rightarrow> (\<lambda>_. None) | Inr is \<Rightarrow> foldl (\<lambda>m i. m(ItemKey i \<mapsto> ItemValue i)) (\<lambda>_. None) is)"

definition GetPublicSettingsMap :: "('b, 'w) setting_env \<Rightarrow> ('b, 'w) config \<Rightarrow> ('b, 'w) config \<times> (string \<Rightarrow> string option)" where
  "GetPublicSettingsMap E st = (case GetPublicSettingItems E st of (st, items) \<Rightarrow> (st, values_map items))"

definition GetSettingsMap :: "('b, 'w) setting_env \<Rightarrow> ('b, 'w) config \<Rightarrow> ('b, 'w) config \<times> (string \<Rightarrow> string option)" where
  "GetSettingsMap E st = (case GetSettingItems E st of (st, items) \<Rightarrow> (st, values_map items))"

fun GetSettingItemInKeys ::
    "('b, 'w) setting_env \<Rightarrow> ('b, 'w) config \<Rightarrow> string list \<Rightarrow> ('b, 'w) config \<times> (err + SettingItem list)" where
  "GetSettingItemInKeys E st [] = (st, Inr [])"
| "GetSettingItemInKeys E st (key # keys) =
     (case GetSettingItemByKey E st key of
        (st, Inl e) \<Rightarrow> (st, Inl e)
      | (st, Inr item) \<Rightarrow>
          (case GetSettingItemInKeys E st keys of
             (st, Inl e) \<Rightarrow> (st, Inl e)
           | (st, Inr items) \<Rightarrow> (st, Inr (item # items))))"

section \<open>Hooks (internal/op/hook.go)\<close>

type_synonym ('b, 'w) hook = "SettingItem \<Rightarrow> ('b, 'w) config \<Rightarrow> ('b, 'w) config \<times> err option"

definition slice_hook :: "string \<Rightarrow> ('b, 'w) hook" where
  "slice_hook key item st = (st\<lparr>SlicesMap := (SlicesMap st)(key \<mapsto> Split CHR '','' (ItemValue item))\<rparr>, None)"

definition privacy_hook :: "('b, 'w) setting_env \<Rightarrow> ('b, 'w) hook" where
  "privacy_hook E item st =
     (let regStrs = Split (CHR 0x0A) (ItemValue item)
      in case List.find (\<lambda>r. compile E r \<noteq> None) regStrs of
           Some r \<Rightarrow> (st, compile E r)
         | None \<Rightarrow> (st\<lparr>PrivacyReg := regStrs\<rparr>, None))"

definition char_map_hook :: "('b, 'w) setting_env \<Rightarrow> ('b, 'w) hook" where
  "char_map_hook E item st =
     (case unmarshal E (ItemValue item) (FilenameCharMap st) of (m, e) \<Rightarrow> (st\<lparr>FilenameCharMap := m\<rparr>, e))"

definition default_role_hook :: "('b, 'w) setting_env \<Rightarrow> ('b, 'w) hook" where
  "default_role_hook E item st =
     (let v = TrimSpace (ItemValue item)
      in if v = [] then (st, None)
         else case ParseInt v of
                None \<Rightarrow> (st, Some (ErrMsg ''strconv.Atoi''))
              | Some i \<Rightarrow>
                  (case in_roles (\<lambda>a. GetRole (sacc E) a (of_int i)) st of
                     (st, Inl e) \<Rightarrow> (st, Some e)
                   | (st, Inr r) \<Rightarrow> (st, None)))"

definition slice_keys :: "string list" where
  "slice_keys = [''video_types'', ''audio_types'', ''image_types'', ''text_types'', ''proxy_types'',
     ''proxy_ignore_headers'', ''ignore_direct_link_params'']"

text \<open>A hook that another package registers takes the place of one with the same key.\<close>

definition settingItemHooks :: "('b, 'w) setting_env \<Rightarrow> string \<Rightarrow> ('b, 'w) hook option" where
  "settingItemHooks E key =
     (case otherHooks E key of
        Some h \<Rightarrow> Some (\<lambda>item st. case h item (others st) of (w, e) \<Rightarrow> (st\<lparr>others := w\<rparr>, e))
      | None \<Rightarrow>
          if key \<in> set slice_keys then Some (slice_hook key)
          else if key = ''privacy_regs'' then Some (privacy_hook E)
          else if key = ''filename_char_mapping'' then Some (char_map_hook E)
          else if key = ''default_role'' then Some (default_role_hook E)
          else None)"

definition HandleSettingItemHook ::
    "('b, 'w) setting_env \<Rightarrow> SettingItem \<Rightarrow> ('b, 'w) config \<Rightarrow> ('b, 'w) config \<times> bool \<times> err option" where
  "HandleSettingItemHook E item st =
     (case settingItemHooks E (ItemKey item) of
        Some hook \<Rightarrow> (case hook item st of (st, e) \<Rightarrow> (st, True, e))
      | None \<Rightarrow> (st, False, None))"

section \<open>Saving and deleting\<close>

definition save_row :: "('b, 'w) setting_env \<Rightarrow> SettingItem \<Rightarrow> ('b, 'w) config \<Rightarrow> ('b, 'w) config \<times> err option" where
  "save_row E item st = (case sSave (sdb E) (table st) item of (db, e) \<Rightarrow> (set_table db st, e))"

definition save_rows :: "('b, 'w) setting_env \<Rightarrow> SettingItem list \<Rightarrow> ('b, 'w) config \<Rightarrow> ('b, 'w) config \<times> err option" where
  "save_rows E items st = (case sSaveAll (sdb E) (table st) items of (db, e) \<Rightarrow> (set_table db st, e))"

text \<open>The loop of \<^verbatim>\<open>SaveSettingItems\<close>: the state, the rows without a hook and the errors, both in their order.\<close>

fun save_hooked ::
    "('b, 'w) setting_env \<Rightarrow> SettingItem list \<Rightarrow> ('b, 'w) config \<Rightarrow> ('b, 'w) config \<times> SettingItem list \<times> err list" where
  "save_hooked E [] st = (st, [], [])"
| "save_hooked E (item # items) st =
     (let (st, noHook, errs) =
            (case HandleSettingItemHook E item st of
               (st, True, Some e) \<Rightarrow> (st, [], [e])
             | (st, True, None) \<Rightarrow>
                 (case save_row E item st of
                    (st, Some e) \<Rightarrow> (st, [], [e])
                  | (st, None) \<Rightarrow> (st, [], []))
             | (st, False, e) \<Rightarrow> (st, [item], []))
      in case save_hooked E items st of (st, noHook', errs') \<Rightarrow> (st, noHook @ noHook', errs @ errs'))"

definition MergeErrors :: "('b, 'w) setting_env \<Rightarrow> err list \<Rightarrow> err option" where
  "MergeErrors E errs =
     (let errStr = Join [CHR 0x0A] (map (errText E) errs)
      in if errStr \<noteq> [] then Some (ErrMsg errStr) else None)"

definition SaveSettingItems :: "('b, 'w) setting_env \<Rightarrow> SettingItem list \<Rightarrow> ('b, 'w) config \<Rightarrow> ('b, 'w) config \<times> err option" where
  "SaveSettingItems E items st =
     (let (st, noHookItems, errs) = save_hooked E items st;
          (st, errs) =
            (if noHookItems \<noteq> [] then
               (case save_rows E noHookItems st of
                  (st, Some e) \<Rightarrow> (st, errs @ [e])
                | (st, None) \<Rightarrow> (st, errs))
             else (st, errs));
          st = (if length errs < length items - length noHookItems + 1 then SettingCacheUpdate E st else st)
      in (st, MergeErrors E errs))"

definition SaveSettingItem :: "('b, 'w) setting_env \<Rightarrow> SettingItem \<Rightarrow> ('b, 'w) config \<Rightarrow> ('b, 'w) config \<times> err option" where
  "SaveSettingItem E item st =
     (case HandleSettingItemHook E item st of
        (st, hasHook, Some e) \<Rightarrow> (st, Some e)
      | (st, hasHook, None) \<Rightarrow>
          (case save_row E item st of
             (st, Some e) \<Rightarrow> (st, Some e)
           | (st, None) \<Rightarrow> (SettingCacheUpdate E st, None)))"

definition DeleteSettingItemByKey :: "('b, 'w) setting_env \<Rightarrow> string \<Rightarrow> ('b, 'w) config \<Rightarrow> ('b, 'w) config \<times> err option" where
  "DeleteSettingItemByKey E key st =
     (case GetSettingItemByKey E st key of
        (st, Inl e) \<Rightarrow> (st, Some e)
      | (st, Inr old) \<Rightarrow>
          if \<not> IsDeprecated old then (st, Some (ErrMsg ''setting is not deprecated''))
          else let st = SettingCacheUpdate E st; (db, e) = sDelete (sdb E) (table st) key
               in (set_table db st, e))"

text \<open>
  The end of \<^verbatim>\<open>CreateRole\<close> and \<^verbatim>\<open>UpdateRole\<close> for a default role: the row that was read is changed in place, and it
  is the one the cache holds.
\<close>

definition store_default_role :: "('b, 'w) setting_env \<Rightarrow> nat \<Rightarrow> ('b, 'w) config \<Rightarrow> ('b, 'w) config \<times> err option" where
  "store_default_role E i st =
     (let st = st\<lparr>accs := (accs st)\<lparr>roleCache := (\<lambda>_. None)\<rparr>\<rparr>
      in case GetSettingItemByKey E st ''default_role'' of
           (st, Inl e) \<Rightarrow> (st, Some e)
         | (st, Inr item) \<Rightarrow>
             let item = item\<lparr>ItemValue := FormatInt (wrap64 (int i))\<rparr>
             in SaveSettingItem E item (st\<lparr>settingCache := (settingCache st)(ItemKey item \<mapsto> item)\<rparr>))"

section \<open>Signing keys (internal/sign)\<close>

text \<open>The keys are read once, at the first use, or when \<^verbatim>\<open>Instance\<close> is called.\<close>

definition setting_str :: "('b, 'w) setting_env \<Rightarrow> string \<Rightarrow> ('b, 'w) config \<Rightarrow> ('b, 'w) config \<times> string" where
  "setting_str E key st =
     (case GetSettingItemByKey E st key of
        (st, Inl e) \<Rightarrow> (st, [])
      | (st, Inr item) \<Rightarrow> (st, ItemValue item))"

definition Instance :: "('b, 'w) setting_env \<Rightarrow> ('b, 'w) config \<Rightarrow> ('b, 'w) config" where
  "Instance E st = (case setting_str E ''token'' st of (st, v) \<Rightarrow> st\<lparr>signKey := Some v\<rparr>)"

definition InstanceArchive :: "('b, 'w) setting_env \<Rightarrow> ('b, 'w) config \<Rightarrow> ('b, 'w) config" where
  "InstanceArchive E st = (case setting_str E ''token'' st of (st, v) \<Rightarrow> st\<lparr>archiveKey := Some (v @ ''-archive'')\<rparr>)"

definition Verify :: "('b, 'w) setting_env \<Rightarrow> mac \<Rightarrow> int \<Rightarrow> string \<Rightarrow> string \<Rightarrow> ('b, 'w) config \<Rightarrow> ('b, 'w) config \<times> sign_err option" where
  "Verify E mac now data sig st =
     (let st = (if signKey st = None then Instance E st else st)
      in (st, HMAC_Verify mac (the (signKey st)) (unix now) data sig))"

definition VerifyArchive_now ::
    "('b, 'w) setting_env \<Rightarrow> mac \<Rightarrow> int \<Rightarrow> string \<Rightarrow> string \<Rightarrow> ('b, 'w) config \<Rightarrow> ('b, 'w) config \<times> sign_err option" where
  "VerifyArchive_now E mac now data sig st =
     (let st = (if archiveKey st = None then InstanceArchive E st else st)
      in (st, HMAC_Verify mac (the (archiveKey st)) (unix now) data sig))"

section \<open>Requests (server/handles/setting.go)\<close>

definition getRoleOptions :: "('b, 'w) setting_env \<Rightarrow> ('b, 'w) config \<Rightarrow> string" where
  "getRoleOptions E st =
     (case rPage (sdb E) (table st) 1 (2 ^ 63 - 1) of
        Inl e \<Rightarrow> []
      | Inr rs \<Rightarrow> Join '','' (map RoleName (filter (\<lambda>r. \<not> (RoleName r = ''admin'' \<or> RoleName r = ''guest'')) rs)))"

definition name_of_role :: "('b, 'w) setting_env \<Rightarrow> string \<Rightarrow> ('b, 'w) config \<Rightarrow> ('b, 'w) config \<times> string" where
  "name_of_role E v st =
     (case ParseInt v of
        None \<Rightarrow> (st, v)
      | Some i \<Rightarrow>
          (case in_roles (\<lambda>a. GetRole (sacc E) a (of_int i)) st of
             (st, Inl e) \<Rightarrow> (st, v)
           | (st, Inr r) \<Rightarrow> (st, RoleName r)))"

text \<open>The loops over what is shown: the first row of \<^verbatim>\<open>default_role\<close> gets the name of the role and the names to choose from.\<close>

fun name_default_role ::
    "('b, 'w) setting_env \<Rightarrow> SettingItem list \<Rightarrow> ('b, 'w) config \<Rightarrow> ('b, 'w) config \<times> SettingItem list" where
  "name_default_role E [] st = (st, [])"
| "name_default_role E (item # items) st =
     (if ItemKey item = ''default_role'' then
        (case name_of_role E (ItemValue item) st of
           (st, v) \<Rightarrow> (st, item\<lparr>ItemValue := v, ItemOptions := getRoleOptions E st\<rparr> # items))
      else (case name_default_role E items st of (st, items) \<Rightarrow> (st, item # items)))"

definition token_item :: "string \<Rightarrow> SettingItem" where
  "token_item v =
     \<lparr>ItemKey = ''token'', ItemValue = v, PreDefault = [], ItemHelp = [], ItemType = ''string'', ItemOptions = [],
      ItemGroup = SINGLE, ItemFlag = PRIVATE, ItemIndex = 0\<rparr>"

text \<open>\<^verbatim>\<open>ResetToken\<close> with the text that \<^verbatim>\<open>random.Token\<close> gave, and \<^verbatim>\<open>SetToken\<close>; \<^const>\<open>None\<close> is a body that does not bind.\<close>

definition ResetToken :: "('b, 'w) setting_env \<Rightarrow> string \<Rightarrow> ('b, 'w) config \<Rightarrow> ('b, 'w) config \<times> int" where
  "ResetToken E v st =
     (case SaveSettingItem E (token_item v) st of
        (st, Some e) \<Rightarrow> (st, 500)
      | (st, None) \<Rightarrow> (Instance E st, 200))"

definition SetToken :: "('b, 'w) setting_env \<Rightarrow> string option \<Rightarrow> ('b, 'w) config \<Rightarrow> ('b, 'w) config \<times> int" where
  "SetToken E req st =
     (case req of
        None \<Rightarrow> (st, 400)
      | Some v \<Rightarrow>
          (case SaveSettingItem E (token_item v) st of
             (st, Some e) \<Rightarrow> (st, 500)
           | (st, None) \<Rightarrow> (Instance E st, 200)))"

definition GetSetting ::
    "('b, 'w) setting_env \<Rightarrow> string \<Rightarrow> string \<Rightarrow> ('b, 'w) config \<Rightarrow> ('b, 'w) config \<times> int \<times> SettingItem list" where
  "GetSetting E key keys st =
     (if key \<noteq> [] then
        (case GetSettingItemByKey E st key of
           (st, Inl e) \<Rightarrow> (st, 400, [])
         | (st, Inr item) \<Rightarrow>
             if ItemKey item = ''default_role'' then
               let options = getRoleOptions E st; (st, v) = name_of_role E (ItemValue item) st
               in (st, 200, [item\<lparr>ItemOptions := options, ItemValue := v\<rparr>])
             else (st, 200, [item]))
      else
        (case GetSettingItemInKeys E st (Split CHR '','' keys) of
           (st, Inl e) \<Rightarrow> (st, 400, [])
         | (st, Inr items) \<Rightarrow> (case name_default_role E items st of (st, items) \<Rightarrow> (st, 200, items))))"

fun number_default_role ::
    "('b, 'w) setting_env \<Rightarrow> SettingItem list \<Rightarrow> ('b, 'w) config \<Rightarrow> ('b, 'w) config \<times> SettingItem list option" where
  "number_default_role E [] st = (st, Some [])"
| "number_default_role E (item # items) st =
     (let (st, item) =
            (if ItemKey item = ''default_role'' then
               (case in_roles (\<lambda>a. GetRoleByName (sacc E) a (ItemValue item)) st of
                  (st, Inl e) \<Rightarrow> (st, None)
                | (st, Inr r) \<Rightarrow>
                    if RoleName r = ''admin'' \<or> RoleName r = ''guest'' then (st, None)
                    else (st, Some (item\<lparr>ItemValue := FormatInt (wrap64 (int (RoleID r)))\<rparr>)))
             else (st, Some item))
      in case item of
           None \<Rightarrow> (st, None)
         | Some item \<Rightarrow> (case number_default_role E items st of (st, r) \<Rightarrow> (st, map_option ((#) item) r)))"

definition SaveSettings :: "('b, 'w) setting_env \<Rightarrow> SettingItem list option \<Rightarrow> ('b, 'w) config \<Rightarrow> ('b, 'w) config \<times> int" where
  "SaveSettings E req st =
     (case req of
        None \<Rightarrow> (st, 400)
      | Some req \<Rightarrow>
          (case number_default_role E req st of
             (st, None) \<Rightarrow> (st, 400)
           | (st, Some req) \<Rightarrow>
               (case SaveSettingItems E req st of
                  (st, Some e) \<Rightarrow> (st, 500)
                | (st, None) \<Rightarrow> (st\<lparr>others := UpdateIndex E (others st)\<rparr>, 200))))"

text \<open>
  \<^verbatim>\<open>ListSettings\<close>: the groups asked for, the rows, and the loop that writes into the slice, which is also the one the
  cache holds.
\<close>

fun parse_groups :: "string list \<Rightarrow> int list option" where
  "parse_groups [] = Some []"
| "parse_groups (s # ss) = (case ParseInt s of None \<Rightarrow> None | Some i \<Rightarrow> map_option ((#) i) (parse_groups ss))"

definition listed_groups :: "string \<Rightarrow> string \<Rightarrow> int list option option" where
  "listed_groups groupStr groupsStr =
     (if groupsStr = [] \<and> groupStr = [] then Some None
      else map_option Some (parse_groups (if groupsStr \<noteq> [] then Split CHR '','' groupsStr else [groupStr])))"

definition rewrite_list :: "string \<Rightarrow> SettingItem list \<Rightarrow> ('b, 'w) config \<Rightarrow> ('b, 'w) config" where
  "rewrite_list key items st = st\<lparr>settingGroupCache := (settingGroupCache st)(key := map_option (\<lambda>_. items) (settingGroupCache st key))\<rparr>"

definition ListSettings ::
    "('b, 'w) setting_env \<Rightarrow> string \<Rightarrow> string \<Rightarrow> ('b, 'w) config \<Rightarrow> ('b, 'w) config \<times> int \<times> SettingItem list" where
  "ListSettings E groupStr groupsStr st =
     (case listed_groups groupStr groupsStr of
        None \<Rightarrow> (st, 400, [])
      | Some groups \<Rightarrow>
          let key = (case groups of None \<Rightarrow> ''ALL_SETTING_ITEMS'' | Some gs \<Rightarrow> groups_key gs);
              (st, items) = (case groups of None \<Rightarrow> GetSettingItems E st | Some gs \<Rightarrow> GetSettingItemsInGroups E gs st)
          in case items of
               Inl e \<Rightarrow> (st, 400, [])
             | Inr items \<Rightarrow>
                 (case name_default_role E items st of (st, items) \<Rightarrow> (rewrite_list key items st, 200, items)))"

definition DeleteSetting :: "('b, 'w) setting_env \<Rightarrow> string \<Rightarrow> ('b, 'w) config \<Rightarrow> ('b, 'w) config \<times> int" where
  "DeleteSetting E key st =
     (case DeleteSettingItemByKey E key st of
        (st, Some e) \<Rightarrow> (st, 500)
      | (st, None) \<Rightarrow> (st, 200))"

definition SetFRP :: "('b, 'w) setting_env \<Rightarrow> SettingItem list option \<Rightarrow> ('b, 'w) config \<Rightarrow> ('b, 'w) config \<times> int" where
  "SetFRP E req st =
     (case req of
        None \<Rightarrow> (st, 400)
      | Some req \<Rightarrow>
          (case SaveSettingItems E req st of
             (st, Some e) \<Rightarrow> (st, 500)
           | (st, None) \<Rightarrow> (st\<lparr>others := restartFRP E (others st)\<rparr>, 200)))"

definition PublicSettings :: "('b, 'w) setting_env \<Rightarrow> ('b, 'w) config \<Rightarrow> ('b, 'w) config \<times> (string \<Rightarrow> string option)" where
  "PublicSettings E st = GetPublicSettingsMap E st"

section \<open>Start of the server (internal/bootstrap/data/setting.go)\<close>

text \<open>
  \<open>shipped\<close> are the rows the program comes with and \<open>legacy\<close> the texts that were defaults before; \<^const>\<open>None\<close> is the end
  of the process after a fatal error.
\<close>

definition isShippedDefault :: "(string \<Rightarrow> string list) \<Rightarrow> SettingItem \<Rightarrow> string \<Rightarrow> bool" where
  "isShippedDefault legacy item v \<longleftrightarrow> v = PreDefault item \<or> v \<in> set (legacy (ItemKey item))"

definition isActive :: "SettingItem list \<Rightarrow> string \<Rightarrow> bool" where
  "isActive shipped key \<longleftrightarrow> list_ex (\<lambda>item. ItemKey item = key) shipped"

definition outdated :: "SettingItem list \<Rightarrow> SettingItem \<Rightarrow> bool" where
  "outdated shipped v \<longleftrightarrow> \<not> isActive shipped (ItemKey v) \<and> ItemFlag v \<noteq> DEPRECATED"

definition marked :: "SettingItem list \<Rightarrow> SettingItem \<Rightarrow> SettingItem" where
  "marked shipped v = (if outdated shipped v then v\<lparr>ItemFlag := DEPRECATED\<rparr> else v)"

fun mark_deprecated ::
    "('b, 'w) setting_env \<Rightarrow> SettingItem list \<Rightarrow> SettingItem list \<Rightarrow> ('b, 'w) config \<Rightarrow>
     (('b, 'w) config \<times> (string \<Rightarrow> SettingItem option)) option" where
  "mark_deprecated E shipped [] st = Some (st, \<lambda>_. None)"
| "mark_deprecated E shipped (v # vs) st =
     (case (if outdated shipped v then SaveSettingItem E (marked shipped v) st else (st, None)) of
        (st, Some e) \<Rightarrow> None
      | (st, None) \<Rightarrow>
          (case mark_deprecated E shipped vs st of
             None \<Rightarrow> None
           | Some (st, m) \<Rightarrow> Some (st, (\<lambda>k. if k = ItemKey v \<and> m k = None then Some (marked shipped v) else m k))))"

text \<open>One shipped row: its number and old default, the stored row, the value to keep.\<close>

definition numbered_item :: "nat \<Rightarrow> SettingItem \<Rightarrow> SettingItem" where
  "numbered_item i item =
     (if PreDefault item = [] then item\<lparr>ItemIndex := i, PreDefault := ItemValue item\<rparr> else item\<lparr>ItemIndex := i\<rparr>)"

definition stored_row ::
    "('b, 'w) setting_env \<Rightarrow> (string \<Rightarrow> SettingItem option) \<Rightarrow> string \<Rightarrow> ('b, 'w) config \<Rightarrow>
     ('b, 'w) config \<times> (err + SettingItem option)" where
  "stored_row E settingMap key st =
     (case settingMap key of
        Some r \<Rightarrow> (st, Inr (Some r))
      | None \<Rightarrow>
          (case GetSettingItemByKey E st key of
             (st, Inl e) \<Rightarrow> (st, if e = RecordNotFound then Inr None else Inl e)
           | (st, Inr r) \<Rightarrow> (st, Inr (Some r))))"

definition keep_value :: "(string \<Rightarrow> string list) \<Rightarrow> SettingItem option \<Rightarrow> SettingItem \<Rightarrow> SettingItem" where
  "keep_value legacy row0 item =
     (case row0 of
        None \<Rightarrow> item
      | Some r \<Rightarrow>
          if ItemKey item \<noteq> ''version'' \<and> \<not> isShippedDefault legacy item (ItemValue r)
          then item\<lparr>ItemValue := ItemValue r\<rparr> else item)"

text \<open>The result is the row to store and whether it differs from the stored one.\<close>

definition settle_item ::
    "('b, 'w) setting_env \<Rightarrow> (string \<Rightarrow> string list) \<Rightarrow> (string \<Rightarrow> SettingItem option) \<Rightarrow> nat \<Rightarrow> SettingItem \<Rightarrow>
     ('b, 'w) config \<Rightarrow> (('b, 'w) config \<times> SettingItem \<times> bool) option" where
  "settle_item E legacy settingMap i item st =
     (case stored_row E settingMap (ItemKey item) st of
        (st, Inl e) \<Rightarrow> None
      | (st, Inr row0) \<Rightarrow>
          let item = keep_value legacy row0 (numbered_item i item)
          in case HandleSettingItemHook E item st of
               (st, hasHook, Some e) \<Rightarrow> Some (st, item, False)
             | (st, hasHook, None) \<Rightarrow> Some (st, item, row0 = None \<or> row0 \<noteq> Some item))"

fun settle_items ::
    "('b, 'w) setting_env \<Rightarrow> (string \<Rightarrow> string list) \<Rightarrow> (string \<Rightarrow> SettingItem option) \<Rightarrow> nat \<Rightarrow> SettingItem list \<Rightarrow>
     ('b, 'w) config \<Rightarrow> (('b, 'w) config \<times> SettingItem list \<times> bool) option" where
  "settle_items E legacy settingMap i [] st = Some (st, [], False)"
| "settle_items E legacy settingMap i (item # items) st =
     (case settle_item E legacy settingMap i item st of
        None \<Rightarrow> None
      | Some (st, item, save) \<Rightarrow>
          (case settle_items E legacy settingMap (Suc i) items st of
             None \<Rightarrow> None
           | Some (st, items, save') \<Rightarrow> Some (st, item # items, save \<or> save')))"

definition initSettings ::
    "('b, 'w) setting_env \<Rightarrow> (string \<Rightarrow> string list) \<Rightarrow> SettingItem list \<Rightarrow> ('b, 'w) config \<Rightarrow> ('b, 'w) config option" where
  "initSettings E legacy shipped st =
     (case GetSettingItems E st of
        (st, Inl e) \<Rightarrow> None
      | (st, Inr settings) \<Rightarrow>
          (case mark_deprecated E shipped settings st of
             None \<Rightarrow> None
           | Some (st, settingMap) \<Rightarrow>
               (case settle_items E legacy settingMap 0 shipped st of
                  None \<Rightarrow> None
                | Some (st, items, save) \<Rightarrow>
                    if \<not> save then Some st
                    else case save_rows E items st of
                           (st, Some e) \<Rightarrow> None
                         | (st, None) \<Rightarrow> Some (SettingCacheUpdate E st))))"

end
