(* ===== verification/SettingsProps.thy ===== *)
theory SettingsProps
  imports Settings
begin

text \<open>
  What the settings promise: reads through the caches give the current rows after any history of requests, an
  upgrade of the program keeps the choices of the administrator, a new token is the new key of the signer.  What the
  code does with the row of \<^verbatim>\<open>default_role\<close> and with the key of archive links is shown on concrete histories.
\<close>

section \<open>What is assumed of the table\<close>

text \<open>The answers of all statements that read settings.\<close>

definition view :: "'b setting_db \<Rightarrow> 'b \<Rightarrow>
    (string \<Rightarrow> err + SettingItem) \<times> (err + SettingItem list) \<times> (int list \<Rightarrow> err + SettingItem list) \<times> (int list \<Rightarrow> err + SettingItem list)" where
  "view S db = (sByKey S db, sAll S db, sByFlags S db, sByGroups S db)"

definition as_stored :: "SettingItem \<Rightarrow> SettingItem" where
  "as_stored item = item\<lparr>PreDefault := []\<rparr>"

text \<open>
  A row is found under its key.  A statement that fails changes nothing; one that succeeds changes the rows it names,
  and \<^verbatim>\<open>PreDefault\<close> is not stored.  The list of all rows has each row once.  Statements on roles leave the settings alone.
\<close>

definition setting_db_ok :: "('b, 'w) setting_env \<Rightarrow> bool" where
  "setting_db_ok E \<longleftrightarrow> (let S = sdb E in
     (\<forall>db k item. sByKey S db k = Inr item \<longrightarrow> ItemKey item = k)
   \<and> (\<forall>db item db' e. sSave S db item = (db', Some e) \<longrightarrow> view S db' = view S db)
   \<and> (\<forall>db item db'. sSave S db item = (db', None) \<longrightarrow> sByKey S db' = (sByKey S db)(ItemKey item := Inr (as_stored item)))
   \<and> (\<forall>db items db' e. sSaveAll S db items = (db', Some e) \<longrightarrow> view S db' = view S db)
   \<and> (\<forall>db items db'. sSaveAll S db items = (db', None) \<longrightarrow>
        sByKey S db' = fold (\<lambda>item f. f(ItemKey item := Inr (as_stored item))) items (sByKey S db))
   \<and> (\<forall>db rows. sAll S db = Inr rows \<longrightarrow>
        distinct (map ItemKey rows) \<and> (\<forall>k r. sByKey S db k = Inr r \<longleftrightarrow> r \<in> set rows \<and> ItemKey r = k))
   \<and> (\<forall>db r. view S (fst (rSave (sacc E) db r)) = view S db))"

lemma setting_db_laws:
  assumes "setting_db_ok E"
  shows "sByKey (sdb E) db k = Inr item \<Longrightarrow> ItemKey item = k"
    and "sSave (sdb E) db item = (db', Some e) \<Longrightarrow> view (sdb E) db' = view (sdb E) db"
    and "sSave (sdb E) db item = (db', None) \<Longrightarrow> sByKey (sdb E) db' = (sByKey (sdb E) db)(ItemKey item := Inr (as_stored item))"
    and "sSaveAll (sdb E) db items = (db', Some e) \<Longrightarrow> view (sdb E) db' = view (sdb E) db"
    and "sSaveAll (sdb E) db items = (db', None) \<Longrightarrow>
      sByKey (sdb E) db' = fold (\<lambda>item f. f(ItemKey item := Inr (as_stored item))) items (sByKey (sdb E) db)"
    and "sAll (sdb E) db = Inr rows \<Longrightarrow> distinct (map ItemKey rows)"
    and "sAll (sdb E) db = Inr rows \<Longrightarrow> sByKey (sdb E) db k = Inr r \<longleftrightarrow> r \<in> set rows \<and> ItemKey r = k"
    and "view (sdb E) (fst (rSave (sacc E) db role)) = view (sdb E) db"
  using assms by (simp_all only: setting_db_ok_def Let_def)

section \<open>Agreement of the caches with the table\<close>

text \<open>The lists that requests ask for, with the text that names them in the cache.\<close>

datatype query = AllItems | PublicItems | InGroups "int list"

fun query_key :: "query \<Rightarrow> string" where
  "query_key AllItems = ''ALL_SETTING_ITEMS''"
| "query_key PublicItems = ''ALL_PUBLIC_SETTING_ITEMS''"
| "query_key (InGroups gs) = groups_key gs"

fun query_rows :: "'b setting_db \<Rightarrow> 'b \<Rightarrow> query \<Rightarrow> err + SettingItem list" where
  "query_rows S db AllItems = sAll S db"
| "query_rows S db PublicItems = sByFlags S db [PUBLIC, READONLY]"
| "query_rows S db (InGroups gs) = sByGroups S db (sort gs)"

fun query_ok :: "query \<Rightarrow> bool" where
  "query_ok (InGroups gs) \<longleftrightarrow> gs \<noteq> [] \<and> list_all int64_range gs"
| "query_ok _ \<longleftrightarrow> True"

text \<open>A row without what \<^verbatim>\<open>ListSettings\<close> writes into it.\<close>

definition masked :: "SettingItem \<Rightarrow> SettingItem" where
  "masked item = (if ItemKey item = ''default_role'' then item\<lparr>ItemValue := [], ItemOptions := []\<rparr> else item)"

definition rows_ok :: "('b, 'w) setting_env \<Rightarrow> ('b, 'w) config \<Rightarrow> bool" where
  "rows_ok E st \<longleftrightarrow> (\<forall>k item. settingCache st k = Some item \<longrightarrow>
     ItemKey item = k \<and> (k \<noteq> ''default_role'' \<longrightarrow> sByKey (sdb E) (table st) k = Inr item))"

definition lists_ok :: "('b, 'w) setting_env \<Rightarrow> ('b, 'w) config \<Rightarrow> bool" where
  "lists_ok E st \<longleftrightarrow> (\<forall>k items. settingGroupCache st k = Some items \<longrightarrow>
     (\<exists>q rows. query_ok q \<and> query_key q = k \<and> query_rows (sdb E) (table st) q = Inr rows \<and> map masked items = map masked rows))"

definition caches_ok :: "('b, 'w) setting_env \<Rightarrow> ('b, 'w) config \<Rightarrow> bool" where
  "caches_ok E st \<longleftrightarrow> rows_ok E st \<and> lists_ok E st"

text \<open>A step that leaves the caches and the settings in the table alone, such as one on roles.\<close>

definition same_settings :: "('b, 'w) setting_env \<Rightarrow> ('b, 'w) config \<Rightarrow> ('b, 'w) config \<Rightarrow> bool" where
  "same_settings E st st' \<longleftrightarrow> settingCache st' = settingCache st \<and> settingGroupCache st' = settingGroupCache st
     \<and> view (sdb E) (table st') = view (sdb E) (table st) \<and> archiveKey st' = archiveKey st"

lemma same_settings_refl [simp]: "same_settings E st st"
  by (simp add: same_settings_def)

lemma same_settings_trans: "\<lbrakk>same_settings E st st'; same_settings E st' st''\<rbrakk> \<Longrightarrow> same_settings E st st''"
  by (simp add: same_settings_def)

lemma view_query: "view S db' = view S db \<Longrightarrow> query_rows S db' q = query_rows S db q"
  by (cases q) (simp_all add: view_def)

lemma caches_ok_same:
  assumes "caches_ok E st" "same_settings E st st'"
  shows "caches_ok E st'"
  using assms view_query [of "sdb E" "table st'" "table st"]
  by (simp add: caches_ok_def rows_ok_def lists_ok_def same_settings_def view_def)

lemma caches_ok_cleared: "caches_ok E (set_table db (SettingCacheUpdate E st))" "caches_ok E (SettingCacheUpdate E st)"
  by (simp_all add: caches_ok_def rows_ok_def lists_ok_def SettingCacheUpdate_def set_table_def)

section \<open>Roles and hooks\<close>

lemma view_enforceAdmin:
  assumes "setting_db_ok E" "enforceAdminRoleDefaults (sacc E) a r = (a', r', e)"
  shows "view (sdb E) (acTable a') = view (sdb E) (acTable a)"
proof -
  have "view (sdb E) db' = view (sdb E) db" if "rSave (sacc E) db q = (db', x)" for db q db' x
    using setting_db_laws(8) [OF assms(1), of db q] that by simp
  then show ?thesis using assms(2)
    by (auto simp: enforceAdminRoleDefaults_def Let_def split: if_splits list.splits prod.splits)
qed

lemma view_load_role:
  assumes "setting_db_ok E" "load_role (sacc E) a got key other = (a', r)"
  shows "view (sdb E) (acTable a') = view (sdb E) (acTable a)"
  using assms(2) view_enforceAdmin [OF assms(1)]
  by (auto simp: load_role_def split: sum.splits prod.splits option.splits)

lemma roles_same_settings:
  assumes "setting_db_ok E"
  shows "in_roles (\<lambda>a. GetRole (sacc E) a i) st = (st', r) \<Longrightarrow> same_settings E st st'"
    and "in_roles (\<lambda>a. GetRoleByName (sacc E) a n) st = (st', r) \<Longrightarrow> same_settings E st st'"
  using view_load_role [OF assms]
  by (auto simp: in_roles_def GetRole_def GetRoleByName_def Let_def same_settings_def split: prod.splits option.splits)

lemma hook_same_settings:
  assumes "setting_db_ok E" "HandleSettingItemHook E item st = (st', h, e)"
  shows "same_settings E st st'"
proof -
  have role: "same_settings E st st''" if "default_role_hook E item st = (st'', x)" for st'' x
    using that roles_same_settings(1) [OF assms(1)]
    by (auto simp: default_role_hook_def Let_def split: if_splits option.splits prod.splits sum.splits)
  show ?thesis
    using assms(2) role
    by (auto simp: HandleSettingItemHook_def settingItemHooks_def slice_hook_def privacy_hook_def char_map_hook_def
        Let_def same_settings_def split: option.splits if_splits prod.splits)
qed

lemma save_row_failed:
  assumes "setting_db_ok E" "save_row E item st = (st', Some e)"
  shows "same_settings E st st'"
  using assms(2) setting_db_laws(2) [OF assms(1)]
  by (auto simp: save_row_def set_table_def same_settings_def split: prod.splits)

lemma save_rows_failed:
  assumes "setting_db_ok E" "save_rows E items st = (st', Some e)"
  shows "same_settings E st st'"
  using assms(2) setting_db_laws(4) [OF assms(1)]
  by (auto simp: save_rows_def set_table_def same_settings_def split: prod.splits)

section \<open>Every operation keeps the agreement\<close>

lemma GetSettingItemByKey_ok:
  assumes "setting_db_ok E" "caches_ok E st" "GetSettingItemByKey E st k = (st', r)"
  shows "caches_ok E st' \<and> accs st' = accs st \<and> (k \<noteq> ''default_role'' \<longrightarrow> r = sByKey (sdb E) (table st) k)
    \<and> (\<forall>item. r = Inr item \<longrightarrow> ItemKey item = k \<and> settingCache st' k = Some item) \<and> archiveKey st' = archiveKey st"
proof (cases "settingCache st k")
  case (Some item)
  with assms(2,3) show ?thesis by (auto simp: GetSettingItemByKey_def caches_ok_def rows_ok_def)
next
  case None
  show ?thesis
  proof (cases "sByKey (sdb E) (table st) k")
    case (Inl e)
    with None assms(2,3) show ?thesis by (auto simp: GetSettingItemByKey_def)
  next
    case (Inr item)
    have key: "ItemKey item = k" using setting_db_laws(1) [OF assms(1) Inr] .
    then have st': "st' = st\<lparr>settingCache := (settingCache st)(k \<mapsto> item)\<rparr>" "r = Inr item"
      using None Inr assms(3) by (simp_all add: GetSettingItemByKey_def)
    have "caches_ok E st'" using assms(2) key Inr by (simp add: st' caches_ok_def rows_ok_def lists_ok_def)
    with Inr key show ?thesis by (simp add: st')
  qed
qed

lemma GetSettingItemInKeys_ok:
  assumes "setting_db_ok E" "caches_ok E st" "GetSettingItemInKeys E st ks = (st', r)"
  shows "caches_ok E st'"
  using assms(2,3)
proof (induction ks arbitrary: st st' r)
  case (Cons k ks)
  obtain st1 x where get: "GetSettingItemByKey E st k = (st1, x)" by fastforce
  with Cons.prems have ok: "caches_ok E st1" using GetSettingItemByKey_ok [OF assms(1)] by blast
  obtain st2 y where rest: "GetSettingItemInKeys E st1 ks = (st2, y)" by fastforce
  show ?case using Cons.prems(2) ok Cons.IH [OF ok rest] get rest by (auto split: sum.splits)
qed simp

text \<open>The text of a query tells it, up to the order of the groups.\<close>

lemma parse_groups_texts: "list_all int64_range gs \<Longrightarrow> parse_groups (map FormatInt gs) = Some gs"
  by (induction gs) (simp_all add: ParseInt_FormatInt)

lemma groups_of_key:
  assumes "gs \<noteq> []" "list_all int64_range gs"
  shows "parse_groups (Split CHR '','' (groups_key gs)) = Some (sort gs)"
proof -
  have "\<forall>x \<in> set (map FormatInt (sort gs)). CHR '','' \<notin> set x"
    by (auto dest!: FormatInt_chars simp: is_digit_def)
  moreover have "map FormatInt (sort gs) \<noteq> []" using assms(1) by (metis length_0_conv length_sort map_is_Nil_conv)
  ultimately show ?thesis using assms(2) parse_groups_texts [of "sort gs"]
    by (simp add: groups_key_def Split_Join list_all_iff)
qed

lemma names_are_no_groups:
  "ParseInt ''ALL_SETTING_ITEMS'' = None" "ParseInt ''ALL_PUBLIC_SETTING_ITEMS'' = None"
  by code_simp+

lemma query_of_key:
  assumes "query_ok q" "query_ok q'" "query_key q = query_key q'"
  shows "query_rows S db q = query_rows S db q'"
proof -
  have "parse_groups (Split CHR '','' (query_key p)) = (case p of InGroups gs \<Rightarrow> Some (sort gs) | _ \<Rightarrow> None)" if "query_ok p" for p
    using that by (cases p) (simp_all add: groups_of_key names_are_no_groups)
  from this [OF assms(1)] this [OF assms(2)] assms show ?thesis by (cases q; cases q') simp_all
qed

lemma cached_list_ok:
  assumes "caches_ok E st" "query_ok q" "cached_list (query_key q) (\<lambda>db. query_rows (sdb E) db q) st = (st', r)"
  shows "caches_ok E st' \<and> accs st' = accs st"
proof (cases "settingGroupCache st (query_key q)")
  case None
  show ?thesis
  proof (cases "query_rows (sdb E) (table st) q")
    case (Inl e)
    with None assms show ?thesis by (simp add: cached_list_def)
  next
    case (Inr rows)
    with None assms(3) have st': "st' = st\<lparr>settingGroupCache := (settingGroupCache st)(query_key q \<mapsto> rows)\<rparr>"
      by (simp add: cached_list_def)
    have "lists_ok E st'" unfolding lists_ok_def
    proof (intro allI impI)
      fix k items
      assume "settingGroupCache st' k = Some items"
      then show "\<exists>q rows. query_ok q \<and> query_key q = k \<and> query_rows (sdb E) (table st') q = Inr rows \<and> map masked items = map masked rows"
        using assms(1,2) Inr by (cases "k = query_key q") (auto simp: st' caches_ok_def lists_ok_def)
    qed
    with assms(1) show ?thesis by (simp add: st' caches_ok_def rows_ok_def)
  qed
next
  case (Some items)
  with assms show ?thesis by (simp add: cached_list_def)
qed

lemma save_hooked_counts:
  assumes "setting_db_ok E" "save_hooked E items st = (st', noHook, errs)"
  shows "length errs + length noHook \<le> length items
    \<and> (length errs + length noHook = length items \<longrightarrow> same_settings E st st')"
  using assms(2)
proof (induction items arbitrary: st st' noHook errs)
  case (Cons item items)
  obtain st1 h e where hook: "HandleSettingItemHook E item st = (st1, h, e)" by (metis prod_cases3)
  note same = hook_same_settings [OF assms(1) hook]
  show ?case
  proof (cases "h \<and> e = None")
    case True
    obtain st2 e2 where save: "save_row E item st1 = (st2, e2)" by fastforce
    obtain st3 n3 e3 where rest: "save_hooked E items st2 = (st3, n3, e3)" by (metis prod_cases3)
    from Cons.prems hook True save rest
    have "st' = st3" "noHook = n3" "errs = (case e2 of None \<Rightarrow> e3 | Some x \<Rightarrow> x # e3)"
      by (auto split: option.splits)
    moreover have "same_settings E st st2" if "e2 = Some x" for x
      using save_row_failed [OF assms(1)] save that same same_settings_trans by blast
    ultimately show ?thesis using Cons.IH [OF rest]
      by (cases e2) (auto intro: same_settings_trans)
  next
    case False
    obtain st3 n3 e3 where rest: "save_hooked E items st1 = (st3, n3, e3)" by (metis prod_cases3)
    from Cons.prems hook False rest
    have "st' = st3" "length errs + length noHook = Suc (length e3 + length n3)"
      by (auto split: option.splits bool.splits)
    with Cons.IH [OF rest] same show ?thesis by (auto intro: same_settings_trans)
  qed
qed simp

lemma SaveSettingItems_ok:
  assumes "setting_db_ok E" "caches_ok E st" "SaveSettingItems E items st = (st', e)"
  shows "caches_ok E st'"
proof -
  obtain st1 noHook errs where loop: "save_hooked E items st = (st1, noHook, errs)" by (metis prod_cases3)
  note counts = save_hooked_counts [OF assms(1) loop]
  obtain st2 e2 where rows: "save_rows E noHook st1 = (st2, e2)" by fastforce
  show ?thesis
  proof (cases "noHook \<noteq> [] \<and> e2 \<noteq> None")
    case True
    then obtain x where x: "e2 = Some x" by blast
    show ?thesis
    proof (cases "length errs + 1 < length items - length noHook + 1")
      case True
      with assms(3) loop rows x \<open>noHook \<noteq> [] \<and> e2 \<noteq> None\<close> show ?thesis
        by (auto simp: SaveSettingItems_def caches_ok_cleared)
    next
      case False
      then have "length errs + length noHook = length items" using counts by linarith
      with counts have "same_settings E st st1" by blast
      moreover have "same_settings E st1 st2" using save_rows_failed [OF assms(1)] rows x by simp
      moreover have "st' = st2" using assms(3) loop rows x False \<open>noHook \<noteq> [] \<and> e2 \<noteq> None\<close>
        by (auto simp: SaveSettingItems_def)
      ultimately show ?thesis using assms(2) caches_ok_same same_settings_trans by blast
    qed
  next
    case False
    then show ?thesis using assms(3) loop rows counts
      by (auto simp: SaveSettingItems_def caches_ok_cleared split: if_splits)
  qed
qed

lemma cached_list_rows:
  assumes "caches_ok E st" "query_ok q" "cached_list (query_key q) (\<lambda>db. query_rows (sdb E) db q) st = (st', Inr items)"
  shows "settingGroupCache st' (query_key q) = Some items
    \<and> (\<exists>rows. query_rows (sdb E) (table st) q = Inr rows \<and> map masked items = map masked rows)"
proof (cases "settingGroupCache st (query_key q)")
  case None
  with assms show ?thesis by (auto simp: cached_list_def split: sum.splits)
next
  case (Some items')
  with assms have "st' = st" "items' = items" by (simp_all add: cached_list_def)
  moreover from Some assms(1) obtain q' rows where "query_ok q'" "query_key q' = query_key q"
      "query_rows (sdb E) (table st) q' = Inr rows" "map masked items' = map masked rows"
    unfolding caches_ok_def lists_ok_def by blast
  ultimately show ?thesis using Some assms(2) query_of_key [of q' q "sdb E" "table st"] by auto
qed

lemma SaveSettingItem_ok:
  assumes "setting_db_ok E" "caches_ok E st" "SaveSettingItem E item st = (st', e)"
  shows "caches_ok E st'"
proof -
  obtain st1 h e1 where hook: "HandleSettingItemHook E item st = (st1, h, e1)" by (metis prod_cases3)
  obtain st2 e2 where save: "save_row E item st1 = (st2, e2)" by fastforce
  have "caches_ok E st1" using hook_same_settings [OF assms(1) hook] assms(2) caches_ok_same by blast
  moreover have "caches_ok E st2" if "e2 = Some x" for x
    using save_row_failed [OF assms(1)] save that calculation caches_ok_same by blast
  ultimately show ?thesis using assms(3) hook save
    by (auto simp: SaveSettingItem_def caches_ok_cleared split: option.splits)
qed

lemma DeleteSettingItemByKey_ok:
  assumes "setting_db_ok E" "caches_ok E st" "DeleteSettingItemByKey E key st = (st', e)"
  shows "caches_ok E st'"
proof -
  obtain st1 r where get: "GetSettingItemByKey E st key = (st1, r)" by fastforce
  then have "caches_ok E st1" using GetSettingItemByKey_ok [OF assms(1,2)] by blast
  with get assms(3) show ?thesis
    by (auto simp: DeleteSettingItemByKey_def Let_def caches_ok_cleared split: sum.splits if_splits prod.splits)
qed

lemma store_default_role_ok:
  assumes "setting_db_ok E" "caches_ok E st" "store_default_role E i st = (st', e)"
  shows "caches_ok E st'"
proof -
  let ?st = "st\<lparr>accs := (accs st)\<lparr>roleCache := (\<lambda>_. None)\<rparr>\<rparr>"
  obtain st1 r where get: "GetSettingItemByKey E ?st ''default_role'' = (st1, r)" by fastforce
  have "caches_ok E ?st" using assms(2) by (rule caches_ok_same) (simp add: same_settings_def)
  note ok = GetSettingItemByKey_ok [OF assms(1) this get]
  show ?thesis
  proof (cases r)
    case (Inr item)
    with ok have "ItemKey item = ''default_role''" by blast
    moreover have "caches_ok E st1" using ok by blast
    ultimately have "caches_ok E (st1\<lparr>settingCache := (settingCache st1)(ItemKey item \<mapsto> item\<lparr>ItemValue := v\<rparr>)\<rparr>)" for v
      by (simp add: caches_ok_def rows_ok_def lists_ok_def)
    with Inr get assms(3) show ?thesis
      by (auto simp: store_default_role_def Let_def intro: SaveSettingItem_ok [OF assms(1)])
  qed (use ok get assms(3) in \<open>auto simp: store_default_role_def Let_def\<close>)
qed

lemma name_of_role_same:
  assumes "setting_db_ok E" "name_of_role E v st = (st', w)"
  shows "same_settings E st st'"
  using assms(2) roles_same_settings(1) [OF assms(1)]
  by (auto simp: name_of_role_def split: option.splits prod.splits sum.splits)

lemma name_default_role_same:
  assumes "setting_db_ok E" "name_default_role E items st = (st', items')"
  shows "same_settings E st st' \<and> map masked items' = map masked items"
  using assms(2)
proof (induction items arbitrary: items')
  case (Cons item items)
  then show ?case using name_of_role_same [OF assms(1)]
    by (auto simp: masked_def split: if_splits prod.splits)
qed simp

lemma number_default_role_same:
  assumes "setting_db_ok E" "number_default_role E items st = (st', r)"
  shows "same_settings E st st'"
  using assms(2)
proof (induction items arbitrary: st st' r)
  case (Cons item items)
  define f where "f = in_roles (\<lambda>a. GetRoleByName (sacc E) a (ItemValue item)) st"
  obtain st1 x where f: "f = (st1, x)" by fastforce
  then have same: "same_settings E st st1" using roles_same_settings(2) [OF assms(1)] by (simp add: f_def)
  obtain st2 y where rest: "number_default_role E items st = (st2, y)" by fastforce
  obtain st3 z where rest': "number_default_role E items st1 = (st3, z)" by fastforce
  show ?case using Cons.prems same Cons.IH [OF rest] Cons.IH [OF rest'] f rest rest' same_settings_trans
    by (cases x) (auto simp: f_def [symmetric] split: if_splits)
qed simp

lemma setting_str_ok:
  assumes "setting_db_ok E" "caches_ok E st" "setting_str E k st = (st', v)"
  shows "caches_ok E st'" "accs st' = accs st" "archiveKey st' = archiveKey st"
    and "k \<noteq> ''default_role'' \<Longrightarrow> v = (case sByKey (sdb E) (table st) k of Inl e \<Rightarrow> [] | Inr item \<Rightarrow> ItemValue item)"
proof -
  obtain st1 r where get: "GetSettingItemByKey E st k = (st1, r)" by fastforce
  then have st': "st' = st1" "v = (case r of Inl e \<Rightarrow> [] | Inr item \<Rightarrow> ItemValue item)"
    using assms(3) by (auto simp: setting_str_def split: sum.splits)
  note ok = GetSettingItemByKey_ok [OF assms(1,2) get]
  show "caches_ok E st'" "accs st' = accs st" "archiveKey st' = archiveKey st" using ok st'(1) by blast+
  show "v = (case sByKey (sdb E) (table st) k of Inl e \<Rightarrow> [] | Inr item \<Rightarrow> ItemValue item)" if "k \<noteq> ''default_role''"
    using ok st'(2) that by simp
qed

lemma Instance_ok:
  assumes "setting_db_ok E" "caches_ok E st"
  shows "caches_ok E (Instance E st)" "caches_ok E (InstanceArchive E st)"
  using setting_str_ok(1) [OF assms]
  by (auto simp: Instance_def InstanceArchive_def caches_ok_def rows_ok_def lists_ok_def split: prod.splits)

lemma others_ok: "caches_ok E (st\<lparr>others := w\<rparr>) = caches_ok E st"
  by (simp add: caches_ok_def rows_ok_def lists_ok_def)

lemma listed_groups_ok: "listed_groups g gs = Some (Some is) \<Longrightarrow> query_ok (InGroups is)"
proof -
  have "list_all int64_range is" if "parse_groups ss = Some is" for ss "is"
    using that by (induction ss arbitrary: "is") (auto split: option.splits dest: ParseInt_range)
  moreover have "is \<noteq> []" if "parse_groups ss = Some is" "ss \<noteq> []" for ss "is"
    using that by (cases ss) (auto split: option.splits)
  ultimately show "listed_groups g gs = Some (Some is) \<Longrightarrow> query_ok (InGroups is)"
    by (auto simp: listed_groups_def split: if_splits)
qed

text \<open>The query behind a listing, and a listing as a use of the cache.\<close>

definition listing :: "int list option \<Rightarrow> query" where
  "listing groups = (case groups of None \<Rightarrow> AllItems | Some gs \<Rightarrow> InGroups gs)"

lemma ListSettings_cases:
  assumes "ListSettings E g gs st = (st', code, items)" "listed_groups g gs = Some groups"
  obtains e where "cached_list (query_key (listing groups)) (\<lambda>db. query_rows (sdb E) db (listing groups)) st = (st', Inl e)" "code = 400"
  | st1 st2 rows where "cached_list (query_key (listing groups)) (\<lambda>db. query_rows (sdb E) db (listing groups)) st = (st1, Inr rows)"
      "name_default_role E rows st1 = (st2, items)" "st' = rewrite_list (query_key (listing groups)) items st2" "code = 200"
proof -
  obtain st1 r where c: "cached_list (query_key (listing groups)) (\<lambda>db. query_rows (sdb E) db (listing groups)) st = (st1, r)"
    by fastforce
  have q: "query_key (listing groups) = (case groups of None \<Rightarrow> ''ALL_SETTING_ITEMS'' | Some gs \<Rightarrow> groups_key gs)"
    by (simp add: listing_def split: option.splits)
  have "(case groups of None \<Rightarrow> GetSettingItems E st | Some gs \<Rightarrow> GetSettingItemsInGroups E gs st) = (st1, r)"
    using c by (auto simp: listing_def GetSettingItems_def GetSettingItemsInGroups_def split: option.splits)
  with assms show ?thesis using that c
    by (cases r) (auto simp: ListSettings_def Let_def q split: prod.splits)
qed

lemma ListSettings_ok:
  assumes "setting_db_ok E" "caches_ok E st" "ListSettings E g gs st = (st', code, items)"
  shows "caches_ok E st' \<and> (code = 200 \<longrightarrow> (\<exists>groups rows. listed_groups g gs = Some groups
    \<and> query_rows (sdb E) (table st) (listing groups) = Inr rows \<and> map masked items = map masked rows))"
proof (cases "listed_groups g gs")
  case None
  with assms(2,3) show ?thesis by (simp add: ListSettings_def)
next
  case (Some groups)
  have q: "query_ok (listing groups)" using listed_groups_ok Some by (auto simp: listing_def split: option.splits)
  from assms(3) Some show ?thesis
  proof (cases rule: ListSettings_cases)
    case (1 e)
    with cached_list_ok [OF assms(2) q] show ?thesis by simp
  next
    case (2 st1 st2 rows)
    note ok = cached_list_ok [OF assms(2) q 2(1)] and read = cached_list_rows [OF assms(2) q 2(1)]
      and named = name_default_role_same [OF assms(1) 2(2)]
    have ok2: "caches_ok E st2" using ok named caches_ok_same by blast
    have "settingGroupCache st2 (query_key (listing groups)) = Some rows" using read named by (simp add: same_settings_def)
    with ok2 named have "caches_ok E (rewrite_list (query_key (listing groups)) items st2)"
      by (auto simp: rewrite_list_def caches_ok_def rows_ok_def lists_ok_def split: if_splits)
    with 2 Some read named show ?thesis by auto
  qed
qed

section \<open>Histories\<close>

datatype setting_op =
    ReadSetting string string
  | ListOp string string
  | PublicOp
  | SaveOp "SettingItem list option"
  | FrpOp "SettingItem list option"
  | DeleteOp string
  | ResetTokenOp string
  | SetTokenOp "string option"
  | DefaultRoleOp nat
  | VerifyOp string string
  | VerifyArchiveOp string string
  | Expire string
  | ExpireList string

fun setting_run :: "('b, 'w) setting_env \<Rightarrow> mac \<Rightarrow> int \<Rightarrow> setting_op \<Rightarrow> ('b, 'w) config \<Rightarrow> ('b, 'w) config" where
  "setting_run E mac now (ReadSetting key keys) st = fst (GetSetting E key keys st)"
| "setting_run E mac now (ListOp g gs) st = fst (ListSettings E g gs st)"
| "setting_run E mac now PublicOp st = fst (PublicSettings E st)"
| "setting_run E mac now (SaveOp req) st = fst (SaveSettings E req st)"
| "setting_run E mac now (FrpOp req) st = fst (SetFRP E req st)"
| "setting_run E mac now (DeleteOp key) st = fst (DeleteSetting E key st)"
| "setting_run E mac now (ResetTokenOp v) st = fst (ResetToken E v st)"
| "setting_run E mac now (SetTokenOp req) st = fst (SetToken E req st)"
| "setting_run E mac now (DefaultRoleOp i) st = fst (store_default_role E i st)"
| "setting_run E mac now (VerifyOp d s) st = fst (Verify E mac now d s st)"
| "setting_run E mac now (VerifyArchiveOp d s) st = fst (VerifyArchive_now E mac now d s st)"
| "setting_run E mac now (Expire key) st = st\<lparr>settingCache := (settingCache st)(key := None)\<rparr>"
| "setting_run E mac now (ExpireList key) st = st\<lparr>settingGroupCache := (settingGroupCache st)(key := None)\<rparr>"

lemma GetSetting_ok:
  assumes "setting_db_ok E" "caches_ok E st"
  shows "caches_ok E (fst (GetSetting E key keys st))"
proof (cases "key = []")
  case True
  obtain st1 r where get: "GetSettingItemInKeys E st (Split CHR '','' keys) = (st1, r)" by fastforce
  note ok = GetSettingItemInKeys_ok [OF assms get]
  show ?thesis
  proof (cases r)
    case (Inr items)
    obtain st2 items' where "name_default_role E items st1 = (st2, items')" by fastforce
    with name_default_role_same [OF assms(1) this] ok True get Inr show ?thesis
      by (auto simp: GetSetting_def intro: caches_ok_same)
  qed (use ok True get in \<open>simp add: GetSetting_def\<close>)
next
  case False
  obtain st1 r where get: "GetSettingItemByKey E st key = (st1, r)" by fastforce
  then have ok: "caches_ok E st1" using GetSettingItemByKey_ok [OF assms] by blast
  show ?thesis
  proof (cases r)
    case (Inr item)
    obtain st2 v where "name_of_role E (ItemValue item) st1 = (st2, v)" by fastforce
    with name_of_role_same [OF assms(1) this] ok False get Inr show ?thesis
      by (auto simp: GetSetting_def Let_def intro: caches_ok_same)
  qed (use ok False get in \<open>simp add: GetSetting_def\<close>)
qed

lemma SaveSettings_ok:
  assumes "setting_db_ok E" "caches_ok E st"
  shows "caches_ok E (fst (SaveSettings E req st))" "caches_ok E (fst (SetFRP E req st))"
proof -
  have save: "caches_ok E st''" if "SaveSettingItems E items st' = (st'', e)" "caches_ok E st'" for st' st'' items e
    using SaveSettingItems_ok [OF assms(1)] that by blast
  then show "caches_ok E (fst (SetFRP E req st))"
    using assms(2) by (auto simp: SetFRP_def others_ok split: option.splits prod.splits)
  have "caches_ok E st'" if "number_default_role E items st = (st', r)" for items st' r
    using number_default_role_same [OF assms(1) that] assms(2) caches_ok_same by blast
  with save assms(2) show "caches_ok E (fst (SaveSettings E req st))"
    by (auto simp: SaveSettings_def others_ok split: option.splits prod.splits)
qed

lemma token_ok:
  assumes "setting_db_ok E" "caches_ok E st"
  shows "caches_ok E (fst (ResetToken E v st))" "caches_ok E (fst (SetToken E req st))"
proof -
  have "caches_ok E st'" if "SaveSettingItem E item st = (st', e)" for item st' e
    using SaveSettingItem_ok [OF assms that] .
  then show "caches_ok E (fst (ResetToken E v st))" "caches_ok E (fst (SetToken E req st))"
    using assms(2) by (auto simp: ResetToken_def SetToken_def intro: Instance_ok [OF assms(1)] split: option.splits prod.splits)
qed

lemma setting_run_ok:
  assumes "setting_db_ok E" "caches_ok E st"
  shows "caches_ok E (setting_run E mac now x st)"
proof (cases x)
  case (ListOp g gs)
  then show ?thesis using ListSettings_ok [OF assms, of g gs] by (cases "ListSettings E g gs st") auto
next
  case PublicOp
  have "GetPublicSettingItems E = cached_list (query_key PublicItems) (\<lambda>db. query_rows (sdb E) db PublicItems)"
    by (simp add: GetPublicSettingItems_def)
  then show ?thesis using PublicOp cached_list_ok [OF assms(2), of PublicItems]
    by (auto simp: PublicSettings_def GetPublicSettingsMap_def split: prod.splits)
next
  case (DeleteOp key)
  then show ?thesis using DeleteSettingItemByKey_ok [OF assms, of key]
    by (auto simp: DeleteSetting_def split: prod.splits option.splits)
next
  case (DefaultRoleOp i)
  then show ?thesis using store_default_role_ok [OF assms, of i] by (cases "store_default_role E i st") auto
next
  case (VerifyOp d s)
  then show ?thesis using assms Instance_ok [OF assms] by (simp add: Verify_def Let_def)
next
  case (VerifyArchiveOp d s)
  then show ?thesis using assms Instance_ok [OF assms] by (simp add: VerifyArchive_now_def Let_def)
next
  case (Expire key)
  then show ?thesis using assms(2) by (simp add: caches_ok_def rows_ok_def lists_ok_def)
next
  case (ExpireList key)
  then show ?thesis using assms(2) by (simp add: caches_ok_def rows_ok_def lists_ok_def)
qed (use assms in \<open>simp_all add: GetSetting_ok SaveSettings_ok token_ok\<close>)

lemma history_ok:
  assumes "setting_db_ok E" "caches_ok E st"
  shows "caches_ok E (fold (setting_run E mac now) ops st)"
  using assms(2) by (induction ops arbitrary: st) (simp_all add: setting_run_ok [OF assms(1)])

text \<open>
  C37: The settings are read as they are stored.  After any history of requests on settings, checks of links, changes
  of the default role and expiries, with failures of the database and of hooks anywhere in it, a read by key gives
  the row of the table for every key but \<^verbatim>\<open>default_role\<close>, and a listing shows the rows of the table that were asked for,
  in which only the value and the options of \<^verbatim>\<open>default_role\<close> may differ.
\<close>

theorem settings_read_current:
  assumes "setting_db_ok E" "settingCache st = (\<lambda>_. None)" "settingGroupCache st = (\<lambda>_. None)"
    and "fold (setting_run E mac now) ops st = st'"
  shows "(\<forall>k. k \<noteq> ''default_role'' \<longrightarrow> snd (GetSettingItemByKey E st' k) = sByKey (sdb E) (table st') k)
    \<and> (\<forall>g gs st'' items. ListSettings E g gs st' = (st'', 200, items) \<longrightarrow> (\<exists>groups rows. listed_groups g gs = Some groups
          \<and> query_rows (sdb E) (table st') (listing groups) = Inr rows \<and> map masked items = map masked rows))"
proof -
  have "caches_ok E st" using assms(2,3) by (simp add: caches_ok_def rows_ok_def lists_ok_def)
  then have ok: "caches_ok E st'" using history_ok [OF assms(1)] assms(4) by blast
  have "snd (GetSettingItemByKey E st' k) = sByKey (sdb E) (table st') k" if "k \<noteq> ''default_role''" for k
    using GetSettingItemByKey_ok [OF assms(1) ok] that by (cases "GetSettingItemByKey E st' k") auto
  moreover have "\<exists>groups rows. listed_groups g gs = Some groups
      \<and> query_rows (sdb E) (table st') (listing groups) = Inr rows \<and> map masked items = map masked rows"
    if "ListSettings E g gs st' = (st'', 200, items)" for g gs st'' items
    using ListSettings_ok [OF assms(1) ok that] by simp
  ultimately show ?thesis by blast
qed

section \<open>A new token\<close>

lemma SaveSettingItem_stores:
  assumes "setting_db_ok E" "SaveSettingItem E item st = (st', None)"
  shows "sByKey (sdb E) (table st') = (sByKey (sdb E) (table st))(ItemKey item := Inr (as_stored item))"
    and "settingCache st' = (\<lambda>_. None)" "settingGroupCache st' = (\<lambda>_. None)" "archiveKey st' = archiveKey st"
proof -
  obtain st1 h where hook: "HandleSettingItemHook E item st = (st1, h, None)"
    using assms(2) by (auto simp: SaveSettingItem_def split: prod.splits option.splits)
  obtain st2 where save: "save_row E item st1 = (st2, None)" and st': "st' = SettingCacheUpdate E st2"
    using assms(2) hook by (auto simp: SaveSettingItem_def split: prod.splits option.splits)
  note same = hook_same_settings [OF assms(1) hook]
  obtain db where db: "sSave (sdb E) (table st1) item = (db, None)" "st2 = set_table db st1"
    using save by (auto simp: save_row_def split: prod.splits)
  show "sByKey (sdb E) (table st') = (sByKey (sdb E) (table st))(ItemKey item := Inr (as_stored item))"
    using setting_db_laws(3) [OF assms(1) db(1)] same by (simp add: st' db(2) SettingCacheUpdate_def set_table_def same_settings_def view_def)
  show "settingCache st' = (\<lambda>_. None)" "settingGroupCache st' = (\<lambda>_. None)" "archiveKey st' = archiveKey st"
    using same by (simp_all add: st' db(2) SettingCacheUpdate_def set_table_def same_settings_def)
qed

text \<open>
  C39: A new token is the key of the signer at once, and archive links keep the old one: when \<^verbatim>\<open>ResetToken\<close> has
  succeeded, links are checked against the new token, while an archive link signed with the key in use before is still
  accepted.
\<close>

theorem reset_token_spares_archive_links:
  assumes "setting_db_ok E" "archiveKey st = Some key" "ResetToken E v st = (st', 200)"
  shows "snd (Verify E mac now data sig st') = HMAC_Verify mac v (unix now) data sig
    \<and> snd (VerifyArchive_now E mac now data (HMAC_Sign mac key data 0) st') = None"
proof -
  obtain st1 where save: "SaveSettingItem E (token_item v) st = (st1, None)" and st': "st' = Instance E st1"
    using assms(3) by (auto simp: ResetToken_def split: prod.splits option.splits)
  note saved = SaveSettingItem_stores [OF assms(1) save]
  have ok: "caches_ok E st1" using saved(2,3) by (simp add: caches_ok_def rows_ok_def lists_ok_def)
  obtain st2 w where str: "setting_str E ''token'' st1 = (st2, w)" by fastforce
  have "w = v" using setting_str_ok(4) [OF assms(1) ok str] saved(1) by (simp add: token_item_def as_stored_def)
  then have "signKey st' = Some v" "archiveKey st' = Some key"
    using str setting_str_ok(3) [OF assms(1) ok str] saved(4) assms(2) by (simp_all add: st' Instance_def)
  moreover have "HMAC_Verify mac key (unix now) data (HMAC_Sign mac key data 0) = None"
    unfolding Verify_iff by (rule exI [of _ 0]) (simp add: int64_range_def)
  ultimately show ?thesis by (simp add: Verify_def VerifyArchive_now_def Let_def)
qed

section \<open>An upgrade\<close>

lemma GetSettingItemByKey_accs: "accs (fst (GetSettingItemByKey E st k)) = accs st"
  by (simp add: GetSettingItemByKey_def split: option.splits sum.splits)

lemma mark_deprecated_rows:
  assumes "setting_db_ok E" "mark_deprecated E shipped vs st = Some (st', m)" "distinct (map ItemKey vs)"
    and "\<forall>v \<in> set vs. sByKey (sdb E) (table st) (ItemKey v) = Inr v"
  shows "(\<forall>k. isActive shipped k \<or> k \<notin> ItemKey ` set vs \<longrightarrow> sByKey (sdb E) (table st') k = sByKey (sdb E) (table st) k)
    \<and> (\<forall>v \<in> set vs. \<not> isActive shipped (ItemKey v) \<longrightarrow>
         (\<exists>r. sByKey (sdb E) (table st') (ItemKey v) = Inr r \<and> ItemFlag r = DEPRECATED \<and> ItemValue r = ItemValue v))
    \<and> (\<forall>v \<in> set vs. \<exists>r. m (ItemKey v) = Some r \<and> ItemValue r = ItemValue v)
    \<and> (\<forall>k. k \<notin> ItemKey ` set vs \<longrightarrow> m k = None)"
  using assms(2-4)
proof (induction vs arbitrary: st m)
  case (Cons v vs)
  define v' where "v' = marked shipped v"
  have key: "ItemKey v' = ItemKey v" "ItemValue v' = ItemValue v" by (simp_all add: v'_def marked_def)
  obtain st1 e where step: "(if outdated shipped v then SaveSettingItem E v' st else (st, None)) = (st1, e)" by fastforce
  from Cons.prems(1) step obtain m' where "e = None" and rest: "mark_deprecated E shipped vs st1 = Some (st', m')"
      and m: "m = (\<lambda>k. if k = ItemKey v \<and> m' k = None then Some v' else m' k)"
    unfolding mark_deprecated.simps v'_def [symmetric] step by (auto split: option.splits)
  then have rows: "sByKey (sdb E) (table st1) = (if outdated shipped v then (sByKey (sdb E) (table st))(ItemKey v := Inr (as_stored v')) else sByKey (sdb E) (table st))"
    using step SaveSettingItem_stores(1) [OF assms(1), of v' st st1] key(1) by (cases "outdated shipped v") simp_all
  have new: "ItemKey v \<notin> ItemKey ` set vs" using Cons.prems(2) by auto
  have "sByKey (sdb E) (table st1) (ItemKey u) = Inr u" if "u \<in> set vs" for u
  proof -
    have "ItemKey u \<noteq> ItemKey v" using that new by (metis imageI)
    with that Cons.prems(3) show ?thesis by (simp add: rows)
  qed
  then have all: "\<forall>u \<in> set vs. sByKey (sdb E) (table st1) (ItemKey u) = Inr u" by blast
  have "distinct (map ItemKey vs)" using Cons.prems(2) by simp
  note IH0 = Cons.IH [OF rest this all]
  have IH: "\<And>k. isActive shipped k \<or> k \<notin> ItemKey ` set vs \<Longrightarrow> sByKey (sdb E) (table st') k = sByKey (sdb E) (table st1) k"
      "\<And>u. \<lbrakk>u \<in> set vs; \<not> isActive shipped (ItemKey u)\<rbrakk> \<Longrightarrow>
         \<exists>r. sByKey (sdb E) (table st') (ItemKey u) = Inr r \<and> ItemFlag r = DEPRECATED \<and> ItemValue r = ItemValue u"
      "\<And>u. u \<in> set vs \<Longrightarrow> \<exists>r. m' (ItemKey u) = Some r \<and> ItemValue r = ItemValue u"
      "\<And>k. k \<notin> ItemKey ` set vs \<Longrightarrow> m' k = None"
    using IH0 by blast+
  show ?case
  proof (intro conjI allI ballI impI)
    fix k
    assume "isActive shipped k \<or> k \<notin> ItemKey ` set (v # vs)"
    then show "sByKey (sdb E) (table st') k = sByKey (sdb E) (table st) k"
      using IH(1) [of k] rows by (auto simp: outdated_def)
  next
    fix u
    assume "u \<in> set (v # vs)" "\<not> isActive shipped (ItemKey u)"
    moreover have "sByKey (sdb E) (table st') (ItemKey v) = sByKey (sdb E) (table st1) (ItemKey v)" using IH(1) new by blast
    ultimately show "\<exists>r. sByKey (sdb E) (table st') (ItemKey u) = Inr r \<and> ItemFlag r = DEPRECATED \<and> ItemValue r = ItemValue u"
      using IH(2) [of u] rows Cons.prems(3) by (auto simp: outdated_def marked_def v'_def as_stored_def)
  next
    fix u
    assume "u \<in> set (v # vs)"
    then show "\<exists>r. m (ItemKey u) = Some r \<and> ItemValue r = ItemValue u"
      using IH(3) [of u] IH(4) [OF new] key new by (auto simp: m)
  next
    fix k
    assume "k \<notin> ItemKey ` set (v # vs)"
    then show "m k = None" using IH(4) [of k] key by (auto simp: m)
  qed
qed simp

definition old_default :: "SettingItem \<Rightarrow> string" where
  "old_default item = (if PreDefault item = [] then ItemValue item else PreDefault item)"

definition chosen :: "(string \<Rightarrow> string list) \<Rightarrow> SettingItem \<Rightarrow> string \<Rightarrow> bool" where
  "chosen legacy item v \<longleftrightarrow> v \<noteq> old_default item \<and> v \<notin> set (legacy (ItemKey item))"

lemma keep_value_chosen:
  "ItemKey (keep_value legacy row0 (numbered_item i item)) = ItemKey item"
  "\<lbrakk>ItemKey item \<noteq> ''version''; chosen legacy item (ItemValue r)\<rbrakk>
    \<Longrightarrow> ItemValue (keep_value legacy (Some r) (numbered_item i item)) = ItemValue r"
  by (auto simp: keep_value_def numbered_item_def chosen_def old_default_def isShippedDefault_def split: option.splits if_splits)

lemma settle_item_keeps:
  assumes "setting_db_ok E" "settle_item E legacy m i item st = Some (st', item', save)"
  shows "sByKey (sdb E) (table st') = sByKey (sdb E) (table st)" "ItemKey item' = ItemKey item"
    and "\<lbrakk>m (ItemKey item) = Some r; ItemKey item \<noteq> ''version''; chosen legacy item (ItemValue r)\<rbrakk> \<Longrightarrow> ItemValue item' = ItemValue r"
proof -
  obtain st1 q where q: "stored_row E m (ItemKey item) st = (st1, q)" by fastforce
  from assms(2) q obtain row0 h e where row0: "q = Inr row0" and item': "item' = keep_value legacy row0 (numbered_item i item)"
      and hook: "HandleSettingItemHook E item' st1 = (st', h, e)"
    by (cases q) (auto simp: settle_item_def Let_def split: prod.splits option.splits)
  have "table st1 = table st"
    using q GetSettingItemByKey_accs [of E st "ItemKey item"]
    by (auto simp: stored_row_def split: option.splits prod.splits sum.splits)
  then show "sByKey (sdb E) (table st') = sByKey (sdb E) (table st)"
    using hook_same_settings [OF assms(1) hook] by (simp add: same_settings_def view_def)
  show "ItemKey item' = ItemKey item" by (simp add: item' keep_value_chosen)
  show "ItemValue item' = ItemValue r" if "m (ItemKey item) = Some r" "ItemKey item \<noteq> ''version''" "chosen legacy item (ItemValue r)"
  proof -
    have "row0 = Some r" using q row0 that(1) by (auto simp: stored_row_def)
    with that(2,3) show ?thesis by (simp add: item' keep_value_chosen)
  qed
qed

lemma settle_items_keep:
  assumes "setting_db_ok E" "settle_items E legacy m i items st = Some (st', items', save)"
  shows "sByKey (sdb E) (table st') = sByKey (sdb E) (table st) \<and> map ItemKey items' = map ItemKey items
    \<and> (\<forall>item \<in> set items. \<exists>item' \<in> set items'. ItemKey item' = ItemKey item
        \<and> (\<forall>r. m (ItemKey item) = Some r \<and> ItemKey item \<noteq> ''version'' \<and> chosen legacy item (ItemValue r) \<longrightarrow> ItemValue item' = ItemValue r))"
  using assms(2)
proof (induction items arbitrary: i st items' save)
  case (Cons item items)
  then obtain st1 item1 s1 items2 s2 where one: "settle_item E legacy m i item st = Some (st1, item1, s1)"
      and rest: "settle_items E legacy m (Suc i) items st1 = Some (st', items2, s2)" and eq: "items' = item1 # items2"
    by (auto split: option.splits prod.splits)
  show ?case using Cons.IH [OF rest] settle_item_keeps [OF assms(1) one] by (auto simp: eq)
qed simp

lemma find_absent: "k \<notin> ItemKey ` set items \<Longrightarrow> List.find (\<lambda>item. ItemKey item = k) items = None"
  by (induction items) auto

lemma find_present:
  "\<lbrakk>distinct (map ItemKey items); item \<in> set items; ItemKey item = k\<rbrakk> \<Longrightarrow> List.find (\<lambda>item. ItemKey item = k) items = Some item"
  by (induction items) auto

lemma fold_rows:
  assumes "distinct (map ItemKey items)"
  shows "fold (\<lambda>item f. f(ItemKey item := Inr (as_stored item))) items f k =
    (case List.find (\<lambda>item. ItemKey item = k) items of None \<Rightarrow> f k | Some item \<Rightarrow> Inr (as_stored item))"
  using assms
proof (induction items arbitrary: f)
  case (Cons item items)
  have "List.find (\<lambda>x. ItemKey x = ItemKey item) items = None" using Cons.prems by (simp add: find_absent)
  with Cons show ?case by auto
qed simp

text \<open>What the start leaves of a row: the marked one, or the settled one in its place.\<close>

lemma initSettings_rows:
  fixes E :: "('b, 'w) setting_env"
  assumes "setting_db_ok E" "initSettings E legacy shipped st = Some st'"
    and "settingGroupCache st = (\<lambda>_. None)" "distinct (map ItemKey shipped)"
    and "sByKey (sdb E) (table st) k = Inr row"
  obtains st1 :: "('b, 'w) config" and m :: "string \<Rightarrow> SettingItem option" and items save where
    "isActive shipped k \<longrightarrow> sByKey (sdb E) (table st1) k = Inr row"
    "\<not> isActive shipped k \<longrightarrow> (\<exists>r. sByKey (sdb E) (table st1) k = Inr r \<and> ItemFlag r = DEPRECATED \<and> ItemValue r = ItemValue row)"
    "\<exists>r. m k = Some r \<and> ItemValue r = ItemValue row"
    "map ItemKey items = map ItemKey shipped"
    "\<forall>item \<in> set shipped. \<exists>item' \<in> set items. ItemKey item' = ItemKey item
      \<and> (\<forall>r. m (ItemKey item) = Some r \<and> ItemKey item \<noteq> ''version'' \<and> chosen legacy item (ItemValue r) \<longrightarrow> ItemValue item' = ItemValue r)"
    "sByKey (sdb E) (table st') k = (if save then case List.find (\<lambda>item. ItemKey item = k) items of
       None \<Rightarrow> sByKey (sdb E) (table st1) k | Some item \<Rightarrow> Inr (as_stored item) else sByKey (sdb E) (table st1) k)"
proof -
  from assms(2,3) obtain rows st1 m st2 items save where all: "sAll (sdb E) (table st) = Inr rows"
      and mark: "mark_deprecated E shipped rows (st\<lparr>settingGroupCache := [''ALL_SETTING_ITEMS'' \<mapsto> rows]\<rparr>) = Some (st1, m)"
      and settle: "settle_items E legacy m 0 shipped st1 = Some (st2, items, save)"
      and fin: "(if \<not> save then Some st2 else case save_rows E items st2 of (st, Some e) \<Rightarrow> None | (st, None) \<Rightarrow> Some (SettingCacheUpdate E st)) = Some st'"
    by (auto simp: initSettings_def GetSettingItems_def cached_list_def split: option.splits sum.splits prod.splits)
  note laws = setting_db_laws(6,7) [OF assms(1) all]
  have row: "row \<in> set rows" "ItemKey row = k" using laws(2) assms(5) by auto
  note marked = mark_deprecated_rows [OF assms(1) mark laws(1)]
  have "\<forall>v \<in> set rows. sByKey (sdb E) (table st) (ItemKey v) = Inr v" using laws(2) by blast
  then have m: "isActive shipped k \<longrightarrow> sByKey (sdb E) (table st1) k = Inr row"
      "\<not> isActive shipped k \<longrightarrow> (\<exists>r. sByKey (sdb E) (table st1) k = Inr r \<and> ItemFlag r = DEPRECATED \<and> ItemValue r = ItemValue row)"
      "\<exists>r. m k = Some r \<and> ItemValue r = ItemValue row"
    using marked row assms(5) by auto
  note settled = settle_items_keep [OF assms(1) settle]
  have st': "sByKey (sdb E) (table st') = (if save then fold (\<lambda>item f. f(ItemKey item := Inr (as_stored item))) items (sByKey (sdb E) (table st1))
      else sByKey (sdb E) (table st1))"
    using fin settled setting_db_laws(5) [OF assms(1)]
    by (auto simp: save_rows_def set_table_def SettingCacheUpdate_def split: if_splits prod.splits option.splits)
  have keys: "distinct (map ItemKey items)" using settled assms(4) by simp
  show ?thesis
  proof (rule that [of st1 m items save])
    show "isActive shipped k \<longrightarrow> sByKey (sdb E) (table st1) k = Inr row" by (rule m(1))
    show "\<not> isActive shipped k \<longrightarrow> (\<exists>r. sByKey (sdb E) (table st1) k = Inr r \<and> ItemFlag r = DEPRECATED \<and> ItemValue r = ItemValue row)" by (rule m(2))
    show "\<exists>r. m k = Some r \<and> ItemValue r = ItemValue row" by (rule m(3))
    show "map ItemKey items = map ItemKey shipped" using settled by blast
    show "\<forall>item \<in> set shipped. \<exists>item' \<in> set items. ItemKey item' = ItemKey item
      \<and> (\<forall>r. m (ItemKey item) = Some r \<and> ItemKey item \<noteq> ''version'' \<and> chosen legacy item (ItemValue r) \<longrightarrow> ItemValue item' = ItemValue r)"
      using settled by blast
    show "sByKey (sdb E) (table st') k = (if save then case List.find (\<lambda>item. ItemKey item = k) items of
       None \<Rightarrow> sByKey (sdb E) (table st1) k | Some item \<Rightarrow> Inr (as_stored item) else sByKey (sdb E) (table st1) k)"
      using st' fold_rows [OF keys, of "sByKey (sdb E) (table st1)" k] by simp
  qed
qed

text \<open>
  C38: An upgrade keeps what the administrator chose.  When the server has started on a table of settings, the value of
  every setting that it still knows is the one that was stored, unless that was a default of this or an earlier version
  (or the setting is \<^verbatim>\<open>version\<close>), and every setting that it no longer knows is marked as deprecated with its value kept.
\<close>

theorem upgrade_keeps_choices:
  fixes E :: "('b, 'w) setting_env"
  assumes "setting_db_ok E" "initSettings E legacy shipped st = Some st'"
    and "settingGroupCache st = (\<lambda>_. None)" "distinct (map ItemKey shipped)"
    and "sByKey (sdb E) (table st) k = Inr row"
  shows "\<exists>row'. sByKey (sdb E) (table st') k = Inr row' \<and>
    (if isActive shipped k
     then \<forall>item \<in> set shipped. ItemKey item = k \<and> k \<noteq> ''version'' \<and> chosen legacy item (ItemValue row) \<longrightarrow> ItemValue row' = ItemValue row
     else ItemFlag row' = DEPRECATED \<and> ItemValue row' = ItemValue row)"
proof -
  obtain st1 :: "('b, 'w) config" and m :: "string \<Rightarrow> SettingItem option" and items save where m:
      "isActive shipped k \<longrightarrow> sByKey (sdb E) (table st1) k = Inr row"
      "\<not> isActive shipped k \<longrightarrow> (\<exists>r. sByKey (sdb E) (table st1) k = Inr r \<and> ItemFlag r = DEPRECATED \<and> ItemValue r = ItemValue row)"
      "\<exists>r. m k = Some r \<and> ItemValue r = ItemValue row"
    and keys: "map ItemKey items = map ItemKey shipped"
    and settled: "\<forall>item \<in> set shipped. \<exists>item' \<in> set items. ItemKey item' = ItemKey item
      \<and> (\<forall>r. m (ItemKey item) = Some r \<and> ItemKey item \<noteq> ''version'' \<and> chosen legacy item (ItemValue r) \<longrightarrow> ItemValue item' = ItemValue r)"
    and st': "sByKey (sdb E) (table st') k = (if save then case List.find (\<lambda>item. ItemKey item = k) items of
       None \<Rightarrow> sByKey (sdb E) (table st1) k | Some item \<Rightarrow> Inr (as_stored item) else sByKey (sdb E) (table st1) k)"
    by (rule initSettings_rows [OF assms])
  show ?thesis
  proof (cases "isActive shipped k")
    case False
    then have "k \<notin> set (map ItemKey shipped)" by (auto simp: isActive_def list_ex_iff)
    then have "List.find (\<lambda>item. ItemKey item = k) items = None" unfolding keys [symmetric] by (simp add: find_absent)
    with st' m(2) False show ?thesis by simp
  next
    case True
    then obtain item where item: "item \<in> set shipped" "ItemKey item = k" by (auto simp: isActive_def list_ex_iff)
    with settled obtain item' where item': "item' \<in> set items" "ItemKey item' = k"
        "\<forall>r. m k = Some r \<and> k \<noteq> ''version'' \<and> chosen legacy item (ItemValue r) \<longrightarrow> ItemValue item' = ItemValue r" by fastforce
    have "List.find (\<lambda>item. ItemKey item = k) items = Some item'" using find_present [of items] item'(1,2) assms(4) by (simp add: keys)
    moreover have "x = item" if "x \<in> set shipped" "ItemKey x = k" for x
      using that item assms(4) by (auto simp: distinct_map dest: inj_onD)
    ultimately show ?thesis using True st' item'(3) m(1,3) by (auto simp: as_stored_def)
  qed
qed

section \<open>A default role that was refused\<close>

lemma SaveSettingItem_refused:
  assumes "setting_db_ok E" "SaveSettingItem E item st = (st', Some e)"
  shows "same_settings E st st'"
proof -
  obtain st1 h e1 where hook: "HandleSettingItemHook E item st = (st1, h, e1)" by (metis prod_cases3)
  obtain st2 e2 where save: "save_row E item st1 = (st2, e2)" by fastforce
  have "same_settings E st st1" using hook_same_settings [OF assms(1) hook] .
  moreover have "same_settings E st1 st2" if "e2 = Some x" for x using save_row_failed [OF assms(1)] save that by blast
  ultimately show ?thesis using assms(2) hook save same_settings_trans
    by (auto simp: SaveSettingItem_def split: option.splits)
qed

text \<open>
  C40: A default role that could not be stored is in effect all the same.  When a role is to become the default one after
  any history, and the setting can be read but not saved, the request fails and the table keeps its settings, but reads
  of \<^verbatim>\<open>default_role\<close> give the refused role: the row was changed in the cache before it was saved.
\<close>

theorem refused_default_role_in_effect:
  assumes "setting_db_ok E" "settingCache st0 = (\<lambda>_. None)" "settingGroupCache st0 = (\<lambda>_. None)"
    and "fold (setting_run E mac now) ops st0 = st"
    and "snd (GetSettingItemByKey E st ''default_role'') = Inr row" "store_default_role E i st = (st', Some e)"
  shows "view (sdb E) (table st') = view (sdb E) (table st)
    \<and> snd (GetSettingItemByKey E st' ''default_role'') = Inr (row\<lparr>ItemValue := FormatInt (wrap64 (int i))\<rparr>)"
proof -
  let ?st = "st\<lparr>accs := (accs st)\<lparr>roleCache := (\<lambda>_. None)\<rparr>\<rparr>"
  let ?item = "row\<lparr>ItemValue := FormatInt (wrap64 (int i))\<rparr>"
  have "caches_ok E st0" using assms(2,3) by (simp add: caches_ok_def rows_ok_def lists_ok_def)
  then have "caches_ok E st" using history_ok [OF assms(1)] assms(4) by blast
  then have ok: "caches_ok E ?st" by (rule caches_ok_same) (simp add: same_settings_def)
  obtain st1 r where get: "GetSettingItemByKey E ?st ''default_role'' = (st1, r)" by fastforce
  have "r = Inr row" using assms(5) get by (auto simp: GetSettingItemByKey_def split: option.splits sum.splits)
  note read = GetSettingItemByKey_ok [OF assms(1) ok get, unfolded this]
  have "SaveSettingItem E ?item (st1\<lparr>settingCache := (settingCache st1)(''default_role'' \<mapsto> ?item)\<rparr>) = (st', Some e)"
    using assms(6) get \<open>r = Inr row\<close> read by (simp add: store_default_role_def Let_def)
  from SaveSettingItem_refused [OF assms(1) this] read show ?thesis
    by (simp add: same_settings_def GetSettingItemByKey_def)
qed

end
