(* ===== verification/SettingsCases.thy ===== *)
theory SettingsCases
  imports SettingsProps
begin

text \<open>
  A table of settings in memory, which satisfies what the theory \<open>SettingsProps\<close> assumes, with a flag for a database
  that refuses to write; the concrete histories on it.
\<close>

section \<open>A table in memory\<close>

record setting_mem =
  memItems :: "SettingItem list"
  refuses :: bool

text \<open>The tables of accounts beside another one.\<close>

definition beside :: "'x account_db \<Rightarrow> ('x \<times> 's) account_db" where
  "beside A = \<lparr>
     uAll = (\<lambda>(a, s). uAll A a), uByName = (\<lambda>(a, s). uByName A a), uById = (\<lambda>(a, s). uById A a),
     uCreate = (\<lambda>(a, s) u. case uCreate A a u of (a, r) \<Rightarrow> ((a, s), r)),
     uSave = (\<lambda>(a, s) u. case uSave A a u of (a, r) \<Rightarrow> ((a, s), r)),
     uDelete = (\<lambda>(a, s) i. case uDelete A a i of (a, r) \<Rightarrow> ((a, s), r)),
     uCountEnabled = (\<lambda>(a, s). uCountEnabled A a),
     rGet = (\<lambda>(a, s). rGet A a), rByName = (\<lambda>(a, s). rByName A a), rDefault = (\<lambda>(a, s). rDefault A a),
     rCreate = (\<lambda>(a, s) r. case rCreate A a r of (a, x) \<Rightarrow> ((a, s), x)),
     rSave = (\<lambda>(a, s) r. case rSave A a r of (a, x) \<Rightarrow> ((a, s), x)),
     rDelete = (\<lambda>(a, s) i. case rDelete A a i of (a, x) \<Rightarrow> ((a, s), x)),
     setDefaultRole = (\<lambda>(a, s) v. case setDefaultRole A a v of (a, x) \<Rightarrow> ((a, s), x))\<rparr>"

definition item_at :: "setting_mem \<Rightarrow> string \<Rightarrow> SettingItem option" where
  "item_at s k = List.find (\<lambda>i. ItemKey i = k) (memItems s)"

definition all_items :: "setting_mem \<Rightarrow> SettingItem list" where
  "all_items s = map (\<lambda>k. the (item_at s k)) (remdups (map ItemKey (memItems s)))"

definition put_item :: "SettingItem \<Rightarrow> setting_mem \<Rightarrow> setting_mem" where
  "put_item i s = s\<lparr>memItems := as_stored i # memItems s\<rparr>"

definition mem_settings :: "(account_mem \<times> setting_mem) setting_db" where
  "mem_settings = \<lparr>
     sAll = (\<lambda>(a, s). Inr (all_items s)),
     sByKey = (\<lambda>(a, s) k. found (item_at s k)),
     sByFlags = (\<lambda>(a, s) fs. Inr (filter (\<lambda>i. ItemFlag i \<in> set fs) (all_items s))),
     sByGroup = (\<lambda>(a, s) g. Inr (filter (\<lambda>i. ItemGroup i = g) (all_items s))),
     sByGroups = (\<lambda>(a, s) gs. Inr (sort_key ItemIndex (filter (\<lambda>i. ItemGroup i \<in> set gs) (all_items s)))),
     sSave = (\<lambda>(a, s) i. if refuses s then ((a, s), Some (ErrExt ''disk full'')) else ((a, put_item i s), None)),
     sSaveAll = (\<lambda>(a, s) is. if refuses s then ((a, s), Some (ErrExt ''disk full'')) else ((a, fold put_item is s), None)),
     sDelete = (\<lambda>(a, s) k. if refuses s then ((a, s), Some (ErrExt ''disk full''))
        else ((a, s\<lparr>memItems := filter (\<lambda>i. ItemKey i \<noteq> k) (memItems s)\<rparr>), None)),
     rPage = (\<lambda>(a, s) page n. Inr (mem_all_roles a))\<rparr>"

definition mem_env :: "(account_mem \<times> setting_mem, unit) setting_env" where
  "mem_env = \<lparr>sdb = mem_settings, sacc = beside mem_accounts, errText = (\<lambda>e. ''error''), compile = (\<lambda>r. None),
     unmarshal = (\<lambda>v m. (m, None)), otherHooks = (\<lambda>k. None), settingChangingCallbacks = [],
     UpdateIndex = id, restartFRP = id\<rparr>"

lemma item_at_key: "item_at s k = Some i \<Longrightarrow> ItemKey i = k"
  by (auto simp: item_at_def find_Some_iff)

lemma item_at_known: "k \<in> ItemKey ` set (memItems s) \<Longrightarrow> \<exists>i. item_at s k = Some i"
  unfolding item_at_def by (metis (mono_tags, lifting) find_None_iff imageE not_None_eq)

lemma all_items_keys: "map ItemKey (all_items s) = remdups (map ItemKey (memItems s))"
proof -
  have "ItemKey (the (item_at s k)) = k" if "k \<in> set (remdups (map ItemKey (memItems s)))" for k
    using item_at_known [of k s] item_at_key that by fastforce
  then show ?thesis unfolding all_items_def map_map comp_def by (intro map_idI) blast
qed

lemma all_items_rows: "r \<in> set (all_items s) \<longleftrightarrow> item_at s (ItemKey r) = Some r"
proof
  assume "r \<in> set (all_items s)"
  then obtain k where "k \<in> ItemKey ` set (memItems s)" "r = the (item_at s k)" by (auto simp: all_items_def)
  with item_at_known [of k s] show "item_at s (ItemKey r) = Some r" using item_at_key by fastforce
next
  assume "item_at s (ItemKey r) = Some r"
  moreover from this have "r \<in> set (memItems s)" by (auto simp: item_at_def find_Some_iff)
  ultimately show "r \<in> set (all_items s)" unfolding all_items_def by force
qed

lemma item_at_put: "item_at (put_item i s) = (item_at s)(ItemKey i \<mapsto> as_stored i)"
  by (auto simp: item_at_def put_item_def as_stored_def)

lemma item_at_puts: "(\<lambda>k. found (item_at (fold put_item is s) k)) =
    fold (\<lambda>i f. f(ItemKey i := Inr (as_stored i))) is (\<lambda>k. found (item_at s k))"
proof (induction "is" arbitrary: s)
  case (Cons i "is")
  have "(\<lambda>k. found (item_at (put_item i s) k)) = (\<lambda>k. found (item_at s k))(ItemKey i := Inr (as_stored i))"
    by (auto simp: item_at_put found_def)
  with Cons [of "put_item i s"] show ?case by (simp only: fold_simps comp_apply)
qed simp

lemma mem_statements:
  "sByKey (sdb mem_env) (a, s) = (\<lambda>k. found (item_at s k))"
  "sAll (sdb mem_env) (a, s) = Inr (all_items s)"
  "sSave (sdb mem_env) (a, s) i = (if refuses s then ((a, s), Some (ErrExt ''disk full'')) else ((a, put_item i s), None))"
  "sSaveAll (sdb mem_env) (a, s) is = (if refuses s then ((a, s), Some (ErrExt ''disk full'')) else ((a, fold put_item is s), None))"
  "view (sdb mem_env) (fst (rSave (sacc mem_env) (a, s) r)) = view (sdb mem_env) (a, s)"
  by (simp_all add: mem_env_def mem_settings_def beside_def view_def split: prod.splits)

lemma item_row: "item_at s k = Some r \<longleftrightarrow> r \<in> set (all_items s) \<and> ItemKey r = k"
  using all_items_rows item_at_key by blast

lemma found_put: "(\<lambda>k. found (item_at (put_item i s) k)) = (\<lambda>k. found (item_at s k))(ItemKey i := Inr (as_stored i))"
  by (auto simp: item_at_put found_def)

lemma mem_env_ok: "setting_db_ok mem_env"
  unfolding setting_db_ok_def Let_def
proof (intro conjI allI impI)
  fix db k item
  assume "sByKey (sdb mem_env) db k = Inr item"
  then show "ItemKey item = k" by (cases db) (auto simp: mem_statements(1) found_Inr item_at_key)
next
  fix db item db' e
  assume "sSave (sdb mem_env) db item = (db', Some e)"
  then show "view (sdb mem_env) db' = view (sdb mem_env) db" by (cases db) (auto simp: mem_statements(3) split: if_splits)
next
  fix db item db'
  assume "sSave (sdb mem_env) db item = (db', None)"
  then obtain a s where "db = (a, s)" "db' = (a, put_item item s)" by (cases db) (auto simp: mem_statements(3) split: if_splits)
  then show "sByKey (sdb mem_env) db' = (sByKey (sdb mem_env) db)(ItemKey item := Inr (as_stored item))"
    by (simp only: mem_statements(1) found_put)
next
  fix db items db' e
  assume "sSaveAll (sdb mem_env) db items = (db', Some e)"
  then show "view (sdb mem_env) db' = view (sdb mem_env) db" by (cases db) (auto simp: mem_statements(4) split: if_splits)
next
  fix db items db'
  assume "sSaveAll (sdb mem_env) db items = (db', None)"
  then obtain a s where "db = (a, s)" "db' = (a, fold put_item items s)" by (cases db) (auto simp: mem_statements(4) split: if_splits)
  then show "sByKey (sdb mem_env) db' = fold (\<lambda>item f. f(ItemKey item := Inr (as_stored item))) items (sByKey (sdb mem_env) db)"
    by (simp only: mem_statements(1) item_at_puts)
next
  fix db rows
  assume "sAll (sdb mem_env) db = Inr rows"
  then obtain a s where s: "db = (a, s)" "rows = all_items s" by (cases db) (auto simp: mem_statements(2))
  then show "distinct (map ItemKey rows)" by (simp add: all_items_keys)
  show "sByKey (sdb mem_env) db k = Inr r \<longleftrightarrow> r \<in> set rows \<and> ItemKey r = k" for k r
    by (simp add: s mem_statements(1) found_Inr item_row)
next
  fix db r
  show "view (sdb mem_env) (fst (rSave (sacc mem_env) db r)) = view (sdb mem_env) db" by (cases db) (simp add: mem_statements(5))
qed

section \<open>Histories\<close>

definition setting_item :: "string \<Rightarrow> string \<Rightarrow> int \<Rightarrow> SettingItem" where
  "setting_item k v g =
     \<lparr>ItemKey = k, ItemValue = v, PreDefault = [], ItemHelp = [], ItemType = ''string'', ItemOptions = [],
      ItemGroup = g, ItemFlag = PUBLIC, ItemIndex = 0\<rparr>"

definition editors_role :: "string \<Rightarrow> Role" where
  "editors_role name = \<lparr>RoleID = 3, RoleName = name, Default = False, PermissionScopes = []\<rparr>"

definition fresh_config :: "SettingItem list \<Rightarrow> bool \<Rightarrow> (account_mem \<times> setting_mem, unit) config" where
  "fresh_config items full =
     \<lparr>accs = \<lparr>acTable = (\<lparr>memUsers = [], memRoles = [editors_role ''editors'']\<rparr>, \<lparr>memItems = items, refuses = full\<rparr>),
        userCache = (\<lambda>_. None), roleCache = (\<lambda>_. None), guestUser = None, adminUser = None\<rparr>,
      settingCache = (\<lambda>_. None), settingGroupCache = (\<lambda>_. None), SlicesMap = (\<lambda>_. None), PrivacyReg = [],
      FilenameCharMap = (\<lambda>_. None), signKey = None, archiveKey = None, others = ()\<rparr>"

lemma fresh_config_empty:
  "settingCache (fresh_config items full) = (\<lambda>_. None)" "settingGroupCache (fresh_config items full) = (\<lambda>_. None)"
  by (simp_all add: fresh_config_def)

definition list_roles :: "(account_mem \<times> setting_mem, unit) config \<Rightarrow> (account_mem \<times> setting_mem, unit) config \<times> SettingItem list" where
  "list_roles st = (case ListSettings mem_env ''4'' [] st of (st, code, items) \<Rightarrow> (st, items))"

text \<open>
  A listing keeps the name of the default role.  It writes the name into the cached row, so that after the role has got
  another name the listing still shows the old one.
\<close>

lemma listing_keeps_old_name:
  "(let st = fresh_config [setting_item ''default_role'' ''3'' 4] False;
        (st1, shown1) = list_roles st;
        (st2, e) = in_roles (\<lambda>a. UpdateRole (sacc mem_env) a (editors_role ''writers'')) st1;
        (st3, shown2) = list_roles st2
    in map ItemValue shown1 = [''editors''] \<and> e = None \<and> map ItemValue shown2 = [''editors''])"
  by code_simp

section \<open>The theorems at concrete inputs\<close>

definition start :: "(account_mem \<times> setting_mem, unit) config" where
  "start = fresh_config [setting_item ''default_role'' ''3'' 4, setting_item ''site_title'' ''mine'' 1] False"

lemma start_empty: "settingCache start = (\<lambda>_. None)" "settingGroupCache start = (\<lambda>_. None)"
  by (simp_all add: start_def fresh_config_empty)

definition first_history :: "setting_op list" where
  "first_history = [ReadSetting ''site_title'' [], SaveOp (Some [setting_item ''site_title'' ''ours'' 1]), ListOp ''1'' []]"

theorem settings_read_current_witness:
  "setting_db_ok mem_env \<and>
   snd (GetSettingItemByKey mem_env (fold (setting_run mem_env (\<lambda>k d. k) 0) first_history start) ''site_title'') = Inr (setting_item ''site_title'' ''ours'' 1)"
proof -
  let ?st = "fold (setting_run mem_env (\<lambda>k d. k) 0) first_history start"
  have "snd (GetSettingItemByKey mem_env ?st ''site_title'') = sByKey (sdb mem_env) (table ?st) ''site_title''"
    using settings_read_current [OF mem_env_ok start_empty refl, of "\<lambda>k d. k" 0 first_history] by simp
  also have "\<dots> = Inr (setting_item ''site_title'' ''ours'' 1)" by code_simp
  finally show ?thesis using mem_env_ok by simp
qed

theorem reset_token_spares_archive_links_witness:
  "snd (ResetToken mem_env ''new'' (start\<lparr>archiveKey := Some ''old-archive''\<rparr>)) = 200 \<and>
   snd (VerifyArchive_now mem_env (\<lambda>k d. k @ d) 0 ''/a'' (HMAC_Sign (\<lambda>k d. k @ d) ''old-archive'' ''/a'' 0)
     (fst (ResetToken mem_env ''new'' (start\<lparr>archiveKey := Some ''old-archive''\<rparr>)))) = None"
proof -
  let ?st = "start\<lparr>archiveKey := Some ''old-archive''\<rparr>"
  have code: "snd (ResetToken mem_env ''new'' ?st) = 200" by code_simp
  then have "ResetToken mem_env ''new'' ?st = (fst (ResetToken mem_env ''new'' ?st), 200)" by (metis prod.collapse)
  from reset_token_spares_archive_links [OF mem_env_ok _ this, of "''old-archive''" "\<lambda>k d. k @ d" 0 "''/a''" "[]"] code
  show ?thesis by simp
qed

definition new_version :: "SettingItem list" where
  "new_version = [setting_item ''site_title'' ''AList'' 1, setting_item ''announcement'' ''hello'' 1]"

theorem upgrade_keeps_choices_witness:
  "\<exists>st row. initSettings mem_env (\<lambda>_. []) new_version start = Some st \<and>
     sByKey (sdb mem_env) (table st) ''site_title'' = Inr row \<and> ItemValue row = ''mine''"
proof -
  have "\<not> Option.is_none (initSettings mem_env (\<lambda>_. []) new_version start)" by code_simp
  then obtain st where st: "initSettings mem_env (\<lambda>_. []) new_version start = Some st" by (auto simp: Option.is_none_def)
  have "sByKey (sdb mem_env) (table start) ''site_title'' = Inr (setting_item ''site_title'' ''mine'' 1)" by code_simp
  moreover have "distinct (map ItemKey new_version)" "settingGroupCache start = (\<lambda>_. None)"
    by (simp_all add: new_version_def setting_item_def start_empty)
  ultimately obtain row where row: "sByKey (sdb mem_env) (table st) ''site_title'' = Inr row"
      "if isActive new_version ''site_title''
       then \<forall>item \<in> set new_version. ItemKey item = ''site_title'' \<and> ''site_title'' \<noteq> ''version'' \<and>
         chosen (\<lambda>_. []) item (ItemValue (setting_item ''site_title'' ''mine'' 1)) \<longrightarrow>
           ItemValue row = ItemValue (setting_item ''site_title'' ''mine'' 1)
       else ItemFlag row = DEPRECATED \<and> ItemValue row = ItemValue (setting_item ''site_title'' ''mine'' 1)"
    using upgrade_keeps_choices [OF mem_env_ok st] by blast
  then show ?thesis using st
    by (auto simp: new_version_def isActive_def setting_item_def chosen_def old_default_def)
qed

definition full_disk :: "(account_mem \<times> setting_mem, unit) config" where
  "full_disk = fresh_config [setting_item ''default_role'' ''1'' 4] True"

theorem refused_default_role_in_effect_witness:
  "snd (store_default_role mem_env 3 full_disk) = Some (ErrExt ''disk full'') \<and>
   sByKey (sdb mem_env) (table (fst (store_default_role mem_env 3 full_disk))) ''default_role'' = Inr (setting_item ''default_role'' ''1'' 4) \<and>
   snd (GetSettingItemByKey mem_env (fst (store_default_role mem_env 3 full_disk)) ''default_role'') = Inr (setting_item ''default_role'' ''3'' 4)"
proof -
  have err: "snd (store_default_role mem_env 3 full_disk) = Some (ErrExt ''disk full'')" by code_simp
  then have run: "store_default_role mem_env 3 full_disk = (fst (store_default_role mem_env 3 full_disk), Some (ErrExt ''disk full''))"
    by (metis prod.collapse)
  have row: "snd (GetSettingItemByKey mem_env full_disk ''default_role'') = Inr (setting_item ''default_role'' ''1'' 4)" by code_simp
  have table: "sByKey (sdb mem_env) (table full_disk) ''default_role'' = Inr (setting_item ''default_role'' ''1'' 4)" by code_simp
  have empty: "settingCache full_disk = (\<lambda>_. None)" "settingGroupCache full_disk = (\<lambda>_. None)"
    by (simp_all add: full_disk_def fresh_config_empty)
  have "fold (setting_run mem_env (\<lambda>k d. k) 0) [] full_disk = full_disk" by simp
  note res = refused_default_role_in_effect [OF mem_env_ok empty this row run]
  have "(setting_item ''default_role'' ''1'' 4)\<lparr>ItemValue := FormatInt (wrap64 (int 3))\<rparr> = setting_item ''default_role'' ''3'' 4"
    by code_simp
  with res err table show ?thesis by (simp add: view_def)
qed

end
