(* ===== verification/Spec2Isabelle.thy ===== *)
theory Spec2Isabelle
  imports HttpRange WebdavHandler UrlTreeOps StorageReg ShareAdmin RoleCache LoginCases NetServeProps AliasCases SettingsCases
begin

text \<open>
  \<^bold>\<open>Verification of the alist server.\<close>  alist (\<^verbatim>\<open>src/alist\<close>) mounts storages of many kinds below one tree of
  paths and serves that tree over HTTP and WebDAV to users with roles, to guests and, through shares and
  signed links, to anybody.  This development models the server's own logic, from the parsing of paths and
  headers up to whole requests, and proves what each part promises.

  \<^bold>\<open>The parts and how they interact.\<close>  A request names a path.  The path is cleaned and joined to the base path of
  the user (\<open>PathUtil\<close>, \<open>Perm\<close>), the roles and the settings of the nearest folder decide whether the request is
  allowed (\<open>Perm\<close>, \<open>MetaOps\<close>), the mounted file system finds the storage with the longest mount path and takes the
  rest of the path to it (\<open>StorageMap\<close>, \<open>Vfs\<close>), the file operations on that storage consult the cache of listings
  and call the driver (\<open>OpCache\<close>, \<open>OpFs\<close>).  WebDAV requests hold locks while they do that (\<open>MemLS\<close>,
  \<open>WebdavHandler\<close>); downloads pass a gate that wants signed links (\<open>Sign\<close>, \<open>FsRead\<close>); shares open a part of the tree
  to visitors (\<open>Shares\<close>, \<open>ShareAdmin\<close>).

  \<^bold>\<open>Conventions.\<close>  A Go struct is a record with the same fields, an enumeration or an error list a datatype, a
  function or method a definition of the same name (with a prefix or suffix where HOL or another package has the
  name: \<open>fs_list\<close> is \<^verbatim>\<open>fs.list\<close>).  State is passed explicitly: an operation takes the state and returns it with its
  result; a pair \<^verbatim>\<open>(value, error)\<close> is a sum with the error on the left; a handler returns its HTTP status.
  \<^const>\<open>None\<close> in a result of type \<open>_ go\<close> is a panic, a stack overflow or a loop that does not end.  Strings are byte
  lists, \<^verbatim>\<open>int64\<close> is \<^typ>\<open>int\<close> with \<open>wrap64\<close> around every operation that can leave the range, permission masks
  are 32-bit words.  What is not under \<^verbatim>\<open>src\<close> is an argument: database queries (\<^verbatim>\<open>gorm\<close>), drivers' remote stores,
  regular expressions, message authentication codes, hash functions, clocks, random strings.  Where a theorem
  relies on such code, the law it relies on is a named hypothesis (\<open>meta_db_ok\<close>, \<open>share_db_ok\<close>, \<open>share_rows_ok\<close>, \<open>setting_db_ok\<close>,
  \<open>driver laws of OpFs\<close>) and a witness instantiates it.

  \<^bold>\<open>The theories\<close>, in the order of the code:

  \<^item> \<open>GoPrelude\<close>: \<^verbatim>\<open>strings\<close>, \<^verbatim>\<open>strconv\<close>, 64-bit integers; \<open>Errs\<close>: \<^verbatim>\<open>internal/errs\<close>.
  \<^item> \<open>PathUtil\<close>: Go's \<^verbatim>\<open>path\<close> and \<^verbatim>\<open>pkg/utils/path.go\<close>.  Clean paths are exactly the renderings of lists of valid
    components (\<open>render\<close>, \<open>fcomps\<close>), which turns statements about prefixes of strings into prefixes of lists.
  \<^item> \<open>HttpRange\<close>: \<^verbatim>\<open>pkg/http_range\<close>, \<^verbatim>\<open>Range\<close> and \<^verbatim>\<open>Content-Range\<close> headers: bounds and round trips.
  \<^item> \<open>GoHeap\<close>: \<^verbatim>\<open>container/heap\<close> over any \<^verbatim>\<open>heap.Interface\<close> (locale \<open>heap_interface\<close>, interpreted by \<^verbatim>\<open>byExpiry\<close>).
    \<open>MemLS\<close>, \<open>MemLSInv\<close>, \<open>MemLSOps\<close>, \<open>MemLSSpec\<close>: \<^verbatim>\<open>server/webdav/lock.go\<close>, its node store, name and token tables,
    reference counts and expiry queue; the invariant \<open>consistent\<close>; the contract as functions on a table of locks and
    the refinement of every operation.  \<open>LockSystem\<close>: the interface as the locale \<open>lock_system\<close>, its interpretation
    by \<^verbatim>\<open>memLS\<close>, and the states reachable by interleaved requests.
  \<^item> \<open>IfHeader\<close>: \<^verbatim>\<open>server/webdav/if.go\<close>.  \<open>WebdavHandler\<close>: \<^verbatim>\<open>webdav.go\<close> and \<^verbatim>\<open>file.go\<close>, from \<^verbatim>\<open>ServeHTTP\<close> down, over the
    lock system and a record of file operations.
  \<^item> \<open>Perm\<close>: users, roles, permission masks, passwords, base paths (\<^verbatim>\<open>internal/model\<close>, \<^verbatim>\<open>server/common\<close>).
  \<^item> \<open>ObjModel\<close>: objects and listings (\<^verbatim>\<open>internal/model/obj.go\<close>).  \<open>UrlTree\<close>, \<open>UrlTreeText\<close>, \<open>UrlTreeOps\<close>: the driver
    \<^verbatim>\<open>drivers/url_tree\<close>, its text format both ways and all its operations.
  \<^item> \<open>OpCache\<close>, \<open>OpFs\<close>: \<^verbatim>\<open>internal/op/fs.go\<close>, the cache of listings and the file operations over a driver.
    \<open>StorageMap\<close>, \<open>StorageReg\<close>: \<^verbatim>\<open>internal/op/storage.go\<close>, which storage serves a path, balancing, virtual folders; the
    life cycle of storages.  \<open>MetaOps\<close>: \<^verbatim>\<open>internal/op/meta.go\<close>.
  \<^item> \<open>Vfs\<close>: \<^verbatim>\<open>internal/fs\<close>, the mounted file system with copy tasks; its frame lemmas (\<open>same_but\<close>) say which storages
    a call can change.  \<open>FsManage\<close>: the requests that change files.  \<open>FsRead\<close>: listings, pages, single objects and the
    download gate; \<open>Sign\<close> and \<open>UrlPath\<close> below it: signatures and paths inside links.
  \<^item> \<open>Shares\<close>, \<open>ShareAdmin\<close>: public shares, for visitors and for owners.
  \<^item> \<open>DeviceSession\<close>: the sessions of devices (\<^verbatim>\<open>internal/device\<close>, \<^verbatim>\<open>internal/session\<close>, \<^verbatim>\<open>internal/db/session.go\<close>) and the
    settings that bound them.  Its invariant: the number of active devices of a user stays within \<^verbatim>\<open>max_devices\<close>.
  \<^item> \<open>Accounts\<close>: users and roles with their caches and the fixed administrator (\<^verbatim>\<open>internal/op/user.go\<close>, \<^verbatim>\<open>role.go\<close>), and
    the age of a password in every copy of a user's object; \<open>RoleCache\<close>: a role read through the cache has the rights
    of its row.
  \<^item> \<open>Login\<close>: tokens, the authentication of requests, logins and the requests on users (\<^verbatim>\<open>server/common/auth.go\<close>,
    \<^verbatim>\<open>server/middlewares/auth.go\<close>, \<^verbatim>\<open>server/handles/auth.go\<close>, \<^verbatim>\<open>user.go\<close>), composed into a server that answers
    one request after the other; a token speaks for the login that gave it.  \<open>LoginProps\<close>: a changed password revokes
    tokens, guesses are limited; \<open>LoginCases\<close>: witnesses, and cases in which the server behaves otherwise than meant.
  \<^item> \<open>Downloader\<close>: the download of a range in chunks (\<^verbatim>\<open>internal/net/request.go\<close>): its goroutines, buffers, channel, limit
    and reader, as steps that may come in any order (\<open>dl_exec\<close>, \<open>dl_reached\<close>).  \<open>DownloadInv\<close>, \<open>DownloadSteps\<close>: the
    invariant, kept by every step; \<open>DownloadCover\<close>: no chunk is lost; \<open>DownloadProps\<close>: the reader gets the bytes of the
    range in order, a send never waits, and runs in which a download hangs, panics or needs more memory than meant.
  \<^item> \<open>NetServe\<close>: serving a content over HTTP (\<^verbatim>\<open>internal/net/util.go\<close>, \<^verbatim>\<open>serve.go\<close>, \<^verbatim>\<open>internal/stream/util.go\<close>,
    \<^verbatim>\<open>server/common/proxy.go\<close>): entity tags, preconditions, ranges, multipart bodies, the readers over the downloader and over
    links.  \<open>NetServeProps\<close>: the bytes and the length that are sent are right, conditional requests compare the listed tags,
    servers without ranges are read rightly, and the request that crashes the proxy.
  \<^item> \<open>Alias\<close>: the driver \<^verbatim>\<open>drivers/alias\<close> over the mounted file system: which folders its names stand for, where its requests go.
    \<open>AliasCases\<close>: witnesses.
  \<^item> \<open>Settings\<close>: the settings (\<^verbatim>\<open>internal/op/setting.go\<close>, \<^verbatim>\<open>hook.go\<close>, \<^verbatim>\<open>server/handles/setting.go\<close>,
    \<^verbatim>\<open>internal/bootstrap/data/setting.go\<close>): rows, caches by key and by list, hooks, requests, the upgrade at the start and
    the keys of the signers.  \<open>SettingsProps\<close>: reads agree with the table after any history, an upgrade keeps what was
    chosen; \<open>SettingsCases\<close>: a table in memory that satisfies the laws, and witnesses.

  \<^bold>\<open>What is shown.\<close>  For each component: an invariant of its state that every operation keeps (\<open>consistent\<close> of the
  lock system, \<open>storages_ok\<close> of the mounts, \<open>regular\<close> of the URL tree, \<open>coherent\<close> of the caches, \<open>owned\<close> of the shares),
  the behaviour of its operations on every branch against a specification without the data structure (the table
  of locks, the driver without a cache, the table without a cache, the longest match, the pages of a listing), and
  for requests that they neither panic nor act beyond the permission of the user.  Some theorems record what the
  code does where a reader would expect something else; the manifest lists them as findings.

  \<^bold>\<open>Bounds and fuel.\<close>  \<open>ClearCache\<close> recurses through cached listings with the depth of the stack as an argument; it
  is shown to return when the stack is deeper than the longest cached path.  \<open>getNearestMeta\<close> goes up one component at
  a time with the length of the path as fuel, which is shown to suffice for clean paths.
  \<open>FsRemoveEmptyDirectory\<close> and \<open>FsRecursiveMove\<close> walk a tree that a remote store answers for, which need not end:
  their fuel is an argument and what is proved of them holds for every fuel.  \<open>walkToRoot\<close>, the parsers and the heap
  loops are total with termination proofs.
  \<^bold>\<open>Not modelled.\<close>  The drivers for remote services other than those named (HTTP clients of third-party interfaces whose
  answers are not in the sources), \<^verbatim>\<open>server/webdav/internal/xml\<close> (a copy of the standard library's decoder) and the
  XML bodies, the streams of uploads, the database layer, bootstrap, configuration and command line,
  background workers of third-party libraries (task manager, cron, index builders), and responses that only format
  what the model already computes.
\<close>

end
